(* ===== verification/Prelude.thy ===== *)
theory Prelude
  imports Main "HOL-Library.Word"
begin

text \<open>
  Vocabulary shared by every component: the status codes of \<open>include/c_orm_meta.h\<close>, C strings,
  the allocator of \<open>src/c_orm_alloc.c\<close>, and the sequencing idiom
  \<open>rc = f(...); if (rc != C_ORM_OK) return rc;\<close> that almost every function of the library uses.

  A C string is the list of its characters before the terminating NUL; a \<open>const char *\<close> that the
  code tests against NULL is a \<open>string option\<close>.
\<close>

section \<open>Status codes\<close>

datatype c_orm_error_t =
    C_ORM_OK
  | C_ORM_ERROR_MEMORY
  | C_ORM_ERROR_CONNECTION
  | C_ORM_ERROR_SQL
  | C_ORM_ERROR_BIND
  | C_ORM_ERROR_STEP
  | C_ORM_ERROR_TYPE_MISMATCH
  | C_ORM_ERROR_NOT_FOUND
  | C_ORM_ERROR_NOT_IMPLEMENTED
  | C_ORM_ERROR_UNKNOWN
  | C_ORM_ERROR_EXPIRED
  | C_ORM_ERROR_VALIDATION
  | C_ORM_ERROR_RECURSION
  | C_ORM_ERROR_READ_ONLY

type_synonym cptr = "string option"

section \<open>The allocator\<close>

text \<open>
  \<open>C_ORM_MALLOC\<close>, \<open>C_ORM_REALLOC\<close> and \<open>C_ORM_FREE\<close> are replaceable (\<open>c_orm_set_allocators\<close>) and any
  call of the first two may return NULL. The outcomes of the coming requests are a script,
  universally quantified in the theorems: \<open>True\<close> is a request that is served, and once the script is
  used up every request is served. \<open>live\<close> counts the blocks that are allocated and not yet freed, so
  a theorem about it is a theorem about leaks and about double frees.
\<close>

record heap =
  script :: "bool list"
  live :: int

definition C_ORM_MALLOC :: "heap \<Rightarrow> bool \<times> heap" where
  "C_ORM_MALLOC h =
     (case script h of
        [] \<Rightarrow> (True, h\<lparr>live := live h + 1\<rparr>)
      | ok # rest \<Rightarrow>
          (ok, h\<lparr>script := rest, live := (if ok then live h + 1 else live h)\<rparr>))"

definition C_ORM_REALLOC :: "heap \<Rightarrow> bool \<times> heap" where
  \<comment> \<open>of a block that exists: on success it moves, on failure it stays allocated\<close>
  "C_ORM_REALLOC h =
     (case script h of [] \<Rightarrow> (True, h) | ok # rest \<Rightarrow> (ok, h\<lparr>script := rest\<rparr>))"

definition C_ORM_FREE :: "heap \<Rightarrow> heap" where
  "C_ORM_FREE h = h\<lparr>live := live h - 1\<rparr>"

definition no_oom :: "heap \<Rightarrow> bool" where
  "no_oom h \<longleftrightarrow> script h = []"

lemma malloc_no_oom [simp]: "no_oom h \<Longrightarrow> C_ORM_MALLOC h = (True, h\<lparr>live := live h + 1\<rparr>)"
  by (simp add: C_ORM_MALLOC_def no_oom_def)

lemma realloc_no_oom [simp]: "no_oom h \<Longrightarrow> C_ORM_REALLOC h = (True, h)"
  by (simp add: C_ORM_REALLOC_def no_oom_def)

lemma no_oom_live [simp]: "no_oom (h\<lparr>live := n\<rparr>) = no_oom h"
  by (simp add: no_oom_def)

lemma no_oom_free [simp]: "no_oom (C_ORM_FREE h) = no_oom h"
  by (simp add: no_oom_def C_ORM_FREE_def)

lemma live_free [simp]: "live (C_ORM_FREE h) = live h - 1"
  by (simp add: C_ORM_FREE_def)

lemma malloc_live: "C_ORM_MALLOC h = (ok, h') \<Longrightarrow> live h' = (if ok then live h + 1 else live h)"
  by (auto simp: C_ORM_MALLOC_def split: list.splits)

lemma realloc_live: "C_ORM_REALLOC h = (ok, h') \<Longrightarrow> live h' = live h"
  by (auto simp: C_ORM_REALLOC_def split: list.splits)

section \<open>Sequencing of fallible calls\<close>

text \<open>
  A call of the library is a function from a state to a status and a new state. \<open>then_ok f g\<close> is
  \<open>rc = f(...); if (rc != C_ORM_OK) return rc; return g(...);\<close>, and \<open>run_steps\<close> a chain of such calls.
\<close>

type_synonym 's call = "'s \<Rightarrow> c_orm_error_t \<times> 's"

definition then_ok :: "'s call \<Rightarrow> 's call \<Rightarrow> 's call" where
  "then_ok f g s = (case f s of (rc, s') \<Rightarrow> if rc = C_ORM_OK then g s' else (rc, s'))"

definition return_ok :: "'s call" where
  "return_ok s = (C_ORM_OK, s)"

fun run_steps :: "'s call list \<Rightarrow> 's call" where
  "run_steps [] s = (C_ORM_OK, s)"
| "run_steps (f # fs) s = (case f s of (rc, s') \<Rightarrow> if rc = C_ORM_OK then run_steps fs s' else (rc, s'))"

lemma then_ok_cong [fundef_cong]:
  assumes "s = s'" and "f s' = f' s'" and "\<And>t. f' s' = (C_ORM_OK, t) \<Longrightarrow> g t = g' t"
  shows "then_ok f g s = then_ok f' g' s'"
  using assms by (auto simp: then_ok_def split: prod.splits)

lemma then_ok_OK:
  "then_ok f g s = (C_ORM_OK, t) \<longleftrightarrow> (\<exists>u. f s = (C_ORM_OK, u) \<and> g u = (C_ORM_OK, t))"
  by (auto simp: then_ok_def split: prod.splits)

lemma run_steps_append: "run_steps (fs @ gs) = then_ok (run_steps fs) (run_steps gs)"
proof
  fix s show "run_steps (fs @ gs) s = then_ok (run_steps fs) (run_steps gs) s"
    by (induction fs arbitrary: s) (auto simp: then_ok_def split: prod.splits)
qed

text \<open>A relation between the states before and after that every call of a chain keeps, the chain keeps.\<close>

lemma run_steps_rel:
  assumes refl: "\<And>s. R s s" and trans: "\<And>a b c. R a b \<Longrightarrow> R b c \<Longrightarrow> R a c"
    and step: "\<And>f s rc t. f \<in> set fs \<Longrightarrow> f s = (rc, t) \<Longrightarrow> R s t"
    and run: "run_steps fs s = (rc, t)"
  shows "R s t"
  using step run
proof (induction fs arbitrary: s)
  case Nil
  then show ?case using refl by simp
next
  case (Cons f fs)
  obtain rc1 u where f: "f s = (rc1, u)" by (cases "f s") auto
  with Cons.prems have su: "R s u" by auto
  show ?case
  proof (cases "rc1 = C_ORM_OK")
    case True
    with f Cons.prems(2) have "run_steps fs u = (rc, t)" by simp
    moreover have "\<And>g s rc t. g \<in> set fs \<Longrightarrow> g s = (rc, t) \<Longrightarrow> R s t"
      using Cons.prems(1) by auto
    ultimately have "R u t" using Cons.IH by blast
    with su show ?thesis by (rule trans)
  next
    case False
    with f su Cons.prems(2) show ?thesis by simp
  qed
qed

text \<open>\<open>appends\<close>: a chain of appends with an early return on the first that fails (the \<open>APPEND\<close> idiom).\<close>

definition appends :: "(cptr \<Rightarrow> 's call) \<Rightarrow> cptr list \<Rightarrow> 's call" where
  "appends app xs = run_steps (map app xs)"

lemma appends_Nil [simp]: "appends app [] s = (C_ORM_OK, s)"
  by (simp add: appends_def)

lemma appends_Cons: "appends app (x # xs) = then_ok (app x) (appends app xs)"
  by (rule ext) (simp add: appends_def then_ok_def)

definition texts :: "cptr list \<Rightarrow> string" where
  "texts xs = concat (map the xs)"

lemma texts_simps [simp]: "texts [] = []" "texts (Some t # xs) = t @ texts xs"
  by (simp_all add: texts_def)

lemma texts_append [simp]: "texts (xs @ ys) = texts xs @ texts ys"
  by (simp add: texts_def)

text \<open>
  \<open>keeps R f\<close>: every run of the call, successful or not, relates its states by \<open>R\<close>; with
  \<open>same m\<close> it leaves the measure \<open>m\<close> alone. \<open>serves P f\<close>: from a state in \<open>P\<close> the call succeeds and
  stays in \<open>P\<close>.
\<close>

definition keeps :: "('s \<Rightarrow> 's \<Rightarrow> bool) \<Rightarrow> 's call \<Rightarrow> bool" where
  "keeps R f \<longleftrightarrow> (\<forall>s. R s (snd (f s)))"

definition same :: "('s \<Rightarrow> 'm) \<Rightarrow> 's \<Rightarrow> 's \<Rightarrow> bool" where
  "same m s t \<longleftrightarrow> m s = m t"

definition serves :: "('s \<Rightarrow> bool) \<Rightarrow> 's call \<Rightarrow> bool" where
  "serves P f \<longleftrightarrow> (\<forall>s. P s \<longrightarrow> (\<exists>t. f s = (C_ORM_OK, t) \<and> P t))"

named_theorems keeps_intro and serves_intro

lemma keepsD: "keeps (same m) f \<Longrightarrow> f s = (rc, t) \<Longrightarrow> m t = m s"
  by (auto simp: keeps_def same_def) (metis snd_conv)

lemma keepsI: "(\<And>s rc t. f s = (rc, t) \<Longrightarrow> m t = m s) \<Longrightarrow> keeps (same m) f"
  by (simp add: keeps_def same_def) (metis prod.collapse)

lemma keeps_then_ok [keeps_intro]:
  assumes f: "keeps (same m) f" and g: "keeps (same m) g"
  shows "keeps (same m) (then_ok f g)"
proof (rule keepsI)
  fix s rc t assume r: "then_ok f g s = (rc, t)"
  obtain rc1 u where u: "f s = (rc1, u)" by (cases "f s")
  then have mu: "m u = m s" by (rule keepsD [OF f])
  show "m t = m s"
  proof (cases "rc1 = C_ORM_OK")
    case True
    with r u have "g u = (rc, t)" by (simp add: then_ok_def)
    from keepsD [OF g this] mu show ?thesis by simp
  next
    case False
    with r u mu show ?thesis by (simp add: then_ok_def)
  qed
qed

lemma keeps_run_steps [keeps_intro]:
  "(\<And>f. f \<in> set fs \<Longrightarrow> keeps (same m) f) \<Longrightarrow> keeps (same m) (run_steps fs)"
proof (induction fs)
  case Nil
  then show ?case by (simp add: keeps_def same_def)
next
  case (Cons f fs)
  have "run_steps (f # fs) = then_ok f (run_steps fs)" by (rule ext) (simp add: then_ok_def)
  with Cons show ?case by (simp add: keeps_then_ok)
qed

lemma keeps_appends [keeps_intro]:
  "(\<And>x. keeps (same m) (app x)) \<Longrightarrow> keeps (same m) (appends app xs)"
  unfolding appends_def by (rule keeps_run_steps) auto

lemma keeps_if [keeps_intro]:
  "keeps (same m) f \<Longrightarrow> keeps (same m) g \<Longrightarrow> keeps (same m) (\<lambda>s. if b s then f s else g s)"
  by (simp add: keeps_def)

lemma keeps_const [keeps_intro]: "keeps (same m) (\<lambda>s. (rc, s))"
  by (simp add: keeps_def same_def)

lemma servesD: "serves P f \<Longrightarrow> P s \<Longrightarrow> \<exists>t. f s = (C_ORM_OK, t) \<and> P t"
  by (simp add: serves_def)

lemma serves_then_ok [serves_intro]: "serves P f \<Longrightarrow> serves P g \<Longrightarrow> serves P (then_ok f g)"
  by (fastforce simp: serves_def then_ok_def)

lemma serves_run_steps [serves_intro]:
  "(\<And>f. f \<in> set fs \<Longrightarrow> serves P f) \<Longrightarrow> serves P (run_steps fs)"
proof (induction fs)
  case Nil
  then show ?case by (simp add: serves_def)
next
  case (Cons f fs)
  have "run_steps (f # fs) = then_ok f (run_steps fs)" by (rule ext) (simp add: then_ok_def)
  with Cons show ?case by (simp add: serves_then_ok)
qed

section \<open>Strings\<close>

text \<open>\<open>strstr\<close>: the offset of the first occurrence; \<open>strchr\<close>: the text before and after the first hit.\<close>

fun strstr :: "string \<Rightarrow> string \<Rightarrow> nat option" where
  "strstr hay needle =
     (if take (length needle) hay = needle then Some 0
      else case hay of [] \<Rightarrow> None | _ # rest \<Rightarrow> map_option Suc (strstr rest needle))"

declare strstr.simps [simp del]

fun strchr_split :: "char \<Rightarrow> string \<Rightarrow> (string \<times> string) option" where
  "strchr_split c [] = None"
| "strchr_split c (x # xs) =
     (if x = c then Some ([], xs)
      else map_option (\<lambda>(before, after). (x # before, after)) (strchr_split c xs))"

lemma strchr_split_Some: "strchr_split c s = Some (b, a) \<Longrightarrow> s = b @ c # a \<and> c \<notin> set b"
  by (induction s arbitrary: b) (auto split: if_splits)

lemma strchr_split_None: "strchr_split c s = None \<longleftrightarrow> c \<notin> set s"
  by (induction s) auto

lemma strchr_split_append: "c \<notin> set b \<Longrightarrow> strchr_split c (b @ c # a) = Some (b, a)"
  by (induction b) auto

lemma strstr_prefix: "strstr (needle @ rest) needle = Some 0"
  by (subst strstr.simps) simp

fun join :: "string \<Rightarrow> string list \<Rightarrow> string" where
  "join sep [] = []"
| "join sep [x] = x"
| "join sep (x # y # xs) = x @ sep @ join sep (y # xs)"

text \<open>The decimal rendering of \<open>%u\<close> and \<open>%lu\<close>.\<close>

fun decimal :: "nat \<Rightarrow> string" where
  "decimal n = (if n < 10 then [char_of (48 + n)] else decimal (n div 10) @ [char_of (48 + n mod 10)])"

declare decimal.simps [simp del]

lemma decimal_nonempty: "decimal n \<noteq> []"
  by (subst decimal.simps) simp

lemma decimal_length: "n < 10 ^ k \<Longrightarrow> 0 < k \<Longrightarrow> length (decimal n) \<le> k"
proof (induction n arbitrary: k rule: decimal.induct)
  case (1 n)
  show ?case
  proof (cases "n < 10")
    case True
    with 1(3) show ?thesis by (subst decimal.simps) simp
  next
    case False
    from 1(3) obtain j where k: "k = Suc j" by (cases k) auto
    with False 1(2) have j: "0 < j" by (cases j) auto
    from 1(2) k have "n div 10 < 10 ^ j" by (simp add: less_mult_imp_div_less mult.commute)
    from 1(1)[OF False this j] False k show ?thesis by (subst decimal.simps) simp
  qed
qed

text \<open>
  \<open>C_ORM_SPRINTF(buf, size, ...)\<close> is \<open>c_orm_sprintf\<close>, a \<open>vsnprintf\<close>: it keeps at most \<open>size - 1\<close>
  characters of the formatted text and always returns \<open>C_ORM_OK\<close>.
\<close>

definition C_ORM_SPRINTF :: "nat \<Rightarrow> string \<Rightarrow> string" where
  "C_ORM_SPRINTF sz tx = take (sz - 1) tx"

lemma sprintf_fits: "length tx < sz \<Longrightarrow> C_ORM_SPRINTF sz tx = tx"
  by (simp add: C_ORM_SPRINTF_def)

end
