(* ===== verification/Act.thy ===== *)
theory Act
  imports Prelude
begin

text \<open>
  Where the C code could read freed memory, leave an array or overflow a signed integer, the model has a third
  kind of outcome beside a result and an error code; that it does not occur is then a theorem.
\<close>

datatype 'a outcome = Ret 'a | Err c_orm_error_t | Stuck

text \<open>
  An operation on a state: an outcome and the state after it. \<open>pbind\<close> runs one operation and then, on its
  result, another; an error or \<open>Stuck\<close> ends the sequence.
\<close>

type_synonym ('s, 'a) act = "'s \<Rightarrow> 'a outcome \<times> 's"

definition pbind :: "('s, 'a) act \<Rightarrow> ('a \<Rightarrow> ('s, 'b) act) \<Rightarrow> ('s, 'b) act" where
  "pbind m k s = (case m s of (Ret a, t) \<Rightarrow> k a t | (Err e, t) \<Rightarrow> (Err e, t) | (Stuck, t) \<Rightarrow> (Stuck, t))"

definition preturn :: "'a \<Rightarrow> ('s, 'a) act" where
  "preturn a s = (Ret a, s)"

definition perr :: "c_orm_error_t \<Rightarrow> ('s, 'a) act" where
  "perr e s = (Err e, s)"

definition stuck :: "('s, 'a) act" where
  "stuck s = (Stuck, s)"

lemma pbind_cong [fundef_cong]:
  "s = s' \<Longrightarrow> m s' = m' s' \<Longrightarrow> (\<And>a t. m' s' = (Ret a, t) \<Longrightarrow> k a t = k' a t) \<Longrightarrow> pbind m k s = pbind m' k' s'"
  by (auto simp: pbind_def split: prod.splits outcome.splits)

lemma pbind_assoc: "pbind (pbind m k) l = pbind m (\<lambda>a. pbind (k a) l)"
  by (rule ext) (auto simp: pbind_def split: prod.splits outcome.splits)

lemma preturn_bind [simp]: "pbind (preturn a) k = k a"
  by (rule ext) (simp add: pbind_def preturn_def)

lemma pbind_Ret: "m s = (Ret a, t) \<Longrightarrow> pbind m k s = k a t"
  by (simp add: pbind_def)

lemma pbind_preturn [simp]: "pbind m preturn = m"
  by (rule ext) (auto simp: pbind_def preturn_def split: prod.splits outcome.splits)

section \<open>Triples\<close>

definition triple :: "bool \<Rightarrow> ('s \<Rightarrow> bool) \<Rightarrow> ('s, 'a) act \<Rightarrow> ('a \<Rightarrow> 's \<Rightarrow> bool) \<Rightarrow> ('s \<Rightarrow> bool) \<Rightarrow> bool" where
  \<comment> \<open>from \<open>P\<close>, a result satisfies \<open>Q\<close>, an error \<open>E\<close>, and \<open>Stuck\<close> is allowed or not\<close>
  "triple U P m Q E \<longleftrightarrow> (\<forall>s. P s \<longrightarrow> (case m s of (Ret a, t) \<Rightarrow> Q a t | (Err e, t) \<Rightarrow> E t | (Stuck, t) \<Rightarrow> U))"

lemma triple_bind:
  assumes "triple U P m R E" and "\<And>a. triple U (R a) (k a) Q E"
  shows "triple U P (pbind m k) Q E"
  unfolding triple_def
proof (intro allI impI)
  fix s assume P: "P s"
  obtain r t where r: "m s = (r, t)" by (cases "m s")
  show "case pbind m k s of (Ret a, t) \<Rightarrow> Q a t | (Err e, t) \<Rightarrow> E t | (Stuck, t) \<Rightarrow> U"
    using assms P r by (cases r) (fastforce simp: pbind_def triple_def)+
qed

lemma triple_return: "(\<And>s. P s \<Longrightarrow> Q a s) \<Longrightarrow> triple U P (preturn a) Q E"
  by (simp add: triple_def preturn_def)

lemma triple_perr: "(\<And>s. P s \<Longrightarrow> E s) \<Longrightarrow> triple U P (perr e) Q E"
  by (simp add: triple_def perr_def)

lemma triple_conseq:
  "triple U P m Q E \<Longrightarrow> (\<And>s. P' s \<Longrightarrow> P s) \<Longrightarrow> (\<And>a s. Q a s \<Longrightarrow> Q' a s) \<Longrightarrow> (\<And>s. E s \<Longrightarrow> E' s) \<Longrightarrow> triple U P' m Q' E'"
  unfolding triple_def by (fastforce split: prod.splits outcome.splits)

lemma triple_cong: "(\<And>s. P s \<Longrightarrow> m s = m' s) \<Longrightarrow> triple U P m' Q E \<Longrightarrow> triple U P m Q E"
  by (simp add: triple_def)

lemma triple_weaken: "triple U P m Q E \<Longrightarrow> (\<And>s. P' s \<Longrightarrow> P s) \<Longrightarrow> triple U P' m Q E"
  by (rule triple_conseq)

lemma triple_at:
  assumes "triple U P m Q E" and "P s" and "m s = (r, t)"
  shows "case r of Ret a \<Rightarrow> Q a t | Err e \<Rightarrow> E t | Stuck \<Rightarrow> U"
  using assms by (force simp: triple_def split: outcome.splits)

text \<open>\<open>yields p m\<close>: every result of \<open>m\<close> satisfies \<open>p\<close>.\<close>

definition yields :: "('a \<Rightarrow> bool) \<Rightarrow> ('s, 'a) act \<Rightarrow> bool" where
  "yields p m \<longleftrightarrow> triple True (\<lambda>_. True) m (\<lambda>a _. p a) (\<lambda>_. True)"

lemma yields_bind: "(\<And>a. yields p (k a)) \<Longrightarrow> yields p (pbind m k)"
  unfolding yields_def by (rule triple_bind[where R = "\<lambda>_ _. True"]) (auto simp: triple_def split: prod.splits outcome.splits)

lemma yieldsD: "yields p m \<Longrightarrow> m s = (Ret a, t) \<Longrightarrow> p a"
  unfolding yields_def triple_def by (drule spec[of _ s]) simp

lemma yieldsI: "(\<And>s a t. m s = (Ret a, t) \<Longrightarrow> p a) \<Longrightarrow> yields p m"
  by (auto simp: yields_def triple_def split: prod.splits outcome.splits)

lemma yields_bind2: "yields q m \<Longrightarrow> (\<And>a. q a \<Longrightarrow> yields p (k a)) \<Longrightarrow> yields p (pbind m k)"
  by (rule yieldsI) (auto simp: pbind_def dest: yieldsD split: prod.splits outcome.splits)

section \<open>Sums\<close>

fun sum_of :: "('a \<Rightarrow> int) \<Rightarrow> 'a list \<Rightarrow> int" where
  "sum_of f [] = 0"
| "sum_of f (x # xs) = f x + sum_of f xs"

lemma sum_of_append [simp]: "sum_of f (xs @ ys) = sum_of f xs + sum_of f ys"
  by (induction xs) auto

end
