(* ===== verification/StringBuilder.thy ===== *)
theory StringBuilder
  imports Prelude
begin

text \<open>
  \<open>src/c_orm_string_builder.c\<close>: the growable buffer every SQL text is built in, and
  \<open>c_orm_strdup\<close> of \<open>src/c_orm_alloc.c\<close>. A \<open>c_orm_string_builder_t *\<close> is a
  \<open>string_builder option\<close>; the out parameters of the C functions are further results, and the
  \<open>bool\<close> argument of \<open>c_orm_string_builder_init\<close> and of the readers says whether the out pointer
  was given. The interface the query builders use is the locale \<open>text_sink\<close>, interpreted here.
\<close>

section \<open>State\<close>

record string_builder =
  buffer :: string
  sb_length :: nat
  capacity :: nat
  valid :: bool

type_synonym sb_state = "string_builder option \<times> heap"

section \<open>Operations\<close>

definition c_orm_strdup :: "bool \<Rightarrow> cptr \<Rightarrow> heap \<Rightarrow> c_orm_error_t \<times> cptr \<times> heap" where
  "c_orm_strdup out_dup s h =
     (if \<not> out_dup then (C_ORM_ERROR_VALIDATION, None, h)
      else case s of
        None \<Rightarrow> (C_ORM_OK, None, h)
      | Some tx \<Rightarrow>
          (case C_ORM_MALLOC h of (ok, h1) \<Rightarrow>
             if ok then (C_ORM_OK, Some tx, h1) else (C_ORM_ERROR_MEMORY, None, h1)))"

definition c_orm_string_builder_init ::
    "bool \<Rightarrow> heap \<Rightarrow> c_orm_error_t \<times> string_builder option \<times> heap" where
  "c_orm_string_builder_init out_builder h =
     (if \<not> out_builder then (C_ORM_ERROR_UNKNOWN, None, h)
      else case C_ORM_MALLOC h of (ok, h1) \<Rightarrow>
        if \<not> ok then (C_ORM_ERROR_MEMORY, None, h1)
        else case C_ORM_MALLOC h1 of (ok2, h2) \<Rightarrow>
          if \<not> ok2 then (C_ORM_ERROR_MEMORY, None, C_ORM_FREE h2)
          else (C_ORM_OK,
                Some \<lparr>buffer = [], sb_length = 0, capacity = 1, valid = True\<rparr>, h2))"

definition c_orm_string_builder_free :: "string_builder option \<Rightarrow> heap \<Rightarrow> heap" where
  \<comment> \<open>the buffer, then the structure\<close>
  "c_orm_string_builder_free builder h =
     (case builder of None \<Rightarrow> h | Some b \<Rightarrow> C_ORM_FREE (C_ORM_FREE h))"

text \<open>
  \<open>new_capacity = capacity * 2; while (new_capacity < required) new_capacity *= 2;\<close> The loop is
  entered with the capacity doubled once. A capacity of 0 would make it spin; \<open>sb_inv\<close> below says it is
  never 0, so the guard \<open>c = 0\<close>, which makes the recursion total, is never taken.
\<close>

function grow_capacity :: "nat \<Rightarrow> nat \<Rightarrow> nat" where
  "grow_capacity c required =
     (if c < required \<and> c \<noteq> 0 then grow_capacity (c * 2) required else c)"
  by pat_completeness auto
termination
  by (relation "measure (\<lambda>(c, required). required - c)") auto

declare grow_capacity.simps [simp del]

text \<open>The same loop on \<open>size_t\<close>, where doubling wraps; \<open>None\<close> is a loop that never ends.\<close>

partial_function (option) grow_size_t :: "64 word \<Rightarrow> 64 word \<Rightarrow> 64 word option" where
  "grow_size_t c required =
     (if c < required then grow_size_t (c * 2) required else Some c)"

definition c_orm_string_builder_append :: "cptr \<Rightarrow> sb_state call" where
  "c_orm_string_builder_append str s =
     (case s of (builder, h) \<Rightarrow>
        case (builder, str) of
          (Some b, Some tx) \<Rightarrow>
            if \<not> valid b then (C_ORM_ERROR_MEMORY, s)
            else let len = length tx; required_capacity = sb_length b + len + 1 in
              if len = 0 then (C_ORM_OK, s)
              else if required_capacity > capacity b then
                let new_capacity = grow_capacity (capacity b * 2) required_capacity in
                case C_ORM_REALLOC h of (ok, h1) \<Rightarrow>
                  if \<not> ok then (C_ORM_ERROR_MEMORY, (Some (b\<lparr>valid := False\<rparr>), h1))
                  else (C_ORM_OK,
                    (Some (b\<lparr>buffer := take (sb_length b) (buffer b) @ tx,
                            sb_length := sb_length b + len,
                            capacity := new_capacity\<rparr>), h1))
              else (C_ORM_OK,
                (Some (b\<lparr>buffer := take (sb_length b) (buffer b) @ tx,
                        sb_length := sb_length b + len\<rparr>), h))
        | _ \<Rightarrow> (C_ORM_ERROR_UNKNOWN, s))"

definition c_orm_string_builder_get :: "string_builder option \<Rightarrow> bool \<Rightarrow> c_orm_error_t \<times> cptr" where
  "c_orm_string_builder_get builder out_str =
     (case builder of
        None \<Rightarrow> (C_ORM_ERROR_UNKNOWN, None)
      | Some b \<Rightarrow>
          if \<not> out_str then (C_ORM_ERROR_UNKNOWN, None)
          else if \<not> valid b then (C_ORM_ERROR_MEMORY, None)
          else (C_ORM_OK, Some (buffer b)))"

definition c_orm_string_builder_len ::
    "string_builder option \<Rightarrow> bool \<Rightarrow> c_orm_error_t \<times> nat option" where
  "c_orm_string_builder_len builder out_len =
     (case builder of
        None \<Rightarrow> (C_ORM_ERROR_UNKNOWN, None)
      | Some b \<Rightarrow>
          if \<not> out_len then (C_ORM_ERROR_UNKNOWN, None)
          else if \<not> valid b then (C_ORM_ERROR_MEMORY, None)
          else (C_ORM_OK, Some (sb_length b)))"

section \<open>The growth loop\<close>

lemma grow_capacity_ge: "0 < c \<Longrightarrow> required \<le> grow_capacity c required"
proof (induction c required rule: grow_capacity.induct)
  case (1 c required)
  then show ?case by (subst grow_capacity.simps) auto
qed

lemma grow_capacity_power: "grow_capacity (2 ^ k) required = c \<Longrightarrow> \<exists>j. c = 2 ^ j"
proof (induction "2 ^ k :: nat" required arbitrary: k rule: grow_capacity.induct)
  case (1 required)
  show ?case
  proof (cases "2 ^ k < required")
    case True
    then have "grow_capacity (2 ^ Suc k) required = c"
      using 1(2) by (subst (asm) grow_capacity.simps) (simp add: mult.commute)
    then show ?thesis using 1(1)[of "Suc k"] True by (simp add: mult.commute)
  next
    case False
    then show ?thesis using 1(2) by (subst (asm) grow_capacity.simps) auto
  qed
qed

lemma word_double:
  assumes "unat (c :: 64 word) < 2 ^ 63"
  shows "unat (c * 2) = unat c * 2"
  using assms by (simp add: unat_word_ariths)

lemma grow_size_t_refines:
  assumes "0 < c" and "unat (required :: 64 word) \<le> 2 ^ 63"
  shows "\<exists>r. grow_size_t c required = Some r \<and> unat r = grow_capacity (unat c) (unat required)"
  using assms
proof (induction "unat c" "unat required" arbitrary: c rule: grow_capacity.induct)
  case (1 c)
  show ?case
  proof (cases "c < required")
    case True
    then have lt: "unat c < unat required" by (simp add: word_less_nat_alt)
    with 1(3) have d: "unat (c * 2) = unat c * 2" by (intro word_double) simp
    from 1(2) have c0: "unat c \<noteq> 0" by (simp add: unat_eq_0 word_gt_0)
    with d have "0 < c * 2" by (metis unat_eq_zero word_neq_0_conv mult_is_0 zero_neq_numeral)
    with 1(1)[OF _ d[symmetric]] lt c0 1(3) d obtain r where
      "grow_size_t (c * 2) required = Some r" "unat r = grow_capacity (unat c * 2) (unat required)"
      by auto
    with True lt c0 show ?thesis
      by (subst grow_size_t.simps, subst grow_capacity.simps) simp
  next
    case False
    then show ?thesis
      by (subst grow_size_t.simps, subst grow_capacity.simps) (simp add: word_less_nat_alt)
  qed
qed

text \<open>
  Past half of the address space the wrapped capacity reaches 0 and stays there: the C loop would not
  return. No string is that long, so every call of \<open>c_orm_string_builder_append\<close> is covered by
  \<open>grow_size_t_refines\<close>.
\<close>

lemma double_power: "(2::64 word) ^ k * 2 = 2 ^ Suc k"
  by simp

lemma power_64_zero: "64 \<le> k \<Longrightarrow> (2::64 word) ^ k = 0"
  by (auto simp: le_iff_add power_add)

lemma power_le_half: "(2::64 word) ^ k \<le> 2 ^ 63"
proof (cases "k < 64")
  case True
  then have "unat ((2::64 word) ^ k) = 2 ^ k"
    using unsigned_of_nat [where 'a = nat and 'b = 64, of "2 ^ k"]
    by (simp add: take_bit_nat_eq_self)
  moreover have "(2::nat) ^ k \<le> 2 ^ 63" using True by (intro power_increasing) auto
  ultimately show ?thesis by (simp add: word_le_nat_alt)
next
  case False
  then show ?thesis by (simp add: power_64_zero)
qed

lemma grow_size_t_None:
  assumes "(2::64 word) ^ 63 < required"
  shows "grow_size_t (2 ^ k) required = None"
proof (rule ccontr)
  assume "grow_size_t (2 ^ k) required \<noteq> None"
  then obtain y where y: "grow_size_t (2 ^ k) required = Some y" by auto
  have "(\<exists>j. (2::64 word) ^ k = 2 ^ j) \<longrightarrow> \<not> (2 ^ 63 < required)"
  proof (rule grow_size_t.raw_induct [where P = "\<lambda>c r y. (\<exists>j. c = 2 ^ j) \<longrightarrow> \<not> (2 ^ 63 < r)", OF _ y])
    fix f and c r y :: "64 word"
    assume IH: "\<And>c r y. f c r = Some y \<Longrightarrow> (\<exists>j. c = 2 ^ j) \<longrightarrow> \<not> (2 ^ 63 < r)"
      and eq: "(if c < r then f (c * 2) r else Some c) = Some y"
    show "(\<exists>j. c = 2 ^ j) \<longrightarrow> \<not> (2 ^ 63 < r)"
    proof (cases "c < r")
      case True
      with eq IH have "(\<exists>j. c * 2 = 2 ^ j) \<longrightarrow> \<not> (2 ^ 63 < r)" by simp
      then show ?thesis using double_power by metis
    next
      case False
      show ?thesis
      proof
        assume "\<exists>j. c = 2 ^ j"
        then have "c \<le> 2 ^ 63" using power_le_half by auto
        with False have "r \<le> 2 ^ 63" by (meson not_less order_trans)
        then show "\<not> 2 ^ 63 < r" by (simp only: not_less)
      qed
    qed
  qed
  with assms show False by blast
qed

section \<open>Invariant, contents, leaks\<close>

definition sb_inv :: "string_builder \<Rightarrow> bool" where
  "sb_inv b \<longleftrightarrow> sb_length b = length (buffer b) \<and> sb_length b < capacity b \<and> (\<exists>k. capacity b = 2 ^ k)"

definition sb_good :: "sb_state \<Rightarrow> bool" where
  "sb_good s \<longleftrightarrow> (case fst s of None \<Rightarrow> True | Some b \<Rightarrow> sb_inv b)"

definition sb_text :: "sb_state \<Rightarrow> string" where
  "sb_text s = (case fst s of None \<Rightarrow> [] | Some b \<Rightarrow> buffer b)"

definition sb_blocks :: "sb_state \<Rightarrow> int" where
  "sb_blocks s = live (snd s)"

definition sb_ready :: "sb_state \<Rightarrow> bool" where
  "sb_ready s \<longleftrightarrow> (\<exists>b. fst s = Some b \<and> valid b \<and> sb_inv b) \<and> no_oom (snd s)"

lemma init_inv:
  "c_orm_string_builder_init out h = (rc, Some b, h') \<Longrightarrow>
   rc = C_ORM_OK \<and> sb_inv b \<and> valid b \<and> buffer b = [] \<and> live h' = live h + 2"
  by (auto simp: c_orm_string_builder_init_def sb_inv_def split: if_splits prod.splits
      dest!: malloc_live intro: exI[of _ 0])

lemma init_fail:
  "c_orm_string_builder_init out h = (rc, None, h') \<Longrightarrow> rc \<noteq> C_ORM_OK \<and> live h' = live h"
  by (auto simp: c_orm_string_builder_init_def split: if_splits prod.splits dest!: malloc_live)

lemma init_no_oom:
  "no_oom h \<Longrightarrow> \<exists>h'. c_orm_string_builder_init True h
     = (C_ORM_OK, Some \<lparr>buffer = [], sb_length = 0, capacity = 1, valid = True\<rparr>, h')
     \<and> no_oom h' \<and> live h' = live h + 2"
  by (simp add: c_orm_string_builder_init_def)

lemma init_sb_inv: "sb_inv \<lparr>buffer = [], sb_length = 0, capacity = Suc 0, valid = v\<rparr>"
  by (auto simp: sb_inv_def intro: exI[of _ 0])

lemma free_live: "live (c_orm_string_builder_free (Some b) h) = live h - 2"
  by (simp add: c_orm_string_builder_free_def)

lemma append_NULL:
  "c_orm_string_builder_append None s = (C_ORM_ERROR_UNKNOWN, s)"
  "c_orm_string_builder_append str (None, h) = (C_ORM_ERROR_UNKNOWN, (None, h))"
  by (auto simp: c_orm_string_builder_append_def split: prod.splits option.splits)

lemma append_invalid:
  "\<not> valid b \<Longrightarrow> c_orm_string_builder_append (Some t) (Some b, h) = (C_ORM_ERROR_MEMORY, (Some b, h))"
  by (simp add: c_orm_string_builder_append_def)

lemma grow_fits:
  assumes "capacity b = 2 ^ k"
  shows "required \<le> grow_capacity (capacity b * 2) required"
    and "\<exists>j. grow_capacity (capacity b * 2) required = 2 ^ j"
  using grow_capacity_ge[of "capacity b * 2" required] grow_capacity_power[of "Suc k" required, OF refl] assms
  by (simp_all add: mult.commute)

lemma append_inv_aux:
  assumes "sb_inv b" and "c_orm_string_builder_append str (Some b, h) = (rc, (b', h'))"
  shows "\<exists>c. b' = Some c \<and> sb_inv c
    \<and> (if rc = C_ORM_OK then (\<exists>t. str = Some t \<and> buffer c = buffer b @ t) \<and> valid c = valid b
       else buffer c = buffer b)
    \<and> live h' = live h"
proof -
  from assms(1) obtain k where k: "capacity b = 2 ^ k" by (auto simp: sb_inv_def)
  from grow_fits[OF k] have fits: "\<And>n. n < grow_capacity (capacity b * 2) (Suc n)"
    "\<And>r. \<exists>j. grow_capacity (capacity b * 2) r = 2 ^ j"
    using Suc_le_eq by blast+
  show ?thesis
    using assms fits
    by (auto simp: c_orm_string_builder_append_def sb_inv_def Let_def
        split: option.splits if_splits prod.splits dest: realloc_live)
qed

lemma append_cases:
  assumes "sb_good s" and "c_orm_string_builder_append x s = (rc, t)"
  shows "sb_good t \<and> live (snd t) = live (snd s) \<and>
    (if rc = C_ORM_OK then \<exists>tx. x = Some tx \<and> sb_text t = sb_text s @ tx
     else sb_text t = sb_text s)"
proof -
  obtain b h where s: "s = (b, h)" by (cases s)
  obtain b' h' where t: "t = (b', h')" by (cases t)
  show ?thesis
  proof (cases b)
    case None
    with assms s show ?thesis by (auto simp: append_NULL)
  next
    case (Some sb)
    with assms(1) s have "sb_inv sb" by (simp add: sb_good_def)
    from append_inv_aux[OF this] assms(2) s t Some show ?thesis
      by (fastforce simp: sb_good_def sb_text_def split: if_splits)
  qed
qed

lemma append_no_oom:
  assumes "sb_ready s"
  shows "\<exists>t. c_orm_string_builder_append (Some tx) s = (C_ORM_OK, t) \<and> sb_ready t"
proof -
  from assms obtain b h where s: "s = (Some b, h)" and b: "valid b" "sb_inv b" and h: "no_oom h"
    by (cases s) (auto simp: sb_ready_def)
  obtain rc b' h' where r: "c_orm_string_builder_append (Some tx) s = (rc, (b', h'))"
    by (cases "c_orm_string_builder_append (Some tx) s") auto
  with b h have "rc = C_ORM_OK" "no_oom h'"
    unfolding s by (auto simp: c_orm_string_builder_append_def Let_def split: if_splits)
  with append_inv_aux[OF b(2)] r b(1) show ?thesis
    unfolding s by (fastforce simp: sb_ready_def)
qed

text \<open>
  Ownership: a builder owns two blocks. \<open>sb_slack\<close> is what is allocated beyond them; no append changes it,
  and freeing the builder leaves exactly it.
\<close>

definition sb_owned :: "string_builder option \<Rightarrow> int" where
  "sb_owned b = (case b of None \<Rightarrow> 0 | Some _ \<Rightarrow> 2)"

definition sb_slack :: "sb_state \<Rightarrow> int" where
  "sb_slack s = live (snd s) - sb_owned (fst s)"

lemma sb_owned_simps [simp]: "sb_owned None = 0" "sb_owned (Some b) = 2"
  by (simp_all add: sb_owned_def)

lemma free_slack: "live (c_orm_string_builder_free b h) = live h - sb_owned b"
  by (cases b) (simp_all add: c_orm_string_builder_free_def)

lemma init_slack:
  "c_orm_string_builder_init out h = (rc, b, h') \<Longrightarrow>
   live h' = live h + sb_owned b \<and> b = (if rc = C_ORM_OK
     then Some \<lparr>buffer = [], sb_length = 0, capacity = 1, valid = True\<rparr> else None)"
  by (auto simp: c_orm_string_builder_init_def split: if_splits prod.splits dest!: malloc_live)

lemma keeps_slack_append [keeps_intro]: "keeps (same sb_slack) (c_orm_string_builder_append x)"
proof (rule keepsI)
  fix s rc t assume "c_orm_string_builder_append x s = (rc, t)"
  then show "sb_slack t = sb_slack s"
    by (cases s) (auto simp: c_orm_string_builder_append_def sb_slack_def Let_def
        split: option.splits if_splits prod.splits dest: realloc_live)
qed

section \<open>The interface of the query builders\<close>

text \<open>
  What a client of the builder may rely on: an append that succeeds adds exactly its argument, one
  that fails adds nothing, the invariant is kept, no block is gained or lost, and while the allocator
  serves every request an append of a real string succeeds.
\<close>

locale text_sink =
  fixes app :: "cptr \<Rightarrow> 's call"
    and text_of :: "'s \<Rightarrow> string"
    and good :: "'s \<Rightarrow> bool"
    and blocks :: "'s \<Rightarrow> int"
    and ready :: "'s \<Rightarrow> bool"
  assumes app_ok: "good s \<Longrightarrow> app x s = (C_ORM_OK, t) \<Longrightarrow> \<exists>tx. x = Some tx \<and> text_of t = text_of s @ tx"
    and app_err: "good s \<Longrightarrow> app x s = (rc, t) \<Longrightarrow> rc \<noteq> C_ORM_OK \<Longrightarrow> text_of t = text_of s"
    and app_good: "good s \<Longrightarrow> app x s = (rc, t) \<Longrightarrow> good t"
    and app_blocks: "good s \<Longrightarrow> app x s = (rc, t) \<Longrightarrow> blocks t = blocks s"
    and app_ready: "ready s \<Longrightarrow> \<exists>t. app (Some tx) s = (C_ORM_OK, t) \<and> ready t"
    and ready_good: "ready s \<Longrightarrow> good s"
begin

lemma appends_ok:
  assumes "good s" and "appends app xs s = (C_ORM_OK, t)"
  shows "None \<notin> set xs \<and> text_of t = text_of s @ texts xs \<and> good t"
  using assms
proof (induction xs arbitrary: s)
  case Nil
  then show ?case by simp
next
  case (Cons x xs)
  from Cons.prems(2) obtain u where u: "app x s = (C_ORM_OK, u)" "appends app xs u = (C_ORM_OK, t)"
    by (auto simp: appends_Cons then_ok_OK)
  from app_ok[OF Cons.prems(1) u(1)] obtain tx where
    "x = Some tx" "text_of u = text_of s @ tx" by auto
  with Cons.IH[OF app_good[OF Cons.prems(1) u(1)] u(2)] show ?case by simp
qed

lemma appends_good_blocks:
  assumes "good s" and "appends app xs s = (rc, t)"
  shows "good t \<and> blocks t = blocks s"
proof -
  have "good s \<longrightarrow> good t \<and> blocks t = blocks s"
    by (rule run_steps_rel[where R = "\<lambda>s t. good s \<longrightarrow> good t \<and> blocks t = blocks s"
          and fs = "map app xs" and rc = rc])
      (use assms(2) in \<open>auto simp: appends_def dest: app_good app_blocks\<close>)
  with assms(1) show ?thesis by simp
qed

text \<open>A chain that fails has written the texts before the failing one.\<close>

lemma appends_err:
  assumes "good s" and "appends app xs s = (rc, t)" and "rc \<noteq> C_ORM_OK"
  shows "\<exists>k < length xs. text_of t = text_of s @ texts (take k xs)"
  using assms
proof (induction xs arbitrary: s)
  case Nil
  then show ?case by simp
next
  case (Cons x xs)
  obtain rc1 u where u: "app x s = (rc1, u)" by (cases "app x s") auto
  show ?case
  proof (cases "rc1 = C_ORM_OK")
    case True
    with u Cons.prems have "appends app xs u = (rc, t)" by (simp add: appends_Cons then_ok_def)
    from Cons.IH[OF app_good[OF Cons.prems(1) u] this Cons.prems(3)]
    obtain k where "k < length xs" "text_of t = text_of u @ texts (take k xs)" by auto
    moreover from app_ok[OF Cons.prems(1)] u True obtain tx where
      "x = Some tx" "text_of u = text_of s @ tx" by auto
    ultimately show ?thesis by (intro exI[of _ "Suc k"]) simp
  next
    case False
    with u Cons.prems have "t = u" "rc = rc1" by (simp_all add: appends_Cons then_ok_def)
    with app_err[OF Cons.prems(1) u False] show ?thesis by (intro exI[of _ 0]) simp
  qed
qed

lemma appends_ready:
  assumes "ready s" and "None \<notin> set xs"
  shows "\<exists>t. appends app xs s = (C_ORM_OK, t) \<and> ready t \<and> text_of t = text_of s @ texts xs"
  using assms
proof (induction xs arbitrary: s)
  case Nil
  then show ?case by simp
next
  case (Cons x xs)
  from Cons.prems(2) obtain tx where x: "x = Some tx" by (cases x) auto
  from app_ready[OF Cons.prems(1)] obtain u where u: "app (Some tx) s = (C_ORM_OK, u)" "ready u" by blast
  from app_ok[OF ready_good[OF Cons.prems(1)] u(1)] have tu: "text_of u = text_of s @ tx" by auto
  from Cons.IH[OF u(2)] Cons.prems(2) obtain t where
    "appends app xs u = (C_ORM_OK, t)" "ready t" "text_of t = text_of u @ texts xs" by auto
  with u x tu show ?case by (auto simp: appends_Cons then_ok_OK)
qed

end

interpretation sb: text_sink c_orm_string_builder_append sb_text sb_good sb_blocks sb_ready
proof (unfold_locales, goal_cases)
  case (1 s x t)
  from append_cases[OF 1] show ?case by simp
next
  case (2 s x rc t)
  from append_cases[OF 2(1,2)] 2(3) show ?case by simp
next
  case (3 s x rc t)
  from append_cases[OF 3] show ?case by simp
next
  case (4 s x rc t)
  from append_cases[OF 4] show ?case by (simp add: sb_blocks_def)
next
  case (5 s tx)
  then show ?case by (rule append_no_oom)
next
  case (6 s)
  then show ?case by (auto simp: sb_ready_def sb_good_def)
qed

end
