(* ===== verification/Meta.thy ===== *)
theory Meta
  imports Prelude
begin

text \<open>
  Table, column and relation metadata (\<open>include/c_orm_meta.h\<close>): constant data the generated code hands
  to the library. A relation points at the metadata of its target table, and tables may point at each
  other, so \<open>target_meta\<close> is an address, looked up in a store \<open>meta_store\<close> of tables.
\<close>

datatype c_orm_type_t =
    C_ORM_TYPE_INT32 | C_ORM_TYPE_INT64 | C_ORM_TYPE_FLOAT | C_ORM_TYPE_DOUBLE | C_ORM_TYPE_BOOL
  | C_ORM_TYPE_STRING | C_ORM_TYPE_BLOB | C_ORM_TYPE_DATE | C_ORM_TYPE_TIMESTAMP | C_ORM_TYPE_JSON
  | C_ORM_TYPE_ENUM | C_ORM_TYPE_SET | C_ORM_TYPE_ARRAY | C_ORM_TYPE_POINT | C_ORM_TYPE_POLYGON
  | C_ORM_TYPE_UNKNOWN

datatype c_orm_relation_type_t =
    C_ORM_RELATION_ONE_TO_ONE | C_ORM_RELATION_BELONGS_TO | C_ORM_RELATION_ONE_TO_MANY
  | C_ORM_RELATION_MANY_TO_MANY | C_ORM_RELATION_HAS_MANY_THROUGH | C_ORM_RELATION_POLYMORPHIC

record c_orm_column_meta_t =
  col_name :: cptr
  col_type :: c_orm_type_t
  is_pk :: bool
  is_nullable :: bool
  fk_target :: cptr
  on_delete_cascade :: bool
  is_secure :: bool

record c_orm_relation_meta_t =
  field_name :: string
  rel_type :: c_orm_relation_type_t
  target_table :: cptr
  foreign_key :: cptr
  local_key :: cptr
  target_meta :: "nat option"
  join_table :: cptr
  join_local_key :: cptr
  join_foreign_key :: cptr

record c_orm_table_meta_t =
  tbl_name :: cptr
  columns :: "c_orm_column_meta_t list"
  relations :: "c_orm_relation_meta_t list"

type_synonym meta_store = "nat \<Rightarrow> c_orm_table_meta_t"

definition find_relation :: "c_orm_table_meta_t \<Rightarrow> string \<Rightarrow> c_orm_relation_meta_t option" where
  \<comment> \<open>the loop \<open>for (i = 0; i < meta->num_relations; i++) if (strcmp(...) == 0) break;\<close>\<close>
  "find_relation m name = find (\<lambda>r. field_name r = name) (relations m)"

definition target_pk :: "c_orm_table_meta_t \<Rightarrow> cptr" where
  \<comment> \<open>the first primary key column, \<open>id\<close> when there is none\<close>
  "target_pk m = (case find is_pk (columns m) of None \<Rightarrow> Some ''id'' | Some c \<Rightarrow> col_name c)"

end
