(* ===== verification/SelectBuilder.thy ===== *)
theory SelectBuilder
  imports StringBuilder Meta
begin

text \<open>
  \<open>src/c_orm_query_builder.c\<close>: the SELECT and UPDATE builders over metadata. A builder handle is a
  \<open>select_builder option\<close> (\<open>None\<close> is NULL); every call threads it with the allocator. The insert
  builder of the file is a stub that answers \<open>C_ORM_ERROR_NOT_IMPLEMENTED\<close>.
\<close>

section \<open>State\<close>

record select_builder =
  meta :: c_orm_table_meta_t
  sb :: "string_builder option"
  has_where :: bool
  has_order :: bool

type_synonym select_state = "select_builder \<times> heap"

record update_builder =
  umeta :: c_orm_table_meta_t
  usb :: "string_builder option"
  has_set :: bool
  uhas_where :: bool

type_synonym update_state = "update_builder \<times> heap"

text \<open>A call on the builder's string builder, and the NULL test of the handle.\<close>

definition on_sb :: "sb_state call \<Rightarrow> select_state call" where
  "on_sb f s = (case s of (b, h) \<Rightarrow>
     case f (sb b, h) of (rc, (sb', h')) \<Rightarrow> (rc, (b\<lparr>sb := sb'\<rparr>, h')))"

definition on_usb :: "sb_state call \<Rightarrow> update_state call" where
  "on_usb f s = (case s of (b, h) \<Rightarrow>
     case f (usb b, h) of (rc, (sb', h')) \<Rightarrow> (rc, (b\<lparr>usb := sb'\<rparr>, h')))"

definition select_append :: "cptr \<Rightarrow> select_state call" where
  "select_append str = on_sb (c_orm_string_builder_append str)"

definition update_append :: "cptr \<Rightarrow> update_state call" where
  "update_append str = on_usb (c_orm_string_builder_append str)"

definition with_builder :: "('b \<times> heap) call \<Rightarrow> ('b option \<times> heap) call" where
  "with_builder f s = (case s of (None, h) \<Rightarrow> (C_ORM_ERROR_UNKNOWN, s)
     | (Some b, h) \<Rightarrow> (case f (b, h) of (rc, (b', h')) \<Rightarrow> (rc, (Some b', h'))))"

section \<open>Life cycle of a SELECT builder\<close>

definition c_orm_select_builder_init ::
    "c_orm_table_meta_t option \<Rightarrow> bool \<Rightarrow> heap \<Rightarrow> c_orm_error_t \<times> select_builder option \<times> heap" where
  "c_orm_select_builder_init meta_ptr out_builder h =
     (case meta_ptr of
        None \<Rightarrow> (C_ORM_ERROR_UNKNOWN, None, h)
      | Some m \<Rightarrow>
          if \<not> out_builder then (C_ORM_ERROR_UNKNOWN, None, h)
          else case C_ORM_MALLOC h of (ok, h1) \<Rightarrow>
            if \<not> ok then (C_ORM_ERROR_UNKNOWN, None, h1)
            else case c_orm_string_builder_init True h1 of (rc, sb0, h2) \<Rightarrow>
              if rc \<noteq> C_ORM_OK then (rc, None, C_ORM_FREE h2)
              else case appends select_append [Some ''SELECT * FROM '', tbl_name m]
                     (\<lparr>meta = m, sb = sb0, has_where = False, has_order = False\<rparr>, h2)
                   of (rc2, (b, h3)) \<Rightarrow>
                if rc2 \<noteq> C_ORM_OK
                then (rc2, None, C_ORM_FREE (c_orm_string_builder_free (sb b) h3))
                else (C_ORM_OK, Some b, h3))"

definition c_orm_select_builder_free :: "select_builder option \<Rightarrow> heap \<Rightarrow> heap" where
  "c_orm_select_builder_free builder h =
     (case builder of None \<Rightarrow> h
      | Some b \<Rightarrow> C_ORM_FREE (c_orm_string_builder_free (sb b) h))"

definition c_orm_select_builder_compile ::
    "select_builder option \<Rightarrow> bool \<Rightarrow> heap \<Rightarrow> c_orm_error_t \<times> cptr \<times> heap" where
  "c_orm_select_builder_compile builder out_sql h =
     (case builder of
        None \<Rightarrow> (C_ORM_ERROR_UNKNOWN, None, h)
      | Some b \<Rightarrow>
          if \<not> out_sql then (C_ORM_ERROR_UNKNOWN, None, h)
          else case c_orm_string_builder_get (sb b) True of (rc, sql_str) \<Rightarrow>
            if rc \<noteq> C_ORM_OK then (rc, None, h)
            else case C_ORM_MALLOC h of (ok, h1) \<Rightarrow>
              if ok then (C_ORM_OK, sql_str, h1) else (C_ORM_ERROR_UNKNOWN, None, h1))"

section \<open>WHERE\<close>

definition begin_condition :: "select_state call" where
  \<comment> \<open>\<open>WHERE\<close> the first time, \<open>AND\<close> afterwards\<close>
  "begin_condition s =
     (if \<not> has_where (fst s)
      then then_ok (select_append (Some '' WHERE ''))
             (\<lambda>(b, h). (C_ORM_OK, (b\<lparr>has_where := True\<rparr>, h))) s
      else select_append (Some '' AND '') s)"

definition append_where :: "cptr \<Rightarrow> string \<Rightarrow> (select_builder option \<times> heap) call" where
  "append_where column op s =
     (case column of None \<Rightarrow> (C_ORM_ERROR_UNKNOWN, s)
      | Some col \<Rightarrow>
          with_builder (then_ok begin_condition (appends select_append [Some col, Some op])) s)"

definition c_orm_select_where_eq :: "cptr \<Rightarrow> (select_builder option \<times> heap) call" where
  "c_orm_select_where_eq column = append_where column '' = ?''"

definition c_orm_select_where_neq :: "cptr \<Rightarrow> (select_builder option \<times> heap) call" where
  "c_orm_select_where_neq column = append_where column '' != ?''"

definition c_orm_select_where_lt :: "cptr \<Rightarrow> (select_builder option \<times> heap) call" where
  "c_orm_select_where_lt column = append_where column '' < ?''"

definition c_orm_select_where_gt :: "cptr \<Rightarrow> (select_builder option \<times> heap) call" where
  "c_orm_select_where_gt column = append_where column '' > ?''"

definition c_orm_select_where_lte :: "cptr \<Rightarrow> (select_builder option \<times> heap) call" where
  "c_orm_select_where_lte column = append_where column '' <= ?''"

definition c_orm_select_where_gte :: "cptr \<Rightarrow> (select_builder option \<times> heap) call" where
  "c_orm_select_where_gte column = append_where column '' >= ?''"

definition c_orm_select_where_gt_current_timestamp ::
    "cptr \<Rightarrow> (select_builder option \<times> heap) call" where
  "c_orm_select_where_gt_current_timestamp column = append_where column '' > CURRENT_TIMESTAMP''"

definition c_orm_select_where_lt_current_timestamp ::
    "cptr \<Rightarrow> (select_builder option \<times> heap) call" where
  "c_orm_select_where_lt_current_timestamp column = append_where column '' < CURRENT_TIMESTAMP''"

definition c_orm_select_where_like :: "cptr \<Rightarrow> (select_builder option \<times> heap) call" where
  "c_orm_select_where_like column = append_where column '' LIKE ?''"

definition c_orm_select_where_between :: "cptr \<Rightarrow> (select_builder option \<times> heap) call" where
  "c_orm_select_where_between column = append_where column '' BETWEEN ? AND ?''"

definition c_orm_select_where_ilike :: "cptr \<Rightarrow> (select_builder option \<times> heap) call" where
  "c_orm_select_where_ilike column = append_where column '' ILIKE ?''"

text \<open>\<open>for (i = 0; i < count; ++i)\<close> a placeholder, and a comma after all but the last.\<close>

fun in_placeholders :: "nat \<Rightarrow> cptr list" where
  "in_placeholders 0 = []"
| "in_placeholders (Suc 0) = [Some ''?'']"
| "in_placeholders (Suc (Suc n)) = Some ''?'' # Some '', '' # in_placeholders (Suc n)"

definition c_orm_select_where_in :: "cptr \<Rightarrow> nat \<Rightarrow> (select_builder option \<times> heap) call" where
  "c_orm_select_where_in column n s =
     (case column of None \<Rightarrow> (C_ORM_ERROR_UNKNOWN, s)
      | Some col \<Rightarrow>
          if n = 0 then (C_ORM_ERROR_UNKNOWN, s)
          else with_builder (then_ok begin_condition
                 (appends select_append
                   ([Some col, Some '' IN (''] @ in_placeholders n @ [Some '')'']))) s)"

definition c_orm_select_where_in_array ::
    "cptr \<Rightarrow> bool \<Rightarrow> bool \<Rightarrow> (select_builder option \<times> heap) call" where
  \<comment> \<open>the array and its metadata are only tested for NULL\<close>
  "c_orm_select_where_in_array column array_given meta_given s =
     (if column = None \<or> \<not> array_given \<or> \<not> meta_given then (C_ORM_ERROR_UNKNOWN, s)
      else c_orm_select_where_in column 1 s)"

section \<open>Relations\<close>

definition exists_head :: "c_orm_relation_meta_t \<Rightarrow> c_orm_table_meta_t \<Rightarrow> cptr \<Rightarrow> string \<Rightarrow> cptr list" where
  "exists_head rel tm parent_alias t_alias =
     [Some ''EXISTS (SELECT 1 FROM '', tbl_name tm, Some '' '', Some t_alias] @
     (if rel_type rel = C_ORM_RELATION_MANY_TO_MANY
      then [Some '' INNER JOIN '', join_table rel, Some '' j_'', Some t_alias, Some '' ON '',
            Some t_alias, Some ''.'', target_pk tm, Some '' = j_'', Some t_alias, Some ''.'',
            join_foreign_key rel, Some '' WHERE j_'', Some t_alias, Some ''.'', join_local_key rel,
            Some '' = '', parent_alias, Some ''.'', local_key rel]
      else [Some '' WHERE '', Some t_alias, Some ''.'', foreign_key rel, Some '' = '',
            parent_alias, Some ''.'', local_key rel]) @
     [Some '' AND '']"

function build_exists_query ::
    "meta_store \<Rightarrow> c_orm_table_meta_t \<Rightarrow> string \<Rightarrow> string \<Rightarrow> cptr \<Rightarrow> nat \<Rightarrow> sb_state call" where
  "build_exists_query env m path operator_str parent_alias depth s =
     (case strchr_split CHR ''.'' path of
        None \<Rightarrow> appends c_orm_string_builder_append
          [parent_alias, Some ''.'', Some path, Some '' '', Some operator_str, Some '' ?''] s
      | Some (before, after) \<Rightarrow>
          \<comment> \<open>\<open>char rel_name[64]\<close>: a longer name is cut\<close>
          (case find_relation m (take 63 before) of
             None \<Rightarrow> (C_ORM_ERROR_UNKNOWN, s)
           | Some rel \<Rightarrow>
               (case target_meta rel of
                  None \<Rightarrow> (C_ORM_ERROR_UNKNOWN, s)
                | Some addr \<Rightarrow>
                    (let t_alias = ''t'' @ decimal depth in
                     then_ok (appends c_orm_string_builder_append
                         (exists_head rel (env addr) parent_alias t_alias))
                       (then_ok
                         (\<lambda>u. build_exists_query env (env addr) after operator_str (Some t_alias) (depth + 1) u)
                         (c_orm_string_builder_append (Some '')''))) s))))"
  by pat_completeness auto
termination
  by (relation "measure (\<lambda>(env, m, path, op, pa, d, s). length path)")
     (auto dest!: strchr_split_Some)

declare build_exists_query.simps [simp del]

definition c_orm_select_where_relation ::
    "meta_store \<Rightarrow> cptr \<Rightarrow> cptr \<Rightarrow> (select_builder option \<times> heap) call" where
  "c_orm_select_where_relation env relation_name operator_str s =
     (case (relation_name, operator_str) of
        (Some path, Some op) \<Rightarrow>
          with_builder (then_ok begin_condition
            (\<lambda>(b, h). on_sb (build_exists_query env (meta b) path op (tbl_name (meta b)) 1) (b, h))) s
      | _ \<Rightarrow> (C_ORM_ERROR_UNKNOWN, s))"

section \<open>The remaining clauses\<close>

definition c_orm_select_group_by :: "cptr \<Rightarrow> (select_builder option \<times> heap) call" where
  "c_orm_select_group_by column s =
     (case column of None \<Rightarrow> (C_ORM_ERROR_UNKNOWN, s)
      | Some col \<Rightarrow> with_builder (appends select_append [Some '' GROUP BY '', Some col]) s)"

definition c_orm_select_having :: "cptr \<Rightarrow> (select_builder option \<times> heap) call" where
  "c_orm_select_having clause s =
     (case clause of None \<Rightarrow> (C_ORM_ERROR_UNKNOWN, s)
      | Some c \<Rightarrow> with_builder (appends select_append [Some '' HAVING '', Some c]) s)"

text \<open>
  \<open>c_orm_select_aggregate\<close> rewrites the text. \<open>replace_sql\<close> is its tail, from the allocation of the new
  text on: \<open>oom\<close> is the status when that allocation fails, which the two branches choose
  differently. The old string builder is freed first, so a failing \<open>c_orm_string_builder_init\<close> leaves the
  handle with none.
\<close>

definition replace_sql :: "c_orm_error_t \<Rightarrow> string \<Rightarrow> select_state call" where
  "replace_sql oom new_sql s =
     (case s of (b, h) \<Rightarrow>
        case C_ORM_MALLOC h of (ok, h1) \<Rightarrow>
          if \<not> ok then (oom, (b, h1))
          else case c_orm_string_builder_init True (c_orm_string_builder_free (sb b) h1) of (rc, sb', h2) \<Rightarrow>
            if rc \<noteq> C_ORM_OK then (rc, (b\<lparr>sb := None\<rparr>, C_ORM_FREE h2))
            else case select_append (Some new_sql) (b\<lparr>sb := sb'\<rparr>, h2) of (rc2, (b', h3)) \<Rightarrow>
              (rc2, (b', C_ORM_FREE h3)))"

definition aggregate_sql :: "string \<Rightarrow> string \<Rightarrow> string \<Rightarrow> string \<Rightarrow> (c_orm_error_t \<times> string) option" where
  "aggregate_sql current_sql func column alias =
     (let len = length current_sql; extra_len = length func + length column + length alias + 32 in
      if strstr current_sql ''SELECT * FROM '' = Some 0
      then Some (C_ORM_ERROR_UNKNOWN, C_ORM_SPRINTF (len + extra_len)
             (''SELECT '' @ func @ ''('' @ column @ '') AS '' @ alias @ '' FROM '' @ drop 14 current_sql))
      else case strstr current_sql '' FROM '' of
          None \<Rightarrow> None
        | Some prefix_len \<Rightarrow> Some (C_ORM_ERROR_MEMORY,
            take prefix_len current_sql @ C_ORM_SPRINTF (len + extra_len - prefix_len)
              ('', '' @ func @ ''('' @ column @ '') AS '' @ alias @ drop prefix_len current_sql)))"

definition c_orm_select_aggregate ::
    "cptr \<Rightarrow> cptr \<Rightarrow> cptr \<Rightarrow> (select_builder option \<times> heap) call" where
  "c_orm_select_aggregate func column alias s =
     (case (func, column, alias) of
        (Some f, Some c, Some a) \<Rightarrow>
          with_builder (\<lambda>(b, h).
            case c_orm_string_builder_get (sb b) True of (rc, current_sql) \<Rightarrow>
              if rc \<noteq> C_ORM_OK then (rc, (b, h))
              else case aggregate_sql (the current_sql) f c a of
                  None \<Rightarrow> (C_ORM_ERROR_UNKNOWN, (b, h))
                | Some (oom, new_sql) \<Rightarrow> replace_sql oom new_sql (b, h)) s
      | _ \<Rightarrow> (C_ORM_ERROR_UNKNOWN, s))"

definition c_orm_select_order_by :: "cptr \<Rightarrow> bool \<Rightarrow> (select_builder option \<times> heap) call" where
  "c_orm_select_order_by column is_desc s =
     (case column of None \<Rightarrow> (C_ORM_ERROR_UNKNOWN, s)
      | Some col \<Rightarrow> with_builder
          (then_ok
            (\<lambda>(b, h). if \<not> has_order b
               then then_ok (select_append (Some '' ORDER BY ''))
                      (\<lambda>(b, h). (C_ORM_OK, (b\<lparr>has_order := True\<rparr>, h))) (b, h)
               else select_append (Some '', '') (b, h))
            (appends select_append [Some col, Some (if is_desc then '' DESC'' else '' ASC'')])) s)"

definition c_orm_select_limit :: "64 word \<Rightarrow> (select_builder option \<times> heap) call" where
  "c_orm_select_limit limit =
     with_builder (select_append (Some (C_ORM_SPRINTF 32 ('' LIMIT '' @ decimal (unat limit)))))"

definition c_orm_select_offset :: "64 word \<Rightarrow> (select_builder option \<times> heap) call" where
  "c_orm_select_offset offset =
     with_builder (select_append (Some (C_ORM_SPRINTF 32 ('' OFFSET '' @ decimal (unat offset)))))"

section \<open>The INSERT builder stub\<close>

definition c_orm_insert_builder_init :: "heap \<Rightarrow> c_orm_error_t \<times> heap" where
  "c_orm_insert_builder_init h = (C_ORM_ERROR_NOT_IMPLEMENTED, h)"

definition c_orm_insert_builder_free :: "heap \<Rightarrow> c_orm_error_t \<times> heap" where
  "c_orm_insert_builder_free h = (C_ORM_OK, h)"

definition c_orm_insert_builder_compile :: "heap \<Rightarrow> c_orm_error_t \<times> heap" where
  "c_orm_insert_builder_compile h = (C_ORM_ERROR_NOT_IMPLEMENTED, h)"

section \<open>The UPDATE builder\<close>

definition c_orm_update_builder_init ::
    "c_orm_table_meta_t option \<Rightarrow> bool \<Rightarrow> heap \<Rightarrow> c_orm_error_t \<times> update_builder option \<times> heap" where
  "c_orm_update_builder_init meta_ptr out_builder h =
     (case meta_ptr of
        None \<Rightarrow> (C_ORM_ERROR_UNKNOWN, None, h)
      | Some m \<Rightarrow>
          if \<not> out_builder then (C_ORM_ERROR_UNKNOWN, None, h)
          else case C_ORM_MALLOC h of (ok, h1) \<Rightarrow>
            if \<not> ok then (C_ORM_ERROR_UNKNOWN, None, h1)
            else case c_orm_string_builder_init True h1 of (rc, sb0, h2) \<Rightarrow>
              if rc \<noteq> C_ORM_OK then (rc, None, C_ORM_FREE h2)
              else case appends update_append [Some ''UPDATE '', tbl_name m, Some '' SET '']
                     (\<lparr>umeta = m, usb = sb0, has_set = False, uhas_where = False\<rparr>, h2)
                   of (rc2, (b, h3)) \<Rightarrow>
                if rc2 \<noteq> C_ORM_OK
                then (rc2, None, C_ORM_FREE (c_orm_string_builder_free (usb b) h3))
                else (C_ORM_OK, Some b, h3))"

definition c_orm_update_builder_free :: "update_builder option \<Rightarrow> heap \<Rightarrow> heap" where
  "c_orm_update_builder_free builder h =
     (case builder of None \<Rightarrow> h
      | Some b \<Rightarrow> C_ORM_FREE (c_orm_string_builder_free (usb b) h))"

definition c_orm_update_set :: "cptr \<Rightarrow> (update_builder option \<times> heap) call" where
  "c_orm_update_set column s =
     (case column of None \<Rightarrow> (C_ORM_ERROR_UNKNOWN, s)
      | Some col \<Rightarrow> with_builder (\<lambda>(b, h).
          if uhas_where b then (C_ORM_ERROR_UNKNOWN, (b, h))
          else then_ok
            (appends update_append
              ((if has_set b then [Some '', ''] else []) @ [Some col, Some '' = ?'']))
            (\<lambda>(b, h). (C_ORM_OK, (b\<lparr>has_set := True\<rparr>, h))) (b, h)) s)"

definition c_orm_update_where_eq :: "cptr \<Rightarrow> (update_builder option \<times> heap) call" where
  "c_orm_update_where_eq column s =
     (case column of None \<Rightarrow> (C_ORM_ERROR_UNKNOWN, s)
      | Some col \<Rightarrow> with_builder
          (then_ok
            (\<lambda>(b, h). if \<not> uhas_where b
               then then_ok (update_append (Some '' WHERE ''))
                      (\<lambda>(b, h). (C_ORM_OK, (b\<lparr>uhas_where := True\<rparr>, h))) (b, h)
               else update_append (Some '' AND '') (b, h))
            (appends update_append [Some col, Some '' = ?''])) s)"

definition c_orm_update_builder_compile ::
    "update_builder option \<Rightarrow> bool \<Rightarrow> heap \<Rightarrow> c_orm_error_t \<times> cptr \<times> heap" where
  "c_orm_update_builder_compile builder out_sql h =
     (case builder of
        None \<Rightarrow> (C_ORM_ERROR_UNKNOWN, None, h)
      | Some b \<Rightarrow>
          if \<not> out_sql then (C_ORM_ERROR_UNKNOWN, None, h)
          else case c_orm_string_builder_get (usb b) True of (rc, sql_str) \<Rightarrow>
            if rc \<noteq> C_ORM_OK then (rc, None, h)
            else case C_ORM_MALLOC h of (ok, h1) \<Rightarrow>
              if ok then (C_ORM_OK, sql_str, h1) else (C_ORM_ERROR_UNKNOWN, None, h1))"

section \<open>The builders are text sinks\<close>

definition select_text :: "select_state \<Rightarrow> string" where
  "select_text s = sb_text (sb (fst s), snd s)"

definition select_good :: "select_state \<Rightarrow> bool" where
  "select_good s \<longleftrightarrow> sb_good (sb (fst s), snd s)"

definition select_blocks :: "select_state \<Rightarrow> int" where
  "select_blocks s = live (snd s)"

definition select_ready :: "select_state \<Rightarrow> bool" where
  "select_ready s \<longleftrightarrow> sb_ready (sb (fst s), snd s)"

definition update_text :: "update_state \<Rightarrow> string" where
  "update_text s = sb_text (usb (fst s), snd s)"

definition update_good :: "update_state \<Rightarrow> bool" where
  "update_good s \<longleftrightarrow> sb_good (usb (fst s), snd s)"

definition update_blocks :: "update_state \<Rightarrow> int" where
  "update_blocks s = live (snd s)"

definition update_ready :: "update_state \<Rightarrow> bool" where
  "update_ready s \<longleftrightarrow> sb_ready (usb (fst s), snd s)"

lemmas select_abs = select_text_def select_good_def select_blocks_def select_ready_def
lemmas update_abs = update_text_def update_good_def update_blocks_def update_ready_def

lemma on_sb_result:
  "on_sb f (b, h) = (rc, t) \<longleftrightarrow>
   (\<exists>sb' h'. f (sb b, h) = (rc, (sb', h')) \<and> t = (b\<lparr>sb := sb'\<rparr>, h'))"
  by (auto simp: on_sb_def split: prod.splits)

lemma on_usb_result:
  "on_usb f (b, h) = (rc, t) \<longleftrightarrow>
   (\<exists>sb' h'. f (usb b, h) = (rc, (sb', h')) \<and> t = (b\<lparr>usb := sb'\<rparr>, h'))"
  by (auto simp: on_usb_def split: prod.splits)

interpretation sel: text_sink select_append select_text select_good select_blocks select_ready
proof (unfold_locales, goal_cases)
  case (1 s x t)
  then show ?case by (cases s) (auto simp: select_append_def on_sb_result select_abs dest: sb.app_ok)
next
  case (2 s x rc t)
  then show ?case by (cases s) (auto simp: select_append_def on_sb_result select_abs dest: sb.app_err)
next
  case (3 s x rc t)
  then show ?case by (cases s) (auto simp: select_append_def on_sb_result select_abs dest: sb.app_good)
next
  case (4 s x rc t)
  then show ?case
    by (cases s) (auto simp: select_append_def on_sb_result select_abs sb_blocks_def dest: sb.app_blocks)
next
  case (5 s tx)
  then show ?case
    using sb.app_ready[of "(sb (fst s), snd s)" tx]
    by (cases s) (fastforce simp: select_append_def on_sb_result select_abs)
next
  case (6 s)
  then show ?case by (auto simp: select_abs dest: sb.ready_good)
qed

interpretation upd: text_sink update_append update_text update_good update_blocks update_ready
proof (unfold_locales, goal_cases)
  case (1 s x t)
  then show ?case by (cases s) (auto simp: update_append_def on_usb_result update_abs dest: sb.app_ok)
next
  case (2 s x rc t)
  then show ?case by (cases s) (auto simp: update_append_def on_usb_result update_abs dest: sb.app_err)
next
  case (3 s x rc t)
  then show ?case by (cases s) (auto simp: update_append_def on_usb_result update_abs dest: sb.app_good)
next
  case (4 s x rc t)
  then show ?case
    by (cases s) (auto simp: update_append_def on_usb_result update_abs sb_blocks_def dest: sb.app_blocks)
next
  case (5 s tx)
  then show ?case
    using sb.app_ready[of "(usb (fst s), snd s)" tx]
    by (cases s) (fastforce simp: update_append_def on_usb_result update_abs)
next
  case (6 s)
  then show ?case by (auto simp: update_abs dest: sb.ready_good)
qed

end
