(* ===== verification/SelectSpec.thy ===== *)
theory SelectSpec
  imports SelectBuilder
begin

text \<open>
  What the SELECT and UPDATE builders promise: an abstract specification of the SQL text that a list
  of calls writes (\<open>select_spec\<close>), the refinement lemma from the calls of
  \<open>src/c_orm_query_builder.c\<close>, leak freedom and success without memory pressure, and the canonical
  statements that follow.
\<close>

section \<open>Calls as data\<close>

datatype comparison =
    CmpEq | CmpNeq | CmpLt | CmpGt | CmpLte | CmpGte | CmpGtNow | CmpLtNow | CmpLike | CmpBetween | CmpIlike

datatype select_op =
    SelWhere comparison cptr
  | SelIn cptr nat
  | SelRelation cptr cptr
  | SelGroupBy cptr
  | SelHaving cptr
  | SelOrderBy cptr bool
  | SelLimit "64 word"
  | SelOffset "64 word"

fun where_call :: "comparison \<Rightarrow> cptr \<Rightarrow> (select_builder option \<times> heap) call" where
  "where_call CmpEq c = c_orm_select_where_eq c"
| "where_call CmpNeq c = c_orm_select_where_neq c"
| "where_call CmpLt c = c_orm_select_where_lt c"
| "where_call CmpGt c = c_orm_select_where_gt c"
| "where_call CmpLte c = c_orm_select_where_lte c"
| "where_call CmpGte c = c_orm_select_where_gte c"
| "where_call CmpGtNow c = c_orm_select_where_gt_current_timestamp c"
| "where_call CmpLtNow c = c_orm_select_where_lt_current_timestamp c"
| "where_call CmpLike c = c_orm_select_where_like c"
| "where_call CmpBetween c = c_orm_select_where_between c"
| "where_call CmpIlike c = c_orm_select_where_ilike c"

fun select_call :: "meta_store \<Rightarrow> select_op \<Rightarrow> (select_builder option \<times> heap) call" where
  "select_call env (SelWhere k c) = where_call k c"
| "select_call env (SelIn c n) = c_orm_select_where_in c n"
| "select_call env (SelRelation p oper) = c_orm_select_where_relation env p oper"
| "select_call env (SelGroupBy c) = c_orm_select_group_by c"
| "select_call env (SelHaving c) = c_orm_select_having c"
| "select_call env (SelOrderBy c d) = c_orm_select_order_by c d"
| "select_call env (SelLimit n) = c_orm_select_limit n"
| "select_call env (SelOffset n) = c_orm_select_offset n"

section \<open>The specification\<close>

fun comparison_sql :: "comparison \<Rightarrow> string" where
  "comparison_sql CmpEq = '' = ?''"
| "comparison_sql CmpNeq = '' != ?''"
| "comparison_sql CmpLt = '' < ?''"
| "comparison_sql CmpGt = '' > ?''"
| "comparison_sql CmpLte = '' <= ?''"
| "comparison_sql CmpGte = '' >= ?''"
| "comparison_sql CmpGtNow = '' > CURRENT_TIMESTAMP''"
| "comparison_sql CmpLtNow = '' < CURRENT_TIMESTAMP''"
| "comparison_sql CmpLike = '' LIKE ?''"
| "comparison_sql CmpBetween = '' BETWEEN ? AND ?''"
| "comparison_sql CmpIlike = '' ILIKE ?''"

text \<open>
  A relation path \<open>r1.r2.column\<close> as nested EXISTS: \<open>None\<close> where a step names no relation with a target
  table, or where a name the text needs is NULL.
\<close>

function exists_sql ::
    "meta_store \<Rightarrow> c_orm_table_meta_t \<Rightarrow> string \<Rightarrow> string \<Rightarrow> cptr \<Rightarrow> nat \<Rightarrow> string option" where
  "exists_sql env m path oper als depth =
     (case strchr_split CHR ''.'' path of
        None \<Rightarrow> map_option (\<lambda>a. a @ ''.'' @ path @ '' '' @ oper @ '' ?'') als
      | Some (before, after) \<Rightarrow>
          Option.bind (find_relation m (take 63 before)) (\<lambda>rel.
          Option.bind (target_meta rel) (\<lambda>addr.
            (let t_alias = ''t'' @ decimal depth; head = exists_head rel (env addr) als t_alias in
             if None \<in> set head then None
             else map_option (\<lambda>inner. texts head @ inner @ '')'')
                    (exists_sql env (env addr) after oper (Some t_alias) (depth + 1))))))"
  by pat_completeness auto
termination
  by (relation "measure (\<lambda>(env, m, path, oper, pa, d). length path)")
     (auto dest!: strchr_split_Some)

declare exists_sql.simps [simp del]

text \<open>The condition a call adds, if it is a condition and its arguments are acceptable.\<close>

fun condition :: "meta_store \<Rightarrow> c_orm_table_meta_t \<Rightarrow> select_op \<Rightarrow> string option" where
  "condition env m (SelWhere k (Some c)) = Some (c @ comparison_sql k)"
| "condition env m (SelIn (Some c) n) =
     (if n = 0 then None else Some (c @ '' IN ('' @ join '', '' (replicate n ''?'') @ '')''))"
| "condition env m (SelRelation (Some p) (Some oper)) = exists_sql env m p oper (tbl_name m) 1"
| "condition env m _ = None"

text \<open>
  \<open>select_spec env m ops (w, o)\<close>: the text the calls append, when \<open>w\<close> and \<open>o\<close> say whether a condition and
  an ordering were already written. \<open>None\<close>: some call is not acceptable.
\<close>

fun clause :: "meta_store \<Rightarrow> c_orm_table_meta_t \<Rightarrow> select_op \<Rightarrow> bool \<times> bool \<Rightarrow> (string \<times> bool \<times> bool) option" where
  "clause env m (SelGroupBy c) (w, r) = map_option (\<lambda>c. ('' GROUP BY '' @ c, w, r)) c"
| "clause env m (SelHaving c) (w, r) = map_option (\<lambda>c. ('' HAVING '' @ c, w, r)) c"
| "clause env m (SelOrderBy c d) (w, r) =
     map_option (\<lambda>c. ((if r then '', '' else '' ORDER BY '') @ c @ (if d then '' DESC'' else '' ASC''), w, True)) c"
| "clause env m (SelLimit n) (w, r) = Some ('' LIMIT '' @ decimal (unat n), w, r)"
| "clause env m (SelOffset n) (w, r) = Some ('' OFFSET '' @ decimal (unat n), w, r)"
| "clause env m oper (w, r) =
     map_option (\<lambda>c. ((if w then '' AND '' else '' WHERE '') @ c, True, r)) (condition env m oper)"

fun select_spec :: "meta_store \<Rightarrow> c_orm_table_meta_t \<Rightarrow> select_op list \<Rightarrow> bool \<times> bool \<Rightarrow> string option" where
  "select_spec env m [] f = Some []"
| "select_spec env m (oper # ops) f =
     (case clause env m oper f of None \<Rightarrow> None
      | Some (tx, f') \<Rightarrow> map_option (\<lambda>rest. tx @ rest) (select_spec env m ops f'))"

section \<open>Each call refines its clause\<close>

definition flags :: "select_state \<Rightarrow> c_orm_table_meta_t \<times> bool \<times> bool" where
  "flags s = (meta (fst s), has_where (fst s), has_order (fst s))"

lemma keeps_flags_on_sb [keeps_intro]: "keeps (same flags) (on_sb f)"
  by (rule keepsI) (auto simp: on_sb_def flags_def split: prod.splits)

lemma keeps_flags_append [keeps_intro]: "keeps (same flags) (select_append x)"
  by (simp add: select_append_def keeps_intro)

lemma sel_append_ok:
  assumes "select_append x s = (C_ORM_OK, t)" and "select_good s"
  shows "select_text t = select_text s @ the x \<and> x \<noteq> None \<and> select_good t \<and> flags t = flags s"
  using sel.app_ok[OF assms(2,1)] sel.app_good[OF assms(2,1)] keepsD[OF keeps_flags_append assms(1)]
  by auto

lemma sel_appends_ok:
  assumes "appends select_append xs s = (C_ORM_OK, t)" and "select_good s"
  shows "select_text t = select_text s @ texts xs \<and> None \<notin> set xs \<and> select_good t \<and> flags t = flags s"
  using sel.appends_ok[OF assms(2,1)]
    keepsD[OF keeps_appends[where app = select_append, OF keeps_flags_append] assms(1)]
  by auto

lemma begin_condition_ok:
  assumes "begin_condition s = (C_ORM_OK, t)" and "select_good s"
  shows "select_text t = select_text s @ (if has_where (fst s) then '' AND '' else '' WHERE '')
    \<and> select_good t \<and> flags t = (meta (fst s), True, has_order (fst s))"
  using assms
  by (auto simp: begin_condition_def then_ok_OK flags_def select_text_def select_good_def
      dest!: sel_append_ok split: if_splits)

lemma with_builder_Some:
  "with_builder f (Some b, h) = (rc, (b', h')) \<longleftrightarrow> (\<exists>c. b' = Some c \<and> f (b, h) = (rc, (c, h')))"
  by (auto simp: with_builder_def split: prod.splits)

text \<open>A relation path: the builder call succeeds only on an acceptable path, with the specified text.\<close>

lemma build_exists_ok:
  assumes "build_exists_query env m path oper als depth s = (C_ORM_OK, t)" and "sb_good s"
  shows "\<exists>tx. exists_sql env m path oper als depth = Some tx \<and> sb_text t = sb_text s @ tx \<and> sb_good t"
  using assms
proof (induction env m path oper als depth s arbitrary: t rule: build_exists_query.induct)
  case (1 env m path oper als depth s)
  show ?case
  proof (cases "strchr_split CHR ''.'' path")
    case None
    with 1(2) have "appends c_orm_string_builder_append
        [als, Some ''.'', Some path, Some '' '', Some oper, Some '' ?''] s = (C_ORM_OK, t)"
      by (subst (asm) build_exists_query.simps) simp
    from sb.appends_ok[OF 1(3) this] None show ?thesis
      by (cases als; subst exists_sql.simps) auto
  next
    case (Some p)
    obtain before after where p: "p = (before, after)" by (cases p)
    from 1(2) Some p obtain rel where rel: "find_relation m (take 63 before) = Some rel"
      by (subst (asm) build_exists_query.simps) (auto split: option.splits)
    from 1(2) Some p rel obtain addr where addr: "target_meta rel = Some addr"
      by (subst (asm) build_exists_query.simps) (auto split: option.splits)
    let ?a = "''t'' @ decimal depth"
    let ?head = "exists_head rel (env addr) als ?a"
    from 1(2) Some p rel addr obtain u v where
      u: "appends c_orm_string_builder_append ?head s = (C_ORM_OK, u)" and
      v: "build_exists_query env (env addr) after oper (Some ?a) (depth + 1) u = (C_ORM_OK, v)" and
      t: "c_orm_string_builder_append (Some '')'') v = (C_ORM_OK, t)"
      by (subst (asm) build_exists_query.simps) (auto simp: then_ok_OK Let_def)
    from sb.appends_ok[OF 1(3) u] have
      hu: "None \<notin> set ?head" "sb_text u = sb_text s @ texts ?head" "sb_good u" by auto
    from 1(1)[OF Some p[symmetric] rel addr refl u v hu(3)] obtain tx where
      tx: "exists_sql env (env addr) after oper (Some ?a) (depth + 1) = Some tx"
        "sb_text v = sb_text u @ tx" "sb_good v" by auto
    from append_cases[OF tx(3) t] hu tx Some p rel addr show ?thesis
      by (subst exists_sql.simps) (auto simp: Let_def)
  qed
qed

text \<open>\<open>wrote env b h oper t\<close>: the state \<open>t\<close> holds the specified text of the call \<open>oper\<close>.\<close>

definition wrote :: "meta_store \<Rightarrow> select_builder \<Rightarrow> heap \<Rightarrow> select_op \<Rightarrow> select_builder option \<times> heap \<Rightarrow> bool" where
  "wrote env b h oper t \<longleftrightarrow>
     (\<exists>c h' tx f. t = (Some c, h') \<and> clause env (meta b) oper (has_where b, has_order b) = Some (tx, f)
        \<and> select_text (c, h') = select_text (b, h) @ tx \<and> select_good (c, h') \<and> flags (c, h') = (meta b, f))"

lemma wroteI:
  assumes "with_builder g (Some b, h) = (C_ORM_OK, t)"
    and "\<And>u. g (b, h) = (C_ORM_OK, u) \<Longrightarrow> \<exists>tx f. clause env (meta b) oper (has_where b, has_order b) = Some (tx, f)
        \<and> select_text u = select_text (b, h) @ tx \<and> select_good u \<and> flags u = (meta b, f)"
  shows "wrote env b h oper t"
proof -
  from assms(1) obtain c h' where "t = (Some c, h')" "g (b, h) = (C_ORM_OK, (c, h'))"
    by (cases t) (auto simp: with_builder_Some)
  with assms(2) show ?thesis by (fastforce simp: wrote_def)
qed

lemma condition_wrote:
  assumes run: "with_builder (then_ok begin_condition g) (Some b, h) = (C_ORM_OK, t)"
    and good: "select_good (b, h)"
    and g: "\<And>u v. g u = (C_ORM_OK, v) \<Longrightarrow> select_good u \<Longrightarrow> meta (fst u) = meta b \<Longrightarrow>
        \<exists>tx. condition env (meta b) oper = Some tx \<and> select_text v = select_text u @ tx
          \<and> select_good v \<and> flags v = flags u"
    and cl: "\<And>w r. clause env (meta b) oper (w, r) =
        map_option (\<lambda>c. ((if w then '' AND '' else '' WHERE '') @ c, True, r)) (condition env (meta b) oper)"
  shows "wrote env b h oper t"
proof (rule wroteI [OF run])
  fix u assume "then_ok begin_condition g (b, h) = (C_ORM_OK, u)"
  then obtain v where v: "begin_condition (b, h) = (C_ORM_OK, v)" "g v = (C_ORM_OK, u)"
    by (auto simp: then_ok_OK)
  from begin_condition_ok[OF v(1) good] have
    bv: "select_text v = select_text (b, h) @ (if has_where b then '' AND '' else '' WHERE '')"
      "select_good v" "flags v = (meta b, True, has_order b)" by simp_all
  from g[OF v(2) bv(2)] bv(3) obtain tx where
    "condition env (meta b) oper = Some tx" "select_text u = select_text v @ tx"
    "select_good u" "flags u = flags v" by (auto simp: flags_def)
  with bv cl show "\<exists>tx f. clause env (meta b) oper (has_where b, has_order b) = Some (tx, f)
        \<and> select_text u = select_text (b, h) @ tx \<and> select_good u \<and> flags u = (meta b, f)"
    by auto
qed

lemma where_call_append: "where_call k c = append_where c (comparison_sql k)"
  by (cases k) (simp_all add: c_orm_select_where_eq_def c_orm_select_where_neq_def
    c_orm_select_where_lt_def c_orm_select_where_gt_def c_orm_select_where_lte_def
    c_orm_select_where_gte_def c_orm_select_where_gt_current_timestamp_def
    c_orm_select_where_lt_current_timestamp_def c_orm_select_where_like_def
    c_orm_select_where_between_def c_orm_select_where_ilike_def)

lemma in_placeholders_text: "texts (in_placeholders n) = join '', '' (replicate n ''?'')"
  by (induction n rule: in_placeholders.induct) auto

lemma in_placeholders_not_NULL: "None \<notin> set (in_placeholders n)"
  by (induction n rule: in_placeholders.induct) auto

lemma unat_64_digits: "length (decimal (unat (n :: 64 word))) \<le> 20"
proof (rule decimal_length)
  have "unat n < 2 ^ 64" using unsigned_less[of n] by simp
  also have "(2::nat) ^ 64 \<le> 10 ^ 20" by simp
  finally show "unat n < 10 ^ 20" .
qed simp

lemma limit_text_fits:
  "C_ORM_SPRINTF 32 ('' LIMIT '' @ decimal (unat (n :: 64 word))) = '' LIMIT '' @ decimal (unat n)"
  "C_ORM_SPRINTF 32 ('' OFFSET '' @ decimal (unat (n :: 64 word))) = '' OFFSET '' @ decimal (unat n)"
  using unat_64_digits[of n] by (simp_all add: sprintf_fits)

lemma select_call_wrote:
  assumes "select_call env oper (Some b, h) = (C_ORM_OK, t)" and "select_good (b, h)"
  shows "wrote env b h oper t"
proof (cases oper)
  case (SelWhere k col)
  with assms(1) obtain c where c: "col = Some c"
    by (auto simp: where_call_append append_where_def split: option.splits)
  from assms(1) SelWhere c have
    "with_builder (then_ok begin_condition (appends select_append [Some c, Some (comparison_sql k)])) (Some b, h)
     = (C_ORM_OK, t)" by (simp add: where_call_append append_where_def)
  then show ?thesis
    by (rule condition_wrote[OF _ assms(2)]) (auto simp: SelWhere c dest: sel_appends_ok)
next
  case (SelIn col n)
  with assms(1) obtain c where c: "col = Some c" and n: "n \<noteq> 0"
    by (auto simp: c_orm_select_where_in_def split: option.splits if_splits)
  from assms(1) SelIn c n have
    "with_builder (then_ok begin_condition (appends select_append
       ([Some c, Some '' IN (''] @ in_placeholders n @ [Some '')'']))) (Some b, h) = (C_ORM_OK, t)"
    by (simp add: c_orm_select_where_in_def)
  then show ?thesis
    by (rule condition_wrote[OF _ assms(2)])
       (auto simp: SelIn c n in_placeholders_text dest!: sel_appends_ok)
next
  case (SelRelation path rop)
  with assms(1) obtain p r where pr: "path = Some p" "rop = Some r"
    by (auto simp: c_orm_select_where_relation_def split: option.splits)
  from assms(1) SelRelation pr have
    "with_builder (then_ok begin_condition
       (\<lambda>(b, h). on_sb (build_exists_query env (meta b) p r (tbl_name (meta b)) 1) (b, h))) (Some b, h)
     = (C_ORM_OK, t)" by (simp add: c_orm_select_where_relation_def)
  then show ?thesis
  proof (rule condition_wrote[OF _ assms(2)])
    fix u v assume run: "(\<lambda>(b, h). on_sb (build_exists_query env (meta b) p r (tbl_name (meta b)) 1) (b, h)) u
        = (C_ORM_OK, v)" and gu: "select_good u" and mu: "meta (fst u) = meta b"
    obtain bu hu where u: "u = (bu, hu)" by (cases u)
    from run u mu obtain sb' h' where
      x: "build_exists_query env (meta b) p r (tbl_name (meta b)) 1 (sb bu, hu) = (C_ORM_OK, (sb', h'))"
      and v: "v = (bu\<lparr>sb := sb'\<rparr>, h')" by (auto simp: on_sb_result)
    from build_exists_ok[OF x] gu u v show "\<exists>tx. condition env (meta b) oper = Some tx \<and>
        select_text v = select_text u @ tx \<and> select_good v \<and> flags v = flags u"
      by (auto simp: SelRelation pr select_abs flags_def)
  qed (simp_all add: SelRelation)
next
  case (SelGroupBy col)
  with assms(1) obtain c where c: "col = Some c"
    by (auto simp: c_orm_select_group_by_def split: option.splits)
  from assms(1) SelGroupBy c have "with_builder (appends select_append [Some '' GROUP BY '', Some c]) (Some b, h)
     = (C_ORM_OK, t)" by (simp add: c_orm_select_group_by_def)
  then show ?thesis
    by (rule wroteI) (use assms(2) in \<open>auto simp: SelGroupBy c flags_def dest!: sel_appends_ok\<close>)
next
  case (SelHaving col)
  with assms(1) obtain c where c: "col = Some c"
    by (auto simp: c_orm_select_having_def split: option.splits)
  from assms(1) SelHaving c have "with_builder (appends select_append [Some '' HAVING '', Some c]) (Some b, h)
     = (C_ORM_OK, t)" by (simp add: c_orm_select_having_def)
  then show ?thesis
    by (rule wroteI) (use assms(2) in \<open>auto simp: SelHaving c flags_def dest!: sel_appends_ok\<close>)
next
  case (SelOrderBy col d)
  with assms(1) obtain c where c: "col = Some c"
    by (auto simp: c_orm_select_order_by_def split: option.splits)
  show ?thesis
    by (rule wroteI) (use assms in \<open>auto simp: SelOrderBy c c_orm_select_order_by_def then_ok_OK flags_def
        select_text_def select_good_def split: if_splits dest!: sel_append_ok sel_appends_ok\<close>)
next
  case (SelLimit n)
  with assms(1) have "with_builder (select_append (Some ('' LIMIT '' @ decimal (unat n)))) (Some b, h)
     = (C_ORM_OK, t)" by (simp only: select_call.simps c_orm_select_limit_def limit_text_fits)
  then show ?thesis
    by (rule wroteI) (use assms(2) in \<open>auto simp: SelLimit flags_def dest!: sel_append_ok\<close>)
next
  case (SelOffset n)
  with assms(1) have "with_builder (select_append (Some ('' OFFSET '' @ decimal (unat n)))) (Some b, h)
     = (C_ORM_OK, t)" by (simp only: select_call.simps c_orm_select_offset_def limit_text_fits)
  then show ?thesis
    by (rule wroteI) (use assms(2) in \<open>auto simp: SelOffset flags_def dest!: sel_append_ok\<close>)
qed

lemma select_calls_refine:
  assumes "run_steps (map (select_call env) ops) (Some b, h) = (C_ORM_OK, (c, h'))"
    and "select_good (b, h)"
  shows "\<exists>b' tx. c = Some b' \<and> select_spec env (meta b) ops (has_where b, has_order b) = Some tx
    \<and> select_text (b', h') = select_text (b, h) @ tx \<and> select_good (b', h')"
  using assms
proof (induction ops arbitrary: b h)
  case Nil
  then show ?case by auto
next
  case (Cons oper ops)
  from Cons.prems(1) obtain u where u: "select_call env oper (Some b, h) = (C_ORM_OK, u)"
    "run_steps (map (select_call env) ops) u = (C_ORM_OK, (c, h'))"
    by (auto split: prod.splits if_splits)
  from select_call_wrote[OF u(1) Cons.prems(2)] obtain b1 h1 tx w r where
    w: "u = (Some b1, h1)" "clause env (meta b) oper (has_where b, has_order b) = Some (tx, w, r)"
      "select_text (b1, h1) = select_text (b, h) @ tx" "select_good (b1, h1)"
      "meta b1 = meta b" "has_where b1 = w" "has_order b1 = r"
    by (auto simp: wrote_def flags_def)
  from Cons.IH[OF _ w(4)] u(2) w show ?case by auto
qed

section \<open>Ownership\<close>

definition select_slack :: "select_state \<Rightarrow> int" where
  "select_slack s = sb_slack (sb (fst s), snd s)"

definition handle_slack :: "select_builder option \<times> heap \<Rightarrow> int" where
  "handle_slack s = (case s of (None, h) \<Rightarrow> live h | (Some b, h) \<Rightarrow> select_slack (b, h) - 1)"

lemma keeps_slack_on_sb [keeps_intro]:
  assumes "keeps (same sb_slack) f"
  shows "keeps (same select_slack) (on_sb f)"
proof (rule keepsI)
  fix s rc t assume "on_sb f s = (rc, t)"
  then show "select_slack t = select_slack s"
    by (cases s) (auto simp: on_sb_result select_slack_def dest: keepsD[OF assms])
qed

lemma keeps_slack_select_append [keeps_intro]: "keeps (same select_slack) (select_append x)"
  by (simp add: select_append_def keeps_intro)

lemma keeps_slack_flag:
  "keeps (same select_slack) (\<lambda>(b, h). (C_ORM_OK, (b\<lparr>has_where := w\<rparr>, h)))"
  "keeps (same select_slack) (\<lambda>(b, h). (C_ORM_OK, (b\<lparr>has_order := w\<rparr>, h)))"
  by (auto intro!: keepsI simp: select_slack_def)

lemma keeps_slack_begin [keeps_intro]: "keeps (same select_slack) begin_condition"
  unfolding begin_condition_def by (intro keeps_intro keeps_slack_flag)

lemma keeps_slack_build: "keeps (same sb_slack) (build_exists_query env m path oper als depth)"
proof (rule keepsI)
  fix s rc t assume "build_exists_query env m path oper als depth s = (rc, t)"
  then show "sb_slack t = sb_slack s"
  proof (induction env m path oper als depth s arbitrary: rc t rule: build_exists_query.induct)
    case (1 env m path oper als depth s)
    have app: "\<And>xs s rc t. appends c_orm_string_builder_append xs s = (rc, t) \<Longrightarrow> sb_slack t = sb_slack s"
      by (rule keepsD[OF keeps_appends[OF keeps_slack_append]])
    have one: "\<And>x s rc t. c_orm_string_builder_append x s = (rc, t) \<Longrightarrow> sb_slack t = sb_slack s"
      by (rule keepsD[OF keeps_slack_append])
    show ?case
    proof (cases "strchr_split CHR ''.'' path")
      case None
      with 1(2) show ?thesis
        by (subst (asm) build_exists_query.simps) (auto dest: app)
    next
      case (Some p)
      obtain before after where p: "p = (before, after)" by (cases p)
      show ?thesis
      proof (cases "\<exists>rel addr. find_relation m (take 63 before) = Some rel \<and> target_meta rel = Some addr")
        case False
        with 1(2) Some p show ?thesis
          by (subst (asm) build_exists_query.simps) (auto split: option.splits)
      next
        case True
        then obtain rel addr where ra: "find_relation m (take 63 before) = Some rel" "target_meta rel = Some addr"
          by blast
        let ?a = "''t'' @ decimal depth"
        obtain rc1 u where u: "appends c_orm_string_builder_append (exists_head rel (env addr) als ?a) s = (rc1, u)"
          by (metis surj_pair)
        obtain rc2 v where v: "build_exists_query env (env addr) after oper (Some ?a) (depth + 1) u = (rc2, v)"
          by (metis surj_pair)
        have "rc1 = C_ORM_OK \<Longrightarrow> sb_slack v = sb_slack u"
          using 1(1)[OF Some p[symmetric] ra refl] u v by blast
        with 1(2) Some p ra u v app[OF u] show ?thesis
          by (subst (asm) build_exists_query.simps)
             (auto simp: then_ok_def Let_def split: if_splits dest: one)
      qed
    qed
  qed
qed

lemma keeps_with_builder:
  assumes "keeps (same select_slack) f"
  shows "keeps (same handle_slack) (with_builder f)"
proof (rule keepsI)
  fix s rc t assume "with_builder f s = (rc, t)"
  then show "handle_slack t = handle_slack s"
    by (cases s) (auto simp: with_builder_def handle_slack_def dest: keepsD[OF assms]
        split: option.splits prod.splits)
qed

lemma keeps_case_option [keeps_intro]:
  "keeps R f \<Longrightarrow> (\<And>a. keeps R (g a)) \<Longrightarrow> keeps R (\<lambda>s. case x of None \<Rightarrow> f s | Some a \<Rightarrow> g a s)"
  by (cases x) simp_all

lemma keeps_slack_where: "keeps (same handle_slack) (append_where c k)"
  unfolding append_where_def by (intro keeps_intro keeps_with_builder)

lemma keeps_slack_relation_step:
  "keeps (same select_slack)
     (\<lambda>(b, h). on_sb (build_exists_query env (meta b) p r (tbl_name (meta b)) d) (b, h))"
proof (rule keepsI)
  fix s rc t
  assume "(\<lambda>(b, h). on_sb (build_exists_query env (meta b) p r (tbl_name (meta b)) d) (b, h)) s = (rc, t)"
  then show "select_slack t = select_slack s"
    by (cases s) (auto dest: keepsD[OF keeps_slack_on_sb[OF keeps_slack_build]])
qed

lemma keeps_slack_order:
  "keeps (same select_slack) (\<lambda>(b, h). if \<not> has_order b
     then then_ok (select_append (Some '' ORDER BY '')) (\<lambda>(b, h). (C_ORM_OK, (b\<lparr>has_order := True\<rparr>, h))) (b, h)
     else select_append (Some '', '') (b, h))"
  using keepsD[OF keeps_then_ok[OF keeps_slack_select_append keeps_slack_flag(2)]]
    keepsD[OF keeps_slack_select_append]
  by (intro keepsI) (auto split: prod.splits if_splits)

lemma keeps_slack_call: "keeps (same handle_slack) (select_call env oper)"
proof (cases oper)
  case (SelRelation p r)
  show ?thesis
    unfolding SelRelation select_call.simps c_orm_select_where_relation_def
    by (cases p; cases r)
       (auto intro!: keeps_intro keeps_with_builder keeps_slack_relation_step)
next
  case (SelOrderBy c d)
  show ?thesis
    unfolding SelOrderBy select_call.simps c_orm_select_order_by_def
    by (intro keeps_intro keeps_with_builder keeps_slack_order)
next
  case (SelIn c n)
  show ?thesis
    unfolding SelIn select_call.simps c_orm_select_where_in_def
    by (intro keeps_intro keeps_with_builder)
next
  case (SelGroupBy c)
  show ?thesis
    unfolding SelGroupBy select_call.simps c_orm_select_group_by_def
    by (intro keeps_intro keeps_with_builder)
next
  case (SelHaving c)
  show ?thesis
    unfolding SelHaving select_call.simps c_orm_select_having_def
    by (intro keeps_intro keeps_with_builder)
qed (simp_all add: where_call_append keeps_slack_where c_orm_select_limit_def c_orm_select_offset_def
  keeps_intro keeps_with_builder)

lemma select_free_slack: "live (c_orm_select_builder_free b h) = handle_slack (b, h)"
  by (cases b) (simp_all add: c_orm_select_builder_free_def handle_slack_def select_slack_def
      sb_slack_def free_slack)

lemma select_init_slack:
  assumes "c_orm_select_builder_init m out h = (rc, b, h')"
  shows "handle_slack (b, h') = live h \<and> (rc = C_ORM_OK \<longleftrightarrow> b \<noteq> None)"
proof -
  have app: "\<And>xs s rc t. appends select_append xs s = (rc, t) \<Longrightarrow> select_slack t = select_slack s"
    by (rule keepsD[OF keeps_appends[OF keeps_slack_select_append]])
  from assms show ?thesis
    by (auto simp: c_orm_select_builder_init_def handle_slack_def select_slack_def sb_slack_def free_slack
        split: option.splits prod.splits if_splits dest!: app malloc_live init_slack)
qed

lemma select_compile_live:
  "c_orm_select_builder_compile b out h = (rc, sql, h') \<Longrightarrow>
   live h' = live h + (if rc = C_ORM_OK then 1 else 0) \<and> handle_slack (b, h') = handle_slack (b, h) + (live h' - live h)"
  by (auto simp: c_orm_select_builder_compile_def handle_slack_def select_slack_def sb_slack_def
      split: option.splits prod.splits if_splits dest!: malloc_live)

section \<open>Success when the allocator serves every request\<close>

lemma appends_serves:
  "None \<notin> set xs \<Longrightarrow> serves select_ready (appends select_append xs)"
  "None \<notin> set xs \<Longrightarrow> serves sb_ready (appends c_orm_string_builder_append xs)"
  using sel.appends_ready sb.appends_ready by (fastforce simp: serves_def)+

lemma serves_on_sb: "serves sb_ready f \<Longrightarrow> serves select_ready (on_sb f)"
  unfolding serves_def select_ready_def by (fastforce simp: on_sb_result)

lemma serves_flag:
  "serves select_ready (\<lambda>(b, h). (C_ORM_OK, (b\<lparr>has_where := w\<rparr>, h)))"
  "serves select_ready (\<lambda>(b, h). (C_ORM_OK, (b\<lparr>has_order := w\<rparr>, h)))"
  by (auto simp: serves_def select_ready_def)

lemma serves_append: "serves select_ready (select_append (Some x))"
  using sel.app_ready by (auto simp: serves_def)

lemma serves_begin: "serves select_ready begin_condition"
  using servesD[OF serves_then_ok[OF serves_append serves_flag(1)]] servesD[OF serves_append]
  by (auto simp: serves_def begin_condition_def)

lemma serves_build:
  "exists_sql env m path oper als depth = Some tx \<Longrightarrow> sb_ready s \<Longrightarrow>
   \<exists>t. build_exists_query env m path oper als depth s = (C_ORM_OK, t) \<and> sb_ready t"
proof (induction env m path oper als depth arbitrary: s tx rule: exists_sql.induct)
  case (1 env m path oper als depth)
  show ?case
  proof (cases "strchr_split CHR ''.'' path")
    case None
    with 1(2) obtain a where "als = Some a" by (subst (asm) exists_sql.simps) auto
    with None servesD[OF appends_serves(2) 1(3)] show ?thesis
      by (subst build_exists_query.simps) simp
  next
    case (Some p)
    obtain before after where p: "p = (before, after)" by (cases p)
    from 1(2) Some p obtain rel addr where
      ra: "find_relation m (take 63 before) = Some rel" "target_meta rel = Some addr"
      by (subst (asm) exists_sql.simps) (auto simp: bind_eq_Some_conv)
    let ?a = "''t'' @ decimal depth"
    let ?head = "exists_head rel (env addr) als ?a"
    from 1(2) Some p ra obtain inner where hd: "None \<notin> set ?head"
      and inner: "exists_sql env (env addr) after oper (Some ?a) (depth + 1) = Some inner"
      by (subst (asm) exists_sql.simps) (auto simp: Let_def split: if_splits)
    from servesD[OF appends_serves(2)[OF hd] 1(3)] obtain u where
      u: "appends c_orm_string_builder_append ?head s = (C_ORM_OK, u)" "sb_ready u" by blast
    from 1(1)[OF Some p[symmetric] _ _ refl refl _ inner u(2)] ra hd obtain v where
      v: "build_exists_query env (env addr) after oper (Some ?a) (depth + 1) u = (C_ORM_OK, v)" "sb_ready v"
      by auto
    from sb.app_ready[OF v(2)] obtain w where
      "c_orm_string_builder_append (Some '')'') v = (C_ORM_OK, w)" "sb_ready w" by blast
    with u v Some p ra show ?thesis
      by (subst build_exists_query.simps) (simp add: then_ok_def Let_def)
  qed
qed

lemma serves_with_builder:
  assumes "serves select_ready f" and "select_ready (b, h)"
  shows "\<exists>c h'. with_builder f (Some b, h) = (C_ORM_OK, (Some c, h')) \<and> select_ready (c, h')"
  using servesD[OF assms] by (auto simp: with_builder_Some)

lemma serves_order:
  "serves select_ready (\<lambda>(b, h). if \<not> has_order b
     then then_ok (select_append (Some '' ORDER BY '')) (\<lambda>(b, h). (C_ORM_OK, (b\<lparr>has_order := True\<rparr>, h))) (b, h)
     else select_append (Some '', '') (b, h))"
  using servesD[OF serves_then_ok[OF serves_append serves_flag(2)]] servesD[OF serves_append]
  by (auto simp: serves_def)

lemma select_call_ready:
  assumes cl: "clause env (meta b) oper (w, r) = Some f" and rd: "select_ready (b, h)"
  shows "\<exists>c h'. select_call env oper (Some b, h) = (C_ORM_OK, (Some c, h')) \<and> select_ready (c, h')"
proof (cases oper)
  case (SelWhere k col)
  with cl obtain c where c: "col = Some c" by (cases col) auto
  have "serves select_ready (then_ok begin_condition (appends select_append [Some c, Some (comparison_sql k)]))"
    by (intro serves_then_ok serves_begin appends_serves) simp
  from serves_with_builder[OF this rd] c SelWhere show ?thesis
    by (simp add: where_call_append append_where_def)
next
  case (SelIn col n)
  with cl obtain c where c: "col = Some c" "n \<noteq> 0" by (cases col) (auto split: if_splits)
  have "serves select_ready (then_ok begin_condition (appends select_append
      ([Some c, Some '' IN (''] @ in_placeholders n @ [Some '')''])))"
    by (intro serves_then_ok serves_begin appends_serves) (simp add: in_placeholders_not_NULL)
  from serves_with_builder[OF this rd] c SelIn show ?thesis by (simp add: c_orm_select_where_in_def)
next
  case (SelRelation path rop)
  with cl obtain p q where pq: "path = Some p" "rop = Some q" by (cases path; cases rop) auto
  with cl SelRelation obtain tx where
    tx: "exists_sql env (meta b) p q (tbl_name (meta b)) 1 = Some tx" by auto
  from servesD[OF serves_begin rd] obtain u where
    u: "begin_condition (b, h) = (C_ORM_OK, u)" "select_ready u" by blast
  obtain b1 h1 where u1: "u = (b1, h1)" by (cases u)
  from begin_condition_ok[OF u(1) sel.ready_good[OF rd]] u1 have m: "meta b1 = meta b"
    by (simp add: flags_def)
  from serves_build[OF tx, of "(sb b1, h1)"] u(2) u1 m SelRelation pq u(1) show ?thesis
    by (auto simp: c_orm_select_where_relation_def with_builder_def then_ok_def on_sb_def
        select_ready_def split: prod.splits)
next
  case (SelGroupBy col)
  with cl obtain c where c: "col = Some c" by (cases col) auto
  have "serves select_ready (appends select_append [Some '' GROUP BY '', Some c])"
    by (rule appends_serves) simp
  from serves_with_builder[OF this rd] c SelGroupBy show ?thesis by (simp add: c_orm_select_group_by_def)
next
  case (SelHaving col)
  with cl obtain c where c: "col = Some c" by (cases col) auto
  have "serves select_ready (appends select_append [Some '' HAVING '', Some c])"
    by (rule appends_serves) simp
  from serves_with_builder[OF this rd] c SelHaving show ?thesis by (simp add: c_orm_select_having_def)
next
  case (SelOrderBy col d)
  with cl obtain c where c: "col = Some c" by (cases col) auto
  show ?thesis
    using serves_with_builder[OF serves_then_ok[OF serves_order
        appends_serves(1)[of "[Some c, Some (if d then '' DESC'' else '' ASC'')]"]] rd] c SelOrderBy
    by (simp add: c_orm_select_order_by_def)
next
  case (SelLimit n)
  with serves_with_builder[OF serves_append rd] show ?thesis by (simp add: c_orm_select_limit_def)
next
  case (SelOffset n)
  with serves_with_builder[OF serves_append rd] show ?thesis by (simp add: c_orm_select_offset_def)
qed

lemma select_calls_ready:
  assumes "select_spec env (meta b) ops (has_where b, has_order b) = Some tx" and "select_ready (b, h)"
  shows "\<exists>c h'. run_steps (map (select_call env) ops) (Some b, h) = (C_ORM_OK, (Some c, h')) \<and> select_ready (c, h')"
  using assms
proof (induction ops arbitrary: b h tx)
  case Nil
  then show ?case by simp
next
  case (Cons oper ops)
  from Cons.prems(1) obtain t1 f1 where
    cl: "clause env (meta b) oper (has_where b, has_order b) = Some (t1, f1)"
    and rest: "\<exists>t2. select_spec env (meta b) ops f1 = Some t2"
    by (auto split: option.splits)
  from select_call_ready[OF cl Cons.prems(2)] obtain c h1 where
    c: "select_call env oper (Some b, h) = (C_ORM_OK, (Some c, h1))" "select_ready (c, h1)" by blast
  from select_call_wrote[OF c(1) sel.ready_good[OF Cons.prems(2)]] cl rest have
    "\<exists>t2. select_spec env (meta c) ops (has_where c, has_order c) = Some t2"
    by (auto simp: wrote_def flags_def)
  with Cons.IH[OF _ c(2)] c(1) show ?case by auto
qed

section \<open>A whole SELECT: open, calls, compile, free\<close>

definition build_select ::
    "meta_store \<Rightarrow> c_orm_table_meta_t \<Rightarrow> select_op list \<Rightarrow> heap \<Rightarrow> c_orm_error_t \<times> cptr \<times> heap" where
  "build_select env m ops h =
     (case c_orm_select_builder_init (Some m) True h of (rc, b, h1) \<Rightarrow>
        if rc \<noteq> C_ORM_OK then (rc, None, h1)
        else case run_steps (map (select_call env) ops) (b, h1) of (rc2, (b2, h2)) \<Rightarrow>
          if rc2 \<noteq> C_ORM_OK then (rc2, None, c_orm_select_builder_free b2 h2)
          else case c_orm_select_builder_compile b2 True h2 of (rc3, sql, h3) \<Rightarrow>
            (rc3, sql, c_orm_select_builder_free b2 h3))"

lemma select_init_ok:
  assumes "c_orm_select_builder_init (Some m) True h = (C_ORM_OK, b, h')"
  shows "\<exists>c n. b = Some c \<and> tbl_name m = Some n \<and> flags (c, h') = (m, False, False)
    \<and> select_text (c, h') = ''SELECT * FROM '' @ n \<and> select_good (c, h')"
proof -
  from assms obtain h1 sb0 h2 c where
    i: "c_orm_string_builder_init True h1 = (C_ORM_OK, sb0, h2)" and
    a: "appends select_append [Some ''SELECT * FROM '', tbl_name m]
          (\<lparr>meta = m, sb = sb0, has_where = False, has_order = False\<rparr>, h2) = (C_ORM_OK, (c, h'))" and
    b: "b = Some c"
    by (auto simp: c_orm_select_builder_init_def split: prod.splits if_splits)
  from init_slack[OF i] have
    "select_good (\<lparr>meta = m, sb = sb0, has_where = False, has_order = False\<rparr>, h2)"
    "select_text (\<lparr>meta = m, sb = sb0, has_where = False, has_order = False\<rparr>, h2) = []"
    by (simp_all add: select_abs sb_good_def sb_text_def init_sb_inv)
  with sel_appends_ok[OF a] b show ?thesis by (cases "tbl_name m") (auto simp: flags_def)
qed

lemma select_init_ready:
  assumes "no_oom h" and "tbl_name m = Some n"
  shows "\<exists>c h'. c_orm_select_builder_init (Some m) True h = (C_ORM_OK, Some c, h') \<and> select_ready (c, h')"
proof -
  let ?s = "\<lambda>h2. (\<lparr>meta = m, sb = Some \<lparr>buffer = [], sb_length = 0, capacity = 1, valid = True\<rparr>,
              has_where = False, has_order = False\<rparr>, h2)"
  from init_no_oom[of "h\<lparr>live := live h + 1\<rparr>"] assms(1) obtain h2 where
    h2: "c_orm_string_builder_init True (h\<lparr>live := live h + 1\<rparr>)
      = (C_ORM_OK, Some \<lparr>buffer = [], sb_length = 0, capacity = 1, valid = True\<rparr>, h2)" "no_oom h2"
    by auto
  then have "select_ready (?s h2)" by (simp add: select_abs sb_ready_def init_sb_inv)
  from servesD[OF appends_serves(1) this, of "[Some ''SELECT * FROM '', Some n]"] h2 assms show ?thesis
    by (auto simp: c_orm_select_builder_init_def)
qed

lemma select_compile_ok:
  "c_orm_select_builder_compile (Some b) True h = (C_ORM_OK, sql, h') \<Longrightarrow> sql = Some (select_text (b, h))"
  by (auto simp: c_orm_select_builder_compile_def c_orm_string_builder_get_def select_text_def sb_text_def
      split: option.splits if_splits prod.splits)

lemma select_compile_ready:
  "select_ready (b, h) \<Longrightarrow> \<exists>h'. c_orm_select_builder_compile (Some b) True h = (C_ORM_OK, Some (select_text (b, h)), h')"
  by (auto simp: c_orm_select_builder_compile_def c_orm_string_builder_get_def select_abs sb_ready_def sb_text_def)

section \<open>A small schema for the witnesses\<close>

definition demo_posts :: c_orm_table_meta_t where
  "demo_posts = \<lparr>tbl_name = Some ''posts'', columns = [], relations = []\<rparr>"

definition demo_users :: c_orm_table_meta_t where
  "demo_users = \<lparr>tbl_name = Some ''users'', columns = [], relations =
     [\<lparr>field_name = ''posts'', rel_type = C_ORM_RELATION_ONE_TO_MANY,
       target_table = None, foreign_key = Some ''user_id'',
       local_key = Some ''id'', target_meta = Some 1, join_table = None, join_local_key = None,
       join_foreign_key = None\<rparr>]\<rparr>"

definition demo_env :: meta_store where
  "demo_env a = (if a = 1 then demo_posts else demo_users)"

definition demo_heap :: "bool list \<Rightarrow> heap" where
  "demo_heap outcomes = \<lparr>script = outcomes, live = 0\<rparr>"

definition demo_ops :: "select_op list" where
  "demo_ops = [SelWhere CmpEq (Some ''id''), SelIn (Some ''age'') 2, SelOrderBy (Some ''id'') True, SelLimit 5]"

lemma demo_no_oom: "no_oom (demo_heap [])"
  by (simp add: no_oom_def demo_heap_def)

lemma demo_users_name: "tbl_name demo_users = Some ''users''"
  by (simp add: demo_users_def)

section \<open>Properties\<close>

text \<open>C1 (select_refines).
  Refinement of the SELECT builder: when a builder is opened on a table, any list of clause calls is made
  and the statement compiled, with whatever allocation failures, a returned statement is exactly
  \<open>SELECT * FROM\<close>, the table name and the text the specification gives for the calls.
\<close>

theorem select_refines:
  assumes "build_select env m ops h = (C_ORM_OK, sql, h')"
  shows "\<exists>n tx. tbl_name m = Some n \<and> select_spec env m ops (False, False) = Some tx
    \<and> sql = Some (''SELECT * FROM '' @ n @ tx)"
proof -
  from assms obtain b h1 b2 h2 h3 where
    i: "c_orm_select_builder_init (Some m) True h = (C_ORM_OK, b, h1)" and
    r: "run_steps (map (select_call env) ops) (b, h1) = (C_ORM_OK, (b2, h2))" and
    k: "c_orm_select_builder_compile b2 True h2 = (C_ORM_OK, sql, h3)"
    by (auto simp: build_select_def split: prod.splits if_splits)
  from select_init_ok[OF i] obtain c n where c: "b = Some c" "tbl_name m = Some n"
    "flags (c, h1) = (m, False, False)" "select_text (c, h1) = ''SELECT * FROM '' @ n" "select_good (c, h1)"
    by blast
  from select_calls_refine[of env ops c h1] r c obtain b' tx where
    "b2 = Some b'" "select_spec env m ops (False, False) = Some tx"
    "select_text (b', h2) = ''SELECT * FROM '' @ n @ tx" by (auto simp: flags_def)
  with select_compile_ok k c(2) show ?thesis by auto
qed

theorem select_refines_witness:
  "fst (snd (build_select demo_env demo_users demo_ops (demo_heap [])))
     = Some ''SELECT * FROM users WHERE id = ? AND age IN (?, ?) ORDER BY id DESC LIMIT 5''"
proof -
  obtain rc sql h' where b: "build_select demo_env demo_users demo_ops (demo_heap []) = (rc, sql, h')"
    by (metis surj_pair)
  have "fst (build_select demo_env demo_users demo_ops (demo_heap [])) = C_ORM_OK" by code_simp
  with b have rc: "rc = C_ORM_OK" by simp
  have "select_spec demo_env demo_users demo_ops (False, False)
    = Some '' WHERE id = ? AND age IN (?, ?) ORDER BY id DESC LIMIT 5''" by code_simp
  with select_refines[OF b[unfolded rc]] b demo_users_name show ?thesis by simp
qed

text \<open>C2 (select_leak_free).
  Ownership: over a whole life of a SELECT builder, through every failure path, the library frees what it
  allocated: the caller is left with one more block, the returned text, and only when it is returned.
\<close>

theorem select_leak_free:
  assumes "build_select env m ops h = (rc, sql, h')"
  shows "live h' = live h + (if rc = C_ORM_OK then 1 else 0)"
proof -
  obtain rc1 b h1 where i: "c_orm_select_builder_init (Some m) True h = (rc1, b, h1)"
    by (metis surj_pair)
  from select_init_slack[OF i] have si: "handle_slack (b, h1) = live h" "rc1 = C_ORM_OK \<longleftrightarrow> b \<noteq> None" by auto
  obtain rc2 b2 h2 where r: "run_steps (map (select_call env) ops) (b, h1) = (rc2, (b2, h2))"
    by (metis surj_pair)
  have "keeps (same handle_slack) (run_steps (map (select_call env) ops))"
    by (rule keeps_run_steps) (auto simp: keeps_slack_call)
  from keepsD[OF this r] si have sr: "handle_slack (b2, h2) = live h" by simp
  obtain rc3 s3 h3 where k: "c_orm_select_builder_compile b2 True h2 = (rc3, s3, h3)"
    by (metis surj_pair)
  show ?thesis
    using assms i r k si sr select_compile_live[OF k]
    by (cases b) (auto simp: build_select_def select_free_slack handle_slack_def split: if_splits)
qed

theorem select_leak_free_witness:
  "live (snd (snd (build_select demo_env demo_users demo_ops
     (demo_heap [True, True, True, True, False])))) = 0"
proof -
  let ?r = "build_select demo_env demo_users demo_ops (demo_heap [True, True, True, True, False])"
  obtain rc sql h' where r: "?r = (rc, sql, h')" by (metis surj_pair)
  have "fst ?r = C_ORM_ERROR_MEMORY" by code_simp
  with select_leak_free[OF r] r show ?thesis by (simp add: demo_heap_def)
qed

text \<open>C3 (select_succeeds).
  Totality: on a named table, while no allocation fails, every list of calls the specification accepts
  compiles to the specified statement.
\<close>

theorem select_succeeds:
  assumes "no_oom h" and "tbl_name m = Some n" and "select_spec env m ops (False, False) = Some tx"
  shows "\<exists>h'. build_select env m ops h = (C_ORM_OK, Some (''SELECT * FROM '' @ n @ tx), h')"
proof -
  from select_init_ready[OF assms(1,2)] obtain c h1 where
    i: "c_orm_select_builder_init (Some m) True h = (C_ORM_OK, Some c, h1)" "select_ready (c, h1)" by blast
  from select_init_ok[OF i(1)] assms(2) have
    f: "flags (c, h1) = (m, False, False)" "select_text (c, h1) = ''SELECT * FROM '' @ n" "select_good (c, h1)"
    by auto
  from select_calls_ready[of env c ops tx h1] assms(3) i(2) f(1) obtain d h2 where
    r: "run_steps (map (select_call env) ops) (Some c, h1) = (C_ORM_OK, (Some d, h2))" "select_ready (d, h2)"
    by (auto simp: flags_def)
  from select_calls_refine[OF r(1) f(3)] f assms(3) have
    "select_text (d, h2) = ''SELECT * FROM '' @ n @ tx" by (auto simp: flags_def)
  with select_compile_ready[OF r(2)] i r show ?thesis by (auto simp: build_select_def)
qed

theorem select_succeeds_witness:
  "\<exists>h'. build_select demo_env demo_users [SelRelation (Some ''posts.title'') (Some ''='')] (demo_heap [])
     = (C_ORM_OK, Some (''SELECT * FROM '' @ ''users''
         @ '' WHERE EXISTS (SELECT 1 FROM posts t1 WHERE t1.user_id = users.id AND t1.title = ?)''), h')"
  by (rule select_succeeds [OF demo_no_oom demo_users_name]) code_simp

end
