(* ===== verification/UpdateSpec.thy ===== *)
theory UpdateSpec
  imports SelectSpec
begin

text \<open>
  The UPDATE builder of \<open>src/c_orm_query_builder.c\<close> against its specification.
\<close>

section \<open>UPDATE: calls and specification\<close>

datatype update_op = UpdSet cptr | UpdWhere cptr

fun update_call :: "update_op \<Rightarrow> (update_builder option \<times> heap) call" where
  "update_call (UpdSet c) = c_orm_update_set c"
| "update_call (UpdWhere c) = c_orm_update_where_eq c"

text \<open>
  The flags say whether an assignment and a condition were written. An assignment after a condition is
  not acceptable.
\<close>

fun update_clause :: "update_op \<Rightarrow> bool \<times> bool \<Rightarrow> (string \<times> bool \<times> bool) option" where
  "update_clause (UpdSet (Some c)) (s, w) =
     (if w then None else Some ((if s then '', '' else []) @ c @ '' = ?'', True, w))"
| "update_clause (UpdWhere (Some c)) (s, w) =
     Some ((if w then '' AND '' else '' WHERE '') @ c @ '' = ?'', s, True)"
| "update_clause _ _ = None"

fun update_spec :: "update_op list \<Rightarrow> bool \<times> bool \<Rightarrow> string option" where
  "update_spec [] f = Some []"
| "update_spec (x # xs) f =
     (case update_clause x f of None \<Rightarrow> None
      | Some (tx, f') \<Rightarrow> map_option (\<lambda>rest. tx @ rest) (update_spec xs f'))"

definition uflags :: "update_state \<Rightarrow> bool \<times> bool" where
  "uflags s = (has_set (fst s), uhas_where (fst s))"

lemma keeps_uflags_append [keeps_intro]: "keeps (same uflags) (update_append x)"
  by (rule keepsI) (auto simp: update_append_def on_usb_def uflags_def split: prod.splits)

lemma upd_append_ok:
  assumes "update_append x s = (C_ORM_OK, t)" and "update_good s"
  shows "update_text t = update_text s @ the x \<and> x \<noteq> None \<and> update_good t \<and> uflags t = uflags s"
  using upd.app_ok[OF assms(2,1)] upd.app_good[OF assms(2,1)] keepsD[OF keeps_uflags_append assms(1)]
  by auto

lemma upd_appends_ok:
  assumes "appends update_append xs s = (C_ORM_OK, t)" and "update_good s"
  shows "update_text t = update_text s @ texts xs \<and> None \<notin> set xs \<and> update_good t \<and> uflags t = uflags s"
  using upd.appends_ok[OF assms(2,1)]
    keepsD[OF keeps_appends[where app = update_append, OF keeps_uflags_append] assms(1)]
  by auto

lemma with_ubuilder_Some:
  "with_builder f (Some (b :: update_builder), h) = (rc, (b', h')) \<longleftrightarrow> (\<exists>c. b' = Some c \<and> f (b, h) = (rc, (c, h')))"
  by (auto simp: with_builder_def split: prod.splits)

lemma update_call_wrote:
  assumes "update_call x (Some b, h) = (C_ORM_OK, (b', h'))" and "update_good (b, h)"
  shows "\<exists>c tx. b' = Some c \<and> update_clause x (has_set b, uhas_where b) = Some (tx, uflags (c, h'))
    \<and> update_text (c, h') = update_text (b, h) @ tx \<and> update_good (c, h')"
proof (cases x)
  case (UpdSet col)
  with assms(1) obtain c where c: "col = Some c"
    by (auto simp: c_orm_update_set_def split: option.splits)
  from assms UpdSet c show ?thesis
    by (auto simp: c_orm_update_set_def with_ubuilder_Some then_ok_OK uflags_def update_text_def
        update_good_def split: if_splits dest!: upd_appends_ok)
next
  case (UpdWhere col)
  with assms(1) obtain c where c: "col = Some c"
    by (auto simp: c_orm_update_where_eq_def split: option.splits)
  from assms UpdWhere c show ?thesis
    by (auto simp: c_orm_update_where_eq_def with_ubuilder_Some then_ok_OK uflags_def update_text_def
        update_good_def split: if_splits dest!: upd_append_ok upd_appends_ok)
qed

lemma update_calls_refine:
  assumes "run_steps (map update_call xs) (Some b, h) = (C_ORM_OK, (b', h'))" and "update_good (b, h)"
  shows "\<exists>c tx. b' = Some c \<and> update_spec xs (has_set b, uhas_where b) = Some tx
    \<and> update_text (c, h') = update_text (b, h) @ tx \<and> update_good (c, h')"
  using assms
proof (induction xs arbitrary: b h)
  case Nil
  then show ?case by auto
next
  case (Cons x xs)
  from Cons.prems(1) obtain b1 h1 where u: "update_call x (Some b, h) = (C_ORM_OK, (b1, h1))"
    "run_steps (map update_call xs) (b1, h1) = (C_ORM_OK, (b', h'))"
    by (auto split: prod.splits if_splits)
  from update_call_wrote[OF u(1) Cons.prems(2)] obtain c tx where
    c: "b1 = Some c" "update_clause x (has_set b, uhas_where b) = Some (tx, has_set c, uhas_where c)"
      "update_text (c, h1) = update_text (b, h) @ tx" "update_good (c, h1)"
    by (auto simp: uflags_def)
  from Cons.IH[OF _ c(4)] u(2) c show ?case by auto
qed

section \<open>UPDATE: a whole statement\<close>

definition build_update :: "c_orm_table_meta_t \<Rightarrow> update_op list \<Rightarrow> heap \<Rightarrow> c_orm_error_t \<times> cptr \<times> heap" where
  "build_update m ops h =
     (case c_orm_update_builder_init (Some m) True h of (rc, b, h1) \<Rightarrow>
        if rc \<noteq> C_ORM_OK then (rc, None, h1)
        else case run_steps (map update_call ops) (b, h1) of (rc2, (b2, h2)) \<Rightarrow>
          if rc2 \<noteq> C_ORM_OK then (rc2, None, c_orm_update_builder_free b2 h2)
          else case c_orm_update_builder_compile b2 True h2 of (rc3, sql, h3) \<Rightarrow>
            (rc3, sql, c_orm_update_builder_free b2 h3))"

lemma update_init_ok:
  assumes "c_orm_update_builder_init (Some m) True h = (C_ORM_OK, b, h')"
  shows "\<exists>c n. b = Some c \<and> tbl_name m = Some n \<and> uflags (c, h') = (False, False)
    \<and> update_text (c, h') = ''UPDATE '' @ n @ '' SET '' \<and> update_good (c, h')"
proof -
  from assms obtain h1 sb0 h2 c where
    i: "c_orm_string_builder_init True h1 = (C_ORM_OK, sb0, h2)" and
    a: "appends update_append [Some ''UPDATE '', tbl_name m, Some '' SET '']
          (\<lparr>umeta = m, usb = sb0, has_set = False, uhas_where = False\<rparr>, h2) = (C_ORM_OK, (c, h'))" and
    b: "b = Some c"
    by (auto simp: c_orm_update_builder_init_def split: prod.splits if_splits)
  from init_slack[OF i] have
    "update_good (\<lparr>umeta = m, usb = sb0, has_set = False, uhas_where = False\<rparr>, h2)"
    "update_text (\<lparr>umeta = m, usb = sb0, has_set = False, uhas_where = False\<rparr>, h2) = []"
    by (simp_all add: update_abs sb_good_def sb_text_def init_sb_inv)
  with upd_appends_ok[OF a] b show ?thesis by (cases "tbl_name m") (auto simp: uflags_def)
qed

lemma update_compile_ok:
  "c_orm_update_builder_compile (Some b) True h = (C_ORM_OK, sql, h') \<Longrightarrow> sql = Some (update_text (b, h))"
  by (auto simp: c_orm_update_builder_compile_def c_orm_string_builder_get_def update_text_def sb_text_def
      split: option.splits if_splits prod.splits)

lemma update_refines_spec:
  assumes "build_update m ops h = (C_ORM_OK, sql, h')"
  shows "\<exists>n tx. tbl_name m = Some n \<and> update_spec ops (False, False) = Some tx
    \<and> sql = Some (''UPDATE '' @ n @ '' SET '' @ tx)"
proof -
  from assms obtain b h1 b2 h2 h3 where
    i: "c_orm_update_builder_init (Some m) True h = (C_ORM_OK, b, h1)" and
    r: "run_steps (map update_call ops) (b, h1) = (C_ORM_OK, (b2, h2))" and
    k: "c_orm_update_builder_compile b2 True h2 = (C_ORM_OK, sql, h3)"
    by (auto simp: build_update_def split: prod.splits if_splits)
  from update_init_ok[OF i] obtain c n where c: "b = Some c" "tbl_name m = Some n"
    "uflags (c, h1) = (False, False)" "update_text (c, h1) = ''UPDATE '' @ n @ '' SET ''" "update_good (c, h1)"
    by blast
  from update_calls_refine[of ops c h1] r c obtain b' tx where
    "b2 = Some b'" "update_spec ops (False, False) = Some tx"
    "update_text (b', h2) = ''UPDATE '' @ n @ '' SET '' @ tx" by (auto simp: uflags_def)
  with update_compile_ok k c(2) show ?thesis by auto
qed

lemma update_spec_wheres:
  "update_spec (map (\<lambda>c. UpdWhere (Some c)) ws) (s, w) =
   Some (if ws = [] then [] else (if w then '' AND '' else '' WHERE '') @ join '' AND '' (map (\<lambda>c. c @ '' = ?'') ws))"
proof (induction ws arbitrary: s w)
  case (Cons a ws)
  then show ?case by (cases ws) auto
qed simp

lemma update_spec_sets:
  "update_spec (map (\<lambda>c. UpdSet (Some c)) cs @ map (\<lambda>c. UpdWhere (Some c)) ws) (s, False) =
   Some ((if cs = [] then [] else (if s then '', '' else []) @ join '', '' (map (\<lambda>c. c @ '' = ?'') cs))
     @ (if ws = [] then [] else '' WHERE '' @ join '' AND '' (map (\<lambda>c. c @ '' = ?'') ws)))"
proof (induction cs arbitrary: s)
  case Nil
  then show ?case by (simp add: update_spec_wheres)
next
  case (Cons a cs)
  then show ?case by (cases cs) auto
qed

lemma update_spec_set_after_where:
  "update_spec ops f = Some tx \<Longrightarrow> snd f \<Longrightarrow> \<forall>c. UpdSet c \<notin> set ops"
proof (induction ops f arbitrary: tx rule: update_spec.induct)
  case (2 x xs f)
  obtain s w where f: "f = (s, w)" by (cases f)
  show ?case
  proof (cases x)
    case (UpdSet c)
    with 2 f show ?thesis by (cases c) auto
  next
    case (UpdWhere c)
    with 2 f show ?thesis by (cases c) (auto split: option.splits)
  qed
qed simp

section \<open>Properties\<close>

definition demo_update :: "update_op list" where
  "demo_update = map (\<lambda>c. UpdSet (Some c)) [''name'', ''age''] @ map (\<lambda>c. UpdWhere (Some c)) [''id'']"

text \<open>The UPDATE builder: opened on a table, given assignments and then equality conditions, and compiled, a
  returned statement assigns exactly the given columns, separated by commas, and joins exactly the given
  conditions by AND, one placeholder each.
\<close>

theorem update_canonical:
  assumes "build_update m (map (\<lambda>c. UpdSet (Some c)) cs @ map (\<lambda>c. UpdWhere (Some c)) ws) h = (C_ORM_OK, sql, h')"
  shows "\<exists>n. tbl_name m = Some n \<and> sql = Some (''UPDATE '' @ n @ '' SET ''
    @ join '', '' (map (\<lambda>c. c @ '' = ?'') cs)
    @ (if ws = [] then [] else '' WHERE '' @ join '' AND '' (map (\<lambda>c. c @ '' = ?'') ws)))"
  using update_refines_spec[OF assms] by (auto simp: update_spec_sets split: if_splits)

theorem update_canonical_witness:
  "fst (snd (build_update demo_users demo_update (demo_heap [])))
     = Some ''UPDATE users SET name = ?, age = ? WHERE id = ?''"
proof -
  obtain rc sql h' where b: "build_update demo_users demo_update (demo_heap []) = (rc, sql, h')"
    by (metis surj_pair)
  have "fst (build_update demo_users demo_update (demo_heap [])) = C_ORM_OK" by code_simp
  with b have rc: "rc = C_ORM_OK" by simp
  from update_canonical[OF b[unfolded rc demo_update_def]] b demo_users_name show ?thesis by simp
qed

text \<open>Order of the UPDATE clauses: once a condition has been written, \<open>c_orm_update_set\<close> is refused and
  changes neither the builder nor the allocator; so in a statement that was returned no assignment
  follows a condition.
\<close>

theorem update_set_after_where:
  "(uhas_where b \<longrightarrow> c_orm_update_set col (Some b, h) = (C_ORM_ERROR_UNKNOWN, (Some b, h))) \<and>
   (build_update m (xs @ UpdWhere w # ys) h = (C_ORM_OK, sql, h') \<longrightarrow> (\<forall>c. UpdSet c \<notin> set ys))"
proof (intro conjI impI)
  assume "uhas_where b"
  then show "c_orm_update_set col (Some b, h) = (C_ORM_ERROR_UNKNOWN, (Some b, h))"
    by (cases col) (auto simp: c_orm_update_set_def with_builder_def)
next
  assume "build_update m (xs @ UpdWhere w # ys) h = (C_ORM_OK, sql, h')"
  then obtain tx where "update_spec (xs @ UpdWhere w # ys) (False, False) = Some tx"
    using update_refines_spec by blast
  moreover have "update_spec (xs @ UpdWhere w # ys) f = Some tx \<Longrightarrow> \<forall>c. UpdSet c \<notin> set ys" for f tx
  proof (induction xs arbitrary: f tx)
    case Nil
    obtain s v where "f = (s, v)" by (cases f)
    with Nil show ?case
      by (cases w) (auto split: option.splits dest!: update_spec_set_after_where)
  next
    case (Cons x xs)
    then show ?case by (auto split: option.splits)
  qed
  ultimately show "\<forall>c. UpdSet c \<notin> set ys" by blast
qed

theorem update_set_after_where_witness:
  "c_orm_update_set (Some ''x'')
     (Some \<lparr>umeta = demo_users, usb = None, has_set = True, uhas_where = True\<rparr>, demo_heap [])
   = (C_ORM_ERROR_UNKNOWN,
      (Some \<lparr>umeta = demo_users, usb = None, has_set = True, uhas_where = True\<rparr>, demo_heap []))"
  using update_set_after_where by simp

end
