(* ===== verification/SelectExtra.thy ===== *)
theory SelectExtra
  imports SelectSpec
begin

text \<open>
  Further properties of the SELECT builder: the canonical WHERE clause, \<open>c_orm_select_aggregate\<close>, which
  rewrites the text already built, the IN list, and what a rejected relation path leaves behind.
\<close>

section \<open>The rewriting of the column list\<close>

lemma strstr_Cons_other:
  "take (length needle) (x # hay) \<noteq> needle \<Longrightarrow> strstr (x # hay) needle = map_option Suc (strstr hay needle)"
  by (subst strstr.simps) simp

lemma strstr_skip_nospace:
  assumes "CHR '' '' \<notin> set w"
  shows "strstr (w @ rest) (CHR '' '' # needle) =
    map_option (\<lambda>k. length w + k) (strstr rest (CHR '' '' # needle))"
  using assms
proof (induction w)
  case Nil
  then show ?case by (simp add: option.map_ident)
next
  case (Cons x w)
  then have "strstr (x # w @ rest) (CHR '' '' # needle) = map_option Suc (strstr (w @ rest) (CHR '' '' # needle))"
    by (intro strstr_Cons_other) auto
  with Cons show ?case by (simp add: option.map_comp comp_def)
qed

lemma not_FROM:
  assumes "CHR '' '' \<notin> set w" and "w \<noteq> ''FROM''"
  shows "take 5 (w @ CHR '' '' # r) \<noteq> ''FROM ''"
proof -
  consider "w = []" | a where "w = [a]" | a b where "w = [a, b]" | a b c where "w = [a, b, c]"
    | a b c d where "w = [a, b, c, d]" | a b c d e g where "w = a # b # c # d # e # g"
    by (metis neq_Nil_conv)
  then show ?thesis using assms by cases (auto simp: numeral_eq_Suc)
qed

lemma strstr_skip_word:
  assumes "CHR '' '' \<notin> set w" and "w \<noteq> ''FROM''"
  shows "strstr (CHR '' '' # w @ CHR '' '' # r) '' FROM '' =
    map_option (\<lambda>k. Suc (length w + k)) (strstr (CHR '' '' # r) '' FROM '')"
proof -
  have "strstr (CHR '' '' # w @ CHR '' '' # r) '' FROM '' = map_option Suc (strstr (w @ CHR '' '' # r) '' FROM '')"
    using not_FROM[OF assms, of r] by (intro strstr_Cons_other) (simp add: numeral_eq_Suc)
  with strstr_skip_nospace[OF assms(1)] show ?thesis by (simp add: option.map_comp comp_def)
qed

definition aggregate_item :: "string \<Rightarrow> string \<Rightarrow> string \<Rightarrow> string" where
  "aggregate_item f c a = f @ ''('' @ c @ '') AS '' @ a"

lemma aggregate_sql_star:
  "aggregate_sql (''SELECT * FROM '' @ rest) f c a =
     Some (C_ORM_ERROR_UNKNOWN, ''SELECT '' @ aggregate_item f c a @ '' FROM '' @ rest)"
proof -
  have "strstr (''SELECT * FROM '' @ rest) ''SELECT * FROM '' = Some 0" by (rule strstr_prefix)
  then show ?thesis
    by (simp add: aggregate_sql_def Let_def C_ORM_SPRINTF_def aggregate_item_def)
qed

lemma strstr_zero: "strstr hay needle = Some 0 \<longleftrightarrow> take (length needle) hay = needle"
  by (subst strstr.simps) (auto split: list.splits)

lemma not_star:
  assumes "CHR '' '' \<notin> set f"
  shows "take (length ''SELECT * FROM '') (''SELECT '' @ f @ ''('' @ rest) \<noteq> ''SELECT * FROM ''"
proof -
  consider "f = []" | x where "f = [x]" | x y g where "f = x # y # g"
    by (metis neq_Nil_conv)
  then show ?thesis using assms by cases (auto simp: numeral_eq_Suc)
qed

text \<open>
  After an aggregate over names without blanks, and an alias other than \<open>FROM\<close>, the first \<open>FROM\<close> is
  the one of the statement.
\<close>

lemma strstr_item:
  assumes "CHR '' '' \<notin> set f" "CHR '' '' \<notin> set c" "CHR '' '' \<notin> set a" "a \<noteq> ''FROM''"
  shows "strstr (''SELECT '' @ aggregate_item f c a @ '' FROM '' @ rest) '' FROM ''
    = Some (length (''SELECT '' @ aggregate_item f c a))"
proof -
  have 1: "strstr ('' FROM '' @ rest) '' FROM '' = Some 0" by (rule strstr_prefix)
  have 2: "strstr (CHR '' '' # a @ CHR '' '' # ''FROM '' @ rest) '' FROM '' = Some (Suc (length a))"
    using strstr_skip_word[of a "''FROM '' @ rest"] 1 assms(3,4) by simp
  have 3: "strstr (CHR '' '' # ''AS'' @ CHR '' '' # a @ CHR '' '' # ''FROM '' @ rest) '' FROM '' = Some (4 + length a)"
    using strstr_skip_word[of "''AS''" "a @ CHR '' '' # ''FROM '' @ rest"] 2 by simp
  have "strstr (CHR '' '' # (f @ ''('' @ c @ '')'') @ CHR '' '' # ''AS'' @ CHR '' '' # a @ CHR '' '' # ''FROM '' @ rest)
      '' FROM '' = Some (length (CHR '' '' # f @ ''('' @ c @ '')'') + (4 + length a))"
    using strstr_skip_word[of "f @ ''('' @ c @ '')''" "''AS'' @ CHR '' '' # a @ CHR '' '' # ''FROM '' @ rest"] 3 assms(1,2)
    by (cases f) auto
  then show ?thesis
    using strstr_skip_nospace[of "''SELECT''"
      "CHR '' '' # (f @ ''('' @ c @ '')'') @ CHR '' '' # ''AS'' @ CHR '' '' # a @ CHR '' '' # ''FROM '' @ rest" "''FROM ''"]
    by (simp add: aggregate_item_def)
qed

lemma aggregate_sql_other:
  assumes "strstr cur ''SELECT * FROM '' \<noteq> Some 0" and "cur = pre @ post"
    and "strstr cur '' FROM '' = Some (length pre)"
  shows "aggregate_sql cur f c a =
    Some (C_ORM_ERROR_MEMORY, pre @ '', '' @ aggregate_item f c a @ post)"
  unfolding aggregate_sql_def aggregate_item_def using assms by (simp add: Let_def C_ORM_SPRINTF_def)

lemma aggregate_sql_item:
  assumes "CHR '' '' \<notin> set f" "CHR '' '' \<notin> set c" "CHR '' '' \<notin> set a" "a \<noteq> ''FROM''"
  shows "aggregate_sql (''SELECT '' @ aggregate_item f c a @ '' FROM '' @ rest) g d b =
    Some (C_ORM_ERROR_MEMORY,
      ''SELECT '' @ aggregate_item f c a @ '', '' @ aggregate_item g d b @ '' FROM '' @ rest)"
proof -
  have "strstr (''SELECT '' @ aggregate_item f c a @ '' FROM '' @ rest) ''SELECT * FROM '' \<noteq> Some 0"
    using not_star[OF assms(1), of "c @ '') AS '' @ a @ '' FROM '' @ rest"]
    by (simp only: strstr_zero aggregate_item_def append_assoc not_False_eq_True)
  from aggregate_sql_other[OF this _ strstr_item[OF assms], of "'' FROM '' @ rest" g d b]
  show ?thesis by (simp only: append_assoc)
qed

lemma replace_sql_ok:
  assumes "replace_sql oom new s = (C_ORM_OK, t)" and "oom \<noteq> C_ORM_OK"
  shows "select_text t = new \<and> select_good t \<and> flags t = flags s"
proof -
  obtain b h where s: "s = (b, h)" by (cases s)
  from assms s obtain h1 sb' h2 c h3 where
    i: "c_orm_string_builder_init True h1 = (C_ORM_OK, sb', h2)" and
    a: "select_append (Some new) (b\<lparr>sb := sb'\<rparr>, h2) = (C_ORM_OK, (c, h3))" and
    t: "t = (c, C_ORM_FREE h3)"
    by (auto simp: replace_sql_def split: prod.splits if_splits)
  from init_slack[OF i] have "select_good (b\<lparr>sb := sb'\<rparr>, h2)" "select_text (b\<lparr>sb := sb'\<rparr>, h2) = []"
    by (simp_all add: select_abs sb_good_def sb_text_def init_sb_inv)
  with sel_append_ok[OF a] t s show ?thesis by (simp add: select_abs sb_good_def sb_text_def flags_def)
qed

lemma replace_sql_ready:
  assumes "select_ready s"
  shows "\<exists>t. replace_sql oom new s = (C_ORM_OK, t) \<and> select_ready t"
proof -
  obtain b h where s: "s = (b, h)" by (cases s)
  with assms have h: "no_oom h" by (simp add: select_abs sb_ready_def)
  let ?h1 = "c_orm_string_builder_free (sb b) (h\<lparr>live := live h + 1\<rparr>)"
  have "no_oom ?h1"
    using h by (auto simp: c_orm_string_builder_free_def split: option.splits)
  from init_no_oom[OF this] obtain h2 where
    i: "c_orm_string_builder_init True ?h1
      = (C_ORM_OK, Some \<lparr>buffer = [], sb_length = 0, capacity = 1, valid = True\<rparr>, h2)" "no_oom h2"
    by blast
  then have "select_ready (b\<lparr>sb := Some \<lparr>buffer = [], sb_length = 0, capacity = 1, valid = True\<rparr>\<rparr>, h2)"
    by (simp add: select_abs sb_ready_def init_sb_inv)
  from sel.app_ready[OF this, of new] i h s show ?thesis
    by (auto simp: replace_sql_def select_abs sb_ready_def)
qed

lemma aggregate_sql_oom: "aggregate_sql tx f c a = Some (oom, new) \<Longrightarrow> oom \<noteq> C_ORM_OK"
  by (auto simp: aggregate_sql_def Let_def split: if_splits option.splits)

lemma aggregate_run:
  assumes "aggregate_sql (select_text (b, h)) f c a = Some (oom, new)" and "select_ready (b, h)"
  shows "\<exists>d h'. c_orm_select_aggregate (Some f) (Some c) (Some a) (Some b, h) = (C_ORM_OK, (Some d, h'))
    \<and> select_ready (d, h') \<and> select_text (d, h') = new"
proof -
  from replace_sql_ready[OF assms(2), of oom new] obtain d h' where
    r: "replace_sql oom new (b, h) = (C_ORM_OK, (d, h'))" "select_ready (d, h')" by auto
  from assms(2) have "c_orm_string_builder_get (sb b) True = (C_ORM_OK, Some (select_text (b, h)))"
    by (auto simp: select_abs sb_ready_def c_orm_string_builder_get_def sb_text_def)
  with r replace_sql_ok[OF r(1) aggregate_sql_oom[OF assms(1)]] assms(1) show ?thesis
    by (simp add: c_orm_select_aggregate_def with_builder_def)
qed

section \<open>Canonical WHERE\<close>

lemma select_spec_wheres:
  "select_spec env m (map (\<lambda>(k, c). SelWhere k (Some c)) ws) (w, r) =
   Some (if ws = [] then [] else (if w then '' AND '' else '' WHERE '')
     @ join '' AND '' (map (\<lambda>(k, c). c @ comparison_sql k) ws))"
proof (induction ws arbitrary: w)
  case (Cons a ws)
  then show ?case by (cases ws) (auto split: prod.splits)
qed simp

section \<open>Properties\<close>

text \<open>Aggregates: on a builder whose statement starts with \<open>SELECT * FROM\<close>, while no allocation fails, a first
  aggregate replaces the star and a second one is added after it, the rest of the statement unchanged,
  when the first one's names hold no blank and its alias is not the word FROM.
\<close>

theorem aggregate_twice:
  assumes "select_ready (b, h)" and "select_text (b, h) = ''SELECT * FROM '' @ rest"
    and "CHR '' '' \<notin> set f" "CHR '' '' \<notin> set c" "CHR '' '' \<notin> set a" "a \<noteq> ''FROM''"
  shows "\<exists>d h'. run_steps [c_orm_select_aggregate (Some f) (Some c) (Some a),
        c_orm_select_aggregate (Some f2) (Some c2) (Some a2)] (Some b, h) = (C_ORM_OK, (Some d, h'))
    \<and> select_text (d, h') =
        ''SELECT '' @ f @ ''('' @ c @ '') AS '' @ a @ '', '' @ f2 @ ''('' @ c2 @ '') AS '' @ a2 @ '' FROM '' @ rest"
proof -
  from aggregate_run[OF _ assms(1)] assms(2) aggregate_sql_star obtain d h1 where
    d: "c_orm_select_aggregate (Some f) (Some c) (Some a) (Some b, h) = (C_ORM_OK, (Some d, h1))"
      "select_ready (d, h1)" "select_text (d, h1) = ''SELECT '' @ aggregate_item f c a @ '' FROM '' @ rest"
    by metis
  from aggregate_run[OF _ d(2)] d(3) aggregate_sql_item[OF assms(3-6)] obtain e h2 where
    "c_orm_select_aggregate (Some f2) (Some c2) (Some a2) (Some d, h1) = (C_ORM_OK, (Some e, h2))"
    "select_text (e, h2) = ''SELECT '' @ aggregate_item f c a @ '', '' @ aggregate_item f2 c2 a2 @ '' FROM '' @ rest"
    by metis
  with d show ?thesis by (simp add: aggregate_item_def)
qed

definition demo_select :: "string \<Rightarrow> select_builder" where
  "demo_select tx = \<lparr>meta = demo_users, sb = Some \<lparr>buffer = tx, sb_length = length tx, capacity = 64, valid = True\<rparr>,
     has_where = False, has_order = False\<rparr>"

lemma demo_select_ready: "length tx < 64 \<Longrightarrow> select_ready (demo_select tx, demo_heap [])"
  by (auto simp: select_abs sb_ready_def sb_inv_def demo_select_def no_oom_def demo_heap_def
      intro: exI[of _ 6])

lemma demo_select_text: "select_text (demo_select tx, demo_heap []) = tx"
  by (simp add: select_abs sb_text_def demo_select_def)

theorem aggregate_twice_witness:
  "\<exists>d h'. run_steps [c_orm_select_aggregate (Some ''COUNT'') (Some ''*'') (Some ''n''),
      c_orm_select_aggregate (Some ''MAX'') (Some ''age'') (Some ''oldest'')]
      (Some (demo_select (''SELECT * FROM '' @ ''users'')), demo_heap []) = (C_ORM_OK, (Some d, h'))
    \<and> select_text (d, h') = ''SELECT '' @ ''COUNT'' @ ''('' @ ''*'' @ '') AS '' @ ''n'' @ '', '' @ ''MAX''
        @ ''('' @ ''age'' @ '') AS '' @ ''oldest'' @ '' FROM '' @ ''users''"
  by (rule aggregate_twice [OF demo_select_ready demo_select_text]) simp_all

text \<open>The WHERE clause: a SELECT built with any list of comparisons is, when it is returned, the base statement
  followed by \<open>WHERE\<close> and the comparisons in call order, joined by \<open>AND\<close>, and by nothing when there
  are none.
\<close>

theorem where_canonical:
  assumes "build_select env m (map (\<lambda>(k, c). SelWhere k (Some c)) ws) h = (C_ORM_OK, sql, h')"
  shows "\<exists>n. tbl_name m = Some n \<and> sql = Some (''SELECT * FROM '' @ n
    @ (if ws = [] then [] else '' WHERE '' @ join '' AND '' (map (\<lambda>(k, c). c @ comparison_sql k) ws)))"
proof -
  from assms obtain b h1 b2 h2 h3 where
    i: "c_orm_select_builder_init (Some m) True h = (C_ORM_OK, b, h1)" and
    r: "run_steps (map (select_call env) (map (\<lambda>(k, c). SelWhere k (Some c)) ws)) (b, h1) = (C_ORM_OK, (b2, h2))" and
    k: "c_orm_select_builder_compile b2 True h2 = (C_ORM_OK, sql, h3)"
    by (auto simp: build_select_def split: prod.splits if_splits)
  from select_init_ok[OF i] obtain c n where c: "b = Some c" "tbl_name m = Some n"
    "flags (c, h1) = (m, False, False)" "select_text (c, h1) = ''SELECT * FROM '' @ n" "select_good (c, h1)"
    by blast
  let ?w = "if ws = [] then [] else '' WHERE '' @ join '' AND '' (map (\<lambda>(k, c). c @ comparison_sql k) ws)"
  have "select_spec env m (map (\<lambda>(k, c). SelWhere k (Some c)) ws) (False, False) = Some ?w"
    by (simp add: select_spec_wheres)
  with select_calls_refine[OF r[unfolded c(1)] c(5)] c(3,4) obtain b' where
    b: "b2 = Some b'" "select_text (b', h2) = ''SELECT * FROM '' @ n @ ?w"
    by (auto simp: flags_def simp del: join.simps)
  from select_compile_ok[OF k[unfolded b(1)]] have "sql = Some (''SELECT * FROM '' @ n @ ?w)"
    by (simp only: b(2))
  with c(2) show ?thesis by blast
qed

theorem where_canonical_witness:
  "fst (snd (build_select demo_env demo_users
      (map (\<lambda>(k, c). SelWhere k (Some c)) [(CmpGte, ''age''), (CmpIlike, ''name'')]) (demo_heap [])))
     = Some ''SELECT * FROM users WHERE age >= ? AND name ILIKE ?''"
proof -
  let ?r = "build_select demo_env demo_users
      (map (\<lambda>(k, c). SelWhere k (Some c)) [(CmpGte, ''age''), (CmpIlike, ''name'')]) (demo_heap [])"
  obtain rc sql h' where b: "?r = (rc, sql, h')" by (metis surj_pair)
  have "fst ?r = C_ORM_OK" by code_simp
  with b have rc: "rc = C_ORM_OK" by simp
  from where_canonical[OF b[unfolded rc]] b demo_users_name show ?thesis by simp
qed

text \<open>A rejected relation path is not undone: on a builder without a condition, a path whose first step names
  no relation is refused, but \<open>WHERE\<close> has been written and marked, so that the compiled statement ends
  in an empty condition.
\<close>

theorem rejected_relation_leaves_where:
  assumes "select_ready (b, h)" and "\<not> has_where b" and "strchr_split CHR ''.'' path = Some (before, after)"
    and "find_relation (meta b) (take 63 before) = None"
  shows "\<exists>c h1 h2. c_orm_select_where_relation env (Some path) (Some rop) (Some b, h) = (C_ORM_ERROR_UNKNOWN, (Some c, h1))
    \<and> has_where c
    \<and> c_orm_select_builder_compile (Some c) True h1 = (C_ORM_OK, Some (select_text (b, h) @ '' WHERE ''), h2)"
proof -
  from servesD[OF serves_begin assms(1)] obtain c h1 where
    c: "begin_condition (b, h) = (C_ORM_OK, (c, h1))" "select_ready (c, h1)" by auto
  from begin_condition_ok[OF c(1) sel.ready_good[OF assms(1)]] assms(2) have
    f: "select_text (c, h1) = select_text (b, h) @ '' WHERE ''" "meta c = meta b" "has_where c"
    by (auto simp: flags_def)
  have "build_exists_query env (meta c) path rop (tbl_name (meta c)) 1 (sb c, h1) = (C_ORM_ERROR_UNKNOWN, (sb c, h1))"
    using assms(3,4) f(2) by (subst build_exists_query.simps) simp
  with c(1) have "c_orm_select_where_relation env (Some path) (Some rop) (Some b, h)
      = (C_ORM_ERROR_UNKNOWN, (Some c, h1))"
    by (simp add: c_orm_select_where_relation_def with_builder_def then_ok_def on_sb_def)
  with f select_compile_ready[OF c(2)] show ?thesis by auto
qed

theorem rejected_relation_leaves_where_witness:
  "\<exists>c h1 h2. c_orm_select_where_relation demo_env (Some ''pets.name'') (Some ''='')
      (Some (demo_select ''SELECT * FROM users''), demo_heap []) = (C_ORM_ERROR_UNKNOWN, (Some c, h1))
    \<and> has_where c
    \<and> c_orm_select_builder_compile (Some c) True h1
        = (C_ORM_OK, Some (select_text (demo_select ''SELECT * FROM users'', demo_heap []) @ '' WHERE ''), h2)"
  by (rule rejected_relation_leaves_where [where before = "''pets''" and after = "''name''", OF demo_select_ready])
     (simp_all add: demo_select_def demo_users_def find_relation_def)

end
