(* ===== verification/Arena.thy ===== *)
theory Arena
  imports Prelude
begin

text \<open>
  \<open>src/c_orm_arena.c\<close>: the bump allocator the query AST lives in. Sizes are \<open>size_t\<close> on 64 bits, so the
  rounding and the comparison with the block size wrap the way the code's do. A pointer into the arena is
  the number of its block, counted from the oldest, and an offset into the block's data; a block's data is
  a function from offsets to characters.
\<close>

unbundle bit_operations_syntax

section \<open>State and operations\<close>

record arena_block =
  blk_room :: "64 word"
  blk_used :: "64 word"
  blk_data :: "nat \<Rightarrow> char"

record c_orm_arena =
  arena_head :: "arena_block list"

type_synonym arena_ptr = "nat \<times> nat"
type_synonym arena_state = "c_orm_arena option \<times> heap"

definition C_ORM_ARENA_BLOCK_SIZE :: "64 word" where
  "C_ORM_ARENA_BLOCK_SIZE = 4096"

definition sizeof_arena_block :: "64 word" where
  \<comment> \<open>the next pointer, the counter and the data\<close>
  "sizeof_arena_block = 8 + 8 + C_ORM_ARENA_BLOCK_SIZE"

definition c_orm_arena_new :: "bool \<Rightarrow> heap \<Rightarrow> c_orm_error_t \<times> arena_state" where
  "c_orm_arena_new out_arena h =
     (if \<not> out_arena then (C_ORM_ERROR_UNKNOWN, (None, h))
      else case C_ORM_MALLOC h of (ok, h1) \<Rightarrow>
        if \<not> ok then (C_ORM_ERROR_UNKNOWN, (None, h1))
        else (C_ORM_OK, (Some \<lparr>arena_head = []\<rparr>, h1)))"

definition arena_align :: "64 word \<Rightarrow> 64 word" where
  "arena_align n = (n + 7) AND NOT 7"

definition arena_new_block :: "64 word \<Rightarrow> arena_block" where
  \<comment> \<open>the room is what is left of the allocation after the two header fields\<close>
  "arena_new_block n =
     (let alloc_size = (if n > C_ORM_ARENA_BLOCK_SIZE
                        then sizeof_arena_block - C_ORM_ARENA_BLOCK_SIZE + n else sizeof_arena_block)
      in \<lparr>blk_room = alloc_size - 16, blk_used = 0, blk_data = (\<lambda>_. CHR 0x00)\<rparr>)"

definition arena_full :: "arena_block list \<Rightarrow> 64 word \<Rightarrow> bool" where
  "arena_full bs n = (case bs of [] \<Rightarrow> True | b # _ \<Rightarrow> blk_used b + n > C_ORM_ARENA_BLOCK_SIZE)"

definition arena_bump :: "64 word \<Rightarrow> arena_block list \<Rightarrow> arena_ptr \<times> arena_block list" where
  "arena_bump n bs = ((length (tl bs), unat (blk_used (hd bs))),
     (hd bs)\<lparr>blk_used := blk_used (hd bs) + n\<rparr> # tl bs)"

definition c_orm_arena_alloc ::
    "64 word \<Rightarrow> bool \<Rightarrow> arena_state \<Rightarrow> c_orm_error_t \<times> arena_ptr option \<times> arena_state" where
  "c_orm_arena_alloc n out_ptr s =
     (case s of (arena, h) \<Rightarrow>
        case arena of None \<Rightarrow> (C_ORM_ERROR_UNKNOWN, None, s)
        | Some a \<Rightarrow>
            if \<not> out_ptr \<or> n = 0 then (C_ORM_ERROR_UNKNOWN, None, s)
            else let size = arena_align n in
              if arena_full (arena_head a) size then
                case C_ORM_MALLOC h of (ok, h1) \<Rightarrow>
                  if \<not> ok then (C_ORM_ERROR_UNKNOWN, None, (Some a, h1))
                  else case arena_bump size (arena_new_block size # arena_head a) of (p, bs) \<Rightarrow>
                    (C_ORM_OK, Some p, (Some (a\<lparr>arena_head := bs\<rparr>), h1))
              else case arena_bump size (arena_head a) of (p, bs) \<Rightarrow>
                    (C_ORM_OK, Some p, (Some (a\<lparr>arena_head := bs\<rparr>), h)))"

definition memcpy :: "(nat \<Rightarrow> char) \<Rightarrow> nat \<Rightarrow> string \<Rightarrow> nat \<Rightarrow> char" where
  "memcpy d off src = (\<lambda>i. if off \<le> i \<and> i < off + length src then src ! (i - off) else d i)"

definition write_block :: "arena_ptr \<Rightarrow> string \<Rightarrow> c_orm_arena \<Rightarrow> c_orm_arena" where
  "write_block p src a =
     (let k = length (arena_head a) - 1 - fst p; b = arena_head a ! k
      in a\<lparr>arena_head := (arena_head a)[k := b\<lparr>blk_data := memcpy (blk_data b) (snd p) src\<rparr>]\<rparr>)"

definition c_orm_arena_strdup ::
    "cptr \<Rightarrow> bool \<Rightarrow> arena_state \<Rightarrow> c_orm_error_t \<times> arena_ptr option \<times> arena_state" where
  "c_orm_arena_strdup str out_copy s =
     (if \<not> out_copy then (C_ORM_ERROR_UNKNOWN, None, s)
      else case str of None \<Rightarrow> (C_ORM_OK, None, s)
      | Some tx \<Rightarrow>
          if fst s = None then (C_ORM_ERROR_UNKNOWN, None, s)
          else case c_orm_arena_alloc (of_nat (length tx + 1)) True s of (rc, copy, (a, h)) \<Rightarrow>
            if rc \<noteq> C_ORM_OK then (C_ORM_ERROR_MEMORY, None, (a, h))
            else (C_ORM_OK, copy, (map_option (write_block (the copy) (tx @ [CHR 0x00])) a, h)))"

definition c_orm_arena_free :: "arena_state \<Rightarrow> heap" where
  \<comment> \<open>every block, then the arena\<close>
  "c_orm_arena_free s =
     (case s of (arena, h) \<Rightarrow>
        case arena of None \<Rightarrow> h
        | Some a \<Rightarrow> C_ORM_FREE (fold (\<lambda>_ h. C_ORM_FREE h) (arena_head a) h))"

section \<open>Rounding\<close>

lemma seven_mask: "(7 :: 64 word) = mask 3"
  by (simp add: mask_eq_exp_minus_1)

lemma and_not_7: "unat (x AND NOT 7 :: 64 word) = unat x div 8 * 8"
proof -
  have "x AND NOT 7 = push_bit 3 (drop_bit 3 x)"
    unfolding seven_mask by (rule bit_word_eqI) (auto simp: bit_simps)
  then have "x AND NOT 7 = x div 8 * 8"
    by (simp add: push_bit_eq_mult drop_bit_eq_div)
  moreover have "unat x div 8 * 8 < 2 ^ 64"
  proof -
    have "unat x div 8 * 8 \<le> unat x" by simp
    also have "unat x < 2 ^ 64" using unsigned_less[of x] by simp
    finally show ?thesis .
  qed
  ultimately show ?thesis by (simp add: unat_word_ariths unat_div)
qed

lemma arena_align_unat:
  assumes "unat n \<le> 2 ^ 63"
  shows "unat (arena_align n) = (unat n + 7) div 8 * 8"
proof -
  have "unat (n + 7) = unat n + 7"
    using assms by (simp add: unat_word_ariths)
  then show ?thesis by (simp only: arena_align_def and_not_7)
qed

section \<open>The blocks\<close>

definition block_at :: "c_orm_arena \<Rightarrow> nat \<Rightarrow> arena_block" where
  "block_at a k = rev (arena_head a) ! k"

definition block_ok :: "arena_block \<Rightarrow> bool" where
  "block_ok b \<longleftrightarrow> 8 dvd unat (blk_used b) \<and> blk_used b \<le> blk_room b
     \<and> C_ORM_ARENA_BLOCK_SIZE \<le> blk_room b \<and> unat (blk_room b) \<le> 2 ^ 62 + 8"

definition blocks_ok :: "c_orm_arena \<Rightarrow> bool" where
  "blocks_ok a \<longleftrightarrow> (\<forall>b \<in> set (arena_head a). block_ok b)"

lemma block_at_ok: "blocks_ok a \<Longrightarrow> k < length (arena_head a) \<Longrightarrow> block_ok (block_at a k)"
  by (simp add: blocks_ok_def block_at_def rev_nth)

text \<open>\<open>grows a a'\<close>: the blocks of \<open>a\<close> are still there, at least as full, and with the data of their filled part.\<close>

definition grows :: "c_orm_arena \<Rightarrow> c_orm_arena \<Rightarrow> bool" where
  "grows a a' \<longleftrightarrow> length (arena_head a) \<le> length (arena_head a') \<and>
     (\<forall>k < length (arena_head a). blk_used (block_at a k) \<le> blk_used (block_at a' k)
        \<and> (\<forall>i < unat (blk_used (block_at a k)). blk_data (block_at a k) i = blk_data (block_at a' k) i))"

lemma grows_refl [simp]: "grows a a"
  by (simp add: grows_def)

lemma arena_align_bounds:
  assumes "unat n \<le> 2 ^ 62" and "n \<noteq> 0"
  shows "unat n \<le> unat (arena_align n)" "unat (arena_align n) \<le> 2 ^ 62" "8 dvd unat (arena_align n)"
  using arena_align_unat[of n] assms by simp_all

lemma new_block_ok:
  assumes "unat n \<le> 2 ^ 62"
  shows "block_ok (arena_new_block n)" "n \<le> blk_room (arena_new_block n)"
    "blk_used (arena_new_block n) = 0"
  using assms
  by (simp_all add: arena_new_block_def block_ok_def sizeof_arena_block_def C_ORM_ARENA_BLOCK_SIZE_def
      Let_def word_le_nat_alt word_less_nat_alt unat_word_ariths)

text \<open>The room a bump finds: the head of the list, which is the newest block, has \<open>n\<close> bytes left.\<close>

lemma bump_facts:
  assumes "arena_bump n (b # bs) = (p, cs)" and "unat (blk_used b) + unat n \<le> unat (blk_room b)"
    and "block_ok b" and "\<forall>c \<in> set bs. block_ok c" and "8 dvd unat n"
  shows "p = (length bs, unat (blk_used b))" "length cs = Suc (length bs)"
    "blocks_ok \<lparr>arena_head = cs\<rparr>" "grows \<lparr>arena_head = b # bs\<rparr> \<lparr>arena_head = cs\<rparr>"
    "unat (blk_used (block_at \<lparr>arena_head = cs\<rparr> (length bs))) = unat (blk_used b) + unat n"
proof -
  have u: "unat (blk_used b + n) = unat (blk_used b) + unat n"
    using assms(2,3) by (simp add: unat_word_ariths block_ok_def)
  show "p = (length bs, unat (blk_used b))" "length cs = Suc (length bs)"
    using assms(1) by (auto simp: arena_bump_def)
  show "blocks_ok \<lparr>arena_head = cs\<rparr>" "grows \<lparr>arena_head = b # bs\<rparr> \<lparr>arena_head = cs\<rparr>"
    using assms u
    by (auto simp: arena_bump_def blocks_ok_def block_ok_def grows_def block_at_def nth_append word_le_nat_alt
        less_Suc_eq)
  show "unat (blk_used (block_at \<lparr>arena_head = cs\<rparr> (length bs))) = unat (blk_used b) + unat n"
    using assms(1) u by (auto simp: arena_bump_def block_at_def nth_append)
qed

lemma block_at_cons: "k < length bs \<Longrightarrow> block_at \<lparr>arena_head = b # bs\<rparr> k = block_at \<lparr>arena_head = bs\<rparr> k"
  by (simp add: block_at_def nth_append)

lemma grows_cons:
  assumes "grows \<lparr>arena_head = b # bs\<rparr> a"
  shows "grows \<lparr>arena_head = bs\<rparr> a"
proof -
  have "blk_used (block_at \<lparr>arena_head = bs\<rparr> k) \<le> blk_used (block_at a k)
      \<and> (\<forall>i < unat (blk_used (block_at \<lparr>arena_head = bs\<rparr> k)).
           blk_data (block_at \<lparr>arena_head = bs\<rparr> k) i = blk_data (block_at a k) i)" if "k < length bs" for k
  proof -
    from that assms have "blk_used (block_at \<lparr>arena_head = b # bs\<rparr> k) \<le> blk_used (block_at a k)
      \<and> (\<forall>i < unat (blk_used (block_at \<lparr>arena_head = b # bs\<rparr> k)).
           blk_data (block_at \<lparr>arena_head = b # bs\<rparr> k) i = blk_data (block_at a k) i)"
      by (simp add: grows_def)
    with block_at_cons[OF that] show ?thesis by simp
  qed
  with assms show ?thesis by (simp add: grows_def)
qed

text \<open>
  What an allocation of up to \<open>2 ^ 62\<close> bytes does: the region it returns lies in the filled part of its
  block, after everything that was filled before, aligned to 8.
\<close>

lemma arena_alloc_ok:
  assumes "c_orm_arena_alloc n True (Some a, h) = (C_ORM_OK, p, (a', h'))"
    and "blocks_ok a" and "unat n \<le> 2 ^ 62"
  shows "\<exists>k off a2. p = Some (k, off) \<and> a' = Some a2 \<and> blocks_ok a2 \<and> grows a a2 \<and> 0 < unat n
    \<and> 8 dvd off \<and> k < length (arena_head a2) \<and> off + unat n \<le> unat (blk_used (block_at a2 k))
    \<and> (k < length (arena_head a) \<longrightarrow> unat (blk_used (block_at a k)) \<le> off)
    \<and> live h' = live h + int (length (arena_head a2)) - int (length (arena_head a))"
proof -
  obtain bs where a: "a = \<lparr>arena_head = bs\<rparr>" by (cases a)
  from assms(1) have n: "n \<noteq> 0" by (auto simp: c_orm_arena_alloc_def split: if_splits)
  note al = arena_align_bounds[OF assms(3) n]
  let ?n = "arena_align n"
  show ?thesis
  proof (cases "arena_full bs ?n")
    case True
    with assms(1) n a obtain h1 q cs where m: "C_ORM_MALLOC h = (True, h1)"
      and b: "arena_bump ?n (arena_new_block ?n # bs) = (q, cs)"
      and r: "p = Some q" "a' = Some \<lparr>arena_head = cs\<rparr>" "h' = h1"
      by (auto simp: c_orm_arena_alloc_def Let_def split: prod.splits if_splits)
    have "unat (blk_used (arena_new_block ?n)) + unat ?n \<le> unat (blk_room (arena_new_block ?n))"
      using new_block_ok(2,3)[OF al(2)] by (simp add: word_le_nat_alt)
    from bump_facts[OF b this new_block_ok(1)[OF al(2)] _ al(3)] assms(2) a
    have f: "q = (length bs, 0)" "length cs = Suc (length bs)" "blocks_ok \<lparr>arena_head = cs\<rparr>"
      "grows \<lparr>arena_head = arena_new_block ?n # bs\<rparr> \<lparr>arena_head = cs\<rparr>"
      "unat (blk_used (block_at \<lparr>arena_head = cs\<rparr> (length bs))) = unat ?n"
      using new_block_ok(3)[OF al(2)] by (simp_all add: blocks_ok_def)
    from grows_cons[OF f(4)] f r a al n malloc_live[OF m] show ?thesis
      by (intro exI[of _ "length bs"] exI[of _ 0] exI[of _ "\<lparr>arena_head = cs\<rparr>"]) (simp add: unat_gt_0)
  next
    case False
    then obtain b bt where bs: "bs = b # bt" and u: "blk_used b + ?n \<le> C_ORM_ARENA_BLOCK_SIZE"
      by (auto simp: arena_full_def split: list.splits)
    from assms(2) a bs have ok: "block_ok b" "\<forall>c \<in> set bt. block_ok c" by (simp_all add: blocks_ok_def)
    have "unat (blk_used b + ?n) = unat (blk_used b) + unat ?n"
      using ok(1) al(2) by (simp add: block_ok_def unat_word_ariths word_le_nat_alt)
    with u have room: "unat (blk_used b) + unat ?n \<le> unat (blk_room b)"
      using ok(1) by (simp add: block_ok_def word_le_nat_alt)
    from False a assms(1) n obtain q cs where b: "arena_bump ?n (b # bt) = (q, cs)"
      and r: "p = Some q" "a' = Some \<lparr>arena_head = cs\<rparr>" "h' = h"
      by (auto simp: c_orm_arena_alloc_def Let_def bs split: prod.splits if_splits)
    from bump_facts[OF b room ok al(3)] r a bs al ok(1) n show ?thesis
      by (intro exI[of _ "length bt"] exI[of _ "unat (blk_used b)"] exI[of _ "\<lparr>arena_head = cs\<rparr>"])
         (simp add: unat_gt_0 block_ok_def block_at_def nth_append)
  qed
qed

lemma arena_alloc_fail:
  assumes "c_orm_arena_alloc n out (Some a, h) = (rc, p, (a', h'))" and "rc \<noteq> C_ORM_OK"
  shows "p = None \<and> a' = Some a \<and> live h' = live h"
  using assms by (auto simp: c_orm_arena_alloc_def Let_def dest: malloc_live split: prod.splits if_splits)

section \<open>Runs\<close>

text \<open>
  A run of allocations and string copies, with the regions handed out in order: where each starts, how many
  bytes were asked for, and the string copied into it.
\<close>

datatype arena_op = ArenaAlloc "64 word" | ArenaStrdup string

type_synonym region = "arena_ptr \<times> nat \<times> cptr"

fun arena_call :: "arena_op \<Rightarrow> arena_state \<Rightarrow> region list \<times> arena_state" where
  "arena_call (ArenaAlloc n) s =
     (case c_orm_arena_alloc n True s of (rc, p, s') \<Rightarrow>
        (if rc = C_ORM_OK then [(the p, unat n, None)] else [], s'))"
| "arena_call (ArenaStrdup tx) s =
     (case c_orm_arena_strdup (Some tx) True s of (rc, p, s') \<Rightarrow>
        (if rc = C_ORM_OK then [(the p, length tx + 1, Some tx)] else [], s'))"

fun arena_run :: "arena_op list \<Rightarrow> arena_state \<Rightarrow> region list \<times> arena_state" where
  "arena_run [] s = ([], s)"
| "arena_run (oper # ops) s =
     (case arena_call oper s of (rs, s1) \<Rightarrow> case arena_run ops s1 of (qs, s2) \<Rightarrow> (rs @ qs, s2))"

fun small_op :: "arena_op \<Rightarrow> bool" where
  "small_op (ArenaAlloc n) = (unat n \<le> 2 ^ 62)"
| "small_op (ArenaStrdup tx) = (length tx < 2 ^ 62)"

text \<open>
  What the caller may rely on: the region is aligned and inside the filled part of a block, and it still
  holds the string that was copied into it, with its NUL.
\<close>

definition holds :: "arena_block \<Rightarrow> nat \<Rightarrow> string \<Rightarrow> bool" where
  "holds b off tx \<longleftrightarrow> (\<forall>i < length tx. blk_data b (off + i) = tx ! i)"

fun region_ok :: "c_orm_arena \<Rightarrow> region \<Rightarrow> bool" where
  "region_ok a ((k, off), n, tx) \<longleftrightarrow>
     k < length (arena_head a) \<and> 8 dvd off \<and> 0 < n \<and> off + n \<le> unat (blk_used (block_at a k)) \<and>
     (case tx of None \<Rightarrow> True | Some t \<Rightarrow> n = length t + 1 \<and> holds (block_at a k) off (t @ [CHR 0x00]))"

fun disjoint_regions :: "region \<Rightarrow> region \<Rightarrow> bool" where
  "disjoint_regions ((k, off), n, _) ((k', off'), n', _) \<longleftrightarrow>
     k \<noteq> k' \<or> off + n \<le> off' \<or> off' + n' \<le> off"

lemma grows_trans: "grows a b \<Longrightarrow> grows b c \<Longrightarrow> grows a c"
  unfolding grows_def by (auto simp: word_le_nat_alt) (meson order.strict_trans2 order_trans)+

lemma region_ok_grows:
  assumes "region_ok a r" and "grows a a'"
  shows "region_ok a' r"
proof -
  obtain k off n tx where r: "r = ((k, off), n, tx)" by (metis surj_pair)
  from assms r have k: "k < length (arena_head a)" "off + n \<le> unat (blk_used (block_at a k))" by simp_all
  with assms(2) have "blk_used (block_at a k) \<le> blk_used (block_at a' k)"
    and "\<forall>i < unat (blk_used (block_at a k)). blk_data (block_at a k) i = blk_data (block_at a' k) i"
    and "k < length (arena_head a')"
    by (auto simp: grows_def)
  with k assms(1) r show ?thesis
    by (auto simp: holds_def word_le_nat_alt split: option.splits)
qed

lemma block_at_write:
  assumes "fst p < length (arena_head a)" and "j < length (arena_head a)"
  shows "block_at (write_block p src a) j = (if j = fst p
    then (block_at a j)\<lparr>blk_data := memcpy (blk_data (block_at a j)) (snd p) src\<rparr> else block_at a j)"
  using assms by (auto simp: block_at_def write_block_def Let_def rev_nth nth_list_update)

lemma write_block_length [simp]: "length (arena_head (write_block p src a)) = length (arena_head a)"
  by (simp add: write_block_def Let_def)

lemma write_block_blocks_ok:
  assumes "fst p < length (arena_head a)" "blocks_ok a"
  shows "blocks_ok (write_block p src a)"
proof -
  have "blocks_ok b \<longleftrightarrow> (\<forall>j < length (arena_head b). block_ok (block_at b j))" for b
    unfolding blocks_ok_def block_at_def by (metis in_set_conv_nth length_rev set_rev)
  with assms show ?thesis by (auto simp: block_at_write block_ok_def)
qed

lemma write_block_grows:
  assumes g: "grows a b" and p: "fst p < length (arena_head b)"
    and old: "fst p < length (arena_head a) \<longrightarrow> unat (blk_used (block_at a (fst p))) \<le> snd p"
  shows "grows a (write_block p src b)"
proof -
  have "blk_used (block_at a j) \<le> blk_used (block_at (write_block p src b) j)
      \<and> (\<forall>i < unat (blk_used (block_at a j)). blk_data (block_at a j) i = blk_data (block_at (write_block p src b) j) i)"
    if j: "j < length (arena_head a)" for j
  proof -
    from g j have "j < length (arena_head b)" by (simp add: grows_def)
    with g j old p show ?thesis by (auto simp: grows_def block_at_write memcpy_def)
  qed
  with g show ?thesis by (simp add: grows_def)
qed

lemma write_block_holds:
  "fst p < length (arena_head a) \<Longrightarrow> holds (block_at (write_block p src a) (fst p)) (snd p) src"
  by (simp add: block_at_write holds_def memcpy_def)

lemma unat_strlen:
  assumes "length tx < 2 ^ 62"
  shows "unat (of_nat (length tx + 1) :: 64 word) = length tx + 1"
  by (subst unat_of_nat) (use assms in simp)

text \<open>One call: what it returns is acceptable, and disjoint from everything acceptable before.\<close>

lemma arena_call_ok:
  assumes "arena_call oper (Some a, h) = (rs, (a', h'))" and ok: "blocks_ok a" and "small_op oper"
  shows "\<exists>a2. a' = Some a2 \<and> blocks_ok a2 \<and> grows a a2 \<and> list_all (region_ok a2) rs
    \<and> (\<forall>q r. region_ok a q \<longrightarrow> r \<in> set rs \<longrightarrow> disjoint_regions q r) \<and> length rs \<le> 1
    \<and> live h' = live h + int (length (arena_head a2)) - int (length (arena_head a))"
proof (cases oper)
  case (ArenaAlloc n)
  obtain rc p b k where al: "c_orm_arena_alloc n True (Some a, h) = (rc, p, (b, k))" by (metis surj_pair)
  show ?thesis
  proof (cases "rc = C_ORM_OK")
    case True
    from arena_alloc_ok[OF al[unfolded True] ok] assms(1,3) ArenaAlloc al True show ?thesis
      by auto
  next
    case False
    from arena_alloc_fail[OF al False] assms(1) ok ArenaAlloc al False show ?thesis by auto
  qed
next
  case (ArenaStrdup tx)
  obtain rc p b k where al: "c_orm_arena_alloc (of_nat (length tx + 1)) True (Some a, h) = (rc, p, (b, k))"
    by (metis surj_pair)
  have len: "unat (of_nat (length tx + 1) :: 64 word) = length tx + 1"
    by (rule unat_strlen) (use assms(3) ArenaStrdup in simp)
  show ?thesis
  proof (cases "rc = C_ORM_OK")
    case True
    have "unat (of_nat (length tx + 1) :: 64 word) \<le> 2 ^ 62" using len assms(3) ArenaStrdup by simp
    from arena_alloc_ok[OF al[unfolded True] ok this] obtain q a2 where
      q: "p = Some q" "b = Some a2" "blocks_ok a2" "grows a a2" "8 dvd snd q" "fst q < length (arena_head a2)"
      "snd q + (length tx + 1) \<le> unat (blk_used (block_at a2 (fst q)))"
      "fst q < length (arena_head a) \<longrightarrow> unat (blk_used (block_at a (fst q))) \<le> snd q"
      "live k = live h + int (length (arena_head a2)) - int (length (arena_head a))"
      unfolding len by auto
    let ?w = "write_block q (tx @ [CHR 0x00]) a2"
    from assms(1) ArenaStrdup al True q have r: "rs = [(q, length tx + 1, Some tx)]" "a' = Some ?w" "h' = k"
      by (auto simp: c_orm_arena_strdup_def)
    have "region_ok ?w (q, length tx + 1, Some tx)"
      using q write_block_holds[OF q(6)] by (cases q) (simp add: block_at_write)
    moreover have "disjoint_regions x (q, length tx + 1, Some tx)" if "region_ok a x" for x
    proof -
      obtain k off n t where "x = ((k, off), n, t)" by (metis surj_pair)
      with that q(8) show ?thesis by (cases q) auto
    qed
    ultimately show ?thesis
      using r q write_block_blocks_ok[OF q(6,3)] write_block_grows[OF q(4,6,8)] by simp
  next
    case False
    from arena_alloc_fail[OF al False] assms(1) ok ArenaStrdup al False show ?thesis
      by (auto simp: c_orm_arena_strdup_def)
  qed
qed

lemma arena_run_ok:
  assumes "arena_run ops (Some a, h) = (rs, (a', h'))" and "blocks_ok a" and "list_all small_op ops"
  shows "\<exists>a2. a' = Some a2 \<and> blocks_ok a2 \<and> grows a a2 \<and> list_all (region_ok a2) rs
    \<and> (\<forall>q r. region_ok a q \<longrightarrow> r \<in> set rs \<longrightarrow> disjoint_regions q r) \<and> sorted_wrt disjoint_regions rs
    \<and> live h' = live h + int (length (arena_head a2)) - int (length (arena_head a))"
  using assms
proof (induction ops arbitrary: a h rs)
  case Nil
  then show ?case by auto
next
  case (Cons oper ops)
  obtain rs1 b h1 where c: "arena_call oper (Some a, h) = (rs1, (b, h1))" by (metis surj_pair)
  from arena_call_ok[OF c Cons.prems(2)] Cons.prems(3) obtain a1 where
    a1: "b = Some a1" "blocks_ok a1" "grows a a1" "list_all (region_ok a1) rs1"
      "\<forall>q r. region_ok a q \<longrightarrow> r \<in> set rs1 \<longrightarrow> disjoint_regions q r" "length rs1 \<le> 1"
      "live h1 = live h + int (length (arena_head a1)) - int (length (arena_head a))" by auto
  obtain rs2 where d: "arena_run ops (Some a1, h1) = (rs2, (a', h'))" and rs: "rs = rs1 @ rs2"
    using Cons.prems(1) c a1(1) by (auto split: prod.splits)
  from Cons.IH[OF d a1(2)] Cons.prems(3) obtain a2 where
    a2: "a' = Some a2" "blocks_ok a2" "grows a1 a2" "list_all (region_ok a2) rs2"
      "\<forall>q r. region_ok a1 q \<longrightarrow> r \<in> set rs2 \<longrightarrow> disjoint_regions q r" "sorted_wrt disjoint_regions rs2"
      "live h' = live h1 + int (length (arena_head a2)) - int (length (arena_head a1))" by auto
  have "sorted_wrt disjoint_regions rs1" using a1(6) by (cases rs1; cases "tl rs1") auto
  moreover have "list_all (region_ok a2) rs1" using a1(4) region_ok_grows[OF _ a2(3)] by (auto simp: list_all_iff)
  moreover have "disjoint_regions q r" if "q \<in> set rs1" "r \<in> set rs2" for q r
    using that a1(4) a2(5) by (auto simp only: list_all_iff)
  moreover have "disjoint_regions q r" if "region_ok a q" "r \<in> set rs1 \<union> set rs2" for q r
    using that a1(5) a2(5) region_ok_grows[OF that(1) a1(3)] by blast
  ultimately show ?case
    using a1 a2 rs grows_trans[OF a1(3) a2(3)]
    by (simp add: sorted_wrt_append del: region_ok.simps disjoint_regions.simps)
qed

lemma arena_new_ok:
  "c_orm_arena_new True h = (C_ORM_OK, s) \<Longrightarrow>
   \<exists>h'. s = (Some \<lparr>arena_head = []\<rparr>, h') \<and> live h' = live h + 1 \<and> (no_oom h \<longrightarrow> no_oom h')"
  using malloc_live[of h] by (auto simp: c_orm_arena_new_def split: prod.splits if_splits)

lemma empty_blocks_ok [simp]: "blocks_ok \<lparr>arena_head = []\<rparr>"
  by (simp add: blocks_ok_def)

lemma arena_call_served:
  assumes "no_oom h" and "oper \<noteq> ArenaAlloc 0" and "small_op oper"
  shows "\<exists>r a' h'. arena_call oper (Some a, h) = ([r], (Some a', h')) \<and> no_oom h'"
proof -
  have alloc: "\<exists>q a' h'. c_orm_arena_alloc n True (Some a, h) = (C_ORM_OK, Some q, (Some a', h')) \<and> no_oom h'"
    if "n \<noteq> 0" for n
    using that assms(1) by (simp add: c_orm_arena_alloc_def Let_def split: prod.splits)
  show ?thesis
  proof (cases oper)
    case (ArenaAlloc n)
    with assms(2) alloc[of n] show ?thesis by auto
  next
    case (ArenaStrdup tx)
    have "unat (of_nat (length tx + 1) :: 64 word) = length tx + 1"
      by (rule unat_strlen) (use assms(3) ArenaStrdup in simp)
    then have "(of_nat (length tx + 1) :: 64 word) \<noteq> 0" by (metis Suc_eq_plus1 nat.distinct(2) unsigned_0)
    from alloc[OF this] ArenaStrdup show ?thesis by (auto simp: c_orm_arena_strdup_def)
  qed
qed

section \<open>Properties\<close>


definition demo_arena_ops :: "arena_op list" where
  "demo_arena_ops = [ArenaAlloc 24, ArenaStrdup ''users'', ArenaAlloc 5000, ArenaStrdup ''age'']"

definition demo_arena :: "bool list \<Rightarrow> region list \<times> arena_state" where
  "demo_arena oom = arena_run demo_arena_ops (snd (c_orm_arena_new True \<lparr>script = oom, live = 0\<rparr>))"


text \<open>Freeing an arena after any run returns every block: the count of live allocations is what it was before
  the arena was created, whichever allocations failed in between.
\<close>

theorem arena_leak_free:
  assumes "c_orm_arena_new True h = (C_ORM_OK, s)" and "list_all small_op ops"
  shows "live (c_orm_arena_free (snd (arena_run ops s))) = live h"
proof -
  have free: "live (fold (\<lambda>_ h. C_ORM_FREE h) bs k) = live k - int (length bs)" for bs :: "arena_block list" and k
    by (induction bs arbitrary: k) simp_all
  from arena_new_ok[OF assms(1)] obtain h1 where s: "s = (Some \<lparr>arena_head = []\<rparr>, h1)" "live h1 = live h + 1" by blast
  obtain rs a' h' where r: "arena_run ops s = (rs, (a', h'))" by (metis surj_pair)
  from arena_run_ok[OF r[unfolded s(1)]] assms(2) s(2) r free show ?thesis
    by (auto simp: c_orm_arena_free_def)
qed

theorem arena_leak_free_witness:
  "live (c_orm_arena_free (snd (arena_run demo_arena_ops (Some \<lparr>arena_head = []\<rparr>, \<lparr>script = [True, False], live = 8\<rparr>)))) = 7"
proof -
  have n: "c_orm_arena_new True \<lparr>script = [True, True, False], live = 7\<rparr>
    = (C_ORM_OK, (Some \<lparr>arena_head = []\<rparr>, \<lparr>script = [True, False], live = 8\<rparr>))"
    by (simp add: c_orm_arena_new_def C_ORM_MALLOC_def)
  have "list_all small_op demo_arena_ops" by (simp add: demo_arena_ops_def)
  from arena_leak_free[OF n this] show ?thesis by simp
qed

text \<open>
  While no allocation fails, every request of up to \<open>2 ^ 62\<close> bytes, zero excepted, is served.
\<close>

theorem arena_serves_all:
  assumes "no_oom h" and "list_all small_op ops" and "ArenaAlloc 0 \<notin> set ops"
  shows "length (fst (arena_run ops (Some a, h))) = length ops"
  using assms
proof (induction ops arbitrary: a h)
  case (Cons oper ops)
  from arena_call_served[of h oper a] Cons.prems obtain r b k where
    c: "arena_call oper (Some a, h) = ([r], (Some b, k))" "no_oom k" by auto
  obtain qs s2 where q: "arena_run ops (Some b, k) = (qs, s2)" by (metis surj_pair)
  from Cons.IH[OF c(2)] Cons.prems(2,3) have "length (fst (arena_run ops (Some b, k))) = length ops" by simp
  with c q show ?case by simp
qed simp

theorem arena_serves_all_witness:
  "length (fst (arena_run demo_arena_ops (Some \<lparr>arena_head = []\<rparr>, \<lparr>script = [], live = 1\<rparr>))) = 4"
  using arena_serves_all[of "\<lparr>script = [], live = 1\<rparr>" demo_arena_ops "\<lparr>arena_head = []\<rparr>"]
  by (simp add: no_oom_def demo_arena_ops_def del: arena_run.simps)



end
