(* ===== verification/QuerySql.thy ===== *)
theory QuerySql
  imports StringBuilder
begin

text \<open>
  \<open>src/c_orm_query_sql.c\<close> and the node types of \<open>include/c_orm_ast.h\<close>: rendering of the query AST to SQL
  with bound parameters. A \<open>c_orm_ast_node_t *\<close> is an \<open>ast_node option\<close>, and the sibling list of a query,
  newest node first, is an \<open>ast_node list\<close>. A nested query is the list it has when it is rendered.
\<close>

section \<open>The AST\<close>

datatype ast_node =
    AstSelect cptr bool
  | AstFrom cptr cptr
  | AstWhere "ast_node option"
  | AstJoin cptr cptr "ast_node option"
  | AstGroupBy cptr
  | AstHaving "ast_node option"
  | AstOrderBy cptr bool
  | AstLimit "64 word"
  | AstOffset "64 word"
  | AstLiteral cptr bool
  | AstOperator cptr "ast_node option" "ast_node option"
  | AstRaw cptr
  | AstColumn cptr
  | AstGroup "ast_node option"
  | AstSubquery "ast_node list option" cptr
  | AstUnion bool "ast_node list option"
  | AstWith cptr "ast_node list option"
  | AstFunction cptr cptr cptr
  | AstCast cptr cptr
  | AstBetween cptr cptr cptr bool
  | AstExists "ast_node list option" bool
  | AstWindow cptr cptr cptr cptr

datatype c_orm_dialect_t = C_ORM_DIALECT_SQLITE | C_ORM_DIALECT_POSTGRES | C_ORM_DIALECT_MYSQL

definition cdd_c_sql_parser_max_depth :: nat where
  "cdd_c_sql_parser_max_depth = 100"

definition given :: "cptr \<Rightarrow> bool" where
  \<comment> \<open>\<open>p && p[0] != '\0'\<close>\<close>
  "given p \<longleftrightarrow> p \<noteq> None \<and> p \<noteq> Some []"

section \<open>Bound parameters\<close>

text \<open>The first \<open>count\<close> slots of the array are \<open>qp_items\<close>; \<open>qp_array\<close> says that \<open>params->params\<close> is not NULL.\<close>

record c_orm_query_params_t =
  qp_items :: "(cptr \<times> bool) list"
  qp_capacity :: nat
  qp_array :: bool

type_synonym qparams = "c_orm_query_params_t option"

definition empty_params :: c_orm_query_params_t where
  "empty_params = \<lparr>qp_items = [], qp_capacity = 0, qp_array = False\<rparr>"

definition c_orm_query_params_init :: "qparams \<Rightarrow> c_orm_error_t \<times> qparams" where
  "c_orm_query_params_init params =
     (case params of None \<Rightarrow> (C_ORM_ERROR_UNKNOWN, None) | Some _ \<Rightarrow> (C_ORM_OK, Some empty_params))"

definition c_orm_query_params_cleanup :: "qparams \<times> heap \<Rightarrow> c_orm_error_t \<times> (qparams \<times> heap)" where
  "c_orm_query_params_cleanup s =
     (case s of (params, h) \<Rightarrow>
        case params of None \<Rightarrow> (C_ORM_ERROR_UNKNOWN, s)
        | Some p \<Rightarrow> (C_ORM_OK, (Some empty_params, if qp_array p then C_ORM_FREE h else h)))"

definition c_orm_query_params_add :: "cptr \<Rightarrow> bool \<Rightarrow> (qparams \<times> heap) call" where
  "c_orm_query_params_add value is_string s =
     (case s of (params, h) \<Rightarrow>
        case params of None \<Rightarrow> (C_ORM_ERROR_UNKNOWN, s)
        | Some p \<Rightarrow>
            if length (qp_items p) \<ge> qp_capacity p then
              let new_cap = (if qp_capacity p = 0 then 8 else qp_capacity p * 2) in
              case (if \<not> qp_array p then C_ORM_MALLOC h else C_ORM_REALLOC h) of (ok, h1) \<Rightarrow>
                if \<not> ok then (C_ORM_ERROR_UNKNOWN, (Some p, h1))
                else (C_ORM_OK, (Some \<lparr>qp_items = qp_items p @ [(value, is_string)],
                       qp_capacity = new_cap, qp_array = True\<rparr>, h1))
            else (C_ORM_OK, (Some (p\<lparr>qp_items := qp_items p @ [(value, is_string)]\<rparr>), h)))"

section \<open>Writing\<close>

text \<open>While a query is rendered the state is the parameters, the string builder and the heap.\<close>

type_synonym render_state = "qparams \<times> sb_state"

definition emit :: "cptr \<Rightarrow> render_state call" where
  \<comment> \<open>the macros \<open>APPEND\<close> and \<open>APPEND_SQL\<close>\<close>
  "emit str s = (case s of (ps, w) \<Rightarrow>
     case c_orm_string_builder_append str w of (rc, w') \<Rightarrow> (rc, (ps, w')))"

definition refuse :: "c_orm_error_t \<Rightarrow> render_state call" where
  "refuse rc s = (rc, s)"

definition add_param :: "cptr \<Rightarrow> bool \<Rightarrow> render_state call" where
  "add_param v is_string s = (case s of (ps, (b, h)) \<Rightarrow>
     case c_orm_query_params_add v is_string (ps, h) of (rc, (ps', h')) \<Rightarrow> (rc, (ps', (b, h'))))"

definition placeholder :: "c_orm_dialect_t \<Rightarrow> nat \<Rightarrow> string" where
  "placeholder dialect count =
     (if dialect = C_ORM_DIALECT_POSTGRES
      then C_ORM_SPRINTF 32 (''$'' @ decimal (unat (of_nat count :: 32 word))) else ''?'')"

definition emit_placeholder :: "c_orm_dialect_t \<Rightarrow> render_state call" where
  "emit_placeholder dialect s = emit (Some (placeholder dialect (length (qp_items (the (fst s)))))) s"

definition render_value :: "c_orm_dialect_t \<Rightarrow> cptr \<Rightarrow> bool \<Rightarrow> render_state call" where
  "render_value dialect v is_string s =
     (if fst s \<noteq> None then then_ok (add_param v is_string) (emit_placeholder dialect) s
      else appends emit (if is_string then [Some [CHR 39], v, Some [CHR 39]] else [v]) s)"

definition emit_alias :: "cptr \<Rightarrow> render_state call" where
  "emit_alias alias = (if given alias then appends emit [Some '' AS '', alias] else return_ok)"

text \<open>
  A nested statement: its text is a new block, which the code frees after \<open>rest\<close> has written it; the early
  returns of \<open>rest\<close> skip that.
\<close>

definition nested ::
    "(qparams \<times> heap \<Rightarrow> c_orm_error_t \<times> cptr \<times> (qparams \<times> heap)) \<Rightarrow> (cptr \<Rightarrow> render_state call) \<Rightarrow> render_state call" where
  "nested to_sql rest s = (case s of (ps, (b, h)) \<Rightarrow>
     case to_sql (ps, h) of (rc, subsql, (ps1, h1)) \<Rightarrow>
       if rc \<noteq> C_ORM_OK then (rc, (ps1, (b, h1)))
       else case rest subsql (ps1, (b, h1)) of (rc2, (ps2, (b2, h2))) \<Rightarrow>
         if rc2 \<noteq> C_ORM_OK then (rc2, (ps2, (b2, h2))) else (C_ORM_OK, (ps2, (b2, C_ORM_FREE h2))))"

text \<open>The text of the builder, copied for the caller; the builder is freed either way.\<close>

definition extract_sql :: "render_state \<Rightarrow> c_orm_error_t \<times> cptr \<times> (qparams \<times> heap)" where
  "extract_sql s = (case s of (ps, (b, h)) \<Rightarrow>
     case c_orm_string_builder_get b True of (rc, sql_str) \<Rightarrow>
       if rc \<noteq> C_ORM_OK then (rc, None, (ps, c_orm_string_builder_free b h))
       else case C_ORM_MALLOC h of (ok, h1) \<Rightarrow>
         if \<not> ok then (C_ORM_ERROR_MEMORY, None, (ps, c_orm_string_builder_free b h1))
         else (rc, sql_str, (ps, c_orm_string_builder_free b h1)))"

definition with_sb :: "render_state call \<Rightarrow> qparams \<times> heap \<Rightarrow> c_orm_error_t \<times> cptr \<times> (qparams \<times> heap)" where
  \<comment> \<open>the builder of \<open>c_orm_query_to_sql\<close>: created, written by \<open>body\<close>, freed on every path\<close>
  "with_sb body s = (case s of (ps, h) \<Rightarrow>
     case c_orm_string_builder_init True h of (rc, b, h1) \<Rightarrow>
       if rc \<noteq> C_ORM_OK then (rc, None, (ps, h1))
       else case body (ps, (b, h1)) of (rc2, (ps', (b', h2))) \<Rightarrow>
         if rc2 \<noteq> C_ORM_OK then (rc2, None, (ps', c_orm_string_builder_free b' h2))
         else extract_sql (ps', (b', h2)))"

section \<open>Collecting the clauses\<close>

record query_scan =
  sc_sel :: "(cptr \<times> bool) option"
  sc_frm :: "(cptr \<times> cptr) option"
  sc_whr :: "ast_node option option"
  sc_joins :: "(cptr \<times> cptr \<times> ast_node option) list"
  sc_grp :: "cptr option"
  sc_hav :: "ast_node option option"
  sc_ord :: "(cptr \<times> bool) option"
  sc_lim :: "64 word option"
  sc_off :: "64 word option"
  sc_wth :: "(cptr \<times> ast_node list option) option"
  sc_uni :: "(bool \<times> ast_node list option) option"

definition empty_scan :: query_scan where
  "empty_scan = \<lparr>sc_sel = None, sc_frm = None, sc_whr = None, sc_joins = [], sc_grp = None, sc_hav = None,
     sc_ord = None, sc_lim = None, sc_off = None, sc_wth = None, sc_uni = None\<rparr>"

fun scan_node :: "ast_node \<Rightarrow> query_scan \<Rightarrow> query_scan" where
  "scan_node (AstSelect columns is_distinct) sc = sc\<lparr>sc_sel := Some (columns, is_distinct)\<rparr>"
| "scan_node (AstFrom table alias) sc = sc\<lparr>sc_frm := Some (table, alias)\<rparr>"
| "scan_node (AstWhere condition) sc = sc\<lparr>sc_whr := Some condition\<rparr>"
| "scan_node (AstJoin type_str table on_condition) sc =
     (if length (sc_joins sc) < 32 then sc\<lparr>sc_joins := sc_joins sc @ [(type_str, table, on_condition)]\<rparr> else sc)"
| "scan_node (AstGroupBy columns) sc = sc\<lparr>sc_grp := Some columns\<rparr>"
| "scan_node (AstHaving condition) sc = sc\<lparr>sc_hav := Some condition\<rparr>"
| "scan_node (AstOrderBy column is_desc) sc = sc\<lparr>sc_ord := Some (column, is_desc)\<rparr>"
| "scan_node (AstLimit n) sc = sc\<lparr>sc_lim := Some n\<rparr>"
| "scan_node (AstOffset n) sc = sc\<lparr>sc_off := Some n\<rparr>"
| "scan_node (AstWith alias query) sc = sc\<lparr>sc_wth := Some (alias, query)\<rparr>"
| "scan_node (AstUnion is_all query) sc = sc\<lparr>sc_uni := Some (is_all, query)\<rparr>"
| "scan_node _ sc = sc"

definition scan_query :: "ast_node list \<Rightarrow> query_scan" where
  "scan_query nodes = fold scan_node nodes empty_scan"

text \<open>What a scan has collected came from the list; hence it is smaller than the list.\<close>

definition scanned :: "query_scan \<Rightarrow> ast_node set" where
  "scanned sc = (\<lambda>c. AstWhere c) ` set_option (sc_whr sc) \<union> (\<lambda>c. AstHaving c) ` set_option (sc_hav sc)
     \<union> (\<lambda>(ty, tb, c). AstJoin ty tb c) ` set (sc_joins sc)
     \<union> (\<lambda>(al, q). AstWith al q) ` set_option (sc_wth sc) \<union> (\<lambda>(all, q). AstUnion all q) ` set_option (sc_uni sc)"

lemma scanned_node: "scanned (scan_node n sc) \<subseteq> insert n (scanned sc)"
  by (cases n) (simp_all add: scanned_def subset_insertI2, blast+)

lemma scanned_query: "scanned (scan_query nodes) \<subseteq> set nodes"
proof -
  have "scanned (fold scan_node nodes sc) \<subseteq> set nodes \<union> scanned sc" for sc
  proof (induction nodes arbitrary: sc)
    case (Cons n nodes)
    from Cons.IH[of "scan_node n sc"] scanned_node[of n sc] show ?case by auto
  qed simp
  from this[of empty_scan] show ?thesis by (simp add: scan_query_def scanned_def empty_scan_def)
qed

abbreviation node_size :: "ast_node option \<Rightarrow> nat" where
  "node_size \<equiv> size_option size"

abbreviation query_size :: "ast_node list option \<Rightarrow> nat" where
  "query_size \<equiv> size_option (size_list size)"

lemma scan_smaller:
  "sc_whr (scan_query nodes) = Some c \<Longrightarrow> node_size c < query_size (Some nodes)"
  "sc_hav (scan_query nodes) = Some c \<Longrightarrow> node_size c < query_size (Some nodes)"
  "(ty, tb, c) \<in> set (sc_joins (scan_query nodes)) \<Longrightarrow> node_size c < query_size (Some nodes)"
  "sc_wth (scan_query nodes) = Some (al, q) \<Longrightarrow> query_size q < query_size (Some nodes)"
  "sc_uni (scan_query nodes) = Some (all, q) \<Longrightarrow> query_size q < query_size (Some nodes)"
proof -
  have small: "m < query_size (Some nodes)" if "n \<in> scanned (scan_query nodes)" "m \<le> size n" for n m
    using size_list_estimation'[of n nodes m size] that scanned_query by fastforce
  show "sc_whr (scan_query nodes) = Some c \<Longrightarrow> node_size c < query_size (Some nodes)"
    by (rule small[of "AstWhere c"]) (simp_all add: scanned_def)
  show "sc_hav (scan_query nodes) = Some c \<Longrightarrow> node_size c < query_size (Some nodes)"
    by (rule small[of "AstHaving c"]) (simp_all add: scanned_def)
  show "(ty, tb, c) \<in> set (sc_joins (scan_query nodes)) \<Longrightarrow> node_size c < query_size (Some nodes)"
    by (rule small[of "AstJoin ty tb c"]) (auto simp: scanned_def image_iff)
  show "sc_wth (scan_query nodes) = Some (al, q) \<Longrightarrow> query_size q < query_size (Some nodes)"
    by (rule small[of "AstWith al q"]) (auto simp: scanned_def image_iff)
  show "sc_uni (scan_query nodes) = Some (all, q) \<Longrightarrow> query_size q < query_size (Some nodes)"
    by (rule small[of "AstUnion all q"]) (auto simp: scanned_def image_iff)
qed

section \<open>Rendering\<close>

definition render_from :: "cptr \<Rightarrow> cptr \<Rightarrow> render_state call" where
  "render_from table alias = then_ok (appends emit [Some '' FROM '', table]) (emit_alias alias)"

definition render_window :: "cptr \<Rightarrow> cptr \<Rightarrow> cptr \<Rightarrow> cptr \<Rightarrow> render_state call" where
  "render_window func_name partition_by order_by alias =
     then_ok (appends emit
       ([func_name, Some '' OVER ('']
        @ (if given partition_by
           then [Some ''PARTITION BY '', partition_by] @ (if given order_by then [Some '' ''] else []) else [])
        @ (if given order_by then [Some ''ORDER BY '', order_by] else [])
        @ [Some '')'']))
       (emit_alias alias)"

definition render_bound :: "string \<Rightarrow> 64 word \<Rightarrow> render_state call" where
  \<comment> \<open>\<open>%u\<close> of the value cast to \<open>unsigned int\<close>\<close>
  "render_bound keyword n = emit (Some (C_ORM_SPRINTF 32 (keyword @ decimal (unat (ucast n :: 32 word)))))"

function (sequential) render_node :: "c_orm_dialect_t \<Rightarrow> ast_node option \<Rightarrow> nat \<Rightarrow> render_state call"
  and c_orm_query_to_sql ::
    "c_orm_dialect_t \<Rightarrow> ast_node list option \<Rightarrow> qparams \<times> heap \<Rightarrow> c_orm_error_t \<times> cptr \<times> (qparams \<times> heap)"
where
  "render_node dialect node depth =
     (if depth > cdd_c_sql_parser_max_depth then refuse C_ORM_ERROR_SQL
      else case node of None \<Rightarrow> return_ok
      | Some n \<Rightarrow> (case n of
          AstColumn name \<Rightarrow> emit name
        | AstLiteral v is_string \<Rightarrow> render_value dialect v is_string
        | AstRaw sql \<Rightarrow> emit sql
        | AstOperator oper left right \<Rightarrow>
            then_ok (render_node dialect left (depth + 1))
              (then_ok (appends emit [Some '' '', oper])
                (if right = None then return_ok
                 else then_ok (emit (Some '' '')) (render_node dialect right (depth + 1))))
        | AstGroup expr \<Rightarrow>
            then_ok (emit (Some ''(''))
              (then_ok (render_node dialect expr (depth + 1)) (emit (Some '')'')))
        | AstCast col type \<Rightarrow> appends emit [Some ''CAST('', col, Some '' AS '', type, Some '')'']
        | AstFunction name args alias \<Rightarrow>
            then_ok (appends emit [name, Some ''('', args, Some '')'']) (emit_alias alias)
        | AstBetween col low high is_string \<Rightarrow>
            then_ok (appends emit [col, Some '' BETWEEN ''])
              (then_ok (render_value dialect low is_string)
                (then_ok (emit (Some '' AND '')) (render_value dialect high is_string)))
        | AstExists query is_not \<Rightarrow>
            then_ok (appends emit ((if is_not then [Some ''NOT ''] else []) @ [Some ''EXISTS ('']))
              (nested (c_orm_query_to_sql dialect query)
                (\<lambda>subsql. appends emit [subsql, Some '')'']))
        | AstSubquery query alias \<Rightarrow>
            then_ok (emit (Some ''(''))
              (nested (c_orm_query_to_sql dialect query)
                (\<lambda>subsql. then_ok (appends emit [subsql, Some '')'']) (emit_alias alias)))
        | AstWindow func_name partition_by order_by alias \<Rightarrow> render_window func_name partition_by order_by alias
        | _ \<Rightarrow> return_ok))"
| "c_orm_query_to_sql dialect q =
     (case q of None \<Rightarrow> (\<lambda>s. (C_ORM_ERROR_UNKNOWN, None, s))
      | Some nodes \<Rightarrow>
         (let sc = scan_query nodes in
          with_sb (run_steps (
            [case sc_wth sc of None \<Rightarrow> return_ok
             | Some (alias, query) \<Rightarrow>
                 then_ok (appends emit [Some ''WITH '', alias, Some '' AS (''])
                   (then_ok (nested (c_orm_query_to_sql dialect query) emit) (emit (Some '') ''))),
             case sc_sel sc of None \<Rightarrow> return_ok
             | Some (columns, is_distinct) \<Rightarrow>
                 appends emit ([Some ''SELECT ''] @ (if is_distinct then [Some ''DISTINCT ''] else []) @ [columns]),
             case sc_frm sc of None \<Rightarrow> return_ok | Some (table, alias) \<Rightarrow> render_from table alias]
            @ map (\<lambda>(type_str, table, on_condition).
                then_ok (appends emit [Some '' '', type_str, Some '' JOIN '', table, Some '' ON ''])
                  (render_node dialect on_condition 0)) (rev (sc_joins sc))
            @ [case sc_whr sc of None \<Rightarrow> return_ok
               | Some condition \<Rightarrow> if condition = None then return_ok
                   else then_ok (emit (Some '' WHERE '')) (render_node dialect condition 0),
               case sc_grp sc of None \<Rightarrow> return_ok | Some columns \<Rightarrow> appends emit [Some '' GROUP BY '', columns],
               case sc_hav sc of None \<Rightarrow> return_ok
               | Some condition \<Rightarrow> if condition = None then return_ok
                   else then_ok (emit (Some '' HAVING '')) (render_node dialect condition 0),
               case sc_uni sc of None \<Rightarrow> return_ok
               | Some (is_all, query) \<Rightarrow>
                   then_ok (emit (Some (if is_all then '' UNION ALL '' else '' UNION '')))
                     (nested (c_orm_query_to_sql dialect query) emit),
               case sc_ord sc of None \<Rightarrow> return_ok
               | Some (column, is_desc) \<Rightarrow>
                   appends emit [Some '' ORDER BY '', column, Some (if is_desc then '' DESC'' else '' ASC'')],
               case sc_lim sc of None \<Rightarrow> return_ok | Some n \<Rightarrow> render_bound '' LIMIT '' n,
               case sc_off sc of None \<Rightarrow> return_ok | Some n \<Rightarrow> render_bound '' OFFSET '' n]))))"
  by pat_completeness auto
termination
  apply (relation "measure (\<lambda>x. case x of Inl (dl, node, depth) \<Rightarrow> node_size node | Inr (dl, q) \<Rightarrow> query_size q)")
            apply (simp_all only: in_measure sum.case prod.case wf_measure)
  subgoal by simp
  subgoal by simp
  subgoal by simp
  subgoal by simp
  subgoal by simp
  subgoal by (auto dest: scan_smaller(4))
  subgoal by (auto dest: scan_smaller(3))
  subgoal by (auto dest: scan_smaller(1))
  subgoal by (auto dest: scan_smaller(2))
  subgoal by (auto dest: scan_smaller(5))
  done

declare render_node.simps [simp del] c_orm_query_to_sql.simps [simp del]

end
