(* ===== verification/QuerySpec.thy ===== *)
theory QuerySpec
  imports QuerySql
begin

text \<open>
  What the rendering of a query promises. A query denotes a list of pieces, texts and bound values,
  independent of the dialect (\<open>query_pieces\<close>); a dialect shows every value as a placeholder, and without a
  parameter list a value is shown in the text. The refinement lemma says that \<open>c_orm_query_to_sql\<close> writes
  the pieces shown and binds the values in the same order.
\<close>

section \<open>Pieces\<close>

datatype piece = Text string | Value cptr bool

definition wrap32 :: "nat \<Rightarrow> nat" where
  "wrap32 n = unat (of_nat n :: 32 word)"

lemma wrap32_mod: "wrap32 n = n mod 2 ^ 32"
  by (simp add: wrap32_def unat_of_nat)

lemma wrap32_ucast: "unat (ucast (n :: 64 word) :: 32 word) = wrap32 (unat n)"
  by (simp add: wrap32_def)

fun bound_values :: "piece list \<Rightarrow> (cptr \<times> bool) list" where
  "bound_values [] = []"
| "bound_values (Text t # ps) = bound_values ps"
| "bound_values (Value v b # ps) = (v, b) # bound_values ps"

text \<open>\<open>None\<close> shows values in the text, \<open>Some dialect\<close> as placeholders; \<open>n\<close> values were bound before.\<close>

fun show_pieces :: "c_orm_dialect_t option \<Rightarrow> nat \<Rightarrow> piece list \<Rightarrow> string" where
  "show_pieces m n [] = []"
| "show_pieces m n (Text t # ps) = t @ show_pieces m n ps"
| "show_pieces None n (Value v b # ps) =
     (if b then [CHR 39] @ the v @ [CHR 39] else the v) @ show_pieces None (n + 1) ps"
| "show_pieces (Some dl) n (Value v b # ps) =
     (if dl = C_ORM_DIALECT_POSTGRES then ''$'' @ decimal (wrap32 (n + 1)) else ''?'')
       @ show_pieces (Some dl) (n + 1) ps"

definition showable :: "c_orm_dialect_t option \<Rightarrow> piece list \<Rightarrow> bool" where
  "showable m ps \<longleftrightarrow> m = None \<longrightarrow> None \<notin> fst ` set (bound_values ps)"

lemma bound_values_append [simp]: "bound_values (ps @ qs) = bound_values ps @ bound_values qs"
  by (induction ps rule: bound_values.induct) simp_all

lemma show_pieces_append:
  "show_pieces m n (ps @ qs) = show_pieces m n ps @ show_pieces m (n + length (bound_values ps)) qs"
  by (induction m n ps rule: show_pieces.induct) simp_all

lemma showable_append [simp]: "showable m (ps @ qs) \<longleftrightarrow> showable m ps \<and> showable m qs"
  by (auto simp: showable_def)

lemma showable_texts [simp]: "showable m (Text t # ps) = showable m ps" "showable m []"
  by (simp_all add: showable_def)

definition chain_pieces :: "piece list option \<Rightarrow> piece list option \<Rightarrow> piece list option" where
  "chain_pieces P Q = Option.bind P (\<lambda>ps. map_option (\<lambda>qs. ps @ qs) Q)"

lemma chain_Some: "chain_pieces P Q = Some rs \<longleftrightarrow> (\<exists>ps qs. P = Some ps \<and> Q = Some qs \<and> rs = ps @ qs)"
  by (cases P; cases Q) (auto simp: chain_pieces_def)

fun seq_pieces :: "piece list option list \<Rightarrow> piece list option" where
  "seq_pieces [] = Some []"
| "seq_pieces (P # Ps) = chain_pieces P (seq_pieces Ps)"

definition text_pieces :: "cptr list \<Rightarrow> piece list option" where
  "text_pieces xs = (if None \<in> set xs then None else Some (map (\<lambda>x. Text (the x)) xs))"

lemma bound_values_texts [simp]: "bound_values (map (\<lambda>x. Text (f x)) xs) = []"
  by (induction xs) simp_all

lemma show_texts [simp]: "show_pieces m n (map (\<lambda>x. Text (the x)) xs) = texts xs"
  by (induction xs) (simp_all add: texts_def)

section \<open>The pieces of a query\<close>

definition alias_pieces :: "cptr \<Rightarrow> piece list option" where
  "alias_pieces a = Some (if given a then [Text ('' AS '' @ the a)] else [])"

text \<open>Of each kind of clause the earliest added counts; the list has the newest node first.\<close>

definition earliest :: "(ast_node \<Rightarrow> 'a option) \<Rightarrow> ast_node list \<Rightarrow> 'a option" where
  "earliest pick nodes = (case List.map_filter pick (rev nodes) of [] \<Rightarrow> None | x # _ \<Rightarrow> Some x)"

fun as_select where "as_select (AstSelect c d) = Some (c, d)" | "as_select _ = None"
fun as_from where "as_from (AstFrom t a) = Some (t, a)" | "as_from _ = None"
fun as_where where "as_where (AstWhere c) = Some c" | "as_where _ = None"
fun as_join where "as_join (AstJoin ty t c) = Some (ty, t, c)" | "as_join _ = None"
fun as_group_by where "as_group_by (AstGroupBy c) = Some c" | "as_group_by _ = None"
fun as_having where "as_having (AstHaving c) = Some c" | "as_having _ = None"
fun as_order_by where "as_order_by (AstOrderBy c d) = Some (c, d)" | "as_order_by _ = None"
fun as_limit where "as_limit (AstLimit n) = Some n" | "as_limit _ = None"
fun as_offset where "as_offset (AstOffset n) = Some n" | "as_offset _ = None"
fun as_with where "as_with (AstWith a q) = Some (a, q)" | "as_with _ = None"
fun as_union where "as_union (AstUnion al q) = Some (al, q)" | "as_union _ = None"

text \<open>The joins that are rendered, oldest first: the 32 newest.\<close>

definition rendered_joins :: "ast_node list \<Rightarrow> (cptr \<times> cptr \<times> ast_node option) list" where
  "rendered_joins nodes = rev (take 32 (List.map_filter as_join nodes))"

lemma earliest_snoc: "earliest f (xs @ [x]) = (case f x of None \<Rightarrow> earliest f xs | Some y \<Rightarrow> Some y)"
  by (simp add: earliest_def List.map_filter_def split: option.split)

lemma earliest_Nil [simp]: "earliest f [] = None"
  by (simp add: earliest_def List.map_filter_def)

lemma scan_snoc: "scan_query (xs @ [x]) = scan_node x (scan_query xs)"
  by (simp add: scan_query_def)

lemma scan_earliest:
  "sc_sel (scan_query nodes) = earliest as_select nodes"
  "sc_frm (scan_query nodes) = earliest as_from nodes"
  "sc_whr (scan_query nodes) = earliest as_where nodes"
  "sc_grp (scan_query nodes) = earliest as_group_by nodes"
  "sc_hav (scan_query nodes) = earliest as_having nodes"
  "sc_ord (scan_query nodes) = earliest as_order_by nodes"
  "sc_lim (scan_query nodes) = earliest as_limit nodes"
  "sc_off (scan_query nodes) = earliest as_offset nodes"
  "sc_wth (scan_query nodes) = earliest as_with nodes"
  "sc_uni (scan_query nodes) = earliest as_union nodes"
proof (induction nodes rule: rev_induct)
  case Nil
  case 1 show ?case by (simp add: scan_query_def empty_scan_def)
  case 2 show ?case by (simp add: scan_query_def empty_scan_def)
  case 3 show ?case by (simp add: scan_query_def empty_scan_def)
  case 4 show ?case by (simp add: scan_query_def empty_scan_def)
  case 5 show ?case by (simp add: scan_query_def empty_scan_def)
  case 6 show ?case by (simp add: scan_query_def empty_scan_def)
  case 7 show ?case by (simp add: scan_query_def empty_scan_def)
  case 8 show ?case by (simp add: scan_query_def empty_scan_def)
  case 9 show ?case by (simp add: scan_query_def empty_scan_def)
  case 10 show ?case by (simp add: scan_query_def empty_scan_def)
next
  case (snoc x xs)
  case 1 with snoc show ?case by (cases x) (simp_all add: scan_snoc earliest_snoc)
  case 2 with snoc show ?case by (cases x) (simp_all add: scan_snoc earliest_snoc)
  case 3 with snoc show ?case by (cases x) (simp_all add: scan_snoc earliest_snoc)
  case 4 with snoc show ?case by (cases x) (simp_all add: scan_snoc earliest_snoc)
  case 5 with snoc show ?case by (cases x) (simp_all add: scan_snoc earliest_snoc)
  case 6 with snoc show ?case by (cases x) (simp_all add: scan_snoc earliest_snoc)
  case 7 with snoc show ?case by (cases x) (simp_all add: scan_snoc earliest_snoc)
  case 8 with snoc show ?case by (cases x) (simp_all add: scan_snoc earliest_snoc)
  case 9 with snoc show ?case by (cases x) (simp_all add: scan_snoc earliest_snoc)
  case 10 with snoc show ?case by (cases x) (simp_all add: scan_snoc earliest_snoc)
qed

lemma scan_joins: "sc_joins (scan_query nodes) = take 32 (List.map_filter as_join nodes)"
proof (induction nodes rule: rev_induct)
  case Nil
  show ?case by (simp add: scan_query_def empty_scan_def List.map_filter_def)
next
  case (snoc x xs)
  then show ?case by (cases x) (auto simp: scan_snoc List.map_filter_def)
qed

definition from_pieces :: "cptr \<times> cptr \<Rightarrow> piece list option" where
  "from_pieces f = chain_pieces (text_pieces [Some '' FROM '', fst f]) (alias_pieces (snd f))"

definition window_pieces :: "cptr \<Rightarrow> cptr \<Rightarrow> cptr \<Rightarrow> cptr \<Rightarrow> piece list option" where
  "window_pieces f p r a = chain_pieces (text_pieces [f, Some ('' OVER ('' @ join '' ''
       ((if given p then [''PARTITION BY '' @ the p] else []) @ (if given r then [''ORDER BY '' @ the r] else [])) @ '')'')])
     (alias_pieces a)"

definition optional :: "('a \<Rightarrow> piece list option) \<Rightarrow> 'a option \<Rightarrow> piece list option" where
  "optional f x = (case x of None \<Rightarrow> Some [] | Some y \<Rightarrow> f y)"

lemma optional_cong [fundef_cong]:
  "x = y \<Longrightarrow> (\<And>z. y = Some z \<Longrightarrow> f z = g z) \<Longrightarrow> optional f x = optional g y"
  by (cases y) (simp_all add: optional_def)

text \<open>A column is its name; \<open>None\<close> stands for a refusal: a NULL text, or nesting beyond the limit.\<close>

function (sequential) node_pieces :: "ast_node option \<Rightarrow> nat \<Rightarrow> piece list option"
  and query_pieces :: "ast_node list option \<Rightarrow> piece list option"
where
  "node_pieces node depth =
     (if depth > 100 then None
      else case node of None \<Rightarrow> Some []
      | Some n \<Rightarrow> (case n of
          AstColumn name \<Rightarrow> text_pieces [name]
        | AstLiteral v b \<Rightarrow> Some [Value v b]
        | AstRaw sql \<Rightarrow> text_pieces [sql]
        | AstOperator oper left right \<Rightarrow>
            seq_pieces [node_pieces left (depth + 1), text_pieces [Some '' '', oper],
              if right = None then Some [] else chain_pieces (text_pieces [Some '' '']) (node_pieces right (depth + 1))]
        | AstGroup e \<Rightarrow> seq_pieces [text_pieces [Some ''(''], node_pieces e (depth + 1), text_pieces [Some '')'']]
        | AstCast c ty \<Rightarrow> text_pieces [Some ''CAST('', c, Some '' AS '', ty, Some '')'']
        | AstFunction f args a \<Rightarrow> chain_pieces (text_pieces [f, Some ''('', args, Some '')'']) (alias_pieces a)
        | AstBetween c low high b \<Rightarrow>
            seq_pieces [text_pieces [c, Some '' BETWEEN ''], Some [Value low b], text_pieces [Some '' AND ''], Some [Value high b]]
        | AstExists q neg \<Rightarrow>
            seq_pieces [text_pieces [Some (if neg then ''NOT EXISTS ('' else ''EXISTS ('')], query_pieces q, text_pieces [Some '')'']]
        | AstSubquery q a \<Rightarrow>
            seq_pieces [text_pieces [Some ''(''], query_pieces q, text_pieces [Some '')''], alias_pieces a]
        | AstWindow f p r a \<Rightarrow> window_pieces f p r a
        | _ \<Rightarrow> Some []))"
| "query_pieces q =
     (case q of None \<Rightarrow> None
      | Some nodes \<Rightarrow> seq_pieces (
          [optional (\<lambda>(a, q). seq_pieces [text_pieces [Some ''WITH '', a, Some '' AS (''], query_pieces q, text_pieces [Some '') '']])
             (earliest as_with nodes),
           optional (\<lambda>(c, d). text_pieces [Some (if d then ''SELECT DISTINCT '' else ''SELECT ''), c]) (earliest as_select nodes),
           optional from_pieces (earliest as_from nodes)]
          @ map (\<lambda>(ty, t, c). chain_pieces (text_pieces [Some '' '', ty, Some '' JOIN '', t, Some '' ON '']) (node_pieces c 0))
              (rendered_joins nodes)
          @ [optional (\<lambda>c. if c = None then Some [] else chain_pieces (text_pieces [Some '' WHERE '']) (node_pieces c 0))
               (earliest as_where nodes),
             optional (\<lambda>c. text_pieces [Some '' GROUP BY '', c]) (earliest as_group_by nodes),
             optional (\<lambda>c. if c = None then Some [] else chain_pieces (text_pieces [Some '' HAVING '']) (node_pieces c 0))
               (earliest as_having nodes),
             optional (\<lambda>(al, q). chain_pieces (text_pieces [Some (if al then '' UNION ALL '' else '' UNION '')]) (query_pieces q))
               (earliest as_union nodes),
             optional (\<lambda>(c, d). text_pieces [Some '' ORDER BY '', c, Some (if d then '' DESC'' else '' ASC'')])
               (earliest as_order_by nodes),
             optional (\<lambda>n. text_pieces [Some ('' LIMIT '' @ decimal (wrap32 (unat n)))]) (earliest as_limit nodes),
             optional (\<lambda>n. text_pieces [Some ('' OFFSET '' @ decimal (wrap32 (unat n)))]) (earliest as_offset nodes)]))"
  by pat_completeness auto
termination
  apply (relation "measure (\<lambda>x. case x of Inl (node, depth) \<Rightarrow> node_size node | Inr q \<Rightarrow> query_size q)")
            apply (simp_all only: in_measure sum.case prod.case wf_measure)
  subgoal by simp
  subgoal by simp
  subgoal by simp
  subgoal by simp
  subgoal by simp
  subgoal by (auto dest: scan_smaller(4)[unfolded scan_earliest])
  subgoal by (auto simp: rendered_joins_def scan_joins[symmetric] dest: scan_smaller(3))
  subgoal by (auto dest: scan_smaller(1)[unfolded scan_earliest])
  subgoal by (auto dest: scan_smaller(2)[unfolded scan_earliest])
  subgoal by (auto dest: scan_smaller(5)[unfolded scan_earliest])
  done

declare node_pieces.simps [simp del] query_pieces.simps [simp del]

section \<open>The contract of a rendering call\<close>

definition params_inv :: "qparams \<Rightarrow> bool" where
  "params_inv ps \<longleftrightarrow> (case ps of None \<Rightarrow> True
     | Some p \<Rightarrow> length (qp_items p) \<le> qp_capacity p \<and> (qp_array p \<longleftrightarrow> 0 < qp_capacity p))"

definition params_items :: "qparams \<Rightarrow> (cptr \<times> bool) list" where
  "params_items ps = (case ps of None \<Rightarrow> [] | Some p \<Rightarrow> qp_items p)"

definition params_owned :: "qparams \<Rightarrow> int" where
  "params_owned ps = (case ps of None \<Rightarrow> 0 | Some p \<Rightarrow> if qp_array p then 1 else 0)"

definition mode_of :: "c_orm_dialect_t \<Rightarrow> qparams \<Rightarrow> c_orm_dialect_t option" where
  "mode_of dl ps = (if ps = None then None else Some dl)"

definition rd_slack :: "render_state \<Rightarrow> int" where
  \<comment> \<open>the blocks that neither the builder nor the parameter list owns\<close>
  "rd_slack s = sb_slack (snd s) - params_owned (fst s)"

definition rd_good :: "render_state \<Rightarrow> bool" where
  "rd_good s \<longleftrightarrow> sb_good (snd s) \<and> params_inv (fst s)"

text \<open>\<open>bound dl ps ps' qs\<close>: the values of the pieces \<open>qs\<close> were added to the parameter list, if there is one.\<close>

definition bound :: "qparams \<Rightarrow> qparams \<Rightarrow> piece list \<Rightarrow> bool" where
  "bound ps ps' qs \<longleftrightarrow> params_items ps' = params_items ps @ (if ps = None then [] else bound_values qs)"

definition wrote_pieces :: "c_orm_dialect_t \<Rightarrow> render_state \<Rightarrow> render_state \<Rightarrow> piece list \<Rightarrow> bool" where
  "wrote_pieces dl s t qs \<longleftrightarrow> showable (mode_of dl (fst s)) qs
     \<and> sb_text (snd t) = sb_text (snd s) @ show_pieces (mode_of dl (fst s)) (length (params_items (fst s))) qs
     \<and> bound (fst s) (fst t) qs"

definition renders :: "c_orm_dialect_t \<Rightarrow> render_state call \<Rightarrow> piece list option \<Rightarrow> bool" where
  "renders dl f P \<longleftrightarrow> (\<forall>s rc t. rd_good s \<longrightarrow> f s = (rc, t) \<longrightarrow>
     rd_good t \<and> (fst t = None \<longleftrightarrow> fst s = None) \<and> rd_slack s \<le> rd_slack t \<and>
     (rc = C_ORM_OK \<longrightarrow> rd_slack t = rd_slack s \<and> (\<exists>qs. P = Some qs \<and> wrote_pieces dl s t qs)) \<and>
     (sb_ready (snd s) \<longrightarrow> (\<exists>qs. P = Some qs \<and> showable (mode_of dl (fst s)) qs) \<longrightarrow> rc = C_ORM_OK \<and> sb_ready (snd t)))"

lemma rendersI:
  assumes "\<And>s rc t. rd_good s \<Longrightarrow> f s = (rc, t) \<Longrightarrow>
     rd_good t \<and> (fst t = None \<longleftrightarrow> fst s = None) \<and> rd_slack s \<le> rd_slack t"
    and "\<And>s t. rd_good s \<Longrightarrow> f s = (C_ORM_OK, t) \<Longrightarrow>
     rd_slack t = rd_slack s \<and> (\<exists>qs. P = Some qs \<and> wrote_pieces dl s t qs)"
    and "\<And>s rc t qs. rd_good s \<Longrightarrow> f s = (rc, t) \<Longrightarrow> sb_ready (snd s) \<Longrightarrow> P = Some qs \<Longrightarrow>
     showable (mode_of dl (fst s)) qs \<Longrightarrow> rc = C_ORM_OK \<and> sb_ready (snd t)"
  shows "renders dl f P"
  unfolding renders_def using assms by blast

lemma rendersD:
  assumes "renders dl f P" "rd_good s" "f s = (rc, t)"
  shows "rd_good t" "fst t = None \<longleftrightarrow> fst s = None" "rd_slack s \<le> rd_slack t"
    "rc = C_ORM_OK \<Longrightarrow> rd_slack t = rd_slack s"
    "rc = C_ORM_OK \<Longrightarrow> \<exists>qs. P = Some qs \<and> wrote_pieces dl s t qs"
    "sb_ready (snd s) \<Longrightarrow> P = Some qs \<Longrightarrow> showable (mode_of dl (fst s)) qs \<Longrightarrow> rc = C_ORM_OK"
    "sb_ready (snd s) \<Longrightarrow> P = Some qs \<Longrightarrow> showable (mode_of dl (fst s)) qs \<Longrightarrow> sb_ready (snd t)"
  using assms unfolding renders_def by blast+

lemma mode_eq: "(ps = None) = (ps' = None) \<Longrightarrow> mode_of dl ps = mode_of dl ps'"
  by (auto simp: mode_of_def)

lemma show_inline: "NO_MATCH 0 n \<Longrightarrow> show_pieces None n qs = show_pieces None 0 qs"
proof -
  have "show_pieces None n qs = show_pieces None m qs" for m
    by (induction "None :: c_orm_dialect_t option" n qs arbitrary: m rule: show_pieces.induct) auto
  then show ?thesis by blast
qed

lemma wrote_trans:
  assumes "wrote_pieces dl s u ps" "wrote_pieces dl u t qs" "(fst u = None) = (fst s = None)"
  shows "wrote_pieces dl s t (ps @ qs)"
  using assms mode_eq[OF assms(3), of dl]
  by (auto simp: wrote_pieces_def show_pieces_append bound_def mode_of_def params_items_def show_inline split: option.splits)

lemma renders_then_ok:
  assumes f: "renders dl f P" and g: "renders dl g Q"
  shows "renders dl (then_ok f g) (chain_pieces P Q)"
proof (rule rendersI)
  fix s rc t assume s: "rd_good s" and r: "then_ok f g s = (rc, t)"
  obtain rc1 u where u: "f s = (rc1, u)" by (metis surj_pair)
  note fu = rendersD[OF f s u]
  show "rd_good t \<and> (fst t = None \<longleftrightarrow> fst s = None) \<and> rd_slack s \<le> rd_slack t"
  proof (cases "rc1 = C_ORM_OK")
    case True
    with r u have "g u = (rc, t)" by (simp add: then_ok_def)
    from rendersD[OF g fu(1) this] fu True show ?thesis by auto
  next
    case False
    with r u fu show ?thesis by (auto simp: then_ok_def)
  qed
next
  fix s t assume s: "rd_good s" and r: "then_ok f g s = (C_ORM_OK, t)"
  then obtain u where u: "f s = (C_ORM_OK, u)" "g u = (C_ORM_OK, t)" by (auto simp: then_ok_OK)
  note fu = rendersD[OF f s u(1)] and gu = rendersD[OF g _ u(2)]
  from fu(5) gu(5)[OF fu(1)] obtain ps qs where
    "P = Some ps" "wrote_pieces dl s u ps" "Q = Some qs" "wrote_pieces dl u t qs" by auto
  with wrote_trans fu gu[OF fu(1)] show "rd_slack t = rd_slack s \<and> (\<exists>qs. chain_pieces P Q = Some qs \<and> wrote_pieces dl s t qs)"
    by (auto simp: chain_Some)
next
  fix s rc t rs assume s: "rd_good s" and r: "then_ok f g s = (rc, t)" and ready: "sb_ready (snd s)"
    and c: "chain_pieces P Q = Some rs" and sh: "showable (mode_of dl (fst s)) rs"
  obtain rc1 u where u: "f s = (rc1, u)" by (metis surj_pair)
  from c obtain ps qs where pq: "P = Some ps" "Q = Some qs" "rs = ps @ qs" by (auto simp: chain_Some)
  note fu = rendersD[OF f s u]
  from fu(6,7)[OF ready pq(1)] sh pq have ok: "rc1 = C_ORM_OK" "sb_ready (snd u)" by simp_all
  with r u have gu: "g u = (rc, t)" by (simp add: then_ok_def)
  from rendersD(6,7)[OF g fu(1) gu ok(2) pq(2)] sh pq mode_eq[OF fu(2), of dl]
  show "rc = C_ORM_OK \<and> sb_ready (snd t)" by simp
qed

lemma renders_run_steps: "list_all2 (renders dl) fs Ps \<Longrightarrow> renders dl (run_steps fs) (seq_pieces Ps)"
proof (induction fs Ps rule: list_all2_induct)
  case Nil
  then show ?case by (auto simp: renders_def wrote_pieces_def bound_def)
next
  case (Cons f fs P Ps)
  have "run_steps (f # fs) = then_ok f (run_steps fs)" by (rule ext) (simp add: then_ok_def)
  with renders_then_ok[OF Cons(1,3)] show ?case by simp
qed

lemma renders_return_ok: "renders dl return_ok (Some [])"
  by (auto simp: renders_def return_ok_def wrote_pieces_def bound_def)

lemma renders_refuse: "rc \<noteq> C_ORM_OK \<Longrightarrow> renders dl (refuse rc) None"
  by (auto simp: renders_def refuse_def)

section \<open>The basic calls\<close>

lemma rd_slack_unfold: "rd_slack (ps, (b, h)) = live h - sb_owned b - params_owned ps"
  by (simp add: rd_slack_def sb_slack_def)

lemma renders_emit: "renders dl (emit x) (text_pieces [x])"
proof (rule rendersI)
  fix s rc t assume s: "rd_good s" and r: "emit x s = (rc, t)"
  obtain ps w where sw: "s = (ps, w)" by (cases s)
  obtain w' where a: "c_orm_string_builder_append x w = (rc, w')" "t = (ps, w')"
    using r sw by (auto simp: emit_def split: prod.splits)
  from append_cases[OF _ a(1)] keepsD[OF keeps_slack_append a(1)] s sw a(2)
  show "rd_good t \<and> (fst t = None \<longleftrightarrow> fst s = None) \<and> rd_slack s \<le> rd_slack t"
    by (simp add: rd_good_def rd_slack_def)
next
  fix s t assume s: "rd_good s" and r: "emit x s = (C_ORM_OK, t)"
  obtain ps w where sw: "s = (ps, w)" by (cases s)
  obtain w' where a: "c_orm_string_builder_append x w = (C_ORM_OK, w')" "t = (ps, w')"
    using r sw by (auto simp: emit_def split: prod.splits)
  from append_cases[OF _ a(1)] keepsD[OF keeps_slack_append a(1)] s sw a(2)
  show "rd_slack t = rd_slack s \<and> (\<exists>qs. text_pieces [x] = Some qs \<and> wrote_pieces dl s t qs)"
    by (auto simp: rd_good_def rd_slack_def text_pieces_def wrote_pieces_def bound_def)
next
  fix s rc t qs assume r: "emit x s = (rc, t)" and s: "sb_ready (snd s)" and x: "text_pieces [x] = Some qs"
  from x obtain tx where "x = Some tx" by (cases x) (auto simp: text_pieces_def)
  with append_no_oom[OF s, of tx] r show "rc = C_ORM_OK \<and> sb_ready (snd t)"
    by (cases s) (auto simp: emit_def)
qed

lemma seq_texts: "seq_pieces (map (\<lambda>x. text_pieces [x]) xs) = text_pieces xs"
  by (induction xs) (auto simp: text_pieces_def chain_pieces_def)

lemma renders_appends: "renders dl (appends emit xs) (text_pieces xs)"
proof -
  have "list_all2 (renders dl) (map emit xs) (map (\<lambda>x. text_pieces [x]) xs)"
    by (simp add: list_all2_map1 list_all2_map2 list.rel_refl renders_emit)
  from renders_run_steps[OF this] show ?thesis by (simp add: appends_def seq_texts)
qed

text \<open>Two lists of pieces are written alike when they show the same text and bind the same values.\<close>

lemma renders_cong:
  assumes "renders dl f (Some ps)" and "\<And>m n. show_pieces m n qs = show_pieces m n ps"
    and "bound_values qs = bound_values ps"
  shows "renders dl f (Some qs)"
proof -
  have "showable m qs = showable m ps" for m by (simp only: showable_def assms(3))
  moreover have "wrote_pieces dl s t qs = wrote_pieces dl s t ps" for s t
    by (simp only: wrote_pieces_def bound_def showable_def assms(2,3))
  ultimately show ?thesis
    using assms(1) unfolding renders_def by simp
qed

lemma renders_emit_alias: "renders dl (emit_alias a) (alias_pieces a)"
proof (cases "given a")
  case True
  then have "text_pieces [Some '' AS '', a] = Some [Text '' AS '', Text (the a)]"
    by (auto simp: text_pieces_def given_def)
  with renders_appends[of dl "[Some '' AS '', a]"] True show ?thesis
    by (auto simp: emit_alias_def alias_pieces_def intro: renders_cong)
next
  case False
  with renders_return_ok show ?thesis by (simp add: emit_alias_def alias_pieces_def)
qed

lemma sprintf_number:
  assumes "length keyword \<le> 20"
  shows "C_ORM_SPRINTF 32 (keyword @ decimal (unat (w :: 32 word))) = keyword @ decimal (unat w)"
proof -
  have "unat w < 2 ^ 32" using unsigned_less[of w] by simp
  also have "(2 :: nat) ^ 32 < 10 ^ 10" by simp
  finally have "length (decimal (unat w)) \<le> 10" by (rule decimal_length) simp
  with assms show ?thesis by (intro sprintf_fits) simp
qed

lemma placeholder_shown:
  "placeholder dl n = (if dl = C_ORM_DIALECT_POSTGRES then ''$'' @ decimal (wrap32 n) else ''?'')"
  unfolding placeholder_def by (subst sprintf_number) (simp, simp add: wrap32_def)

lemma params_add_ok:
  assumes "params_inv (Some p)" and "c_orm_query_params_add v b (Some p, h) = (rc, (ps', h'))"
  shows "\<exists>q. ps' = Some q \<and> params_inv ps' \<and> live h' - params_owned ps' = live h - params_owned (Some p)
    \<and> (rc = C_ORM_OK \<longrightarrow> qp_items q = qp_items p @ [(v, b)]) \<and> (no_oom h \<longrightarrow> rc = C_ORM_OK \<and> no_oom h')"
proof -
  obtain ok h1 where m: "(if \<not> qp_array p then C_ORM_MALLOC h else C_ORM_REALLOC h) = (ok, h1)" by (metis surj_pair)
  then have "live h1 = (if ok \<and> \<not> qp_array p then live h + 1 else live h)"
    and "no_oom h \<longrightarrow> ok \<and> no_oom h1"
    using malloc_live[of h] realloc_live[of h] by (auto split: if_splits)
  with assms m show ?thesis
    by (auto simp: c_orm_query_params_add_def Let_def params_inv_def params_owned_def Suc_le_eq
        split: if_splits prod.splits)
qed

lemma add_param_ok:
  assumes "rd_good s" and "fst s \<noteq> None" and "add_param v b s = (rc, t)"
  shows "rd_good t \<and> fst t \<noteq> None \<and> rd_slack t = rd_slack s \<and> sb_text (snd t) = sb_text (snd s)
    \<and> (rc = C_ORM_OK \<longrightarrow> params_items (fst t) = params_items (fst s) @ [(v, b)])
    \<and> (sb_ready (snd s) \<longrightarrow> rc = C_ORM_OK \<and> sb_ready (snd t))"
proof -
  obtain p w h where s: "s = (Some p, (w, h))" using assms(2) by (cases s) auto
  obtain rc1 ps' h' where a: "c_orm_query_params_add v b (Some p, h) = (rc1, (ps', h'))" by (metis surj_pair)
  with assms(3) s have t: "t = (ps', (w, h'))" "rc1 = rc" by (simp_all add: add_param_def)
  from params_add_ok[OF _ a] assms(1) s have
    "params_inv ps'" "ps' \<noteq> None" "live h' - params_owned ps' = live h - params_owned (Some p)"
    "rc1 = C_ORM_OK \<longrightarrow> params_items ps' = qp_items p @ [(v, b)]" "no_oom h \<longrightarrow> rc1 = C_ORM_OK \<and> no_oom h'"
    by (auto simp: rd_good_def params_items_def)
  with s t assms(1) show ?thesis
    by (auto simp: rd_good_def rd_slack_unfold sb_good_def sb_text_def sb_ready_def params_items_def)
qed

lemma renders_bind:
  assumes "rd_good s" and "fst s \<noteq> None" and "then_ok (add_param v b) (emit_placeholder dl) s = (rc, t)"
  shows "rd_good t \<and> fst t \<noteq> None \<and> rd_slack t = rd_slack s
    \<and> (rc = C_ORM_OK \<longrightarrow> wrote_pieces dl s t [Value v b]) \<and> (sb_ready (snd s) \<longrightarrow> rc = C_ORM_OK \<and> sb_ready (snd t))"
proof -
  obtain rc1 u where u: "add_param v b s = (rc1, u)" by (metis surj_pair)
  note au = add_param_ok[OF assms(1,2) u]
  show ?thesis
  proof (cases "rc1 = C_ORM_OK")
    case False
    with assms(3) u au show ?thesis by (auto simp: then_ok_def)
  next
    case True
    define tx where "tx = placeholder dl (length (params_items (fst s)) + 1)"
    from au True obtain q where q: "fst u = Some q" "length (qp_items q) = length (params_items (fst s)) + 1"
      by (auto simp: params_items_def)
    with assms(3) u True have e: "emit (Some tx) u = (rc, t)"
      by (simp add: then_ok_def emit_placeholder_def tx_def)
    have tp: "text_pieces [Some tx] = Some [Text tx]" by (simp add: text_pieces_def)
    note r = rendersD[OF renders_emit[of dl "Some tx"] _ e, unfolded tp]
    from e have st: "rd_slack t = rd_slack u"
      by (cases u) (auto simp: emit_def rd_slack_def split: prod.splits dest: keepsD[OF keeps_slack_append])
    have m: "mode_of dl (fst s) = Some dl" "mode_of dl (fst u) = Some dl" using assms(2) q by (simp_all add: mode_of_def)
    have "wrote_pieces dl s t [Value v b]" if "rc = C_ORM_OK"
      using r(5)[OF conjunct1[OF au] that] au True m assms(2) q
      by (auto simp: wrote_pieces_def bound_def tx_def placeholder_shown showable_def)
    with r(1,2)[OF conjunct1[OF au]] r(6,7)[OF conjunct1[OF au]] au st m q show ?thesis
      by (auto simp: showable_def)
  qed
qed

lemma renders_value: "renders dl (render_value dl v b) (Some [Value v b])"
proof -
  let ?q = "if b then [Some [CHR 39], v, Some [CHR 39]] else [v]"
  have inl: "renders dl (appends emit ?q) (text_pieces ?q)" by (rule renders_appends)
  have tp: "text_pieces ?q = (if v = None then None else Some (map (\<lambda>x. Text (the x)) ?q))"
    by (cases v) (auto simp: text_pieces_def)
  have val: "render_value dl v b s = (if fst s = None then appends emit ?q s
      else then_ok (add_param v b) (emit_placeholder dl) s)" for s
    by (simp add: render_value_def)
  show ?thesis
  proof (rule rendersI)
    fix s rc t assume s: "rd_good s" and r: "render_value dl v b s = (rc, t)"
    show "rd_good t \<and> (fst t = None \<longleftrightarrow> fst s = None) \<and> rd_slack s \<le> rd_slack t"
    proof (cases "fst s = None")
      case True
      with r val have a: "appends emit ?q s = (rc, t)" by simp
      from rendersD(1-3)[OF inl s a] show ?thesis by simp
    next
      case False
      with renders_bind[OF s False, of v b dl] r val show ?thesis by (metis order_refl)
    qed
  next
    fix s t assume s: "rd_good s" and r: "render_value dl v b s = (C_ORM_OK, t)"
    show "rd_slack t = rd_slack s \<and> (\<exists>qs. Some [Value v b] = Some qs \<and> wrote_pieces dl s t qs)"
    proof (cases "fst s = None")
      case True
      with r val have a: "appends emit ?q s = (C_ORM_OK, t)" by simp
      from rendersD(4,5)[OF inl s a] tp True show ?thesis
        by (auto simp: wrote_pieces_def mode_of_def bound_def showable_def texts_def split: if_splits)
    next
      case False
      with renders_bind[OF s False, of v b dl] r val show ?thesis by simp
    qed
  next
    fix s rc t qs assume s: "rd_good s" and r: "render_value dl v b s = (rc, t)" and ready: "sb_ready (snd s)"
      and q: "Some [Value v b] = Some qs" and sh: "showable (mode_of dl (fst s)) qs"
    show "rc = C_ORM_OK \<and> sb_ready (snd t)"
    proof (cases "fst s = None")
      case True
      with r val have a: "appends emit ?q s = (rc, t)" by simp
      from sh q True have "v \<noteq> None" by (cases v) (auto simp: showable_def mode_of_def)
      with rendersD(6,7)[OF inl s a ready] tp True show ?thesis by (auto simp: showable_def)
    next
      case False
      with renders_bind[OF s False, of v b dl] r val ready show ?thesis by simp
    qed
  qed
qed

section \<open>Nested statements\<close>

text \<open>The contract of \<open>c_orm_query_to_sql\<close>: on success one block more, the text, and the values bound.\<close>

definition renders_sql ::
    "c_orm_dialect_t \<Rightarrow> (qparams \<times> heap \<Rightarrow> c_orm_error_t \<times> cptr \<times> (qparams \<times> heap)) \<Rightarrow> piece list option \<Rightarrow> bool" where
  "renders_sql dl f P \<longleftrightarrow> (\<forall>ps h rc sql ps' h'. params_inv ps \<longrightarrow> f (ps, h) = (rc, sql, (ps', h')) \<longrightarrow>
     params_inv ps' \<and> (ps' = None \<longleftrightarrow> ps = None) \<and> live h - params_owned ps \<le> live h' - params_owned ps' \<and>
     (rc = C_ORM_OK \<longrightarrow> live h' - params_owned ps' = live h - params_owned ps + 1 \<and>
        (\<exists>qs. P = Some qs \<and> showable (mode_of dl ps) qs
          \<and> sql = Some (show_pieces (mode_of dl ps) (length (params_items ps)) qs) \<and> bound ps ps' qs)) \<and>
     (no_oom h \<longrightarrow> (\<exists>qs. P = Some qs \<and> showable (mode_of dl ps) qs) \<longrightarrow> rc = C_ORM_OK \<and> no_oom h'))"

lemma renders_sqlD:
  assumes "renders_sql dl f P" "params_inv ps" "f (ps, h) = (rc, sql, (ps', h'))"
  shows "params_inv ps'" "ps' = None \<longleftrightarrow> ps = None" "live h - params_owned ps \<le> live h' - params_owned ps'"
    "rc = C_ORM_OK \<Longrightarrow> live h' - params_owned ps' = live h - params_owned ps + 1"
    "rc = C_ORM_OK \<Longrightarrow> \<exists>qs. P = Some qs \<and> showable (mode_of dl ps) qs
          \<and> sql = Some (show_pieces (mode_of dl ps) (length (params_items ps)) qs) \<and> bound ps ps' qs"
    "no_oom h \<Longrightarrow> P = Some qs \<Longrightarrow> showable (mode_of dl ps) qs \<Longrightarrow> rc = C_ORM_OK"
    "no_oom h \<Longrightarrow> P = Some qs \<Longrightarrow> showable (mode_of dl ps) qs \<Longrightarrow> no_oom h'"
  using assms unfolding renders_sql_def by blast+

lemma chain_text: "chain_pieces (Some [Text tx]) T = map_option (\<lambda>ts. Text tx # ts) T"
  by (cases T) (simp_all add: chain_pieces_def)

lemma renders_nested:
  assumes f: "renders_sql dl f P" and g: "\<And>tx. renders dl (rest (Some tx)) (chain_pieces (Some [Text tx]) T)"
  shows "renders dl (nested f rest) (chain_pieces P T)"
proof (rule rendersI)
  fix s rc t assume s: "rd_good s" and r: "nested f rest s = (rc, t)"
  obtain ps b h where sp: "s = (ps, (b, h))" by (metis surj_pair)
  obtain rc1 sql ps1 h1 where u: "f (ps, h) = (rc1, sql, (ps1, h1))" by (metis surj_pair)
  from s sp have inv: "params_inv ps" "sb_good (b, h)" by (simp_all add: rd_good_def)
  note fu = renders_sqlD[OF f inv(1) u]
  have s1: "rd_good (ps1, (b, h1))" using inv fu(1) by (simp add: rd_good_def sb_good_def)
  show "rd_good t \<and> (fst t = None \<longleftrightarrow> fst s = None) \<and> rd_slack s \<le> rd_slack t"
  proof (cases "rc1 = C_ORM_OK")
    case False
    with r sp u fu s1 show ?thesis by (auto simp: nested_def rd_slack_unfold)
  next
    case True
    with fu(5) obtain tx where tx: "sql = Some tx" by blast
    obtain rc2 ps2 b2 h2 where v: "rest sql (ps1, (b, h1)) = (rc2, (ps2, (b2, h2)))" by (metis surj_pair)
    with r sp u True have t: "rc2 \<noteq> C_ORM_OK \<Longrightarrow> t = (ps2, (b2, h2))" "rc2 = C_ORM_OK \<Longrightarrow> t = (ps2, (b2, C_ORM_FREE h2))"
      by (auto simp: nested_def)
    from rendersD(1-4)[OF g[of tx] s1, unfolded tx[symmetric], OF v] fu(4)[OF True] fu(2) t True sp show ?thesis
      by (cases "rc2 = C_ORM_OK") (auto simp: rd_slack_unfold rd_good_def sb_good_def)
  qed
next
  fix s t assume s: "rd_good s" and r: "nested f rest s = (C_ORM_OK, t)"
  obtain ps b h where sp: "s = (ps, (b, h))" by (metis surj_pair)
  obtain rc1 sql ps1 h1 where u: "f (ps, h) = (rc1, sql, (ps1, h1))" by (metis surj_pair)
  from r sp u have ok: "rc1 = C_ORM_OK" by (auto simp: nested_def split: if_splits)
  from s sp have inv: "params_inv ps" "sb_good (b, h)" by (simp_all add: rd_good_def)
  note fu = renders_sqlD[OF f inv(1) u]
  have s1: "rd_good (ps1, (b, h1))" using inv fu(1) by (simp add: rd_good_def sb_good_def)
  from fu(5)[OF ok] obtain qs tx where q: "P = Some qs" "showable (mode_of dl ps) qs" "sql = Some tx"
    "tx = show_pieces (mode_of dl ps) (length (params_items ps)) qs" "bound ps ps1 qs" by blast
  obtain ps2 b2 h2 where v: "rest sql (ps1, (b, h1)) = (C_ORM_OK, (ps2, (b2, h2)))" "t = (ps2, (b2, C_ORM_FREE h2))"
    using r sp u ok by (auto simp: nested_def split: prod.splits if_splits)
  note gv = rendersD[OF g[of tx] s1, unfolded q(3)[symmetric], OF v(1)]
  from gv(5) obtain ts where ts: "T = Some ts" "wrote_pieces dl (ps1, (b, h1)) (ps2, (b2, h2)) (Text tx # ts)"
    by (auto simp: chain_text)
  from q ts sp v(2) mode_eq[OF fu(2), of dl] have "wrote_pieces dl s t (qs @ ts)"
    by (auto simp: wrote_pieces_def bound_def sb_text_def show_pieces_append mode_of_def params_items_def show_inline
        split: option.splits)
  with q(1) ts(1) gv(4) fu(4)[OF ok] sp v(2)
  show "rd_slack t = rd_slack s \<and> (\<exists>qs. chain_pieces P T = Some qs \<and> wrote_pieces dl s t qs)"
    by (auto simp: chain_Some rd_slack_unfold)
next
  fix s rc t rs assume s: "rd_good s" and r: "nested f rest s = (rc, t)" and ready: "sb_ready (snd s)"
    and c: "chain_pieces P T = Some rs" and sh: "showable (mode_of dl (fst s)) rs"
  obtain ps b h where sp: "s = (ps, (b, h))" by (metis surj_pair)
  obtain rc1 sql ps1 h1 where u: "f (ps, h) = (rc1, sql, (ps1, h1))" by (metis surj_pair)
  from s sp have inv: "params_inv ps" "sb_good (b, h)" by (simp_all add: rd_good_def)
  from c obtain qs ts where q: "P = Some qs" "T = Some ts" "rs = qs @ ts" by (auto simp: chain_Some)
  note fu = renders_sqlD[OF f inv(1) u]
  from fu(6,7)[OF _ q(1)] ready sp sh q(3) have ok: "rc1 = C_ORM_OK" "no_oom h1" by (simp_all add: sb_ready_def)
  have s1: "rd_good (ps1, (b, h1))" using inv fu(1) by (simp add: rd_good_def sb_good_def)
  from fu(5)[OF ok(1)] obtain tx where tx: "sql = Some tx" by blast
  obtain rc2 ps2 b2 h2 where v: "rest sql (ps1, (b, h1)) = (rc2, (ps2, (b2, h2)))" by (metis surj_pair)
  have "sb_ready (snd (ps1, (b, h1)))" using ready sp ok(2) by (simp add: sb_ready_def)
  from rendersD(6,7)[OF g[of tx] s1, unfolded tx[symmetric], OF v this] q(2,3) sh sp mode_eq[OF fu(2), of dl]
  have "rc2 = C_ORM_OK" "sb_ready (b2, h2)" by (simp_all add: chain_text)
  with r sp u ok v show "rc = C_ORM_OK \<and> sb_ready (snd t)" by (auto simp: nested_def sb_ready_def)
qed

lemma extract_cases:
  assumes "extract_sql (ps, (b, h)) = (rc, sql, (ps', h'))"
  shows "ps' = ps \<and> (rc = C_ORM_OK \<longrightarrow> sql = Some (sb_text (b, h)) \<and> live h' = live h - sb_owned b + 1)
    \<and> (rc \<noteq> C_ORM_OK \<longrightarrow> live h' = live h - sb_owned b)
    \<and> (sb_ready (b, h) \<longrightarrow> rc = C_ORM_OK \<and> no_oom h')"
proof -
  obtain ok h1 where m: "C_ORM_MALLOC h = (ok, h1)" by (metis surj_pair)
  note l = malloc_live[OF m]
  show ?thesis
  proof (cases b)
    case None
    with assms show ?thesis by (auto simp: extract_sql_def c_orm_string_builder_get_def sb_ready_def c_orm_string_builder_free_def)
  next
    case (Some w)
    show ?thesis
    proof (cases "valid w")
      case False
      with assms Some show ?thesis
        by (auto simp: extract_sql_def c_orm_string_builder_get_def sb_ready_def c_orm_string_builder_free_def)
    next
      case True
      have "no_oom h \<Longrightarrow> ok \<and> no_oom h1" using m by auto
      with True assms Some m l show ?thesis
        by (cases ok) (auto simp: extract_sql_def c_orm_string_builder_get_def sb_ready_def sb_text_def
            c_orm_string_builder_free_def)
    qed
  qed
qed

lemma renders_with_sb:
  assumes f: "renders dl f P"
  shows "renders_sql dl (with_sb f) P"
  unfolding renders_sql_def
proof (intro allI impI)
  fix ps h rc sql ps' h' assume ps: "params_inv ps" and r: "with_sb f (ps, h) = (rc, sql, (ps', h'))"
  obtain rc0 b h1 where i: "c_orm_string_builder_init True h = (rc0, b, h1)" by (metis surj_pair)
  note ib = init_slack[OF i]
  let ?goal = "params_inv ps' \<and> (ps' = None \<longleftrightarrow> ps = None) \<and> live h - params_owned ps \<le> live h' - params_owned ps' \<and>
     (rc = C_ORM_OK \<longrightarrow> live h' - params_owned ps' = live h - params_owned ps + 1 \<and>
        (\<exists>qs. P = Some qs \<and> showable (mode_of dl ps) qs
          \<and> sql = Some (show_pieces (mode_of dl ps) (length (params_items ps)) qs) \<and> bound ps ps' qs)) \<and>
     (no_oom h \<longrightarrow> (\<exists>qs. P = Some qs \<and> showable (mode_of dl ps) qs) \<longrightarrow> rc = C_ORM_OK \<and> no_oom h')"
  show ?goal
  proof (cases "rc0 = C_ORM_OK")
    case False
    with r i have "rc = rc0" "ps' = ps" "h' = h1" by (auto simp: with_sb_def)
    moreover have "live h1 = live h" using ib False by simp
    moreover have "\<not> no_oom h" using init_no_oom[of h] i False by auto
    ultimately show ?thesis using False ps by simp
  next
    case True
    obtain rc2 ps2 b2 h2 where v: "f (ps, (b, h1)) = (rc2, (ps2, (b2, h2)))" by (metis surj_pair)
    have b: "b = Some \<lparr>buffer = [], sb_length = 0, capacity = 1, valid = True\<rparr>" using ib True by simp
    have s1: "rd_good (ps, (b, h1))" using b ps by (simp add: rd_good_def sb_good_def init_sb_inv)
    note fv = rendersD[OF f s1 v]
    have empty: "sb_text (b, h1) = []" "no_oom h \<Longrightarrow> sb_ready (b, h1)"
      using b init_no_oom[of h] i by (auto simp: sb_text_def sb_ready_def init_sb_inv)
    have ready: "rc2 = C_ORM_OK \<and> sb_ready (b2, h2)"
      if "no_oom h" "\<exists>qs. P = Some qs \<and> showable (mode_of dl ps) qs"
      using fv(6,7) empty(2)[OF that(1)] that(2) by auto
    show ?thesis
    proof (cases "rc2 = C_ORM_OK")
      case False
      with r i True v have "rc = rc2" "ps' = ps2" "h' = c_orm_string_builder_free b2 h2" by (auto simp: with_sb_def)
      moreover have "params_inv ps2" "(ps2 = None) = (ps = None)" using fv(1,2) by (simp_all add: rd_good_def)
      moreover have "live h - params_owned ps \<le> live (c_orm_string_builder_free b2 h2) - params_owned ps2"
        using fv(3) ib by (simp add: rd_slack_unfold free_slack)
      ultimately show ?thesis using False ready by blast
    next
      case ok: True
      with r i True v have e: "extract_sql (ps2, (b2, h2)) = (rc, sql, (ps', h'))" by (simp add: with_sb_def)
      from fv(5)[OF ok] obtain qs where q: "P = Some qs" "wrote_pieces dl (ps, (b, h1)) (ps2, (b2, h2)) qs" by blast
      have "sb_text (b2, h2) = show_pieces (mode_of dl ps) (length (params_items ps)) qs"
        using q(2) empty(1) by (simp add: wrote_pieces_def)
      with extract_cases[OF e] fv(1,2) fv(4)[OF ok] q ready ib show ?thesis
        by (cases "rc = C_ORM_OK") (auto simp: rd_good_def rd_slack_unfold wrote_pieces_def)
    qed
  qed
qed

section \<open>Refinement\<close>

lemma chain_Nil [simp]: "chain_pieces P (Some []) = P"
  by (cases P) (simp_all add: chain_pieces_def)

lemma renders_texts:
  assumes "None \<in> set xs \<longleftrightarrow> None \<in> set ys" and "None \<notin> set xs \<Longrightarrow> texts xs = texts ys"
  shows "renders dl (appends emit xs) (text_pieces ys)"
proof (cases "None \<in> set xs")
  case True
  with assms renders_appends[of dl xs] show ?thesis by (simp add: text_pieces_def)
next
  case False
  with renders_appends[of dl xs] have "renders dl (appends emit xs) (Some (map (\<lambda>x. Text (the x)) xs))"
    by (simp add: text_pieces_def)
  from renders_cong[OF this, of "map (\<lambda>x. Text (the x)) ys"] False assms show ?thesis by (simp add: text_pieces_def)
qed

lemma renders_bound: "length keyword \<le> 20 \<Longrightarrow>
  renders dl (render_bound keyword n) (text_pieces [Some (keyword @ decimal (wrap32 (unat n)))])"
proof -
  assume "length keyword \<le> 20"
  then have "C_ORM_SPRINTF 32 (keyword @ decimal (unat (ucast n :: 32 word))) = keyword @ decimal (wrap32 (unat n))"
    by (subst sprintf_number) (simp_all add: wrap32_ucast)
  with renders_emit[of dl "Some (keyword @ decimal (wrap32 (unat n)))"] show ?thesis
    by (simp only: render_bound_def)
qed

lemma renders_from: "renders dl (render_from t a) (from_pieces (t, a))"
  unfolding render_from_def from_pieces_def
  by (simp add: renders_then_ok renders_appends renders_emit_alias)

lemma renders_window: "renders dl (render_window f p r a) (window_pieces f p r a)"
  unfolding render_window_def window_pieces_def
  by (intro renders_then_ok renders_emit_alias renders_texts) (auto simp: given_def texts_def)

lemma renders_optional:
  "(\<And>y. x = Some y \<Longrightarrow> renders dl (f y) (g y)) \<Longrightarrow>
   renders dl (case x of None \<Rightarrow> return_ok | Some y \<Rightarrow> f y) (optional g x)"
  by (cases x) (simp_all add: optional_def renders_return_ok)

lemma renders_nested_emit:
  assumes "renders_sql dl f P"
  shows "renders dl (nested f emit) P"
proof -
  have "renders dl (emit (Some tx)) (chain_pieces (Some [Text tx]) (Some []))" for tx
    using renders_emit[of dl "Some tx"] by (simp add: text_pieces_def)
  from renders_nested[OF assms this] show ?thesis by simp
qed

lemma renders_nested_appends:
  assumes "renders_sql dl f P" and "None \<notin> set xs" and g: "renders dl g T"
  shows "renders dl (nested f (\<lambda>subsql. then_ok (appends emit (subsql # xs)) g)) (chain_pieces P (chain_pieces (text_pieces xs) T))"
proof (rule renders_nested[OF assms(1)])
  fix tx
  have "chain_pieces (text_pieces (Some tx # xs)) T = chain_pieces (Some [Text tx]) (chain_pieces (text_pieces xs) T)"
    using assms(2) by (cases T) (simp_all add: text_pieces_def chain_pieces_def)
  with renders_then_ok[OF renders_appends[of dl "Some tx # xs"] g]
  show "renders dl (then_ok (appends emit (Some tx # xs)) g) (chain_pieces (Some [Text tx]) (chain_pieces (text_pieces xs) T))"
    by simp
qed

lemma then_ok_return: "then_ok f return_ok = f"
  by (rule ext) (simp add: then_ok_def return_ok_def split: prod.splits)

lemma renders_query:
  shows "renders dl (render_node dl node depth) (node_pieces node depth)"
    and "renders_sql dl (c_orm_query_to_sql dl q) (query_pieces q)"
proof (induction dl node depth and dl q rule: render_node_c_orm_query_to_sql.induct)
  case (1 dl node depth)
  show ?case
  proof (cases "depth > 100")
    case True
    then show ?thesis
      by (simp add: render_node.simps[of dl node] node_pieces.simps[of node] cdd_c_sql_parser_max_depth_def renders_refuse)
  next
    case d: False
    then have lim: "\<not> cdd_c_sql_parser_max_depth < depth" by (simp add: cdd_c_sql_parser_max_depth_def)
    note unf = render_node.simps[of dl "Some m" for m] node_pieces.simps[of "Some m" for m]
      cdd_c_sql_parser_max_depth_def
    show ?thesis
    proof (cases node)
      case None
      with d show ?thesis
        by (simp add: render_node.simps[of dl None] node_pieces.simps[of None] cdd_c_sql_parser_max_depth_def
            renders_return_ok)
    next
      case (Some n)
      note ih = 1[OF lim Some]
      show ?thesis
      proof (cases n)
        case (AstOperator oper left right)
        note l = ih(1)[OF AstOperator]
        show ?thesis
        proof (cases "right = None")
          case True
          with d Some AstOperator l show ?thesis
            by (simp add: unf then_ok_return renders_then_ok renders_appends)
        next
          case False
          from ih(2)[OF AstOperator False] d Some AstOperator l False show ?thesis
            by (simp add: unf renders_then_ok renders_appends renders_emit del: not_None_eq)
        qed
      next
        case (AstGroup e)
        from ih(3)[OF this] d Some AstGroup show ?thesis by (simp add: unf renders_then_ok renders_emit)
      next
        case (AstSubquery sub a)
        from ih(4)[OF this] d Some AstSubquery show ?thesis
          by (simp add: unf renders_then_ok renders_emit renders_nested_appends renders_emit_alias)
      next
        case (AstExists sub neg)
        have "renders dl (appends emit ((if neg then [Some ''NOT ''] else []) @ [Some ''EXISTS (''])) 
          (text_pieces [Some (if neg then ''NOT EXISTS ('' else ''EXISTS ('')])"
          by (rule renders_texts) auto
        moreover from ih(5)[OF AstExists] have "renders dl (nested (c_orm_query_to_sql dl sub) (\<lambda>subsql. appends emit [subsql, Some '')'']))
          (chain_pieces (query_pieces sub) (text_pieces [Some '')'']))"
          using renders_nested_appends[of dl _ _ "[Some '')'']", OF _ _ renders_return_ok] by (simp add: then_ok_return)
        ultimately show ?thesis using d Some AstExists by (simp add: unf renders_then_ok)
      qed (use d Some in \<open>simp_all add: unf renders_then_ok renders_emit renders_appends renders_value
             renders_emit_alias renders_window renders_return_ok\<close>)
    qed
  qed
next
  case (2 dl q)
  show ?case
  proof (cases q)
    case None
    then show ?thesis
      by (simp add: c_orm_query_to_sql.simps[of dl None] query_pieces.simps[of None] renders_sql_def)
  next
    case (Some nodes)
    note ih = 2[OF Some refl]
    note fold = scan_earliest[symmetric]
    show ?thesis
      unfolding Some c_orm_query_to_sql.simps[of dl "Some nodes"] query_pieces.simps[of "Some nodes"]
        option.case Let_def fold
    proof (intro renders_with_sb renders_run_steps list_all2_appendI list.rel_intros, goal_cases)
      case 1
      show ?case
        by (rule renders_optional)
           (auto simp: renders_then_ok renders_appends renders_emit renders_nested_emit ih(1))
    next
      case 2
      show ?case by (rule renders_optional) (auto intro!: renders_texts)
    next
      case 3
      show ?case by (rule renders_optional) (auto simp: renders_from)
    next
      case 4
      show ?case
        unfolding rendered_joins_def scan_joins[symmetric] list_all2_map1 list_all2_map2
        by (rule list.rel_refl_strong) (auto simp: renders_then_ok renders_appends ih(2))
    next
      case 5
      show ?case
        by (rule renders_optional) (auto simp: renders_then_ok renders_emit renders_return_ok ih(3))
    next
      case 6
      show ?case by (rule renders_optional) (rule renders_appends)
    next
      case 7
      show ?case
        by (rule renders_optional) (auto simp: renders_then_ok renders_emit renders_return_ok ih(4))
    next
      case 8
      show ?case
        by (rule renders_optional) (auto simp: renders_then_ok renders_emit renders_nested_emit ih(5))
    next
      case 9
      show ?case by (rule renders_optional) (auto simp: renders_appends)
    next
      case 10
      show ?case by (rule renders_optional) (rule renders_bound, simp)
    next
      case 11
      show ?case by (rule renders_optional) (rule renders_bound, simp)
    qed
  qed
qed

end
