(* ===== verification/QueryFluent.thy ===== *)
theory QueryFluent
  imports Arena QuerySql Meta
begin

text \<open>
  \<open>src/c_orm_query_fluent.c\<close>: the calls that build a query. A \<open>c_orm_query_t\<close> is its arena, its list of
  clauses (newest first) and its error flag; the function pointers of the struct are constant. The \<open>_impl\<close>
  functions have one shape: refuse when the query is NULL or in error, copy some strings into the arena,
  take a node from the arena, fill it; any failed allocation sets the error flag. The out parameter of the
  functions that return a node is the second component of the result, \<open>out_node\<close> says that it was given.
  Every \<open>sizeof\<close> is that of an LP64 platform.
\<close>

section \<open>State\<close>

record c_orm_query =
  q_arena :: "c_orm_arena option"
  ast_head :: "ast_node list"
  q_error :: bool

type_synonym query_state = "c_orm_query option \<times> heap"
type_synonym 'a maker = "query_state \<Rightarrow> c_orm_error_t \<times> 'a option \<times> query_state"

definition c_orm_query_new :: "bool \<Rightarrow> heap \<Rightarrow> c_orm_error_t \<times> query_state" where
  "c_orm_query_new out_query h =
     (if \<not> out_query then (C_ORM_ERROR_UNKNOWN, (None, h))
      else case C_ORM_MALLOC h of (ok, h1) \<Rightarrow>
        if \<not> ok then (C_ORM_ERROR_UNKNOWN, (None, h1))
        else case c_orm_arena_new True h1 of (rc, (a, h2)) \<Rightarrow>
          if rc \<noteq> C_ORM_OK then (rc, (None, C_ORM_FREE h2))
          else (C_ORM_OK, (Some \<lparr>q_arena = a, ast_head = [], q_error = False\<rparr>, h2)))"

definition c_orm_query_free :: "query_state \<Rightarrow> heap" where
  "c_orm_query_free s =
     (case s of (query, h) \<Rightarrow>
        case query of None \<Rightarrow> h | Some q \<Rightarrow> C_ORM_FREE (c_orm_arena_free (q_arena q, h)))"

fun sizeof_node :: "ast_node \<Rightarrow> 64 word" where
  "sizeof_node (AstSelect _ _) = 32"
| "sizeof_node (AstFrom _ _) = 32"
| "sizeof_node (AstWhere _) = 24"
| "sizeof_node (AstJoin _ _ _) = 40"
| "sizeof_node (AstGroupBy _) = 24"
| "sizeof_node (AstHaving _) = 24"
| "sizeof_node (AstOrderBy _ _) = 32"
| "sizeof_node (AstLimit _) = 24"
| "sizeof_node (AstOffset _) = 24"
| "sizeof_node (AstLiteral _ _) = 32"
| "sizeof_node (AstOperator _ _ _) = 40"
| "sizeof_node (AstRaw _) = 24"
| "sizeof_node (AstColumn _) = 24"
| "sizeof_node (AstGroup _) = 24"
| "sizeof_node (AstSubquery _ _) = 32"
| "sizeof_node (AstUnion _ _) = 32"
| "sizeof_node (AstWith _ _) = 32"
| "sizeof_node (AstFunction _ _ _) = 40"
| "sizeof_node (AstCast _ _) = 32"
| "sizeof_node (AstBetween _ _ _ _) = 48"
| "sizeof_node (AstExists _ _) = 32"
| "sizeof_node (AstWindow _ _ _ _) = 48"

section \<open>Allocation in the arena of the query\<close>

definition q_alloc :: "64 word \<Rightarrow> c_orm_query \<times> heap \<Rightarrow> bool \<times> (c_orm_query \<times> heap)" where
  "q_alloc n s = (case s of (q, h) \<Rightarrow>
     case c_orm_arena_alloc n True (q_arena q, h) of (rc, _, (a, h')) \<Rightarrow> (rc = C_ORM_OK, (q\<lparr>q_arena := a\<rparr>, h')))"

definition q_strdup :: "cptr \<Rightarrow> c_orm_query \<times> heap \<Rightarrow> bool \<times> (c_orm_query \<times> heap)" where
  \<comment> \<open>the copy has the text of the original, so only the success is reported\<close>
  "q_strdup str s = (case s of (q, h) \<Rightarrow>
     case c_orm_arena_strdup str True (q_arena q, h) of (rc, _, (a, h')) \<Rightarrow> (rc = C_ORM_OK, (q\<lparr>q_arena := a\<rparr>, h')))"

fun q_strdups :: "cptr list \<Rightarrow> c_orm_query \<times> heap \<Rightarrow> bool \<times> (c_orm_query \<times> heap)" where
  "q_strdups [] s = (True, s)"
| "q_strdups (x # xs) s = (case q_strdup x s of (ok, s') \<Rightarrow> if ok then q_strdups xs s' else (False, s'))"

definition count_quotes :: "string \<Rightarrow> nat" where
  "count_quotes v = length (filter (\<lambda>c. c = CHR 39) v)"

fun double_quotes :: "string \<Rightarrow> string" where
  "double_quotes [] = []"
| "double_quotes (c # cs) = (if c = CHR 39 then CHR 39 # CHR 39 # double_quotes cs else c # double_quotes cs)"

definition c_orm_escape_literal ::
    "cptr \<Rightarrow> c_orm_query \<times> heap \<Rightarrow> c_orm_error_t \<times> cptr \<times> (c_orm_query \<times> heap)" where
  "c_orm_escape_literal val s =
     (case val of None \<Rightarrow> (C_ORM_OK, None, s)
      | Some v \<Rightarrow>
          if count_quotes v = 0 then (C_ORM_OK, Some v, s)
          else case q_alloc (of_nat (length v + count_quotes v + 1)) s of (ok, s') \<Rightarrow>
            if \<not> ok then (C_ORM_ERROR_MEMORY, None, s') else (C_ORM_OK, Some (double_quotes v), s'))"

section \<open>The shape of the node makers and of the clauses\<close>

definition fail_query :: "c_orm_query \<times> heap \<Rightarrow> query_state" where
  "fail_query s = (case s of (q, h) \<Rightarrow> (Some (q\<lparr>q_error := True\<rparr>), h))"

text \<open>
  \<open>make out_node ok strs n fill\<close>: refuse without a query, after an error, without an out pointer or when
  another argument is NULL (\<open>ok\<close>); copy \<open>strs\<close>, allocate \<open>n\<close> bytes, run \<open>fill\<close>.
\<close>

definition make ::
    "bool \<Rightarrow> cptr list \<Rightarrow> 64 word \<Rightarrow> (c_orm_query \<times> heap \<Rightarrow> c_orm_error_t \<times> 'a option \<times> query_state) \<Rightarrow> 'a maker" where
  "make args strs n fill s =
     (case s of (query, h) \<Rightarrow>
        case query of None \<Rightarrow> (C_ORM_ERROR_UNKNOWN, None, s)
        | Some q \<Rightarrow>
            if q_error q \<or> \<not> args then (C_ORM_ERROR_UNKNOWN, None, s)
            else case q_strdups strs (q, h) of (ok, s1) \<Rightarrow>
              if \<not> ok then (C_ORM_ERROR_MEMORY, None, fail_query s1)
              else case q_alloc n s1 of (ok2, s2) \<Rightarrow>
                if \<not> ok2 then (C_ORM_ERROR_MEMORY, None, fail_query s2) else fill s2)"

definition make_node :: "bool \<Rightarrow> cptr list \<Rightarrow> ast_node \<Rightarrow> ast_node maker" where
  "make_node args strs node = make args strs (sizeof_node node) (\<lambda>(q, h). (C_ORM_OK, Some node, (Some q, h)))"

definition add_clause :: "bool \<Rightarrow> cptr list \<Rightarrow> ast_node \<Rightarrow> query_state call" where
  "add_clause args strs node s =
     (case make args strs (sizeof_node node)
             (\<lambda>(q, h). (C_ORM_OK, Some (), (Some (q\<lparr>ast_head := node # ast_head q\<rparr>), h))) s of
        (rc, _, s') \<Rightarrow> (rc, s'))"

section \<open>Node makers\<close>

definition c_orm_query_raw_impl :: "cptr \<Rightarrow> bool \<Rightarrow> ast_node maker" where
  "c_orm_query_raw_impl sql out_node = make_node out_node [sql] (AstRaw sql)"

definition c_orm_query_col_impl :: "cptr \<Rightarrow> bool \<Rightarrow> ast_node maker" where
  "c_orm_query_col_impl name out_node = make_node out_node [name] (AstColumn name)"

definition c_orm_query_lit_impl :: "cptr \<Rightarrow> bool \<Rightarrow> bool \<Rightarrow> ast_node maker" where
  "c_orm_query_lit_impl val is_string out_node =
     make out_node [] (sizeof_node (AstLiteral val is_string)) (\<lambda>s.
       if \<not> is_string then (C_ORM_OK, Some (AstLiteral val is_string), (Some (fst s), snd s))
       else case c_orm_escape_literal val s of (rc, value, s1) \<Rightarrow>
         if value = None \<and> val \<noteq> None then (C_ORM_ERROR_MEMORY, None, fail_query s1)
         else (C_ORM_OK, Some (AstLiteral value is_string), (Some (fst s1), snd s1)))"

definition c_orm_query_op_impl ::
    "cptr \<Rightarrow> ast_node option \<Rightarrow> ast_node option \<Rightarrow> bool \<Rightarrow> ast_node maker" where
  "c_orm_query_op_impl oper left right out_node = make_node out_node [] (AstOperator oper left right)"

text \<open>The comparisons ignore the results of the first two calls and hand the nodes, or NULL, to the third.\<close>

definition compare_with ::
    "ast_node maker \<Rightarrow> ast_node maker \<Rightarrow> string \<Rightarrow> bool \<Rightarrow> ast_node maker" where
  "compare_with left right oper out_node s =
     (case left s of (_, l, s1) \<Rightarrow> case right s1 of (_, r, s2) \<Rightarrow> c_orm_query_op_impl (Some oper) l r out_node s2)"

definition c_orm_query_eq_impl :: "cptr \<Rightarrow> cptr \<Rightarrow> bool \<Rightarrow> bool \<Rightarrow> ast_node maker" where
  "c_orm_query_eq_impl col val is_string =
     compare_with (c_orm_query_col_impl col True) (c_orm_query_lit_impl val is_string True) ''=''"

definition c_orm_query_neq_impl :: "cptr \<Rightarrow> cptr \<Rightarrow> bool \<Rightarrow> bool \<Rightarrow> ast_node maker" where
  "c_orm_query_neq_impl col val is_string =
     compare_with (c_orm_query_col_impl col True) (c_orm_query_lit_impl val is_string True) ''!=''"

definition c_orm_query_gt_impl :: "cptr \<Rightarrow> cptr \<Rightarrow> bool \<Rightarrow> bool \<Rightarrow> ast_node maker" where
  "c_orm_query_gt_impl col val is_string =
     compare_with (c_orm_query_col_impl col True) (c_orm_query_lit_impl val is_string True) ''>''"

definition c_orm_query_lt_impl :: "cptr \<Rightarrow> cptr \<Rightarrow> bool \<Rightarrow> bool \<Rightarrow> ast_node maker" where
  "c_orm_query_lt_impl col val is_string =
     compare_with (c_orm_query_col_impl col True) (c_orm_query_lit_impl val is_string True) ''<''"

definition c_orm_query_like_impl :: "cptr \<Rightarrow> cptr \<Rightarrow> bool \<Rightarrow> ast_node maker" where
  "c_orm_query_like_impl col val =
     compare_with (c_orm_query_col_impl col True) (c_orm_query_lit_impl val True True) ''LIKE''"

definition c_orm_query_in_impl :: "cptr \<Rightarrow> cptr \<Rightarrow> bool \<Rightarrow> ast_node maker" where
  "c_orm_query_in_impl col val_list =
     compare_with (c_orm_query_col_impl col True) (c_orm_query_raw_impl val_list True) ''IN''"

definition c_orm_query_group_node_impl :: "ast_node option \<Rightarrow> bool \<Rightarrow> ast_node maker" where
  "c_orm_query_group_node_impl expr out_node = make_node out_node [] (AstGroup expr)"

text \<open>A query argument is its clause list; the nodes keep a pointer to it, here its value.\<close>

definition c_orm_query_subquery_node_impl :: "ast_node list option \<Rightarrow> cptr \<Rightarrow> bool \<Rightarrow> ast_node maker" where
  "c_orm_query_subquery_node_impl subq alias out_node =
     make_node (subq \<noteq> None \<and> out_node) [] (AstSubquery subq alias)"

definition c_orm_query_func_impl :: "cptr \<Rightarrow> cptr \<Rightarrow> cptr \<Rightarrow> bool \<Rightarrow> ast_node maker" where
  "c_orm_query_func_impl name args alias out_node = make_node out_node [] (AstFunction name args alias)"

definition c_orm_query_cast_impl :: "cptr \<Rightarrow> cptr \<Rightarrow> bool \<Rightarrow> ast_node maker" where
  "c_orm_query_cast_impl col type out_node = make_node out_node [] (AstCast col type)"

definition c_orm_query_is_null_impl :: "cptr \<Rightarrow> bool \<Rightarrow> bool \<Rightarrow> ast_node maker" where
  \<comment> \<open>the node is returned with \<open>C_ORM_OK\<close> even when its column could not be allocated\<close>
  "c_orm_query_is_null_impl col is_not out_node =
     make out_node [] (sizeof_node (AstOperator None None None)) (\<lambda>(q, h).
       case c_orm_query_col_impl col True (Some q, h) of (_, left, s1) \<Rightarrow>
         (C_ORM_OK, Some (AstOperator (Some (if is_not then ''IS NOT NULL'' else ''IS NULL'')) left None), s1))"

definition c_orm_query_between_impl :: "cptr \<Rightarrow> cptr \<Rightarrow> cptr \<Rightarrow> bool \<Rightarrow> bool \<Rightarrow> ast_node maker" where
  \<comment> \<open>a bound that cannot be escaped is left NULL, without an error\<close>
  "c_orm_query_between_impl col low high is_string out_node =
     make out_node [] (sizeof_node (AstBetween col low high is_string)) (\<lambda>s.
       if \<not> is_string then (C_ORM_OK, Some (AstBetween col low high is_string), (Some (fst s), snd s))
       else case c_orm_escape_literal low s of (_, low', s1) \<Rightarrow>
         case c_orm_escape_literal high s1 of (_, high', s2) \<Rightarrow>
           (C_ORM_OK, Some (AstBetween col low' high' is_string), (Some (fst s2), snd s2)))"

definition c_orm_query_exists_impl :: "ast_node list option \<Rightarrow> bool \<Rightarrow> bool \<Rightarrow> ast_node maker" where
  "c_orm_query_exists_impl subq is_not out_node = make_node (subq \<noteq> None \<and> out_node) [] (AstExists subq is_not)"

definition c_orm_query_window_impl :: "cptr \<Rightarrow> cptr \<Rightarrow> cptr \<Rightarrow> cptr \<Rightarrow> bool \<Rightarrow> ast_node maker" where
  "c_orm_query_window_impl func_name partition_by order_by alias out_node =
     make_node out_node [] (AstWindow func_name partition_by order_by alias)"

section \<open>Clauses\<close>

definition c_orm_query_select_impl :: "cptr \<Rightarrow> query_state call" where
  "c_orm_query_select_impl cols = add_clause True [cols] (AstSelect cols False)"

definition c_orm_query_from_impl :: "cptr \<Rightarrow> query_state call" where
  "c_orm_query_from_impl table = add_clause True [table] (AstFrom table None)"

definition c_orm_query_from_alias_impl :: "cptr \<Rightarrow> cptr \<Rightarrow> query_state call" where
  "c_orm_query_from_alias_impl table alias = add_clause True [] (AstFrom table alias)"

definition c_orm_query_where_impl :: "ast_node option \<Rightarrow> query_state call" where
  "c_orm_query_where_impl condition = add_clause True [] (AstWhere condition)"

definition c_orm_query_order_by_impl :: "cptr \<Rightarrow> bool \<Rightarrow> query_state call" where
  "c_orm_query_order_by_impl column is_desc = add_clause True [column] (AstOrderBy column is_desc)"

definition c_orm_query_limit_impl :: "64 word \<Rightarrow> query_state call" where
  "c_orm_query_limit_impl n = add_clause True [] (AstLimit n)"

definition c_orm_query_offset_impl :: "64 word \<Rightarrow> query_state call" where
  "c_orm_query_offset_impl n = add_clause True [] (AstOffset n)"

definition c_orm_query_join_impl :: "cptr \<Rightarrow> cptr \<Rightarrow> ast_node option \<Rightarrow> query_state call" where
  "c_orm_query_join_impl table type_str on_condition =
     add_clause True [table, type_str] (AstJoin type_str table on_condition)"

definition c_orm_query_left_join_impl :: "cptr \<Rightarrow> ast_node option \<Rightarrow> query_state call" where
  "c_orm_query_left_join_impl table = c_orm_query_join_impl table (Some ''LEFT'')"

definition c_orm_query_right_join_impl :: "cptr \<Rightarrow> ast_node option \<Rightarrow> query_state call" where
  "c_orm_query_right_join_impl table = c_orm_query_join_impl table (Some ''RIGHT'')"

definition c_orm_query_group_by_impl :: "cptr \<Rightarrow> query_state call" where
  "c_orm_query_group_by_impl cols = add_clause True [] (AstGroupBy cols)"

definition c_orm_query_having_impl :: "ast_node option \<Rightarrow> query_state call" where
  "c_orm_query_having_impl condition = add_clause True [] (AstHaving condition)"

definition c_orm_query_with_impl :: "cptr \<Rightarrow> ast_node list option \<Rightarrow> query_state call" where
  "c_orm_query_with_impl alias subquery = add_clause (subquery \<noteq> None) [] (AstWith alias subquery)"

definition c_orm_query_union_impl :: "ast_node list option \<Rightarrow> bool \<Rightarrow> query_state call" where
  "c_orm_query_union_impl other is_all = add_clause (other \<noteq> None) [] (AstUnion is_all other)"

text \<open>The newest WHERE of the list, with the nodes before and after it.\<close>

fun split_where :: "ast_node list \<Rightarrow> (ast_node list \<times> ast_node option \<times> ast_node list) option" where
  "split_where [] = None"
| "split_where (AstWhere c # ns) = Some ([], c, ns)"
| "split_where (n # ns) = map_option (\<lambda>(before, c, after). (n # before, c, after)) (split_where ns)"

definition combine_where :: "string \<Rightarrow> ast_node option \<Rightarrow> query_state call" where
  \<comment> \<open>the common body of \<open>and_where\<close> and \<open>or_where\<close>\<close>
  "combine_where oper condition s =
     (case s of (query, h) \<Rightarrow>
        case query of None \<Rightarrow> (C_ORM_ERROR_UNKNOWN, s)
        | Some q \<Rightarrow>
            if q_error q \<or> condition = None then (C_ORM_ERROR_UNKNOWN, s)
            else case split_where (ast_head q) of
              None \<Rightarrow> c_orm_query_where_impl condition s
            | Some (before, None, after) \<Rightarrow>
                (C_ORM_OK, (Some (q\<lparr>ast_head := before @ AstWhere condition # after\<rparr>), h))
            | Some (before, Some c, after) \<Rightarrow>
                (case c_orm_query_op_impl (Some oper) (Some c) condition True s of (_, node, (query1, h1)) \<Rightarrow>
                   (if q_error (the query1) then C_ORM_ERROR_MEMORY else C_ORM_OK,
                    (map_option (\<lambda>q. q\<lparr>ast_head := before @ AstWhere node # after\<rparr>) query1, h1))))"

definition c_orm_query_and_where_impl :: "ast_node option \<Rightarrow> query_state call" where
  "c_orm_query_and_where_impl = combine_where ''AND''"

definition c_orm_query_or_where_impl :: "ast_node option \<Rightarrow> query_state call" where
  "c_orm_query_or_where_impl = combine_where ''OR''"

text \<open>The newest SELECT of the list changed by \<open>f\<close>; \<open>None\<close> when there is none.\<close>

fun update_select :: "(cptr \<Rightarrow> bool \<Rightarrow> ast_node) \<Rightarrow> ast_node list \<Rightarrow> ast_node list option" where
  "update_select f [] = None"
| "update_select f (AstSelect c d # ns) = Some (f c d # ns)"
| "update_select f (n # ns) = map_option (\<lambda>ms. n # ms) (update_select f ns)"

text \<open>
  \<open>distinct\<close>: without a SELECT it adds \<open>SELECT *\<close> and then writes \<open>is_distinct\<close> through a cast of whatever
  node is first. When the SELECT could not be added that node has another type; the result \<open>None\<close> is
  this write through a pointer of the wrong type.
\<close>

definition c_orm_query_distinct_impl :: "query_state \<Rightarrow> (c_orm_error_t \<times> query_state) option" where
  "c_orm_query_distinct_impl s =
     (case s of (query, h) \<Rightarrow>
        case query of None \<Rightarrow> Some (C_ORM_ERROR_UNKNOWN, s)
        | Some q \<Rightarrow>
            if q_error q then Some (C_ORM_ERROR_UNKNOWN, s)
            else case update_select (\<lambda>c _. AstSelect c True) (ast_head q) of
              Some ns \<Rightarrow> Some (C_ORM_OK, (Some (q\<lparr>ast_head := ns\<rparr>), h))
            | None \<Rightarrow>
                (case c_orm_query_select_impl (Some ''*'') s of (rc, (query1, h1)) \<Rightarrow>
                   case ast_head (the query1) of
                     [] \<Rightarrow> Some (rc, (query1, h1))
                   | AstSelect c _ # ns \<Rightarrow>
                       Some (rc, (map_option (\<lambda>q. q\<lparr>ast_head := AstSelect c True # ns\<rparr>) query1, h1))
                   | _ \<Rightarrow> None))"

section \<open>Copying a query\<close>

definition on_arena ::
    "(arena_state \<Rightarrow> 'a \<times> arena_state) \<Rightarrow> c_orm_query \<times> heap \<Rightarrow> 'a \<times> (c_orm_query \<times> heap)" where
  "on_arena f s = (case s of (q, h) \<Rightarrow> case f (q_arena q, h) of (x, (a, h')) \<Rightarrow> (x, (q\<lparr>q_arena := a\<rparr>, h')))"

text \<open>
  \<open>c_orm_ast_clone_node\<close> gives a copy or NULL. The status of the calls for the children is ignored: a child
  that cannot be copied is NULL in a copy that is returned as a success. Nested queries are shared, and so
  are the texts, which stay in the arena of the original.
\<close>

fun clone_node :: "ast_node \<Rightarrow> c_orm_query \<times> heap \<Rightarrow> ast_node option \<times> (c_orm_query \<times> heap)"
  and clone_child :: "ast_node option \<Rightarrow> c_orm_query \<times> heap \<Rightarrow> ast_node option \<times> (c_orm_query \<times> heap)" where
  "clone_node node s =
     (case q_alloc (sizeof_node node) s of (ok, s1) \<Rightarrow>
        if \<not> ok then (None, s1)
        else (case node of
            AstWhere c \<Rightarrow> (case clone_child c s1 of (c', s2) \<Rightarrow> (Some (AstWhere c'), s2))
          | AstJoin ty t c \<Rightarrow> (case clone_child c s1 of (c', s2) \<Rightarrow> (Some (AstJoin ty t c'), s2))
          | AstHaving c \<Rightarrow> (case clone_child c s1 of (c', s2) \<Rightarrow> (Some (AstHaving c'), s2))
          | AstOperator oper l r \<Rightarrow>
              (case clone_child l s1 of (l', s2) \<Rightarrow>
                 case clone_child r s2 of (r', s3) \<Rightarrow> (Some (AstOperator oper l' r'), s3))
          | AstGroup e \<Rightarrow> (case clone_child e s1 of (e', s2) \<Rightarrow> (Some (AstGroup e'), s2))
          | _ \<Rightarrow> (Some node, s1)))"
| "clone_child None s = (None, s)"
| "clone_child (Some n) s = clone_node n s"

declare clone_node.simps [simp del]

fun clone_nodes :: "ast_node list \<Rightarrow> c_orm_query \<times> heap \<Rightarrow> ast_node list option \<times> (c_orm_query \<times> heap)" where
  "clone_nodes [] s = (Some [], s)"
| "clone_nodes (n # ns) s =
     (case clone_node n s of (n', s1) \<Rightarrow>
        case n' of None \<Rightarrow> (None, s1)
        | Some m \<Rightarrow> (case clone_nodes ns s1 of (ms, s2) \<Rightarrow> (map_option (\<lambda>ms. m # ms) ms, s2)))"

definition c_orm_query_clone :: "c_orm_query option \<Rightarrow> bool \<Rightarrow> heap \<Rightarrow> c_orm_error_t \<times> query_state" where
  "c_orm_query_clone q out_q h =
     (case q of None \<Rightarrow> (C_ORM_ERROR_UNKNOWN, (None, h))
      | Some orig \<Rightarrow>
          if \<not> out_q then (C_ORM_ERROR_UNKNOWN, (None, h))
          else case c_orm_query_new True h of (rc, (copy, h1)) \<Rightarrow>
            case copy of None \<Rightarrow> (rc, (None, h1))
            | Some c \<Rightarrow>
                (case clone_nodes (ast_head orig) (c\<lparr>q_error := q_error orig\<rparr>, h1) of (ns, (c', h2)) \<Rightarrow>
                   case ns of None \<Rightarrow> (C_ORM_ERROR_UNKNOWN, (None, c_orm_query_free (Some c', h2)))
                   | Some ms \<Rightarrow> (C_ORM_OK, (Some (c'\<lparr>ast_head := ms\<rparr>), h2))))"

section \<open>Eager loading\<close>

text \<open>
  The column list is written into 4096 bytes: a separator of two bytes is stored without a test of the room,
  and \<open>C_ORM_SPRINTF\<close> truncates to what the pointer difference says is left. \<open>None\<close> is an access
  beyond the buffer, a NULL name given to a format, or a buffer that was never written.
\<close>

definition put_column :: "string \<Rightarrow> string \<Rightarrow> string option" where
  "put_column item buf =
     (let p = (if buf = [] then [] else buf @ '', '') in
      if length p < 4096 then Some (p @ C_ORM_SPRINTF (4096 - length p) item) else None)"

fun put_columns :: "cptr list \<Rightarrow> string \<Rightarrow> string option" where
  "put_columns [] buf = Some buf"
| "put_columns (None # items) buf = None"
| "put_columns (Some item # items) buf = Option.bind (put_column item buf) (put_columns items)"

definition expand_columns :: "cptr list \<Rightarrow> string option" where
  "expand_columns items = (if items = [] then None else put_columns items [])"

definition fmt_dot :: "cptr \<Rightarrow> cptr \<Rightarrow> cptr" where
  "fmt_dot a b = Option.bind a (\<lambda>a. map_option (\<lambda>b. a @ ''.'' @ b) b)"

definition eager_columns :: "c_orm_table_meta_t \<Rightarrow> c_orm_table_meta_t \<Rightarrow> string \<Rightarrow> cptr list" where
  "eager_columns meta target relation_name =
     map (\<lambda>c. fmt_dot (tbl_name meta) (col_name c)) (columns meta)
     @ map (\<lambda>c. Option.bind (fmt_dot (tbl_name target) (col_name c))
              (\<lambda>tx. map_option (\<lambda>n. tx @ '' AS '' @ relation_name @ ''_'' @ n) (col_name c))) (columns target)"

definition eager_on :: "c_orm_table_meta_t \<Rightarrow> c_orm_table_meta_t \<Rightarrow> c_orm_relation_meta_t \<Rightarrow> cptr" where
  "eager_on meta target rel =
     Option.bind (fmt_dot (tbl_name meta) (local_key rel)) (\<lambda>l.
       map_option (\<lambda>r. C_ORM_SPRINTF 128 (l @ '' = '' @ r)) (fmt_dot (tbl_name target) (foreign_key rel)))"

definition c_orm_query_eager_load_impl ::
    "meta_store \<Rightarrow> c_orm_table_meta_t option \<Rightarrow> cptr \<Rightarrow> query_state \<Rightarrow> (c_orm_error_t \<times> query_state) option" where
  "c_orm_query_eager_load_impl env meta relation_name s =
     (case (fst s, meta, relation_name) of
        (Some q, Some m, Some rname) \<Rightarrow>
          if q_error q then Some (C_ORM_ERROR_UNKNOWN, s)
          else (case find_relation m rname of
            None \<Rightarrow> Some (C_ORM_ERROR_NOT_FOUND, fail_query (q, snd s))
          | Some rel \<Rightarrow> (case target_meta rel of
              None \<Rightarrow> Some (C_ORM_ERROR_NOT_FOUND, fail_query (q, snd s))
            | Some addr \<Rightarrow>
                let target = env addr in
                case C_ORM_MALLOC (snd s) of (ok, h1) \<Rightarrow>
                  if \<not> ok then Some (C_ORM_ERROR_MEMORY, fail_query (q, h1))
                  else case eager_on m target rel of
                    None \<Rightarrow> None
                  | Some on_cond \<Rightarrow>
                      (case c_orm_query_raw_impl (Some on_cond) True (Some q, h1) of (_, raw_node, s1) \<Rightarrow>
                       case c_orm_query_left_join_impl (tbl_name target) raw_node s1 of (_, (query2, h2)) \<Rightarrow>
                       case q_alloc 4096 (the query2, C_ORM_FREE h2) of (ok2, (q3, h3)) \<Rightarrow>
                         let rc = (if q_error q3 then C_ORM_ERROR_MEMORY else C_ORM_OK) in
                         if \<not> ok2 then Some (rc, (Some q3, h3))
                         else map_option (\<lambda>cols.
                             (rc, (Some (case update_select (\<lambda>_ d. AstSelect (Some cols) d) (ast_head q3) of
                                None \<Rightarrow> q3 | Some ns \<Rightarrow> q3\<lparr>ast_head := ns\<rparr>), h3)))
                           (expand_columns (eager_columns m target rname)))))
      | _ \<Rightarrow> Some (C_ORM_ERROR_UNKNOWN, s))"

end
