(* ===== verification/FluentSpec.thy ===== *)
theory FluentSpec
  imports QueryFluent
begin

text \<open>
  What the fluent calls promise: the AST that a list of calls builds (\<open>apply_op\<close>), refined by the calls
  whichever allocations fail, and the accounting of memory. Conditions are described by \<open>cond\<close> and built
  by the node makers.
\<close>

section \<open>Memory\<close>

definition arena_owned :: "c_orm_arena option \<Rightarrow> int" where
  "arena_owned a = (case a of None \<Rightarrow> 0 | Some a \<Rightarrow> 1 + int (length (arena_head a)))"

definition query_owned :: "c_orm_query option \<Rightarrow> int" where
  "query_owned q = (case q of None \<Rightarrow> 0 | Some q \<Rightarrow> 1 + arena_owned (q_arena q))"

definition query_slack :: "query_state \<Rightarrow> int" where
  \<comment> \<open>what is allocated and not owned by the query\<close>
  "query_slack s = live (snd s) - query_owned (fst s)"

lemma arena_alloc_slack:
  "c_orm_arena_alloc n out (a, h) = (rc, p, (a', h')) \<Longrightarrow> live h' - arena_owned a' = live h - arena_owned a"
  by (cases a) (auto simp: c_orm_arena_alloc_def Let_def arena_owned_def arena_bump_def arena_full_def
      dest: malloc_live split: prod.splits if_splits list.splits)

lemma arena_strdup_slack:
  assumes "c_orm_arena_strdup str out (a, h) = (rc, p, (a', h'))"
  shows "live h' - arena_owned a' = live h - arena_owned a"
proof (cases "out \<and> str \<noteq> None \<and> a \<noteq> None")
  case False
  with assms show ?thesis by (auto simp: c_orm_arena_strdup_def split: option.splits if_splits)
next
  case True
  then obtain tx where tx: "str = Some tx" by auto
  obtain rc1 q b k where al: "c_orm_arena_alloc (of_nat (length tx + 1)) True (a, h) = (rc1, q, (b, k))"
    by (metis surj_pair)
  from arena_alloc_slack[OF al] assms tx al True show ?thesis
    by (auto simp: c_orm_arena_strdup_def arena_owned_def split: if_splits option.splits)
qed

lemma arena_free_live: "live (c_orm_arena_free (a, h)) = live h - arena_owned a"
proof -
  have "live (fold (\<lambda>_ h. C_ORM_FREE h) bs k) = live k - int (length bs)" for bs :: "arena_block list" and k
    by (induction bs arbitrary: k) simp_all
  then show ?thesis by (simp add: c_orm_arena_free_def arena_owned_def split: option.splits)
qed

lemma query_free_live: "live (c_orm_query_free s) = query_slack s"
  by (cases s) (simp add: c_orm_query_free_def query_slack_def query_owned_def arena_free_live split: option.splits)

lemma query_new_slack:
  assumes "c_orm_query_new out h = (rc, s)"
  shows "query_slack s = live h" and "fst s = (if rc = C_ORM_OK then Some \<lparr>q_arena = Some \<lparr>arena_head = []\<rparr>,
    ast_head = [], q_error = False\<rparr> else None)"
proof -
  obtain ok h1 where m: "C_ORM_MALLOC h = (ok, h1)" by (metis surj_pair)
  obtain ok2 h2 where m2: "C_ORM_MALLOC h1 = (ok2, h2)" by (metis surj_pair)
  from assms m m2 malloc_live[OF m] malloc_live[OF m2]
  show "query_slack s = live h" "fst s = (if rc = C_ORM_OK then Some \<lparr>q_arena = Some \<lparr>arena_head = []\<rparr>,
    ast_head = [], q_error = False\<rparr> else None)"
    by (auto simp: c_orm_query_new_def c_orm_arena_new_def query_slack_def query_owned_def arena_owned_def
        split: if_splits)
qed

lemma query_new_no_oom: "no_oom h \<Longrightarrow> \<exists>s. c_orm_query_new True h = (C_ORM_OK, s) \<and> no_oom (snd s)"
  by (simp add: c_orm_query_new_def c_orm_arena_new_def)

text \<open>
  \<open>tame f\<close>: a maker loses no block, keeps the clauses, does not clear the error flag, leaves a query
  where there was one, and refuses without effect a query in error.
\<close>

definition in_error :: "query_state \<Rightarrow> bool" where
  "in_error s \<longleftrightarrow> (case fst s of None \<Rightarrow> True | Some q \<Rightarrow> q_error q)"

definition clauses :: "query_state \<Rightarrow> ast_node list" where
  "clauses s = (case fst s of None \<Rightarrow> [] | Some q \<Rightarrow> ast_head q)"

definition tame :: "query_state \<Rightarrow> query_state \<Rightarrow> bool" where
  "tame s t \<longleftrightarrow> query_slack t = query_slack s \<and> clauses t = clauses s \<and> (in_error s \<longrightarrow> t = s)"

lemma tame_refl [simp]: "tame s s"
  by (simp add: tame_def)

lemma tame_trans: "tame s t \<Longrightarrow> tame t u \<Longrightarrow> tame s u"
  by (auto simp: tame_def)

lemma q_alloc_effect:
  assumes "q_alloc n (q, h) = (ok, (q', h'))"
  shows "query_slack (Some q', h') = query_slack (Some q, h) \<and> ast_head q' = ast_head q \<and> q_error q' = q_error q"
proof -
  obtain rc p a k where al: "c_orm_arena_alloc n True (q_arena q, h) = (rc, p, (a, k))" by (metis surj_pair)
  from arena_alloc_slack[OF al] assms al show ?thesis
    by (auto simp: q_alloc_def query_slack_def query_owned_def)
qed

lemma q_strdup_effect:
  assumes "q_strdup str (q, h) = (ok, (q', h'))"
  shows "query_slack (Some q', h') = query_slack (Some q, h) \<and> ast_head q' = ast_head q \<and> q_error q' = q_error q"
proof -
  obtain rc p a k where al: "c_orm_arena_strdup str True (q_arena q, h) = (rc, p, (a, k))" by (metis surj_pair)
  from arena_strdup_slack[OF al] assms al show ?thesis
    by (auto simp: q_strdup_def query_slack_def query_owned_def)
qed

lemma q_strdups_effect:
  "q_strdups strs (q, h) = (ok, (q', h')) \<Longrightarrow>
   query_slack (Some q', h') = query_slack (Some q, h) \<and> ast_head q' = ast_head q \<and> q_error q' = q_error q"
proof (induction strs arbitrary: q h)
  case (Cons x xs)
  obtain ok1 q1 h1 where u: "q_strdup x (q, h) = (ok1, (q1, h1))" by (metis surj_pair)
  from q_strdup_effect[OF u] Cons.IH[of q1 h1] Cons.prems u show ?case by (auto split: if_splits)
qed simp

lemma escape_effect:
  assumes "c_orm_escape_literal v (q, h) = (rc, v', (q', h'))"
  shows "query_slack (Some q', h') = query_slack (Some q, h) \<and> ast_head q' = ast_head q \<and> q_error q' = q_error q"
  using assms by (auto simp: c_orm_escape_literal_def split: option.splits if_splits prod.splits dest: q_alloc_effect)

section \<open>Makers\<close>

lemma make_cases:
  assumes "make args strs n fill s = (rc, x, t)"
  obtains (refused) "in_error s \<or> \<not> args" "rc = C_ORM_ERROR_UNKNOWN" "x = None" "t = s"
  | (failed) "\<not> in_error s" "args" "rc = C_ORM_ERROR_MEMORY" "x = None" "in_error t"
      "query_slack t = query_slack s" "clauses t = clauses s"
  | (filled) q h where "\<not> in_error s" "args" "\<not> q_error q" "fill (q, h) = (rc, x, t)"
      "query_slack (Some q, h) = query_slack s" "ast_head q = clauses s"
proof -
  obtain query h where s: "s = (query, h)" by (cases s)
  show thesis
  proof (cases "in_error s \<or> \<not> args")
    case True
    with assms s refused show thesis by (auto simp: make_def in_error_def split: option.splits if_splits)
  next
    case False
    with s obtain q where q: "query = Some q" "\<not> q_error q" by (auto simp: in_error_def split: option.splits)
    obtain ok q1 h1 where u: "q_strdups strs (q, h) = (ok, (q1, h1))" by (metis surj_pair)
    obtain ok2 q2 h2 where v: "q_alloc n (q1, h1) = (ok2, (q2, h2))" by (metis surj_pair)
    note uf = q_strdups_effect[OF u] and vf = q_alloc_effect[OF v]
    have slack: "query_slack (fail_query (q', h')) = query_slack (Some q', h')" for q' h'
      by (simp add: fail_query_def query_slack_def query_owned_def)
    consider "\<not> ok" | "ok" "\<not> ok2" | "ok" "ok2" by blast
    then show thesis
    proof cases
      case 1
      with assms s q u False have "rc = C_ORM_ERROR_MEMORY" "x = None" "t = fail_query (q1, h1)"
        by (auto simp: make_def)
      with failed False uf s q slack show thesis
        by (simp add: fail_query_def in_error_def clauses_def)
    next
      case 2
      with assms s q u v False have "rc = C_ORM_ERROR_MEMORY" "x = None" "t = fail_query (q2, h2)"
        by (auto simp: make_def)
      with failed False uf vf s q slack show thesis
        by (simp add: fail_query_def in_error_def clauses_def)
    next
      case 3
      with assms s q u v False have "fill (q2, h2) = (rc, x, t)" by (auto simp: make_def)
      with filled[of q2 h2] False uf vf s q show thesis by (simp add: clauses_def)
    qed
  qed
qed

definition makes :: "ast_node maker \<Rightarrow> ast_node \<Rightarrow> bool" where
  "makes m node \<longleftrightarrow> (\<forall>s rc x t. m s = (rc, x, t) \<longrightarrow>
     tame s t \<and> (\<not> in_error t \<longrightarrow> rc = C_ORM_OK \<and> x = Some node))"

lemma makesD:
  assumes "makes m node" "m s = (rc, x, t)"
  shows "tame s t" "\<not> in_error t \<Longrightarrow> rc = C_ORM_OK" "\<not> in_error t \<Longrightarrow> x = Some node"
  using assms unfolding makes_def by blast+

lemma makes_make:
  assumes "\<And>q h rc x t. \<not> q_error q \<Longrightarrow> fill (q, h) = (rc, x, t) \<Longrightarrow>
    query_slack t = query_slack (Some q, h) \<and> clauses t = ast_head q
    \<and> (\<not> in_error t \<longrightarrow> rc = C_ORM_OK \<and> x = Some node)"
  shows "makes (make True strs n fill) node"
  unfolding makes_def
proof (intro allI impI)
  fix s rc x t assume "make True strs n fill s = (rc, x, t)"
  then show "tame s t \<and> (\<not> in_error t \<longrightarrow> rc = C_ORM_OK \<and> x = Some node)"
  proof (cases rule: make_cases)
    case (filled q h)
    with assms[OF filled(3,4)] show ?thesis by (simp add: tame_def)
  qed (auto simp: tame_def)
qed

lemma makes_node: "makes (make_node True strs node) node"
  unfolding make_node_def by (rule makes_make) (auto simp: clauses_def)

lemma makes_raw: "makes (c_orm_query_raw_impl sql True) (AstRaw sql)"
  by (simp add: c_orm_query_raw_impl_def makes_node)

lemma makes_col: "makes (c_orm_query_col_impl name True) (AstColumn name)"
  by (simp add: c_orm_query_col_impl_def makes_node)

lemma makes_op: "makes (c_orm_query_op_impl oper l r True) (AstOperator oper l r)"
  by (simp add: c_orm_query_op_impl_def makes_node)

lemma no_quotes: "count_quotes v = 0 \<Longrightarrow> double_quotes v = v"
  by (induction v) (auto simp: count_quotes_def split: if_splits)

text \<open>The value of a literal node: quotes doubled in a string, the text itself in a number.\<close>

definition escaped :: "bool \<Rightarrow> cptr \<Rightarrow> cptr" where
  "escaped is_string v = (if is_string then map_option double_quotes v else v)"

lemma escape_result:
  "c_orm_escape_literal v s = (rc, v', s') \<Longrightarrow> v' = map_option double_quotes v \<or> v \<noteq> None \<and> v' = None"
  by (auto simp: c_orm_escape_literal_def no_quotes split: option.splits if_splits prod.splits)

lemma makes_lit: "makes (c_orm_query_lit_impl v b True) (AstLiteral (escaped b v) b)"
  unfolding c_orm_query_lit_impl_def
proof (rule makes_make)
  fix q h rc x t
  assume q: "\<not> q_error q" and r: "(if \<not> b then (C_ORM_OK, Some (AstLiteral v b), (Some (fst (q, h)), snd (q, h)))
       else case c_orm_escape_literal v (q, h) of (rc, value, s1) \<Rightarrow>
         if value = None \<and> v \<noteq> None then (C_ORM_ERROR_MEMORY, None, fail_query s1)
         else (C_ORM_OK, Some (AstLiteral value b), (Some (fst s1), snd s1))) = (rc, x, t)"
  obtain rc1 v' q1 h1 where e: "c_orm_escape_literal v (q, h) = (rc1, v', (q1, h1))" by (metis surj_pair)
  from escape_effect[OF e] escape_result[OF e] q r e
  show "query_slack t = query_slack (Some q, h) \<and> clauses t = ast_head q
    \<and> (\<not> in_error t \<longrightarrow> rc = C_ORM_OK \<and> x = Some (AstLiteral (escaped b v) b))"
    by (cases b) (auto simp: escaped_def clauses_def in_error_def fail_query_def query_slack_def query_owned_def
        split: if_splits)
qed

lemma makes_compare:
  assumes l: "makes left ln" and r: "makes right rn"
  shows "makes (compare_with left right oper True) (AstOperator (Some oper) (Some ln) (Some rn))"
  unfolding makes_def
proof (intro allI impI)
  fix s rc x t assume c: "compare_with left right oper True s = (rc, x, t)"
  obtain rc1 x1 s1 where a: "left s = (rc1, x1, s1)" by (metis surj_pair)
  obtain rc2 x2 s2 where b: "right s1 = (rc2, x2, s2)" by (metis surj_pair)
  from c a b have o: "c_orm_query_op_impl (Some oper) x1 x2 True s2 = (rc, x, t)" by (simp add: compare_with_def)
  note la = makesD[OF l a] and rb = makesD[OF r b] and oo = makesD[OF makes_op o]
  have "\<not> in_error s1 \<and> \<not> in_error s2" if "\<not> in_error t"
    using that oo(1) rb(1) by (metis tame_def)
  with la rb oo show "tame s t \<and> (\<not> in_error t \<longrightarrow> rc = C_ORM_OK \<and> x = Some (AstOperator (Some oper) (Some ln) (Some rn)))"
    using tame_trans by blast
qed

lemma makes_is_null:
  "makes (c_orm_query_is_null_impl col neg True)
     (AstOperator (Some (if neg then ''IS NOT NULL'' else ''IS NULL'')) (Some (AstColumn col)) None)"
  unfolding c_orm_query_is_null_impl_def
proof (rule makes_make)
  fix q h rc x t
  assume q: "\<not> q_error q" and r: "(case (q, h) of (q, h) \<Rightarrow>
       case c_orm_query_col_impl col True (Some q, h) of (_, left, s1) \<Rightarrow>
         (C_ORM_OK, Some (AstOperator (Some (if neg then ''IS NOT NULL'' else ''IS NULL'')) left None), s1)) = (rc, x, t)"
  obtain rc1 l s1 where c: "c_orm_query_col_impl col True (Some q, h) = (rc1, l, s1)" by (metis surj_pair)
  from makesD[OF makes_col c] r c
  show "query_slack t = query_slack (Some q, h) \<and> clauses t = ast_head q \<and> (\<not> in_error t \<longrightarrow> rc = C_ORM_OK
    \<and> x = Some (AstOperator (Some (if neg then ''IS NOT NULL'' else ''IS NULL'')) (Some (AstColumn col)) None))"
    by (auto simp: tame_def clauses_def)
qed

text \<open>\<open>between\<close> loses a bound silently when its escaped copy cannot be allocated; without quotes there is no copy.\<close>

definition quote_free :: "cptr \<Rightarrow> bool" where
  "quote_free v \<longleftrightarrow> (case v of None \<Rightarrow> True | Some t \<Rightarrow> count_quotes t = 0)"

lemma escape_quote_free: "quote_free v \<Longrightarrow> c_orm_escape_literal v s = (C_ORM_OK, v, s)"
  by (auto simp: quote_free_def c_orm_escape_literal_def split: option.splits)

lemma makes_between:
  assumes "b \<longrightarrow> quote_free low \<and> quote_free high"
  shows "makes (c_orm_query_between_impl col low high b True) (AstBetween col low high b)"
  unfolding c_orm_query_between_impl_def
  by (rule makes_make) (use assms in \<open>auto simp: escape_quote_free clauses_def split: if_splits\<close>)

section \<open>Conditions\<close>

datatype cond =
    CondEq cptr cptr bool
  | CondNeq cptr cptr bool
  | CondGt cptr cptr bool
  | CondLt cptr cptr bool
  | CondLike cptr cptr
  | CondIn cptr cptr
  | CondRaw cptr
  | CondIsNull cptr bool
  | CondBetween cptr cptr cptr bool
  | CondExists "ast_node list" bool
  | CondGroup cond
  | CondOp cptr cond cond

text \<open>The calls a program makes for a condition: children first, each result handed on unchecked.\<close>

fun build_cond :: "cond \<Rightarrow> ast_node maker" where
  "build_cond (CondEq c v b) = c_orm_query_eq_impl c v b True"
| "build_cond (CondNeq c v b) = c_orm_query_neq_impl c v b True"
| "build_cond (CondGt c v b) = c_orm_query_gt_impl c v b True"
| "build_cond (CondLt c v b) = c_orm_query_lt_impl c v b True"
| "build_cond (CondLike c v) = c_orm_query_like_impl c v True"
| "build_cond (CondIn c v) = c_orm_query_in_impl c v True"
| "build_cond (CondRaw sql) = c_orm_query_raw_impl sql True"
| "build_cond (CondIsNull c neg) = c_orm_query_is_null_impl c neg True"
| "build_cond (CondBetween c l r b) = c_orm_query_between_impl c l r b True"
| "build_cond (CondExists q neg) = c_orm_query_exists_impl (Some q) neg True"
| "build_cond (CondGroup e) = (\<lambda>s. case build_cond e s of (_, n, s1) \<Rightarrow> c_orm_query_group_node_impl n True s1)"
| "build_cond (CondOp oper l r) = (\<lambda>s. case build_cond l s of (_, ln, s1) \<Rightarrow>
     case build_cond r s1 of (_, rn, s2) \<Rightarrow> c_orm_query_op_impl oper ln rn True s2)"

fun cond_ast :: "cond \<Rightarrow> ast_node" where
  "cond_ast (CondEq c v b) = AstOperator (Some ''='') (Some (AstColumn c)) (Some (AstLiteral (escaped b v) b))"
| "cond_ast (CondNeq c v b) = AstOperator (Some ''!='') (Some (AstColumn c)) (Some (AstLiteral (escaped b v) b))"
| "cond_ast (CondGt c v b) = AstOperator (Some ''>'') (Some (AstColumn c)) (Some (AstLiteral (escaped b v) b))"
| "cond_ast (CondLt c v b) = AstOperator (Some ''<'') (Some (AstColumn c)) (Some (AstLiteral (escaped b v) b))"
| "cond_ast (CondLike c v) = AstOperator (Some ''LIKE'') (Some (AstColumn c)) (Some (AstLiteral (escaped True v) True))"
| "cond_ast (CondIn c v) = AstOperator (Some ''IN'') (Some (AstColumn c)) (Some (AstRaw v))"
| "cond_ast (CondRaw sql) = AstRaw sql"
| "cond_ast (CondIsNull c neg) =
     AstOperator (Some (if neg then ''IS NOT NULL'' else ''IS NULL'')) (Some (AstColumn c)) None"
| "cond_ast (CondBetween c l r b) = AstBetween c l r b"
| "cond_ast (CondExists q neg) = AstExists (Some q) neg"
| "cond_ast (CondGroup e) = AstGroup (Some (cond_ast e))"
| "cond_ast (CondOp oper l r) = AstOperator oper (Some (cond_ast l)) (Some (cond_ast r))"

text \<open>The conditions that are either built or reported: all but a BETWEEN over strings with quotes.\<close>

fun cond_safe :: "cond \<Rightarrow> bool" where
  "cond_safe (CondBetween c l r b) = (b \<longrightarrow> quote_free l \<and> quote_free r)"
| "cond_safe (CondGroup e) = cond_safe e"
| "cond_safe (CondOp oper l r) = (cond_safe l \<and> cond_safe r)"
| "cond_safe _ = True"

lemma makes_exists: "makes (c_orm_query_exists_impl (Some q) neg True) (AstExists (Some q) neg)"
  by (simp add: c_orm_query_exists_impl_def makes_node)

lemma makes_then:
  assumes m: "makes m n" and k: "\<And>x. makes (k x) (node x)"
  shows "makes (\<lambda>s. case m s of (_, x, s1) \<Rightarrow> k x s1) (node (Some n))"
  unfolding makes_def
proof (intro allI impI)
  fix s rc x t assume c: "(case m s of (_, x, s1) \<Rightarrow> k x s1) = (rc, x, t)"
  obtain rc1 x1 s1 where a: "m s = (rc1, x1, s1)" by (metis surj_pair)
  with c have b: "k x1 s1 = (rc, x, t)" by simp
  note ma = makesD[OF m a] and kb = makesD[OF k b]
  have "\<not> in_error s1" if "\<not> in_error t" using that kb(1) by (metis tame_def)
  with ma kb show "tame s t \<and> (\<not> in_error t \<longrightarrow> rc = C_ORM_OK \<and> x = Some (node (Some n)))"
    using tame_trans by blast
qed

lemma makes_cond: "cond_safe c \<Longrightarrow> makes (build_cond c) (cond_ast c)"
proof (induction c)
  case (CondGroup e)
  have "makes (c_orm_query_group_node_impl x True) (AstGroup x)" for x
    by (simp add: c_orm_query_group_node_impl_def makes_node)
  from makes_then[of "build_cond e" "cond_ast e", OF _ this] CondGroup show ?case by simp
next
  case (CondOp oper l r)
  have "makes (\<lambda>s. case build_cond r s of (_, rn, s2) \<Rightarrow> c_orm_query_op_impl oper ln rn True s2)
    (AstOperator oper ln (Some (cond_ast r)))" for ln
    using makes_then[of "build_cond r" "cond_ast r" "\<lambda>rn. c_orm_query_op_impl oper ln rn True"] CondOp makes_op by simp
  from makes_then[of "build_cond l" "cond_ast l", OF _ this] CondOp show ?case by simp
qed (simp_all add: c_orm_query_eq_impl_def c_orm_query_neq_impl_def c_orm_query_gt_impl_def c_orm_query_lt_impl_def
      c_orm_query_like_impl_def c_orm_query_in_impl_def makes_compare makes_col makes_lit makes_raw makes_is_null
      makes_between makes_exists)

section \<open>Clauses\<close>

datatype fluent_op =
    OpSelect cptr
  | OpFrom cptr
  | OpFromAlias cptr cptr
  | OpWhere cond
  | OpAndWhere cond
  | OpOrWhere cond
  | OpJoin cptr cptr cond
  | OpLeftJoin cptr cond
  | OpRightJoin cptr cond
  | OpGroupBy cptr
  | OpHaving cond
  | OpOrderBy cptr bool
  | OpLimit "64 word"
  | OpOffset "64 word"
  | OpWith cptr "ast_node list"
  | OpUnion "ast_node list" bool

definition with_cond :: "cond \<Rightarrow> (ast_node option \<Rightarrow> query_state call) \<Rightarrow> query_state call" where
  "with_cond c f s = (case build_cond c s of (_, n, s1) \<Rightarrow> f n s1)"

fun fluent_call :: "fluent_op \<Rightarrow> query_state call" where
  "fluent_call (OpSelect c) = c_orm_query_select_impl c"
| "fluent_call (OpFrom t) = c_orm_query_from_impl t"
| "fluent_call (OpFromAlias t a) = c_orm_query_from_alias_impl t a"
| "fluent_call (OpWhere c) = with_cond c c_orm_query_where_impl"
| "fluent_call (OpAndWhere c) = with_cond c c_orm_query_and_where_impl"
| "fluent_call (OpOrWhere c) = with_cond c c_orm_query_or_where_impl"
| "fluent_call (OpJoin t ty c) = with_cond c (c_orm_query_join_impl t ty)"
| "fluent_call (OpLeftJoin t c) = with_cond c (c_orm_query_left_join_impl t)"
| "fluent_call (OpRightJoin t c) = with_cond c (c_orm_query_right_join_impl t)"
| "fluent_call (OpGroupBy c) = c_orm_query_group_by_impl c"
| "fluent_call (OpHaving c) = with_cond c c_orm_query_having_impl"
| "fluent_call (OpOrderBy c d) = c_orm_query_order_by_impl c d"
| "fluent_call (OpLimit n) = c_orm_query_limit_impl n"
| "fluent_call (OpOffset n) = c_orm_query_offset_impl n"
| "fluent_call (OpWith a q) = c_orm_query_with_impl a (Some q)"
| "fluent_call (OpUnion q al) = c_orm_query_union_impl (Some q) al"

text \<open>The specification: a new condition is joined to the newest WHERE, every other clause is put in front.\<close>

definition joined :: "string \<Rightarrow> ast_node \<Rightarrow> ast_node list \<Rightarrow> ast_node list" where
  "joined oper n ns = (case split_where ns of
     None \<Rightarrow> AstWhere (Some n) # ns
   | Some (before, c, after) \<Rightarrow> before @
       AstWhere (Some (case c of None \<Rightarrow> n | Some c \<Rightarrow> AstOperator (Some oper) (Some c) (Some n))) # after)"

fun apply_op :: "fluent_op \<Rightarrow> ast_node list \<Rightarrow> ast_node list" where
  "apply_op (OpSelect c) ns = AstSelect c False # ns"
| "apply_op (OpFrom t) ns = AstFrom t None # ns"
| "apply_op (OpFromAlias t a) ns = AstFrom t a # ns"
| "apply_op (OpWhere c) ns = AstWhere (Some (cond_ast c)) # ns"
| "apply_op (OpAndWhere c) ns = joined ''AND'' (cond_ast c) ns"
| "apply_op (OpOrWhere c) ns = joined ''OR'' (cond_ast c) ns"
| "apply_op (OpJoin t ty c) ns = AstJoin ty t (Some (cond_ast c)) # ns"
| "apply_op (OpLeftJoin t c) ns = AstJoin (Some ''LEFT'') t (Some (cond_ast c)) # ns"
| "apply_op (OpRightJoin t c) ns = AstJoin (Some ''RIGHT'') t (Some (cond_ast c)) # ns"
| "apply_op (OpGroupBy c) ns = AstGroupBy c # ns"
| "apply_op (OpHaving c) ns = AstHaving (Some (cond_ast c)) # ns"
| "apply_op (OpOrderBy c d) ns = AstOrderBy c d # ns"
| "apply_op (OpLimit n) ns = AstLimit n # ns"
| "apply_op (OpOffset n) ns = AstOffset n # ns"
| "apply_op (OpWith a q) ns = AstWith a (Some q) # ns"
| "apply_op (OpUnion q al) ns = AstUnion al (Some q) # ns"

fun op_safe :: "fluent_op \<Rightarrow> bool" where
  "op_safe (OpWhere c) = cond_safe c"
| "op_safe (OpAndWhere c) = cond_safe c"
| "op_safe (OpOrWhere c) = cond_safe c"
| "op_safe (OpJoin t ty c) = cond_safe c"
| "op_safe (OpLeftJoin t c) = cond_safe c"
| "op_safe (OpRightJoin t c) = cond_safe c"
| "op_safe (OpHaving c) = cond_safe c"
| "op_safe _ = True"

definition applies :: "query_state call \<Rightarrow> (ast_node list \<Rightarrow> ast_node list) \<Rightarrow> bool" where
  "applies f g \<longleftrightarrow> (\<forall>s rc t. f s = (rc, t) \<longrightarrow> query_slack t = query_slack s
     \<and> (rc = C_ORM_OK \<longrightarrow> \<not> in_error s \<and> \<not> in_error t \<and> clauses t = g (clauses s)))"

lemma appliesD:
  assumes "applies f g" "f s = (rc, t)"
  shows "query_slack t = query_slack s" "rc = C_ORM_OK \<Longrightarrow> \<not> in_error s" "rc = C_ORM_OK \<Longrightarrow> \<not> in_error t"
    "rc = C_ORM_OK \<Longrightarrow> clauses t = g (clauses s)"
  using assms unfolding applies_def by blast+

lemma applies_add_clause: "applies (add_clause args strs n) (\<lambda>ns. n # ns)"
  unfolding applies_def
proof (intro allI impI)
  fix s rc t assume a: "add_clause args strs n s = (rc, t)"
  define f where "f = make args strs (sizeof_node n)
    (\<lambda>(q, h). (C_ORM_OK, Some (), (Some (q\<lparr>ast_head := n # ast_head q\<rparr>), h)))"
  obtain rc1 x t1 where fm: "f s = (rc1, x, t1)" by (metis surj_pair)
  with a have t: "rc1 = rc" "t1 = t" by (simp_all add: add_clause_def f_def)
  note m = fm[unfolded f_def]
  from m show "query_slack t = query_slack s
     \<and> (rc = C_ORM_OK \<longrightarrow> \<not> in_error s \<and> \<not> in_error t \<and> clauses t = n # clauses s)"
    unfolding t by (cases rule: make_cases) (auto simp: query_slack_def query_owned_def in_error_def clauses_def)
qed

lemma applies_with_cond:
  assumes "cond_safe c" and "\<And>n. applies (f n) (g n)"
  shows "applies (with_cond c f) (g (Some (cond_ast c)))"
  unfolding applies_def
proof (intro allI impI)
  fix s rc t assume w: "with_cond c f s = (rc, t)"
  obtain rc1 n s1 where b: "build_cond c s = (rc1, n, s1)" by (metis surj_pair)
  with w have f: "f n s1 = (rc, t)" by (simp add: with_cond_def)
  note mb = makesD[OF makes_cond[OF assms(1)] b] and af = appliesD[OF assms(2) f]
  have "\<not> in_error s \<and> \<not> in_error s1" if "rc = C_ORM_OK" using af(2)[OF that] mb(1) by (auto simp: tame_def)
  with mb af show "query_slack t = query_slack s
     \<and> (rc = C_ORM_OK \<longrightarrow> \<not> in_error s \<and> \<not> in_error t \<and> clauses t = g (Some (cond_ast c)) (clauses s))"
    by (auto simp: tame_def)
qed

definition joined_opt :: "string \<Rightarrow> ast_node option \<Rightarrow> ast_node list \<Rightarrow> ast_node list" where
  "joined_opt oper n ns = (case n of None \<Rightarrow> ns | Some m \<Rightarrow> joined oper m ns)"

lemma applies_combine: "applies (combine_where oper n) (joined_opt oper n)"
  unfolding applies_def
proof (intro allI impI)
  fix s rc t assume c: "combine_where oper n s = (rc, t)"
  obtain query h where s: "s = (query, h)" by (cases s)
  show "query_slack t = query_slack s
     \<and> (rc = C_ORM_OK \<longrightarrow> \<not> in_error s \<and> \<not> in_error t \<and> clauses t = joined_opt oper n (clauses s))"
  proof (cases "in_error s \<or> n = None")
    case True
    with c s show ?thesis by (auto simp: combine_where_def in_error_def split: option.splits if_splits)
  next
    case False
    then obtain q m where q: "query = Some q" "\<not> q_error q" "n = Some m"
      using s by (auto simp: in_error_def split: option.splits)
    consider "split_where (ast_head q) = None" | before after where "split_where (ast_head q) = Some (before, None, after)"
      | before w after where "split_where (ast_head q) = Some (before, Some w, after)"
      by (metis option.exhaust surj_pair)
    then show ?thesis
    proof cases
      case 1
      with c s q have "c_orm_query_where_impl n s = (rc, t)" by (simp add: combine_where_def)
      from appliesD[OF applies_add_clause this[unfolded c_orm_query_where_impl_def]] 1 s q show ?thesis
        by (simp add: joined_opt_def joined_def clauses_def)
    next
      case 2
      with c s q show ?thesis
        by (auto simp: combine_where_def query_slack_def query_owned_def in_error_def clauses_def joined_opt_def joined_def)
    next
      case 3
      obtain rc1 x query1 h1 where o: "c_orm_query_op_impl (Some oper) (Some w) n True s = (rc1, x, (query1, h1))"
        by (metis surj_pair)
      note mo = makesD[OF makes_op o]
      from c s q 3 o have t: "rc = (if q_error (the query1) then C_ORM_ERROR_MEMORY else C_ORM_OK)"
        "t = (map_option (\<lambda>q. q\<lparr>ast_head := before @ AstWhere x # after\<rparr>) query1, h1)"
        by (auto simp: combine_where_def)
      have "query1 \<noteq> None"
        using o s q by (auto simp: c_orm_query_op_impl_def make_node_def make_def fail_query_def split: prod.splits if_splits)
      then obtain q1 where q1: "query1 = Some q1" by blast
      have "in_error (Some q1, h1) = q_error q1" by (simp add: in_error_def)
      with t q1 mo False s q 3 show ?thesis
        by (auto simp: tame_def query_slack_def query_owned_def in_error_def clauses_def joined_opt_def joined_def
            split: if_splits)
    qed
  qed
qed

lemma applies_ext: "applies f g \<Longrightarrow> (\<And>ns. g ns = g' ns) \<Longrightarrow> applies f g'"
  by (simp add: applies_def)

lemma applies_cond_clause:
  assumes "cond_safe c" and "\<And>n. f n = add_clause True (strs n) (node n)" and "\<And>ns. g ns = node (Some (cond_ast c)) # ns"
  shows "applies (with_cond c f) g"
  by (rule applies_ext[OF applies_with_cond[OF assms(1), where g = "\<lambda>n ns. node n # ns"]])
     (simp_all add: assms applies_add_clause)

lemma applies_cond_join:
  assumes "cond_safe c" and "\<And>ns. g ns = joined oper (cond_ast c) ns"
  shows "applies (with_cond c (combine_where oper)) g"
  by (rule applies_ext[OF applies_with_cond[OF assms(1), where g = "joined_opt oper"]])
     (simp_all add: assms(2) applies_combine joined_opt_def)

lemma applies_clause: "(\<And>ns. g ns = node # ns) \<Longrightarrow> applies (add_clause args strs node) g"
  by (rule applies_ext[OF applies_add_clause]) simp

lemmas clause_defs = c_orm_query_select_impl_def c_orm_query_from_impl_def c_orm_query_from_alias_impl_def
  c_orm_query_group_by_impl_def c_orm_query_order_by_impl_def c_orm_query_limit_impl_def c_orm_query_offset_impl_def
  c_orm_query_with_impl_def c_orm_query_union_impl_def

lemmas cond_clause_defs = c_orm_query_where_impl_def c_orm_query_having_impl_def c_orm_query_join_impl_def
  c_orm_query_left_join_impl_def c_orm_query_right_join_impl_def

lemma fluent_call_applies:
  assumes "op_safe oper"
  shows "applies (fluent_call oper) (apply_op oper)"
proof (cases oper)
  case (OpWhere c)
  with assms show ?thesis
    by (simp add: applies_cond_clause[where strs = "\<lambda>_. []" and node = AstWhere] cond_clause_defs)
next
  case (OpHaving c)
  with assms show ?thesis
    by (simp add: applies_cond_clause[where strs = "\<lambda>_. []" and node = AstHaving] cond_clause_defs)
next
  case (OpJoin t ty c)
  with assms show ?thesis
    by (simp add: applies_cond_clause[where strs = "\<lambda>_. [t, ty]" and node = "AstJoin ty t"] cond_clause_defs)
next
  case (OpLeftJoin t c)
  with assms show ?thesis
    by (simp add: applies_cond_clause[where strs = "\<lambda>_. [t, Some ''LEFT'']" and node = "AstJoin (Some ''LEFT'') t"]
        cond_clause_defs)
next
  case (OpRightJoin t c)
  with assms show ?thesis
    by (simp add: applies_cond_clause[where strs = "\<lambda>_. [t, Some ''RIGHT'']" and node = "AstJoin (Some ''RIGHT'') t"]
        cond_clause_defs)
next
  case (OpAndWhere c)
  with assms show ?thesis by (simp add: applies_cond_join c_orm_query_and_where_impl_def)
next
  case (OpOrWhere c)
  with assms show ?thesis by (simp add: applies_cond_join c_orm_query_or_where_impl_def)
qed (simp_all add: applies_clause clause_defs)

lemma fluent_run_applies:
  assumes "list_all op_safe ops" and "run_steps (map fluent_call ops) s = (rc, t)"
  shows "query_slack t = query_slack s" "rc = C_ORM_OK \<Longrightarrow> clauses t = fold apply_op ops (clauses s)"
proof -
  have "query_slack t = query_slack s \<and> (rc = C_ORM_OK \<longrightarrow> clauses t = fold apply_op ops (clauses s))"
    using assms
  proof (induction ops arbitrary: s)
    case (Cons oper ops)
    obtain rc1 u where u: "fluent_call oper s = (rc1, u)" by (metis surj_pair)
    note au = appliesD[OF fluent_call_applies u]
    show ?case
    proof (cases "rc1 = C_ORM_OK")
      case True
      with u Cons.prems have "run_steps (map fluent_call ops) u = (rc, t)" by simp
      with Cons.IH[OF _ this] Cons.prems(1) au True show ?thesis by simp
    next
      case False
      with u Cons.prems au show ?thesis by simp
    qed
  qed simp
  then show "query_slack t = query_slack s" "rc = C_ORM_OK \<Longrightarrow> clauses t = fold apply_op ops (clauses s)" by simp_all
qed

section \<open>Success\<close>

definition usable :: "query_state \<Rightarrow> bool" where
  "usable s \<longleftrightarrow> (\<exists>q a. fst s = Some q \<and> \<not> q_error q \<and> q_arena q = Some a) \<and> no_oom (snd s)"

definition short :: "cptr \<Rightarrow> bool" where
  "short v \<longleftrightarrow> (case v of None \<Rightarrow> True | Some t \<Rightarrow> length t < 2 ^ 62)"

fun cond_short :: "cond \<Rightarrow> bool" where
  "cond_short (CondEq c v b) = (short c \<and> short v)"
| "cond_short (CondNeq c v b) = (short c \<and> short v)"
| "cond_short (CondGt c v b) = (short c \<and> short v)"
| "cond_short (CondLt c v b) = (short c \<and> short v)"
| "cond_short (CondLike c v) = (short c \<and> short v)"
| "cond_short (CondIn c v) = (short c \<and> short v)"
| "cond_short (CondRaw sql) = short sql"
| "cond_short (CondIsNull c neg) = short c"
| "cond_short (CondBetween c l r b) = (short l \<and> short r)"
| "cond_short (CondExists q neg) = True"
| "cond_short (CondGroup e) = cond_short e"
| "cond_short (CondOp oper l r) = (cond_short l \<and> cond_short r)"

fun op_short :: "fluent_op \<Rightarrow> bool" where
  "op_short (OpSelect c) = short c"
| "op_short (OpFrom t) = short t"
| "op_short (OpWhere c) = cond_short c"
| "op_short (OpAndWhere c) = cond_short c"
| "op_short (OpOrWhere c) = cond_short c"
| "op_short (OpJoin t ty c) = (short t \<and> short ty \<and> cond_short c)"
| "op_short (OpLeftJoin t c) = (short t \<and> cond_short c)"
| "op_short (OpRightJoin t c) = (short t \<and> cond_short c)"
| "op_short (OpHaving c) = cond_short c"
| "op_short (OpOrderBy c d) = short c"
| "op_short _ = True"

definition supplies :: "'a maker \<Rightarrow> bool" where
  "supplies m \<longleftrightarrow> (\<forall>s rc x t. usable s \<longrightarrow> m s = (rc, x, t) \<longrightarrow> usable t)"

lemma q_alloc_usable:
  assumes "usable (Some q, h)" and "n \<noteq> 0" and "q_alloc n (q, h) = (ok, (q', h'))"
  shows "ok \<and> usable (Some q', h')"
  using assms by (auto simp: usable_def q_alloc_def c_orm_arena_alloc_def Let_def split: if_splits prod.splits)

lemma q_strdup_usable:
  assumes "usable (Some q, h)" and "short str" and "q_strdup str (q, h) = (ok, (q', h'))"
  shows "ok \<and> usable (Some q', h')"
proof (cases str)
  case None
  with assms show ?thesis by (auto simp: q_strdup_def c_orm_arena_strdup_def usable_def split: if_splits)
next
  case (Some tx)
  with assms(2) have "unat (of_nat (length tx + 1) :: 64 word) = length tx + 1"
    by (intro unat_strlen) (simp add: short_def)
  then have "(of_nat (length tx + 1) :: 64 word) \<noteq> 0" by (metis Suc_eq_plus1 nat.distinct(2) unsigned_0)
  from Some assms this show ?thesis
    by (auto simp: q_strdup_def c_orm_arena_strdup_def usable_def c_orm_arena_alloc_def Let_def
        split: if_splits prod.splits)
qed

lemma q_strdups_usable:
  "usable (Some q, h) \<Longrightarrow> list_all short strs \<Longrightarrow> q_strdups strs (q, h) = (ok, (q', h')) \<Longrightarrow> ok \<and> usable (Some q', h')"
proof (induction strs arbitrary: q h)
  case (Cons x xs)
  obtain ok1 q1 h1 where u: "q_strdup x (q, h) = (ok1, (q1, h1))" by (metis surj_pair)
  from q_strdup_usable[OF Cons.prems(1) _ u] Cons.IH[of q1 h1] Cons.prems u show ?case by (auto split: if_splits)
qed simp

lemma escape_usable:
  assumes "usable (Some q, h)" and "short v" and "c_orm_escape_literal v (q, h) = (rc, v', (q', h'))"
  shows "rc = C_ORM_OK \<and> usable (Some q', h')"
proof (cases "quote_free v")
  case True
  with assms escape_quote_free[OF True, of "(q, h)"] show ?thesis by simp
next
  case False
  then obtain t where t: "v = Some t" "count_quotes t \<noteq> 0" by (auto simp: quote_free_def split: option.splits)
  have "count_quotes t \<le> length t" by (simp add: count_quotes_def)
  with assms(2) t(1) have "length t + count_quotes t + 1 < 2 ^ 64" by (simp add: short_def)
  then have "unat (of_nat (length t + count_quotes t + 1) :: 64 word) = length t + count_quotes t + 1"
    by (subst unat_of_nat) simp
  then have n: "(of_nat (length t + count_quotes t + 1) :: 64 word) \<noteq> 0" by (metis Suc_eq_plus1 nat.distinct(2) unsigned_0)
  obtain ok q2 h2 where a: "q_alloc (of_nat (length t + count_quotes t + 1)) (q, h) = (ok, (q2, h2))" by (metis surj_pair)
  from q_alloc_usable[OF assms(1) n a] a assms(3) t show ?thesis
    by (auto simp: c_orm_escape_literal_def)
qed

lemma sizeof_nonzero: "sizeof_node n \<noteq> 0"
  by (cases n) simp_all

lemma make_usable:
  assumes "usable s" and "args" and "list_all short strs" and "n \<noteq> 0" and "make args strs n fill s = (rc, x, t)"
  shows "\<exists>q h. usable (Some q, h) \<and> fill (q, h) = (rc, x, t)"
proof -
  from assms(1) obtain q h where s: "s = (Some q, h)" "\<not> q_error q" by (cases s) (auto simp: usable_def)
  obtain ok q1 h1 where u: "q_strdups strs (q, h) = (ok, (q1, h1))" by (metis surj_pair)
  obtain ok2 q2 h2 where v: "q_alloc n (q1, h1) = (ok2, (q2, h2))" by (metis surj_pair)
  from q_strdups_usable[OF assms(1)[unfolded s(1)] assms(3) u] have u1: "ok" "usable (Some q1, h1)" by simp_all
  from q_alloc_usable[OF u1(2) assms(4) v] have v1: "ok2" "usable (Some q2, h2)" by simp_all
  with u1 u v s assms(2,5) show ?thesis by (auto simp: make_def)
qed

lemma supplies_node: "list_all short strs \<Longrightarrow> supplies (make_node True strs node)"
  unfolding supplies_def make_node_def using make_usable[OF _ TrueI _ sizeof_nonzero] by fastforce

lemma supplies_lit:
  assumes "short v"
  shows "supplies (c_orm_query_lit_impl v b True)"
  unfolding supplies_def
proof (intro allI impI)
  fix s rc x t assume s: "usable s" and l: "c_orm_query_lit_impl v b True s = (rc, x, t)"
  from make_usable[OF s TrueI _ sizeof_nonzero l[unfolded c_orm_query_lit_impl_def]] obtain q h where
    q: "usable (Some q, h)" and f: "(if \<not> b then (C_ORM_OK, Some (AstLiteral v b), (Some (fst (q, h)), snd (q, h)))
       else case c_orm_escape_literal v (q, h) of (rc, value, s1) \<Rightarrow>
         if value = None \<and> v \<noteq> None then (C_ORM_ERROR_MEMORY, None, fail_query s1)
         else (C_ORM_OK, Some (AstLiteral value b), (Some (fst s1), snd s1))) = (rc, x, t)" by auto
  obtain rc1 v' q1 h1 where e: "c_orm_escape_literal v (q, h) = (rc1, v', (q1, h1))" by (metis surj_pair)
  from escape_usable[OF q assms e] have "rc1 = C_ORM_OK" "usable (Some q1, h1)" by simp_all
  moreover from this(1) e have "v' = None \<Longrightarrow> v = None"
    by (auto simp: c_orm_escape_literal_def split: option.splits if_splits prod.splits)
  ultimately show "usable t" using q f e by (auto split: if_splits)
qed

lemma suppliesD: "supplies m \<Longrightarrow> usable s \<Longrightarrow> m s = (rc, x, t) \<Longrightarrow> usable t"
  unfolding supplies_def by blast

lemma supplies_then:
  assumes "supplies m" and "\<And>x. supplies (k x)"
  shows "supplies (\<lambda>s. case m s of (_, x, s1) \<Rightarrow> k x s1)"
  unfolding supplies_def
proof (intro allI impI)
  fix s rc x t assume s: "usable s" and c: "(case m s of (_, x, s1) \<Rightarrow> k x s1) = (rc, x, t)"
  obtain rc1 x1 s1 where a: "m s = (rc1, x1, s1)" by (metis surj_pair)
  with c have "k x1 s1 = (rc, x, t)" by simp
  from suppliesD[OF assms(2) suppliesD[OF assms(1) s a] this] show "usable t" .
qed

lemma supplies_compare:
  assumes "supplies left" and "supplies right"
  shows "supplies (compare_with left right oper True)"
proof -
  have o: "supplies (c_orm_query_op_impl (Some oper) l r True)" for l r
    by (simp add: c_orm_query_op_impl_def supplies_node)
  have "supplies (\<lambda>s. case right s of (_, r, s2) \<Rightarrow> c_orm_query_op_impl (Some oper) l r True s2)" for l
    by (rule supplies_then[OF assms(2) o])
  from supplies_then[OF assms(1) this] show ?thesis by (simp add: compare_with_def[abs_def])
qed

lemma supplies_col: "short c \<Longrightarrow> supplies (c_orm_query_col_impl c True)"
  by (simp add: c_orm_query_col_impl_def supplies_node)

lemma supplies_raw: "short c \<Longrightarrow> supplies (c_orm_query_raw_impl c True)"
  by (simp add: c_orm_query_raw_impl_def supplies_node)

lemma supplies_is_null:
  assumes "short c"
  shows "supplies (c_orm_query_is_null_impl c neg True)"
  unfolding supplies_def
proof (intro allI impI)
  fix s rc x t assume s: "usable s" and l: "c_orm_query_is_null_impl c neg True s = (rc, x, t)"
  from make_usable[OF s TrueI _ sizeof_nonzero l[unfolded c_orm_query_is_null_impl_def]] obtain q h where
    q: "usable (Some q, h)" and f: "(case c_orm_query_col_impl c True (Some q, h) of (_, left, s1) \<Rightarrow>
         (C_ORM_OK, Some (AstOperator (Some (if neg then ''IS NOT NULL'' else ''IS NULL'')) left None), s1)) = (rc, x, t)"
    by auto
  obtain rc1 n s1 where c: "c_orm_query_col_impl c True (Some q, h) = (rc1, n, s1)" by (metis surj_pair)
  from suppliesD[OF supplies_col[OF assms] q c] f c show "usable t" by simp
qed

lemma supplies_between:
  assumes "short low" and "short high"
  shows "supplies (c_orm_query_between_impl c low high b True)"
  unfolding supplies_def
proof (intro allI impI)
  fix s rc x t assume s: "usable s" and l: "c_orm_query_between_impl c low high b True s = (rc, x, t)"
  from make_usable[OF s TrueI _ sizeof_nonzero l[unfolded c_orm_query_between_impl_def]] obtain q h where
    q: "usable (Some q, h)" and f: "(if \<not> b then (C_ORM_OK, Some (AstBetween c low high b), (Some (fst (q, h)), snd (q, h)))
       else case c_orm_escape_literal low (q, h) of (_, low', s1) \<Rightarrow>
         case c_orm_escape_literal high s1 of (_, high', s2) \<Rightarrow>
           (C_ORM_OK, Some (AstBetween c low' high' b), (Some (fst s2), snd s2))) = (rc, x, t)" by auto
  obtain rc1 v1 q1 h1 where e1: "c_orm_escape_literal low (q, h) = (rc1, v1, (q1, h1))" by (metis surj_pair)
  obtain rc2 v2 q2 h2 where e2: "c_orm_escape_literal high (q1, h1) = (rc2, v2, (q2, h2))" by (metis surj_pair)
  from escape_usable[OF q assms(1) e1] escape_usable[OF _ assms(2) e2] q f e1 e2 show "usable t"
    by (auto split: if_splits)
qed

lemma supplies_cond: "cond_short c \<Longrightarrow> supplies (build_cond c)"
proof (induction c)
  case (CondGroup e)
  have "supplies (c_orm_query_group_node_impl x True)" for x
    by (simp add: c_orm_query_group_node_impl_def supplies_node)
  from supplies_then[of "build_cond e", OF _ this] CondGroup show ?case by simp
next
  case (CondOp oper l r)
  have o: "supplies (c_orm_query_op_impl oper ln rn True)" for ln rn
    by (simp add: c_orm_query_op_impl_def supplies_node)
  have "supplies (\<lambda>s. case build_cond r s of (_, rn, s2) \<Rightarrow> c_orm_query_op_impl oper ln rn True s2)" for ln
    using supplies_then[of "build_cond r", OF _ o] CondOp by simp
  from supplies_then[of "build_cond l", OF _ this] CondOp show ?case by simp
qed (simp_all add: c_orm_query_eq_impl_def c_orm_query_neq_impl_def c_orm_query_gt_impl_def c_orm_query_lt_impl_def
      c_orm_query_like_impl_def c_orm_query_in_impl_def supplies_compare supplies_col supplies_lit supplies_raw
      supplies_is_null supplies_between c_orm_query_exists_impl_def supplies_node)

lemma serves_add_clause:
  assumes "list_all short strs"
  shows "serves usable (add_clause True strs n)"
  unfolding serves_def
proof (intro allI impI)
  fix s assume s: "usable s"
  define f where "f = make True strs (sizeof_node n)
    (\<lambda>(q, h). (C_ORM_OK, Some (), (Some (q\<lparr>ast_head := n # ast_head q\<rparr>), h)))"
  obtain rc x t where m: "f s = (rc, x, t)" by (metis surj_pair)
  from make_usable[OF s TrueI assms sizeof_nonzero m[unfolded f_def]] have "rc = C_ORM_OK" "usable t"
    by (auto simp: usable_def)
  with m show "\<exists>t. add_clause True strs n s = (C_ORM_OK, t) \<and> usable t"
    by (simp add: add_clause_def f_def)
qed

lemma serves_combine: "n \<noteq> None \<Longrightarrow> serves usable (combine_where oper n)"
  unfolding serves_def
proof (intro allI impI)
  fix s assume n: "n \<noteq> None" and s: "usable s"
  then obtain q h where q: "s = (Some q, h)" "\<not> q_error q" by (cases s) (auto simp: usable_def)
  consider "split_where (ast_head q) = None" | before after where "split_where (ast_head q) = Some (before, None, after)"
    | before w after where "split_where (ast_head q) = Some (before, Some w, after)"
    by (metis option.exhaust surj_pair)
  then show "\<exists>t. combine_where oper n s = (C_ORM_OK, t) \<and> usable t"
  proof cases
    case 1
    have "serves usable (c_orm_query_where_impl n)" by (simp add: c_orm_query_where_impl_def serves_add_clause)
    from servesD[OF this s] 1 q n show ?thesis by (simp add: combine_where_def)
  next
    case 2
    with q n s show ?thesis by (auto simp: combine_where_def usable_def)
  next
    case 3
    obtain rc x q1 h1 where o: "c_orm_query_op_impl (Some oper) (Some w) n True s = (rc, x, (q1, h1))" by (metis surj_pair)
    have "supplies (c_orm_query_op_impl (Some oper) (Some w) n True)"
      by (simp add: c_orm_query_op_impl_def supplies_node)
    from suppliesD[OF this s o] 3 q n o show ?thesis by (auto simp: combine_where_def usable_def)
  qed
qed

lemma serves_with_cond:
  assumes "cond_short c" and "cond_safe c" and "\<And>n. n \<noteq> None \<Longrightarrow> serves usable (f n)"
  shows "serves usable (with_cond c f)"
  unfolding serves_def
proof (intro allI impI)
  fix s assume s: "usable s"
  obtain rc n s1 where b: "build_cond c s = (rc, n, s1)" by (metis surj_pair)
  from suppliesD[OF supplies_cond[OF assms(1)] s b] have u: "usable s1" .
  then have "\<not> in_error s1" by (auto simp: usable_def in_error_def)
  from makesD(3)[OF makes_cond[OF assms(2)] b this] have "n \<noteq> None" by simp
  from servesD[OF assms(3)[OF this] u] b show "\<exists>t. with_cond c f s = (C_ORM_OK, t) \<and> usable t"
    by (simp add: with_cond_def)
qed

lemma short_words [simp]: "short (Some ''LEFT'')" "short (Some ''RIGHT'')" "short (Some ''*'')"
  by (simp_all add: short_def)

lemma serves_fluent: "op_short oper \<Longrightarrow> op_safe oper \<Longrightarrow> serves usable (fluent_call oper)"
  by (cases oper) (simp_all add: clause_defs cond_clause_defs serves_add_clause serves_with_cond serves_combine
      c_orm_query_and_where_impl_def c_orm_query_or_where_impl_def)

section \<open>Copies\<close>

definition as_state :: "c_orm_query \<times> heap \<Rightarrow> query_state" where
  "as_state s = (Some (fst s), snd s)"

lemma alloc_slack: "q_alloc n s = (ok, s') \<Longrightarrow> query_slack (as_state s') = query_slack (as_state s)"
  using q_alloc_effect[of n "fst s" "snd s" ok "fst s'" "snd s'"] by (simp add: as_state_def)

lemma clone_slack: "clone_node n s = (m, t) \<Longrightarrow> query_slack (as_state t) = query_slack (as_state s)"
proof (induction n arbitrary: s m t)
  case (AstWhere c)
  then show ?case
    by (cases c) (auto simp: clone_node.simps split: prod.splits if_splits dest!: alloc_slack)
next
  case (AstJoin ty tb c)
  then show ?case
    by (cases c) (auto simp: clone_node.simps split: prod.splits if_splits dest!: alloc_slack)
next
  case (AstHaving c)
  then show ?case
    by (cases c) (auto simp: clone_node.simps split: prod.splits if_splits dest!: alloc_slack)
next
  case (AstGroup c)
  then show ?case
    by (cases c) (auto simp: clone_node.simps split: prod.splits if_splits dest!: alloc_slack)
next
  case (AstOperator oper l r)
  obtain ok s1 where a: "q_alloc (sizeof_node (AstOperator oper l r)) s = (ok, s1)" by (metis surj_pair)
  obtain l' s2 where b: "clone_child l s1 = (l', s2)" by (metis surj_pair)
  obtain r' s3 where c: "clone_child r s2 = (r', s3)" by (metis surj_pair)
  have "query_slack (as_state s2) = query_slack (as_state s1)"
    using b AstOperator.IH(1) by (cases l) auto
  moreover have "query_slack (as_state s3) = query_slack (as_state s2)"
    using c AstOperator.IH(2) by (cases r) auto
  ultimately show ?case
    using AstOperator.prems alloc_slack[OF a] a b c
    by (subst (asm) clone_node.simps) (auto split: if_splits)
qed (auto simp: clone_node.simps split: prod.splits if_splits dest!: alloc_slack)

lemma alloc_usable: "usable (as_state s) \<Longrightarrow> q_alloc (sizeof_node n) s = (ok, s') \<Longrightarrow> ok \<and> usable (as_state s')"
  using q_alloc_usable[OF _ sizeof_nonzero, of "fst s" "snd s" n ok "fst s'" "snd s'"] by (simp add: as_state_def)

lemma child_usable:
  assumes "\<And>n m t. c = Some n \<Longrightarrow> clone_node n s = (m, t) \<Longrightarrow> m = Some n \<and> usable (as_state t)"
    and "usable (as_state s)" and "clone_child c s = (c', t)"
  shows "c' = c \<and> usable (as_state t)"
proof (cases c)
  case None
  with assms(2,3) show ?thesis by simp
next
  case (Some n)
  with assms(1)[OF Some, of c' t] assms(3) show ?thesis by simp
qed

fun has_children :: "ast_node \<Rightarrow> bool" where
  "has_children (AstWhere _) = True"
| "has_children (AstJoin _ _ _) = True"
| "has_children (AstHaving _) = True"
| "has_children (AstOperator _ _ _) = True"
| "has_children (AstGroup _) = True"
| "has_children _ = False"

lemma clone_leaf:
  "\<not> has_children n \<Longrightarrow> clone_node n s =
     (case q_alloc (sizeof_node n) s of (ok, s1) \<Rightarrow> if \<not> ok then (None, s1) else (Some n, s1))"
  by (subst clone_node.simps) (cases n; simp split: prod.split)

lemma leaf_usable:
  assumes "\<not> has_children n"
    and "usable (as_state s)" and "clone_node n s = (m, t)"
  shows "m = Some n \<and> usable (as_state t)"
proof -
  obtain ok s1 where a: "q_alloc (sizeof_node n) s = (ok, s1)" by (metis surj_pair)
  from alloc_usable[OF assms(2) a] clone_leaf[OF assms(1)] assms(3) a show ?thesis by simp
qed

lemma clone_usable: "usable (as_state s) \<Longrightarrow> clone_node n s = (m, t) \<Longrightarrow> m = Some n \<and> usable (as_state t)"
proof (induction n arbitrary: s m t)
  case (AstWhere c)
  obtain ok s1 where a: "q_alloc (sizeof_node (AstWhere c)) s = (ok, s1)" by (metis surj_pair)
  from alloc_usable[OF AstWhere.prems(1) a] have s1: "ok" "usable (as_state s1)" by simp_all
  obtain c' s2 where b: "clone_child c s1 = (c', s2)" by (metis surj_pair)
  from child_usable[OF AstWhere.IH[OF _ s1(2)] s1(2) b] s1(1) AstWhere.prems(2) a b
  show ?case by (subst (asm) clone_node.simps) auto
next
  case (AstJoin ty tb c)
  obtain ok s1 where a: "q_alloc (sizeof_node (AstJoin ty tb c)) s = (ok, s1)" by (metis surj_pair)
  from alloc_usable[OF AstJoin.prems(1) a] have s1: "ok" "usable (as_state s1)" by simp_all
  obtain c' s2 where b: "clone_child c s1 = (c', s2)" by (metis surj_pair)
  from child_usable[OF AstJoin.IH[OF _ s1(2)] s1(2) b] s1(1) AstJoin.prems(2) a b
  show ?case by (subst (asm) clone_node.simps) auto
next
  case (AstHaving c)
  obtain ok s1 where a: "q_alloc (sizeof_node (AstHaving c)) s = (ok, s1)" by (metis surj_pair)
  from alloc_usable[OF AstHaving.prems(1) a] have s1: "ok" "usable (as_state s1)" by simp_all
  obtain c' s2 where b: "clone_child c s1 = (c', s2)" by (metis surj_pair)
  from child_usable[OF AstHaving.IH[OF _ s1(2)] s1(2) b] s1(1) AstHaving.prems(2) a b
  show ?case by (subst (asm) clone_node.simps) auto
next
  case (AstGroup c)
  obtain ok s1 where a: "q_alloc (sizeof_node (AstGroup c)) s = (ok, s1)" by (metis surj_pair)
  from alloc_usable[OF AstGroup.prems(1) a] have s1: "ok" "usable (as_state s1)" by simp_all
  obtain c' s2 where b: "clone_child c s1 = (c', s2)" by (metis surj_pair)
  from child_usable[OF AstGroup.IH[OF _ s1(2)] s1(2) b] s1(1) AstGroup.prems(2) a b
  show ?case by (subst (asm) clone_node.simps) auto
next
  case (AstOperator oper l r)
  obtain ok s1 where a: "q_alloc (sizeof_node (AstOperator oper l r)) s = (ok, s1)" by (metis surj_pair)
  from alloc_usable[OF AstOperator.prems(1) a] have s1: "ok" "usable (as_state s1)" by simp_all
  obtain l' s2 where b: "clone_child l s1 = (l', s2)" by (metis surj_pair)
  from child_usable[OF AstOperator.IH(1)[OF _ s1(2)] s1(2) b] have lb: "l' = l" "usable (as_state s2)" by simp_all
  obtain r' s3 where c: "clone_child r s2 = (r', s3)" by (metis surj_pair)
  from child_usable[OF AstOperator.IH(2)[OF _ lb(2)] lb(2) c] lb AstOperator.prems(2) s1 a b c show ?case by (subst (asm) clone_node.simps) auto
qed (rule leaf_usable; simp)+

lemma clone_nodes_usable:
  "usable (as_state s) \<Longrightarrow> clone_nodes ns s = (ms, t) \<Longrightarrow> ms = Some ns \<and> usable (as_state t)"
proof (induction ns arbitrary: s ms t)
  case (Cons n ns)
  obtain m u where c: "clone_node n s = (m, u)" by (metis surj_pair)
  obtain ms' v where d: "clone_nodes ns u = (ms', v)" by (metis surj_pair)
  from clone_usable[OF Cons.prems(1) c] Cons.IH[OF _ d] Cons.prems(2) c d show ?case by auto
qed simp

lemma clone_nodes_slack: "clone_nodes ns s = (ms, t) \<Longrightarrow> query_slack (as_state t) = query_slack (as_state s)"
proof (induction ns arbitrary: s ms t)
  case (Cons n ns)
  obtain m u where c: "clone_node n s = (m, u)" by (metis surj_pair)
  obtain ms' v where d: "clone_nodes ns u = (ms', v)" by (metis surj_pair)
  from clone_slack[OF c] Cons.IH[OF d] Cons.prems c d show ?case by (auto split: option.splits)
qed simp

end
