(* ===== verification/FluentProps.thy ===== *)
theory FluentProps
  imports FluentSpec QuerySpec
begin

text \<open>
  The properties of the fluent interface: what its calls build, memory, copies, the escaping of literals,
  and the cases in which a clause or a condition is lost.
\<close>

section \<open>Concrete calls\<close>

definition demo_ops :: "fluent_op list" where
  "demo_ops = [OpSelect (Some ''id''), OpFrom (Some ''users''), OpWhere (CondGt (Some ''age'') (Some ''18'') False),
     OpAndWhere (CondEq (Some ''name'') (Some (''O'' @ [CHR 39] @ ''Brien'')) True), OpLimit 5]"

definition new_query :: "bool list \<Rightarrow> c_orm_error_t \<times> query_state" where
  "new_query oom = c_orm_query_new True \<lparr>script = oom, live = 0\<rparr>"

definition fresh :: "bool list \<Rightarrow> int \<Rightarrow> query_state" where
  "fresh oom n = (Some \<lparr>q_arena = Some \<lparr>arena_head = []\<rparr>, ast_head = [], q_error = False\<rparr>, \<lparr>script = oom, live = n\<rparr>)"

lemma new_query_fresh: "c_orm_query_new True \<lparr>script = True # True # oom, live = n\<rparr> = (C_ORM_OK, fresh oom (n + 2))"
  by (simp add: c_orm_query_new_def c_orm_arena_new_def C_ORM_MALLOC_def fresh_def)

lemma new_query_fresh_no_oom: "c_orm_query_new True \<lparr>script = [], live = n\<rparr> = (C_ORM_OK, fresh [] (n + 2))"
  by (simp add: c_orm_query_new_def c_orm_arena_new_def C_ORM_MALLOC_def fresh_def)

lemma demo_ops_fine: "list_all op_safe demo_ops" "list_all op_short demo_ops"
  by (simp_all add: demo_ops_def short_def)

lemma query_new_result:
  assumes "c_orm_query_new True h = (C_ORM_OK, s)"
  shows "clauses s = []" "query_slack s = live h" "no_oom h \<Longrightarrow> usable s"
proof -
  from query_new_slack[OF assms] show "clauses s = []" "query_slack s = live h" by (simp_all add: clauses_def)
  assume "no_oom h"
  from query_new_no_oom[OF this] assms query_new_slack(2)[OF assms] show "usable s" by (auto simp: usable_def)
qed

section \<open>Properties\<close>







section \<open>Literals\<close>

text \<open>The SQL reading of a string literal, after its opening quote: the value and the rest.\<close>

fun read_quoted :: "string \<Rightarrow> (string \<times> string) option" where
  "read_quoted [] = None"
| "read_quoted (c # cs) =
     (if c = CHR 39 then
        (case cs of d # ds \<Rightarrow> if d = CHR 39 then map_option (\<lambda>(v, r). (c # v, r)) (read_quoted ds) else Some ([], cs)
         | [] \<Rightarrow> Some ([], []))
      else map_option (\<lambda>(v, r). (c # v, r)) (read_quoted cs))"

lemma read_double_quotes:
  "take 1 rest \<noteq> [CHR 39] \<Longrightarrow> read_quoted (double_quotes v @ CHR 39 # rest) = Some (v, rest)"
  by (induction v) (auto split: list.splits)

text \<open>C8 (escape_roundtrip).
  No injection through a literal: what \<open>c_orm_escape_literal\<close> returns, put between quotes and followed by
  text that does not start with a quote, reads back as exactly the value it was given.
\<close>

theorem escape_roundtrip:
  assumes "c_orm_escape_literal (Some v) s = (C_ORM_OK, Some e, s')" and "take 1 rest \<noteq> [CHR 39]"
  shows "read_quoted (e @ CHR 39 # rest) = Some (v, rest)"
proof -
  from escape_result[OF assms(1)] have "e = double_quotes v" by simp
  with read_double_quotes[OF assms(2)] show ?thesis by simp
qed

theorem escape_roundtrip_witness:
  "read_quoted ((CHR 39 # CHR 39 # '' OR 1=1'') @ CHR 39 # '' LIMIT 1'') = Some (CHR 39 # '' OR 1=1'', '' LIMIT 1'')"
proof -
  let ?e = "c_orm_escape_literal (Some (CHR 39 # '' OR 1=1''))
    (\<lparr>q_arena = Some \<lparr>arena_head = []\<rparr>, ast_head = [], q_error = False\<rparr>, \<lparr>script = [], live = 2\<rparr>)"
  obtain rc e s' where r: "?e = (rc, e, s')" by (metis surj_pair)
  have "fst ?e = C_ORM_OK \<and> fst (snd ?e) = Some (CHR 39 # CHR 39 # '' OR 1=1'')" by code_simp
  with r have "rc = C_ORM_OK" "e = Some (CHR 39 # CHR 39 # '' OR 1=1'')" by simp_all
  from escape_roundtrip[OF r[unfolded this], of "'' LIMIT 1''"] show ?thesis by simp
qed

text \<open>C13 (string_value_bound_escaped).
  A string compared through the fluent interface and rendered with a parameter list is bound with its
  quotes doubled: the escaping meant for inline text is applied to a value that is never inlined.
\<close>

theorem string_value_bound_escaped:
  assumes "c_orm_query_eq_impl (Some c) (Some v) True True s = (C_ORM_OK, Some n, s1)" and "\<not> in_error s1"
    and "c_orm_query_to_sql dl (Some [AstWhere (Some n)]) (Some empty_params, h) = (C_ORM_OK, sql, (ps, h'))"
  shows "params_items ps = [(Some (double_quotes v), True)]"
proof -
  have "makes (c_orm_query_eq_impl (Some c) (Some v) True True) (cond_ast (CondEq (Some c) (Some v) True))"
    using makes_cond[of "CondEq (Some c) (Some v) True"] by simp
  from makesD(3)[OF this assms(1,2)] have n: "n = cond_ast (CondEq (Some c) (Some v) True)" by simp
  have pinv: "params_inv (Some empty_params)" by (simp add: params_inv_def empty_params_def)
  from renders_sqlD(5)[OF renders_query(2) pinv assms(3)] n show ?thesis
    by (auto simp: query_pieces.simps node_pieces.simps earliest_def List.map_filter_def rendered_joins_def optional_def
        chain_pieces_def text_pieces_def escaped_def bound_def params_items_def empty_params_def)
qed

definition obrien :: string where
  "obrien = ''O'' @ [CHR 39] @ ''Brien''"

theorem string_value_bound_escaped_witness:
  "params_items (fst (snd (snd (c_orm_query_to_sql C_ORM_DIALECT_SQLITE
      (Some [AstWhere (fst (snd (c_orm_query_eq_impl (Some ''name'') (Some obrien) True True (fresh [] 2))))])
      (Some empty_params, \<lparr>script = [], live = 0\<rparr>)))))
    = [(Some (''O'' @ [CHR 39, CHR 39] @ ''Brien''), True)]"
proof -
  let ?m = "c_orm_query_eq_impl (Some ''name'') (Some obrien) True True (fresh [] 2)"
  obtain rc x s1 where m: "?m = (rc, x, s1)" by (metis surj_pair)
  have e: "fst ?m = C_ORM_OK \<and> fst (snd ?m) \<noteq> None \<and> \<not> in_error (snd (snd ?m))" by code_simp
  with m obtain n where n: "rc = C_ORM_OK" "x = Some n" "\<not> in_error s1" by auto
  let ?r = "c_orm_query_to_sql C_ORM_DIALECT_SQLITE (Some [AstWhere x]) (Some empty_params, \<lparr>script = [], live = 0\<rparr>)"
  obtain rc2 sql ps h' where r: "?r = (rc2, sql, (ps, h'))" by (metis surj_pair)
  have "fst (c_orm_query_to_sql C_ORM_DIALECT_SQLITE (Some [AstWhere (fst (snd ?m))]) (Some empty_params, \<lparr>script = [], live = 0\<rparr>)) = C_ORM_OK"
    by code_simp
  with m r have rc2: "rc2 = C_ORM_OK" by simp
  from string_value_bound_escaped[OF m[unfolded n] n(3) r[unfolded n(2) rc2]] m r n show ?thesis
    by (simp add: obrien_def)
qed

section \<open>Copies and lost clauses\<close>

text \<open>C11 (clone_equal).
  While no allocation fails, \<open>clone\<close> returns a query with the same clauses, conditions included, and the
  error flag of the original.
\<close>

theorem clone_equal:
  assumes "no_oom h" and "\<not> q_error q"
  shows "\<exists>c h'. c_orm_query_clone (Some q) True h = (C_ORM_OK, (Some c, h')) \<and> ast_head c = ast_head q \<and> \<not> q_error c"
proof -
  from query_new_no_oom[OF assms(1)] obtain s where n: "c_orm_query_new True h = (C_ORM_OK, s)" by blast
  from query_new_result(3)[OF n assms(1)] obtain c k where s: "s = (Some c, k)" "\<not> q_error c"
    by (cases s) (auto simp: usable_def)
  with query_new_result(3)[OF n assms(1)] assms(2) have u: "usable (as_state (c\<lparr>q_error := q_error q\<rparr>, k))"
    by (simp add: as_state_def usable_def)
  obtain ms d k2 where m: "clone_nodes (ast_head q) (c\<lparr>q_error := q_error q\<rparr>, k) = (ms, (d, k2))" by (metis surj_pair)
  from clone_nodes_usable[OF u m] have "ms = Some (ast_head q)" "\<not> q_error d" by (simp_all add: as_state_def usable_def)
  with n s m show ?thesis by (simp add: c_orm_query_clone_def)
qed

theorem clone_equal_witness:
  "\<exists>c h'. c_orm_query_clone (Some \<lparr>q_arena = None, ast_head = fold apply_op demo_ops [], q_error = False\<rparr>) True
      \<lparr>script = [], live = 3\<rparr> = (C_ORM_OK, (Some c, h')) \<and> ast_head c = fold apply_op demo_ops [] \<and> \<not> q_error c"
  using clone_equal[of "\<lparr>script = [], live = 3\<rparr>" "\<lparr>q_arena = None, ast_head = fold apply_op demo_ops [], q_error = False\<rparr>"]
  by (simp add: no_oom_def)

text \<open>C12 (clone_leak_free).
  \<open>clone\<close> accounts for its memory on every path: a copy that is returned owns all that was allocated, and
  a failed copy leaves nothing behind.
\<close>

theorem clone_leak_free:
  assumes "c_orm_query_clone q out h = (rc, s)"
  shows "live (c_orm_query_free s) = live h \<and> (rc \<noteq> C_ORM_OK \<longrightarrow> fst s = None)"
proof -
  obtain rc1 s1 where n: "c_orm_query_new True h = (rc1, s1)" by (metis surj_pair)
  note new = query_new_slack[OF n]
  show ?thesis
  proof (cases "q = None \<or> \<not> out \<or> fst s1 = None")
    case True
    with assms n new show ?thesis
      by (cases s1) (auto simp: c_orm_query_clone_def query_free_live query_slack_def query_owned_def
          split: option.splits if_splits)
  next
    case False
    then obtain orig c k where o: "q = Some orig" "out" "s1 = (Some c, k)" by (cases s1) auto
    obtain ms d k2 where m: "clone_nodes (ast_head orig) (c\<lparr>q_error := q_error orig\<rparr>, k) = (ms, (d, k2))"
      by (metis surj_pair)
    have "query_slack (Some (c\<lparr>q_error := q_error orig\<rparr>), k) = live h"
      using new(1) o(3) by (simp add: query_slack_def query_owned_def)
    with clone_nodes_slack[OF m] have sl: "query_slack (Some d, k2) = live h" by (simp add: as_state_def)
    show ?thesis
    proof (cases ms)
      case None
      with assms n o m have "rc = C_ORM_ERROR_UNKNOWN" "s = (None, c_orm_query_free (Some d, k2))"
        by (auto simp: c_orm_query_clone_def)
      with sl show ?thesis by (simp add: query_free_live query_slack_def query_owned_def)
    next
      case (Some ns)
      with assms n o m have "rc = C_ORM_OK" "s = (Some (d\<lparr>ast_head := ns\<rparr>), k2)"
        by (auto simp: c_orm_query_clone_def)
      with sl show ?thesis by (simp add: query_free_live query_slack_def query_owned_def)
    qed
  qed
qed

theorem clone_leak_free_witness:
  "live (c_orm_query_free (snd (c_orm_query_clone (Some \<lparr>q_arena = None, ast_head = fold apply_op demo_ops [], q_error = False\<rparr>)
     True \<lparr>script = [True, True, False], live = 4\<rparr>))) = 4"
proof -
  let ?c = "c_orm_query_clone (Some \<lparr>q_arena = None, ast_head = fold apply_op demo_ops [], q_error = False\<rparr>)
     True \<lparr>script = [True, True, False], live = 4\<rparr>"
  obtain rc s where c: "?c = (rc, s)" by (metis surj_pair)
  from clone_leak_free[OF c] c show ?thesis by simp
qed

definition limits_then_where :: c_orm_query where
  "limits_then_where = \<lparr>q_arena = None, ast_head = replicate 169 (AstLimit 1)
     @ [AstWhere (Some (cond_ast (CondRaw (Some ''id = 1''))))], q_error = False\<rparr>"

text \<open>The status of copying a child is ignored: when the arena block that is needed for the condition cannot
  be allocated, \<open>clone\<close> returns \<open>C_ORM_OK\<close> with a WHERE that has lost its condition.
\<close>

theorem clone_drops_condition:
  "\<exists>oom. case c_orm_query_clone (Some limits_then_where) True \<lparr>script = oom, live = 0\<rparr> of
     (rc, (c, h)) \<Rightarrow> rc = C_ORM_OK \<and> map_option (last \<circ> ast_head) c = Some (AstWhere None)"
  by (rule exI[of _ "[True, True, True, False]"]) code_simp

lemma earliest_Cons: "earliest f (n # ns) = (case earliest f ns of None \<Rightarrow> f n | Some y \<Rightarrow> Some y)"
  by (induction ns rule: rev_induct)
     (simp_all add: earliest_snoc earliest_snoc[of f "n # xs" for xs, simplified] earliest_def[of f "[n]"]
       List.map_filter_def split: option.split)

lemma earliest_skip: "f n = None \<Longrightarrow> earliest f (n # ns) = earliest f ns"
  by (simp add: earliest_Cons split: option.split)

lemma where_in_front:
  assumes "earliest as_where ns \<noteq> None"
  shows "query_pieces (Some (AstWhere c # ns)) = query_pieces (Some ns)"
proof -
  have "earliest as_where (AstWhere c # ns) = earliest as_where ns"
    using assms by (auto simp: earliest_Cons)
  moreover have "rendered_joins (AstWhere c # ns) = rendered_joins ns"
    by (simp add: rendered_joins_def List.map_filter_def)
  ultimately show ?thesis by (simp add: query_pieces.simps[of "Some ms" for ms] earliest_skip)
qed

text \<open>C14 (second_where_ignored).
  Of two WHERE clauses the first one added is rendered, while \<open>and_where\<close> extends the newest: on a query
  that has a WHERE, a second \<open>where\<close> and the \<open>and_where\<close> after it leave no trace in the statement.
\<close>

theorem second_where_ignored:
  assumes "run_steps (map fluent_call [OpWhere c2, OpAndWhere c3]) (Some q, h) = (C_ORM_OK, (Some q', h'))"
    and "cond_safe c2" "cond_safe c3" and "earliest as_where (ast_head q) \<noteq> None"
    and "c_orm_query_to_sql dl (Some (ast_head q')) (ps, k) = (C_ORM_OK, sql, (ps', k'))" and "params_inv ps"
  shows "\<exists>qs. query_pieces (Some (ast_head q)) = Some qs
    \<and> sql = Some (show_pieces (mode_of dl ps) (length (params_items ps)) qs)"
proof -
  have "list_all op_safe [OpWhere c2, OpAndWhere c3]" using assms(2,3) by simp
  from fluent_run_applies(2)[OF this assms(1)] have
    "ast_head q' = AstWhere (Some (AstOperator (Some ''AND'') (Some (cond_ast c2)) (Some (cond_ast c3)))) # ast_head q"
    by (simp add: clauses_def joined_def)
  with renders_sqlD(5)[OF renders_query(2) assms(6,5)] where_in_front[OF assms(4)] show ?thesis by auto
qed

definition demo_wheres :: "fluent_op list" where
  "demo_wheres = [OpWhere (CondRaw (Some ''b'')), OpAndWhere (CondRaw (Some ''c''))]"

definition one_where :: c_orm_query where
  "one_where = \<lparr>q_arena = Some \<lparr>arena_head = []\<rparr>, ast_head = [AstWhere (Some (AstRaw (Some ''a'')))], q_error = False\<rparr>"

theorem second_where_ignored_witness:
  "fst (snd (c_orm_query_to_sql C_ORM_DIALECT_SQLITE
      (Some (ast_head (the (fst (snd (run_steps (map fluent_call demo_wheres) (Some one_where, \<lparr>script = [], live = 2\<rparr>)))))))
      (None, \<lparr>script = [], live = 0\<rparr>))) = Some '' WHERE a''"
proof -
  let ?m = "run_steps (map fluent_call demo_wheres) (Some one_where, \<lparr>script = [], live = 2\<rparr>)"
  obtain rc x h' where m: "?m = (rc, (x, h'))" by (metis surj_pair)
  have e: "fst ?m = C_ORM_OK \<and> fst (snd ?m) \<noteq> None" by code_simp
  with m obtain q' where n: "rc = C_ORM_OK" "x = Some q'" by auto
  let ?r = "c_orm_query_to_sql C_ORM_DIALECT_SQLITE (Some (ast_head (the x))) (None, \<lparr>script = [], live = 0\<rparr>)"
  obtain rc2 sql ps k' where r: "?r = (rc2, sql, (ps, k'))" by (metis surj_pair)
  have "fst (c_orm_query_to_sql C_ORM_DIALECT_SQLITE (Some (ast_head (the (fst (snd ?m))))) (None, \<lparr>script = [], live = 0\<rparr>)) = C_ORM_OK"
    by code_simp
  with m r have rc2: "rc2 = C_ORM_OK" by simp
  have w: "earliest as_where (ast_head one_where) \<noteq> None" "params_inv None"
    by (simp_all add: one_where_def earliest_Cons params_inv_def)
  have "query_pieces (Some (ast_head one_where)) = Some [Text '' WHERE '', Text ''a'']" by code_simp
  with second_where_ignored[OF m[unfolded n demo_wheres_def] _ _ w(1) r[unfolded n(2) rc2 option.sel] w(2)] r m n
  show ?thesis by (simp add: mode_of_def demo_wheres_def)
qed

end
