(* ===== verification/SqlLex.thy ===== *)
theory SqlLex
  imports Prelude
begin

text \<open>
  The lexer of \<open>src/c_orm_sql.c\<close> (\<open>sql_lex\<close>, \<open>push_token\<close>, \<open>sql_token_list_free\<close>). A token is its kind and its
  text; the code's token points into the source, which outlives the list. The character classes are those
  of the C locale. The span of the source (\<open>az_span\<close>, a pointer and a length) is the list of its characters.
\<close>

section \<open>Tokens\<close>

datatype SqlTokenKind =
    SQL_TOKEN_EOF | SQL_TOKEN_WHITESPACE | SQL_TOKEN_IDENTIFIER | SQL_TOKEN_KEYWORD | SQL_TOKEN_NUMBER
  | SQL_TOKEN_STRING | SQL_TOKEN_LPAREN | SQL_TOKEN_RPAREN | SQL_TOKEN_COMMA | SQL_TOKEN_SEMICOLON
  | SQL_TOKEN_UNKNOWN

record sql_token_t =
  tok_kind :: SqlTokenKind
  tok_text :: string

record sql_token_list_t =
  tl_tokens :: "sql_token_t list"
  tl_capacity :: nat

definition token :: "SqlTokenKind \<Rightarrow> string \<Rightarrow> sql_token_t" where
  "token k tx = \<lparr>tok_kind = k, tok_text = tx\<rparr>"

lemma token_sel [simp]: "tok_kind (token k tx) = k" "tok_text (token k tx) = tx"
  by (simp_all add: token_def)

definition sql_keywords :: "string list" where
  "sql_keywords =
     [''CREATE'', ''TABLE'', ''INT'', ''INTEGER'', ''BIGINT'', ''VARCHAR'',
      ''TEXT'', ''CHAR'', ''FLOAT'', ''DOUBLE'', ''DECIMAL'', ''BOOLEAN'',
      ''BOOL'', ''DATE'', ''TIMESTAMP'', ''PRIMARY'', ''KEY'', ''FOREIGN'',
      ''REFERENCES'', ''UNIQUE'', ''NOT'', ''NULL'', ''DEFAULT'', ''SELECT'',
      ''INSERT'', ''INTO'', ''VALUES'', ''RETURNING'', ''UPDATE'', ''SET'',
      ''DELETE'', ''FROM'', ''WHERE'', ''AS'']"

definition is_sql_keyword :: "string \<Rightarrow> bool" where
  "is_sql_keyword str = (str \<in> set sql_keywords)"

section \<open>Character classes\<close>

definition code_of :: "char \<Rightarrow> nat" where
  "code_of c = of_char c"

definition isspace :: "char \<Rightarrow> bool" where
  "isspace c \<longleftrightarrow> code_of c = 32 \<or> 9 \<le> code_of c \<and> code_of c \<le> 13"

definition isdigit :: "char \<Rightarrow> bool" where
  "isdigit c \<longleftrightarrow> 48 \<le> code_of c \<and> code_of c \<le> 57"

definition isalpha :: "char \<Rightarrow> bool" where
  "isalpha c \<longleftrightarrow> 65 \<le> code_of c \<and> code_of c \<le> 90 \<or> 97 \<le> code_of c \<and> code_of c \<le> 122"

definition starts_word :: "char \<Rightarrow> bool" where
  "starts_word c \<longleftrightarrow> isalpha c \<or> c = CHR ''_''"

definition in_word :: "char \<Rightarrow> bool" where
  "in_word c \<longleftrightarrow> isalpha c \<or> isdigit c \<or> c = CHR ''_''"

section \<open>The next token\<close>

definition punctuation :: "char \<Rightarrow> SqlTokenKind" where
  "punctuation c =
     (if c = CHR ''('' then SQL_TOKEN_LPAREN else if c = CHR '')'' then SQL_TOKEN_RPAREN
      else if c = CHR '','' then SQL_TOKEN_COMMA else if c = CHR '';'' then SQL_TOKEN_SEMICOLON
      else SQL_TOKEN_UNKNOWN)"

definition span :: "(char \<Rightarrow> bool) \<Rightarrow> string \<Rightarrow> string \<times> string" where
  "span p cs = (takeWhile p cs, dropWhile p cs)"

definition next_token :: "char \<Rightarrow> string \<Rightarrow> sql_token_t \<times> string" where
  \<comment> \<open>one round of the outer loop, on the character at \<open>curr\<close> and those after it\<close>
  "next_token c cs =
     (if isspace c then (case span isspace cs of (w, rest) \<Rightarrow> (token SQL_TOKEN_WHITESPACE (c # w), rest))
      else if starts_word c then (case span in_word cs of (w, rest) \<Rightarrow>
        (token (if is_sql_keyword (c # w) then SQL_TOKEN_KEYWORD else SQL_TOKEN_IDENTIFIER) (c # w), rest))
      else if isdigit c then (case span isdigit cs of (w, rest) \<Rightarrow> (token SQL_TOKEN_NUMBER (c # w), rest))
      else if c = CHR 39 then
        (case span (\<lambda>d. d \<noteq> CHR 39) cs of (w, rest) \<Rightarrow>
           (token SQL_TOKEN_STRING (c # w @ take 1 rest), drop 1 rest))
      else (token (punctuation c) [c], cs))"

lemma next_token_split: "next_token c cs = (t, rest) \<Longrightarrow> c # cs = tok_text t @ rest"
  by (auto simp: next_token_def span_def split: if_splits)

lemma next_token_text: "next_token c cs = (t, rest) \<Longrightarrow> tok_text t \<noteq> []"
  by (auto simp: next_token_def span_def split: if_splits)

lemma next_token_shorter:
  assumes "next_token c cs = (t, rest)"
  shows "length rest < Suc (length cs)"
proof -
  from next_token_split[OF assms] have "Suc (length cs) = length (tok_text t) + length rest"
    by (metis length_Cons length_append)
  with next_token_text[OF assms] show ?thesis by (cases "tok_text t") auto
qed

section \<open>The list\<close>

definition push_token :: "sql_token_t \<Rightarrow> sql_token_list_t \<times> heap \<Rightarrow> c_orm_error_t \<times> (sql_token_list_t \<times> heap)" where
  "push_token t s =
     (case s of (l, h) \<Rightarrow>
        if length (tl_tokens l) \<ge> tl_capacity l then
          let new_cap = (if tl_capacity l = 0 then 16 else tl_capacity l * 2) in
          case (if tl_capacity l = 0 then C_ORM_MALLOC h else C_ORM_REALLOC h) of (ok, h1) \<Rightarrow>
            if \<not> ok then (C_ORM_ERROR_MEMORY, (l, h1))
            else (C_ORM_OK, (\<lparr>tl_tokens = tl_tokens l @ [t], tl_capacity = new_cap\<rparr>, h1))
        else (C_ORM_OK, (l\<lparr>tl_tokens := tl_tokens l @ [t]\<rparr>, h)))"

definition sql_token_list_free :: "sql_token_list_t option \<Rightarrow> heap \<Rightarrow> heap" where
  \<comment> \<open>the array, if it was ever allocated, and the list\<close>
  "sql_token_list_free list h =
     (case list of None \<Rightarrow> h
      | Some l \<Rightarrow> C_ORM_FREE (if tl_capacity l = 0 then h else C_ORM_FREE h))"

function lex_loop :: "string \<Rightarrow> sql_token_list_t \<times> heap \<Rightarrow> c_orm_error_t \<times> (sql_token_list_t \<times> heap)" where
  "lex_loop [] s = push_token (token SQL_TOKEN_EOF []) s"
| "lex_loop (c # cs) s =
     (case next_token c cs of (t, rest) \<Rightarrow>
        case push_token t s of (rc, s1) \<Rightarrow> if rc \<noteq> C_ORM_OK then (rc, s1) else lex_loop rest s1)"
  by pat_completeness auto
termination
  by (relation "measure (\<lambda>(cs, s). length cs)") (auto dest: next_token_shorter[OF sym])

definition sql_lex :: "cptr \<Rightarrow> bool \<Rightarrow> heap \<Rightarrow> c_orm_error_t \<times> sql_token_list_t option \<times> heap" where
  "sql_lex source out_list h =
     (case source of None \<Rightarrow> (C_ORM_ERROR_VALIDATION, None, h)
      | Some cs \<Rightarrow>
          if \<not> out_list then (C_ORM_ERROR_VALIDATION, None, h)
          else case C_ORM_MALLOC h of (ok, h1) \<Rightarrow>
            if \<not> ok then (C_ORM_ERROR_MEMORY, None, h1)
            else case lex_loop cs (\<lparr>tl_tokens = [], tl_capacity = 0\<rparr>, h1) of (rc, (l, h2)) \<Rightarrow>
              if rc \<noteq> C_ORM_OK then (C_ORM_ERROR_MEMORY, None, sql_token_list_free (Some l) h2)
              else (C_ORM_OK, Some l, h2))"

section \<open>What it yields\<close>

text \<open>The tokens of a text, without the list.\<close>

function tokens_of :: "string \<Rightarrow> sql_token_t list" where
  "tokens_of [] = [token SQL_TOKEN_EOF []]"
| "tokens_of (c # cs) = (case next_token c cs of (t, rest) \<Rightarrow> t # tokens_of rest)"
  by pat_completeness auto
termination
  by (relation "measure length") (auto dest: next_token_shorter[OF sym])

definition tl_inv :: "sql_token_list_t \<Rightarrow> bool" where
  "tl_inv l \<longleftrightarrow> length (tl_tokens l) \<le> tl_capacity l"

definition tl_owned :: "sql_token_list_t \<Rightarrow> int" where
  "tl_owned l = (if tl_capacity l = 0 then 1 else 2)"

lemma push_token_cases:
  assumes "push_token t (l, h) = (rc, (l', h'))" and "tl_inv l"
  shows "tl_inv l' \<and> live h' - tl_owned l' = live h - tl_owned l \<and> (rc = C_ORM_OK \<longrightarrow> tl_tokens l' = tl_tokens l @ [t])
    \<and> (rc = C_ORM_OK \<longrightarrow> tl_capacity l' \<noteq> 0) \<and> (no_oom h \<longrightarrow> rc = C_ORM_OK \<and> no_oom h')"
proof -
  obtain ok h1 where m: "(if tl_capacity l = 0 then C_ORM_MALLOC h else C_ORM_REALLOC h) = (ok, h1)" by (metis surj_pair)
  then have "live h1 = (if ok \<and> tl_capacity l = 0 then live h + 1 else live h)" and "no_oom h \<longrightarrow> ok \<and> no_oom h1"
    using malloc_live[of h] realloc_live[of h] by (auto split: if_splits)
  with assms m show ?thesis
    by (auto simp: push_token_def Let_def tl_inv_def tl_owned_def Suc_le_eq split: if_splits prod.splits)
qed

lemma lex_loop_cases:
  "lex_loop cs (l, h) = (rc, (l', h')) \<Longrightarrow> tl_inv l \<Longrightarrow>
   tl_inv l' \<and> live h' - tl_owned l' = live h - tl_owned l \<and> (rc = C_ORM_OK \<longrightarrow> tl_tokens l' = tl_tokens l @ tokens_of cs)
    \<and> (no_oom h \<longrightarrow> rc = C_ORM_OK \<and> no_oom h')"
proof (induction cs arbitrary: l h rule: tokens_of.induct)
  case 1
  then show ?case using push_token_cases by fastforce
next
  case (2 c cs)
  obtain t rest where n: "next_token c cs = (t, rest)" by (metis surj_pair)
  obtain rc1 l1 h1 where p: "push_token t (l, h) = (rc1, (l1, h1))" by (metis surj_pair)
  note pc = push_token_cases[OF p 2(3)]
  show ?case
  proof (cases "rc1 = C_ORM_OK")
    case True
    with 2(2) n p have "lex_loop rest (l1, h1) = (rc, (l', h'))" by simp
    from 2(1)[OF n[symmetric] this] pc True n show ?thesis by auto
  next
    case False
    with 2(2) n p pc show ?thesis by auto
  qed
qed

lemma tokens_of_text: "concat (map tok_text (tokens_of cs)) = cs"
proof (induction cs rule: tokens_of.induct)
  case (2 c cs)
  obtain t rest where n: "next_token c cs = (t, rest)" by (metis surj_pair)
  have "tokens_of (c # cs) = t # tokens_of rest" using n by simp
  with 2[OF n[symmetric]] next_token_split[OF n] show ?case by (simp del: tokens_of.simps)
qed simp

lemma next_token_kind: "next_token c cs = (t, rest) \<Longrightarrow> tok_kind t \<noteq> SQL_TOKEN_EOF"
  by (auto simp: next_token_def span_def punctuation_def split: if_splits)

lemma tokens_of_EOF: "\<exists>ts. tokens_of cs = ts @ [token SQL_TOKEN_EOF []] \<and> (\<forall>t \<in> set ts. tok_kind t \<noteq> SQL_TOKEN_EOF \<and> tok_text t \<noteq> [])"
proof (induction cs rule: tokens_of.induct)
  case (2 c cs)
  obtain t rest where n: "next_token c cs = (t, rest)" by (metis surj_pair)
  from 2[OF n[symmetric]] obtain ts where
    "tokens_of rest = ts @ [token SQL_TOKEN_EOF []]" "\<forall>t \<in> set ts. tok_kind t \<noteq> SQL_TOKEN_EOF \<and> tok_text t \<noteq> []" by blast
  moreover have "tok_text t \<noteq> []" by (rule next_token_text[OF n])
  ultimately show ?case using n next_token_kind[OF n] by (intro exI[of _ "t # ts"]) simp
qed simp

section \<open>Properties\<close>

text \<open>C19 (lex_faithful).
  When \<open>sql_lex\<close> succeeds, the texts of its tokens, one after the other, are the source; the last token is
  EOF and the only one; and it owns two new blocks. When it fails nothing stays allocated, and it does not
  fail while no allocation does.
\<close>

theorem lex_faithful:
  assumes "sql_lex (Some cs) True h = (rc, l, h')"
  shows "(rc = C_ORM_OK \<and> (\<exists>k ts. l = Some k \<and> tl_tokens k = ts @ [token SQL_TOKEN_EOF []]
      \<and> concat (map tok_text ts) = cs \<and> (\<forall>t \<in> set ts. tok_kind t \<noteq> SQL_TOKEN_EOF \<and> tok_text t \<noteq> []) \<and> live h' = live h + 2))
    \<or> (rc = C_ORM_ERROR_MEMORY \<and> l = None \<and> live h' = live h \<and> \<not> no_oom h)"
proof -
  obtain ok h1 where m: "C_ORM_MALLOC h = (ok, h1)" by (metis surj_pair)
  show ?thesis
  proof (cases ok)
    case False
    with assms m malloc_live[OF m] show ?thesis by (auto simp: sql_lex_def)
  next
    case True
    obtain rc1 k h2 where x: "lex_loop cs (\<lparr>tl_tokens = [], tl_capacity = 0\<rparr>, h1) = (rc1, (k, h2))" by (metis surj_pair)
    have inv: "tl_inv \<lparr>tl_tokens = [], tl_capacity = 0\<rparr>" by (simp add: tl_inv_def)
    note lc = lex_loop_cases[OF x inv]
    from tokens_of_EOF[of cs] obtain ts where ts: "tokens_of cs = ts @ [token SQL_TOKEN_EOF []]"
      "\<forall>t \<in> set ts. tok_kind t \<noteq> SQL_TOKEN_EOF \<and> tok_text t \<noteq> []" by blast
    with tokens_of_text[of cs] have "concat (map tok_text ts) = cs" by simp
    moreover have "no_oom h \<longrightarrow> no_oom h1" using m by auto
    moreover have "rc1 = C_ORM_OK \<longrightarrow> tl_owned k = 2" using lc ts by (auto simp: tl_owned_def tl_inv_def)
    ultimately show ?thesis
      using assms m malloc_live[OF m] True x lc ts
      by (cases "rc1 = C_ORM_OK") (auto simp: sql_lex_def sql_token_list_free_def tl_owned_def)
  qed
qed

theorem lex_faithful_witness:
  "fst (sql_lex (Some ''CREATE TABLE t1(id INT);'') True \<lparr>script = [True, False], live = 3\<rparr>) = C_ORM_ERROR_MEMORY
    \<and> live (snd (snd (sql_lex (Some ''CREATE TABLE t1(id INT);'') True \<lparr>script = [True, False], live = 3\<rparr>))) = 3"
proof -
  let ?s = "sql_lex (Some ''CREATE TABLE t1(id INT);'') True \<lparr>script = [True, False], live = 3\<rparr>"
  obtain rc l h where s: "?s = (rc, l, h)" by (metis surj_pair)
  have e: "fst ?s \<noteq> C_ORM_OK" by code_simp
  from lex_faithful[OF s] e s show ?thesis by auto
qed

end
