(* ===== verification/SqlParse.thy ===== *)
theory SqlParse
  imports SqlLex Act
begin

text \<open>
  The recursive descent parser of \<open>src/c_orm_sql.c\<close>: \<open>CREATE TABLE\<close> statements to \<open>sql_table_t\<close>. A parser
  is a function from the state (\<open>SqlParserState\<close>, with the allocator and the failure countdown of the tests)
  to an outcome: a result, the error the C function returns, or \<open>Stuck\<close> where the C function reads or writes
  outside an array or overflows an \<open>int\<close>.
\<close>

section \<open>The syntax tree\<close>

datatype SqlDataType =
    SQL_TYPE_UNKNOWN | SQL_TYPE_INT | SQL_TYPE_BIGINT | SQL_TYPE_VARCHAR | SQL_TYPE_TEXT | SQL_TYPE_CHAR
  | SQL_TYPE_FLOAT | SQL_TYPE_DOUBLE | SQL_TYPE_DECIMAL | SQL_TYPE_BOOLEAN | SQL_TYPE_DATE | SQL_TYPE_TIMESTAMP

datatype SqlConstraintType =
    SQL_CONSTRAINT_NONE | SQL_CONSTRAINT_PRIMARY_KEY | SQL_CONSTRAINT_FOREIGN_KEY | SQL_CONSTRAINT_UNIQUE
  | SQL_CONSTRAINT_NOT_NULL | SQL_CONSTRAINT_DEFAULT

record sql_constraint_t =
  sc_type :: SqlConstraintType
  sc_reference_table :: cptr
  sc_reference_column :: cptr
  sc_default_value :: cptr
  sc_columns :: "string list option"

record sql_column_t =
  scol_name :: string
  scol_type :: SqlDataType
  scol_length :: int
  scol_constraints :: "sql_constraint_t list"

record sql_table_t =
  st_name :: cptr
  st_columns :: "sql_column_t list"
  st_constraints :: "sql_constraint_t list"

text \<open>Freeing a tree: one block per string and per array that was allocated.\<close>

definition free_if :: "bool \<Rightarrow> heap \<Rightarrow> heap" where
  "free_if p h = (if p then C_ORM_FREE h else h)"

fun free_each :: "('a \<Rightarrow> heap \<Rightarrow> heap) \<Rightarrow> 'a list \<Rightarrow> heap \<Rightarrow> heap" where
  "free_each f [] h = h"
| "free_each f (x # xs) h = free_each f xs (f x h)"

definition sql_constraint_free_internals :: "sql_constraint_t \<Rightarrow> heap \<Rightarrow> heap" where
  "sql_constraint_free_internals c h =
     (let h1 = free_if (sc_default_value c \<noteq> None) (free_if (sc_reference_column c \<noteq> None)
                 (free_if (sc_reference_table c \<noteq> None) h)) in
      case sc_columns c of None \<Rightarrow> h1 | Some ks \<Rightarrow> C_ORM_FREE (free_each (\<lambda>_. C_ORM_FREE) ks h1))"

definition free_column :: "sql_column_t \<Rightarrow> heap \<Rightarrow> heap" where
  "free_column col h = C_ORM_FREE (free_each sql_constraint_free_internals (scol_constraints col) (C_ORM_FREE h))"

definition sql_table_C_ORM_FREE :: "sql_table_t \<Rightarrow> heap \<Rightarrow> heap" where
  "sql_table_C_ORM_FREE t h =
     free_if (st_constraints t \<noteq> []) (free_each sql_constraint_free_internals (st_constraints t)
       (free_if (st_name t \<noteq> None) (free_if (st_columns t \<noteq> []) (free_each free_column (st_columns t) h))))"

section \<open>Parsers\<close>

record sql_parse_error_t =
  pe_message :: cptr
  pe_token :: "sql_token_t option"

record SqlParserState =
  ps_tokens :: "sql_token_t list"
  ps_cursor :: nat
  ps_error :: "sql_parse_error_t option"
  ps_fail :: int
  ps_heap :: heap

type_synonym 'a parse = "(SqlParserState, 'a) act"

definition on_fail :: "(heap \<Rightarrow> heap) \<Rightarrow> 'a parse \<Rightarrow> 'a parse" where
  \<comment> \<open>the clean-up before an error is returned\<close>
  "on_fail f m s = (case m s of (Err e, t) \<Rightarrow> (Err e, t\<lparr>ps_heap := f (ps_heap t)\<rparr>) | (r, t) \<Rightarrow> (r, t))"

definition allocated :: "(heap \<Rightarrow> bool \<times> heap) \<Rightarrow> bool parse" where
  "allocated f s = (case f (ps_heap s) of (ok, h) \<Rightarrow> (Ret ok, s\<lparr>ps_heap := h\<rparr>))"

section \<open>Tokens of the parser\<close>

definition is_space :: "sql_token_t \<Rightarrow> bool" where
  "is_space t \<longleftrightarrow> tok_kind t = SQL_TOKEN_WHITESPACE"

definition skip_spaces :: "SqlParserState \<Rightarrow> nat" where
  \<comment> \<open>the loop over whitespace tokens, from the cursor\<close>
  "skip_spaces s = ps_cursor s + length (takeWhile is_space (drop (ps_cursor s) (ps_tokens s)))"

definition countdown :: "unit parse" where
  \<comment> \<open>\<open>g_parser_fail_countdown\<close>, negative outside the tests\<close>
  "countdown s =
     (if ps_fail s = 0 then (Err C_ORM_ERROR_UNKNOWN, s\<lparr>ps_fail := -1\<rparr>)
      else (Ret (), if 0 < ps_fail s then s\<lparr>ps_fail := ps_fail s - 1\<rparr> else s))"

definition sql_parser_peek :: "sql_token_t parse" where
  "sql_parser_peek = pbind countdown (\<lambda>_ s.
     let c = skip_spaces s in if c < length (ps_tokens s) then (Ret (ps_tokens s ! c), s) else (Stuck, s))"

definition sql_parser_consume :: "unit parse" where
  "sql_parser_consume = pbind countdown (\<lambda>_ s.
     let c = skip_spaces s in if c < length (ps_tokens s) then (Ret (), s\<lparr>ps_cursor := Suc c\<rparr>) else (Stuck, s))"

definition is_keyword :: "string \<Rightarrow> sql_token_t \<Rightarrow> bool" where
  "is_keyword kw t \<longleftrightarrow> tok_kind t = SQL_TOKEN_KEYWORD \<and> tok_text t = kw"

definition sql_parser_match_keyword :: "string \<Rightarrow> bool parse" where
  "sql_parser_match_keyword kw = pbind sql_parser_peek (\<lambda>tok.
     if is_keyword kw tok then pbind sql_parser_consume (\<lambda>_. preturn True) else preturn False)"

definition sql_parser_match_kind :: "SqlTokenKind \<Rightarrow> sql_token_t option parse" where
  "sql_parser_match_kind k = pbind sql_parser_peek (\<lambda>tok.
     if tok_kind tok = k then pbind sql_parser_consume (\<lambda>_. preturn (Some tok)) else preturn None)"

definition sql_parser_set_error :: "string \<Rightarrow> 'a parse" where
  "sql_parser_set_error msg s =
     (case ps_error s of None \<Rightarrow> (Err C_ORM_ERROR_SQL, s)
      | Some e \<Rightarrow> pbind sql_parser_peek (\<lambda>t u. (Err C_ORM_ERROR_SQL, u\<lparr>ps_error := Some \<lparr>pe_message = Some msg, pe_token = Some t\<rparr>\<rparr>))
          (s\<lparr>ps_error := Some (e\<lparr>pe_message := Some msg\<rparr>)\<rparr>))"

definition expect :: "SqlTokenKind \<Rightarrow> string \<Rightarrow> sql_token_t parse" where
  \<comment> \<open>\<open>sql_parser_match_kind\<close> and the error when it does not match\<close>
  "expect k msg = pbind (sql_parser_match_kind k) (\<lambda>t. case t of None \<Rightarrow> sql_parser_set_error msg | Some tok \<Rightarrow> preturn tok)"

definition expect_keyword :: "string \<Rightarrow> string \<Rightarrow> unit parse" where
  "expect_keyword kw msg = pbind (sql_parser_match_keyword kw) (\<lambda>m. if m then preturn () else sql_parser_set_error msg)"

definition quoted :: "string \<Rightarrow> string" where
  "quoted kw = CHR 39 # kw @ [CHR 39]"

definition copy_token :: "string \<Rightarrow> sql_token_t \<Rightarrow> string parse" where
  \<comment> \<open>malloc, memcpy and the terminating NUL\<close>
  "copy_token msg tok = pbind (allocated C_ORM_MALLOC) (\<lambda>ok. if ok then preturn (tok_text tok) else sql_parser_set_error msg)"

section \<open>Data types\<close>

fun sql_number :: "int \<Rightarrow> string \<Rightarrow> int option" where
  \<comment> \<open>\<open>val = val * 10 + digit\<close>, an \<open>int\<close>\<close>
  "sql_number v [] = Some v"
| "sql_number v (c # cs) =
     (let w = v * 10 + (int (code_of c) - 48) in if 2147483647 < w then None else sql_number w cs)"

definition sql_type_length :: "int parse" where
  "sql_type_length = pbind (sql_parser_match_kind SQL_TOKEN_LPAREN) (\<lambda>lp.
     if lp = None then preturn (-1)
     else pbind (sql_parser_match_kind SQL_TOKEN_NUMBER) (\<lambda>num.
       pbind (case num of None \<Rightarrow> preturn (-1)
              | Some tok \<Rightarrow> (case sql_number 0 (tok_text tok) of None \<Rightarrow> stuck | Some v \<Rightarrow> preturn v)) (\<lambda>len.
       pbind (expect SQL_TOKEN_RPAREN ''Expected ) after length'') (\<lambda>_. preturn len))))"

definition match_two :: "string \<Rightarrow> string \<Rightarrow> bool parse" where
  \<comment> \<open>two matches in a row, of which either may succeed\<close>
  "match_two a b = pbind (sql_parser_match_keyword a) (\<lambda>m1. pbind (sql_parser_match_keyword b) (\<lambda>m2. preturn (m1 \<or> m2)))"

definition match_three :: "string \<Rightarrow> string \<Rightarrow> string \<Rightarrow> bool parse" where
  "match_three a b c = pbind (sql_parser_match_keyword a) (\<lambda>m1. pbind (sql_parser_match_keyword b) (\<lambda>m2.
     pbind (sql_parser_match_keyword c) (\<lambda>m3. preturn (m1 \<or> m2 \<or> m3))))"

definition starts_with :: "sql_token_t \<Rightarrow> string \<Rightarrow> bool" where
  "starts_with tok p \<longleftrightarrow> take (length p) (tok_text tok) = p"

definition text_type :: "sql_token_t \<Rightarrow> SqlDataType" where
  "text_type tok = (if starts_with tok ''VARCHAR'' then SQL_TYPE_VARCHAR
     else if starts_with tok ''TEXT'' then SQL_TYPE_TEXT else SQL_TYPE_CHAR)"

definition real_type :: "sql_token_t \<Rightarrow> SqlDataType" where
  "real_type tok = (if starts_with tok ''FLOAT'' then SQL_TYPE_FLOAT
     else if starts_with tok ''DOUBLE'' then SQL_TYPE_DOUBLE else SQL_TYPE_DECIMAL)"

definition sql_parse_data_type :: "(SqlDataType \<times> int) parse" where
  "sql_parse_data_type = pbind sql_parser_peek (\<lambda>tok.
     if tok_kind tok \<noteq> SQL_TOKEN_KEYWORD then sql_parser_set_error ''Expected data type''
     else pbind (match_two ''INT'' ''INTEGER'') (\<lambda>m. if m then preturn (SQL_TYPE_INT, -1)
     else pbind (sql_parser_match_keyword ''BIGINT'') (\<lambda>m. if m then preturn (SQL_TYPE_BIGINT, -1)
     else pbind (match_three ''VARCHAR'' ''TEXT'' ''CHAR'') (\<lambda>m. if m then
       pbind sql_type_length (\<lambda>len. preturn (text_type tok, len))
     else pbind (match_three ''FLOAT'' ''DOUBLE'' ''DECIMAL'') (\<lambda>m. if m then preturn (real_type tok, -1)
     else pbind (match_two ''BOOLEAN'' ''BOOL'') (\<lambda>m. if m then preturn (SQL_TYPE_BOOLEAN, -1)
     else pbind (sql_parser_match_keyword ''DATE'') (\<lambda>m. if m then preturn (SQL_TYPE_DATE, -1)
     else pbind (sql_parser_match_keyword ''TIMESTAMP'') (\<lambda>m. if m then preturn (SQL_TYPE_TIMESTAMP, -1)
     else sql_parser_set_error ''Unknown data type''))))))))"

section \<open>Column constraints\<close>

definition empty_constraint :: sql_constraint_t where
  "empty_constraint = \<lparr>sc_type = SQL_CONSTRAINT_NONE, sc_reference_table = None, sc_reference_column = None,
     sc_default_value = None, sc_columns = None\<rparr>"

fun match_kinds :: "SqlTokenKind list \<Rightarrow> sql_token_t option parse" where
  \<comment> \<open>the kinds of a default value, tried in turn\<close>
  "match_kinds [] = preturn None"
| "match_kinds (k # ks) = pbind (sql_parser_match_kind k) (\<lambda>t. case t of None \<Rightarrow> match_kinds ks | Some tok \<Rightarrow> preturn (Some tok))"

definition parse_default :: "sql_constraint_t parse" where
  "parse_default = pbind (match_kinds [SQL_TOKEN_STRING, SQL_TOKEN_NUMBER, SQL_TOKEN_IDENTIFIER, SQL_TOKEN_KEYWORD]) (\<lambda>t.
     case t of None \<Rightarrow> sql_parser_set_error (''Expected value after '' @ quoted ''DEFAULT'')
     | Some tok \<Rightarrow> pbind (copy_token ''OOM allocating default value'' tok) (\<lambda>val.
         preturn (empty_constraint\<lparr>sc_type := SQL_CONSTRAINT_DEFAULT, sc_default_value := Some val\<rparr>)))"

definition parse_reference_column :: "sql_constraint_t \<Rightarrow> sql_constraint_t parse" where
  \<comment> \<open>the column in the parentheses; an injected failure leaves the strings of \<open>c\<close>\<close>
  "parse_reference_column c =
     pbind (sql_parser_match_kind SQL_TOKEN_IDENTIFIER) (\<lambda>col.
       case col of None \<Rightarrow> on_fail (sql_constraint_free_internals c) (sql_parser_set_error ''Expected column name in REFERENCES()'')
       | Some tok \<Rightarrow> pbind (on_fail (sql_constraint_free_internals c) (copy_token ''OOM allocating reference col name'' tok)) (\<lambda>cname.
           let c1 = c\<lparr>sc_reference_column := Some cname\<rparr> in
           pbind (sql_parser_match_kind SQL_TOKEN_RPAREN) (\<lambda>rp.
             if rp = None then on_fail (sql_constraint_free_internals c1) (sql_parser_set_error (''Expected '' @ quoted '')'' @ '' after reference column''))
             else preturn c1)))"

definition parse_references :: "sql_constraint_t parse" where
  "parse_references =
     pbind (expect SQL_TOKEN_IDENTIFIER (''Expected table name after '' @ quoted ''REFERENCES'')) (\<lambda>tok.
     pbind (copy_token ''OOM allocating reference table name'' tok) (\<lambda>tname.
       let c = empty_constraint\<lparr>sc_reference_table := Some tname\<rparr> in
       pbind (sql_parser_match_kind SQL_TOKEN_LPAREN) (\<lambda>lp.
       pbind (if lp = None then preturn c else parse_reference_column c) (\<lambda>c1.
         preturn (c1\<lparr>sc_type := SQL_CONSTRAINT_FOREIGN_KEY\<rparr>)))))"

definition sql_parse_column_constraint :: "sql_constraint_t parse" where
  "sql_parse_column_constraint =
     pbind (sql_parser_match_keyword ''PRIMARY'') (\<lambda>m. if m then
       pbind (expect_keyword ''KEY'' (''Expected '' @ quoted ''KEY'' @ '' after '' @ quoted ''PRIMARY'')) (\<lambda>_.
         preturn (empty_constraint\<lparr>sc_type := SQL_CONSTRAINT_PRIMARY_KEY\<rparr>))
     else pbind (sql_parser_match_keyword ''NOT'') (\<lambda>m. if m then
       pbind (expect_keyword ''NULL'' (''Expected '' @ quoted ''NULL'' @ '' after '' @ quoted ''NOT'')) (\<lambda>_.
         preturn (empty_constraint\<lparr>sc_type := SQL_CONSTRAINT_NOT_NULL\<rparr>))
     else pbind (sql_parser_match_keyword ''UNIQUE'') (\<lambda>m. if m then
       preturn (empty_constraint\<lparr>sc_type := SQL_CONSTRAINT_UNIQUE\<rparr>)
     else pbind (sql_parser_match_keyword ''DEFAULT'') (\<lambda>m. if m then parse_default
     else pbind (sql_parser_match_keyword ''REFERENCES'') (\<lambda>m. if m then parse_references
     else perr C_ORM_ERROR_NOT_FOUND)))))"

section \<open>Table constraints\<close>

definition table_constraint_type :: "SqlConstraintType parse" where
  "table_constraint_type =
     pbind (sql_parser_match_keyword ''PRIMARY'') (\<lambda>m. if m then
       pbind (expect_keyword ''KEY'' (''Expected '' @ quoted ''KEY'' @ '' after '' @ quoted ''PRIMARY'')) (\<lambda>_. preturn SQL_CONSTRAINT_PRIMARY_KEY)
     else pbind (sql_parser_match_keyword ''UNIQUE'') (\<lambda>m. if m then preturn SQL_CONSTRAINT_UNIQUE
     else pbind (sql_parser_match_keyword ''FOREIGN'') (\<lambda>_.
       pbind (expect_keyword ''KEY'' (''Expected '' @ quoted ''KEY'' @ '' after '' @ quoted ''FOREIGN'')) (\<lambda>_. preturn SQL_CONSTRAINT_FOREIGN_KEY))))"

definition add_con_column :: "sql_constraint_t \<Rightarrow> sql_token_t \<Rightarrow> sql_constraint_t parse" where
  \<comment> \<open>the array grows by one, then the name is copied into the new place\<close>
  "add_con_column c tok =
     (let ks = (case sc_columns c of None \<Rightarrow> [] | Some ks \<Rightarrow> ks) in
      pbind (allocated (if sc_columns c = None then C_ORM_MALLOC else C_ORM_REALLOC)) (\<lambda>ok.
        if \<not> ok then on_fail (sql_constraint_free_internals c) (sql_parser_set_error ''OOM allocating constraint columns'')
        else pbind (on_fail (sql_constraint_free_internals (c\<lparr>sc_columns := Some ks\<rparr>))
                      (copy_token ''OOM allocating column name'' tok)) (\<lambda>cname.
          preturn (c\<lparr>sc_columns := Some (ks @ [cname])\<rparr>))))"

definition con_column :: "sql_constraint_t \<Rightarrow> (sql_constraint_t \<times> bool) parse" where
  \<comment> \<open>one round of the loop over the columns; whether a comma follows\<close>
  "con_column c =
     pbind (on_fail (sql_constraint_free_internals c) (expect SQL_TOKEN_IDENTIFIER ''Expected column name in constraint'')) (\<lambda>tok.
     pbind (add_con_column c tok) (\<lambda>c1.
     pbind (on_fail (sql_constraint_free_internals c1) (sql_parser_match_kind SQL_TOKEN_COMMA)) (\<lambda>comma.
       preturn (c1, comma \<noteq> None))))"

text \<open>The loops end because every round consumes a token.\<close>

definition left :: "SqlParserState \<Rightarrow> nat" where
  "left s = length (ps_tokens s) - ps_cursor s"

text \<open>\<open>moves p m\<close>: \<open>m\<close> leaves no more tokens than before, and fewer when its result satisfies \<open>p\<close>.\<close>

definition moves :: "('a \<Rightarrow> bool) \<Rightarrow> 'a parse \<Rightarrow> bool" where
  "moves p m \<longleftrightarrow> (\<forall>s r t. m s = (r, t) \<longrightarrow> left t \<le> left s \<and> (\<forall>a. r = Ret a \<longrightarrow> p a \<longrightarrow> left t < left s))"

named_theorems moves_intro

lemma movesD: "moves p m \<Longrightarrow> m s = (r, t) \<Longrightarrow> left t \<le> left s \<and> (\<forall>a. r = Ret a \<longrightarrow> p a \<longrightarrow> left t < left s)"
  by (auto simp: moves_def)

lemma moves_bind:
  assumes m: "moves q m" and k: "\<And>a. moves (r a) (k a)" and p: "\<And>a b. p b \<Longrightarrow> q a \<or> r a b"
  shows "moves p (pbind m k)"
  unfolding moves_def
proof (intro allI impI)
  fix s x t assume run: "pbind m k s = (x, t)"
  obtain y u where m': "m s = (y, u)" by (cases "m s")
  note 1 = movesD[OF m m']
  show "left t \<le> left s \<and> (\<forall>b. x = Ret b \<longrightarrow> p b \<longrightarrow> left t < left s)"
  proof (cases y)
    case (Ret a)
    with run m' have "k a u = (x, t)" by (simp add: pbind_def)
    from 1 Ret movesD[OF k this] p[of _ a] show ?thesis by (auto dest: le_less_trans less_le_trans)
  qed (use run m' 1 in \<open>auto simp: pbind_def\<close>)
qed

lemma moves_weaken: "moves p m \<Longrightarrow> (\<And>a. q a \<Longrightarrow> p a) \<Longrightarrow> moves q m"
  by (auto simp: moves_def)

lemma moves_seq [moves_intro]: "moves q m \<Longrightarrow> (\<And>a. moves (\<lambda>_. False) (k a)) \<Longrightarrow> (\<And>a. q a) \<Longrightarrow> moves p (pbind m k)"
  by (rule moves_bind[of q _ "\<lambda>_ _. False"]) auto

lemma moves_bind0: "moves (\<lambda>_. False) m \<Longrightarrow> (\<And>a. moves p (k a)) \<Longrightarrow> moves p (pbind m k)"
  by (rule moves_bind[of "\<lambda>_. False" _ "\<lambda>_. p"]) auto

lemma left_simps [simp]:
  "left (s\<lparr>ps_fail := n\<rparr>) = left s" "left (s\<lparr>ps_heap := h\<rparr>) = left s" "left (s\<lparr>ps_error := e\<rparr>) = left s"
  by (simp_all add: left_def)

lemma moves_return [simp]: "moves p (preturn a) \<longleftrightarrow> \<not> p a"
  by (auto simp: moves_def preturn_def)

lemma moves_on_fail [simp, intro!]: "moves p m \<Longrightarrow> moves p (on_fail f m)"
  unfolding on_fail_def moves_def[of p "\<lambda>s. case m s of _ \<Rightarrow> _ s"]
  by (auto split: prod.splits outcome.splits dest: movesD)

lemma moves_allocated [simp]: "moves (\<lambda>_. False) (allocated f)"
  by (auto simp: moves_def allocated_def split: prod.splits)

lemma moves_countdown [simp]: "moves (\<lambda>_. False) countdown"
  by (auto simp: moves_def countdown_def split: if_splits)

lemma moves_peek [simp]: "moves (\<lambda>_. False) sql_parser_peek"
  unfolding sql_parser_peek_def by (rule moves_bind0[OF moves_countdown]) (auto simp: moves_def Let_def split: if_splits)

lemma moves_errors [simp, intro!]: "moves p (perr e)" "moves p stuck" "moves p (sql_parser_set_error msg)"
proof -
  show "moves p (perr e)" "moves p stuck" by (simp_all add: moves_def perr_def stuck_def)
  show "moves p (sql_parser_set_error msg)"
    unfolding moves_def sql_parser_set_error_def
    by (auto split: option.splits simp: pbind_def split: prod.splits outcome.splits dest: movesD[OF moves_peek])
qed

lemma moves_consume: "moves (\<lambda>_. True) sql_parser_consume"
  unfolding sql_parser_consume_def
  by (rule moves_bind0[OF moves_countdown]) (auto simp: moves_def Let_def left_def skip_spaces_def split: if_splits)

lemma moves_match_keyword [moves_intro]: "moves (\<lambda>m. m) (sql_parser_match_keyword kw)"
  unfolding sql_parser_match_keyword_def
proof (rule moves_bind0, simp)
  fix tok
  show "moves (\<lambda>m. m) (if is_keyword kw tok then pbind sql_parser_consume (\<lambda>_. preturn True) else preturn False)"
    by (auto intro!: moves_seq[OF moves_consume])
qed

lemma moves_match_kind [moves_intro]: "moves (\<lambda>t. t \<noteq> None) (sql_parser_match_kind k)"
  unfolding sql_parser_match_kind_def
proof (rule moves_bind0, simp)
  fix tok
  show "moves (\<lambda>t. t \<noteq> None) (if tok_kind tok = k then pbind sql_parser_consume (\<lambda>_. preturn (Some tok)) else preturn None)"
    by (auto intro!: moves_seq[OF moves_consume])
qed

lemma moves_keyword0 [simp]: "moves (\<lambda>_. False) (sql_parser_match_keyword kw)"
  by (rule moves_weaken[OF moves_match_keyword]) simp

lemma moves_kind0 [simp]: "moves (\<lambda>_. False) (sql_parser_match_kind k)"
  by (rule moves_weaken[OF moves_match_kind]) simp

lemma moves_expect [simp]: "moves p (expect k msg)"
  unfolding expect_def
  by (rule moves_bind[OF moves_match_kind, where r = "\<lambda>t _. t = None"]) (auto split: option.splits)

lemma moves_expect_keyword [simp]: "moves p (expect_keyword kw msg)"
  unfolding expect_keyword_def
  by (rule moves_bind[OF moves_match_keyword, where r = "\<lambda>m _. \<not> m"]) (auto split: option.splits)

lemma moves_copy_token [simp]: "moves (\<lambda>_. False) (copy_token msg tok)"
  unfolding copy_token_def by (rule moves_bind0) auto

lemma moves_add_con_column [simp]: "moves (\<lambda>_. False) (add_con_column c tok)"
  unfolding add_con_column_def Let_def by (auto intro!: moves_bind0)

lemma moves_con_column [simp]: "moves p (con_column c)"
  unfolding con_column_def by (rule moves_seq[of "\<lambda>_. True"]) (auto intro!: moves_bind0)

function con_columns :: "sql_constraint_t \<Rightarrow> SqlParserState \<Rightarrow> sql_constraint_t outcome \<times> SqlParserState" where
  "con_columns c s = pbind (con_column c) (\<lambda>r u. if snd r then con_columns (fst r) u else preturn (fst r) u) s"
  by pat_completeness auto
termination
  by (relation "measure (\<lambda>(c, s). left s)") (auto dest: movesD[OF moves_con_column[where p = "\<lambda>_. True"]])

declare con_columns.simps [simp del]

definition constraint_reference :: "sql_constraint_t \<Rightarrow> sql_constraint_t parse" where
  \<comment> \<open>\<open>REFERENCES\<close> of a foreign key of the table\<close>
  "constraint_reference c =
     pbind (on_fail (sql_constraint_free_internals c) (pbind (expect_keyword ''REFERENCES'' ''Expected 'REFERENCES' after FOREIGN KEY (...)'') (\<lambda>_.
       pbind (expect SQL_TOKEN_IDENTIFIER (''Expected table name after '' @ quoted ''REFERENCES''))
         (copy_token ''OOM allocating ref table'')))) (\<lambda>tname.
     let c1 = c\<lparr>sc_reference_table := Some tname\<rparr> in
     pbind (on_fail (sql_constraint_free_internals c1) (sql_parser_match_kind SQL_TOKEN_LPAREN)) (\<lambda>lp.
     if lp = None then preturn c1
     else pbind (on_fail (sql_constraint_free_internals c1) (pbind (expect SQL_TOKEN_IDENTIFIER ''Expected column name in REFERENCES()'')
            (copy_token ''OOM allocating ref col''))) (\<lambda>cname.
       let c2 = c1\<lparr>sc_reference_column := Some cname\<rparr> in
       pbind (on_fail (sql_constraint_free_internals c2) (expect SQL_TOKEN_RPAREN (''Expected '' @ quoted '')'' @ '' after reference column''))) (\<lambda>_.
       preturn c2))))"

definition sql_parse_table_constraint :: "sql_constraint_t parse" where
  "sql_parse_table_constraint =
     pbind table_constraint_type (\<lambda>ty.
     pbind (expect SQL_TOKEN_LPAREN ''Expected '(' after constraint type'') (\<lambda>_.
     pbind (con_columns (empty_constraint\<lparr>sc_type := ty\<rparr>)) (\<lambda>c.
     pbind (on_fail (sql_constraint_free_internals c) (expect SQL_TOKEN_RPAREN ''Expected ')' after constraint columns'')) (\<lambda>_.
     if ty = SQL_CONSTRAINT_FOREIGN_KEY then constraint_reference c else preturn c))))"

section \<open>Columns\<close>

definition free_constraints :: "sql_constraint_t list \<Rightarrow> heap \<Rightarrow> heap" where
  \<comment> \<open>the constraints of a column and their array\<close>
  "free_constraints cs h = C_ORM_FREE (free_each sql_constraint_free_internals cs h)"

datatype column_next = More sql_constraint_t | Enough

definition next_constraint :: "column_next parse" where
  \<comment> \<open>\<open>C_ORM_ERROR_NOT_FOUND\<close> ends the loop too\<close>
  "next_constraint = pbind sql_parser_peek (\<lambda>tok.
     if tok_kind tok \<in> {SQL_TOKEN_COMMA, SQL_TOKEN_RPAREN, SQL_TOKEN_EOF} then preturn Enough
     else (\<lambda>s. case sql_parse_column_constraint s of (Ret c, t) \<Rightarrow> (Ret (More c), t)
       | (Err e, t) \<Rightarrow> if e = C_ORM_ERROR_NOT_FOUND then (Ret Enough, t) else (Err e, t) | (Stuck, t) \<Rightarrow> (Stuck, t)))"

definition add_constraint :: "sql_constraint_t list \<Rightarrow> nat \<Rightarrow> sql_constraint_t \<Rightarrow> nat parse" where
  \<comment> \<open>room for \<open>c\<close> after \<open>cs\<close>: the new capacity\<close>
  "add_constraint cs capacity c =
     (if length cs \<ge> capacity then pbind (allocated C_ORM_REALLOC) (\<lambda>ok.
        if ok then preturn (capacity * 2)
        else on_fail (sql_constraint_free_internals c) (perr C_ORM_ERROR_MEMORY))
      else preturn capacity)"

lemma moves_match_kinds [simp]: "moves (\<lambda>_. False) (match_kinds ks)"
  by (induction ks) (auto intro!: moves_bind0 split: option.splits)

lemma moves_parse_default [simp]: "moves (\<lambda>_. False) parse_default"
  unfolding parse_default_def by (auto intro!: moves_bind0 split: option.splits)

lemma moves_parse_references [simp]: "moves (\<lambda>_. False) parse_references"
  unfolding parse_references_def parse_reference_column_def Let_def by (auto intro!: moves_bind0 split: option.splits)

lemma moves_column_constraint: "moves (\<lambda>_. True) sql_parse_column_constraint"
proof -
  have step: "moves (\<lambda>_. False) f \<Longrightarrow> moves (\<lambda>_. True) g \<Longrightarrow>
      moves (\<lambda>_. True) (pbind (sql_parser_match_keyword kw) (\<lambda>m. if m then f else g))" for kw f g
    by (rule moves_bind[OF moves_match_keyword, where r = "\<lambda>m _. \<not> m"]) auto
  show ?thesis unfolding sql_parse_column_constraint_def by (intro step) (auto intro!: moves_bind0)
qed

lemma moves_next_constraint: "moves (\<lambda>n. n \<noteq> Enough) next_constraint"
  unfolding next_constraint_def
  by (rule moves_bind0, simp)
    (auto simp: moves_def preturn_def split: prod.splits outcome.splits if_splits dest: movesD[OF moves_column_constraint])

lemma moves_add_constraint [simp]: "moves (\<lambda>_. False) (add_constraint cs capacity c)"
  unfolding add_constraint_def by (auto intro!: moves_bind0)

function column_constraints :: "sql_constraint_t list \<Rightarrow> nat \<Rightarrow> SqlParserState \<Rightarrow> sql_constraint_t list outcome \<times> SqlParserState" where
  \<comment> \<open>the loop over the constraints of a column\<close>
  "column_constraints cs capacity s =
     pbind (on_fail (free_constraints cs) next_constraint) (\<lambda>n u. case n of Enough \<Rightarrow> preturn cs u
       | More c \<Rightarrow> pbind (on_fail (free_constraints cs) (add_constraint cs capacity c)) (\<lambda>cap v.
           column_constraints (cs @ [c]) cap v) u) s"
  by pat_completeness auto

termination
  by (relation "measure (\<lambda>(cs, cap, s). left s)")
    (auto dest!: movesD[OF moves_on_fail[OF moves_next_constraint]] movesD[OF moves_on_fail[OF moves_add_constraint]])

declare column_constraints.simps [simp del]


section \<open>Tables\<close>

definition free_table :: "sql_table_t \<Rightarrow> heap \<Rightarrow> heap" where
  \<comment> \<open>\<open>sql_table_C_ORM_FREE(table); C_ORM_FREE(table);\<close>\<close>
  "free_table t h = C_ORM_FREE (sql_table_C_ORM_FREE t h)"

definition table_array :: "'a list \<Rightarrow> bool parse" where
  \<comment> \<open>realloc to one more entry, of NULL when there is none yet\<close>
  "table_array xs = allocated (if xs = [] then C_ORM_MALLOC else C_ORM_REALLOC)"

definition table_constraint :: "sql_table_t \<Rightarrow> sql_table_t parse" where
  "table_constraint t =
     pbind (on_fail (free_table t) sql_parse_table_constraint) (\<lambda>tc.
     pbind (table_array (st_constraints t)) (\<lambda>ok.
       if \<not> ok then on_fail (\<lambda>h. free_table t (sql_constraint_free_internals tc h))
         (sql_parser_set_error ''OOM allocating table constraints'')
       else preturn (t\<lparr>st_constraints := st_constraints t @ [tc]\<rparr>)))"

definition column_definition :: "sql_column_t parse" where
  \<comment> \<open>after the name has been matched: data type and constraints. The name is \<open>scol_name\<close> of the result\<close>
  "column_definition =
     pbind (expect SQL_TOKEN_IDENTIFIER ''Expected column name'') (\<lambda>tok.
     pbind (copy_token ''OOM allocating column name'' tok) (\<lambda>name.
     pbind (on_fail C_ORM_FREE sql_parse_data_type) (\<lambda>ty.
     pbind (allocated C_ORM_MALLOC) (\<lambda>ok.
       if \<not> ok then on_fail C_ORM_FREE (sql_parser_set_error ''OOM allocating constraints'')
       else pbind (on_fail C_ORM_FREE (column_constraints [] 2)) (\<lambda>cs.
         preturn \<lparr>scol_name = name, scol_type = fst ty, scol_length = snd ty, scol_constraints = cs\<rparr>)))))"

definition table_column :: "sql_table_t \<Rightarrow> sql_table_t parse" where
  "table_column t =
     pbind (on_fail (free_table t) column_definition) (\<lambda>col.
     pbind (table_array (st_columns t)) (\<lambda>ok.
       if \<not> ok then on_fail (\<lambda>h. free_table t (free_column col h)) (sql_parser_set_error ''OOM allocating column'')
       else preturn (t\<lparr>st_columns := st_columns t @ [col]\<rparr>)))"

definition starts_table_constraint :: "sql_token_t \<Rightarrow> bool" where
  "starts_table_constraint tok \<longleftrightarrow> is_keyword ''PRIMARY'' tok \<or> is_keyword ''FOREIGN'' tok \<or> is_keyword ''UNIQUE'' tok"

definition table_element :: "sql_table_t \<Rightarrow> (sql_table_t \<times> bool) parse" where
  \<comment> \<open>one round of the loop over the elements; whether a comma follows\<close>
  "table_element t =
     pbind (on_fail (free_table t) sql_parser_peek) (\<lambda>tok.
       if tok_kind tok = SQL_TOKEN_RPAREN then preturn (t, False)
       else pbind (if starts_table_constraint tok then table_constraint t else table_column t) (\<lambda>t1.
         pbind (on_fail (free_table t1) (sql_parser_match_kind SQL_TOKEN_COMMA)) (\<lambda>comma. preturn (t1, comma \<noteq> None))))"

lemma moves_data_type [simp]: "moves (\<lambda>_. False) sql_parse_data_type"
  unfolding sql_parse_data_type_def match_two_def match_three_def sql_type_length_def
  by (auto intro!: moves_bind0 split: option.splits)

lemma moves_con_columns [simp]: "moves (\<lambda>_. False) (con_columns c)"
proof -
  have "left t \<le> left s" if "con_columns c s = (r, t)" for r s t
    using that
  proof (induction c s arbitrary: r t rule: con_columns.induct)
    case (1 c s)
    obtain x u where x: "con_column c s = (x, u)" by (cases "con_column c s")
    with movesD[OF moves_con_column x] have l: "left u \<le> left s" by simp
    show ?case
    proof (cases "\<exists>c1. x = Ret (c1, True)")
      case True
      then obtain c1 where c1: "x = Ret (c1, True)" by blast
      with 1(2) x have "con_columns (fst (c1, True)) u = (r, t)" by (subst (asm) con_columns.simps) (simp add: pbind_def)
      from 1(1)[OF _ _ this] c1 x l show ?thesis by simp
    next
      case False
      with 1(2) x l show ?thesis
        by (subst (asm) con_columns.simps) (auto simp: pbind_def preturn_def split: outcome.splits)
    qed
  qed
  then show ?thesis by (auto simp: moves_def)
qed

lemma moves_column_constraints [simp]: "moves (\<lambda>_. False) (column_constraints cs capacity)"
proof -
  have "left t \<le> left s" if "column_constraints cs capacity s = (r, t)" for r s t
    using that
  proof (induction cs capacity s arbitrary: r t rule: column_constraints.induct)
    case (1 cs capacity s)
    obtain x u where x: "on_fail (free_constraints cs) next_constraint s = (x, u)" by fastforce
    with movesD[OF moves_on_fail[OF moves_next_constraint] x] have l: "left u \<le> left s" by simp
    show ?case
    proof (cases "\<exists>c. x = Ret (More c)")
      case True
      then obtain c where c: "x = Ret (More c)" by blast
      obtain y v where y: "on_fail (free_constraints cs) (add_constraint cs capacity c) u = (y, v)" by fastforce
      with movesD[OF moves_on_fail[OF moves_add_constraint] y] have l2: "left v \<le> left u" by simp
      show ?thesis
      proof (cases y)
        case (Ret cap)
        with 1(2) x c y have "column_constraints (cs @ [c]) cap v = (r, t)"
          by (subst (asm) column_constraints.simps) (simp add: pbind_def)
        from 1(1)[OF _ _ _ this] x c y Ret l l2 show ?thesis by auto
      qed (use 1(2) x c y l l2 in \<open>subst (asm) column_constraints.simps, simp add: pbind_def\<close>)+
    next
      case False
      with 1(2) x l show ?thesis
        by (subst (asm) column_constraints.simps)
          (auto simp: pbind_def preturn_def split: outcome.splits column_next.splits)
    qed
  qed
  then show ?thesis by (auto simp: moves_def)
qed

lemma moves_table_array [simp]: "moves (\<lambda>_. False) (table_array xs)"
  by (simp add: table_array_def)

lemma moves_table_constraint [simp]: "moves (\<lambda>_. False) (table_constraint t)"
  unfolding table_constraint_def sql_parse_table_constraint_def table_constraint_type_def constraint_reference_def Let_def
  by (auto intro!: moves_bind0)

lemma moves_table_column [simp]: "moves (\<lambda>_. False) (table_column t)"
  unfolding table_column_def column_definition_def by (auto intro!: moves_bind0)

lemma moves_table_element: "moves (\<lambda>r. snd r) (table_element t)"
  unfolding table_element_def
proof (rule moves_bind0, simp)
  fix tok
  have "moves (\<lambda>r. snd r) (pbind (on_fail (free_table t1) (sql_parser_match_kind SQL_TOKEN_COMMA)) (\<lambda>comma. preturn (t1, comma \<noteq> None)))" for t1
    by (rule moves_bind[OF moves_on_fail[OF moves_match_kind], where r = "\<lambda>comma b. comma = None \<and> snd b"]) auto
  then show "moves (\<lambda>r. snd r) (if tok_kind tok = SQL_TOKEN_RPAREN then preturn (t, False)
       else pbind (if starts_table_constraint tok then table_constraint t else table_column t) (\<lambda>t1.
         pbind (on_fail (free_table t1) (sql_parser_match_kind SQL_TOKEN_COMMA)) (\<lambda>comma. preturn (t1, comma \<noteq> None))))"
    by (cases "tok_kind tok = SQL_TOKEN_RPAREN") (simp, simp only: if_False, rule moves_bind0, simp)
qed

function table_elements :: "sql_table_t \<Rightarrow> SqlParserState \<Rightarrow> sql_table_t outcome \<times> SqlParserState" where
  "table_elements t s = pbind (table_element t) (\<lambda>r u. if snd r then table_elements (fst r) u else preturn (fst r) u) s"
  by pat_completeness auto
termination
  by (relation "measure (\<lambda>(t, s). left s)") (auto dest: movesD[OF moves_table_element])

declare table_elements.simps [simp del]

definition parse_table :: "sql_table_t parse" where
  "parse_table =
     pbind (expect_keyword ''CREATE'' (''Expected '' @ quoted ''CREATE'')) (\<lambda>_.
     pbind (expect_keyword ''TABLE'' (''Expected '' @ quoted ''TABLE'')) (\<lambda>_.
     pbind (expect SQL_TOKEN_IDENTIFIER ''Expected table name'') (\<lambda>tok.
     pbind (allocated C_ORM_MALLOC) (\<lambda>ok. if \<not> ok then sql_parser_set_error ''OOM allocating table'' else
       let t0 = \<lparr>st_name = None, st_columns = [], st_constraints = []\<rparr> in
       pbind (on_fail (free_table t0) (copy_token ''OOM allocating table name'' tok)) (\<lambda>name.
       let t = t0\<lparr>st_name := Some name\<rparr> in
       pbind (on_fail (free_table t) (expect SQL_TOKEN_LPAREN (''Expected '' @ quoted ''(''))) (\<lambda>_.
       pbind (table_elements t) (\<lambda>t1.
       pbind (on_fail (free_table t1) (expect SQL_TOKEN_RPAREN ''Expected ')' at end of table definition'')) (\<lambda>_.
       pbind (on_fail (free_table t1) (sql_parser_match_kind SQL_TOKEN_SEMICOLON)) (\<lambda>_. preturn t1)))))))))"

definition parser_state :: "sql_token_t list \<Rightarrow> sql_parse_error_t option \<Rightarrow> int \<Rightarrow> heap \<Rightarrow> SqlParserState" where
  "parser_state ts e cd h = \<lparr>ps_tokens = ts, ps_cursor = 0,
     ps_error = map_option (\<lambda>_. \<lparr>pe_message = None, pe_token = None\<rparr>) e, ps_fail = cd, ps_heap = h\<rparr>"

definition sql_parse_table ::
  "sql_token_t list option \<Rightarrow> bool \<Rightarrow> sql_parse_error_t option \<Rightarrow> int \<Rightarrow> heap
    \<Rightarrow> sql_table_t outcome \<times> sql_parse_error_t option \<times> int \<times> heap" where
  \<comment> \<open>the tokens, whether \<open>out_table\<close> is given, \<open>out_error\<close>, the countdown of the tests\<close>
  "sql_parse_table list out_table out_error cd h =
     (case list of None \<Rightarrow> (Err C_ORM_ERROR_VALIDATION, out_error, cd, h)
      | Some ts \<Rightarrow> if \<not> out_table then (Err C_ORM_ERROR_VALIDATION, out_error, cd, h)
          else case parse_table (parser_state ts out_error cd h) of (r, s) \<Rightarrow> (r, ps_error s, ps_fail s, ps_heap s))"

section \<open>The statements of a text\<close>

fun ddl_loop :: "sql_token_t list \<Rightarrow> sql_token_t list option \<Rightarrow> sql_table_t list \<Rightarrow> int \<Rightarrow> heap
    \<Rightarrow> sql_table_t list outcome \<times> int \<times> heap" where
  \<comment> \<open>the tokens from \<open>i\<close> on; \<open>Some part\<close> the tokens from \<open>start_idx\<close> on, while \<open>in_table\<close>; the tables stored\<close>
  "ddl_loop [] part tables cd h = (Ret tables, cd, h)"
| "ddl_loop (t # ts) part tables cd h =
     (let part1 = (if is_keyword ''CREATE'' t then Some [t] else map_option (\<lambda>xs. xs @ [t]) part) in
      case part1 of None \<Rightarrow> ddl_loop ts None tables cd h
      | Some xs \<Rightarrow>
          if tok_kind t \<noteq> SQL_TOKEN_SEMICOLON then ddl_loop ts part1 tables cd h
          else case sql_parse_table (Some xs) True (Some \<lparr>pe_message = None, pe_token = None\<rparr>) cd h of (r, _, cd1, h1) \<Rightarrow>
            (case r of Stuck \<Rightarrow> (Stuck, cd1, h1)
             | Err _ \<Rightarrow> ddl_loop ts None tables cd1 h1
             | Ret table \<Rightarrow>
                 if length tables \<ge> 10 then (Stuck, cd1, h1)
                 else ddl_loop ts None (tables @ [table]) cd1 (C_ORM_FREE h1)))"

definition parse_sql_ddl :: "cptr \<Rightarrow> bool \<Rightarrow> int \<Rightarrow> heap \<Rightarrow> sql_table_t list outcome \<times> int \<times> heap" where
  \<comment> \<open>whether both results are asked for; a table past the tenth is written behind the array\<close>
  "parse_sql_ddl sql_data outs cd h =
     (case sql_data of None \<Rightarrow> (Err C_ORM_ERROR_VALIDATION, cd, h)
      | Some src \<Rightarrow> if \<not> outs then (Err C_ORM_ERROR_VALIDATION, cd, h)
          else case sql_lex (Some src) True h of (rc, list, h1) \<Rightarrow>
            (case list of None \<Rightarrow> (Err rc, cd, h1)
             | Some l \<Rightarrow> (case C_ORM_MALLOC h1 of (ok, h2) \<Rightarrow>
                 if \<not> ok then (Err C_ORM_ERROR_MEMORY, cd, sql_token_list_free (Some l) h2)
                 else case ddl_loop (tl_tokens l) None [] cd h2 of (r, cd1, h3) \<Rightarrow>
                   (r, cd1, sql_token_list_free (Some l) h3))))"

end
