(* ===== verification/SqlParseSpec.thy ===== *)
theory SqlParseSpec
  imports SqlParse
begin

text \<open>
  What the parser does to memory and why it stays inside its token array: a triple for parsers with its
  rules, the loops of the parser as rules of the triple, and two instances of it, \<open>costs\<close> (the blocks a
  parser leaves allocated) and \<open>guarded\<close> (it is never \<open>Stuck\<close>).
\<close>

section \<open>Triples\<close>

lemma triple_on_fail: "triple U P m Q (\<lambda>t. E (t\<lparr>ps_heap := f (ps_heap t)\<rparr>)) \<Longrightarrow> triple U P (on_fail f m) Q E"
  unfolding triple_def on_fail_def by (fastforce split: prod.splits outcome.splits)

text \<open>The loops.\<close>

lemma triple_con_columns:
  assumes "\<And>c. triple U (I c) (con_column c) (\<lambda>r. if snd r then I (fst r) else F (fst r)) E"
  shows "triple U (I c) (con_columns c) F E"
proof -
  have "case r of Ret a \<Rightarrow> F a t | Err e \<Rightarrow> E t | Stuck \<Rightarrow> U" if "I c s" and "con_columns c s = (r, t)" for r s t
    using that
  proof (induction c s rule: con_columns.induct)
    case (1 c s)
    obtain x u where x: "con_column c s = (x, u)" by (cases "con_column c s")
    note step = triple_at[OF assms 1(2) x]
    show ?case
    proof (cases x)
      case (Ret a)
      with 1(3) x have run: "(if snd a then con_columns (fst a) u else preturn (fst a) u) = (r, t)"
        by (subst (asm) con_columns.simps) (simp add: pbind_def)
      with 1(1)[of a u] x Ret step show ?thesis by (cases "snd a") (auto simp: preturn_def)
    qed (use 1(3) x step in \<open>subst (asm) con_columns.simps, auto simp: pbind_def\<close>)+
  qed
  then show ?thesis by (auto simp: triple_def split: prod.splits)
qed

lemma triple_table_elements:
  assumes "\<And>x. triple U (I x) (table_element x) (\<lambda>r. if snd r then I (fst r) else F (fst r)) E"
  shows "triple U (I x) (table_elements x) F E"
proof -
  have "case r of Ret a \<Rightarrow> F a t | Err e \<Rightarrow> E t | Stuck \<Rightarrow> U" if "I x s" and "table_elements x s = (r, t)" for r s t
    using that
  proof (induction x s rule: table_elements.induct)
    case (1 x s)
    obtain y u where y: "table_element x s = (y, u)" by (cases "table_element x s")
    note step = triple_at[OF assms 1(2) y]
    show ?case
    proof (cases y)
      case (Ret a)
      with 1(3) y have run: "(if snd a then table_elements (fst a) u else preturn (fst a) u) = (r, t)"
        by (subst (asm) table_elements.simps) (simp add: pbind_def)
      with 1(1)[of a u] y Ret step show ?thesis by (cases "snd a") (auto simp: preturn_def)
    qed (use 1(3) y step in \<open>subst (asm) table_elements.simps, auto simp: pbind_def\<close>)+
  qed
  then show ?thesis by (auto simp: triple_def split: prod.splits)
qed

definition column_round :: "sql_constraint_t list \<Rightarrow> nat \<Rightarrow> (sql_constraint_t list \<times> nat) option parse" where
  \<comment> \<open>one round of \<open>column_constraints\<close>: \<open>None\<close> when the loop ends\<close>
  "column_round cs capacity = pbind (on_fail (free_constraints cs) next_constraint) (\<lambda>n.
     case n of Enough \<Rightarrow> preturn None
     | More c \<Rightarrow> pbind (on_fail (free_constraints cs) (add_constraint cs capacity c)) (\<lambda>cap. preturn (Some (cs @ [c], cap))))"

lemma column_constraints_round:
  "column_constraints cs capacity s = pbind (column_round cs capacity)
     (\<lambda>r u. case r of None \<Rightarrow> preturn cs u | Some (ds, cap) \<Rightarrow> column_constraints ds cap u) s"
  by (subst column_constraints.simps)
    (auto simp: column_round_def pbind_def preturn_def split: prod.splits outcome.splits column_next.splits option.splits)

lemma triple_column_constraints:
  assumes "\<And>cs cap. triple U (I cs) (column_round cs cap) (\<lambda>r. case r of None \<Rightarrow> F cs | Some (ds, _) \<Rightarrow> I ds) E"
  shows "triple U (I cs) (column_constraints cs cap) F E"
proof -
  have "case r of Ret a \<Rightarrow> F a t | Err e \<Rightarrow> E t | Stuck \<Rightarrow> U" if "I cs s" and "column_constraints cs cap s = (r, t)" for r s t
    using that
  proof (induction cs cap s rule: column_constraints.induct)
    case (1 cs cap s)
    obtain y u where y: "column_round cs cap s = (y, u)" by (cases "column_round cs cap s")
    note step = triple_at[OF assms 1(2) y]
    show ?case
    proof (cases y)
      case (Ret a)
      show ?thesis
      proof (cases a)
        case None
        with 1(3) y Ret step show ?thesis by (subst (asm) column_constraints_round) (auto simp: pbind_def preturn_def)
      next
        case (Some p)
        obtain ds cap' where p: "p = (ds, cap')" by (cases p)
        with y Ret Some obtain n v where n: "on_fail (free_constraints cs) next_constraint s = (Ret (More n), v)"
          and g: "on_fail (free_constraints cs) (add_constraint cs cap n) v = (Ret cap', u)" and ds: "ds = cs @ [n]"
          by (auto simp: column_round_def pbind_def preturn_def split: prod.splits outcome.splits column_next.splits)
        have "column_constraints ds cap' u = (r, t)"
          using 1(3) y Ret Some p by (subst (asm) column_constraints_round) (simp add: pbind_def)
        with 1(1)[OF n refl g] ds step Ret Some p show ?thesis by simp
      qed
    qed (use 1(3) y step in \<open>subst (asm) column_constraints_round, auto simp: pbind_def\<close>)+
  qed
  then show ?thesis by (auto simp: triple_def split: prod.splits)
qed

section \<open>Memory\<close>

definition con_blocks :: "sql_constraint_t \<Rightarrow> int" where
  "con_blocks c = of_bool (sc_reference_table c \<noteq> None) + of_bool (sc_reference_column c \<noteq> None)
     + of_bool (sc_default_value c \<noteq> None) + (case sc_columns c of None \<Rightarrow> 0 | Some ks \<Rightarrow> 1 + int (length ks))"

definition column_blocks :: "sql_column_t \<Rightarrow> int" where
  "column_blocks col = 2 + sum_of con_blocks (scol_constraints col)"

definition table_blocks :: "sql_table_t \<Rightarrow> int" where
  \<comment> \<open>without the block of the table itself\<close>
  "table_blocks t = of_bool (st_name t \<noteq> None) + of_bool (st_columns t \<noteq> []) + sum_of column_blocks (st_columns t)
     + of_bool (st_constraints t \<noteq> []) + sum_of con_blocks (st_constraints t)"

text \<open>\<open>frees n f\<close>: \<open>f\<close> frees \<open>n\<close> blocks.\<close>

definition frees :: "int \<Rightarrow> (heap \<Rightarrow> heap) \<Rightarrow> bool" where
  "frees n f \<longleftrightarrow> (\<forall>h. live (f h) = live h - n)"

lemma live_free_if [simp]: "live (free_if p h) = live h - of_bool p"
  by (simp add: free_if_def)

lemma live_free_each: "(\<And>x h. live (f x h) = live h - w x) \<Longrightarrow> live (free_each f xs h) = live h - sum_of w xs"
  by (induction xs arbitrary: h) auto

lemma live_free_names [simp]: "live (free_each (\<lambda>_. C_ORM_FREE) ks h) = live h - int (length ks)"
  by (induction ks arbitrary: h) auto

lemma live_free_internals [simp]: "live (sql_constraint_free_internals c h) = live h - con_blocks c"
  by (auto simp: sql_constraint_free_internals_def con_blocks_def Let_def split: option.splits)

lemma live_free_internals_each [simp]: "live (free_each sql_constraint_free_internals cs h) = live h - sum_of con_blocks cs"
  by (rule live_free_each) simp

lemma live_free_column [simp]: "live (free_column col h) = live h - column_blocks col"
  by (simp add: free_column_def column_blocks_def)

lemma live_free_column_each [simp]: "live (free_each free_column cols h) = live h - sum_of column_blocks cols"
  by (rule live_free_each) simp

lemma live_table_free [simp]: "live (sql_table_C_ORM_FREE t h) = live h - table_blocks t"
  by (simp add: sql_table_C_ORM_FREE_def table_blocks_def)

lemma live_free_table [simp]: "live (free_table t h) = live h - (1 + table_blocks t)"
  by (simp add: free_table_def)

lemma live_free_constraints [simp]: "live (free_constraints cs h) = live h - (1 + sum_of con_blocks cs)"
  by (simp add: free_constraints_def)

text \<open>
  \<open>costs e m w\<close>: outside the tests' injected failures, a result \<open>a\<close> of \<open>m\<close> comes with \<open>w a\<close> new blocks
  and an error after \<open>e\<close> blocks, held before, have been freed.
\<close>

definition costs :: "int \<Rightarrow> 'a parse \<Rightarrow> ('a \<Rightarrow> int) \<Rightarrow> bool" where
  "costs e m w \<longleftrightarrow> (\<forall>n. triple True (\<lambda>s. ps_fail s < 0 \<and> live (ps_heap s) = n) m
     (\<lambda>a s. ps_fail s < 0 \<and> live (ps_heap s) = n + w a) (\<lambda>s. ps_fail s < 0 \<and> live (ps_heap s) = n - e))"

lemma costs_bind:
  assumes m: "costs e m v" and k: "\<And>a. costs (e + v a) (k a) (\<lambda>b. w b - v a)"
  shows "costs e (pbind m k) w"
  unfolding costs_def
proof
  fix n
  show "triple True (\<lambda>s. ps_fail s < 0 \<and> live (ps_heap s) = n) (pbind m k)
     (\<lambda>a s. ps_fail s < 0 \<and> live (ps_heap s) = n + w a) (\<lambda>s. ps_fail s < 0 \<and> live (ps_heap s) = n - e)"
  proof (rule triple_bind)
    show "triple True (\<lambda>s. ps_fail s < 0 \<and> live (ps_heap s) = n) m
      (\<lambda>a s. ps_fail s < 0 \<and> live (ps_heap s) = n + v a) (\<lambda>s. ps_fail s < 0 \<and> live (ps_heap s) = n - e)"
      using m by (simp add: costs_def)
    show "triple True (\<lambda>s. ps_fail s < 0 \<and> live (ps_heap s) = n + v a) (k a)
      (\<lambda>b s. ps_fail s < 0 \<and> live (ps_heap s) = n + w b) (\<lambda>s. ps_fail s < 0 \<and> live (ps_heap s) = n - e)" for a
      using k[of a] by (auto simp: costs_def algebra_simps dest!: spec[of _ "n + v a"])
  qed
qed

lemma costs_return: "w a = 0 \<Longrightarrow> costs e (preturn a) w"
  by (simp add: costs_def triple_return)

lemma costs_perr: "e = 0 \<Longrightarrow> costs e (perr c) w"
  by (simp add: costs_def triple_perr)

lemma costs_stuck: "costs e stuck w"
  by (simp add: costs_def triple_def stuck_def)

lemma costs_on_fail: "costs (e - n) m w \<Longrightarrow> (\<And>h. live (f h) = live h - n) \<Longrightarrow> costs e (on_fail f m) w"
  unfolding costs_def by (rule allI, rule triple_on_fail, erule allE, erule triple_conseq) auto

lemma costs_if: "(b \<Longrightarrow> costs e f w) \<Longrightarrow> (\<not> b \<Longrightarrow> costs e g w) \<Longrightarrow> costs e (if b then f else g) w"
  by simp

lemma costs_option: "(x = None \<Longrightarrow> costs e f w) \<Longrightarrow> (\<And>y. x = Some y \<Longrightarrow> costs e (g y) w) \<Longrightarrow> costs e (case x of None \<Rightarrow> f | Some y \<Rightarrow> g y) w"
  by (cases x) auto

lemma costs_weaken: "costs e m w \<Longrightarrow> e = e' \<Longrightarrow> (\<And>a. w a = w' a) \<Longrightarrow> costs e' m w'"
  by (simp add: costs_def)

text \<open>Without an injected failure the tokens are read without an error.\<close>

lemma costs_malloc: "(\<And>ok. w ok = of_bool ok) \<Longrightarrow> costs e (allocated C_ORM_MALLOC) w"
  by (auto simp: costs_def triple_def allocated_def split: prod.splits dest: malloc_live)

lemma costs_realloc: "(\<And>ok. w ok = 0) \<Longrightarrow> costs e (allocated C_ORM_REALLOC) w"
  by (auto simp: costs_def triple_def allocated_def split: prod.splits dest: realloc_live)

lemma costs_peek: "costs e sql_parser_peek (\<lambda>_. 0)"
  by (simp add: costs_def triple_def sql_parser_peek_def pbind_def countdown_def Let_def)

lemma costs_consume: "costs e sql_parser_consume (\<lambda>_. 0)"
  by (simp add: costs_def triple_def sql_parser_consume_def pbind_def countdown_def Let_def)

lemma costs_match_keyword: "costs e (sql_parser_match_keyword kw) (\<lambda>_. 0)"
  unfolding sql_parser_match_keyword_def
  by (intro costs_bind[OF costs_peek] costs_if costs_bind[OF costs_consume] costs_return) simp_all

lemma costs_match_kind: "costs e (sql_parser_match_kind k) (\<lambda>_. 0)"
  unfolding sql_parser_match_kind_def
  by (intro costs_bind[OF costs_peek] costs_if costs_bind[OF costs_consume] costs_return) simp_all

lemma costs_set_error: "e = 0 \<Longrightarrow> costs e (sql_parser_set_error msg) w"
  by (auto simp: costs_def triple_def sql_parser_set_error_def sql_parser_peek_def pbind_def countdown_def Let_def split: option.splits)

lemma costs_expect: "e = 0 \<Longrightarrow> costs e (expect k msg) (\<lambda>_. 0)"
  unfolding expect_def by (intro costs_bind[OF costs_match_kind] costs_option costs_return costs_set_error) simp_all

lemma costs_expect_keyword: "e = 0 \<Longrightarrow> costs e (expect_keyword kw msg) (\<lambda>_. 0)"
  unfolding expect_keyword_def by (intro costs_bind[OF costs_match_keyword] costs_if costs_return costs_set_error) simp_all

lemma costs_copy: "e = 0 \<Longrightarrow> costs e (copy_token msg tok) (\<lambda>_. 1)"
  unfolding copy_token_def
  by (rule costs_bind[OF costs_malloc, OF refl], rule costs_if) (auto intro: costs_return costs_set_error)

lemma costs_seq: "costs e m (\<lambda>_. 0) \<Longrightarrow> (\<And>a. costs e (k a) w) \<Longrightarrow> costs e (pbind m k) w"
  by (rule costs_bind[where v = "\<lambda>_. 0"]) simp_all

lemma costs_copied: "e = 0 \<Longrightarrow> (\<And>x. costs (e + 1) (k x) (\<lambda>b. w b - 1)) \<Longrightarrow> costs e (pbind (copy_token msg tok) k) w"
  by (rule costs_bind[OF costs_copy]) simp_all

lemma costs_malloced: "costs (e + 1) (k True) (\<lambda>b. w b - 1) \<Longrightarrow> costs e (k False) w \<Longrightarrow> costs e (pbind (allocated C_ORM_MALLOC) k) w"
  by (rule costs_bind[OF costs_malloc, OF refl]) (case_tac a; simp)

lemma costs_cleanup: "costs 0 m w \<Longrightarrow> (\<And>h. live (f h) = live h - e) \<Longrightarrow> costs e (on_fail f m) w"
  by (rule costs_on_fail) simp_all

lemma costs_copied_cleanup: "(\<And>h. live (f h) = live h - e) \<Longrightarrow> (\<And>x. costs (e + 1) (k x) (\<lambda>b. w b - 1))
    \<Longrightarrow> costs e (pbind (on_fail f (copy_token msg tok)) k) w"
  by (rule costs_bind[OF costs_cleanup[OF costs_copy]]) simp_all

text \<open>The rules that only read tokens, and the ones for the branches.\<close>

lemmas costs_reads = costs_match_keyword costs_match_kind costs_peek costs_expect costs_expect_keyword
lemmas costs_ends = costs_return costs_perr costs_stuck costs_set_error costs_cleanup
lemmas costs_branches = costs_if costs_option

lemma costs_type_length: "e = 0 \<Longrightarrow> costs e sql_type_length (\<lambda>_. 0)"
  unfolding sql_type_length_def by (intro costs_seq costs_branches costs_reads costs_ends) simp_all

lemma costs_match_two: "costs e (match_two a b) (\<lambda>_. 0)"
  unfolding match_two_def by (intro costs_seq costs_reads costs_ends) simp

lemma costs_match_three: "costs e (match_three a b c) (\<lambda>_. 0)"
  unfolding match_three_def by (intro costs_seq costs_reads costs_ends) simp

lemma costs_data_type: "e = 0 \<Longrightarrow> costs e sql_parse_data_type (\<lambda>_. 0)"
  unfolding sql_parse_data_type_def
  by (intro costs_seq costs_branches costs_reads costs_ends costs_match_two costs_match_three costs_type_length) simp_all

section \<open>Memory of the constraints\<close>

lemma con_blocks_simps [simp]:
  "con_blocks empty_constraint = 0" "con_blocks (c\<lparr>sc_type := ty\<rparr>) = con_blocks c"
  "sc_default_value c = None \<Longrightarrow> con_blocks (c\<lparr>sc_default_value := Some v\<rparr>) = con_blocks c + 1"
  "sc_reference_table c = None \<Longrightarrow> con_blocks (c\<lparr>sc_reference_table := Some v\<rparr>) = con_blocks c + 1"
  "sc_reference_column c = None \<Longrightarrow> con_blocks (c\<lparr>sc_reference_column := Some v\<rparr>) = con_blocks c + 1"
  by (simp_all add: con_blocks_def empty_constraint_def)

lemma empty_constraint_sel [simp]:
  "sc_type empty_constraint = SQL_CONSTRAINT_NONE" "sc_reference_table empty_constraint = None"
  "sc_reference_column empty_constraint = None" "sc_default_value empty_constraint = None" "sc_columns empty_constraint = None"
  by (simp_all add: empty_constraint_def)

lemma costs_match_kinds: "costs e (match_kinds ks) (\<lambda>_. 0)"
  by (induction ks) (auto intro!: costs_seq costs_branches costs_reads costs_ends)

lemma costs_default: "e = 0 \<Longrightarrow> costs e parse_default con_blocks"
  unfolding parse_default_def
  by (intro costs_seq costs_match_kinds costs_option costs_copied costs_ends) simp_all

lemma costs_reference_column:
  "e = con_blocks c \<Longrightarrow> sc_reference_column c = None \<Longrightarrow> costs e (parse_reference_column c) (\<lambda>d. con_blocks d - con_blocks c)"
  unfolding parse_reference_column_def Let_def
  by (intro costs_seq costs_copied_cleanup costs_branches costs_reads costs_ends) simp_all

lemma costs_references: "costs 0 parse_references con_blocks"
  unfolding parse_references_def Let_def
  by (intro costs_seq costs_copied costs_reads costs_bind[where v = "\<lambda>d. con_blocks d - 1"] costs_branches costs_ends)
    (simp_all add: costs_reference_column[THEN costs_weaken])

lemma costs_column_constraint: "e = 0 \<Longrightarrow> costs e sql_parse_column_constraint con_blocks"
  unfolding sql_parse_column_constraint_def
  by (intro costs_seq costs_branches costs_reads costs_ends costs_default) (simp_all add: costs_references)

lemma con_blocks_columns [simp]:
  "con_blocks (c\<lparr>sc_columns := Some ks\<rparr>)
     = con_blocks c + int (length ks) + (case sc_columns c of None \<Rightarrow> 1 | Some ls \<Rightarrow> - int (length ls))"
  by (simp add: con_blocks_def split: option.splits)

lemma costs_array: "(\<And>ok. costs (e + of_bool (xs = None \<and> ok)) (k ok) (\<lambda>b. w b - of_bool (xs = None \<and> ok)))
    \<Longrightarrow> costs e (pbind (allocated (if xs = None then C_ORM_MALLOC else C_ORM_REALLOC)) k) w"
  by (cases xs) (auto intro: costs_bind[OF costs_malloc, OF refl] costs_bind[OF costs_realloc, OF refl])

lemma costs_add_con_column: "e = con_blocks c \<Longrightarrow> costs e (add_con_column c tok) (\<lambda>d. con_blocks d - con_blocks c)"
  unfolding add_con_column_def Let_def
  by (intro costs_array costs_copied_cleanup costs_branches costs_ends) (simp_all split: option.splits)

lemma costs_con_column:
  "e = con_blocks c \<Longrightarrow> costs e (con_column c) (\<lambda>r. con_blocks (fst r) - con_blocks c)"
  unfolding con_column_def
  by (intro costs_seq costs_reads costs_ends costs_bind[OF costs_add_con_column]) simp_all

text \<open>The loops keep account of what they have built.\<close>

definition held :: "int \<Rightarrow> SqlParserState \<Rightarrow> bool" where
  "held n s \<longleftrightarrow> ps_fail s < 0 \<and> live (ps_heap s) = n"

lemma costs_held: "costs e m w \<longleftrightarrow> (\<forall>n. triple True (held (n + e)) m (\<lambda>a. held (n + e + w a)) (held n))"
proof -
  have "costs e m w \<longleftrightarrow> (\<forall>n. triple True (held n) m (\<lambda>a. held (n + w a)) (held (n - e)))"
    by (simp add: costs_def held_def[abs_def])
  also have "\<dots> \<longleftrightarrow> (\<forall>n. triple True (held (n + e)) m (\<lambda>a. held (n + e + w a)) (held n))"
    by (metis add_diff_cancel_right' diff_add_cancel)
  finally show ?thesis .
qed

lemma costs_con_columns: "e = con_blocks c \<Longrightarrow> costs e (con_columns c) (\<lambda>d. con_blocks d - con_blocks c)"
proof -
  have "triple True (held (n + con_blocks c)) (con_columns c) (\<lambda>d. held (n + con_blocks d)) (held n)" for n
  proof (rule triple_con_columns)
    fix c
    have "costs (con_blocks c) (con_column c) (\<lambda>r. con_blocks (fst r) - con_blocks c)" by (rule costs_con_column[OF refl])
    then have t: "triple True (held (n + con_blocks c)) (con_column c) (\<lambda>r. held (n + con_blocks (fst r))) (held n)"
      by (simp add: costs_held)
    show "triple True (held (n + con_blocks c)) (con_column c)
        (\<lambda>r. if snd r then held (n + con_blocks (fst r)) else held (n + con_blocks (fst r))) (held n)"
      using t by (rule triple_conseq) auto
  qed
  then show "e = con_blocks c \<Longrightarrow> ?thesis" by (simp add: costs_held)
qed

lemma costs_constraint_reference:
  "e = con_blocks c \<Longrightarrow> sc_reference_table c = None \<Longrightarrow> sc_reference_column c = None \<Longrightarrow>
   costs e (constraint_reference c) (\<lambda>d. con_blocks d - con_blocks c)"
  unfolding constraint_reference_def Let_def
  by (intro costs_bind[where v = "\<lambda>_. 1"] costs_cleanup costs_seq costs_reads costs_branches costs_ends costs_copy) simp_all

text \<open>A constraint under construction has no reference yet.\<close>

definition unreferenced :: "sql_constraint_t \<Rightarrow> bool" where
  "unreferenced c \<longleftrightarrow> sc_reference_table c = None \<and> sc_reference_column c = None"

lemma yields_ends: "p a \<Longrightarrow> yields p (preturn a)" "yields p (sql_parser_set_error msg)" "yields p (on_fail f (sql_parser_set_error msg))"
proof -
  have e: "yields p (sql_parser_set_error msg)"
    by (auto simp: yields_def triple_def sql_parser_set_error_def pbind_def split: option.splits prod.splits outcome.splits)
  then show "yields p (on_fail f (sql_parser_set_error msg))" by (auto simp: yields_def intro: triple_on_fail)
qed (auto simp: yields_def triple_def preturn_def, auto simp: sql_parser_set_error_def pbind_def split: option.splits prod.splits outcome.splits)

lemma yields_add_con_column: "unreferenced c \<Longrightarrow> yields unreferenced (add_con_column c tok)"
  unfolding add_con_column_def Let_def by (auto intro!: yields_bind yields_ends simp: unreferenced_def)

lemma yields_con_column: "unreferenced c \<Longrightarrow> yields (\<lambda>r. unreferenced (fst r)) (con_column c)"
  unfolding con_column_def
  by (rule yields_bind, rule yields_bind2[OF yields_add_con_column]) (auto intro!: yields_bind yields_ends)

lemma yields_con_columns: "unreferenced c \<Longrightarrow> yields unreferenced (con_columns c)"
proof -
  have "triple True (\<lambda>_. unreferenced c) (con_columns c) (\<lambda>d _. unreferenced d) (\<lambda>_. True)"
  proof (rule triple_con_columns)
    fix c :: sql_constraint_t
    show "triple True (\<lambda>_. unreferenced c) (con_column c)
        (\<lambda>r. if snd r then \<lambda>_. unreferenced (fst r) else (\<lambda>_. unreferenced (fst r))) (\<lambda>_. True)"
    proof (cases "unreferenced c")
      case True
      from yields_con_column[OF this] show ?thesis unfolding yields_def by (rule triple_conseq) auto
    qed (simp add: triple_def)
  qed
  then show "unreferenced c \<Longrightarrow> ?thesis" by (simp add: yields_def)
qed

lemma costs_bind_yields:
  assumes y: "yields p m" and m: "costs e m v" and k: "\<And>a. p a \<Longrightarrow> costs (e + v a) (k a) (\<lambda>b. w b - v a)"
  shows "costs e (pbind m k) w"
proof -
  define k' where "k' a = (if p a then k a else stuck)" for a
  have "pbind m k s = pbind m k' s" for s
    using y by (auto simp: pbind_def k'_def yields_def triple_def split: prod.splits outcome.splits)
  then have "pbind m k = pbind m k'" by (rule ext)
  moreover have "costs e (pbind m k') w"
    by (rule costs_bind[OF m]) (auto simp: k'_def k costs_stuck)
  ultimately show ?thesis by simp
qed

lemma costs_table_constraint_type: "costs 0 table_constraint_type (\<lambda>_. 0)"
  unfolding table_constraint_type_def by (intro costs_seq costs_branches costs_reads costs_ends) simp_all

lemma costs_parse_table_constraint: "costs 0 sql_parse_table_constraint con_blocks"
  unfolding sql_parse_table_constraint_def
proof (rule costs_seq[OF costs_table_constraint_type], rule costs_seq[OF costs_expect[OF refl]])
  fix ty and tok :: sql_token_t and msg
  have c: "costs 0 (con_columns (empty_constraint\<lparr>sc_type := ty\<rparr>)) con_blocks"
    using costs_con_columns[of 0 "empty_constraint\<lparr>sc_type := ty\<rparr>"] by simp
  have u: "unreferenced (empty_constraint\<lparr>sc_type := ty\<rparr>)" by (simp add: unreferenced_def)
  have "costs 0 (pbind (con_columns (empty_constraint\<lparr>sc_type := ty\<rparr>)) (\<lambda>c.
     pbind (on_fail (sql_constraint_free_internals c) (expect SQL_TOKEN_RPAREN msg)) (\<lambda>_.
     if ty = SQL_CONSTRAINT_FOREIGN_KEY then constraint_reference c else preturn c))) con_blocks" for msg
  proof (rule costs_bind_yields[OF yields_con_columns[OF u] c])
    fix d assume "unreferenced d"
    then have "costs (con_blocks d) (constraint_reference d) (\<lambda>x. con_blocks x - con_blocks d)"
      by (intro costs_constraint_reference) (simp_all add: unreferenced_def)
    then show "costs (0 + con_blocks d) (pbind (on_fail (sql_constraint_free_internals d) (expect SQL_TOKEN_RPAREN msg))
        (\<lambda>_. if ty = SQL_CONSTRAINT_FOREIGN_KEY then constraint_reference d else preturn d)) (\<lambda>b. con_blocks b - con_blocks d)"
      by (intro costs_seq costs_cleanup costs_reads costs_if costs_return) simp_all
  qed
  then show "costs 0 (pbind (con_columns (empty_constraint\<lparr>sc_type := ty\<rparr>)) (\<lambda>c.
     pbind (on_fail (sql_constraint_free_internals c) (expect SQL_TOKEN_RPAREN ''Expected ')' after constraint columns'')) (\<lambda>_.
     if ty = SQL_CONSTRAINT_FOREIGN_KEY then constraint_reference c else preturn c))) con_blocks" .
qed

section \<open>Memory of the tables\<close>

lemma costs_next_constraint:
  "costs 0 next_constraint (\<lambda>n. case n of More c \<Rightarrow> con_blocks c | Enough \<Rightarrow> 0)"
proof -
  have "costs 0 (\<lambda>s. case sql_parse_column_constraint s of (Ret c, t) \<Rightarrow> (Ret (More c), t)
       | (Err e, t) \<Rightarrow> if e = C_ORM_ERROR_NOT_FOUND then (Ret Enough, t) else (Err e, t) | (Stuck, t) \<Rightarrow> (Stuck, t))
     (\<lambda>n. case n of More c \<Rightarrow> con_blocks c | Enough \<Rightarrow> 0)"
    unfolding costs_def
  proof (rule allI, unfold triple_def, intro allI impI)
    fix n and s :: SqlParserState assume s: "ps_fail s < 0 \<and> live (ps_heap s) = n"
    obtain r t where r: "sql_parse_column_constraint s = (r, t)" by (cases "sql_parse_column_constraint s")
    have "triple True (\<lambda>s. ps_fail s < 0 \<and> live (ps_heap s) = n) sql_parse_column_constraint
       (\<lambda>a s. ps_fail s < 0 \<and> live (ps_heap s) = n + con_blocks a) (\<lambda>s. ps_fail s < 0 \<and> live (ps_heap s) = n - 0)"
      using costs_column_constraint[OF refl] by (simp only: costs_def)
    from triple_at[OF this s r]
    show "case case sql_parse_column_constraint s of (Ret c, t) \<Rightarrow> (Ret (More c), t)
         | (Err e, t) \<Rightarrow> if e = C_ORM_ERROR_NOT_FOUND then (Ret Enough, t) else (Err e, t) | (Stuck, t) \<Rightarrow> (Stuck, t) of
        (Ret a, t) \<Rightarrow> ps_fail t < 0 \<and> live (ps_heap t) = n + (case a of More c \<Rightarrow> con_blocks c | Enough \<Rightarrow> 0)
      | (Err e, t) \<Rightarrow> ps_fail t < 0 \<and> live (ps_heap t) = n - 0 | (Stuck, t) \<Rightarrow> True"
      by (cases r) (simp_all add: r)
  qed
  then show ?thesis
    unfolding next_constraint_def by (intro costs_seq costs_peek costs_if costs_return) simp_all
qed

lemma costs_column_round:
  "e = 1 + sum_of con_blocks cs \<Longrightarrow>
   costs e (column_round cs cap) (\<lambda>r. case r of None \<Rightarrow> 0 | Some p \<Rightarrow> sum_of con_blocks (fst p) - sum_of con_blocks cs)"
  unfolding column_round_def
proof (rule costs_bind[OF costs_cleanup[OF costs_next_constraint]], simp)
  fix n assume e: "e = 1 + sum_of con_blocks cs"
  have a: "costs (con_blocks c) (add_constraint cs cap c) (\<lambda>_. 0)" for c
    unfolding add_constraint_def
    by (auto intro!: costs_bind[OF costs_realloc, OF refl] costs_return costs_on_fail[where n = "con_blocks c"] costs_perr)
  show "costs (e + (case n of More c \<Rightarrow> con_blocks c | Enough \<Rightarrow> 0))
      (case n of More c \<Rightarrow> pbind (on_fail (free_constraints cs) (add_constraint cs cap c)) (\<lambda>cap. preturn (Some (cs @ [c], cap)))
         | Enough \<Rightarrow> preturn None)
      (\<lambda>b. (case b of None \<Rightarrow> 0 | Some p \<Rightarrow> sum_of con_blocks (fst p) - sum_of con_blocks cs)
         - (case n of More c \<Rightarrow> con_blocks c | Enough \<Rightarrow> 0))"
    by (cases n) (auto simp: e intro!: costs_return costs_seq costs_on_fail[where n = "1 + sum_of con_blocks cs"] a)
qed

lemma costs_column_constraints:
  "e = 1 + sum_of con_blocks cs \<Longrightarrow>
   costs e (column_constraints cs cap) (\<lambda>ds. sum_of con_blocks ds - sum_of con_blocks cs)"
proof -
  have "triple True (held (n + (1 + sum_of con_blocks cs))) (column_constraints cs cap)
      (\<lambda>ds. held (n + (1 + sum_of con_blocks ds))) (held n)" for n
  proof (rule triple_column_constraints)
    fix cs cap
    have t: "triple True (held (n + (1 + sum_of con_blocks cs))) (column_round cs cap)
       (\<lambda>r. held (n + (1 + sum_of con_blocks cs) + (case r of None \<Rightarrow> 0 | Some p \<Rightarrow> sum_of con_blocks (fst p) - sum_of con_blocks cs))) (held n)"
      using costs_column_round[OF refl] by (simp only: costs_held)
    show "triple True (held (n + (1 + sum_of con_blocks cs))) (column_round cs cap)
        (\<lambda>r. case r of None \<Rightarrow> held (n + (1 + sum_of con_blocks cs)) | Some (ds, _) \<Rightarrow> held (n + (1 + sum_of con_blocks ds))) (held n)"
      using t by (rule triple_conseq) (auto split: option.splits simp: algebra_simps)
  qed
  then show "e = 1 + sum_of con_blocks cs \<Longrightarrow> ?thesis" by (simp add: costs_held algebra_simps)
qed

lemma costs_table_array: "(\<And>ok. costs (e + of_bool (xs = [] \<and> ok)) (k ok) (\<lambda>b. w b - of_bool (xs = [] \<and> ok)))
    \<Longrightarrow> costs e (pbind (table_array xs) k) w"
  unfolding table_array_def
  by (cases xs) (auto intro: costs_bind[OF costs_malloc, OF refl] costs_bind[OF costs_realloc, OF refl])

lemma table_blocks_simps [simp]:
  "table_blocks (t\<lparr>st_constraints := st_constraints t @ [c]\<rparr>) = table_blocks t + con_blocks c + of_bool (st_constraints t = [])"
  "table_blocks (t\<lparr>st_columns := st_columns t @ [col]\<rparr>) = table_blocks t + column_blocks col + of_bool (st_columns t = [])"
  "st_constraints t = [] \<Longrightarrow> table_blocks (t\<lparr>st_constraints := [c]\<rparr>) = table_blocks t + con_blocks c + 1"
  "st_columns t = [] \<Longrightarrow> table_blocks (t\<lparr>st_columns := [col]\<rparr>) = table_blocks t + column_blocks col + 1"
  "table_blocks \<lparr>st_name = Some n, st_columns = [], st_constraints = []\<rparr> = 1"
  "table_blocks \<lparr>st_name = None, st_columns = [], st_constraints = []\<rparr> = 0"
  by (simp_all add: table_blocks_def)

lemma costs_table_constraint:
  "e = 1 + table_blocks t \<Longrightarrow> costs e (table_constraint t) (\<lambda>u. table_blocks u - table_blocks t)"
  unfolding table_constraint_def
  by (rule costs_bind[OF costs_cleanup[OF costs_parse_table_constraint]])
    (auto intro!: costs_table_array costs_ends)

lemma costs_column_definition: "costs 0 column_definition column_blocks"
proof -
  have cs: "costs 2 (pbind (on_fail C_ORM_FREE (column_constraints [] 2)) (\<lambda>cs. preturn (mk cs))) (\<lambda>b. column_blocks b - 2)"
    if "\<And>cs. column_blocks (mk cs) = 2 + sum_of con_blocks cs" for mk
    by (rule costs_bind[OF costs_on_fail[where n = 1, OF costs_column_constraints]]) (auto simp: that intro!: costs_return)
  show ?thesis
    unfolding column_definition_def
    by (rule costs_seq[OF costs_expect[OF refl]], rule costs_copied, rule refl,
        rule costs_seq[OF costs_cleanup[OF costs_data_type[OF refl]]], simp, rule costs_malloced)
      (auto simp: column_blocks_def intro!: costs_cleanup costs_set_error cs[THEN costs_weaken])
qed

lemma costs_table_column:
  "e = 1 + table_blocks t \<Longrightarrow> costs e (table_column t) (\<lambda>u. table_blocks u - table_blocks t)"
  unfolding table_column_def
  by (rule costs_bind[OF costs_cleanup[OF costs_column_definition]])
    (auto intro!: costs_table_array costs_ends)

lemma costs_table_element:
  "e = 1 + table_blocks t \<Longrightarrow> costs e (table_element t) (\<lambda>r. table_blocks (fst r) - table_blocks t)"
  unfolding table_element_def
  by (intro costs_seq costs_cleanup costs_peek costs_if costs_return costs_bind[where v = "\<lambda>u. table_blocks u - table_blocks t"]
      costs_table_constraint costs_table_column costs_match_kind) simp_all

lemma costs_table_elements:
  "e = 1 + table_blocks t \<Longrightarrow> costs e (table_elements t) (\<lambda>u. table_blocks u - table_blocks t)"
proof -
  have "triple True (held (n + (1 + table_blocks t))) (table_elements t) (\<lambda>u. held (n + (1 + table_blocks u))) (held n)" for n
  proof (rule triple_table_elements)
    fix t
    have x: "triple True (held (n + (1 + table_blocks t))) (table_element t)
       (\<lambda>r. held (n + (1 + table_blocks t) + (table_blocks (fst r) - table_blocks t))) (held n)"
      using costs_table_element[OF refl] by (simp only: costs_held)
    show "triple True (held (n + (1 + table_blocks t))) (table_element t)
       (\<lambda>r. if snd r then held (n + (1 + table_blocks (fst r))) else held (n + (1 + table_blocks (fst r)))) (held n)"
      using x by (rule triple_conseq) (auto simp: algebra_simps)
  qed
  then show "e = 1 + table_blocks t \<Longrightarrow> ?thesis" by (simp add: costs_held algebra_simps)
qed

lemma costs_parse_table: "costs 0 parse_table (\<lambda>t. 1 + table_blocks t)"
proof -
  have body: "costs 2 (pbind (table_elements t) (\<lambda>t1.
       pbind (on_fail (free_table t1) (expect SQL_TOKEN_RPAREN msg)) (\<lambda>_.
       pbind (on_fail (free_table t1) (sql_parser_match_kind SQL_TOKEN_SEMICOLON)) (\<lambda>_. preturn t1)))) (\<lambda>u. table_blocks u - 1)"
    if "table_blocks t = 1" for t msg
    by (rule costs_bind[OF costs_table_elements]) (auto simp: that intro!: costs_seq costs_cleanup costs_reads costs_return)
  show ?thesis
    unfolding parse_table_def Let_def
    by (rule costs_seq[OF costs_expect_keyword[OF refl]], rule costs_seq[OF costs_expect_keyword[OF refl]],
        rule costs_seq[OF costs_expect[OF refl]], rule costs_malloced, simp_all add: costs_set_error)
      (rule costs_copied_cleanup, simp, rule costs_seq[OF costs_cleanup[OF costs_expect[OF refl]]], simp,
        rule body[THEN costs_weaken], simp_all)
qed

end
