(* ===== verification/SqlSafe.thy ===== *)
theory SqlSafe
  imports SqlParseSpec
begin

text \<open>
  The parser stays inside its token array (\<open>guarded\<close>), and what it leaves allocated: the theorems about
  \<open>parse_sql_ddl\<close> for every text, whatever the parser makes of it.
\<close>

section \<open>Inside the token array\<close>

definition stops :: "sql_token_t \<Rightarrow> bool" where
  \<comment> \<open>the parser never passes such a token, but for the semicolon with which it ends\<close>
  "stops t \<longleftrightarrow> tok_kind t = SQL_TOKEN_EOF \<or> tok_kind t = SQL_TOKEN_SEMICOLON"

definition small_number :: "sql_token_t \<Rightarrow> bool" where
  "small_number t \<longleftrightarrow> (tok_kind t = SQL_TOKEN_NUMBER \<longrightarrow> sql_number 0 (tok_text t) \<noteq> None)"

definition sound :: "SqlParserState \<Rightarrow> bool" where
  "sound s \<longleftrightarrow> (\<forall>t \<in> set (ps_tokens s). small_number t) \<and> (\<exists>t \<in> set (drop (ps_cursor s) (ps_tokens s)). stops t)"

lemma sound_simps [simp]:
  "sound (s\<lparr>ps_fail := n\<rparr>) = sound s" "sound (s\<lparr>ps_heap := h\<rparr>) = sound s" "sound (s\<lparr>ps_error := e\<rparr>) = sound s"
  by (simp_all add: sound_def)

lemma stops_not_space: "stops t \<Longrightarrow> \<not> is_space t"
  by (auto simp: stops_def is_space_def)

lemma skip_spaces_sound:
  assumes "sound s"
  shows "skip_spaces s < length (ps_tokens s)"
    and "\<not> stops (ps_tokens s ! skip_spaces s) \<Longrightarrow> \<exists>t \<in> set (drop (Suc (skip_spaces s)) (ps_tokens s)). stops t"
proof -
  define ts where "ts = drop (ps_cursor s) (ps_tokens s)"
  from assms obtain t where t: "t \<in> set ts" "stops t" by (auto simp: sound_def ts_def)
  then have "dropWhile is_space ts \<noteq> []" using stops_not_space by (auto simp: dropWhile_eq_Nil_conv)
  then have len: "length (takeWhile is_space ts) < length ts"
    by (metis append_Nil2 length_append length_greater_0_conv less_add_same_cancel1 takeWhile_dropWhile_id)
  then show l: "skip_spaces s < length (ps_tokens s)" by (simp add: skip_spaces_def ts_def)
  have n: "ps_tokens s ! skip_spaces s = ts ! length (takeWhile is_space ts)"
    using len by (simp add: skip_spaces_def ts_def)
  have d: "drop (Suc (skip_spaces s)) (ps_tokens s) = drop (Suc (length (takeWhile is_space ts))) ts"
    by (simp add: skip_spaces_def ts_def add.commute)
  have split: "ts = takeWhile is_space ts @ ts ! length (takeWhile is_space ts) # drop (Suc (length (takeWhile is_space ts))) ts"
    using len by (metis append_take_drop_id Cons_nth_drop_Suc takeWhile_eq_take)
  assume "\<not> stops (ps_tokens s ! skip_spaces s)"
  with n have ne: "\<not> stops (ts ! length (takeWhile is_space ts))" by simp
  from t(1) have "t \<in> set (takeWhile is_space ts) \<or> t = ts ! length (takeWhile is_space ts)
      \<or> t \<in> set (drop (Suc (length (takeWhile is_space ts))) ts)"
    by (subst (asm) split) auto
  with t(2) ne show "\<exists>t \<in> set (drop (Suc (skip_spaces s)) (ps_tokens s)). stops t"
    unfolding d by (metis set_takeWhileD stops_not_space)
qed

definition guarded :: "'a parse \<Rightarrow> bool" where
  "guarded m \<longleftrightarrow> triple False sound m (\<lambda>_. sound) sound"

lemma guarded_bind: "guarded m \<Longrightarrow> (\<And>a. guarded (k a)) \<Longrightarrow> guarded (pbind m k)"
  unfolding guarded_def by (rule triple_bind)

lemma guarded_ends: "guarded (preturn a)" "guarded (perr e)"
  by (auto simp: guarded_def intro: triple_return triple_perr)

lemma guarded_on_fail: "guarded m \<Longrightarrow> guarded (on_fail f m)"
  unfolding guarded_def by (rule triple_on_fail) simp

lemma guarded_if: "guarded f \<Longrightarrow> guarded g \<Longrightarrow> guarded (if b then f else g)"
  by simp

lemma guarded_option: "guarded f \<Longrightarrow> (\<And>y. guarded (g y)) \<Longrightarrow> guarded (case x of None \<Rightarrow> f | Some y \<Rightarrow> g y)"
  by (cases x) auto

lemma guarded_allocated: "guarded (allocated f)"
  by (auto simp: guarded_def triple_def allocated_def split: prod.splits)

text \<open>What a successful peek or match has seen.\<close>

definition current :: "sql_token_t \<Rightarrow> SqlParserState \<Rightarrow> bool" where
  "current tok s \<longleftrightarrow> sound s \<and> skip_spaces s < length (ps_tokens s) \<and> ps_tokens s ! skip_spaces s = tok"

lemma skip_spaces_simps [simp]: "skip_spaces (s\<lparr>ps_fail := n\<rparr>) = skip_spaces s" "skip_spaces (s\<lparr>ps_error := e\<rparr>) = skip_spaces s"
  by (simp_all add: skip_spaces_def)

lemma peek_current: "triple False sound sql_parser_peek current sound"
  by (auto simp: triple_def sql_parser_peek_def pbind_def countdown_def Let_def current_def skip_spaces_sound(1))

lemma consume_current: "\<not> stops tok \<Longrightarrow> triple False (current tok) sql_parser_consume (\<lambda>_. sound) sound"
  using skip_spaces_sound(2)
  by (auto simp: triple_def sql_parser_consume_def pbind_def countdown_def Let_def current_def) (auto simp: sound_def)

lemma guarded_peek: "guarded sql_parser_peek"
  unfolding guarded_def by (rule triple_conseq[OF peek_current]) (auto simp: current_def)

lemma match_guarded:
  assumes "\<And>tok. p tok \<Longrightarrow> \<not> stops tok" and "\<And>tok s. current tok s \<Longrightarrow> p tok \<Longrightarrow> sound s \<Longrightarrow> q tok"
    and y: "\<And>tok. p tok \<Longrightarrow> q tok \<Longrightarrow> Q (y tok)" and n: "Q n"
  shows "triple False sound (pbind sql_parser_peek (\<lambda>tok. if p tok then pbind sql_parser_consume (\<lambda>_. preturn (y tok)) else preturn n))
    (\<lambda>r s. sound s \<and> Q r) sound"
proof (rule triple_bind[OF peek_current])
  fix tok
  show "triple False (current tok) (if p tok then pbind sql_parser_consume (\<lambda>_. preturn (y tok)) else preturn n)
      (\<lambda>r s. sound s \<and> Q r) sound"
  proof (cases "p tok \<and> q tok")
    case True
    then show ?thesis
      using assms(1) y by (auto intro!: triple_bind[OF consume_current] triple_return)
  next
    case False
    then show ?thesis
      using assms(2) n by (auto simp: triple_def current_def preturn_def)
  qed
qed

lemma guarded_match_keyword: "guarded (sql_parser_match_keyword kw)"
  using match_guarded[of "is_keyword kw" "\<lambda>_. True" "\<lambda>_. True" "\<lambda>_. True" False]
  by (auto simp: guarded_def sql_parser_match_keyword_def is_keyword_def stops_def)

lemma guarded_match_kind:
  assumes "k \<noteq> SQL_TOKEN_EOF" and "k \<noteq> SQL_TOKEN_SEMICOLON"
  shows "guarded (sql_parser_match_kind k)"
  using match_guarded[of "\<lambda>t. tok_kind t = k" "\<lambda>_. True" "\<lambda>_. True" Some None] assms
  by (auto simp: guarded_def sql_parser_match_kind_def stops_def)

lemma match_number:
  "triple False sound (sql_parser_match_kind SQL_TOKEN_NUMBER)
     (\<lambda>r s. sound s \<and> (\<forall>tok. r = Some tok \<longrightarrow> sql_number 0 (tok_text tok) \<noteq> None)) sound"
  unfolding sql_parser_match_kind_def
  by (rule match_guarded[where q = "\<lambda>tok. sql_number 0 (tok_text tok) \<noteq> None"])
    (auto simp: stops_def current_def sound_def small_number_def)

lemma guarded_set_error: "guarded (sql_parser_set_error msg)"
  using skip_spaces_sound(1)
  by (auto simp: guarded_def triple_def sql_parser_set_error_def sql_parser_peek_def pbind_def countdown_def Let_def
      split: option.splits)

lemma guarded_expect: "k \<noteq> SQL_TOKEN_EOF \<Longrightarrow> k \<noteq> SQL_TOKEN_SEMICOLON \<Longrightarrow> guarded (expect k msg)"
  unfolding expect_def by (intro guarded_bind guarded_match_kind guarded_option guarded_ends guarded_set_error)

lemma guarded_expect_keyword: "guarded (expect_keyword kw msg)"
  unfolding expect_keyword_def by (intro guarded_bind guarded_match_keyword guarded_if guarded_ends guarded_set_error)

lemma guarded_copy: "guarded (copy_token msg tok)"
  unfolding copy_token_def by (intro guarded_bind guarded_allocated guarded_if guarded_ends guarded_set_error)

lemmas guarded_rules = guarded_bind guarded_ends guarded_on_fail guarded_if guarded_option guarded_allocated guarded_peek
  guarded_match_keyword guarded_match_kind guarded_set_error guarded_expect guarded_expect_keyword guarded_copy

lemma guarded_type_length: "guarded sql_type_length"
proof -
  have "guarded (pbind (sql_parser_match_kind SQL_TOKEN_NUMBER) (\<lambda>num.
       pbind (case num of None \<Rightarrow> preturn (-1)
              | Some tok \<Rightarrow> (case sql_number 0 (tok_text tok) of None \<Rightarrow> stuck | Some v \<Rightarrow> preturn v)) (\<lambda>len.
       pbind (expect SQL_TOKEN_RPAREN msg) (\<lambda>_. preturn len))))" for msg
    unfolding guarded_def
  proof (rule triple_bind[OF match_number])
    fix num
    have e: "guarded (pbind (expect SQL_TOKEN_RPAREN msg) (\<lambda>_. preturn len))" for len :: int
      by (intro guarded_rules) simp_all
    show "triple False (\<lambda>s. sound s \<and> (\<forall>tok. num = Some tok \<longrightarrow> sql_number 0 (tok_text tok) \<noteq> None))
       (pbind (case num of None \<Rightarrow> preturn (-1)
              | Some tok \<Rightarrow> (case sql_number 0 (tok_text tok) of None \<Rightarrow> stuck | Some v \<Rightarrow> preturn v)) (\<lambda>len.
       pbind (expect SQL_TOKEN_RPAREN msg) (\<lambda>_. preturn len))) (\<lambda>_. sound) sound"
      by (rule triple_bind[OF _ e[unfolded guarded_def]])
        (auto simp: triple_def preturn_def split: option.splits)
  qed
  note n = this
  show ?thesis
    unfolding sql_type_length_def
    by (rule guarded_bind[OF guarded_match_kind], simp, simp, rule guarded_if[OF guarded_ends(1) n])
qed

lemma guarded_data_type: "guarded sql_parse_data_type"
  unfolding sql_parse_data_type_def match_two_def match_three_def
  by (intro guarded_rules guarded_type_length)

lemma guarded_match_kinds: "SQL_TOKEN_EOF \<notin> set ks \<Longrightarrow> SQL_TOKEN_SEMICOLON \<notin> set ks \<Longrightarrow> guarded (match_kinds ks)"
  by (induction ks) (auto intro!: guarded_rules)

lemma guarded_column_constraint: "guarded sql_parse_column_constraint"
  unfolding sql_parse_column_constraint_def parse_default_def parse_references_def parse_reference_column_def Let_def
  by (intro guarded_rules guarded_match_kinds) simp_all

lemma guarded_con_column: "guarded (con_column c)"
  unfolding con_column_def add_con_column_def Let_def by (intro guarded_rules) simp_all

lemma guarded_con_columns: "guarded (con_columns c)"
  unfolding guarded_def using guarded_con_column
  by (intro triple_con_columns) (auto simp: guarded_def intro: triple_conseq)

lemma guarded_table_constraint: "guarded (table_constraint t)"
  unfolding table_constraint_def sql_parse_table_constraint_def table_constraint_type_def constraint_reference_def
    table_array_def Let_def
  by (intro guarded_rules guarded_con_columns) simp_all

lemma guarded_next_constraint: "guarded next_constraint"
  unfolding next_constraint_def
proof (intro guarded_bind guarded_peek guarded_if guarded_ends)
  show "guarded (\<lambda>s. case sql_parse_column_constraint s of (Ret c, t) \<Rightarrow> (Ret (More c), t)
       | (Err e, t) \<Rightarrow> if e = C_ORM_ERROR_NOT_FOUND then (Ret Enough, t) else (Err e, t) | (Stuck, t) \<Rightarrow> (Stuck, t))"
    unfolding guarded_def
  proof (unfold triple_def, intro allI impI)
    fix s :: SqlParserState assume s: "sound s"
    obtain r t where r: "sql_parse_column_constraint s = (r, t)" by (cases "sql_parse_column_constraint s")
    from triple_at[OF guarded_column_constraint[unfolded guarded_def] s r]
    show "case case sql_parse_column_constraint s of (Ret c, t) \<Rightarrow> (Ret (More c), t)
         | (Err e, t) \<Rightarrow> if e = C_ORM_ERROR_NOT_FOUND then (Ret Enough, t) else (Err e, t) | (Stuck, t) \<Rightarrow> (Stuck, t) of
        (Ret a, t) \<Rightarrow> sound t | (Err e, t) \<Rightarrow> sound t | (Stuck, t) \<Rightarrow> False"
      by (cases r) (simp_all add: r)
  qed
qed

lemma guarded_column_round: "guarded (column_round cs cap)"
proof -
  have "guarded (add_constraint cs cap c)" for c
    unfolding add_constraint_def by (intro guarded_rules)
  then show ?thesis
    unfolding column_round_def
    by (intro guarded_bind guarded_on_fail guarded_next_constraint) (auto intro!: guarded_rules split: column_next.splits)
qed

lemma guarded_column_constraints: "guarded (column_constraints cs cap)"
  unfolding guarded_def
  by (rule triple_column_constraints, rule triple_conseq[OF guarded_column_round[unfolded guarded_def]])
    (auto split: option.splits)

lemma guarded_table_column: "guarded (table_column t)"
  unfolding table_column_def column_definition_def table_array_def
  by (intro guarded_rules guarded_data_type guarded_column_constraints) simp_all

lemma guarded_table_elements: "guarded (table_elements t)"
proof -
  have "guarded (table_element t)" for t
    unfolding table_element_def
    by (intro guarded_rules guarded_table_constraint guarded_table_column) simp_all
  then show ?thesis
    unfolding guarded_def by (intro triple_table_elements) (auto simp: guarded_def intro: triple_conseq)
qed

text \<open>The semicolon may be the last token; nothing is read after it.\<close>

definition finishes :: "'a parse \<Rightarrow> bool" where
  "finishes m \<longleftrightarrow> triple False sound m (\<lambda>_ _. True) (\<lambda>_. True)"

lemma finishes_bind: "guarded m \<Longrightarrow> (\<And>a. finishes (k a)) \<Longrightarrow> finishes (pbind m k)"
  unfolding finishes_def guarded_def by (rule triple_bind) (auto elim: triple_conseq)

lemma guarded_finishes: "guarded m \<Longrightarrow> finishes m"
  unfolding finishes_def guarded_def by (erule triple_conseq) auto

lemma match_semicolon: "finishes (pbind (on_fail f (sql_parser_match_kind SQL_TOKEN_SEMICOLON)) (\<lambda>_. preturn a))"
proof -
  have "triple False sound (sql_parser_match_kind SQL_TOKEN_SEMICOLON) (\<lambda>_ _. True) (\<lambda>_. True)"
    unfolding sql_parser_match_kind_def
    by (rule triple_bind[OF triple_conseq[OF peek_current, of sound current "\<lambda>_. True"]])
      (auto simp: triple_def current_def pbind_def preturn_def sql_parser_consume_def countdown_def Let_def)
  then show ?thesis
    unfolding finishes_def by (intro triple_bind[OF triple_on_fail]) (auto intro: triple_return)
qed

lemma parse_table_finishes: "finishes parse_table"
proof -
  have rest: "finishes (pbind (table_elements t) (\<lambda>t1. pbind (on_fail (free_table t1) (expect SQL_TOKEN_RPAREN msg)) (\<lambda>_.
       pbind (on_fail (free_table t1) (sql_parser_match_kind SQL_TOKEN_SEMICOLON)) (\<lambda>_. preturn t1))))" for t msg
    by (rule finishes_bind[OF guarded_table_elements], rule finishes_bind[OF guarded_on_fail[OF guarded_expect]], simp, simp)
      (rule match_semicolon)
  show ?thesis
    unfolding parse_table_def Let_def
    by (rule finishes_bind[OF guarded_expect_keyword], rule finishes_bind[OF guarded_expect_keyword],
        rule finishes_bind[OF guarded_expect], simp, simp, rule finishes_bind[OF guarded_allocated])
      (auto intro!: guarded_finishes[OF guarded_set_error] finishes_bind[OF guarded_on_fail[OF guarded_copy]]
        finishes_bind[OF guarded_on_fail[OF guarded_expect]] rest)
qed

section \<open>The statements of a text\<close>

lemma sql_parse_table_memory:
  assumes "sql_parse_table (Some ts) True e cd h = (r, e', cd', h')" and "cd < 0"
  shows "(r \<noteq> Stuck \<longrightarrow> cd' < 0) \<and> (case r of Ret t \<Rightarrow> live h' = live h + 1 + table_blocks t | Err _ \<Rightarrow> live h' = live h | Stuck \<Rightarrow> True)"
proof -
  obtain r0 s where p: "parse_table (parser_state ts e cd h) = (r0, s)" by (cases "parse_table (parser_state ts e cd h)")
  have "triple True (held (live h + 0)) parse_table (\<lambda>a. held (live h + 0 + (1 + table_blocks a))) (held (live h))"
    using costs_parse_table by (simp only: costs_held)
  moreover have "held (live h + 0) (parser_state ts e cd h)" using assms(2) by (simp add: held_def parser_state_def)
  ultimately have "case r0 of Ret a \<Rightarrow> held (live h + 0 + (1 + table_blocks a)) s | Err _ \<Rightarrow> held (live h) s | Stuck \<Rightarrow> True"
    using p by (rule triple_at)
  with assms(1) p show ?thesis by (auto simp: sql_parse_table_def held_def split: outcome.splits)
qed

lemma sql_parse_table_safe:
  assumes "sql_parse_table (Some ts) True e cd h = (r, e', cd', h')"
    and "\<forall>t \<in> set ts. small_number t" and "\<exists>t \<in> set ts. stops t"
  shows "r \<noteq> Stuck"
proof -
  obtain r0 s where p: "parse_table (parser_state ts e cd h) = (r0, s)" by (cases "parse_table (parser_state ts e cd h)")
  have "sound (parser_state ts e cd h)" using assms(2,3) by (simp add: sound_def parser_state_def)
  from triple_at[OF parse_table_finishes[unfolded finishes_def] this p] assms(1) p show ?thesis
    by (auto simp: sql_parse_table_def split: outcome.splits)
qed

text \<open>One round of the loop: the token is passed over, or a statement is parsed.\<close>

definition part_with :: "sql_token_t \<Rightarrow> sql_token_t list option \<Rightarrow> sql_token_t list option" where
  "part_with t part = (if is_keyword ''CREATE'' t then Some [t] else map_option (\<lambda>xs. xs @ [t]) part)"

lemma ddl_loop_skip:
  "part_with t part = None \<or> tok_kind t \<noteq> SQL_TOKEN_SEMICOLON \<Longrightarrow>
   ddl_loop (t # ts) part tables cd h = ddl_loop ts (part_with t part) tables cd h"
  by (cases "part_with t part") (auto simp: part_with_def[symmetric] Let_def)

lemma ddl_loop_parse:
  assumes "part_with t part = Some xs" and "tok_kind t = SQL_TOKEN_SEMICOLON"
    and "sql_parse_table (Some xs) True (Some \<lparr>pe_message = None, pe_token = None\<rparr>) cd h = (r, e, cd1, h1)"
  shows "ddl_loop (t # ts) part tables cd h =
    (case r of Stuck \<Rightarrow> (Stuck, cd1, h1) | Err _ \<Rightarrow> ddl_loop ts None tables cd1 h1
     | Ret table \<Rightarrow> if length tables \<ge> 10 then (Stuck, cd1, h1) else ddl_loop ts None (tables @ [table]) cd1 (C_ORM_FREE h1))"
  using assms by (simp add: part_with_def[symmetric])

lemma ddl_loop_memory:
  "ddl_loop ts part tables cd h = (r, cd', h') \<Longrightarrow> cd < 0 \<Longrightarrow>
   (case r of Ret tables' \<Rightarrow> live h' - sum_of table_blocks tables' = live h - sum_of table_blocks tables | Err _ \<Rightarrow> False | Stuck \<Rightarrow> True)"
proof (induction ts arbitrary: part tables cd h)
  case (Cons t ts)
  show ?case
  proof (cases "part_with t part = None \<or> tok_kind t \<noteq> SQL_TOKEN_SEMICOLON")
    case True
    from Cons.prems(1) have "ddl_loop ts (part_with t part) tables cd h = (r, cd', h')"
      by (simp only: ddl_loop_skip[OF True])
    then show ?thesis using Cons.prems(2) by (rule Cons.IH)
  next
    case False
    then obtain xs where xs: "part_with t part = Some xs" and k: "tok_kind t = SQL_TOKEN_SEMICOLON" by auto
    obtain r1 e cd1 h1 where p:
      "sql_parse_table (Some xs) True (Some \<lparr>pe_message = None, pe_token = None\<rparr>) cd h = (r1, e, cd1, h1)" by (metis surj_pair)
    note run = Cons.prems(1)[unfolded ddl_loop_parse[OF xs k p]] and mem = sql_parse_table_memory[OF p Cons.prems(2)]
    show ?thesis
    proof (cases r1)
      case (Ret table)
      with run mem Cons.IH[of None "tables @ [table]" cd1 "C_ORM_FREE h1"] show ?thesis
        by (auto split: if_splits outcome.splits)
    next
      case (Err x)
      with run mem Cons.IH[of None tables cd1 h1] show ?thesis by (auto split: outcome.splits)
    next
      case Stuck
      with run show ?thesis by simp
    qed
  qed
qed (auto split: outcome.splits)

definition semicolons :: "sql_token_t list \<Rightarrow> nat" where
  "semicolons ts = length (filter (\<lambda>t. tok_kind t = SQL_TOKEN_SEMICOLON) ts)"

lemma ddl_loop_safe:
  "ddl_loop ts part tables cd h = (r, cd', h') \<Longrightarrow> \<forall>t \<in> set ts. small_number t \<Longrightarrow> \<forall>xs. part = Some xs \<longrightarrow> (\<forall>t \<in> set xs. small_number t)
    \<Longrightarrow> length tables + semicolons ts \<le> 10 \<Longrightarrow> r \<noteq> Stuck"
proof (induction ts arbitrary: part tables cd h)
  case (Cons t ts)
  have part: "\<forall>xs. part_with t part = Some xs \<longrightarrow> (\<forall>t \<in> set xs. small_number t) \<and> t \<in> set xs"
    using Cons.prems(2,3) by (auto simp: part_with_def split: if_splits option.splits)
  show ?case
  proof (cases "part_with t part = None \<or> tok_kind t \<noteq> SQL_TOKEN_SEMICOLON")
    case True
    from Cons.prems(1) have "ddl_loop ts (part_with t part) tables cd h = (r, cd', h')"
      by (simp only: ddl_loop_skip[OF True])
    moreover have "length tables + semicolons ts \<le> 10" using Cons.prems(4) by (simp add: semicolons_def split: if_splits)
    moreover have "\<forall>t \<in> set ts. small_number t" using Cons.prems(2) by simp
    ultimately show ?thesis using part by (metis Cons.IH)
  next
    case False
    then obtain xs where xs: "part_with t part = Some xs" and k: "tok_kind t = SQL_TOKEN_SEMICOLON" by auto
    obtain r1 e cd1 h1 where p:
      "sql_parse_table (Some xs) True (Some \<lparr>pe_message = None, pe_token = None\<rparr>) cd h = (r1, e, cd1, h1)" by (metis surj_pair)
    have ok: "r1 \<noteq> Stuck"
      using part xs k by (intro sql_parse_table_safe[OF p]) (auto simp: stops_def)
    note run = Cons.prems(1)[unfolded ddl_loop_parse[OF xs k p]]
    have n: "length tables < 10" "length tables + semicolons ts < 10"
      using Cons.prems(4) k by (auto simp: semicolons_def)
    show ?thesis
    proof (cases r1)
      case (Ret table)
      with run n have "ddl_loop ts None (tables @ [table]) cd1 (C_ORM_FREE h1) = (r, cd', h')" by auto
      then show ?thesis using Cons.prems(2) n by (intro Cons.IH) auto
    next
      case (Err x)
      with run have "ddl_loop ts None tables cd1 h1 = (r, cd', h')" by simp
      then show ?thesis using Cons.prems(2) n by (intro Cons.IH) auto
    qed (use ok in simp)
  qed
qed auto

lemma lex_tokens:
  assumes "sql_lex (Some cs) True h = (rc, Some l, h')"
  shows "tl_tokens l = tokens_of cs \<and> live h' = live h + 2 \<and> tl_capacity l \<noteq> 0"
proof -
  obtain ok h1 where m: "C_ORM_MALLOC h = (ok, h1)" by (metis surj_pair)
  obtain rc1 k h2 where x: "lex_loop cs (\<lparr>tl_tokens = [], tl_capacity = 0\<rparr>, h1) = (rc1, (k, h2))" by (metis surj_pair)
  have inv: "tl_inv \<lparr>tl_tokens = [], tl_capacity = 0\<rparr>" by (simp add: tl_inv_def)
  note lc = lex_loop_cases[OF x inv]
  have "tokens_of cs \<noteq> []" using tokens_of_EOF[of cs] by auto
  with assms m malloc_live[OF m] x lc show ?thesis
    by (auto simp: sql_lex_def tl_owned_def tl_inv_def split: if_splits)
qed

lemma lex_failed:
  assumes "sql_lex (Some cs) True h = (rc, None, h')"
  shows "live h' = live h \<and> rc \<noteq> C_ORM_OK"
proof -
  obtain ok h1 where m: "C_ORM_MALLOC h = (ok, h1)" by (metis surj_pair)
  obtain rc1 k h2 where x: "lex_loop cs (\<lparr>tl_tokens = [], tl_capacity = 0\<rparr>, h1) = (rc1, (k, h2))" by (metis surj_pair)
  have inv: "tl_inv \<lparr>tl_tokens = [], tl_capacity = 0\<rparr>" by (simp add: tl_inv_def)
  with assms m malloc_live[OF m] x lex_loop_cases[OF x inv] show ?thesis
    by (auto simp: sql_lex_def sql_token_list_free_def tl_owned_def split: if_splits)
qed

section \<open>Properties\<close>

text \<open>C17 (ddl_safe).
  \<open>parse_sql_ddl\<close> never reads or writes outside its arrays and never overflows the length of a type, for
  every text with at most ten semicolons and no number above \<open>INT_MAX\<close>, whatever allocation fails and
  however malformed the statements are.
\<close>

theorem ddl_safe:
  assumes "parse_sql_ddl (Some cs) True cd h = (r, cd', h')"
    and "semicolons (tokens_of cs) \<le> 10" and "\<forall>t \<in> set (tokens_of cs). small_number t"
  shows "r \<noteq> Stuck"
proof -
  obtain rc l h1 where lex: "sql_lex (Some cs) True h = (rc, l, h1)" by (metis surj_pair)
  show ?thesis
  proof (cases l)
    case None
    with assms(1) lex show ?thesis by (auto simp: parse_sql_ddl_def)
  next
    case (Some k)
    obtain ok h2 where m: "C_ORM_MALLOC h1 = (ok, h2)" by (metis surj_pair)
    obtain r1 cd1 h3 where d: "ddl_loop (tokens_of cs) None [] cd h2 = (r1, cd1, h3)" by (metis surj_pair)
    have "r1 \<noteq> Stuck" using ddl_loop_safe[OF d assms(3)] assms(2) by simp
    moreover have "r = (if ok then r1 else Err C_ORM_ERROR_MEMORY)"
      using assms(1) lex Some m d lex_tokens[OF lex[unfolded Some]] by (auto simp: parse_sql_ddl_def)
    ultimately show ?thesis by simp
  qed
qed

theorem ddl_safe_witness:
  "fst (parse_sql_ddl (Some ''CREATE TABLE t (id VARCHAR(20), UNIQUE(;'') True (-1) \<lparr>script = [True, True, False], live = 0\<rparr>) \<noteq> Stuck"
proof -
  obtain r cd h where s: "parse_sql_ddl (Some ''CREATE TABLE t (id VARCHAR(20), UNIQUE(;'') True (-1) \<lparr>script = [True, True, False], live = 0\<rparr>
      = (r, cd, h)" by (metis surj_pair)
  have a: "semicolons (tokens_of ''CREATE TABLE t (id VARCHAR(20), UNIQUE(;'') \<le> 10" by code_simp
  have b: "\<forall>t \<in> set (tokens_of ''CREATE TABLE t (id VARCHAR(20), UNIQUE(;''). small_number t" by code_simp
  from ddl_safe[OF s a b] s show ?thesis by simp
qed

text \<open>C18 (ddl_memory).
  Outside the injected failures of the tests, \<open>parse_sql_ddl\<close> leaves exactly the array and the blocks of
  the tables it returns allocated when it succeeds, and nothing when it fails: for every text, every
  malformed statement and every pattern of failing allocations.
\<close>

theorem ddl_memory:
  assumes "parse_sql_ddl (Some cs) True cd h = (r, cd', h')" and "cd < 0"
  shows "case r of Ret tables \<Rightarrow> live h' = live h + 1 + sum_of table_blocks tables | Err _ \<Rightarrow> live h' = live h | Stuck \<Rightarrow> True"
proof -
  obtain rc l h1 where lex: "sql_lex (Some cs) True h = (rc, l, h1)" by (metis surj_pair)
  show ?thesis
  proof (cases l)
    case None
    with assms(1) lex lex_failed[OF lex[unfolded None]] show ?thesis by (auto simp: parse_sql_ddl_def)
  next
    case (Some k)
    note t = lex_tokens[OF lex[unfolded Some]]
    obtain ok h2 where m: "C_ORM_MALLOC h1 = (ok, h2)" by (metis surj_pair)
    obtain r1 cd1 h3 where d: "ddl_loop (tokens_of cs) None [] cd h2 = (r1, cd1, h3)" by (metis surj_pair)
    show ?thesis
    proof (cases ok)
      case True
      with assms(1) lex Some m d t have "r = r1" "live h' = live h3 - 2"
        by (auto simp: parse_sql_ddl_def sql_token_list_free_def)
      with ddl_loop_memory[OF d assms(2)] malloc_live[OF m] True t show ?thesis
        by (auto split: outcome.splits)
    next
      case False
      with assms(1) lex Some m t malloc_live[OF m] show ?thesis
        by (auto simp: parse_sql_ddl_def sql_token_list_free_def)
    qed
  qed
qed

theorem ddl_memory_witness:
  "live (snd (snd (parse_sql_ddl (Some ''CREATE TABLE t (id INT);'') True (-1) \<lparr>script = [True, True, True, False], live = 5\<rparr>))) = 6"
proof -
  let ?e = "parse_sql_ddl (Some ''CREATE TABLE t (id INT);'') True (-1) \<lparr>script = [True, True, True, False], live = 5\<rparr>"
  obtain r cd h where s: "?e = (r, cd, h)" by (metis surj_pair)
  have r: "fst ?e = Ret []" by code_simp
  from ddl_memory[OF s] r s show ?thesis by simp
qed

end
