(* ===== verification/SqlRoundtrip.thy ===== *)
theory SqlRoundtrip
  imports SqlSafe
begin

text \<open>
  A printer for tables and the proof that the parser inverts it. \<open>runs m ts a ts'\<close> says that \<open>m\<close>, with \<open>ts\<close>
  the tokens ahead that are not whitespace, returns \<open>a\<close> and leaves \<open>ts'\<close>.
\<close>

section \<open>Running a parser on known tokens\<close>

definition ready :: "SqlParserState \<Rightarrow> bool" where
  "ready s \<longleftrightarrow> ps_fail s < 0 \<and> no_oom (ps_heap s)"

definition ahead :: "SqlParserState \<Rightarrow> sql_token_t list" where
  "ahead s = filter (\<lambda>t. \<not> is_space t) (drop (ps_cursor s) (ps_tokens s))"

definition runs :: "'a parse \<Rightarrow> sql_token_t list \<Rightarrow> 'a \<Rightarrow> sql_token_t list \<Rightarrow> bool" where
  "runs m ts a us \<longleftrightarrow> (\<forall>s. ready s \<longrightarrow> ahead s = ts \<longrightarrow> (\<exists>t. m s = (Ret a, t) \<and> ready t \<and> ahead t = us))"

lemma runs_bind: "runs m ts a us \<Longrightarrow> runs (k a) us b vs \<Longrightarrow> runs (pbind m k) ts b vs"
  unfolding runs_def by (fastforce simp: pbind_def)

lemma runs_return: "runs (preturn a) ts a ts"
  by (simp add: runs_def preturn_def)

lemma runs_on_fail: "runs m ts a us \<Longrightarrow> runs (on_fail f m) ts a us"
  unfolding runs_def by (fastforce simp: on_fail_def)

lemma runs_allocated: "runs (allocated C_ORM_MALLOC) ts True ts" "runs (allocated C_ORM_REALLOC) ts True ts"
  by (auto simp: runs_def allocated_def ready_def ahead_def)

lemma filter_Cons_split:
  assumes "filter (\<lambda>t. \<not> p t) xs = y # ys"
  shows "length (takeWhile p xs) < length xs \<and> xs ! length (takeWhile p xs) = y
    \<and> filter (\<lambda>t. \<not> p t) (drop (Suc (length (takeWhile p xs))) xs) = ys"
  using assms by (induction xs) (auto split: if_splits)

lemma ahead_Cons:
  assumes "ahead s = t # ts"
  shows "skip_spaces s < length (ps_tokens s) \<and> ps_tokens s ! skip_spaces s = t \<and> ahead (s\<lparr>ps_cursor := Suc (skip_spaces s)\<rparr>) = ts"
proof -
  have "drop (Suc (skip_spaces s)) (ps_tokens s) =
      drop (Suc (length (takeWhile is_space (drop (ps_cursor s) (ps_tokens s))))) (drop (ps_cursor s) (ps_tokens s))"
    by (simp add: skip_spaces_def add.commute)
  with filter_Cons_split[OF assms[unfolded ahead_def]] show ?thesis by (auto simp: skip_spaces_def ahead_def)
qed

lemma runs_peek: "runs sql_parser_peek (t # ts) t (t # ts)"
  by (auto simp: runs_def sql_parser_peek_def pbind_def countdown_def Let_def ready_def dest!: ahead_Cons)

lemma runs_consume: "runs sql_parser_consume (t # ts) () ts"
proof -
  have "\<exists>u. sql_parser_consume s = (Ret (), u) \<and> ready u \<and> ahead u = ts" if "ready s" "ahead s = t # ts" for s
    using ahead_Cons[OF that(2)] that(1)
    by (auto simp: sql_parser_consume_def pbind_def countdown_def Let_def ready_def)
  then show ?thesis by (simp add: runs_def)
qed

lemma runs_match_keyword: "runs (sql_parser_match_keyword kw) (t # ts) (is_keyword kw t) (if is_keyword kw t then ts else t # ts)"
  unfolding sql_parser_match_keyword_def
  by (rule runs_bind[OF runs_peek]) (auto intro: runs_return runs_bind[OF runs_consume])

lemma runs_match_kind:
  "runs (sql_parser_match_kind k) (t # ts) (if tok_kind t = k then Some t else None) (if tok_kind t = k then ts else t # ts)"
  unfolding sql_parser_match_kind_def
  by (rule runs_bind[OF runs_peek]) (auto intro: runs_return runs_bind[OF runs_consume])

lemma runs_expect: "tok_kind t = k \<Longrightarrow> runs (expect k msg) (t # ts) t ts"
  unfolding expect_def by (rule runs_bind[OF runs_match_kind]) (simp add: runs_return)

lemma runs_expect_keyword: "is_keyword kw t \<Longrightarrow> runs (expect_keyword kw msg) (t # ts) () ts"
  unfolding expect_keyword_def by (rule runs_bind[OF runs_match_keyword]) (simp add: runs_return)

lemma runs_copy: "runs (copy_token msg tok) ts (tok_text tok) ts"
  unfolding copy_token_def by (rule runs_bind[OF runs_allocated(1)]) (simp add: runs_return)

section \<open>Printing\<close>

definition kw :: "string \<Rightarrow> sql_token_t" where
  "kw w = token SQL_TOKEN_KEYWORD w"

definition idt :: "string \<Rightarrow> sql_token_t" where
  "idt w = token SQL_TOKEN_IDENTIFIER w"

definition lpar :: sql_token_t where "lpar = token SQL_TOKEN_LPAREN ''(''"
definition rpar :: sql_token_t where "rpar = token SQL_TOKEN_RPAREN '')''"
definition comma :: sql_token_t where "comma = token SQL_TOKEN_COMMA '',''"
definition semi :: sql_token_t where "semi = token SQL_TOKEN_SEMICOLON '';''"

lemmas token_defs = kw_def idt_def lpar_def rpar_def comma_def semi_def

definition is_name :: "string \<Rightarrow> bool" where
  "is_name w \<longleftrightarrow> w \<noteq> [] \<and> starts_word (hd w) \<and> list_all in_word (tl w) \<and> \<not> is_sql_keyword w"

fun sep_by :: "'a list list \<Rightarrow> 'a \<Rightarrow> 'a list" where
  "sep_by [] c = []"
| "sep_by [x] c = x"
| "sep_by (x # y # xs) c = x @ c # sep_by (y # xs) c"

definition type_word :: "SqlDataType \<Rightarrow> string" where
  "type_word ty = (case ty of SQL_TYPE_UNKNOWN \<Rightarrow> ''''
     | SQL_TYPE_INT \<Rightarrow> ''INT'' | SQL_TYPE_BIGINT \<Rightarrow> ''BIGINT'' | SQL_TYPE_VARCHAR \<Rightarrow> ''VARCHAR'' | SQL_TYPE_TEXT \<Rightarrow> ''TEXT''
     | SQL_TYPE_CHAR \<Rightarrow> ''CHAR'' | SQL_TYPE_FLOAT \<Rightarrow> ''FLOAT'' | SQL_TYPE_DOUBLE \<Rightarrow> ''DOUBLE'' | SQL_TYPE_DECIMAL \<Rightarrow> ''DECIMAL''
     | SQL_TYPE_BOOLEAN \<Rightarrow> ''BOOLEAN'' | SQL_TYPE_DATE \<Rightarrow> ''DATE'' | SQL_TYPE_TIMESTAMP \<Rightarrow> ''TIMESTAMP'')"

definition number_token :: "int \<Rightarrow> sql_token_t" where
  "number_token n = token SQL_TOKEN_NUMBER (decimal (nat n))"

definition print_type :: "SqlDataType \<Rightarrow> int \<Rightarrow> sql_token_t list" where
  "print_type ty len = kw (type_word ty) # (if len < 0 then [] else [lpar, number_token len, rpar])"

definition good_type :: "SqlDataType \<Rightarrow> int \<Rightarrow> bool" where
  "good_type ty len \<longleftrightarrow> ty \<noteq> SQL_TYPE_UNKNOWN
     \<and> (len = -1 \<or> ty \<in> {SQL_TYPE_VARCHAR, SQL_TYPE_TEXT, SQL_TYPE_CHAR} \<and> 0 \<le> len \<and> len \<le> 2147483647)"

text \<open>The kind of the token that a default value is.\<close>

definition value_token :: "string \<Rightarrow> sql_token_t" where
  "value_token v = fst (next_token (hd v) (tl v))"

definition good_default :: "string \<Rightarrow> bool" where
  \<comment> \<open>one token of a kind the parser takes; \<open>CREATE\<close> would start a new statement\<close>
  "good_default v \<longleftrightarrow> v \<noteq> [] \<and> v \<noteq> ''CREATE'' \<and> tok_text (value_token v) = v
     \<and> tok_kind (value_token v) \<in> {SQL_TOKEN_STRING, SQL_TOKEN_NUMBER, SQL_TOKEN_IDENTIFIER, SQL_TOKEN_KEYWORD}
     \<and> (tok_kind (value_token v) = SQL_TOKEN_STRING \<longrightarrow> 2 \<le> length v \<and> last v = CHR 39)"

definition print_reference :: "sql_constraint_t \<Rightarrow> sql_token_t list" where
  "print_reference c = (case sc_reference_table c of None \<Rightarrow> [] | Some t \<Rightarrow>
     [kw ''REFERENCES'', idt t] @ (case sc_reference_column c of None \<Rightarrow> [] | Some k \<Rightarrow> [lpar, idt k, rpar]))"

definition print_constraint :: "sql_constraint_t \<Rightarrow> sql_token_t list" where
  "print_constraint c = (case sc_type c of
       SQL_CONSTRAINT_PRIMARY_KEY \<Rightarrow> [kw ''PRIMARY'', kw ''KEY'']
     | SQL_CONSTRAINT_NOT_NULL \<Rightarrow> [kw ''NOT'', kw ''NULL'']
     | SQL_CONSTRAINT_UNIQUE \<Rightarrow> [kw ''UNIQUE'']
     | SQL_CONSTRAINT_DEFAULT \<Rightarrow> (case sc_default_value c of None \<Rightarrow> [] | Some v \<Rightarrow> [kw ''DEFAULT'', value_token v])
     | SQL_CONSTRAINT_FOREIGN_KEY \<Rightarrow> print_reference c
     | SQL_CONSTRAINT_NONE \<Rightarrow> [])"

definition good_reference :: "sql_constraint_t \<Rightarrow> bool" where
  "good_reference c \<longleftrightarrow> (case sc_reference_table c of None \<Rightarrow> False | Some t \<Rightarrow> is_name t)
     \<and> (case sc_reference_column c of None \<Rightarrow> True | Some k \<Rightarrow> is_name k)"

definition no_reference :: "sql_constraint_t \<Rightarrow> bool" where
  "no_reference c \<longleftrightarrow> sc_reference_table c = None \<and> sc_reference_column c = None"

definition good_constraint :: "sql_constraint_t \<Rightarrow> bool" where
  \<comment> \<open>of a column\<close>
  "good_constraint c \<longleftrightarrow> sc_columns c = None \<and> (case sc_type c of
       SQL_CONSTRAINT_DEFAULT \<Rightarrow> no_reference c \<and> (case sc_default_value c of None \<Rightarrow> False | Some v \<Rightarrow> good_default v)
     | SQL_CONSTRAINT_FOREIGN_KEY \<Rightarrow> sc_default_value c = None \<and> good_reference c
     | SQL_CONSTRAINT_NONE \<Rightarrow> False
     | _ \<Rightarrow> no_reference c \<and> sc_default_value c = None)"

definition print_column :: "sql_column_t \<Rightarrow> sql_token_t list" where
  "print_column col = idt (scol_name col) # print_type (scol_type col) (scol_length col)
     @ concat (map print_constraint (scol_constraints col))"

definition good_column :: "sql_column_t \<Rightarrow> bool" where
  "good_column col \<longleftrightarrow> is_name (scol_name col) \<and> good_type (scol_type col) (scol_length col)
     \<and> list_all good_constraint (scol_constraints col)"

definition print_table_constraint :: "sql_constraint_t \<Rightarrow> sql_token_t list" where
  "print_table_constraint c =
     (case sc_type c of SQL_CONSTRAINT_PRIMARY_KEY \<Rightarrow> [kw ''PRIMARY'', kw ''KEY''] | SQL_CONSTRAINT_UNIQUE \<Rightarrow> [kw ''UNIQUE'']
      | _ \<Rightarrow> [kw ''FOREIGN'', kw ''KEY''])
     @ lpar # sep_by (map (\<lambda>k. [idt k]) (case sc_columns c of None \<Rightarrow> [] | Some ks \<Rightarrow> ks)) comma @ rpar # print_reference c"

definition good_table_constraint :: "sql_constraint_t \<Rightarrow> bool" where
  "good_table_constraint c \<longleftrightarrow> sc_default_value c = None
     \<and> (case sc_columns c of None \<Rightarrow> False | Some ks \<Rightarrow> ks \<noteq> [] \<and> list_all is_name ks)
     \<and> (case sc_type c of SQL_CONSTRAINT_PRIMARY_KEY \<Rightarrow> no_reference c | SQL_CONSTRAINT_UNIQUE \<Rightarrow> no_reference c
        | SQL_CONSTRAINT_FOREIGN_KEY \<Rightarrow> good_reference c | _ \<Rightarrow> False)"

definition print_table :: "sql_table_t \<Rightarrow> sql_token_t list" where
  "print_table t = [kw ''CREATE'', kw ''TABLE'', idt (case st_name t of None \<Rightarrow> '''' | Some n \<Rightarrow> n), lpar]
     @ sep_by (map print_column (st_columns t) @ map print_table_constraint (st_constraints t)) comma @ [rpar, semi]"

definition good_table :: "sql_table_t \<Rightarrow> bool" where
  "good_table t \<longleftrightarrow> (case st_name t of None \<Rightarrow> False | Some n \<Rightarrow> is_name n)
     \<and> list_all good_column (st_columns t) \<and> list_all good_table_constraint (st_constraints t)"

definition ddl_text :: "sql_table_t list \<Rightarrow> string" where
  \<comment> \<open>every token followed by a space\<close>
  "ddl_text tables = concat (map (\<lambda>t. tok_text t @ '' '') (concat (map print_table tables)))"

section \<open>Data types\<close>

lemma kind_simps [simp]:
  "tok_kind (kw w) = SQL_TOKEN_KEYWORD" "tok_kind (idt w) = SQL_TOKEN_IDENTIFIER" "tok_kind lpar = SQL_TOKEN_LPAREN"
  "tok_kind rpar = SQL_TOKEN_RPAREN" "tok_kind comma = SQL_TOKEN_COMMA" "tok_kind semi = SQL_TOKEN_SEMICOLON"
  "tok_kind (number_token n) = SQL_TOKEN_NUMBER" "tok_text (kw w) = w" "tok_text (idt w) = w"
  by (simp_all add: token_defs number_token_def)

lemma is_keyword_simps [simp]:
  "is_keyword a (kw w) \<longleftrightarrow> w = a" "\<not> is_keyword a (idt w)" "\<not> is_keyword a lpar" "\<not> is_keyword a rpar" "\<not> is_keyword a comma"
  "\<not> is_keyword a (number_token n)" "\<not> is_keyword a semi"
  by (auto simp: is_keyword_def)

definition follows :: "sql_token_t \<Rightarrow> bool" where
  \<comment> \<open>what may come after a type or a constraint of a column\<close>
  "follows u \<longleftrightarrow> u \<in> {comma, rpar, kw ''PRIMARY'', kw ''NOT'', kw ''UNIQUE'', kw ''DEFAULT'', kw ''REFERENCES''}"

lemma runs_two:
  "\<not> is_keyword a t \<Longrightarrow> \<not> is_keyword b t \<Longrightarrow> runs (match_two a b) (t # ts) False (t # ts)"
  "\<not> is_keyword b u \<Longrightarrow> runs (match_two a b) (kw a # u # ts) True (u # ts)"
  unfolding match_two_def
  by (rule runs_bind[OF runs_match_keyword], rule runs_bind, simp, rule runs_match_keyword, simp add: runs_return)+

lemma runs_three:
  "\<not> is_keyword a t \<Longrightarrow> \<not> is_keyword b t \<Longrightarrow> \<not> is_keyword c t \<Longrightarrow> runs (match_three a b c) (t # ts) False (t # ts)"
  "\<not> is_keyword b u \<Longrightarrow> \<not> is_keyword c u \<Longrightarrow> runs (match_three a b c) (kw a # u # ts) True (u # ts)"
  "b \<noteq> a \<Longrightarrow> \<not> is_keyword c u \<Longrightarrow> runs (match_three a b c) (kw b # u # ts) True (u # ts)"
  "c \<noteq> a \<Longrightarrow> c \<noteq> b \<Longrightarrow> runs (match_three a b c) (kw c # u # ts) True (u # ts)"
  unfolding match_three_def
  by (rule runs_bind[OF runs_match_keyword], rule runs_bind, simp, rule runs_match_keyword, rule runs_bind, simp,
      rule runs_match_keyword, simp add: runs_return)+

lemma sql_number_snoc:
  "sql_number v (cs @ [c]) = (case sql_number v cs of None \<Rightarrow> None | Some w \<Rightarrow> sql_number w [c])"
  by (induction v cs rule: sql_number.induct) (auto simp: Let_def)

lemma sql_number_decimal: "int n \<le> 2147483647 \<Longrightarrow> sql_number 0 (decimal n) = Some (int n)"
proof (induction n rule: decimal.induct)
  case (1 n)
  have d: "int (code_of (char_of (48 + m))) - 48 = int m" if "m < 10" for m :: nat
    using that by (simp add: code_of_def)
  show ?case
  proof (cases "n < 10")
    case True
    with d show ?thesis by (subst decimal.simps) simp
  next
    case False
    with 1 have "sql_number 0 (decimal (n div 10)) = Some (int (n div 10))" by simp
    moreover have "int (n div 10) * 10 + int (n mod 10) = int n" by presburger
    ultimately show ?thesis using False d[of "n mod 10"] 1(2) by (subst decimal.simps) (simp add: sql_number_snoc)
  qed
qed

lemma runs_type_length:
  assumes "len = -1 \<or> 0 \<le> len \<and> len \<le> 2147483647" and "tok_kind u \<noteq> SQL_TOKEN_LPAREN"
  shows "runs sql_type_length ((if len < 0 then [] else [lpar, number_token len, rpar]) @ u # us) len (u # us)"
proof (cases "len < 0")
  case True
  with assms show ?thesis
    unfolding sql_type_length_def by (auto intro!: runs_bind[OF runs_match_kind] runs_return)
next
  case False
  with assms have len: "0 \<le> len" "len \<le> 2147483647" by auto
  then have n: "sql_number 0 (tok_text (number_token len)) = Some len"
    using sql_number_decimal[of "nat len"] by (simp add: number_token_def)
  show ?thesis
    unfolding sql_type_length_def using False
    by (simp, intro runs_bind[OF runs_match_kind], simp, intro runs_bind[OF runs_match_kind], simp add: n)
      (rule runs_bind[OF runs_expect], simp, rule runs_return)
qed

lemma follows_simps:
  assumes "follows u"
  shows "tok_kind u \<noteq> SQL_TOKEN_LPAREN" "a \<in> {''INT'', ''INTEGER'', ''TEXT'', ''CHAR'', ''DOUBLE'', ''DECIMAL'', ''BOOL''} \<Longrightarrow> \<not> is_keyword a u"
  using assms by (auto simp: follows_def)

text \<open>\<open>sql_parse_data_type\<close> cut into the stages that follow the failed matches.\<close>

definition other_types :: "(SqlDataType \<times> int) parse" where
  "other_types = pbind (match_two ''BOOLEAN'' ''BOOL'') (\<lambda>m. if m then preturn (SQL_TYPE_BOOLEAN, -1)
     else pbind (sql_parser_match_keyword ''DATE'') (\<lambda>m. if m then preturn (SQL_TYPE_DATE, -1)
     else pbind (sql_parser_match_keyword ''TIMESTAMP'') (\<lambda>m. if m then preturn (SQL_TYPE_TIMESTAMP, -1)
     else sql_parser_set_error ''Unknown data type'')))"

definition real_types :: "sql_token_t \<Rightarrow> (SqlDataType \<times> int) parse" where
  "real_types tok = pbind (match_three ''FLOAT'' ''DOUBLE'' ''DECIMAL'') (\<lambda>m. if m then preturn (real_type tok, -1) else other_types)"

definition text_types :: "sql_token_t \<Rightarrow> (SqlDataType \<times> int) parse" where
  "text_types tok = pbind (match_three ''VARCHAR'' ''TEXT'' ''CHAR'') (\<lambda>m. if m then
     pbind sql_type_length (\<lambda>len. preturn (text_type tok, len)) else real_types tok)"

lemma data_type_stages:
  "sql_parse_data_type = pbind sql_parser_peek (\<lambda>tok.
     if tok_kind tok \<noteq> SQL_TOKEN_KEYWORD then sql_parser_set_error ''Expected data type''
     else pbind (match_two ''INT'' ''INTEGER'') (\<lambda>m. if m then preturn (SQL_TYPE_INT, -1)
     else pbind (sql_parser_match_keyword ''BIGINT'') (\<lambda>m. if m then preturn (SQL_TYPE_BIGINT, -1) else text_types tok)))"
  unfolding sql_parse_data_type_def text_types_def real_types_def other_types_def by (rule refl)

lemma runs_from_text:
  assumes "w \<notin> {''INT'', ''INTEGER'', ''BIGINT''}" and "runs (text_types (kw w)) (kw w # ts) r us"
  shows "runs sql_parse_data_type (kw w # ts) r us"
  unfolding data_type_stages using assms
  by (intro runs_bind[OF runs_peek]) (simp, rule runs_bind[OF runs_two(1)], simp_all, rule runs_bind[OF runs_match_keyword], simp)

lemma runs_from_real:
  assumes "w \<notin> {''INT'', ''INTEGER'', ''BIGINT'', ''VARCHAR'', ''TEXT'', ''CHAR''}" and "runs (real_types (kw w)) (kw w # ts) r us"
  shows "runs sql_parse_data_type (kw w # ts) r us"
  using assms by (intro runs_from_text) (simp_all add: text_types_def runs_bind[OF runs_three(1)])

lemma runs_from_other:
  assumes "w \<in> {''BOOLEAN'', ''DATE'', ''TIMESTAMP''}" and "runs other_types (kw w # ts) r us"
  shows "runs sql_parse_data_type (kw w # ts) r us"
  using assms by (intro runs_from_real) (auto simp: real_types_def runs_bind[OF runs_three(1)])

lemma runs_text_types:
  assumes "len = -1 \<or> 0 \<le> len \<and> len \<le> 2147483647" and "follows u" and "w \<in> {''VARCHAR'', ''TEXT'', ''CHAR''}"
  shows "runs (text_types (kw w)) (kw w # (if len < 0 then [] else [lpar, number_token len, rpar]) @ u # us) (text_type (kw w), len) (u # us)"
proof -
  define ts where "ts = (if len < 0 then [] else [lpar, number_token len, rpar]) @ u # us"
  note f = follows_simps[OF assms(2)]
  have "\<exists>v vs. ts = v # vs \<and> \<not> is_keyword ''TEXT'' v \<and> \<not> is_keyword ''CHAR'' v" using f by (auto simp: ts_def)
  then obtain v vs where v: "ts = v # vs" "\<not> is_keyword ''TEXT'' v" "\<not> is_keyword ''CHAR'' v" by blast
  have "runs (match_three ''VARCHAR'' ''TEXT'' ''CHAR'') (kw w # ts) True ts"
    using assms(3) v by (auto intro: runs_three(2) runs_three(3) runs_three(4))
  from runs_bind[OF this] have bind: "runs (k True) ts r x \<Longrightarrow> runs (pbind (match_three ''VARCHAR'' ''TEXT'' ''CHAR'') k) (kw w # ts) r x"
    for k :: "bool \<Rightarrow> (SqlDataType \<times> int) parse" and r x .
  have "runs (pbind sql_type_length (\<lambda>len. preturn (text_type (kw w), len))) ts (text_type (kw w), len) (u # us)"
    unfolding ts_def by (rule runs_bind[OF runs_type_length[OF assms(1) f(1)] runs_return])
  then show ?thesis unfolding text_types_def ts_def[symmetric] by (intro bind) simp
qed

lemma runs_data_type:
  assumes "good_type ty len" and "follows u"
  shows "runs sql_parse_data_type (print_type ty len @ u # us) (ty, len) (u # us)"
proof -
  note f = follows_simps[OF assms(2)]
  note tx = runs_text_types[OF _ assms(2)]
  have none: "len = -1" if "ty \<notin> {SQL_TYPE_VARCHAR, SQL_TYPE_TEXT, SQL_TYPE_CHAR}" using assms(1) that by (simp add: good_type_def)
  have len: "len = -1 \<or> 0 \<le> len \<and> len \<le> 2147483647" using assms(1) by (auto simp: good_type_def)
  show ?thesis
  proof (cases ty)
    case SQL_TYPE_UNKNOWN
    with assms show ?thesis by (simp add: good_type_def)
  next
    case SQL_TYPE_INT
    with none show ?thesis
      unfolding data_type_stages print_type_def type_word_def
      by (simp, intro runs_bind[OF runs_peek], simp, intro runs_bind[OF runs_two(2)], simp add: f, simp add: runs_return)
  next
    case SQL_TYPE_BIGINT
    with none show ?thesis
      unfolding data_type_stages print_type_def type_word_def
      by (simp, intro runs_bind[OF runs_peek], simp)
        (rule runs_bind[OF runs_two(1)], simp_all, rule runs_bind[OF runs_match_keyword], simp add: runs_return)
  next
    case SQL_TYPE_VARCHAR
    with runs_from_text[OF _ tx[OF len, of "''VARCHAR''"]] show ?thesis
      by (simp add: print_type_def type_word_def text_type_def starts_with_def)
  next
    case SQL_TYPE_TEXT
    with runs_from_text[OF _ tx[OF len, of "''TEXT''"]] show ?thesis
      by (simp add: print_type_def type_word_def text_type_def starts_with_def)
  next
    case SQL_TYPE_CHAR
    with runs_from_text[OF _ tx[OF len, of "''CHAR''"]] show ?thesis
      by (simp add: print_type_def type_word_def text_type_def starts_with_def)
  next
    case SQL_TYPE_FLOAT
    with none f show ?thesis
      unfolding print_type_def type_word_def
      by (simp, intro runs_from_real) (simp_all add: real_types_def runs_bind[OF runs_three(2)] runs_return real_type_def starts_with_def)
  next
    case SQL_TYPE_DOUBLE
    with none f show ?thesis
      unfolding print_type_def type_word_def
      by (simp, intro runs_from_real) (simp_all add: real_types_def runs_bind[OF runs_three(3)] runs_return real_type_def starts_with_def)
  next
    case SQL_TYPE_DECIMAL
    with none show ?thesis
      unfolding print_type_def type_word_def
      by (simp, intro runs_from_real) (simp_all add: real_types_def runs_bind[OF runs_three(4)] runs_return real_type_def starts_with_def)
  next
    case SQL_TYPE_BOOLEAN
    with none f show ?thesis
      unfolding print_type_def type_word_def
      by (simp, intro runs_from_other) (simp_all add: other_types_def runs_bind[OF runs_two(2)] runs_return)
  next
    case SQL_TYPE_DATE
    with none show ?thesis
      unfolding print_type_def type_word_def
      by (simp, intro runs_from_other, simp, unfold other_types_def, intro runs_bind[OF runs_two(1)])
        (simp_all, rule runs_bind[OF runs_match_keyword], simp add: runs_return)
  next
    case SQL_TYPE_TIMESTAMP
    with none show ?thesis
      unfolding print_type_def type_word_def
      by (simp, intro runs_from_other, simp, unfold other_types_def, intro runs_bind[OF runs_two(1)])
        (simp_all, rule runs_bind[OF runs_match_keyword], simp, rule runs_bind[OF runs_match_keyword], simp add: runs_return)
  qed
qed

end
