(* ===== verification/SqlDdl.thy ===== *)
theory SqlDdl
  imports SqlRoundtrip
begin

text \<open>
  The parser inverts the printer: constraints, columns, tables, and the text of a list of tables, through the
  lexer and the loop over the statements.
\<close>

section \<open>Constraints of a column\<close>

lemma runs_not_keyword: "\<not> is_keyword w t \<Longrightarrow> runs (k False) (t # ts) a us \<Longrightarrow> runs (pbind (sql_parser_match_keyword w) k) (t # ts) a us"
  by (rule runs_bind[OF runs_match_keyword]) simp

lemma runs_keyword: "runs (k True) ts a us \<Longrightarrow> runs (pbind (sql_parser_match_keyword w) k) (kw w # ts) a us"
  by (rule runs_bind[OF runs_match_keyword]) simp

lemma runs_kind: "tok_kind t = q \<Longrightarrow> runs (k (Some t)) ts a us \<Longrightarrow> runs (pbind (sql_parser_match_kind q) k) (t # ts) a us"
  by (rule runs_bind[OF runs_match_kind]) simp

lemma runs_not_kind: "tok_kind t \<noteq> q \<Longrightarrow> runs (k None) (t # ts) a us \<Longrightarrow> runs (pbind (sql_parser_match_kind q) k) (t # ts) a us"
  by (rule runs_bind[OF runs_match_kind]) simp

lemma runs_match_kinds: "tok_kind t \<in> set ks \<Longrightarrow> runs (match_kinds ks) (t # ts) (Some t) ts"
proof (induction ks)
  case (Cons k ks)
  show ?case
  proof (cases "tok_kind t = k")
    case True
    then show ?thesis by (simp add: runs_kind runs_return)
  next
    case False
    with Cons show ?thesis by (simp add: runs_not_kind)
  qed
qed simp

lemma runs_references:
  assumes "is_name t" and "case k of None \<Rightarrow> True | Some x \<Rightarrow> is_name x" and "tok_kind u \<noteq> SQL_TOKEN_LPAREN"
  shows "runs parse_references (idt t # (case k of None \<Rightarrow> [] | Some x \<Rightarrow> [lpar, idt x, rpar]) @ u # us)
    (empty_constraint\<lparr>sc_type := SQL_CONSTRAINT_FOREIGN_KEY, sc_reference_table := Some t, sc_reference_column := k\<rparr>) (u # us)"
proof -
  let ?c = "empty_constraint\<lparr>sc_reference_table := Some t\<rparr>"
  have col: "runs (parse_reference_column ?c) ([idt x, rpar] @ u # us) (?c\<lparr>sc_reference_column := Some x\<rparr>) (u # us)" for x
    unfolding parse_reference_column_def Let_def
    by (auto intro!: runs_kind runs_bind[OF runs_on_fail[OF runs_copy]] runs_return)
  show ?thesis
  proof (cases k)
    case None
    with assms(3) show ?thesis
      unfolding parse_references_def Let_def
      by (auto intro!: runs_bind[OF runs_expect] runs_bind[OF runs_copy] runs_not_kind runs_bind[OF runs_return] runs_return
          simp: empty_constraint_def)
  next
    case (Some x)
    have "runs (pbind (parse_reference_column ?c) (\<lambda>c1. preturn (c1\<lparr>sc_type := SQL_CONSTRAINT_FOREIGN_KEY\<rparr>))) ([idt x, rpar] @ u # us)
       (?c\<lparr>sc_reference_column := Some x, sc_type := SQL_CONSTRAINT_FOREIGN_KEY\<rparr>) (u # us)"
      by (rule runs_bind[OF col runs_return])
    with Some show ?thesis
      unfolding parse_references_def Let_def
      by (auto intro!: runs_bind[OF runs_expect] runs_bind[OF runs_copy] runs_kind simp: empty_constraint_def)
  qed
qed

lemma runs_constraint:
  assumes good: "good_constraint c" and u: "follows u"
  shows "runs sql_parse_column_constraint (print_constraint c @ u # us) c (u # us)"
proof -
  obtain ty rt rc dv cs where c: "c = \<lparr>sc_type = ty, sc_reference_table = rt, sc_reference_column = rc, sc_default_value = dv, sc_columns = cs\<rparr>"
    by (cases c) auto
  have cs: "cs = None" using good by (simp add: good_constraint_def c)
  show ?thesis
  proof (cases ty)
    case SQL_CONSTRAINT_NONE
    with good show ?thesis by (simp add: good_constraint_def c)
  next
    case SQL_CONSTRAINT_PRIMARY_KEY
    with good cs show ?thesis
      unfolding sql_parse_column_constraint_def
      by (auto simp: good_constraint_def no_reference_def c print_constraint_def empty_constraint_def
          intro!: runs_keyword runs_bind[OF runs_expect_keyword] runs_return)
  next
    case SQL_CONSTRAINT_FOREIGN_KEY
    with good obtain t where "rt = Some t" "is_name t" "case rc of None \<Rightarrow> True | Some x \<Rightarrow> is_name x" "dv = None"
      by (auto simp: good_constraint_def good_reference_def c split: option.splits)
    with SQL_CONSTRAINT_FOREIGN_KEY cs runs_references[of t rc u us] follows_simps(1)[OF u] show ?thesis
      unfolding sql_parse_column_constraint_def
      by (auto simp: c print_constraint_def print_reference_def empty_constraint_def intro!: runs_keyword runs_not_keyword)
  next
    case SQL_CONSTRAINT_UNIQUE
    with good cs show ?thesis
      unfolding sql_parse_column_constraint_def
      by (auto simp: good_constraint_def no_reference_def c print_constraint_def empty_constraint_def
          intro!: runs_keyword runs_not_keyword runs_return)
  next
    case SQL_CONSTRAINT_NOT_NULL
    with good cs show ?thesis
      unfolding sql_parse_column_constraint_def
      by (auto simp: good_constraint_def no_reference_def c print_constraint_def empty_constraint_def
          intro!: runs_keyword runs_not_keyword runs_bind[OF runs_expect_keyword] runs_return)
  next
    case SQL_CONSTRAINT_DEFAULT
    with good obtain v where v: "dv = Some v" "good_default v" "rt = None" "rc = None"
      by (auto simp: good_constraint_def no_reference_def c split: option.splits)
    then have k: "tok_kind (value_token v) \<in> set [SQL_TOKEN_STRING, SQL_TOKEN_NUMBER, SQL_TOKEN_IDENTIFIER, SQL_TOKEN_KEYWORD]"
      and tx: "tok_text (value_token v) = v" by (auto simp: good_default_def)
    have "runs (copy_token msg (value_token v)) ts v ts" for msg ts
      using runs_copy[of msg "value_token v" ts] tx by simp
    then have "runs parse_default (value_token v # u # us)
        (empty_constraint\<lparr>sc_type := SQL_CONSTRAINT_DEFAULT, sc_default_value := Some v\<rparr>) (u # us)"
      unfolding parse_default_def
      by (intro runs_bind[OF runs_match_kinds[OF k]]) (simp, rule runs_bind, assumption, rule runs_return)
    with SQL_CONSTRAINT_DEFAULT v cs show ?thesis
      unfolding sql_parse_column_constraint_def
      by (auto simp: c print_constraint_def empty_constraint_def intro!: runs_keyword runs_not_keyword)
  qed
qed

section \<open>Columns\<close>

lemma column_constraints_eq:
  "column_constraints cs cap = pbind (on_fail (free_constraints cs) next_constraint) (\<lambda>n. case n of Enough \<Rightarrow> preturn cs
     | More c \<Rightarrow> pbind (on_fail (free_constraints cs) (add_constraint cs cap c)) (\<lambda>cap'. column_constraints (cs @ [c]) cap'))"
  by (rule ext, subst column_constraints.simps)
    (auto simp: pbind_def split: prod.splits outcome.splits column_next.splits)

lemma runs_next_end: "u \<in> {comma, rpar} \<Longrightarrow> runs next_constraint (u # us) Enough (u # us)"
  unfolding next_constraint_def by (auto intro!: runs_bind[OF runs_peek] runs_return)

lemma runs_next_more:
  assumes "runs sql_parse_column_constraint (t # ts) c us"
    and "tok_kind t \<notin> {SQL_TOKEN_COMMA, SQL_TOKEN_RPAREN, SQL_TOKEN_EOF}"
  shows "runs next_constraint (t # ts) (More c) us"
proof -
  have "runs (\<lambda>s. case sql_parse_column_constraint s of (Ret c, t) \<Rightarrow> (Ret (More c), t)
       | (Err e, t) \<Rightarrow> if e = C_ORM_ERROR_NOT_FOUND then (Ret Enough, t) else (Err e, t) | (Stuck, t) \<Rightarrow> (Stuck, t)) (t # ts) (More c) us"
    using assms(1) by (fastforce simp: runs_def)
  then show ?thesis
    unfolding next_constraint_def using assms(2) by (intro runs_bind[OF runs_peek]) simp
qed

lemma runs_add_constraint: "\<exists>cap'. runs (add_constraint cs cap c) ts cap' ts"
proof (cases "length cs \<ge> cap")
  case True
  then have "runs (add_constraint cs cap c) ts (cap * 2) ts"
    unfolding add_constraint_def by (simp, intro runs_bind[OF runs_allocated(2)]) (simp add: runs_return)
  then show ?thesis by blast
next
  case False
  then have "runs (add_constraint cs cap c) ts cap ts" unfolding add_constraint_def by (simp add: runs_return)
  then show ?thesis by blast
qed

lemma kw_inject [simp]: "kw v = kw w \<longleftrightarrow> v = w"
  by (simp add: kw_def token_def)

lemma print_constraint_Cons:
  assumes "good_constraint c"
  shows "\<exists>w ts. print_constraint c = kw w # ts \<and> follows (kw w)"
  using assms
  by (cases "sc_type c"; cases "sc_reference_table c"; cases "sc_default_value c")
    (simp_all add: good_constraint_def print_constraint_def print_reference_def good_reference_def no_reference_def follows_def)

lemma follows_rest:
  assumes "list_all good_constraint cs" and "u \<in> {comma, rpar}"
  shows "\<exists>v vs. concat (map print_constraint cs) @ u # us = v # vs \<and> follows v"
proof (cases cs)
  case Nil
  with assms(2) show ?thesis by (auto simp: follows_def)
next
  case (Cons d es)
  with assms(1) print_constraint_Cons[of d] obtain w ts where "print_constraint d = kw w # ts" "follows (kw w)" by auto
  with Cons show ?thesis by simp
qed

lemma runs_column_constraints:
  "list_all good_constraint cs \<Longrightarrow> u \<in> {comma, rpar} \<Longrightarrow>
   runs (column_constraints ds cap) (concat (map print_constraint cs) @ u # us) (ds @ cs) (u # us)"
proof (induction cs arbitrary: ds cap)
  case Nil
  have "runs (on_fail (free_constraints ds) next_constraint) (u # us) Enough (u # us)"
    by (rule runs_on_fail[OF runs_next_end[OF Nil(2)]])
  then show ?case by (subst column_constraints_eq) (auto intro: runs_bind simp: runs_return)
next
  case (Cons c cs)
  define rest where "rest = concat (map print_constraint cs) @ u # us"
  from Cons.prems(1) have good: "good_constraint c" "list_all good_constraint cs" by simp_all
  from follows_rest[where us = us, OF good(2) Cons.prems(2)] obtain v vs where v: "rest = v # vs" "follows v" unfolding rest_def by blast
  obtain w ts where p: "print_constraint c = kw w # ts" using print_constraint_Cons[OF good(1)] by blast
  have n: "runs next_constraint (print_constraint c @ rest) (More c) rest"
    using runs_constraint[OF good(1) v(2), of vs] runs_next_more[of "kw w" "ts @ rest" c rest] v(1) p by simp
  obtain cap' where a: "runs (add_constraint ds cap c) rest cap' rest" using runs_add_constraint by blast
  have "runs (column_constraints (ds @ [c]) cap') rest ((ds @ [c]) @ cs) (u # us)"
    unfolding rest_def by (rule Cons.IH[OF good(2) Cons.prems(2)])
  then have "runs (pbind (on_fail (free_constraints ds) (add_constraint ds cap c)) (\<lambda>cap'. column_constraints (ds @ [c]) cap')) rest (ds @ c # cs) (u # us)"
    by (intro runs_bind[OF runs_on_fail[OF a]]) simp
  then have "runs (column_constraints ds cap) (print_constraint c @ rest) (ds @ c # cs) (u # us)"
    by (subst column_constraints_eq, intro runs_bind[OF runs_on_fail[OF n]]) simp
  then show ?case by (simp add: rest_def)
qed

lemma runs_column_definition:
  assumes "good_column col" and "u \<in> {comma, rpar}"
  shows "runs column_definition (print_column col @ u # us) col (u # us)"
proof -
  define rest where "rest = concat (map print_constraint (scol_constraints col)) @ u # us"
  have g: "good_type (scol_type col) (scol_length col)" "list_all good_constraint (scol_constraints col)"
    using assms(1) by (simp_all add: good_column_def)
  from follows_rest[where us = us, OF g(2) assms(2)] obtain v vs where v: "rest = v # vs" "follows v" unfolding rest_def by blast
  have ty: "runs sql_parse_data_type (print_type (scol_type col) (scol_length col) @ rest) (scol_type col, scol_length col) rest"
    using runs_data_type[OF g(1) v(2), of vs] v(1) by simp
  have cs: "runs (column_constraints [] 2) rest (scol_constraints col) (u # us)"
    unfolding rest_def using runs_column_constraints[OF g(2) assms(2), of "[]"] by simp
  have eta: "\<lparr>scol_name = scol_name col, scol_type = scol_type col, scol_length = scol_length col, scol_constraints = scol_constraints col\<rparr> = col"
    by (cases col) simp
  have "runs (pbind (on_fail C_ORM_FREE (column_constraints [] 2)) (\<lambda>cs.
         preturn \<lparr>scol_name = scol_name col, scol_type = scol_type col, scol_length = scol_length col, scol_constraints = cs\<rparr>)) rest col (u # us)"
    by (rule runs_bind[OF runs_on_fail[OF cs]]) (simp add: eta runs_return)
  then have "runs (pbind (allocated C_ORM_MALLOC) (\<lambda>ok.
       if \<not> ok then on_fail C_ORM_FREE (sql_parser_set_error ''OOM allocating constraints'')
       else pbind (on_fail C_ORM_FREE (column_constraints [] 2)) (\<lambda>cs.
         preturn \<lparr>scol_name = scol_name col, scol_type = scol_type col, scol_length = scol_length col, scol_constraints = cs\<rparr>))) rest col (u # us)"
    by (intro runs_bind[OF runs_allocated(1)]) simp
  then have "runs (pbind (on_fail C_ORM_FREE sql_parse_data_type) (\<lambda>ty. pbind (allocated C_ORM_MALLOC) (\<lambda>ok.
       if \<not> ok then on_fail C_ORM_FREE (sql_parser_set_error ''OOM allocating constraints'')
       else pbind (on_fail C_ORM_FREE (column_constraints [] 2)) (\<lambda>cs.
         preturn \<lparr>scol_name = scol_name col, scol_type = fst ty, scol_length = snd ty, scol_constraints = cs\<rparr>))))
      (print_type (scol_type col) (scol_length col) @ rest) col (u # us)"
    by (intro runs_bind[OF runs_on_fail[OF ty]]) (simp cong: if_cong)
  moreover have "runs (copy_token msg (idt (scol_name col))) ts (scol_name col) ts" for msg ts
    using runs_copy[of msg "idt (scol_name col)" ts] by simp
  ultimately show ?thesis
    unfolding column_definition_def print_column_def rest_def[symmetric] append_Cons append_assoc
    by (intro runs_bind[OF runs_expect]) (simp, rule runs_bind)
qed

section \<open>Table constraints\<close>

lemma con_columns_eq:
  "con_columns c = pbind (con_column c) (\<lambda>r. if snd r then con_columns (fst r) else preturn (fst r))"
  by (rule ext, subst con_columns.simps) (auto simp: pbind_def split: prod.splits outcome.splits)

lemma runs_array: "runs (allocated (if b then C_ORM_MALLOC else C_ORM_REALLOC)) ts True ts"
  using runs_allocated by simp

lemma runs_add_con_column:
  "runs (add_con_column c (idt k)) ts (c\<lparr>sc_columns := Some ((case sc_columns c of None \<Rightarrow> [] | Some ks \<Rightarrow> ks) @ [k])\<rparr>) ts"
proof -
  have "runs (copy_token msg (idt k)) ts k ts" for msg using runs_copy[of msg "idt k" ts] by simp
  note r = runs_bind[OF runs_on_fail[OF this] runs_return]
  show ?thesis
    unfolding add_con_column_def Let_def
    by (intro runs_bind[OF runs_array]) (simp only: simp_thms if_True if_False, rule r)
qed

lemma runs_con_column:
  assumes "u \<in> {comma, rpar}"
  shows "runs (con_column c) (idt k # u # us)
     (c\<lparr>sc_columns := Some ((case sc_columns c of None \<Rightarrow> [] | Some ks \<Rightarrow> ks) @ [k])\<rparr>, u = comma) (if u = comma then us else u # us)"
proof -
  have ne: "comma \<noteq> rpar" by (simp add: token_defs token_def)
  have m: "runs (sql_parser_match_kind SQL_TOKEN_COMMA) (u # us) (if u = comma then Some u else None) (if u = comma then us else u # us)"
    using runs_match_kind[of SQL_TOKEN_COMMA u us] assms ne by auto
  show ?thesis
    unfolding con_column_def
    by (rule runs_bind[OF runs_on_fail[OF runs_expect]], simp, rule runs_bind[OF runs_add_con_column],
        rule runs_bind[OF runs_on_fail[OF m]]) (auto simp: runs_return)
qed

lemma runs_con_columns:
  "ks \<noteq> [] \<Longrightarrow> runs (con_columns c) (sep_by (map (\<lambda>k. [idt k]) ks) comma @ rpar # us)
     (c\<lparr>sc_columns := Some ((case sc_columns c of None \<Rightarrow> [] | Some ks \<Rightarrow> ks) @ ks)\<rparr>) (rpar # us)"
proof (induction ks arbitrary: c)
  case (Cons k ks)
  have ne: "comma \<noteq> rpar" by (simp add: token_defs token_def)
  show ?case
  proof (cases ks)
    case Nil
    with runs_bind[OF runs_con_column[of rpar c k us] runs_return] ne show ?thesis
      by (subst con_columns_eq) (simp, rule runs_bind[OF runs_con_column[of rpar c k us, simplified]], simp add: runs_return)
  next
    case (Cons k2 ks2)
    define c1 where "c1 = c\<lparr>sc_columns := Some ((case sc_columns c of None \<Rightarrow> [] | Some ks \<Rightarrow> ks) @ [k])\<rparr>"
    have c1: "c1\<lparr>sc_columns := Some ((case sc_columns c1 of None \<Rightarrow> [] | Some ks \<Rightarrow> ks) @ ks)\<rparr>
        = c\<lparr>sc_columns := Some ((case sc_columns c of None \<Rightarrow> [] | Some ks \<Rightarrow> ks) @ k # ks)\<rparr>"
      by (simp add: c1_def)
    define rest where "rest = sep_by (map (\<lambda>k. [idt k]) ks) comma @ rpar # us"
    have s: "runs (con_column c) (idt k # comma # rest) (c1, True) rest"
      using runs_con_column[of comma c k rest] by (simp add: c1_def)
    have "runs (con_columns c) (idt k # comma # rest) (c1\<lparr>sc_columns := Some ((case sc_columns c1 of None \<Rightarrow> [] | Some ks \<Rightarrow> ks) @ ks)\<rparr>) (rpar # us)"
      using Cons.IH[of c1] Cons by (subst con_columns_eq, intro runs_bind[OF s]) (simp add: rest_def)
    from this[unfolded c1] show ?thesis by (simp add: rest_def Cons)
  qed
qed simp

lemma runs_expect_copy: "runs (pbind (expect SQL_TOKEN_IDENTIFIER msg) (copy_token msg')) (idt k # ts) k ts"
proof (rule runs_bind[OF runs_expect])
  show "runs (copy_token msg' (idt k)) ts k ts" using runs_copy[of msg' "idt k" ts] by simp
qed simp

lemma runs_kind_fail:
  "tok_kind t = q \<Longrightarrow> runs (k (Some t)) ts a us \<Longrightarrow> runs (pbind (on_fail f (sql_parser_match_kind q)) k) (t # ts) a us"
  by (rule runs_bind[OF runs_on_fail[OF runs_match_kind]]) simp

lemma runs_not_kind_fail:
  "tok_kind t \<noteq> q \<Longrightarrow> runs (k None) (t # ts) a us \<Longrightarrow> runs (pbind (on_fail f (sql_parser_match_kind q)) k) (t # ts) a us"
  by (rule runs_bind[OF runs_on_fail[OF runs_match_kind]]) simp

lemma runs_return_eq: "a = b \<Longrightarrow> ts = us \<Longrightarrow> runs (preturn a) ts b us"
  by (simp add: runs_return)

lemma runs_constraint_reference:
  assumes "good_reference c" and "tok_kind u \<noteq> SQL_TOKEN_LPAREN"
  shows "runs (constraint_reference (c\<lparr>sc_reference_table := None, sc_reference_column := None\<rparr>)) (print_reference c @ u # us) c (u # us)"
proof -
  from assms(1) obtain t where t: "sc_reference_table c = Some t" by (auto simp: good_reference_def split: option.splits)
  have start: "runs (on_fail f (pbind (expect_keyword ''REFERENCES'' m1) (\<lambda>_. pbind (expect SQL_TOKEN_IDENTIFIER m2) (copy_token m3))))
     (kw ''REFERENCES'' # idt t # ts) t ts" for f m1 m2 m3 ts
    by (rule runs_on_fail, rule runs_bind[OF runs_expect_keyword], simp, rule runs_expect_copy)
  show ?thesis
  proof (cases "sc_reference_column c")
    case None
    have p: "print_reference c @ u # us = kw ''REFERENCES'' # idt t # u # us" by (simp add: print_reference_def t None)
    show ?thesis
      unfolding constraint_reference_def Let_def p
      by (rule runs_bind[OF start], rule runs_not_kind_fail[OF assms(2)], simp only: simp_thms if_True, rule runs_return_eq)
        (use t None in \<open>cases c, simp_all\<close>)
  next
    case (Some k)
    have p: "print_reference c @ u # us = kw ''REFERENCES'' # idt t # lpar # idt k # rpar # u # us" by (simp add: print_reference_def t Some)
    show ?thesis
      unfolding constraint_reference_def Let_def p
      by (rule runs_bind[OF start], rule runs_kind_fail, simp, simp only: option.distinct if_False,
          rule runs_bind[OF runs_on_fail[OF runs_expect_copy]], rule runs_bind[OF runs_on_fail[OF runs_expect]], simp, rule runs_return_eq)
        (use t Some in \<open>cases c, simp_all\<close>)
  qed
qed

lemma runs_table_constraint_type:
  "good_table_constraint c \<Longrightarrow> runs table_constraint_type
    ((case sc_type c of SQL_CONSTRAINT_PRIMARY_KEY \<Rightarrow> [kw ''PRIMARY'', kw ''KEY''] | SQL_CONSTRAINT_UNIQUE \<Rightarrow> [kw ''UNIQUE'']
      | _ \<Rightarrow> [kw ''FOREIGN'', kw ''KEY'']) @ ts) (sc_type c) ts"
  unfolding table_constraint_type_def good_table_constraint_def
  by (cases "sc_type c") (auto intro!: runs_keyword runs_not_keyword runs_bind[OF runs_expect_keyword] runs_return)

lemma runs_parse_table_constraint:
  assumes good: "good_table_constraint c" and u: "u \<in> {comma, rpar}"
  shows "runs sql_parse_table_constraint (print_table_constraint c @ u # us) c (u # us)"
proof -
  obtain ty rt rc dv cs where c: "c = \<lparr>sc_type = ty, sc_reference_table = rt, sc_reference_column = rc, sc_default_value = dv, sc_columns = cs\<rparr>"
    by (cases c) auto
  from good obtain ks where ks: "cs = Some ks" "ks \<noteq> []" "dv = None" by (auto simp: good_table_constraint_def c split: option.splits)
  let ?d = "\<lparr>sc_type = ty, sc_reference_table = None, sc_reference_column = None, sc_default_value = None, sc_columns = Some ks\<rparr>"
  have cols: "runs (con_columns (empty_constraint\<lparr>sc_type := ty\<rparr>)) (sep_by (map (\<lambda>k. [idt k]) ks) comma @ rpar # ts) ?d (rpar # ts)" for ts
    using runs_con_columns[OF ks(2), of "empty_constraint\<lparr>sc_type := ty\<rparr>" ts] by (simp add: empty_constraint_def)
  have uk: "tok_kind u \<noteq> SQL_TOKEN_LPAREN" using u by auto
  have ref: "runs (if ty = SQL_CONSTRAINT_FOREIGN_KEY then constraint_reference ?d else preturn ?d) (print_reference c @ u # us) c (u # us)"
  proof (cases "ty = SQL_CONSTRAINT_FOREIGN_KEY")
    case True
    with good have "good_reference c" by (auto simp: good_table_constraint_def c)
    from runs_constraint_reference[OF this uk, of us] True ks show ?thesis by (simp add: c)
  next
    case False
    with good have "no_reference c" by (auto simp: good_table_constraint_def c split: SqlConstraintType.splits)
    with False ks show ?thesis by (auto simp: no_reference_def c print_reference_def intro: runs_return_eq)
  qed
  have t: "runs table_constraint_type ((case sc_type c of SQL_CONSTRAINT_PRIMARY_KEY \<Rightarrow> [kw ''PRIMARY'', kw ''KEY''] | SQL_CONSTRAINT_UNIQUE \<Rightarrow> [kw ''UNIQUE'']
      | _ \<Rightarrow> [kw ''FOREIGN'', kw ''KEY'']) @ ts) ty ts" for ts
    using runs_table_constraint_type[OF good, of ts] by (simp add: c)
  show ?thesis
    unfolding sql_parse_table_constraint_def print_table_constraint_def append_assoc append_Cons
    by (rule runs_bind[OF t], rule runs_bind[OF runs_expect], simp, simp only: c ks sql_constraint_t.simps option.case, rule runs_bind[OF cols],
        rule runs_bind[OF runs_on_fail[OF runs_expect]], simp, rule ref[unfolded c ks])
qed

section \<open>Tables\<close>

definition print_element :: "sql_column_t + sql_constraint_t \<Rightarrow> sql_token_t list" where
  "print_element x = (case x of Inl col \<Rightarrow> print_column col | Inr c \<Rightarrow> print_table_constraint c)"

definition good_element :: "sql_column_t + sql_constraint_t \<Rightarrow> bool" where
  "good_element x = (case x of Inl col \<Rightarrow> good_column col | Inr c \<Rightarrow> good_table_constraint c)"

definition add_element :: "sql_table_t \<Rightarrow> sql_column_t + sql_constraint_t \<Rightarrow> sql_table_t" where
  "add_element t x = (case x of Inl col \<Rightarrow> t\<lparr>st_columns := st_columns t @ [col]\<rparr> | Inr c \<Rightarrow> t\<lparr>st_constraints := st_constraints t @ [c]\<rparr>)"

lemma print_table_constraint_Cons:
  "\<exists>w ts. print_table_constraint c = kw w # ts \<and> w \<in> {''PRIMARY'', ''UNIQUE'', ''FOREIGN''}"
  by (auto simp: print_table_constraint_def split: SqlConstraintType.splits)

lemma runs_table_array: "runs (table_array xs) ts True ts"
  unfolding table_array_def by (rule runs_array)

lemma runs_element:
  assumes "good_element x" and "u \<in> {comma, rpar}"
  shows "runs (table_element t) (print_element x @ u # us) (add_element t x, u = comma) (if u = comma then us else u # us)"
proof -
  have ne: "comma \<noteq> rpar" by (simp add: token_defs token_def)
  have m: "runs (pbind (on_fail f (sql_parser_match_kind SQL_TOKEN_COMMA)) (\<lambda>c. preturn (t1, c \<noteq> None))) (u # us) (t1, u = comma) (if u = comma then us else u # us)"
    for f t1
  proof (cases "u = comma")
    case True
    then show ?thesis by (simp, intro runs_kind_fail) (simp_all add: runs_return)
  next
    case False
    with assms(2) show ?thesis by (simp, intro runs_not_kind_fail) (auto intro: runs_return_eq)
  qed
  have body: "runs (if starts_table_constraint v then table_constraint t else table_column t) (v # vs @ u # us) (add_element t x) (u # us)"
    if v: "print_element x = v # vs" for v vs
  proof (cases x)
    case (Inl col)
    with assms(1) have g: "good_column col" by (simp add: good_element_def)
    from Inl v have n: "\<not> starts_table_constraint v" by (auto simp: print_element_def print_column_def starts_table_constraint_def)
    have "runs (table_column t) (print_column col @ u # us) (t\<lparr>st_columns := st_columns t @ [col]\<rparr>) (u # us)"
      unfolding table_column_def
      by (rule runs_bind[OF runs_on_fail[OF runs_column_definition[OF g assms(2)]]], rule runs_bind[OF runs_table_array]) (simp add: runs_return)
    with n v Inl show ?thesis by (simp add: print_element_def add_element_def)
  next
    case (Inr c)
    with assms(1) have g: "good_table_constraint c" by (simp add: good_element_def)
    from Inr v print_table_constraint_Cons[of c] have n: "starts_table_constraint v"
      by (auto simp: print_element_def starts_table_constraint_def)
    have "runs (table_constraint t) (print_table_constraint c @ u # us) (t\<lparr>st_constraints := st_constraints t @ [c]\<rparr>) (u # us)"
      unfolding table_constraint_def
      by (rule runs_bind[OF runs_on_fail[OF runs_parse_table_constraint[OF g assms(2)]]], rule runs_bind[OF runs_table_array]) (simp add: runs_return)
    with n v Inr show ?thesis by (simp add: print_element_def add_element_def)
  qed
  have "\<exists>v vs. print_element x = v # vs \<and> tok_kind v \<noteq> SQL_TOKEN_RPAREN"
    using print_table_constraint_Cons by (cases x) (fastforce simp: print_element_def print_column_def)+
  then obtain v vs where v: "print_element x = v # vs" "tok_kind v \<noteq> SQL_TOKEN_RPAREN" by blast
  show ?thesis
    unfolding table_element_def v(1) append_Cons
    by (rule runs_bind[OF runs_on_fail[OF runs_peek]], simp only: v(2) if_False, rule runs_bind[OF body[OF v(1)] m])
qed

lemma table_elements_eq:
  "table_elements t = pbind (table_element t) (\<lambda>r. if snd r then table_elements (fst r) else preturn (fst r))"
  by (rule ext, subst table_elements.simps) (auto simp: pbind_def split: prod.splits outcome.splits)

lemma runs_elements:
  "list_all good_element xs \<Longrightarrow>
   runs (table_elements t) (sep_by (map print_element xs) comma @ rpar # us) (foldl add_element t xs) (rpar # us)"
proof (induction xs arbitrary: t)
  case Nil
  have "runs (table_element t) (rpar # us) (t, False) (rpar # us)"
    unfolding table_element_def by (rule runs_bind[OF runs_on_fail[OF runs_peek]]) (simp add: runs_return)
  then show ?case by (subst table_elements_eq, intro runs_bind) (simp, simp add: runs_return)
next
  case (Cons x xs)
  have ne: "comma \<noteq> rpar" by (simp add: token_defs token_def)
  show ?case
  proof (cases xs)
    case Nil
    have "runs (table_element t) (print_element x @ rpar # us) (add_element t x, False) (rpar # us)"
      using runs_element[of x rpar t us] Cons.prems ne by auto
    then have "runs (table_elements t) (print_element x @ rpar # us) (add_element t x) (rpar # us)"
      by (subst table_elements_eq, intro runs_bind) (simp, simp add: runs_return)
    with Nil show ?thesis by simp
  next
    case (Cons y ys)
    define rest where "rest = sep_by (map print_element xs) comma @ rpar # us"
    have s: "runs (table_element t) (print_element x @ comma # rest) (add_element t x, True) rest"
      using runs_element[of x comma t rest] \<open>list_all good_element (x # xs)\<close> by auto
    have "runs (table_elements (add_element t x)) rest (foldl add_element (add_element t x) xs) (rpar # us)"
      unfolding rest_def using \<open>list_all good_element (x # xs)\<close> by (intro Cons.IH) simp
    with s have "runs (table_elements t) (print_element x @ comma # rest) (foldl add_element t (x # xs)) (rpar # us)"
      by (subst table_elements_eq) (auto intro: runs_bind)
    then show ?thesis by (simp add: rest_def Cons)
  qed
qed

lemma foldl_columns: "foldl add_element t (map Inl cols) = t\<lparr>st_columns := st_columns t @ cols\<rparr>"
  by (induction cols arbitrary: t) (simp_all add: add_element_def)

lemma foldl_constraints: "foldl add_element t (map Inr cs) = t\<lparr>st_constraints := st_constraints t @ cs\<rparr>"
  by (induction cs arbitrary: t) (simp_all add: add_element_def)

lemma runs_parse_table:
  assumes good: "good_table t"
  shows "runs parse_table (print_table t) t []"
proof -
  from good obtain n where n: "st_name t = Some n" by (auto simp: good_table_def split: option.splits)
  define xs where "xs = map Inl (st_columns t) @ map Inr (st_constraints t)"
  let ?t0 = "\<lparr>st_name = Some n, st_columns = [], st_constraints = []\<rparr>"
  have xs: "list_all good_element xs" "map print_element xs = map print_column (st_columns t) @ map print_table_constraint (st_constraints t)"
    using good by (auto simp: xs_def good_table_def good_element_def print_element_def list_all_iff)
  have f: "foldl add_element ?t0 xs = t"
    using n by (cases t) (simp add: xs_def foldl_columns foldl_constraints)
  have p: "print_table t = kw ''CREATE'' # kw ''TABLE'' # idt n # lpar # sep_by (map print_element xs) comma @ [rpar, semi]"
    by (simp add: print_table_def n xs(2))
  have copy: "runs (copy_token msg (idt n)) ts n ts" for msg ts using runs_copy[of msg "idt n" ts] by simp
  have els: "runs (table_elements ?t0) (sep_by (map print_element xs) comma @ [rpar, semi]) t [rpar, semi]"
    using runs_elements[OF xs(1), of ?t0 "[semi]"] f by simp
  have rest: "runs (pbind (table_elements ?t0) (\<lambda>t1. pbind (on_fail (free_table t1) (expect SQL_TOKEN_RPAREN msg)) (\<lambda>_.
       pbind (on_fail (free_table t1) (sql_parser_match_kind SQL_TOKEN_SEMICOLON)) (\<lambda>_. preturn t1))))
      (sep_by (map print_element xs) comma @ [rpar, semi]) t []" for msg
    by (rule runs_bind[OF els], rule runs_bind[OF runs_on_fail[OF runs_expect]], simp, rule runs_kind_fail, simp, rule runs_return)
  show ?thesis
    unfolding parse_table_def p Let_def
    by (rule runs_bind[OF runs_expect_keyword], simp, rule runs_bind[OF runs_expect_keyword], simp, rule runs_bind[OF runs_expect], simp,
        rule runs_bind[OF runs_allocated(1)], simp only: simp_thms if_False, rule runs_bind[OF runs_on_fail[OF copy]],
        rule runs_bind[OF runs_on_fail[OF runs_expect]], simp, simp only: sql_table_t.update_convs, rule rest)
qed

end
