(* ===== verification/SqlText.thy ===== *)
theory SqlText
  imports SqlDdl
begin

text \<open>
  From the text of a list of tables to the tables: the lexer inverts the printing of tokens, the loop over
  the statements finds each of them, and the parser inverts the printing of tables.
\<close>

section \<open>Tokens that lex back\<close>

definition lexes :: "sql_token_t \<Rightarrow> bool" where
  "lexes t \<longleftrightarrow> tok_text t \<noteq> [] \<and> \<not> isspace (hd (tok_text t))
     \<and> (\<forall>rest. next_token (hd (tok_text t)) (tl (tok_text t) @ CHR '' '' # rest) = (t, CHR '' '' # rest))"

definition space :: sql_token_t where
  "space = token SQL_TOKEN_WHITESPACE '' ''"

lemma class_simps [simp]:
  "\<not> in_word (CHR '' '')" "\<not> isdigit (CHR '' '')" "isspace (CHR '' '')" "\<not> starts_word (CHR '' '')"
  by code_simp+

lemma classes:
  "starts_word c \<Longrightarrow> \<not> isspace c" "isdigit c \<Longrightarrow> \<not> isspace c" "isdigit c \<Longrightarrow> \<not> starts_word c"
  by (auto simp: starts_word_def isalpha_def isspace_def isdigit_def code_of_def)

lemma takeWhile_all: "list_all p w \<Longrightarrow> \<not> p c \<Longrightarrow> takeWhile p (w @ c # rest) = w \<and> dropWhile p (w @ c # rest) = c # rest"
  by (induction w) auto

lemma next_word:
  assumes "starts_word c" and "list_all in_word w"
  shows "next_token c (w @ CHR '' '' # rest)
    = (token (if is_sql_keyword (c # w) then SQL_TOKEN_KEYWORD else SQL_TOKEN_IDENTIFIER) (c # w), CHR '' '' # rest)"
  using assms takeWhile_all[OF assms(2), of "CHR '' ''" rest] by (simp add: next_token_def span_def classes)

lemma next_number:
  assumes "isdigit c" and "list_all isdigit w"
  shows "next_token c (w @ CHR '' '' # rest) = (token SQL_TOKEN_NUMBER (c # w), CHR '' '' # rest)"
  using assms takeWhile_all[OF assms(2), of "CHR '' ''" rest] by (simp add: next_token_def span_def classes)

lemma lexes_name: "is_name w \<Longrightarrow> lexes (idt w)"
  by (cases w) (auto simp: is_name_def lexes_def next_word idt_def classes)

lemma lexes_keyword: "is_sql_keyword w \<Longrightarrow> list_all in_word w \<Longrightarrow> w \<noteq> [] \<Longrightarrow> starts_word (hd w) \<Longrightarrow> lexes (kw w)"
  by (cases w) (auto simp: lexes_def next_word kw_def classes)

lemma lexes_keywords: "list_all (\<lambda>w. lexes (kw w)) sql_keywords"
proof -
  have "list_all (\<lambda>w. is_sql_keyword w \<and> list_all in_word w \<and> w \<noteq> [] \<and> starts_word (hd w)) sql_keywords" by code_simp
  then show ?thesis by (auto simp: list_all_iff intro: lexes_keyword)
qed

lemma lexes_kw: "is_sql_keyword w \<Longrightarrow> lexes (kw w)"
  using lexes_keywords by (simp add: list_all_iff is_sql_keyword_def)

lemma lexes_punctuation: "lexes lpar" "lexes rpar" "lexes comma" "lexes semi"
proof -
  have "next_token c rest = (token (punctuation c) [c], rest)" if "c \<in> {CHR ''('', CHR '')'', CHR '','', CHR '';''}" for c rest
  proof -
    have "\<not> isspace c \<and> \<not> starts_word c \<and> \<not> isdigit c \<and> c \<noteq> CHR 39" using that by (elim insertE emptyE; simp; code_simp)
    then show ?thesis by (simp add: next_token_def)
  qed
  moreover have "\<not> isspace c" if "c \<in> {CHR ''('', CHR '')'', CHR '','', CHR '';''}" for c
    using that by (elim insertE emptyE; simp; code_simp)
  ultimately show "lexes lpar" "lexes rpar" "lexes comma" "lexes semi"
    by (simp_all add: lexes_def lpar_def rpar_def comma_def semi_def punctuation_def)
qed

lemma decimal_digits: "list_all isdigit (decimal n)"
proof (induction n rule: decimal.induct)
  case (1 n)
  have "isdigit (char_of (48 + m))" if "m < 10" for m :: nat
    using that by (simp add: isdigit_def code_of_def)
  with 1 show ?case by (subst decimal.simps) auto
qed

lemma lexes_number: "lexes (number_token n)"
  using decimal_digits[of "nat n"] decimal_nonempty[of "nat n"]
  by (cases "decimal (nat n)") (auto simp: lexes_def number_token_def next_number classes)

lemma lexes_value:
  assumes "good_default v"
  shows "lexes (value_token v)"
proof -
  obtain c w where v: "v = c # w" using assms by (cases v) (auto simp: good_default_def)
  note g = assms[unfolded good_default_def v value_token_def, simplified]
  consider "isspace c" | "\<not> isspace c" "starts_word c" | "\<not> isspace c" "\<not> starts_word c" "isdigit c"
    | "\<not> isspace c" "\<not> starts_word c" "\<not> isdigit c" "c = CHR 39"
    | "\<not> isspace c" "\<not> starts_word c" "\<not> isdigit c" "c \<noteq> CHR 39" by blast
  then show ?thesis
  proof cases
    case 1
    with g show ?thesis by (simp add: next_token_def span_def)
  next
    case 2
    with g have tw: "takeWhile in_word w = w" by (auto simp: next_token_def span_def)
    then have all: "list_all in_word w" by (simp add: takeWhile_eq_all_conv list_all_iff)
    then have sp: "span in_word w = (w, [])" by (simp add: span_def list_all_iff)
    have "value_token v = token (if is_sql_keyword (c # w) then SQL_TOKEN_KEYWORD else SQL_TOKEN_IDENTIFIER) (c # w)"
      using 2 by (simp add: value_token_def v next_token_def sp)
    with 2 next_word[OF 2(2) all] show ?thesis by (simp add: lexes_def)
  next
    case 3
    with g have tw: "takeWhile isdigit w = w" by (auto simp: next_token_def span_def)
    then have all: "list_all isdigit w" by (simp add: takeWhile_eq_all_conv list_all_iff)
    then have sp: "span isdigit w = (w, [])" by (simp add: span_def list_all_iff)
    have "value_token v = token SQL_TOKEN_NUMBER (c # w)"
      using 3 by (simp add: value_token_def v next_token_def sp)
    with 3 next_number[OF 3(3) all] show ?thesis by (simp add: lexes_def)
  next
    case 4
    define b where "b = takeWhile (\<lambda>d. d \<noteq> CHR 39) w"
    define r where "r = dropWhile (\<lambda>d. d \<noteq> CHR 39) w"
    have nt: "value_token v = token SQL_TOKEN_STRING (c # b @ take 1 r)"
      using 4 by (simp add: value_token_def v next_token_def span_def b_def r_def)
    with assms v have w: "w = b @ take 1 r" and l: "w \<noteq> []" "last w = CHR 39" by (auto simp: good_default_def split: if_splits)
    have "r \<noteq> []"
    proof
      assume "r = []"
      with w l have "CHR 39 \<in> set b" by (metis append_Nil2 last_in_set take_Nil)
      then show False unfolding b_def by (auto dest: set_takeWhileD)
    qed
    moreover from this have "hd r = CHR 39" unfolding r_def using hd_dropWhile[of "\<lambda>d. d \<noteq> CHR 39" w] by blast
    ultimately obtain q where r: "r = CHR 39 # q" by (cases r) auto
    have nb: "list_all (\<lambda>d. d \<noteq> CHR 39) b" unfolding b_def by (auto simp: list_all_iff dest: set_takeWhileD)
    have "next_token c ((b @ [CHR 39]) @ CHR '' '' # rest) = (token SQL_TOKEN_STRING (c # b @ [CHR 39]), CHR '' '' # rest)" for rest
      using 4 takeWhile_all[OF nb, of "CHR 39" "CHR '' '' # rest"] by (simp add: next_token_def span_def)
    with nt r 4 show ?thesis by (simp add: lexes_def)
  next
    case 5
    with g show ?thesis by (auto simp: next_token_def punctuation_def split: if_splits)
  qed
qed

section \<open>The tokens of the text\<close>

definition spaced :: "sql_token_t list \<Rightarrow> sql_token_t list" where
  "spaced ts = concat (map (\<lambda>t. [t, space]) ts)"

lemma spaced_simps [simp]: "spaced [] = []" "spaced (t # ts) = t # space # spaced ts" "spaced (ts @ us) = spaced ts @ spaced us"
  by (simp_all add: spaced_def)

lemma next_space: "rest = [] \<or> \<not> isspace (hd rest) \<Longrightarrow> next_token (CHR '' '') rest = (space, rest)"
  by (cases rest) (auto simp: next_token_def span_def space_def)

lemma tokens_of_printed:
  "list_all lexes ts \<Longrightarrow> tokens_of (concat (map (\<lambda>t. tok_text t @ '' '') ts)) = spaced ts @ [token SQL_TOKEN_EOF []]"
proof (induction ts)
  case (Cons t ts)
  define rest where "rest = concat (map (\<lambda>t. tok_text t @ '' '') ts)"
  from Cons.prems have t: "lexes t" by simp
  then obtain c w where tx: "tok_text t = c # w" by (auto simp: lexes_def neq_Nil_conv)
  have r: "rest = [] \<or> \<not> isspace (hd rest)"
    using Cons.prems by (cases ts) (auto simp: rest_def lexes_def hd_append)
  have n: "next_token c (w @ CHR '' '' # rest) = (t, CHR '' '' # rest)" using t by (simp add: lexes_def tx)
  have "tokens_of (c # w @ CHR '' '' # rest) = t # space # tokens_of rest"
    by (subst tokens_of.simps, subst n) (simp add: next_space[OF r])
  with Cons show ?case by (simp add: tx rest_def del: tokens_of.simps)
qed simp

lemma sep_by_all: "list_all (list_all p) xss \<Longrightarrow> p c \<Longrightarrow> list_all p (sep_by xss c)"
  by (induction xss c rule: sep_by.induct) auto

text \<open>Every token of a printed table lexes back, and only the first and the last delimit the statement.\<close>

definition plain :: "sql_token_t \<Rightarrow> bool" where
  "plain t \<longleftrightarrow> lexes t \<and> \<not> is_keyword ''CREATE'' t \<and> tok_kind t \<noteq> SQL_TOKEN_SEMICOLON \<and> \<not> is_space t"

lemma plain_kw: "is_sql_keyword w \<Longrightarrow> w \<noteq> ''CREATE'' \<Longrightarrow> plain (kw w)"
  by (simp add: plain_def lexes_kw is_space_def)

lemma plain_simps [simp]: "plain lpar" "plain rpar" "plain comma" "plain (number_token n)"
  by (simp_all add: plain_def lexes_punctuation lexes_number is_space_def)

lemma plain_idt [simp]: "is_name w \<Longrightarrow> plain (idt w)"
  by (simp add: plain_def lexes_name is_space_def)

lemma plain_keywords [simp]:
  "plain (kw ''PRIMARY'')" "plain (kw ''KEY'')" "plain (kw ''NOT'')" "plain (kw ''NULL'')" "plain (kw ''UNIQUE'')"
  "plain (kw ''DEFAULT'')" "plain (kw ''REFERENCES'')" "plain (kw ''FOREIGN'')" "plain (kw ''TABLE'')"
  by (rule plain_kw; code_simp)+

lemma plain_value [simp]: "good_default v \<Longrightarrow> plain (value_token v)"
  using lexes_value[of v] by (auto simp: plain_def good_default_def is_keyword_def is_space_def)

lemma plain_type: "good_type ty len \<Longrightarrow> list_all plain (print_type ty len)"
proof -
  have "plain (kw (type_word ty))" if "ty \<noteq> SQL_TYPE_UNKNOWN"
    using that by (cases ty) (simp_all add: type_word_def plain_kw is_sql_keyword_def sql_keywords_def)
  then show "good_type ty len \<Longrightarrow> ?thesis" by (auto simp: good_type_def print_type_def)
qed

lemma plain_reference: "sc_reference_table c = None \<or> good_reference c \<Longrightarrow> list_all plain (print_reference c)"
  by (auto simp: good_reference_def print_reference_def split: option.splits)

lemma plain_constraint: "good_constraint c \<Longrightarrow> list_all plain (print_constraint c)"
  by (cases "sc_type c") (auto simp: good_constraint_def print_constraint_def plain_reference split: option.splits)

lemma plain_column: "good_column col \<Longrightarrow> list_all plain (print_column col)"
  using plain_constraint plain_type by (fastforce simp: good_column_def print_column_def list_all_iff)

lemma plain_table_constraint: "good_table_constraint c \<Longrightarrow> list_all plain (print_table_constraint c)"
proof -
  assume good: "good_table_constraint c"
  then obtain ks where ks: "sc_columns c = Some ks" "list_all is_name ks"
    by (auto simp: good_table_constraint_def split: option.splits)
  have r: "list_all plain (print_reference c)"
    using good by (intro plain_reference) (auto simp: good_table_constraint_def no_reference_def split: SqlConstraintType.splits)
  have k: "list_all plain (sep_by (map (\<lambda>k. [idt k]) ks) comma)"
    using ks(2) by (intro sep_by_all) (auto simp: list_all_iff)
  show ?thesis
    using r k by (auto simp: print_table_constraint_def ks(1) split: SqlConstraintType.splits)
qed

lemma print_table_plain:
  assumes "good_table t"
  shows "\<exists>body. print_table t = kw ''CREATE'' # body @ [semi] \<and> list_all plain body"
proof -
  obtain n where n: "st_name t = Some n" "is_name n" using assms by (auto simp: good_table_def split: option.splits)
  have "list_all plain (sep_by (map print_column (st_columns t) @ map print_table_constraint (st_constraints t)) comma)"
    using assms plain_column plain_table_constraint by (intro sep_by_all) (auto simp: good_table_def list_all_iff)
  then show ?thesis
    by (intro exI[of _ "[kw ''TABLE'', idt n, lpar] @ sep_by (map print_column (st_columns t) @ map print_table_constraint (st_constraints t)) comma @ [rpar]"])
      (simp add: print_table_def n)
qed

section \<open>The loop over the statements\<close>

definition inside :: "sql_token_t \<Rightarrow> bool" where
  "inside t \<longleftrightarrow> \<not> is_keyword ''CREATE'' t \<and> tok_kind t \<noteq> SQL_TOKEN_SEMICOLON"

lemma ddl_loop_collect:
  "list_all inside xs \<Longrightarrow> ddl_loop (xs @ ys) (Some p) tables cd h = ddl_loop ys (Some (p @ xs)) tables cd h"
proof (induction xs arbitrary: p)
  case (Cons x xs)
  then have x: "inside x" "list_all inside xs" by simp_all
  then have "part_with x (Some p) = Some (p @ [x])" by (simp add: part_with_def inside_def)
  moreover from x(1) have "tok_kind x \<noteq> SQL_TOKEN_SEMICOLON" by (simp add: inside_def)
  ultimately have "ddl_loop (x # xs @ ys) (Some p) tables cd h = ddl_loop (xs @ ys) (Some (p @ [x])) tables cd h"
    using ddl_loop_skip[of x "Some p"] by (simp del: ddl_loop.simps)
  with Cons.IH[OF x(2), of "p @ [x]"] show ?case by (simp del: ddl_loop.simps)
qed simp

lemma ddl_loop_outside:
  "inside t \<Longrightarrow> ddl_loop (t # ts) None tables cd h = ddl_loop ts None tables cd h"
  using ddl_loop_skip[of t None ts tables cd h] by (simp add: part_with_def inside_def del: ddl_loop.simps)

lemma inside_space: "inside space"
  by (simp add: inside_def space_def is_keyword_def)

lemma inside_spaced: "list_all plain ts \<Longrightarrow> list_all inside (spaced ts)"
  by (induction ts) (auto simp: plain_def inside_def space_def is_keyword_def)

lemma unspaced: "list_all (\<lambda>t. \<not> is_space t) ts \<Longrightarrow> filter (\<lambda>t. \<not> is_space t) (spaced ts) = ts"
  by (induction ts) (auto simp: is_space_def space_def)

lemma parse_printed:
  assumes "good_table t" and "filter (\<lambda>t. \<not> is_space t) ts = print_table t" and "cd < 0" and "no_oom h"
  shows "\<exists>e' cd' h'. sql_parse_table (Some ts) True e cd h = (Ret t, e', cd', h') \<and> cd' < 0 \<and> no_oom h'"
proof -
  have "ready (parser_state ts e cd h)" "ahead (parser_state ts e cd h) = print_table t"
    using assms(2-4) by (simp_all add: ready_def ahead_def parser_state_def)
  with runs_parse_table[OF assms(1)] obtain s where "parse_table (parser_state ts e cd h) = (Ret t, s)" "ready s"
    unfolding runs_def by blast
  then show ?thesis by (simp add: sql_parse_table_def ready_def)
qed

lemma ddl_loop_table:
  assumes good: "good_table t" and cd: "cd < 0" and h: "no_oom h"
  shows "\<exists>cd1 h1. cd1 < 0 \<and> no_oom h1 \<and> ddl_loop (spaced (print_table t) @ ys) None tables cd h
    = (if length tables \<ge> 10 then (Stuck, cd1, h1) else ddl_loop ys None (tables @ [t]) cd1 (C_ORM_FREE h1))"
proof -
  obtain body where p: "print_table t = kw ''CREATE'' # body @ [semi]" and b: "list_all plain body"
    using print_table_plain[OF good] by blast
  define xs where "xs = kw ''CREATE'' # space # spaced body @ [semi]"
  have "list_all (\<lambda>t. \<not> is_space t) (kw ''CREATE'' # body @ [semi])"
    using b by (auto simp: list_all_iff plain_def is_space_def)
  from unspaced[OF this] have f: "filter (\<lambda>t. \<not> is_space t) xs = print_table t"
    by (simp add: p xs_def is_space_def space_def)
  obtain e' cd1 h1 where r: "sql_parse_table (Some xs) True (Some \<lparr>pe_message = None, pe_token = None\<rparr>) cd h = (Ret t, e', cd1, h1)"
    "cd1 < 0" "no_oom h1" using parse_printed[OF good f cd h] by blast
  have "ddl_loop (kw ''CREATE'' # space # spaced body @ semi # space # ys) None tables cd h
      = ddl_loop ((space # spaced body) @ semi # space # ys) (Some [kw ''CREATE'']) tables cd h"
    using ddl_loop_skip[of "kw ''CREATE''" None] by (simp add: part_with_def del: ddl_loop.simps)
  also have "\<dots> = ddl_loop (semi # space # ys) (Some ([kw ''CREATE''] @ space # spaced body)) tables cd h"
    by (rule ddl_loop_collect) (simp add: inside_space inside_spaced[OF b])
  also have "\<dots> = (if length tables \<ge> 10 then (Stuck, cd1, h1) else ddl_loop (space # ys) None (tables @ [t]) cd1 (C_ORM_FREE h1))"
  proof -
    have pw: "part_with semi (Some ([kw ''CREATE''] @ space # spaced body)) = Some xs" by (simp add: part_with_def xs_def)
    have "tok_kind semi = SQL_TOKEN_SEMICOLON" by simp
    from ddl_loop_parse[OF pw this r(1)] show ?thesis by (simp del: ddl_loop.simps)
  qed
  finally have "ddl_loop (spaced (print_table t) @ ys) None tables cd h
      = (if length tables \<ge> 10 then (Stuck, cd1, h1) else ddl_loop ys None (tables @ [t]) cd1 (C_ORM_FREE h1))"
    by (simp add: p ddl_loop_outside[OF inside_space] del: ddl_loop.simps)
  with r(2,3) show ?thesis by blast
qed

lemma ddl_loop_tables:
  "list_all good_table ts \<Longrightarrow> cd < 0 \<Longrightarrow> no_oom h \<Longrightarrow> length tables \<le> 10 \<Longrightarrow>
   fst (ddl_loop (spaced (concat (map print_table ts)) @ [token SQL_TOKEN_EOF []]) None tables cd h)
     = (if length tables + length ts \<le> 10 then Ret (tables @ ts) else Stuck)"
proof (induction ts arbitrary: tables cd h)
  case Nil
  have "inside (token SQL_TOKEN_EOF [])" by (simp add: inside_def is_keyword_def)
  from ddl_loop_outside[OF this] Nil show ?case by simp
next
  case (Cons t ts)
  then have good: "good_table t" "list_all good_table ts" by simp_all
  define ys where "ys = spaced (concat (map print_table ts)) @ [token SQL_TOKEN_EOF []]"
  obtain cd1 h1 where s: "cd1 < 0" "no_oom h1" "ddl_loop (spaced (print_table t) @ ys) None tables cd h
      = (if length tables \<ge> 10 then (Stuck, cd1, h1) else ddl_loop ys None (tables @ [t]) cd1 (C_ORM_FREE h1))"
    using ddl_loop_table[OF good(1) Cons.prems(2,3)] by blast
  have l: "spaced (concat (map print_table (t # ts))) @ [token SQL_TOKEN_EOF []] = spaced (print_table t) @ ys" by (simp add: ys_def)
  show ?case
  proof (cases "length tables \<ge> 10")
    case True
    with s(3) show ?thesis unfolding l by simp
  next
    case False
    with Cons.IH[OF good(2) s(1), of "C_ORM_FREE h1" "tables @ [t]"] s show ?thesis
      unfolding l ys_def by simp
  qed
qed

lemma lex_ok:
  assumes "no_oom h"
  shows "\<exists>l h'. sql_lex (Some cs) True h = (C_ORM_OK, Some l, h') \<and> tl_tokens l = tokens_of cs \<and> no_oom h'"
proof -
  define h1 where "h1 = snd (C_ORM_MALLOC h)"
  have m: "C_ORM_MALLOC h = (True, h1)" "no_oom h1" using assms by (simp_all add: h1_def)
  obtain rc1 k h2 where x: "lex_loop cs (\<lparr>tl_tokens = [], tl_capacity = 0\<rparr>, h1) = (rc1, (k, h2))" by (metis surj_pair)
  have inv: "tl_inv \<lparr>tl_tokens = [], tl_capacity = 0\<rparr>" by (simp add: tl_inv_def)
  from m x lex_loop_cases[OF x inv] show ?thesis by (simp add: sql_lex_def)
qed

lemma ddl_text_result:
  assumes "list_all good_table ts" and "cd < 0" and "no_oom h"
  shows "fst (parse_sql_ddl (Some (ddl_text ts)) True cd h) = (if length ts \<le> 10 then Ret ts else Stuck)"
proof -
  have "list_all lexes (print_table t)" if "t \<in> set ts" for t
    using print_table_plain[of t] that assms(1) lexes_punctuation lexes_kw[of "''CREATE''"]
    by (auto simp: list_all_iff plain_def is_sql_keyword_def sql_keywords_def)
  then have "list_all lexes (concat (map print_table ts))" by (auto simp: list_all_iff)
  from tokens_of_printed[OF this] have tk: "tokens_of (ddl_text ts) = spaced (concat (map print_table ts)) @ [token SQL_TOKEN_EOF []]"
    by (simp add: ddl_text_def)
  obtain l h1 where l: "sql_lex (Some (ddl_text ts)) True h = (C_ORM_OK, Some l, h1)" "tl_tokens l = tokens_of (ddl_text ts)" "no_oom h1"
    using lex_ok[OF assms(3)] by blast
  obtain r cd1 h3 where d: "ddl_loop (tl_tokens l) None [] cd (h1\<lparr>live := live h1 + 1\<rparr>) = (r, cd1, h3)" by (metis surj_pair)
  have "r = (if length ts \<le> 10 then Ret ts else Stuck)"
    using ddl_loop_tables[OF assms(1,2), of "h1\<lparr>live := live h1 + 1\<rparr>" "[]"] d l tk by simp
  with l d show ?thesis by (simp add: parse_sql_ddl_def)
qed

section \<open>Properties\<close>

text \<open>C16 (ddl_roundtrip).
  Up to ten tables written as \<open>CREATE TABLE\<close> statements (the words separated by spaces) are parsed back to
  exactly the same tables: names, types and lengths, the constraints of the columns and those of the tables.
\<close>

theorem ddl_roundtrip:
  assumes "list_all good_table ts" and "length ts \<le> 10" and "cd < 0" and "no_oom h"
  shows "fst (parse_sql_ddl (Some (ddl_text ts)) True cd h) = Ret ts"
  using ddl_text_result[OF assms(1,3,4)] assms(2) by simp

definition demo_table :: sql_table_t where
  "demo_table = \<lparr>st_name = Some ''post'',
     st_columns = [\<lparr>scol_name = ''id'', scol_type = SQL_TYPE_BIGINT, scol_length = -1,
         scol_constraints = [empty_constraint\<lparr>sc_type := SQL_CONSTRAINT_PRIMARY_KEY\<rparr>]\<rparr>,
       \<lparr>scol_name = ''title'', scol_type = SQL_TYPE_VARCHAR, scol_length = 255,
         scol_constraints = [empty_constraint\<lparr>sc_type := SQL_CONSTRAINT_NOT_NULL\<rparr>,
           empty_constraint\<lparr>sc_type := SQL_CONSTRAINT_DEFAULT, sc_default_value := Some ''draft''\<rparr>]\<rparr>],
     st_constraints = [empty_constraint\<lparr>sc_type := SQL_CONSTRAINT_FOREIGN_KEY, sc_reference_table := Some ''author'',
       sc_reference_column := Some ''id'', sc_columns := Some [''id'', ''title'']\<rparr>]\<rparr>"

theorem ddl_roundtrip_witness:
  "fst (parse_sql_ddl (Some (ddl_text [demo_table, demo_table])) True (-1) \<lparr>script = [], live = 0\<rparr>) = Ret [demo_table, demo_table]"
proof -
  have "list_all good_table [demo_table, demo_table]" by code_simp
  then show ?thesis by (rule ddl_roundtrip) (simp_all add: no_oom_def)
qed

text \<open>The array of the result has ten places and the loop does not count: the eleventh well-formed statement is
  written behind it.
\<close>

theorem ddl_too_many:
  assumes "list_all good_table ts" and "10 < length ts" and "cd < 0" and "no_oom h"
  shows "fst (parse_sql_ddl (Some (ddl_text ts)) True cd h) = Stuck"
  using ddl_text_result[OF assms(1,3,4)] assms(2) by simp

theorem ddl_too_many_witness:
  "fst (parse_sql_ddl (Some (ddl_text (replicate 11 demo_table))) True (-1) \<lparr>script = [], live = 0\<rparr>) = Stuck"
proof -
  have "good_table demo_table" by code_simp
  then have "list_all good_table (replicate 11 demo_table)" by (simp add: list_all_iff)
  then show ?thesis by (rule ddl_too_many) (simp_all add: no_oom_def)
qed

end
