(* ===== verification/MemoryDriver.thy ===== *)
theory MemoryDriver
  imports Act StringBuilder "HOL-Library.AList"
begin

text \<open>
  The memory driver, \<open>src/c_orm_memory.c\<close>: tables are lists of rows, newest first, an INSERT moves the bound
  cells into a new row and a SELECT walks along the rows of its table.

  A prepared query and a row are objects with an address (their number of allocation), since a query keeps
  the pointer \<open>current_row\<close> into the rows while other queries insert. Tables and cells have one owner each, so
  they are values, in the order of their links. The use of a freed address is \<open>Stuck\<close>; the address of a freed
  query is not given out again. A \<open>double\<close> is only copied, and is kept as its 64 bits.
\<close>

section \<open>State\<close>

datatype mem_query_type_t =
    MEM_QUERY_SELECT_ALL | MEM_QUERY_SELECT_PK | MEM_QUERY_INSERT | MEM_QUERY_UPDATE | MEM_QUERY_DELETE | MEM_QUERY_RAW

datatype mem_val_type_t =
    MEM_VAL_NULL | MEM_VAL_INT32 | MEM_VAL_INT64 | MEM_VAL_DOUBLE | MEM_VAL_STRING | MEM_VAL_BLOB

record mem_cell_t =
  mc_type :: mem_val_type_t
  mc_i32 :: "32 word"
  mc_i64 :: "64 word"
  mc_d :: "64 word"
  mc_s :: cptr
  mc_blob :: "8 word list option"

record mem_row_t =
  row_columns :: "mem_cell_t option list"
  row_next :: "nat option"

record mem_table_t =
  mt_name :: string
  mt_head :: "nat option"

record c_orm_memory_query_t =
  mq_type :: mem_query_type_t
  mq_table_name :: string
  mq_bound :: "mem_cell_t option list"
  mq_num_bound :: nat
  mq_current_row :: "nat option"
  mq_step_started :: bool

record mem_state =
  md_tables :: "mem_table_t list"
  md_rows :: "(nat \<times> mem_row_t) list"
  md_queries :: "(nat \<times> c_orm_memory_query_t) list"
  md_fresh :: nat
  md_fresh_row :: nat
  md_heap :: heap

type_synonym 'a mem = "(mem_state, 'a) act"

definition mem_alloc :: "bool mem" where
  "mem_alloc s = (case C_ORM_MALLOC (md_heap s) of (ok, h) \<Rightarrow> (Ret ok, s\<lparr>md_heap := h\<rparr>))"

definition mem_free :: "unit mem" where
  "mem_free s = (Ret (), s\<lparr>md_heap := C_ORM_FREE (md_heap s)\<rparr>)"

definition fresh_address :: "nat mem" where
  "fresh_address s = (Ret (md_fresh s), s\<lparr>md_fresh := Suc (md_fresh s)\<rparr>)"

definition fresh_row :: "nat mem" where
  "fresh_row s = (Ret (md_fresh_row s), s\<lparr>md_fresh_row := Suc (md_fresh_row s)\<rparr>)"

definition empty_cell :: mem_cell_t where
  "empty_cell = \<lparr>mc_type = MEM_VAL_NULL, mc_i32 = 0, mc_i64 = 0, mc_d = 0, mc_s = None, mc_blob = None\<rparr>"

definition cell_blocks :: "mem_cell_t option \<Rightarrow> int" where
  "cell_blocks cell = (case cell of None \<Rightarrow> 0 | Some c \<Rightarrow> 1 + of_bool (mc_s c \<noteq> None) + of_bool (mc_blob c \<noteq> None))"

definition free_mem_cell :: "mem_cell_t option \<Rightarrow> unit mem" where
  "free_mem_cell cell =
     (case cell of None \<Rightarrow> preturn ()
      | Some c \<Rightarrow> pbind (if mc_s c \<noteq> None then mem_free else preturn ()) (\<lambda>_.
          pbind (if mc_blob c \<noteq> None then mem_free else preturn ()) (\<lambda>_. mem_free)))"

fun free_mem_cells :: "mem_cell_t option list \<Rightarrow> unit mem" where
  "free_mem_cells [] = preturn ()"
| "free_mem_cells (c # cs) = pbind (free_mem_cell c) (\<lambda>_. free_mem_cells cs)"

section \<open>Connection\<close>

definition mem_connect :: "bool \<Rightarrow> heap \<Rightarrow> mem_state outcome \<times> heap" where
  "mem_connect out_db h =
     (if \<not> out_db then (Err C_ORM_ERROR_MEMORY, h)
      else case C_ORM_MALLOC h of (ok, h1) \<Rightarrow>
        if \<not> ok then (Err C_ORM_ERROR_MEMORY, h1)
        else case C_ORM_MALLOC h1 of (ok2, h2) \<Rightarrow>
          if \<not> ok2 then (Err C_ORM_ERROR_MEMORY, C_ORM_FREE h2)
          else (Ret \<lparr>md_tables = [], md_rows = [], md_queries = [], md_fresh = 0, md_fresh_row = 0, md_heap = h2\<rparr>, h2))"

fun free_rows :: "nat \<Rightarrow> nat option \<Rightarrow> unit mem" where
  \<comment> \<open>the loop over the rows of a table, in at most \<open>n\<close> rounds\<close>
  "free_rows n None = preturn ()"
| "free_rows 0 (Some p) = stuck"
| "free_rows (Suc n) (Some p) = (\<lambda>s. case map_of (md_rows s) p of None \<Rightarrow> (Stuck, s)
     | Some r \<Rightarrow> pbind (free_mem_cells (row_columns r)) (\<lambda>_.
         pbind (if row_columns r = [] then preturn () else mem_free) (\<lambda>_.
         pbind mem_free (\<lambda>_. free_rows n (row_next r)))) (s\<lparr>md_rows := AList.delete p (md_rows s)\<rparr>))"

fun free_tables :: "mem_table_t list \<Rightarrow> unit mem" where
  "free_tables [] = preturn ()"
| "free_tables (t # ts) = (\<lambda>s. pbind (free_rows (length (md_rows s)) (mt_head t)) (\<lambda>_.
     pbind mem_free (\<lambda>_. pbind mem_free (\<lambda>_. free_tables ts))) s)"

definition mem_disconnect :: "unit mem" where
  "mem_disconnect s = pbind (free_tables (md_tables s)) (\<lambda>_. pbind mem_free (\<lambda>_. mem_free)) s"

section \<open>Preparing\<close>

definition starts :: "string \<Rightarrow> string \<Rightarrow> bool" where
  \<comment> \<open>\<open>strncmp(sql, prefix, strlen(prefix)) == 0\<close>\<close>
  "starts prefix sql \<longleftrightarrow> take (length prefix) sql = prefix"

definition parse_table_name :: "string \<Rightarrow> string \<Rightarrow> string outcome" where
  \<comment> \<open>into a buffer of 64 bytes, without a bound\<close>
  "parse_table_name sql prefix =
     (case strstr sql prefix of None \<Rightarrow> Stuck
      | Some i \<Rightarrow> let name = takeWhile (\<lambda>c. c \<noteq> CHR '' '' \<and> c \<noteq> CHR ''('') (dropWhile (\<lambda>c. c = CHR '' '') (drop (i + length prefix) sql))
          in if 64 \<le> length name then Stuck else Ret name)"

definition classify :: "string \<Rightarrow> mem_query_type_t \<times> string option" where
  \<comment> \<open>the type of the query, and the prefix of its table name\<close>
  "classify sql =
     (if starts ''SELECT * FROM '' sql then
        (if strstr sql ''WHERE'' \<noteq> None then MEM_QUERY_SELECT_PK else MEM_QUERY_SELECT_ALL, Some ''FROM '')
      else if starts ''INSERT INTO '' sql then (MEM_QUERY_INSERT, Some ''INTO '')
      else if starts ''UPDATE '' sql then (MEM_QUERY_UPDATE, Some ''UPDATE '')
      else if starts ''DELETE FROM '' sql then (MEM_QUERY_DELETE, Some ''FROM '')
      else (MEM_QUERY_RAW, None))"

definition lift_outcome :: "'a outcome \<Rightarrow> ('s, 'a) act" where
  "lift_outcome r s = (r, s)"

definition new_query :: "mem_query_type_t \<Rightarrow> string \<Rightarrow> nat mem" where
  "new_query ty name = pbind fresh_address (\<lambda>q s. (Ret q, s\<lparr>md_queries := (q,
     \<lparr>mq_type = ty, mq_table_name = name, mq_bound = replicate 32 None, mq_num_bound = 0, mq_current_row = None, mq_step_started = False\<rparr>)
       # md_queries s\<rparr>))"

definition mem_prepare :: "string \<Rightarrow> nat mem" where
  "mem_prepare sql =
     pbind mem_alloc (\<lambda>ok. if \<not> ok then perr C_ORM_ERROR_MEMORY
     else pbind mem_alloc (\<lambda>ok2. if \<not> ok2 then pbind mem_free (\<lambda>_. perr C_ORM_ERROR_MEMORY)
     else (case classify sql of
         (ty, None) \<Rightarrow> new_query ty ''''
       | (ty, Some prefix) \<Rightarrow> pbind (lift_outcome (parse_table_name sql prefix)) (\<lambda>name. new_query ty name))))"

section \<open>Binding\<close>

definition the_query :: "nat \<Rightarrow> c_orm_memory_query_t mem" where
  \<comment> \<open>dereferencing a query pointer\<close>
  "the_query q s = (case map_of (md_queries s) q of None \<Rightarrow> (Stuck, s) | Some x \<Rightarrow> (Ret x, s))"

definition set_query :: "nat \<Rightarrow> c_orm_memory_query_t \<Rightarrow> unit mem" where
  "set_query q x s = (Ret (), s\<lparr>md_queries := AList.update q x (md_queries s)\<rparr>)"

definition set_bound :: "nat \<Rightarrow> nat \<Rightarrow> mem_cell_t option \<Rightarrow> unit mem" where
  "set_bound q i cell = pbind (the_query q) (\<lambda>x. set_query q (x\<lparr>mq_bound := (mq_bound x)[i := cell]\<rparr>))"

definition get_or_alloc_bound_cell :: "nat option \<Rightarrow> int \<Rightarrow> (nat \<times> nat) mem" where
  \<comment> \<open>the place of the cell, which is empty: the query and the 0-based index\<close>
  "get_or_alloc_bound_cell query index =
     (case query of None \<Rightarrow> perr C_ORM_ERROR_BIND
      | Some q \<Rightarrow> if index < 1 \<or> 32 < index then perr C_ORM_ERROR_BIND
          else let i = nat index - 1 in
            pbind (the_query q) (\<lambda>x.
            pbind (free_mem_cell (mq_bound x ! i)) (\<lambda>_.
            pbind (set_bound q i None) (\<lambda>_.
            pbind mem_alloc (\<lambda>ok. if \<not> ok then perr C_ORM_ERROR_MEMORY
            else pbind (set_bound q i (Some empty_cell)) (\<lambda>_.
            pbind (the_query q) (\<lambda>y.
            pbind (set_query q (y\<lparr>mq_num_bound := max (mq_num_bound y) (nat index)\<rparr>)) (\<lambda>_. preturn (q, i)))))))))"

definition bind_cell :: "nat option \<Rightarrow> int \<Rightarrow> mem_cell_t \<Rightarrow> unit mem" where
  "bind_cell query index cell = pbind (get_or_alloc_bound_cell query index) (\<lambda>p. set_bound (fst p) (snd p) (Some cell))"

definition mem_bind_int32 :: "nat option \<Rightarrow> int \<Rightarrow> 32 word \<Rightarrow> unit mem" where
  "mem_bind_int32 query index val = bind_cell query index (empty_cell\<lparr>mc_type := MEM_VAL_INT32, mc_i32 := val, mc_i64 := scast val\<rparr>)"

definition mem_bind_int64 :: "nat option \<Rightarrow> int \<Rightarrow> 64 word \<Rightarrow> unit mem" where
  "mem_bind_int64 query index val = bind_cell query index (empty_cell\<lparr>mc_type := MEM_VAL_INT64, mc_i64 := val, mc_i32 := ucast val\<rparr>)"

definition mem_bind_double :: "nat option \<Rightarrow> int \<Rightarrow> 64 word \<Rightarrow> unit mem" where
  "mem_bind_double query index val = bind_cell query index (empty_cell\<lparr>mc_type := MEM_VAL_DOUBLE, mc_d := val\<rparr>)"

definition mem_bind_null :: "nat option \<Rightarrow> int \<Rightarrow> unit mem" where
  "mem_bind_null query index = bind_cell query index (empty_cell\<lparr>mc_type := MEM_VAL_NULL\<rparr>)"

definition mem_bind_string :: "nat option \<Rightarrow> int \<Rightarrow> cptr \<Rightarrow> unit mem" where
  \<comment> \<open>when the text cannot be copied the cell stays, a string without a text\<close>
  "mem_bind_string query index val =
     pbind (get_or_alloc_bound_cell query index) (\<lambda>p.
     pbind (set_bound (fst p) (snd p) (Some (empty_cell\<lparr>mc_type := MEM_VAL_STRING\<rparr>))) (\<lambda>_.
     if val = None then preturn ()
     else pbind mem_alloc (\<lambda>ok. if \<not> ok then perr C_ORM_ERROR_MEMORY
       else set_bound (fst p) (snd p) (Some (empty_cell\<lparr>mc_type := MEM_VAL_STRING, mc_s := val\<rparr>)))))"

definition mem_bind_blob :: "nat option \<Rightarrow> int \<Rightarrow> 8 word list option \<Rightarrow> unit mem" where
  \<comment> \<open>the bytes at \<open>val\<close>, \<open>size\<close> of them\<close>
  "mem_bind_blob query index val =
     pbind (get_or_alloc_bound_cell query index) (\<lambda>p.
     pbind (set_bound (fst p) (snd p) (Some (empty_cell\<lparr>mc_type := MEM_VAL_BLOB\<rparr>))) (\<lambda>_.
     if val = None then preturn ()
     else pbind mem_alloc (\<lambda>ok. if \<not> ok then perr C_ORM_ERROR_MEMORY
       else set_bound (fst p) (snd p) (Some (empty_cell\<lparr>mc_type := MEM_VAL_BLOB, mc_blob := val\<rparr>)))))"

section \<open>Stepping\<close>

definition find_table :: "string \<Rightarrow> mem_table_t list \<Rightarrow> mem_table_t option" where
  "find_table name ts = find (\<lambda>t. mt_name t = name) ts"

fun set_head :: "string \<Rightarrow> nat \<Rightarrow> mem_table_t list \<Rightarrow> mem_table_t list" where
  \<comment> \<open>\<open>t->head = row\<close> of the table that was found\<close>
  "set_head name p [] = []"
| "set_head name p (t # ts) = (if mt_name t = name then t\<lparr>mt_head := Some p\<rparr> # ts else t # set_head name p ts)"

definition create_table :: "string \<Rightarrow> unit mem" where
  \<comment> \<open>in front of the others\<close>
  "create_table name =
     pbind mem_alloc (\<lambda>ok. if \<not> ok then perr C_ORM_ERROR_MEMORY
     else pbind mem_alloc (\<lambda>ok2. if \<not> ok2 then pbind mem_free (\<lambda>_. perr C_ORM_ERROR_MEMORY)
     else (\<lambda>s. (Ret (), s\<lparr>md_tables := \<lparr>mt_name = name, mt_head = None\<rparr> # md_tables s\<rparr>))))"

definition ensure_table :: "string \<Rightarrow> unit mem" where
  "ensure_table name s = (if find_table name (md_tables s) = None then create_table name s else (Ret (), s))"

definition add_row :: "string \<Rightarrow> mem_cell_t option list \<Rightarrow> unit mem" where
  "add_row name cells = pbind fresh_row (\<lambda>p s.
     (Ret (), s\<lparr>md_rows := (p, \<lparr>row_columns = cells,
           row_next = (case find_table name (md_tables s) of None \<Rightarrow> None | Some t \<Rightarrow> mt_head t)\<rparr>) # md_rows s,
        md_tables := set_head name p (md_tables s)\<rparr>))"

definition insert_row :: "nat \<Rightarrow> unit mem" where
  "insert_row q = pbind (the_query q) (\<lambda>x.
     pbind (ensure_table (mq_table_name x)) (\<lambda>_.
     pbind mem_alloc (\<lambda>ok. if \<not> ok then perr C_ORM_ERROR_MEMORY
     else pbind (if mq_num_bound x > 0 then mem_alloc else preturn True) (\<lambda>ok2.
       if \<not> ok2 then pbind mem_free (\<lambda>_. perr C_ORM_ERROR_MEMORY)
       else pbind (set_query q (x\<lparr>mq_bound := replicate (mq_num_bound x) None @ drop (mq_num_bound x) (mq_bound x), mq_num_bound := 0\<rparr>)) (\<lambda>_.
         add_row (mq_table_name x) (take (mq_num_bound x) (mq_bound x)))))))"

definition next_row :: "c_orm_memory_query_t \<Rightarrow> nat option mem" where
  \<comment> \<open>where a SELECT moves to\<close>
  "next_row x s =
     (if \<not> mq_step_started x then
        (Ret (case find_table (mq_table_name x) (md_tables s) of None \<Rightarrow> None | Some t \<Rightarrow> mt_head t), s)
      else case mq_current_row x of None \<Rightarrow> (Ret None, s)
        | Some p \<Rightarrow> (case map_of (md_rows s) p of None \<Rightarrow> (Stuck, s) | Some r \<Rightarrow> (Ret (row_next r), s)))"

definition mem_step :: "nat option \<Rightarrow> bool mem" where
  \<comment> \<open>whether there is a row\<close>
  "mem_step query =
     (case query of None \<Rightarrow> preturn False
      | Some q \<Rightarrow> pbind (the_query q) (\<lambda>x.
          if mq_type x = MEM_QUERY_INSERT then pbind (insert_row q) (\<lambda>_. preturn False)
          else if mq_type x = MEM_QUERY_SELECT_ALL \<or> mq_type x = MEM_QUERY_SELECT_PK then
            pbind (next_row x) (\<lambda>p.
            pbind (set_query q (x\<lparr>mq_step_started := True, mq_current_row := p\<rparr>)) (\<lambda>_. preturn (p \<noteq> None)))
          else preturn False))"

section \<open>Reading\<close>

definition get_current_cell :: "nat option \<Rightarrow> int \<Rightarrow> mem_cell_t mem" where
  \<comment> \<open>a negative index is a huge \<open>size_t\<close>\<close>
  "get_current_cell query index =
     (case query of None \<Rightarrow> perr C_ORM_ERROR_NOT_FOUND
      | Some q \<Rightarrow> pbind (the_query q) (\<lambda>x.
          case mq_current_row x of None \<Rightarrow> perr C_ORM_ERROR_NOT_FOUND
          | Some p \<Rightarrow> (\<lambda>s. case map_of (md_rows s) p of None \<Rightarrow> (Stuck, s)
              | Some r \<Rightarrow> if index < 0 \<or> int (length (row_columns r)) \<le> index then (Err C_ORM_ERROR_NOT_FOUND, s)
                  else (case row_columns r ! nat index of None \<Rightarrow> (Err C_ORM_ERROR_NOT_FOUND, s) | Some c \<Rightarrow> (Ret c, s)))))"

definition read_cell :: "(mem_cell_t \<Rightarrow> 'a) \<Rightarrow> nat option \<Rightarrow> int \<Rightarrow> bool \<Rightarrow> 'a mem" where
  "read_cell f query index out_val =
     (if out_val then pbind (get_current_cell query index) (\<lambda>c. preturn (f c)) else perr C_ORM_ERROR_NOT_FOUND)"

definition mem_get_int32 :: "nat option \<Rightarrow> int \<Rightarrow> bool \<Rightarrow> 32 word mem" where
  "mem_get_int32 = read_cell mc_i32"

definition mem_get_int64 :: "nat option \<Rightarrow> int \<Rightarrow> bool \<Rightarrow> 64 word mem" where
  "mem_get_int64 = read_cell mc_i64"

definition mem_get_double :: "nat option \<Rightarrow> int \<Rightarrow> bool \<Rightarrow> 64 word mem" where
  "mem_get_double = read_cell mc_d"

definition mem_get_string :: "nat option \<Rightarrow> int \<Rightarrow> bool \<Rightarrow> cptr mem" where
  "mem_get_string = read_cell mc_s"

definition mem_get_blob :: "nat option \<Rightarrow> int \<Rightarrow> bool \<Rightarrow> 8 word list option mem" where
  "mem_get_blob = read_cell mc_blob"

definition mem_is_null :: "nat option \<Rightarrow> int \<Rightarrow> bool mem" where
  \<comment> \<open>a cell that cannot be read is NULL\<close>
  "mem_is_null query index s =
     (case get_current_cell query index s of (Ret c, t) \<Rightarrow> (Ret (mc_type c = MEM_VAL_NULL), t)
      | (Err _, t) \<Rightarrow> (Ret True, t) | (Stuck, t) \<Rightarrow> (Stuck, t))"

section \<open>The end of a query\<close>

definition mem_finalize :: "nat option \<Rightarrow> unit mem" where
  "mem_finalize query =
     (case query of None \<Rightarrow> stuck
      | Some q \<Rightarrow> pbind (the_query q) (\<lambda>x. pbind (free_mem_cells (mq_bound x)) (\<lambda>_. pbind mem_free (\<lambda>_. pbind mem_free (\<lambda>_.
          (\<lambda>s. (Ret (), s\<lparr>md_queries := AList.delete q (md_queries s)\<rparr>)))))))"

definition mem_reset :: "nat option \<Rightarrow> unit mem" where
  "mem_reset query =
     (case query of None \<Rightarrow> preturn ()
      | Some q \<Rightarrow> pbind (the_query q) (\<lambda>x. set_query q (x\<lparr>mq_current_row := None, mq_step_started := False\<rparr>)))"

text \<open>The operations that report nothing: the status, and what they store through their pointer.\<close>

definition mem_get_last_error :: "mem_state \<Rightarrow> c_orm_error_t \<times> cptr" where
  \<comment> \<open>the message of the connection, which nothing ever fills\<close>
  "mem_get_last_error s = (C_ORM_ERROR_UNKNOWN, Some '''')"

definition mem_get_last_insert_rowid :: "mem_state \<Rightarrow> c_orm_error_t \<times> 64 word" where
  "mem_get_last_insert_rowid s = (C_ORM_ERROR_NOT_IMPLEMENTED, 0)"

definition mem_get_column_count :: "nat option \<Rightarrow> mem_state \<Rightarrow> c_orm_error_t \<times> 32 word" where
  "mem_get_column_count query s = (C_ORM_ERROR_NOT_IMPLEMENTED, 0)"

definition mem_get_column_name :: "nat option \<Rightarrow> int \<Rightarrow> mem_state \<Rightarrow> c_orm_error_t \<times> cptr" where
  "mem_get_column_name query index s = (C_ORM_ERROR_NOT_IMPLEMENTED, None)"

section \<open>Runs\<close>

text \<open>The calls a client makes through the driver's table of functions, and their results.\<close>

datatype mem_op =
    Prepare string
  | Bind_int32 "nat option" int "32 word"
  | Bind_int64 "nat option" int "64 word"
  | Bind_double "nat option" int "64 word"
  | Bind_string "nat option" int cptr
  | Bind_blob "nat option" int "8 word list option"
  | Bind_null "nat option" int
  | Step "nat option"
  | Get_int32 "nat option" int
  | Get_int64 "nat option" int
  | Get_double "nat option" int
  | Get_string "nat option" int
  | Get_blob "nat option" int
  | Is_null "nat option" int
  | Finalize "nat option"
  | Reset "nat option"

datatype mem_result =
    Done | Handle nat | Flag bool | Int32 "32 word" | Int64 "64 word" | Double "64 word" | Text cptr
  | Blob "8 word list option"

definition returning :: "('a \<Rightarrow> 'b) \<Rightarrow> ('s, 'a) act \<Rightarrow> ('s, 'b) act" where
  "returning f m = pbind m (\<lambda>a. preturn (f a))"

fun mem_exec :: "mem_op \<Rightarrow> mem_result mem" where
  "mem_exec (Prepare sql) = returning Handle (mem_prepare sql)"
| "mem_exec (Bind_int32 q i v) = returning (\<lambda>_. Done) (mem_bind_int32 q i v)"
| "mem_exec (Bind_int64 q i v) = returning (\<lambda>_. Done) (mem_bind_int64 q i v)"
| "mem_exec (Bind_double q i v) = returning (\<lambda>_. Done) (mem_bind_double q i v)"
| "mem_exec (Bind_string q i v) = returning (\<lambda>_. Done) (mem_bind_string q i v)"
| "mem_exec (Bind_blob q i v) = returning (\<lambda>_. Done) (mem_bind_blob q i v)"
| "mem_exec (Bind_null q i) = returning (\<lambda>_. Done) (mem_bind_null q i)"
| "mem_exec (Step q) = returning Flag (mem_step q)"
| "mem_exec (Get_int32 q i) = returning Int32 (mem_get_int32 q i True)"
| "mem_exec (Get_int64 q i) = returning Int64 (mem_get_int64 q i True)"
| "mem_exec (Get_double q i) = returning Double (mem_get_double q i True)"
| "mem_exec (Get_string q i) = returning Text (mem_get_string q i True)"
| "mem_exec (Get_blob q i) = returning Blob (mem_get_blob q i True)"
| "mem_exec (Is_null q i) = returning Flag (mem_is_null q i)"
| "mem_exec (Finalize q) = returning (\<lambda>_. Done) (mem_finalize q)"
| "mem_exec (Reset q) = returning (\<lambda>_. Done) (mem_reset q)"

fun run_ops :: "('o \<Rightarrow> ('s, 'r) act) \<Rightarrow> 'o list \<Rightarrow> 's \<Rightarrow> 'r outcome list \<times> 's" where
  \<comment> \<open>the outcomes of a sequence of calls, which ends where one is stuck\<close>
  "run_ops ex [] s = ([], s)"
| "run_ops ex (x # xs) s = (case ex x s of
     (Stuck, t) \<Rightarrow> ([Stuck], t)
   | (r, t) \<Rightarrow> (case run_ops ex xs t of (rs, u) \<Rightarrow> (r # rs, u)))"

end
