(* ===== verification/MemorySpec.thy ===== *)
theory MemorySpec
  imports MemoryDriver
begin

text \<open>
  What the memory driver promises, as an abstract machine: a table is the list of its rows, newest first,
  and a SELECT takes the rows that its table has at the first step. \<open>abs_state\<close> reads the abstract state off
  the rows and pointers of the driver, and \<open>sim\<close> is the refinement.
\<close>

section \<open>The abstract machine\<close>

type_synonym row = "mem_cell_t option list"

record aquery =
  aq_type :: mem_query_type_t
  aq_table :: string
  aq_params :: row
  aq_num :: nat
  aq_cursor :: "row list option"

record adb =
  ad_tables :: "string \<Rightarrow> row list"
  ad_queries :: "(nat \<times> aquery) list"
  ad_fresh :: nat

definition a_query :: "nat \<Rightarrow> (adb, aquery) act" where
  "a_query q a = (case map_of (ad_queries a) q of None \<Rightarrow> (Stuck, a) | Some x \<Rightarrow> (Ret x, a))"

definition a_set :: "nat \<Rightarrow> aquery \<Rightarrow> (adb, unit) act" where
  "a_set q x a = (Ret (), a\<lparr>ad_queries := AList.update q x (ad_queries a)\<rparr>)"

definition a_handle :: "c_orm_error_t \<Rightarrow> nat option \<Rightarrow> (nat \<Rightarrow> aquery \<Rightarrow> (adb, 'a) act) \<Rightarrow> (adb, 'a) act" where
  "a_handle e query f = (case query of None \<Rightarrow> perr e | Some q \<Rightarrow> pbind (a_query q) (f q))"

definition a_prepare :: "string \<Rightarrow> (adb, nat) act" where
  "a_prepare sql a =
     (case classify sql of (ty, prefix) \<Rightarrow>
        case (case prefix of None \<Rightarrow> Ret '''' | Some p \<Rightarrow> parse_table_name sql p) of
          Ret name \<Rightarrow> (Ret (ad_fresh a), a\<lparr>ad_fresh := Suc (ad_fresh a), ad_queries :=
            (ad_fresh a, \<lparr>aq_type = ty, aq_table = name, aq_params = replicate 32 None, aq_num = 0, aq_cursor = None\<rparr>) # ad_queries a\<rparr>)
        | Err e \<Rightarrow> (Err e, a) | Stuck \<Rightarrow> (Stuck, a))"

definition a_bind :: "nat option \<Rightarrow> int \<Rightarrow> mem_cell_t \<Rightarrow> (adb, unit) act" where
  \<comment> \<open>a parameter keeps its value until it is bound again or moves into a row\<close>
  "a_bind query index cell =
     (if query \<noteq> None \<and> (index < 1 \<or> 32 < index) then perr C_ORM_ERROR_BIND
      else a_handle C_ORM_ERROR_BIND query (\<lambda>q x. a_set q
        (x\<lparr>aq_params := (aq_params x)[nat index - 1 := Some cell], aq_num := max (aq_num x) (nat index)\<rparr>)))"

definition a_step :: "nat option \<Rightarrow> (adb, bool) act" where
  "a_step query = (case query of None \<Rightarrow> preturn False | Some q \<Rightarrow> pbind (a_query q) (\<lambda>x a.
     if aq_type x = MEM_QUERY_INSERT then
       (Ret False, a\<lparr>ad_tables := (ad_tables a)(aq_table x := take (aq_num x) (aq_params x) # ad_tables a (aq_table x)),
          ad_queries := AList.update q (x\<lparr>aq_params := replicate (aq_num x) None @ drop (aq_num x) (aq_params x), aq_num := 0\<rparr>) (ad_queries a)\<rparr>)
     else if aq_type x = MEM_QUERY_SELECT_ALL \<or> aq_type x = MEM_QUERY_SELECT_PK then
       (let rows = (case aq_cursor x of None \<Rightarrow> ad_tables a (aq_table x) | Some rs \<Rightarrow> tl rs) in
        (Ret (rows \<noteq> []), a\<lparr>ad_queries := AList.update q (x\<lparr>aq_cursor := Some rows\<rparr>) (ad_queries a)\<rparr>))
     else (Ret False, a)))"

definition a_cell :: "aquery \<Rightarrow> int \<Rightarrow> mem_cell_t option" where
  "a_cell x index = (case aq_cursor x of Some (r # rs) \<Rightarrow>
     if 0 \<le> index \<and> index < int (length r) then r ! nat index else None | _ \<Rightarrow> None)"

definition a_get :: "(mem_cell_t \<Rightarrow> 'a) \<Rightarrow> nat option \<Rightarrow> int \<Rightarrow> (adb, 'a) act" where
  "a_get f query index = a_handle C_ORM_ERROR_NOT_FOUND query (\<lambda>q x.
     case a_cell x index of None \<Rightarrow> perr C_ORM_ERROR_NOT_FOUND | Some c \<Rightarrow> preturn (f c))"

definition a_is_null :: "nat option \<Rightarrow> int \<Rightarrow> (adb, bool) act" where
  "a_is_null query index = (case query of None \<Rightarrow> preturn True | Some q \<Rightarrow> pbind (a_query q) (\<lambda>x.
     preturn (case a_cell x index of None \<Rightarrow> True | Some c \<Rightarrow> mc_type c = MEM_VAL_NULL)))"

definition a_finalize :: "nat option \<Rightarrow> (adb, unit) act" where
  "a_finalize query = (case query of None \<Rightarrow> stuck | Some q \<Rightarrow> pbind (a_query q) (\<lambda>_ a.
     (Ret (), a\<lparr>ad_queries := AList.delete q (ad_queries a)\<rparr>)))"

definition a_reset :: "nat option \<Rightarrow> (adb, unit) act" where
  "a_reset query = (case query of None \<Rightarrow> preturn () | Some q \<Rightarrow> pbind (a_query q) (\<lambda>x. a_set q (x\<lparr>aq_cursor := None\<rparr>)))"

fun spec_exec :: "mem_op \<Rightarrow> (adb, mem_result) act" where
  "spec_exec (Prepare sql) = returning Handle (a_prepare sql)"
| "spec_exec (Bind_int32 q i v) = returning (\<lambda>_. Done) (a_bind q i (empty_cell\<lparr>mc_type := MEM_VAL_INT32, mc_i32 := v, mc_i64 := scast v\<rparr>))"
| "spec_exec (Bind_int64 q i v) = returning (\<lambda>_. Done) (a_bind q i (empty_cell\<lparr>mc_type := MEM_VAL_INT64, mc_i64 := v, mc_i32 := ucast v\<rparr>))"
| "spec_exec (Bind_double q i v) = returning (\<lambda>_. Done) (a_bind q i (empty_cell\<lparr>mc_type := MEM_VAL_DOUBLE, mc_d := v\<rparr>))"
| "spec_exec (Bind_string q i v) = returning (\<lambda>_. Done) (a_bind q i (empty_cell\<lparr>mc_type := MEM_VAL_STRING, mc_s := v\<rparr>))"
| "spec_exec (Bind_blob q i v) = returning (\<lambda>_. Done) (a_bind q i (empty_cell\<lparr>mc_type := MEM_VAL_BLOB, mc_blob := v\<rparr>))"
| "spec_exec (Bind_null q i) = returning (\<lambda>_. Done) (a_bind q i empty_cell)"
| "spec_exec (Step q) = returning Flag (a_step q)"
| "spec_exec (Get_int32 q i) = returning Int32 (a_get mc_i32 q i)"
| "spec_exec (Get_int64 q i) = returning Int64 (a_get mc_i64 q i)"
| "spec_exec (Get_double q i) = returning Double (a_get mc_d q i)"
| "spec_exec (Get_string q i) = returning Text (a_get mc_s q i)"
| "spec_exec (Get_blob q i) = returning Blob (a_get mc_blob q i)"
| "spec_exec (Is_null q i) = returning Flag (a_is_null q i)"
| "spec_exec (Finalize q) = returning (\<lambda>_. Done) (a_finalize q)"
| "spec_exec (Reset q) = returning (\<lambda>_. Done) (a_reset q)"

section \<open>The abstraction\<close>

fun chain :: "(nat \<times> mem_row_t) list \<Rightarrow> nat option \<Rightarrow> row list" where
  \<comment> \<open>the rows from a pointer on; a row points at older ones\<close>
  "chain [] p = []"
| "chain ((a, r) # rows) p = (if p = Some a then row_columns r # chain rows (row_next r) else chain rows p)"

definition table_rows :: "mem_state \<Rightarrow> string \<Rightarrow> row list" where
  "table_rows s name = (case find_table name (md_tables s) of None \<Rightarrow> [] | Some t \<Rightarrow> chain (md_rows s) (mt_head t))"

definition abs_query :: "(nat \<times> mem_row_t) list \<Rightarrow> c_orm_memory_query_t \<Rightarrow> aquery" where
  "abs_query rows x = \<lparr>aq_type = mq_type x, aq_table = mq_table_name x, aq_params = mq_bound x, aq_num = mq_num_bound x,
     aq_cursor = (if mq_step_started x then Some (chain rows (mq_current_row x)) else None)\<rparr>"

definition abs_state :: "mem_state \<Rightarrow> adb" where
  "abs_state s = \<lparr>ad_tables = table_rows s, ad_queries = map (\<lambda>(q, x). (q, abs_query (md_rows s) x)) (md_queries s), ad_fresh = md_fresh s\<rparr>"

text \<open>Well-formed states: pointers lead to rows, and every row to older ones.\<close>

definition points :: "(nat \<times> mem_row_t) list \<Rightarrow> nat option \<Rightarrow> bool" where
  "points rows p \<longleftrightarrow> (case p of None \<Rightarrow> True | Some a \<Rightarrow> a \<in> fst ` set rows)"

fun rows_ok :: "(nat \<times> mem_row_t) list \<Rightarrow> nat \<Rightarrow> bool" where
  "rows_ok [] n = True"
| "rows_ok ((a, r) # rows) n = (a < n \<and> points rows (row_next r) \<and> rows_ok rows a)"

definition query_ok :: "(nat \<times> mem_row_t) list \<Rightarrow> c_orm_memory_query_t \<Rightarrow> bool" where
  "query_ok rows x \<longleftrightarrow> length (mq_bound x) = 32 \<and> mq_num_bound x \<le> 32 \<and> points rows (mq_current_row x)
     \<and> (mq_current_row x \<noteq> None \<longrightarrow> mq_step_started x)"

definition state_ok :: "mem_state \<Rightarrow> bool" where
  "state_ok s \<longleftrightarrow> rows_ok (md_rows s) (md_fresh_row s) \<and> (\<forall>t \<in> set (md_tables s). points (md_rows s) (mt_head t))
     \<and> distinct (map fst (md_queries s)) \<and> (\<forall>(q, x) \<in> set (md_queries s). q < md_fresh s \<and> query_ok (md_rows s) x)"

end
