(* ===== verification/MemoryRefine.thy ===== *)
theory MemoryRefine
  imports MemorySpec
begin

text \<open>
  The refinement: with memory for every request, a run of the driver has the outcomes of the abstract machine
  of \<open>MemorySpec\<close>, and its states are represented by the machine's.
\<close>

section \<open>Memory\<close>

definition credit :: "int \<Rightarrow> mem_state \<Rightarrow> mem_state" where
  \<comment> \<open>\<open>n\<close> more blocks are live\<close>
  "credit n s = s\<lparr>md_heap := (md_heap s)\<lparr>live := live (md_heap s) + n\<rparr>\<rparr>"

lemma credit_fields [simp]:
  "md_tables (credit n s) = md_tables s" "md_rows (credit n s) = md_rows s" "md_queries (credit n s) = md_queries s"
  "md_fresh (credit n s) = md_fresh s" "md_fresh_row (credit n s) = md_fresh_row s"
  "no_oom (md_heap (credit n s)) = no_oom (md_heap s)" "live (md_heap (credit n s)) = live (md_heap s) + n"
  "script (md_heap (credit n s)) = script (md_heap s)"
  by (simp_all add: credit_def no_oom_def)

lemma credit_update [simp]:
  "(credit n s)\<lparr>md_queries := Q\<rparr> = credit n (s\<lparr>md_queries := Q\<rparr>)"
  "(credit n s)\<lparr>md_tables := T\<rparr> = credit n (s\<lparr>md_tables := T\<rparr>)"
  "(credit n s)\<lparr>md_rows := R\<rparr> = credit n (s\<lparr>md_rows := R\<rparr>)"
  "(credit n s)\<lparr>md_fresh := k\<rparr> = credit n (s\<lparr>md_fresh := k\<rparr>)"
  "(credit n s)\<lparr>md_fresh_row := k\<rparr> = credit n (s\<lparr>md_fresh_row := k\<rparr>)"
  by (simp_all add: credit_def)

lemma credit_credit [simp]: "credit m (credit n s) = credit (m + n) s"
  by (simp add: credit_def algebra_simps)

lemma credit_0 [simp]: "credit 0 s = s"
  by (simp add: credit_def)

lemma mem_free_credit [simp]: "mem_free s = (Ret (), credit (- 1) s)"
  by (simp add: mem_free_def C_ORM_FREE_def credit_def)

lemma mem_alloc_credit [simp]: "no_oom (md_heap s) \<Longrightarrow> mem_alloc s = (Ret True, credit 1 s)"
  by (simp add: mem_alloc_def credit_def)

lemma free_mem_cell_credit [simp]: "free_mem_cell c s = (Ret (), credit (- cell_blocks c) s)"
  by (cases c) (simp_all add: free_mem_cell_def cell_blocks_def pbind_def preturn_def)

lemma free_mem_cells_credit [simp]: "free_mem_cells cs s = (Ret (), credit (- sum_of cell_blocks cs) s)"
  by (induction cs arbitrary: s) (simp_all add: preturn_def pbind_def)

section \<open>The abstraction of the updates\<close>

lemma map_update:
  "map (\<lambda>(k, v). (k, f v)) (AList.update q x al) = AList.update q (f x) (map (\<lambda>(k, v). (k, f v)) al)"
  by (induction al) auto

lemma map_delete: "map (\<lambda>(k, v). (k, f v)) (AList.delete q al) = AList.delete q (map (\<lambda>(k, v). (k, f v)) al)"
  by (induction al) (auto simp: AList.delete_eq)

lemma map_of_map_snd: "map_of (map (\<lambda>(k, v). (k, f v)) al) q = map_option f (map_of al q)"
  by (induction al) auto

lemma table_rows_cong: "md_tables s = md_tables t \<Longrightarrow> md_rows s = md_rows t \<Longrightarrow> table_rows s = table_rows t"
  by (simp add: table_rows_def fun_eq_iff cong: option.case_cong)

lemma table_rows_credit [simp]: "table_rows (credit n s) = table_rows s"
  by (rule table_rows_cong) simp_all

lemma abs_credit [simp]: "abs_state (credit n s) = abs_state s"
  by (simp add: abs_state_def table_rows_cong[of "credit n s" s])

lemma ok_credit [simp]: "state_ok (credit n s) = state_ok s"
  by (simp add: state_ok_def)

lemma abs_set_query [simp]:
  "abs_state (s\<lparr>md_queries := AList.update q x Q\<rparr>)
     = (abs_state (s\<lparr>md_queries := Q\<rparr>))\<lparr>ad_queries := AList.update q (abs_query (md_rows s) x) (ad_queries (abs_state (s\<lparr>md_queries := Q\<rparr>)))\<rparr>"
  by (simp add: abs_state_def map_update table_rows_cong[of "s\<lparr>md_queries := AList.update q x Q\<rparr>" "s\<lparr>md_queries := Q\<rparr>"])

lemma abs_delete_query [simp]:
  "abs_state (s\<lparr>md_queries := AList.delete q (md_queries s)\<rparr>) = (abs_state s)\<lparr>ad_queries := AList.delete q (ad_queries (abs_state s))\<rparr>"
  by (simp add: abs_state_def map_delete table_rows_cong[of "s\<lparr>md_queries := AList.delete q (md_queries s)\<rparr>" s])

lemma abs_fields [simp]:
  "ad_tables (abs_state s) = table_rows s" "ad_fresh (abs_state s) = md_fresh s"
  "map_of (ad_queries (abs_state s)) q = map_option (abs_query (md_rows s)) (map_of (md_queries s) q)"
  by (simp_all add: abs_state_def map_of_map_snd)

lemma a_query_abs: "a_query q (abs_state s) =
   (case map_of (md_queries s) q of None \<Rightarrow> (Stuck, abs_state s) | Some x \<Rightarrow> (Ret (abs_query (md_rows s) x), abs_state s))"
  by (simp add: a_query_def split: option.splits)

lemma abs_query_fields [simp]:
  "aq_type (abs_query R x) = mq_type x" "aq_table (abs_query R x) = mq_table_name x"
  "aq_params (abs_query R x) = mq_bound x" "aq_num (abs_query R x) = mq_num_bound x"
  "aq_cursor (abs_query R x) = (if mq_step_started x then Some (chain R (mq_current_row x)) else None)"
  by (simp_all add: abs_query_def)

section \<open>The invariant\<close>

lemma ok_query: "state_ok s \<Longrightarrow> map_of (md_queries s) q = Some x \<Longrightarrow> query_ok (md_rows s) x"
  by (auto simp: state_ok_def dest!: map_of_SomeD)

lemma set_update: "(k, v) \<in> set (AList.update q x al) \<Longrightarrow> (k, v) = (q, x) \<or> (k, v) \<in> set al"
  by (induction al) (auto split: if_splits)

lemma ok_set_query:
  assumes "state_ok s" and "map_of (md_queries s) q = Some x" and "query_ok (md_rows s) y"
  shows "state_ok (s\<lparr>md_queries := AList.update q y (md_queries s)\<rparr>)"
  using assms unfolding state_ok_def
  by (auto simp: distinct_update dest!: set_update map_of_SomeD)

lemma ok_delete_query: "state_ok s \<Longrightarrow> state_ok (s\<lparr>md_queries := AList.delete q (md_queries s)\<rparr>)"
proof -
  assume s: "state_ok s"
  have "set (AList.delete q (md_queries s)) \<subseteq> set (md_queries s)" by (auto simp: AList.delete_eq)
  with s show ?thesis unfolding state_ok_def by (auto simp: distinct_delete dest: subsetD)
qed

section \<open>Simulation\<close>

definition sim :: "'a mem \<Rightarrow> (adb, 'a) act \<Rightarrow> bool" where
  "sim m a \<longleftrightarrow> (\<forall>s. state_ok s \<longrightarrow> no_oom (md_heap s) \<longrightarrow>
     (case m s of (r, t) \<Rightarrow> a (abs_state s) = (r, abs_state t) \<and> state_ok t \<and> no_oom (md_heap t)))"

lemma simI:
  "(\<And>s. state_ok s \<Longrightarrow> no_oom (md_heap s) \<Longrightarrow>
     (case m s of (r, t) \<Rightarrow> a (abs_state s) = (r, abs_state t) \<and> state_ok t \<and> no_oom (md_heap t))) \<Longrightarrow> sim m a"
  by (simp add: sim_def)

lemma simD:
  assumes "sim m a" and "state_ok s" and "no_oom (md_heap s)" and "m s = (r, t)"
  shows "a (abs_state s) = (r, abs_state t)" and "state_ok t" and "no_oom (md_heap t)"
  using assms unfolding sim_def by (auto dest: spec[of _ s])

lemma sim_bind:
  assumes m: "sim m a" and k: "\<And>x. sim (k x) (b x)"
  shows "sim (pbind m k) (pbind a b)"
proof (rule simI)
  fix s assume s: "state_ok s" "no_oom (md_heap s)"
  obtain r t where r: "m s = (r, t)" by (cases "m s")
  note t = simD[OF m s r]
  show "case pbind m k s of (r, t) \<Rightarrow> pbind a b (abs_state s) = (r, abs_state t) \<and> state_ok t \<and> no_oom (md_heap t)"
    using r t simD[OF k t(2,3)] by (cases r) (auto simp: pbind_def split: prod.splits)
qed

lemma sim_return: "sim (preturn x) (preturn x)"
  by (rule simI) (simp add: preturn_def)

lemma sim_perr: "sim (perr e) (perr e)"
  by (rule simI) (simp add: perr_def)

lemma sim_returning: "sim m a \<Longrightarrow> sim (returning f m) (returning f a)"
  unfolding returning_def by (intro sim_bind sim_return)

lemma sim_query:
  \<comment> \<open>what follows the dereferencing of a query\<close>
  assumes "\<And>s x. state_ok s \<Longrightarrow> no_oom (md_heap s) \<Longrightarrow> map_of (md_queries s) q = Some x \<Longrightarrow> query_ok (md_rows s) x \<Longrightarrow>
     (case f x s of (r, t) \<Rightarrow> g (abs_query (md_rows s) x) (abs_state s) = (r, abs_state t) \<and> state_ok t \<and> no_oom (md_heap t))"
  shows "sim (pbind (the_query q) f) (pbind (a_query q) g)"
proof (rule simI)
  fix s assume s: "state_ok s" "no_oom (md_heap s)"
  show "case pbind (the_query q) f s of (r, t) \<Rightarrow> pbind (a_query q) g (abs_state s) = (r, abs_state t) \<and> state_ok t \<and> no_oom (md_heap t)"
  proof (cases "map_of (md_queries s) q")
    case None
    with s show ?thesis by (simp add: pbind_def the_query_def a_query_abs)
  next
    case (Some x)
    with assms[OF s Some ok_query[OF s(1) Some]] show ?thesis by (simp add: pbind_def the_query_def a_query_abs)
  qed
qed

section \<open>The operations\<close>

lemma the_query_Some: "map_of (md_queries s) q = Some x \<Longrightarrow> the_query q s = (Ret x, s)"
  by (simp add: the_query_def)

lemma sim_prepare: "sim (mem_prepare sql) (a_prepare sql)"
proof (rule simI)
  fix s assume s: "state_ok s" "no_oom (md_heap s)"
  have new: "case new_query ty name (credit 2 s) of (r, t) \<Rightarrow>
      (Ret (md_fresh s), (abs_state s)\<lparr>ad_fresh := Suc (md_fresh s), ad_queries := (md_fresh s,
        \<lparr>aq_type = ty, aq_table = name, aq_params = replicate 32 None, aq_num = 0, aq_cursor = None\<rparr>) # ad_queries (abs_state s)\<rparr>)
       = (r, abs_state t) \<and> state_ok t \<and> no_oom (md_heap t)" for ty name
  proof -
    define x where "x = \<lparr>mq_type = ty, mq_table_name = name, mq_bound = replicate 32 None, mq_num_bound = 0,
       mq_current_row = None, mq_step_started = False\<rparr>"
    define t where "t = s\<lparr>md_fresh := Suc (md_fresh s), md_queries := (md_fresh s, x) # md_queries s\<rparr>"
    have run: "new_query ty name (credit 2 s) = (Ret (md_fresh s), credit 2 t)"
      by (simp add: new_query_def pbind_def fresh_address_def x_def t_def)
    have ok: "state_ok t"
      using s(1) by (fastforce simp: state_ok_def t_def query_ok_def points_def x_def)
    have abs: "abs_state t = (abs_state s)\<lparr>ad_fresh := Suc (md_fresh s), ad_queries := (md_fresh s,
        \<lparr>aq_type = ty, aq_table = name, aq_params = replicate 32 None, aq_num = 0, aq_cursor = None\<rparr>) # ad_queries (abs_state s)\<rparr>"
      by (simp add: abs_state_def t_def table_rows_cong[of "s\<lparr>md_fresh := _, md_queries := _\<rparr>" s] abs_query_def x_def)
    show ?thesis using s(2) ok by (simp add: run abs) (simp add: t_def)
  qed
  obtain ty prefix where c: "classify sql = (ty, prefix)" by (cases "classify sql")
  show "case mem_prepare sql s of (r, t) \<Rightarrow> a_prepare sql (abs_state s) = (r, abs_state t) \<and> state_ok t \<and> no_oom (md_heap t)"
  proof (cases prefix)
    case None
    with new s c show ?thesis by (simp add: mem_prepare_def a_prepare_def pbind_def)
  next
    case (Some p)
    with new s c show ?thesis
      by (cases "parse_table_name sql p") (simp_all add: mem_prepare_def a_prepare_def pbind_def lift_outcome_def)
  qed
qed

lemma set_bound_at:
  assumes "map_of (md_queries s) q = Some x"
  shows "set_bound q i c s = (Ret (), s\<lparr>md_queries := AList.update q (x\<lparr>mq_bound := (mq_bound x)[i := c]\<rparr>) (md_queries s)\<rparr>)"
  using assms by (simp add: set_bound_def pbind_def the_query_def set_query_def)

lemma bound_cell:
  assumes s: "no_oom (md_heap s)" and x: "map_of (md_queries s) q = Some x" and index: "1 \<le> index" "index \<le> 32" and i: "i = nat index - 1"
  shows "get_or_alloc_bound_cell (Some q) index s = (Ret (q, i),
     credit (1 - cell_blocks (mq_bound x ! i)) (s\<lparr>md_queries := AList.update q (x\<lparr>mq_bound := (mq_bound x)[i := Some empty_cell],
        mq_num_bound := max (mq_num_bound x) (nat index)\<rparr>) (md_queries s)\<rparr>))"
proof -
  have ok: "(index < 1 \<or> 32 < index) = False" using index by simp
  show ?thesis
    unfolding get_or_alloc_bound_cell_def Let_def option.case ok if_False i[symmetric]
    using s x
    by (simp add: pbind_Ret the_query_Some set_bound_at AList.update_conv' set_query_def preturn_def)
qed

lemma update_bound_cell:
  assumes x: "map_of (md_queries s) q = Some x"
  shows "set_bound q i c (credit n (s\<lparr>md_queries := AList.update q (x\<lparr>mq_bound := (mq_bound x)[i := d], mq_num_bound := k\<rparr>) (md_queries s)\<rparr>))
    = (Ret (), credit n (s\<lparr>md_queries := AList.update q (x\<lparr>mq_bound := (mq_bound x)[i := c], mq_num_bound := k\<rparr>) (md_queries s)\<rparr>))"
proof -
  have h: "x\<lparr>mq_num_bound := k, mq_bound := (mq_bound x)[i := c]\<rparr> = x\<lparr>mq_bound := (mq_bound x)[i := c], mq_num_bound := k\<rparr>"
    by (cases x) simp
  show ?thesis
    by (simp add: set_bound_at[of _ _ "x\<lparr>mq_bound := (mq_bound x)[i := d], mq_num_bound := k\<rparr>"] AList.update_conv') (simp only: h)
qed

lemma sim_bound:
  \<comment> \<open>binding: what is to be shown after the place of the cell has been found\<close>
  assumes "\<And>s q i x n k. no_oom (md_heap s) \<Longrightarrow> map_of (md_queries s) q = Some x \<Longrightarrow>
     \<exists>m. f (q, i) (credit n (s\<lparr>md_queries := AList.update q (x\<lparr>mq_bound := (mq_bound x)[i := Some empty_cell], mq_num_bound := k\<rparr>) (md_queries s)\<rparr>))
       = (Ret (), credit m (s\<lparr>md_queries := AList.update q (x\<lparr>mq_bound := (mq_bound x)[i := Some cell], mq_num_bound := k\<rparr>) (md_queries s)\<rparr>))"
  shows "sim (pbind (get_or_alloc_bound_cell query index) f) (a_bind query index cell)"
proof (cases query)
  case None
  then show ?thesis
    by (intro simI) (simp add: get_or_alloc_bound_cell_def a_bind_def a_handle_def pbind_def perr_def)
next
  case (Some q)
  show ?thesis
  proof (cases "index < 1 \<or> 32 < index")
    case True
    with Some show ?thesis
      by (intro simI) (simp add: get_or_alloc_bound_cell_def a_bind_def pbind_def perr_def)
  next
    case False
    define i where "i = nat index - 1"
    have i: "1 \<le> index" "index \<le> 32" "i = nat index - 1" using False by (auto simp: i_def)
    show ?thesis
    proof (rule simI)
      fix s assume s: "state_ok s" "no_oom (md_heap s)"
      show "case pbind (get_or_alloc_bound_cell query index) f s of (r, t) \<Rightarrow>
        a_bind query index cell (abs_state s) = (r, abs_state t) \<and> state_ok t \<and> no_oom (md_heap t)"
      proof (cases "map_of (md_queries s) q")
        case None
        with Some i show ?thesis
          using s by (simp add: get_or_alloc_bound_cell_def a_bind_def a_handle_def pbind_def the_query_def a_query_abs Let_def)
      next
        case q: (Some x)
        obtain m where m: "pbind (get_or_alloc_bound_cell query index) f s = (Ret (), credit m (s\<lparr>md_queries := AList.update q
            (x\<lparr>mq_bound := (mq_bound x)[i := Some cell], mq_num_bound := max (mq_num_bound x) (nat index)\<rparr>) (md_queries s)\<rparr>))"
          using assms[OF s(2) q] unfolding Some pbind_Ret[where m = "get_or_alloc_bound_cell (Some q) index" and s = s, OF bound_cell[OF s(2) q i]]
          by blast
        have y: "query_ok (md_rows s) (x\<lparr>mq_bound := (mq_bound x)[i := Some cell], mq_num_bound := max (mq_num_bound x) (nat index)\<rparr>)"
          using ok_query[OF s(1) q] i by (auto simp: query_ok_def)
        have "a_bind query index cell (abs_state s) = (Ret (), abs_state (s\<lparr>md_queries := AList.update q
            (x\<lparr>mq_bound := (mq_bound x)[i := Some cell], mq_num_bound := max (mq_num_bound x) (nat index)\<rparr>) (md_queries s)\<rparr>))"
          using False by (simp add: Some a_bind_def a_handle_def pbind_def a_query_abs q a_set_def abs_query_def i_def)
        with m ok_set_query[OF s(1) q y] s(2) show ?thesis by simp
      qed
    qed
  qed
qed

lemma sim_bind_cell: "sim (bind_cell query index cell) (a_bind query index cell)"
  unfolding bind_cell_def by (rule sim_bound) (simp only: fst_conv snd_conv update_bound_cell, blast)

lemma sim_bind_copied:
  \<comment> \<open>a value that is copied\<close>
  assumes "v = None \<Longrightarrow> c1 = c2"
  shows "sim (pbind (get_or_alloc_bound_cell query index) (\<lambda>p.
     pbind (set_bound (fst p) (snd p) (Some c1)) (\<lambda>_.
     if v = None then preturn ()
     else pbind mem_alloc (\<lambda>ok. if \<not> ok then perr C_ORM_ERROR_MEMORY
       else set_bound (fst p) (snd p) (Some c2))))) (a_bind query index c2)"
proof (rule sim_bound, goal_cases)
  case (1 s q i x n k)
  show ?case
  proof (cases "v = None")
    case True
    then show ?thesis
      unfolding fst_conv snd_conv pbind_Ret[where m = "set_bound q i (Some c1)", OF update_bound_cell[OF 1(2)]]
      by (auto simp: assms preturn_def)
  next
    case False
    have "mem_alloc (credit n (s\<lparr>md_queries := Q\<rparr>)) = (Ret True, credit (1 + n) (s\<lparr>md_queries := Q\<rparr>))" for Q
      using 1(1) by simp
    then show ?thesis
      unfolding fst_conv snd_conv pbind_Ret[where m = "set_bound q i (Some c1)", OF update_bound_cell[OF 1(2)]]
      using False by (simp add: pbind_Ret) (simp only: update_bound_cell[OF 1(2)], blast)
  qed
qed

lemma sim_finalize: "sim (mem_finalize query) (a_finalize query)"
proof (cases query)
  case None
  then show ?thesis by (intro simI) (simp add: mem_finalize_def a_finalize_def stuck_def)
next
  case (Some q)
  then show ?thesis
    unfolding mem_finalize_def a_finalize_def by (auto intro!: sim_query simp: pbind_Ret ok_delete_query)
qed

lemma sim_reset: "sim (mem_reset query) (a_reset query)"
proof (cases query)
  case None
  then show ?thesis by (simp add: mem_reset_def a_reset_def sim_return)
next
  case (Some q)
  then show ?thesis
    unfolding mem_reset_def a_reset_def
    by (auto intro!: sim_query ok_set_query simp: set_query_def a_set_def abs_query_def query_ok_def points_def)
qed

section \<open>Rows\<close>

lemma chain_None [simp]: "chain rows None = []"
  by (induction rows "None :: nat option" rule: chain.induct) auto

lemma points_None [simp]: "points rows None"
  by (simp add: points_def)

lemma points_Cons: "points rows p \<Longrightarrow> points (x # rows) p"
  by (auto simp: points_def split: option.splits)

lemma rows_bound: "rows_ok rows n \<Longrightarrow> points rows (Some a) \<Longrightarrow> a < n"
  by (induction rows n rule: rows_ok.induct) (force simp: points_def)+

lemma chain_older: "rows_ok rows n \<Longrightarrow> points rows p \<Longrightarrow> chain ((n, r) # rows) p = chain rows p"
  using rows_bound by (cases p) fastforce+

lemma chain_points:
  "rows_ok rows n \<Longrightarrow> points rows (Some p) \<Longrightarrow>
     \<exists>r. map_of rows p = Some r \<and> chain rows (Some p) = row_columns r # chain rows (row_next r) \<and> points rows (row_next r)"
proof (induction rows n rule: rows_ok.induct)
  case (1 n)
  then show ?case by (simp add: points_def)
next
  case (2 a r rows n)
  have older: "chain ((a, r) # rows) q = chain rows q" if "points rows q" for q
    using 2 that by (intro chain_older) auto
  show ?case
  proof (cases "p = a")
    case True
    with 2 older[of "row_next r"] show ?thesis by (auto simp: points_Cons)
  next
    case False
    then have p: "points rows (Some p)" using 2 by (auto simp: points_def)
    with 2 obtain r' where r': "map_of rows p = Some r'" "chain rows (Some p) = row_columns r' # chain rows (row_next r')"
      "points rows (row_next r')" by auto
    with False older[OF r'(3)] show ?thesis by (auto simp: points_Cons)
  qed
qed

lemma find_set_head:
  "find_table n (set_head name p ts) = (if n = name then map_option (mt_head_update (\<lambda>_. Some p)) (find_table n ts) else find_table n ts)"
  by (induction ts) (auto simp: find_table_def)

lemma set_head_points:
  "t \<in> set (set_head name p ts) \<Longrightarrow> mt_head t = Some p \<or> t \<in> set ts"
  by (induction ts) (auto split: if_splits)

lemma find_table_in: "find_table n ts = Some t \<Longrightarrow> t \<in> set ts"
  by (auto simp: find_table_def find_Some_iff)

lemma add_row_abs:
  assumes s: "state_ok s" and t: "find_table name (md_tables s) \<noteq> None" and r: "add_row name cells s = (r, u)"
  shows "r = Ret ()" and "state_ok u" and "md_heap u = md_heap s"
    and "abs_state u = (abs_state s)\<lparr>ad_tables := (table_rows s)(name := cells # table_rows s name)\<rparr>"
proof -
  obtain t where t: "find_table name (md_tables s) = Some t" using t by auto
  define row where "row = \<lparr>row_columns = cells, row_next = mt_head t\<rparr>"
  define k where "k = md_fresh_row s"
  have u: "r = Ret ()" "u = s\<lparr>md_fresh_row := Suc k, md_rows := (k, row) # md_rows s, md_tables := set_head name k (md_tables s)\<rparr>"
    using r t by (auto simp: add_row_def pbind_def fresh_row_def row_def k_def)
  have ok: "rows_ok (md_rows s) k" and tp: "\<And>t. t \<in> set (md_tables s) \<Longrightarrow> points (md_rows s) (mt_head t)"
    and qp: "\<And>q x. (q, x) \<in> set (md_queries s) \<Longrightarrow> query_ok (md_rows s) x"
    using s by (auto simp: state_ok_def k_def)
  show "r = Ret ()" and "md_heap u = md_heap s" by (simp_all add: u)
  have new: "points ((k, row) # md_rows s) (Some k)" by (simp add: points_def)
  show "state_ok u"
    using s tp[OF find_table_in[OF t]] ok new
    by (auto simp: state_ok_def u row_def query_ok_def dest!: set_head_points intro: points_Cons)
  have "table_rows u n = ((table_rows s)(name := cells # table_rows s name)) n" for n
  proof (cases "n = name")
    case True
    then show ?thesis
      using chain_older[OF ok tp[OF find_table_in[OF t]]] by (simp add: table_rows_def u find_set_head t row_def)
  next
    case False
    then show ?thesis
      by (auto simp: table_rows_def u find_set_head simp del: chain.simps split: option.splits dest!: find_table_in tp chain_older[OF ok])
  qed
  moreover have "abs_query (md_rows u) x = abs_query (md_rows s) x" if "(q, x) \<in> set (md_queries s)" for q x
    using chain_older[OF ok, of "mq_current_row x" row] qp[OF that] by (simp add: abs_query_def u query_ok_def)
  then have "ad_queries (abs_state u) = ad_queries (abs_state s)"
    unfolding abs_state_def by (auto simp: u)
  ultimately show "abs_state u = (abs_state s)\<lparr>ad_tables := (table_rows s)(name := cells # table_rows s name)\<rparr>"
    by (simp add: abs_state_def u fun_eq_iff)
qed

lemma create_table_abs:
  assumes "state_ok s" and "no_oom (md_heap s)" and new: "find_table name (md_tables s) = None" and r: "create_table name s = (r, u)"
  shows "r = Ret ()" and "state_ok u" and "no_oom (md_heap u)" and "abs_state u = abs_state s" and "md_queries u = md_queries s"
    and "find_table name (md_tables u) \<noteq> None"
proof -
  have u: "r = Ret ()" "u = credit 2 (s\<lparr>md_tables := \<lparr>mt_name = name, mt_head = None\<rparr> # md_tables s\<rparr>)"
    using assms(2) r by (auto simp: create_table_def pbind_Ret)
  show "r = Ret ()" and "no_oom (md_heap u)" and "md_queries u = md_queries s" using assms(2) by (simp_all add: u)
  show "state_ok u" using assms(1) by (auto simp: u state_ok_def)
  have "table_rows (s\<lparr>md_tables := \<lparr>mt_name = name, mt_head = None\<rparr> # md_tables s\<rparr>) n = table_rows s n" for n
    using new by (auto simp: table_rows_def find_table_def split: option.splits)
  then show "abs_state u = abs_state s" by (simp add: u abs_state_def fun_eq_iff)
  show "find_table name (md_tables u) \<noteq> None" by (simp add: u find_table_def)
qed

lemma insert_row_abs:
  assumes s: "state_ok s" "no_oom (md_heap s)" and x: "map_of (md_queries s) q = Some x" and r: "insert_row q s = (r, u)"
  shows "r = Ret () \<and> state_ok u \<and> no_oom (md_heap u) \<and> abs_state u = (abs_state s)\<lparr>
     ad_tables := (table_rows s)(mq_table_name x := take (mq_num_bound x) (mq_bound x) # table_rows s (mq_table_name x)),
     ad_queries := AList.update q (abs_query (md_rows s) x\<lparr>aq_params := replicate (mq_num_bound x) None @ drop (mq_num_bound x) (mq_bound x),
        aq_num := 0\<rparr>) (ad_queries (abs_state s))\<rparr>"
proof -
  define name where "name = mq_table_name x"
  define cells where "cells = take (mq_num_bound x) (mq_bound x)"
  define y where "y = x\<lparr>mq_bound := replicate (mq_num_bound x) None @ drop (mq_num_bound x) (mq_bound x), mq_num_bound := 0\<rparr>"
  obtain s1 where s1: "ensure_table name s = (Ret (), s1)"
    "state_ok s1" "no_oom (md_heap s1)" "abs_state s1 = abs_state s" "md_queries s1 = md_queries s" "find_table name (md_tables s1) \<noteq> None"
  proof (cases "find_table name (md_tables s) = None")
    case True
    obtain r1 u1 where c: "create_table name s = (r1, u1)" by (cases "create_table name s")
    with create_table_abs[OF s True c] True that show ?thesis by (simp add: ensure_table_def)
  next
    case False
    with s show ?thesis by (intro that[of s]) (auto simp: ensure_table_def)
  qed
  define n :: int where "n = (if mq_num_bound x > 0 then 2 else 1)"
  define s2 where "s2 = s1\<lparr>md_queries := AList.update q y (md_queries s1)\<rparr>"
  have y: "query_ok (md_rows s1) y"
    using ok_query[OF s1(2), of q x] x s1(5) by (auto simp: query_ok_def y_def)
  have s2: "state_ok s2" unfolding s2_def by (rule ok_set_query[OF s1(2) _ y, of q x]) (simp add: s1(5) x)
  have run: "insert_row q s = add_row name cells (credit n s2)"
    unfolding insert_row_def pbind_Ret[where m = "the_query q", OF the_query_Some, OF x] name_def[symmetric]
      pbind_Ret[where m = "ensure_table name", OF s1(1)]
    using s1(3) by (simp add: pbind_Ret preturn_def set_query_def s2_def y_def cells_def n_def)
  have ok: "state_ok (credit n s2)" "find_table name (md_tables (credit n s2)) \<noteq> None"
    using s2 s1(6) by (simp_all add: s2_def)
  note add = add_row_abs[OF ok r[unfolded run]]
  have "abs_query (md_rows s1) x = abs_query (md_rows s) x" (is "?a = ?b")
    using arg_cong[OF s1(4), of "\<lambda>a. map_of (ad_queries a) q"] x s1(5) by simp
  then have "abs_query (md_rows s1) y = (abs_query (md_rows s) x)\<lparr>aq_params := replicate (mq_num_bound x) None @ drop (mq_num_bound x) (mq_bound x), aq_num := 0\<rparr>"
    by (cases "mq_step_started x") (simp_all add: abs_query_def y_def)
  then have s2_abs: "abs_state s2 = (abs_state s)\<lparr>ad_queries := AList.update q
      (abs_query (md_rows s) x\<lparr>aq_params := replicate (mq_num_bound x) None @ drop (mq_num_bound x) (mq_bound x), aq_num := 0\<rparr>) (ad_queries (abs_state s))\<rparr>"
    by (simp add: s2_def s1(4))
  have "table_rows (credit n s2) = table_rows s"
    using arg_cong[OF s2_abs, of ad_tables] by (simp add: table_rows_cong[of "credit n s2" s2])
  with add s2_abs show ?thesis using s1(3) by (simp add: name_def cells_def s2_def)
qed

lemma next_row_abs:
  assumes s: "state_ok s" and x: "map_of (md_queries s) q = Some x"
  shows "\<exists>p. next_row x s = (Ret p, s) \<and> points (md_rows s) p \<and>
     chain (md_rows s) p = (if mq_step_started x then tl (chain (md_rows s) (mq_current_row x)) else table_rows s (mq_table_name x))"
proof (cases "mq_step_started x")
  case False
  have "points (md_rows s) (mt_head t)" if "find_table (mq_table_name x) (md_tables s) = Some t" for t
    using s find_table_in[OF that] by (auto simp: state_ok_def)
  with False show ?thesis by (auto simp: next_row_def table_rows_def split: option.splits)
next
  case True
  have "points (md_rows s) (mq_current_row x)" using ok_query[OF s x] by (simp add: query_ok_def)
  with True s chain_points show ?thesis
    by (cases "mq_current_row x") (fastforce simp: next_row_def state_ok_def)+
qed

lemma chain_empty: "rows_ok rows n \<Longrightarrow> points rows p \<Longrightarrow> chain rows p = [] \<longleftrightarrow> p = None"
  using chain_points by (cases p) fastforce+

lemma sim_step: "sim (mem_step query) (a_step query)"
proof (cases query)
  case None
  then show ?thesis by (simp add: mem_step_def a_step_def sim_return)
next
  case (Some q)
  show ?thesis
    unfolding Some mem_step_def a_step_def option.case
  proof (rule sim_query, goal_cases)
    case (1 s x)
    show ?case
    proof (cases "mq_type x = MEM_QUERY_INSERT")
      case True
      obtain r u where r: "insert_row q s = (r, u)" by (cases "insert_row q s")
      from insert_row_abs[OF 1(1-3) r] r True show ?thesis by (simp add: pbind_Ret preturn_def)
    next
      case F: False
      show ?thesis
      proof (cases "mq_type x = MEM_QUERY_SELECT_ALL \<or> mq_type x = MEM_QUERY_SELECT_PK")
        case True
        obtain p where p: "next_row x s = (Ret p, s)" "points (md_rows s) p"
          "chain (md_rows s) p = (if mq_step_started x then tl (chain (md_rows s) (mq_current_row x)) else table_rows s (mq_table_name x))"
          using next_row_abs[OF 1(1) 1(3)] by blast
        have e: "chain (md_rows s) p = [] \<longleftrightarrow> p = None" using 1(1) p(2) by (auto simp: state_ok_def intro!: chain_empty)
        have y: "query_ok (md_rows s) (x\<lparr>mq_step_started := True, mq_current_row := p\<rparr>)" using 1(4) p(2) by (simp add: query_ok_def)
        have a: "abs_query (md_rows s) (x\<lparr>mq_step_started := True, mq_current_row := p\<rparr>)
            = abs_query (md_rows s) x\<lparr>aq_cursor := Some (chain (md_rows s) p)\<rparr>"
          by (simp add: abs_query_def)
        from F True e p(3) ok_set_query[OF 1(1) 1(3) y] 1(2) show ?thesis
          by (cases "mq_step_started x") (simp_all add: pbind_Ret p(1) set_query_def preturn_def Let_def a)
      next
        case False
        with F 1 show ?thesis by (simp add: preturn_def)
      qed
    qed
  qed
qed

lemma cell_abs:
  assumes s: "state_ok s" and x: "map_of (md_queries s) q = Some x"
  shows "get_current_cell (Some q) index s =
      (case a_cell (abs_query (md_rows s) x) index of None \<Rightarrow> (Err C_ORM_ERROR_NOT_FOUND, s) | Some c \<Rightarrow> (Ret c, s))"
proof (cases "mq_current_row x")
  case None
  then show ?thesis using x by (simp add: get_current_cell_def pbind_Ret the_query_Some perr_def a_cell_def)
next
  case (Some p)
  have ok: "points (md_rows s) (Some p)" "mq_step_started x" using ok_query[OF s x] Some by (simp_all add: query_ok_def)
  then obtain r where r: "map_of (md_rows s) p = Some r" "chain (md_rows s) (Some p) = row_columns r # chain (md_rows s) (row_next r)"
    using chain_points[of "md_rows s" "md_fresh_row s" p] s ok(1) by (auto simp: state_ok_def)
  show ?thesis
  proof (cases "0 \<le> index \<and> index < int (length (row_columns r))")
    case True
    then have i: "(index < 0 \<or> int (length (row_columns r)) \<le> index) = False" by auto
    show ?thesis
      using True by (simp add: get_current_cell_def pbind_Ret the_query_Some[OF x] Some r i a_cell_def ok(2))
  next
    case False
    then have i: "(index < 0 \<or> int (length (row_columns r)) \<le> index) = True" by auto
    show ?thesis
      using False by (auto simp: get_current_cell_def pbind_Ret the_query_Some[OF x] Some r i a_cell_def ok(2))
  qed
qed

lemma sim_get: "sim (read_cell f query index True) (a_get f query index)"
proof (cases query)
  case None
  then show ?thesis
    by (intro simI) (simp add: read_cell_def a_get_def a_handle_def get_current_cell_def pbind_def perr_def)
next
  case (Some q)
  show ?thesis
  proof (rule simI)
    fix s assume s: "state_ok s" "no_oom (md_heap s)"
    show "case read_cell f query index True s of (r, t) \<Rightarrow> a_get f query index (abs_state s) = (r, abs_state t) \<and> state_ok t \<and> no_oom (md_heap t)"
    proof (cases "map_of (md_queries s) q")
      case None
      with s show ?thesis
        by (simp add: Some read_cell_def a_get_def a_handle_def get_current_cell_def pbind_def the_query_def a_query_abs)
    next
      case q: (Some x)
      with s show ?thesis
        by (cases "a_cell (abs_query (md_rows s) x) index")
          (simp_all add: Some read_cell_def a_get_def a_handle_def pbind_def cell_abs a_query_abs preturn_def perr_def)
    qed
  qed
qed

lemma sim_is_null: "sim (mem_is_null query index) (a_is_null query index)"
proof (cases query)
  case None
  then show ?thesis
    by (intro simI) (simp add: mem_is_null_def a_is_null_def get_current_cell_def perr_def preturn_def)
next
  case (Some q)
  show ?thesis
  proof (rule simI)
    fix s assume s: "state_ok s" "no_oom (md_heap s)"
    show "case mem_is_null query index s of (r, t) \<Rightarrow> a_is_null query index (abs_state s) = (r, abs_state t) \<and> state_ok t \<and> no_oom (md_heap t)"
    proof (cases "map_of (md_queries s) q")
      case None
      with s show ?thesis
        by (simp add: Some mem_is_null_def a_is_null_def get_current_cell_def pbind_def the_query_def a_query_abs)
    next
      case q: (Some x)
      with s show ?thesis
        by (cases "a_cell (abs_query (md_rows s) x) index")
          (simp_all add: Some mem_is_null_def a_is_null_def pbind_def cell_abs a_query_abs preturn_def)
    qed
  qed
qed

lemma sim_binds:
  "sim (mem_bind_int32 query index v32) (a_bind query index (empty_cell\<lparr>mc_type := MEM_VAL_INT32, mc_i32 := v32, mc_i64 := scast v32\<rparr>))"
  "sim (mem_bind_int64 query index v64) (a_bind query index (empty_cell\<lparr>mc_type := MEM_VAL_INT64, mc_i64 := v64, mc_i32 := ucast v64\<rparr>))"
  "sim (mem_bind_double query index d) (a_bind query index (empty_cell\<lparr>mc_type := MEM_VAL_DOUBLE, mc_d := d\<rparr>))"
  "sim (mem_bind_null query index) (a_bind query index (empty_cell\<lparr>mc_type := MEM_VAL_NULL\<rparr>))"
  unfolding mem_bind_int32_def mem_bind_int64_def mem_bind_double_def mem_bind_null_def by (rule sim_bind_cell)+

lemma sim_binds_copied:
  "sim (mem_bind_string query index v) (a_bind query index (empty_cell\<lparr>mc_type := MEM_VAL_STRING, mc_s := v\<rparr>))"
  "sim (mem_bind_blob query index b) (a_bind query index (empty_cell\<lparr>mc_type := MEM_VAL_BLOB, mc_blob := b\<rparr>))"
  unfolding mem_bind_string_def mem_bind_blob_def by (rule sim_bind_copied, simp add: empty_cell_def)+

lemma null_cell: "empty_cell\<lparr>mc_type := MEM_VAL_NULL\<rparr> = empty_cell"
  by (simp add: empty_cell_def)

lemma sim_gets:
  "sim (mem_get_int32 query index True) (a_get mc_i32 query index)" "sim (mem_get_int64 query index True) (a_get mc_i64 query index)"
  "sim (mem_get_double query index True) (a_get mc_d query index)" "sim (mem_get_string query index True) (a_get mc_s query index)"
  "sim (mem_get_blob query index True) (a_get mc_blob query index)"
  unfolding mem_get_int32_def mem_get_int64_def mem_get_double_def mem_get_string_def mem_get_blob_def by (rule sim_get)+

lemma sim_exec: "sim (mem_exec c) (spec_exec c)"
  by (cases c) (simp_all only: mem_exec.simps spec_exec.simps sim_returning sim_prepare sim_binds sim_binds(4)[unfolded null_cell]
      sim_binds_copied sim_step sim_gets sim_is_null sim_finalize sim_reset)

lemma sim_run:
  "state_ok s \<Longrightarrow> no_oom (md_heap s) \<Longrightarrow> run_ops mem_exec ops s = (rs, t) \<Longrightarrow>
     run_ops spec_exec ops (abs_state s) = (rs, abs_state t) \<and> state_ok t \<and> no_oom (md_heap t)"
proof (induction ops arbitrary: s rs t)
  case (Cons c ops)
  obtain r u where r: "mem_exec c s = (r, u)" by (cases "mem_exec c s")
  note u = simD[OF sim_exec Cons.prems(1,2) r]
  obtain rs' t' where rest: "run_ops mem_exec ops u = (rs', t')" by (cases "run_ops mem_exec ops u")
  show ?case using Cons.prems(3) Cons.IH[OF u(2,3) rest] u r rest by (cases r) auto
qed simp

end
