(* ===== verification/MemoryLeak.thy ===== *)
theory MemoryLeak
  imports MemoryRefine
begin

text \<open>
  The memory driver's ownership: for any behaviour of the allocator, every live block belongs to a query, a row
  or a table, and each row to the chain of one table, so that disconnecting gives everything back.
\<close>

section \<open>What the driver owns\<close>

definition row_blocks :: "mem_row_t \<Rightarrow> int" where
  "row_blocks r = 1 + of_bool (row_columns r \<noteq> []) + sum_of cell_blocks (row_columns r)"

definition query_blocks :: "c_orm_memory_query_t \<Rightarrow> int" where
  "query_blocks x = 2 + sum_of cell_blocks (mq_bound x)"

definition owned :: "mem_state \<Rightarrow> int" where
  "owned s = 2 * int (length (md_tables s)) + sum_of row_blocks (map snd (md_rows s)) + sum_of query_blocks (map snd (md_queries s))"

fun leads :: "(nat \<Rightarrow> mem_row_t option) \<Rightarrow> nat option \<Rightarrow> nat list \<Rightarrow> bool" where
  \<comment> \<open>the addresses along the links, up to NULL\<close>
  "leads M p [] \<longleftrightarrow> p = None"
| "leads M p (a # as) \<longleftrightarrow> p = Some a \<and> (\<exists>r. M a = Some r \<and> leads M (row_next r) as)"

definition parted :: "mem_table_t list \<Rightarrow> (nat \<times> mem_row_t) list \<Rightarrow> nat list list \<Rightarrow> bool" where
  "parted ts rows ass \<longleftrightarrow> list_all2 (\<lambda>t as. leads (map_of rows) (mt_head t) as) ts ass \<and> distinct (concat ass)
     \<and> set (concat ass) = fst ` set rows \<and> distinct (map fst rows)"

definition bounded :: "c_orm_memory_query_t \<Rightarrow> bool" where
  "bounded x \<longleftrightarrow> length (mq_bound x) = 32 \<and> mq_num_bound x \<le> 32"

definition wf :: "mem_state \<Rightarrow> bool" where
  "wf s \<longleftrightarrow> (\<exists>ass. parted (md_tables s) (md_rows s) ass) \<and> (\<forall>a \<in> fst ` set (md_rows s). a < md_fresh_row s)
     \<and> distinct (map fst (md_queries s)) \<and> (\<forall>(q, x) \<in> set (md_queries s). q < md_fresh s \<and> bounded x)"

definition owes :: "((nat \<times> c_orm_memory_query_t) list \<Rightarrow> mem_table_t list \<Rightarrow> bool) \<Rightarrow> int \<Rightarrow> int \<Rightarrow> mem_state \<Rightarrow> bool" where
  \<comment> \<open>of the live blocks, \<open>L\<close> were there before and \<open>n\<close> are not yet, or no longer, owned\<close>
  "owes Q L n s \<longleftrightarrow> live (md_heap s) = L + owned s + n \<and> wf s \<and> Q (md_queries s) (md_tables s)"

section \<open>Triples of the primitives\<close>

lemma owes_heap: "owes Q L n s \<Longrightarrow> live h = live (md_heap s) + k \<Longrightarrow> owes Q L (n + k) (s\<lparr>md_heap := h\<rparr>)"
  by (simp add: owes_def owned_def wf_def)

lemma owes_credit: "owes Q L n s \<Longrightarrow> owes Q L (n + k) (credit k s)"
  unfolding credit_def by (rule owes_heap) simp_all

lemma t_alloc: "triple U (owes Q L n) mem_alloc (\<lambda>ok. owes Q L (n + of_bool ok)) E"
proof -
  have "owes Q L (n + of_bool ok) (s\<lparr>md_heap := h\<rparr>)" if "owes Q L n s" "C_ORM_MALLOC (md_heap s) = (ok, h)" for s ok h
    using that malloc_live[OF that(2)] by (intro owes_heap) auto
  from this[where ok = True] this[where ok = False] show ?thesis by (auto simp: triple_def mem_alloc_def split: prod.splits)
qed

lemma t_free: "triple U (owes Q L n) mem_free (\<lambda>_. owes Q L (n - 1)) E"
  using owes_credit[where k = "- 1"] by (auto simp: triple_def)

lemma t_cell: "triple U (owes Q L n) (free_mem_cell c) (\<lambda>_. owes Q L (n - cell_blocks c)) E"
  using owes_credit[where k = "- cell_blocks c"] by (auto simp: triple_def)

lemma t_cells: "triple U (owes Q L n) (free_mem_cells cs) (\<lambda>_. owes Q L (n - sum_of cell_blocks cs)) E"
  using owes_credit[where k = "- sum_of cell_blocks cs"] by (auto simp: triple_def)

abbreviation at :: "nat \<Rightarrow> c_orm_memory_query_t \<Rightarrow> (nat \<times> c_orm_memory_query_t) list \<Rightarrow> mem_table_t list \<Rightarrow> bool" where
  "at q x \<equiv> \<lambda>qs ts. map_of qs q = Some x"

lemma t_query: "triple True (owes Q L n) (the_query q) (\<lambda>x. owes (\<lambda>qs ts. Q qs ts \<and> at q x qs ts) L n) E"
  by (auto simp: triple_def the_query_def owes_def split: option.splits)

lemma sum_update: "map_of al q = Some x \<Longrightarrow> sum_of f (map snd (AList.update q y al)) = sum_of f (map snd al) + f y - f x"
  by (induction al) auto

lemma sum_delete: "map_of al q = Some x \<Longrightarrow> distinct (map fst al) \<Longrightarrow> sum_of f (map snd (AList.delete q al)) = sum_of f (map snd al) - f x"
  by (induction al) auto

lemma owes_bound: "owes (at q x) L n s \<Longrightarrow> bounded x"
  by (auto simp: owes_def wf_def dest!: map_of_SomeD)

lemma owes_at: "owes (at q x) L n s \<Longrightarrow> map_of (md_queries s) q = Some x"
  by (simp add: owes_def)

lemma t_set_table:
  assumes "bounded y"
  shows "triple U (owes (\<lambda>qs ts. at q x qs ts \<and> Q ts) L n) (set_query q y)
    (\<lambda>_. owes (\<lambda>qs ts. at q y qs ts \<and> Q ts) L (n + query_blocks x - query_blocks y)) E"
  using assms
  by (auto simp: triple_def set_query_def owes_def owned_def sum_update wf_def AList.update_conv' distinct_update
      dest!: set_update dest: map_of_SomeD)

lemma t_set:
  "bounded y \<Longrightarrow> triple U (owes (at q x) L n) (set_query q y) (\<lambda>_. owes (at q y) L (n + query_blocks x - query_blocks y)) E"
  using t_set_table[where Q = "\<lambda>_. True"] by simp

lemma sum_list_update: "i < length cs \<Longrightarrow> sum_of f (cs[i := c]) = sum_of f cs + f c - f (cs ! i)"
  by (induction cs arbitrary: i) (auto split: nat.splits)

lemma t_bound:
  assumes "i < 32"
  shows "triple True (owes (at q x) L n) (set_bound q i c)
     (\<lambda>_. owes (at q (x\<lparr>mq_bound := (mq_bound x)[i := c]\<rparr>)) L (n + cell_blocks (mq_bound x ! i) - cell_blocks c)) E"
proof (cases "bounded x")
  case True
  then have b: "bounded (x\<lparr>mq_bound := (mq_bound x)[i := c]\<rparr>)" "length (mq_bound x) = 32" by (simp_all add: bounded_def)
  have k: "query_blocks x - query_blocks (x\<lparr>mq_bound := (mq_bound x)[i := c]\<rparr>) = cell_blocks (mq_bound x ! i) - cell_blocks c"
    using b assms by (simp add: query_blocks_def sum_list_update)
  have "triple True (owes (at q x) L n) (set_query q (x\<lparr>mq_bound := (mq_bound x)[i := c]\<rparr>))
     (\<lambda>_. owes (at q (x\<lparr>mq_bound := (mq_bound x)[i := c]\<rparr>)) L (n + cell_blocks (mq_bound x ! i) - cell_blocks c)) E"
    using t_set[of "x\<lparr>mq_bound := (mq_bound x)[i := c]\<rparr>" True q x L n E] b by (simp add: k add_diff_eq[symmetric])
  then show ?thesis
    by (auto simp: triple_def set_bound_def pbind_Ret the_query_Some owes_def)
qed (auto simp: triple_def dest: owes_bound)

section \<open>Triples of the operations\<close>

abbreviation neat :: "int \<Rightarrow> mem_state \<Rightarrow> bool" where
  "neat L \<equiv> owes (\<lambda>_ _. True) L 0"

lemma owes_neat: "owes Q L 0 s \<Longrightarrow> neat L s"
  by (simp add: owes_def)

lemma t_new_query: "triple True (owes Q L 2) (new_query ty name) (\<lambda>_. neat L) (neat L)"
proof -
  define x where "x = \<lparr>mq_type = ty, mq_table_name = name, mq_bound = replicate 32 None, mq_num_bound = 0, mq_current_row = None, mq_step_started = False\<rparr>"
  have "sum_of cell_blocks (replicate k None) = 0" for k by (induction k) (simp_all add: cell_blocks_def)
  then have x: "bounded x" "query_blocks x = 2" by (simp_all add: x_def bounded_def query_blocks_def del: replicate_Suc)
  have run: "new_query ty name s = (Ret (md_fresh s), s\<lparr>md_fresh := Suc (md_fresh s), md_queries := (md_fresh s, x) # md_queries s\<rparr>)" for s
    by (simp add: new_query_def pbind_def fresh_address_def x_def)
  have "neat L (s\<lparr>md_fresh := Suc (md_fresh s), md_queries := (md_fresh s, x) # md_queries s\<rparr>)" if "owes Q L 2 s" for s
    using that x by (force simp: owes_def owned_def wf_def)
  then show ?thesis by (simp add: triple_def run)
qed

lemma t_free_err: "triple U (owes Q L 1) (pbind mem_free (\<lambda>_. perr e)) R (neat L)"
  using t_free[of U Q L 1 "neat L"] by (intro triple_bind[where R = "\<lambda>_. owes Q L 0"]) (auto intro: triple_perr owes_neat)

lemma t_prepare: "triple True (neat L) (mem_prepare sql) (\<lambda>_. neat L) (neat L)"
  unfolding mem_prepare_def
proof (rule triple_bind[OF t_alloc], goal_cases)
  case (1 ok)
  have named: "triple True (owes (\<lambda>_ _. True) L 2) (pbind (lift_outcome r) (new_query ty)) (\<lambda>_. neat L) (neat L)" if "\<And>e. r \<noteq> Err e" for r ty
  proof (cases r)
    case (Err e)
    with that[of e] show ?thesis by simp
  qed (use t_new_query in \<open>auto simp: triple_def pbind_def lift_outcome_def\<close>)
  have no_err: "parse_table_name sql p \<noteq> Err e" for p e
    by (simp add: parse_table_name_def Let_def split: option.splits)
  have two: "triple True (owes (\<lambda>_ _. True) L 2) (case classify sql of (ty, None) \<Rightarrow> new_query ty ''''
       | (ty, Some prefix) \<Rightarrow> pbind (lift_outcome (parse_table_name sql prefix)) (\<lambda>name. new_query ty name)) (\<lambda>_. neat L) (neat L)"
    using no_err by (cases "classify sql") (auto split: option.splits intro: t_new_query named)
  show ?case
  proof (cases ok)
    case True
    then show ?thesis
      by simp (rule triple_bind[OF t_alloc], auto intro: t_free_err two)
  qed (auto intro: triple_perr)
qed

lemma t_get_or_alloc:
  "triple True (neat L) (get_or_alloc_bound_cell query index)
     (\<lambda>p s. \<exists>x. owes (at (fst p) x) L 0 s \<and> snd p < 32 \<and> mq_bound x ! snd p = Some empty_cell) (neat L)"
proof (cases "query = None \<or> index < 1 \<or> 32 < index")
  case True
  then show ?thesis by (cases query) (auto simp: get_or_alloc_bound_cell_def intro: triple_perr)
next
  case False
  then obtain q where q: "query = Some q" by auto
  define i where "i = nat index - 1"
  have i: "i < 32" "(index < 1 \<or> 32 < index) = False" "nat index \<le> 32" using False by (auto simp: i_def)
  show ?thesis
    unfolding get_or_alloc_bound_cell_def q option.case i(2) if_False Let_def i_def[symmetric]
  proof (rule triple_bind[OF t_query], goal_cases)
    case (1 x)
    define z where "z = x\<lparr>mq_bound := (mq_bound x)[i := None, i := Some empty_cell]\<rparr>"
    have num: "triple True (owes (at q z) L 0) (pbind (the_query q) (\<lambda>y. pbind (set_query q (y\<lparr>mq_num_bound := max (mq_num_bound y) (nat index)\<rparr>)) (\<lambda>_. preturn (q, i))))
      (\<lambda>p s. \<exists>x. owes (at (fst p) x) L 0 s \<and> snd p < 32 \<and> mq_bound x ! snd p = Some empty_cell) (neat L)"
    proof (rule triple_bind[where R = "\<lambda>y s. y = z \<and> bounded z \<and> owes (at q z) L 0 s"], goal_cases)
      case 1
      show ?case by (auto simp: triple_def the_query_Some[OF owes_at] dest: owes_bound)
    next
      case (2 y)
      show ?case
      proof (cases "y = z \<and> bounded z")
        case True
        define w where "w = z\<lparr>mq_num_bound := max (mq_num_bound z) (nat index)\<rparr>"
        have w: "bounded w" "query_blocks z = query_blocks w" "mq_bound w ! i = Some empty_cell"
          using True i(1) i(3) by (auto simp: query_blocks_def w_def z_def bounded_def)
        show ?thesis
          using True t_set[of w True q z L 0 "neat L"] w i(1)
          by (auto simp: w_def[symmetric] intro!: triple_bind[where R = "\<lambda>_. owes (at q w) L 0"] triple_return elim!: triple_weaken)
      qed (auto simp: triple_def)
    qed
    define y where "y = x\<lparr>mq_bound := (mq_bound x)[i := None]\<rparr>"
    have z: "y\<lparr>mq_bound := (mq_bound y)[i := Some empty_cell]\<rparr> = z" by (simp add: y_def z_def)
    have fill: "triple True (owes (at q y) L 1) (set_bound q i (Some empty_cell)) (\<lambda>_. owes (at q z) L 0) (neat L)"
    proof (cases "bounded y")
      case True
      then have "mq_bound y ! i = None" using i(1) by (simp add: y_def bounded_def)
      then show ?thesis
        using t_bound[OF i(1), of q y L 1 "Some empty_cell" "neat L"] unfolding z by (simp add: cell_blocks_def empty_cell_def)
    qed (auto simp: triple_def dest: owes_bound)
    have cell: "triple True (owes (at q y) L (of_bool ok)) (if \<not> ok then perr C_ORM_ERROR_MEMORY
       else pbind (set_bound q i (Some empty_cell)) (\<lambda>_. pbind (the_query q) (\<lambda>y. pbind (set_query q (y\<lparr>mq_num_bound := max (mq_num_bound y) (nat index)\<rparr>)) (\<lambda>_. preturn (q, i)))))
      (\<lambda>p s. \<exists>x. owes (at (fst p) x) L 0 s \<and> snd p < 32 \<and> mq_bound x ! snd p = Some empty_cell) (neat L)" for ok
      using triple_bind[OF fill num] by (cases ok) (auto intro!: triple_perr intro: owes_neat)
    have clear: "triple True (owes (at q x) L (0 - cell_blocks (mq_bound x ! i))) (set_bound q i None) (\<lambda>_. owes (at q y) L 0) (neat L)"
      using t_bound[OF i(1), of q x L "0 - cell_blocks (mq_bound x ! i)" None "neat L"] by (simp add: y_def cell_blocks_def)
    have alloc: "triple True (owes (at q y) L 0) mem_alloc (\<lambda>ok. owes (at q y) L (of_bool ok)) (neat L)"
      using t_alloc[of True "at q y" L 0] by simp
    show ?case
      by (rule triple_bind[OF t_cell[where Q = "at q x" and n = 0] triple_bind[OF clear triple_bind[OF alloc cell]], THEN triple_weaken])
        (auto simp: owes_def)
  qed
qed

lemma t_fill:
  \<comment> \<open>putting a cell into the place that was found\<close>
  assumes "i < 32" and "mq_bound x ! i = Some c0"
  shows "triple True (owes (at q x) L n) (set_bound q i (Some c))
    (\<lambda>_ s. owes (at q (x\<lparr>mq_bound := (mq_bound x)[i := Some c]\<rparr>)) L (n + cell_blocks (Some c0) - cell_blocks (Some c)) s
       \<and> mq_bound (x\<lparr>mq_bound := (mq_bound x)[i := Some c]\<rparr>) ! i = Some c) E"
  using t_bound[OF assms(1), of q x L n "Some c" E] assms owes_bound
  by (fastforce simp: triple_def bounded_def split: outcome.splits)

lemma empty_blocks [simp]: "cell_blocks (Some empty_cell) = 1"
  by (simp add: cell_blocks_def empty_cell_def)

lemma t_bind_cell:
  assumes "cell_blocks (Some c) = 1"
  shows "triple True (neat L) (bind_cell query index c) (\<lambda>_. neat L) (neat L)"
  unfolding bind_cell_def
proof (rule triple_bind[OF t_get_or_alloc], goal_cases)
  case (1 p)
  have "triple True (owes (at (fst p) x) L 0) (set_bound (fst p) (snd p) (Some c)) (\<lambda>_. neat L) (neat L)"
    if "snd p < 32" "mq_bound x ! snd p = Some empty_cell" for x
    by (rule triple_conseq[OF t_fill[OF that]]) (use assms in \<open>auto intro: owes_neat\<close>)
  then show ?case by (fastforce simp: triple_def)
qed

lemma t_bind_copied:
  assumes "cell_blocks (Some c1) = 1" and "cell_blocks (Some c2) = 2"
  shows "triple True (neat L) (pbind (get_or_alloc_bound_cell query index) (\<lambda>p.
     pbind (set_bound (fst p) (snd p) (Some c1)) (\<lambda>_.
     if b then preturn ()
     else pbind mem_alloc (\<lambda>ok. if \<not> ok then perr C_ORM_ERROR_MEMORY
       else set_bound (fst p) (snd p) (Some c2))))) (\<lambda>_. neat L) (neat L)"
proof (rule triple_bind[OF t_get_or_alloc], goal_cases)
  case (1 p)
  have "triple True (owes (at (fst p) x) L 0) (pbind (set_bound (fst p) (snd p) (Some c1)) (\<lambda>_.
     if b then preturn ()
     else pbind mem_alloc (\<lambda>ok. if \<not> ok then perr C_ORM_ERROR_MEMORY
       else set_bound (fst p) (snd p) (Some c2)))) (\<lambda>_. neat L) (neat L)"
    if p: "snd p < 32" "mq_bound x ! snd p = Some empty_cell" for x
  proof -
    define y where "y = x\<lparr>mq_bound := (mq_bound x)[snd p := Some c1]\<rparr>"
    have c1: "triple True (owes (at (fst p) x) L 0) (set_bound (fst p) (snd p) (Some c1))
      (\<lambda>_ s. owes (at (fst p) y) L 0 s \<and> mq_bound y ! snd p = Some c1) (neat L)"
      using t_fill[OF p, of "fst p" L 0 c1] assms(1) by (simp add: y_def)
    have c2: "triple True (owes (at (fst p) y) L 1) (set_bound (fst p) (snd p) (Some c2)) (\<lambda>_. neat L) (neat L)"
      if "mq_bound y ! snd p = Some c1"
      by (rule triple_conseq[OF t_fill[OF p(1) that]]) (use assms in \<open>auto intro: owes_neat\<close>)
    have alloc: "triple True (owes (at (fst p) y) L 0) (pbind mem_alloc (\<lambda>ok. if \<not> ok then perr C_ORM_ERROR_MEMORY
       else set_bound (fst p) (snd p) (Some c2))) (\<lambda>_. neat L) (neat L)" if "mq_bound y ! snd p = Some c1"
      by (rule triple_bind[OF t_alloc]) (use c2[OF that] in \<open>auto intro: triple_perr owes_neat\<close>)
    show ?thesis
    proof (rule triple_bind[OF c1])
      show "triple True (\<lambda>s. owes (at (fst p) y) L 0 s \<and> mq_bound y ! snd p = Some c1) (if b then preturn ()
        else pbind mem_alloc (\<lambda>ok. if \<not> ok then perr C_ORM_ERROR_MEMORY
        else set_bound (fst p) (snd p) (Some c2))) (\<lambda>_. neat L) (neat L)"
        using alloc by (cases b) (auto simp: triple_def preturn_def intro: owes_neat)
    qed
  qed
  then show ?case by (fastforce simp: triple_def)
qed

lemma t_binds:
  "triple True (neat L) (mem_bind_int32 query index v32) (\<lambda>_. neat L) (neat L)"
  "triple True (neat L) (mem_bind_int64 query index v64) (\<lambda>_. neat L) (neat L)"
  "triple True (neat L) (mem_bind_double query index d) (\<lambda>_. neat L) (neat L)"
  "triple True (neat L) (mem_bind_null query index) (\<lambda>_. neat L) (neat L)"
  unfolding mem_bind_int32_def mem_bind_int64_def mem_bind_double_def mem_bind_null_def
  by (rule t_bind_cell, simp add: cell_blocks_def empty_cell_def)+

lemma t_binds_copied:
  "triple True (neat L) (mem_bind_string query index v) (\<lambda>_. neat L) (neat L)"
  "triple True (neat L) (mem_bind_blob query index b) (\<lambda>_. neat L) (neat L)"
proof -
  show "triple True (neat L) (mem_bind_string query index v) (\<lambda>_. neat L) (neat L)"
  proof (cases v)
    case None
    then show ?thesis by (simp add: mem_bind_string_def t_bind_cell[unfolded bind_cell_def] cell_blocks_def empty_cell_def)
  next
    case (Some t)
    then show ?thesis unfolding mem_bind_string_def by (intro t_bind_copied) (simp_all add: cell_blocks_def empty_cell_def)
  qed
  show "triple True (neat L) (mem_bind_blob query index b) (\<lambda>_. neat L) (neat L)"
  proof (cases b)
    case None
    then show ?thesis by (simp add: mem_bind_blob_def t_bind_cell[unfolded bind_cell_def] cell_blocks_def empty_cell_def)
  next
    case (Some t)
    then show ?thesis unfolding mem_bind_blob_def by (intro t_bind_copied) (simp_all add: cell_blocks_def empty_cell_def)
  qed
qed

section \<open>Rows and tables\<close>

lemma leads_older: "leads M p as \<Longrightarrow> k \<notin> set as \<Longrightarrow> leads (M(k \<mapsto> r)) p as"
  by (induction as arbitrary: p) auto

lemma leads_deleted: "leads M p as \<Longrightarrow> k \<notin> set as \<Longrightarrow> leads (M(k := None)) p as"
  by (induction as arbitrary: p) auto

lemma parted_table: "parted ts rows ass \<Longrightarrow> parted (\<lparr>mt_name = name, mt_head = None\<rparr> # ts) rows ([] # ass)"
  by (simp add: parted_def)

lemma list_all2_mono_in: "list_all2 P xs ys \<Longrightarrow> (\<And>x y. y \<in> set ys \<Longrightarrow> P x y \<Longrightarrow> Q x y) \<Longrightarrow> list_all2 Q xs ys"
  by (induction xs ys rule: list_all2_induct) auto

lemma set_head_leads:
  assumes "list_all2 (\<lambda>t as. leads M (mt_head t) as) ts ass" and "find_table name ts = Some t"
    and older: "\<And>p as. as \<in> set ass \<Longrightarrow> leads M p as \<Longrightarrow> leads N p as" and N: "N k = Some r" "row_next r = mt_head t"
  shows "\<exists>ass1 as ass2. ass = ass1 @ as # ass2 \<and>
    list_all2 (\<lambda>t as. leads N (mt_head t) as) (set_head name k ts) (ass1 @ (k # as) # ass2)"
  using assms(1,2) older
proof (induction ts ass rule: list_all2_induct)
  case (Cons t' ts as ass)
  have old: "list_all2 (\<lambda>t as. leads N (mt_head t) as) ts ass" "leads N (mt_head t') as"
    using Cons.hyps Cons.prems(2) by (auto elim!: list_all2_mono_in)
  show ?case
  proof (cases "mt_name t' = name")
    case True
    with Cons.prems have "t = t'" by (simp add: find_table_def)
    with True old N have "list_all2 (\<lambda>t as. leads N (mt_head t) as) (set_head name k (t' # ts)) ([] @ (k # as) # ass)"
      by simp
    then show ?thesis by blast
  next
    case False
    with Cons obtain ass1 bs ass2 where ih: "ass = ass1 @ bs # ass2"
      "list_all2 (\<lambda>t as. leads N (mt_head t) as) (set_head name k ts) (ass1 @ (k # bs) # ass2)"
      by (auto simp: find_table_def)
    with False old(2) have "as # ass = (as # ass1) @ bs # ass2 \<and>
        list_all2 (\<lambda>t as. leads N (mt_head t) as) (set_head name k (t' # ts)) ((as # ass1) @ (k # bs) # ass2)" by simp
    then show ?thesis by blast
  qed
qed (simp add: find_table_def)

lemma parted_row:
  assumes p: "parted ts rows ass" and t: "find_table name ts = Some t" and k: "k \<notin> fst ` set rows" and r: "row_next r = mt_head t"
  shows "\<exists>ass'. parted (set_head name k ts) ((k, r) # rows) ass'"
proof -
  have "k \<notin> set as" if "as \<in> set ass" for as using p k that by (auto simp: parted_def)
  then have older: "leads ((map_of rows)(k \<mapsto> r)) p as" if "as \<in> set ass" "leads (map_of rows) p as" for p as
    using that leads_older by blast
  have chains: "list_all2 (\<lambda>t as. leads (map_of rows) (mt_head t) as) ts ass" using p by (simp add: parted_def)
  obtain ass1 as ass2 where a: "ass = ass1 @ as # ass2"
    "list_all2 (\<lambda>t as. leads ((map_of rows)(k \<mapsto> r)) (mt_head t) as) (set_head name k ts) (ass1 @ (k # as) # ass2)"
    using set_head_leads[OF chains t older, of k r] r by auto
  have "parted (set_head name k ts) ((k, r) # rows) (ass1 @ (k # as) # ass2)"
    using p k a unfolding parted_def by auto
  then show ?thesis by blast
qed

lemma t_create_table:
  "triple True (owes (at q x) L 0) (create_table name) (\<lambda>_. owes (\<lambda>qs ts. at q x qs ts \<and> find_table name ts \<noteq> None) L 0) (neat L)"
  unfolding create_table_def
proof (rule triple_bind[OF t_alloc], goal_cases)
  case (1 ok)
  have add: "owes (\<lambda>qs ts. at q x qs ts \<and> find_table name ts \<noteq> None) L 0 (s\<lparr>md_tables := \<lparr>mt_name = name, mt_head = None\<rparr> # md_tables s\<rparr>)"
    if "owes (at q x) L 2 s" for s
    using that by (auto simp: owes_def owned_def wf_def find_table_def intro: parted_table)
  have new: "triple True (owes (at q x) L 2) (\<lambda>s. (Ret (), s\<lparr>md_tables := \<lparr>mt_name = name, mt_head = None\<rparr> # md_tables s\<rparr>))
      (\<lambda>_. owes (\<lambda>qs ts. at q x qs ts \<and> find_table name ts \<noteq> None) L 0) (neat L)"
    unfolding triple_def using add by simp
  show ?case
  proof (cases ok)
    case True
    with new show ?thesis
      by simp (rule triple_bind[OF t_alloc], auto intro: t_free_err)
  qed (auto intro: triple_perr owes_neat)
qed

lemma t_ensure_table:
  "triple True (owes (at q x) L 0) (ensure_table name) (\<lambda>_. owes (\<lambda>qs ts. at q x qs ts \<and> find_table name ts \<noteq> None) L 0) (neat L)"
  using t_create_table[of q x L name] by (auto simp: triple_def ensure_table_def owes_def)

lemma t_add_row:
  "triple True (owes (\<lambda>qs ts. find_table name ts \<noteq> None) L (1 + of_bool (cells \<noteq> []) + sum_of cell_blocks cells)) (add_row name cells) (\<lambda>_. neat L) (neat L)"
proof -
  have new: "length (set_head name k ts) = length ts" for k ts by (induction ts) auto
  have "neat L (s\<lparr>md_fresh_row := Suc (md_fresh_row s), md_rows := (md_fresh_row s, \<lparr>row_columns = cells, row_next = mt_head t\<rparr>) # md_rows s,
      md_tables := set_head name (md_fresh_row s) (md_tables s)\<rparr>)"
    if s: "owes (\<lambda>qs ts. find_table name ts \<noteq> None) L (1 + of_bool (cells \<noteq> []) + sum_of cell_blocks cells) s" and t: "find_table name (md_tables s) = Some t" for s t
  proof -
    obtain ass where "parted (md_tables s) (md_rows s) ass" and fresh: "\<forall>a \<in> fst ` set (md_rows s). a < md_fresh_row s"
      using s by (auto simp: owes_def wf_def)
    then have "\<exists>ass. parted (set_head name (md_fresh_row s) (md_tables s)) ((md_fresh_row s, \<lparr>row_columns = cells, row_next = mt_head t\<rparr>) # md_rows s) ass"
      by (intro parted_row[OF _ t]) auto
    with s fresh show ?thesis by (force simp: owes_def owned_def wf_def new row_blocks_def)
  qed
  then show ?thesis
    by (auto simp: triple_def add_row_def pbind_def fresh_row_def owes_def)
qed

lemma t_insert: "triple True (owes (at q x) L 0) (insert_row q) (\<lambda>_. neat L) (neat L)"
proof -
  define name where "name = mq_table_name x"
  define n where "n = mq_num_bound x"
  define cells where "cells = take n (mq_bound x)"
  define y where "y = x\<lparr>mq_bound := replicate n None @ drop n (mq_bound x), mq_num_bound := 0\<rparr>"
  let ?Q = "\<lambda>x qs ts. at q x qs ts \<and> find_table name ts \<noteq> None"
  show ?thesis
  proof (cases "bounded x")
    case True
    have none: "sum_of cell_blocks (replicate n None) = 0" by (induction n) (simp_all add: cell_blocks_def)
    have "sum_of cell_blocks (mq_bound x) = sum_of cell_blocks cells + sum_of cell_blocks (drop n (mq_bound x))"
      unfolding cells_def by (simp flip: sum_of_append)
    then have blocks: "query_blocks x - query_blocks y = sum_of cell_blocks cells"
      by (simp add: query_blocks_def y_def none)
    have y: "bounded y" and n: "cells \<noteq> [] \<longleftrightarrow> n > 0" using True by (auto simp: bounded_def y_def n_def cells_def)
    have "triple True (owes (?Q x) L (1 + of_bool (cells \<noteq> []))) (set_query q y) (\<lambda>_. owes (?Q y) L (1 + of_bool (cells \<noteq> []) + query_blocks x - query_blocks y)) (neat L)"
      by (rule t_set_table[OF y])
    then have set: "triple True (owes (?Q x) L (1 + of_bool (n > 0))) (set_query q y) (\<lambda>_. owes (?Q y) L (1 + of_bool (cells \<noteq> []) + sum_of cell_blocks cells)) (neat L)"
      using blocks n by (simp add: add_diff_eq[symmetric])
    have add: "triple True (owes (?Q y) L (1 + of_bool (cells \<noteq> []) + sum_of cell_blocks cells)) (add_row name cells) (\<lambda>_. neat L) (neat L)"
      by (rule triple_weaken[OF t_add_row]) (auto simp: owes_def)
    have alloc2: "triple True (owes (?Q x) L 1) (if n > 0 then mem_alloc else preturn True)
       (\<lambda>ok2. if ok2 then owes (?Q x) L (1 + of_bool (n > 0)) else owes (?Q x) L 1) (neat L)"
    proof (cases "n > 0")
      case True
      then show ?thesis by simp (rule triple_conseq[OF t_alloc], auto split: if_splits)
    qed (simp add: triple_def preturn_def)
    have rest: "triple True (owes (?Q x) L 1) (pbind (if n > 0 then mem_alloc else preturn True) (\<lambda>ok2.
       if \<not> ok2 then pbind mem_free (\<lambda>_. perr C_ORM_ERROR_MEMORY)
       else pbind (set_query q y) (\<lambda>_. add_row name cells))) (\<lambda>_. neat L) (neat L)"
    proof (rule triple_bind[OF alloc2], goal_cases)
      case (1 ok2)
      show ?case using triple_bind[OF set add] by (cases ok2) (simp_all add: t_free_err)
    qed
    have body: "triple True (owes (at q x) L 0) (pbind (ensure_table name) (\<lambda>_. pbind mem_alloc (\<lambda>ok. if \<not> ok then perr C_ORM_ERROR_MEMORY
       else pbind (if n > 0 then mem_alloc else preturn True) (\<lambda>ok2.
       if \<not> ok2 then pbind mem_free (\<lambda>_. perr C_ORM_ERROR_MEMORY)
       else pbind (set_query q y) (\<lambda>_. add_row name cells))))) (\<lambda>_. neat L) (neat L)"
    proof (rule triple_bind[OF t_ensure_table], rule triple_bind[OF t_alloc], goal_cases)
      case (1 u ok)
      show ?case using rest by (cases ok) (auto intro: triple_perr owes_neat)
    qed
    have run: "insert_row q s = pbind (ensure_table name) (\<lambda>_. pbind mem_alloc (\<lambda>ok. if \<not> ok then perr C_ORM_ERROR_MEMORY
       else pbind (if n > 0 then mem_alloc else preturn True) (\<lambda>ok2.
       if \<not> ok2 then pbind mem_free (\<lambda>_. perr C_ORM_ERROR_MEMORY)
       else pbind (set_query q y) (\<lambda>_. add_row name cells)))) s" if "owes (at q x) L 0 s" for s
      unfolding insert_row_def pbind_Ret[where m = "the_query q", OF the_query_Some[OF owes_at[OF that]]] y_def name_def n_def cells_def
      by (rule refl)
    show ?thesis using run body by (rule triple_cong)
  next
    case False
    then show ?thesis by (auto simp: triple_def dest: owes_bound)
  qed
qed

lemma t_step: "triple True (neat L) (mem_step query) (\<lambda>_. neat L) (neat L)"
proof (cases query)
  case None
  then show ?thesis by (simp add: mem_step_def triple_return)
next
  case (Some q)
  show ?thesis
    unfolding Some mem_step_def option.case
  proof (rule triple_bind[OF t_query], goal_cases)
    case (1 x)
    have ins: "triple True (owes (at q x) L 0) (pbind (insert_row q) (\<lambda>_. preturn False)) (\<lambda>_. neat L) (neat L)"
      by (rule triple_bind[OF t_insert triple_return])
    have sel: "triple True (owes (at q x) L 0) (pbind (next_row x) (\<lambda>p. pbind (set_query q (x\<lparr>mq_step_started := True, mq_current_row := p\<rparr>)) (\<lambda>_. preturn (p \<noteq> None))))
      (\<lambda>_. neat L) (neat L)"
    proof (rule triple_bind[where R = "\<lambda>_ s. owes (at q x) L 0 s \<and> bounded x"], goal_cases)
      case 1
      show ?case by (auto simp: triple_def next_row_def dest: owes_bound split: option.splits)
    next
      case (2 p)
      show ?case
      proof (cases "bounded x")
        case True
        then have b: "bounded (x\<lparr>mq_step_started := True, mq_current_row := p\<rparr>)"
          "query_blocks (x\<lparr>mq_step_started := True, mq_current_row := p\<rparr>) = query_blocks x"
          by (simp_all add: bounded_def query_blocks_def)
        show ?thesis
          by (rule triple_weaken[OF triple_bind[OF t_set[OF b(1), of True q x L 0] triple_return]]) (auto simp: b(2) intro: owes_neat)
      qed (simp add: triple_def)
    qed
    show ?case using ins sel by (auto intro: triple_return owes_neat)
  qed
qed

lemma t_pure:
  assumes "\<And>s. snd (m s) = s"
  shows "triple True P m (\<lambda>_. P) P"
  unfolding triple_def
proof (intro allI impI)
  fix s assume "P s"
  then show "case m s of (Ret a, t) \<Rightarrow> P t | (Err e, t) \<Rightarrow> P t | (Stuck, t) \<Rightarrow> True"
    using assms[of s] by (cases "m s") (auto split: outcome.splits)
qed

lemma cell_pure: "snd (get_current_cell query index s) = s"
  by (auto simp: get_current_cell_def pbind_def the_query_def perr_def split: option.splits)

lemma get_pure: "snd (read_cell f query index b s) = s"
  using cell_pure[of query index s] by (auto simp: read_cell_def pbind_def perr_def preturn_def split: prod.splits outcome.splits)

lemma null_pure: "snd (mem_is_null query index s) = s"
  using cell_pure[of query index s] by (auto simp: mem_is_null_def split: prod.splits outcome.splits)

lemma t_gets:
  "triple True P (mem_get_int32 query index b) (\<lambda>_. P) P" "triple True P (mem_get_int64 query index b) (\<lambda>_. P) P"
  "triple True P (mem_get_double query index b) (\<lambda>_. P) P" "triple True P (mem_get_string query index b) (\<lambda>_. P) P"
  "triple True P (mem_get_blob query index b) (\<lambda>_. P) P" "triple True P (mem_is_null query index) (\<lambda>_. P) P"
  by (rule t_pure, simp add: mem_get_int32_def mem_get_int64_def mem_get_double_def mem_get_string_def mem_get_blob_def get_pure null_pure)+

lemma t_delete: "triple True (owes (at q x) L (- query_blocks x)) (\<lambda>s. (Ret (), s\<lparr>md_queries := AList.delete q (md_queries s)\<rparr>)) (\<lambda>_. neat L) (neat L)"
proof -
  have "neat L (s\<lparr>md_queries := AList.delete q (md_queries s)\<rparr>)" if s: "owes (at q x) L (- query_blocks x) s" for s
  proof -
    have "set (AList.delete q (md_queries s)) \<subseteq> set (md_queries s)" by (auto simp: AList.delete_eq)
    moreover have "\<forall>(q, x) \<in> set (md_queries s). q < md_fresh s \<and> bounded x" using s by (simp add: owes_def wf_def)
    ultimately have "\<forall>(q, x) \<in> set (AList.delete q (md_queries s)). q < md_fresh s \<and> bounded x" by blast
    then show ?thesis using s by (simp add: owes_def owned_def wf_def sum_delete distinct_delete)
  qed
  then show ?thesis by (simp add: triple_def)
qed

lemma t_finalize: "triple True (neat L) (mem_finalize query) (\<lambda>_. neat L) (neat L)"
proof (cases query)
  case None
  then show ?thesis by (simp add: mem_finalize_def triple_def stuck_def)
next
  case (Some q)
  show ?thesis
    unfolding Some mem_finalize_def option.case
  proof (rule triple_bind[OF t_query], goal_cases)
    case (1 x)
    have n: "0 - sum_of cell_blocks (mq_bound x) - 1 - 1 = - query_blocks x" by (simp add: query_blocks_def)
    have "triple True (owes (at q x) L 0) (pbind (free_mem_cells (mq_bound x)) (\<lambda>_. pbind mem_free (\<lambda>_. pbind mem_free (\<lambda>_ s.
       (Ret (), s\<lparr>md_queries := AList.delete q (md_queries s)\<rparr>))))) (\<lambda>_. neat L) (neat L)"
      by (rule triple_bind[OF t_cells], rule triple_bind[OF t_free], rule triple_bind[OF t_free]) (simp only: n t_delete)
    then show ?case by simp
  qed
qed

lemma t_reset: "triple True (neat L) (mem_reset query) (\<lambda>_. neat L) (neat L)"
proof (cases query)
  case None
  then show ?thesis by (simp add: mem_reset_def triple_return)
next
  case (Some q)
  show ?thesis
    unfolding Some mem_reset_def option.case
  proof (rule triple_bind[OF t_query], goal_cases)
    case (1 x)
    show ?case
    proof (cases "bounded x")
      case True
      then have b: "bounded (x\<lparr>mq_current_row := None, mq_step_started := False\<rparr>)"
        "query_blocks (x\<lparr>mq_current_row := None, mq_step_started := False\<rparr>) = query_blocks x"
        by (simp_all add: bounded_def query_blocks_def)
      show ?thesis
        by (rule triple_conseq[OF t_set[OF b(1), of True q x L 0]]) (auto simp: b(2) intro: owes_neat)
    qed (auto simp: triple_def dest: owes_bound)
  qed
qed

lemma t_returning: "triple U P m (\<lambda>_. P) P \<Longrightarrow> triple U P (returning f m) (\<lambda>_. P) P"
  unfolding returning_def by (erule triple_bind) (rule triple_return)

lemma t_exec: "triple True (neat L) (mem_exec c) (\<lambda>_. neat L) (neat L)"
  by (cases c) (simp_all only: mem_exec.simps t_returning t_prepare t_binds t_binds_copied t_step t_gets t_finalize t_reset)

lemma neat_run: "run_ops mem_exec ops s = (rs, t) \<Longrightarrow> neat L s \<Longrightarrow> Stuck \<notin> set rs \<Longrightarrow> neat L t"
proof (induction ops arbitrary: s rs t)
  case (Cons c ops)
  obtain r u where r: "mem_exec c s = (r, u)" by (cases "mem_exec c s")
  obtain rs' t' where rest: "run_ops mem_exec ops u = (rs', t')" by (cases "run_ops mem_exec ops u")
  show ?case using Cons.prems Cons.IH[OF rest] triple_at[OF t_exec Cons.prems(2) r] r rest by (cases r) auto
qed simp

section \<open>Disconnecting\<close>

lemma free_rows_chain:
  "leads (map_of (md_rows s)) p as \<Longrightarrow> distinct as \<Longrightarrow> distinct (map fst (md_rows s)) \<Longrightarrow> length as \<le> n \<Longrightarrow>
     \<exists>h. free_rows n p s = (Ret (), s\<lparr>md_rows := filter (\<lambda>(k, r). k \<notin> set as) (md_rows s), md_heap := h\<rparr>)
       \<and> live h - sum_of row_blocks (map snd (filter (\<lambda>(k, r). k \<notin> set as) (md_rows s)))
           = live (md_heap s) - sum_of row_blocks (map snd (md_rows s))"
proof (induction as arbitrary: n p s)
  case Nil
  have "filter (\<lambda>(k, r). True) (md_rows s) = md_rows s" by (simp add: case_prod_beta)
  with Nil show ?case by (intro exI[of _ "md_heap s"]) (cases n; simp add: preturn_def)
next
  case (Cons a as)
  obtain m where n: "n = Suc m" "length as \<le> m" using Cons.prems(4) by (cases n) auto
  obtain r where p: "p = Some a" and r: "map_of (md_rows s) a = Some r" and rest: "leads (map_of (md_rows s)) (row_next r) as"
    using Cons.prems(1) by auto
  define k :: int where "k = - row_blocks r"
  define u where "u = credit k (s\<lparr>md_rows := AList.delete a (md_rows s)\<rparr>)"
  have "free_rows n p s = free_rows m (row_next r) u"
    by (cases "row_columns r = []") (simp_all add: n p r pbind_Ret preturn_def u_def k_def row_blocks_def)
  moreover have "leads (map_of (md_rows u)) (row_next r) as"
    using rest Cons.prems(2) by (simp add: u_def AList.delete_conv' leads_deleted)
  moreover have "distinct (map fst (md_rows u))" using Cons.prems(3) by (simp add: u_def distinct_delete)
  ultimately obtain h where h: "free_rows n p s = (Ret (), u\<lparr>md_rows := filter (\<lambda>(k, r). k \<notin> set as) (md_rows u), md_heap := h\<rparr>)"
    "live h - sum_of row_blocks (map snd (filter (\<lambda>(k, r). k \<notin> set as) (md_rows u)))
       = live (md_heap u) - sum_of row_blocks (map snd (md_rows u))"
    using Cons.IH[of u "row_next r" m] Cons.prems(2) n(2) by auto
  have rows: "filter (\<lambda>(k, r). k \<notin> set as) (md_rows u) = filter (\<lambda>(k, r). k \<notin> set (a # as)) (md_rows s)"
    by (auto simp: u_def AList.delete_eq intro!: filter_cong)
  have "live (md_heap u) - sum_of row_blocks (map snd (md_rows u)) = live (md_heap s) - sum_of row_blocks (map snd (md_rows s))"
    by (simp add: u_def k_def sum_delete[OF r Cons.prems(3)])
  with h rows show ?case by (intro exI[of _ h]) (simp add: u_def credit_def)
qed

lemma free_tables_all:
  "list_all2 (\<lambda>t as. leads (map_of (md_rows s)) (mt_head t) as) ts ass \<Longrightarrow> distinct (concat ass) \<Longrightarrow>
     set (concat ass) = fst ` set (md_rows s) \<Longrightarrow> distinct (map fst (md_rows s)) \<Longrightarrow>
     \<exists>h. free_tables ts s = (Ret (), s\<lparr>md_rows := [], md_heap := h\<rparr>)
       \<and> live h = live (md_heap s) - sum_of row_blocks (map snd (md_rows s)) - 2 * int (length ts)"
proof (induction ts arbitrary: ass s)
  case Nil
  then show ?case by (intro exI[of _ "md_heap s"]) (auto simp: preturn_def)
next
  case (Cons t ts)
  obtain as ass' where a: "ass = as # ass'" "leads (map_of (md_rows s)) (mt_head t) as"
    "list_all2 (\<lambda>t as. leads (map_of (md_rows s)) (mt_head t) as) ts ass'"
    using Cons.prems(1) by (cases ass) auto
  have as: "distinct as" "set as \<subseteq> fst ` set (md_rows s)" "\<And>bs. bs \<in> set ass' \<Longrightarrow> set bs \<inter> set as = {}"
    using Cons.prems(2,3) a(1) by auto
  have "length as \<le> length (md_rows s)"
    using as(1,2) by (metis card_mono distinct_card finite_set length_map list.set_map order_trans card_length)
  then obtain h where h: "free_rows (length (md_rows s)) (mt_head t) s = (Ret (), s\<lparr>md_rows := filter (\<lambda>(k, r). k \<notin> set as) (md_rows s), md_heap := h\<rparr>)"
    "live h - sum_of row_blocks (map snd (filter (\<lambda>(k, r). k \<notin> set as) (md_rows s))) = live (md_heap s) - sum_of row_blocks (map snd (md_rows s))"
    using free_rows_chain[OF a(2) as(1) Cons.prems(4)] by blast
  define u where "u = credit (- 2) (s\<lparr>md_rows := filter (\<lambda>(k, r). k \<notin> set as) (md_rows s), md_heap := h\<rparr>)"
  have run: "free_tables (t # ts) s = free_tables ts u"
    by (simp add: pbind_Ret h(1) u_def)
  have filt: "map_of (filter (\<lambda>(k, r). k \<notin> set as) al) b = (if b \<in> set as then None else map_of al b)" for b and al :: "(nat \<times> mem_row_t) list"
    by (induction al) auto
  have keep: "leads M p bs \<Longrightarrow> set bs \<inter> set as = {} \<Longrightarrow> leads (\<lambda>b. if b \<in> set as then None else M b) p bs" for M p bs
    by (induction bs arbitrary: p) auto
  have "list_all2 (\<lambda>t as. leads (map_of (md_rows u)) (mt_head t) as) ts ass'"
    using list_all2_mono_in[OF a(3)] keep as(3) by (auto simp: u_def filt[abs_def] fun_eq_iff)
  moreover have "set (concat ass') = fst ` set (md_rows u)"
    using Cons.prems(2,3) a(1) by (force simp: u_def)
  moreover have "distinct (map fst (md_rows u))"
    using Cons.prems(4) by (simp add: u_def distinct_map_filter)
  ultimately obtain h' where h': "free_tables ts u = (Ret (), u\<lparr>md_rows := [], md_heap := h'\<rparr>)"
    "live h' = live (md_heap u) - sum_of row_blocks (map snd (md_rows u)) - 2 * int (length ts)"
    using Cons.IH[of u ass'] Cons.prems(2) a(1) by auto
  have "free_tables (t # ts) s = (Ret (), s\<lparr>md_rows := [], md_heap := h'\<rparr>)"
    unfolding run h'(1) by (simp add: u_def credit_def)
  moreover have "live h' = live (md_heap s) - sum_of row_blocks (map snd (md_rows s)) - 2 * int (length (t # ts))"
    using h(2) h'(2) by (simp add: u_def)
  ultimately show ?case by blast
qed

lemma disconnect_neat:
  assumes "neat L s" and "md_queries s = []"
  shows "\<exists>t. mem_disconnect s = (Ret (), t) \<and> live (md_heap t) = L - 2"
proof -
  obtain ass where p: "parted (md_tables s) (md_rows s) ass" using assms(1) by (auto simp: owes_def wf_def)
  obtain h where "free_tables (md_tables s) s = (Ret (), s\<lparr>md_rows := [], md_heap := h\<rparr>)"
    "live h = live (md_heap s) - sum_of row_blocks (map snd (md_rows s)) - 2 * int (length (md_tables s))"
    using free_tables_all[of s "md_tables s" ass] p by (auto simp: parted_def)
  then show ?thesis using assms by (simp add: mem_disconnect_def pbind_Ret owes_def owned_def)
qed

section \<open>Properties\<close>

lemma connect_state:
  assumes "mem_connect True h = (Ret s, h')"
  shows "neat (live h + 2) s" and "state_ok s" and "no_oom h \<Longrightarrow> no_oom (md_heap s)"
    and "abs_state s = \<lparr>ad_tables = \<lambda>_. [], ad_queries = [], ad_fresh = 0\<rparr>"
proof -
  obtain h1 where h1: "C_ORM_MALLOC h = (True, h1)" "C_ORM_MALLOC h1 = (True, h')"
    and s: "s = \<lparr>md_tables = [], md_rows = [], md_queries = [], md_fresh = 0, md_fresh_row = 0, md_heap = h'\<rparr>"
    using assms by (auto simp: mem_connect_def split: prod.splits if_splits)
  show "neat (live h + 2) s"
    using malloc_live[OF h1(1)] malloc_live[OF h1(2)] by (simp add: s owes_def owned_def wf_def parted_def)
  show "state_ok s" by (simp add: s state_ok_def)
  show "no_oom (md_heap s)" if "no_oom h"
    using h1 that by (auto simp: s)
  show "abs_state s = \<lparr>ad_tables = \<lambda>_. [], ad_queries = [], ad_fresh = 0\<rparr>"
    by (simp add: s abs_state_def table_rows_def find_table_def fun_eq_iff)
qed

definition connected :: "bool list \<Rightarrow> mem_state" where
  "connected sc = \<lparr>md_tables = [], md_rows = [], md_queries = [], md_fresh = 0, md_fresh_row = 0, md_heap = \<lparr>script = sc, live = 2\<rparr>\<rparr>"

definition sample_ops :: "mem_op list" where
  \<comment> \<open>a row is inserted while the table is being read\<close>
  "sample_ops = [Prepare ''INSERT INTO t (a) VALUES (?)'', Bind_int32 (Some 0) 1 5, Step (Some 0), Prepare ''SELECT * FROM t'',
     Step (Some 1), Bind_string (Some 0) 1 (Some ''six''), Step (Some 0), Get_int64 (Some 1) 0, Step (Some 1), Finalize (Some 0), Finalize (Some 1)]"

text \<open>C20 (mem_refines).
  The memory driver refines the abstract database: as long as memory is there, any sequence of calls on a new
  connection has exactly the outcomes of the machine whose tables are lists of rows and whose SELECTs
  iterate over the rows that the table had at the first step (so that rows inserted meanwhile are not seen,
  and no row is skipped or repeated); the tables, parameters and cursors of the state it reaches are those
  of the machine.
\<close>

theorem mem_refines:
  assumes "mem_connect True h = (Ret s, h')" and "no_oom h" and "run_ops mem_exec ops s = (rs, t)"
  shows "run_ops spec_exec ops \<lparr>ad_tables = \<lambda>_. [], ad_queries = [], ad_fresh = 0\<rparr> = (rs, abs_state t)"
proof -
  note c = connect_state[OF assms(1)]
  show ?thesis using sim_run[OF c(2) c(3)[OF assms(2)] assms(3)] by (simp add: c(4))
qed

lemma mem_refines_witness:
  "run_ops spec_exec sample_ops \<lparr>ad_tables = \<lambda>_. [], ad_queries = [], ad_fresh = 0\<rparr>
     = ([Ret (Handle 0), Ret Done, Ret (Flag False), Ret (Handle 1), Ret (Flag True), Ret Done, Ret (Flag False), Ret (Int64 5),
         Ret (Flag False), Ret Done, Ret Done], abs_state (snd (run_ops mem_exec sample_ops (connected []))))"
proof -
  have "mem_connect True \<lparr>script = [], live = 0\<rparr> = (Ret (connected []), md_heap (connected []))"
    by (simp add: mem_connect_def connected_def C_ORM_MALLOC_def)
  moreover have "no_oom \<lparr>script = [], live = 0\<rparr>" by (simp add: no_oom_def)
  moreover have "fst (run_ops mem_exec sample_ops (connected []))
    = [Ret (Handle 0), Ret Done, Ret (Flag False), Ret (Handle 1), Ret (Flag True), Ret Done, Ret (Flag False), Ret (Int64 5),
         Ret (Flag False), Ret Done, Ret Done]" by code_simp
  ultimately show ?thesis using mem_refines prod.collapse by metis
qed

text \<open>C21 (mem_leak_free).
  The memory driver loses no memory, whatever requests the allocator refuses: after any calls on a new
  connection, if no call was made on a dead handle and every query has been finalised, disconnecting
  succeeds and exactly the blocks that were live before connecting are live.
\<close>

theorem mem_leak_free:
  assumes "mem_connect True h = (Ret s, h')" and "run_ops mem_exec ops s = (rs, t)" and "Stuck \<notin> set rs" and "md_queries t = []"
  shows "\<exists>u. mem_disconnect t = (Ret (), u) \<and> live (md_heap u) = live h"
  using disconnect_neat[OF neat_run[OF assms(2) connect_state(1)[OF assms(1)] assms(3)] assms(4)] by simp

lemma mem_leak_free_witness:
  "\<exists>u. mem_disconnect (snd (run_ops mem_exec [Prepare ''INSERT INTO t (a) VALUES (?)'', Bind_int32 (Some 0) 1 5,
      Bind_string (Some 0) 2 (Some ''x''), Step (Some 0), Finalize (Some 0)] (connected [True, True, True, True, False]))) = (Ret (), u)
     \<and> live (md_heap u) = 0"
proof -
  define ops where "ops = [Prepare ''INSERT INTO t (a) VALUES (?)'', Bind_int32 (Some 0) 1 5,
      Bind_string (Some 0) 2 (Some ''x''), Step (Some 0), Finalize (Some 0)]"
  have c: "mem_connect True \<lparr>script = [True, True, True, True, True, True, False], live = 0\<rparr>
      = (Ret (connected [True, True, True, True, False]), md_heap (connected [True, True, True, True, False]))"
    by (simp add: mem_connect_def connected_def C_ORM_MALLOC_def)
  have "fst (run_ops mem_exec ops (connected [True, True, True, True, False]))
      = [Ret (Handle 0), Ret Done, Err C_ORM_ERROR_MEMORY, Ret (Flag False), Ret Done]"
    "md_queries (snd (run_ops mem_exec ops (connected [True, True, True, True, False]))) = []"
    unfolding ops_def by code_simp+
  then show ?thesis
    using mem_leak_free[OF c, of ops] prod.collapse[of "run_ops mem_exec ops (connected [True, True, True, True, False])"]
    unfolding ops_def[symmetric] by (metis list.distinct(1) heap.select_convs(2) list.set_intros set_ConsD outcome.distinct empty_iff empty_set)
qed

end
