(* ===== verification/StmtCache.thy ===== *)
theory StmtCache
  imports MemoryDriver
begin

text \<open>
  The cache of prepared statements, \<open>src/c_orm_cache.c\<close>: a doubly linked list of entries in the order of their
  last use, behind a mutex, in front of the \<open>prepare\<close>, \<open>finalize\<close> and \<open>reset\<close> functions of a driver.

  The driver is a parameter, its state the component \<open>cs_driver\<close>. Entries are objects with an address; the use
  of a freed one, the dereferencing of NULL and the locking of a locked mutex (which would never return) are
  \<open>Stuck\<close>. The counters of injected failures, compiled only with C_ORM_TEST_ALLOCATOR, are left out.
\<close>

record 'd driver_vtable =
  vt_prepare :: "string \<Rightarrow> ('d, nat) act"
  vt_finalize :: "nat \<Rightarrow> ('d, unit) act"
  vt_reset :: "nat \<Rightarrow> ('d, unit) act"

record c_orm_stmt_entry_t =
  ce_sql :: string
  ce_query :: nat
  ce_next :: "nat option"
  ce_prev :: "nat option"
  ce_in_use :: bool

record c_orm_stmt_cache_t =
  sc_capacity :: nat
  sc_count :: nat
  sc_head :: "nat option"
  sc_tail :: "nat option"
  sc_locked :: bool

record 'd cache_state =
  cs_driver :: 'd
  cs_cache :: "c_orm_stmt_cache_t option"
  cs_entries :: "nat \<Rightarrow> c_orm_stmt_entry_t option"
  cs_fresh :: nat
  cs_heap :: heap

type_synonym ('d, 'a) cached = "('d cache_state, 'a) act"

section \<open>Primitives\<close>

definition drive :: "('d, 'a) act \<Rightarrow> ('d, 'a) cached" where
  \<comment> \<open>a call through the driver's table\<close>
  "drive m s = (case m (cs_driver s) of (r, d) \<Rightarrow> (r, s\<lparr>cs_driver := d\<rparr>))"

definition attempt :: "('s, 'a) act \<Rightarrow> ('s, c_orm_error_t + 'a) act" where
  \<comment> \<open>the status of a call, as a value to test\<close>
  "attempt m s = (case m s of (Ret a, t) \<Rightarrow> (Ret (Inr a), t) | (Err e, t) \<Rightarrow> (Ret (Inl e), t) | (Stuck, t) \<Rightarrow> (Stuck, t))"

definition cache_alloc :: "('d, bool) cached" where
  "cache_alloc s = (case C_ORM_MALLOC (cs_heap s) of (ok, h) \<Rightarrow> (Ret ok, s\<lparr>cs_heap := h\<rparr>))"

definition cache_free :: "('d, unit) cached" where
  "cache_free s = (Ret (), s\<lparr>cs_heap := C_ORM_FREE (cs_heap s)\<rparr>)"

definition the_cache :: "('d, c_orm_stmt_cache_t) cached" where
  "the_cache s = (case cs_cache s of None \<Rightarrow> (Stuck, s) | Some c \<Rightarrow> (Ret c, s))"

definition set_cache :: "c_orm_stmt_cache_t \<Rightarrow> ('d, unit) cached" where
  "set_cache c s = (Ret (), s\<lparr>cs_cache := Some c\<rparr>)"

definition C_ORM_MUTEX_LOCK :: "('d, unit) cached" where
  "C_ORM_MUTEX_LOCK = pbind the_cache (\<lambda>c. if sc_locked c then stuck else set_cache (c\<lparr>sc_locked := True\<rparr>))"

definition C_ORM_MUTEX_UNLOCK :: "('d, unit) cached" where
  "C_ORM_MUTEX_UNLOCK = pbind the_cache (\<lambda>c. if sc_locked c then set_cache (c\<lparr>sc_locked := False\<rparr>) else stuck)"

definition entry :: "nat option \<Rightarrow> ('d, c_orm_stmt_entry_t) cached" where
  \<comment> \<open>dereferencing a pointer to an entry\<close>
  "entry p s = (case p of None \<Rightarrow> (Stuck, s) | Some a \<Rightarrow> (case cs_entries s a of None \<Rightarrow> (Stuck, s) | Some e \<Rightarrow> (Ret e, s)))"

definition update_entry :: "nat option \<Rightarrow> (c_orm_stmt_entry_t \<Rightarrow> c_orm_stmt_entry_t) \<Rightarrow> ('d, unit) cached" where
  "update_entry p f = pbind (entry p) (\<lambda>e s. (Ret (), s\<lparr>cs_entries := (cs_entries s)(the p \<mapsto> f e)\<rparr>))"

section \<open>Switching the cache on and off\<close>

definition c_orm_enable_statement_caching :: "bool \<Rightarrow> nat \<Rightarrow> ('d, unit) cached" where
  \<comment> \<open>\<open>db\<close> tells whether a connection is passed\<close>
  "c_orm_enable_statement_caching db cache_size s =
     (if \<not> db then (Err C_ORM_ERROR_MEMORY, s)
      else if cs_cache s \<noteq> None then (Ret (), s)
      else pbind cache_alloc (\<lambda>ok. if \<not> ok then perr C_ORM_ERROR_MEMORY
        else pbind cache_alloc (\<lambda>ok2. if \<not> ok2 then pbind cache_free (\<lambda>_. perr C_ORM_ERROR_MEMORY)
          else set_cache \<lparr>sc_capacity = (if cache_size = 0 then 128 else cache_size), sc_count = 0, sc_head = None, sc_tail = None,
            sc_locked = False\<rparr>)) s)"

definition free_entry :: "nat option \<Rightarrow> ('d, unit) cached" where
  \<comment> \<open>the text, then the entry\<close>
  "free_entry p = pbind (entry p) (\<lambda>_. pbind cache_free (\<lambda>_. pbind cache_free (\<lambda>_ s.
     (Ret (), s\<lparr>cs_entries := (cs_entries s)(the p := None)\<rparr>))))"

fun free_entries :: "'d driver_vtable \<Rightarrow> nat \<Rightarrow> nat option \<Rightarrow> ('d, unit) cached" where
  \<comment> \<open>the loop of \<open>c_orm_disable_statement_caching\<close>, in at most \<open>n\<close> rounds\<close>
  "free_entries vt n None = preturn ()"
| "free_entries vt 0 (Some p) = stuck"
| "free_entries vt (Suc n) (Some p) = pbind (entry (Some p)) (\<lambda>e.
     pbind (attempt (drive (vt_finalize vt (ce_query e)))) (\<lambda>r. case r of
         Inl rc \<Rightarrow> pbind C_ORM_MUTEX_UNLOCK (\<lambda>_. perr rc)
       | Inr _ \<Rightarrow> pbind (free_entry (Some p)) (\<lambda>_. free_entries vt n (ce_next e))))"

definition c_orm_disable_statement_caching :: "'d driver_vtable \<Rightarrow> bool \<Rightarrow> ('d, unit) cached" where
  "c_orm_disable_statement_caching vt db s =
     (if \<not> db \<or> cs_cache s = None then (Ret (), s)
      else pbind C_ORM_MUTEX_LOCK (\<lambda>_. pbind the_cache (\<lambda>c.
        pbind (free_entries vt (cs_fresh s) (sc_head c)) (\<lambda>_.
        pbind C_ORM_MUTEX_UNLOCK (\<lambda>_. pbind cache_free (\<lambda>_. pbind cache_free (\<lambda>_ t. (Ret (), t\<lparr>cs_cache := None\<rparr>))))))) s)"

section \<open>Preparing\<close>

fun find_entry :: "(c_orm_stmt_entry_t \<Rightarrow> bool) \<Rightarrow> nat \<Rightarrow> nat option \<Rightarrow> ('d, nat option) cached" where
  \<comment> \<open>the loops along \<open>next\<close>\<close>
  "find_entry P n None = preturn None"
| "find_entry P 0 (Some p) = stuck"
| "find_entry P (Suc n) (Some p) = pbind (entry (Some p)) (\<lambda>e. if P e then preturn (Some p) else find_entry P n (ce_next e))"

definition unlink_entry :: "nat option \<Rightarrow> ('d, unit) cached" where
  "unlink_entry p =
     pbind (entry p) (\<lambda>e. pbind (update_entry (ce_prev e) (\<lambda>r. r\<lparr>ce_next := ce_next e\<rparr>)) (\<lambda>_.
     pbind (entry p) (\<lambda>e. pbind (if ce_next e \<noteq> None then update_entry (ce_next e) (\<lambda>r. r\<lparr>ce_prev := ce_prev e\<rparr>) else preturn ()) (\<lambda>_.
     pbind the_cache (\<lambda>c. if sc_tail c = p then pbind (entry p) (\<lambda>e. set_cache (c\<lparr>sc_tail := ce_prev e\<rparr>)) else preturn ())))))"

definition move_to_head :: "nat option \<Rightarrow> ('d, unit) cached" where
  "move_to_head p = pbind the_cache (\<lambda>c. if sc_head c = p then preturn ()
     else pbind (unlink_entry p) (\<lambda>_. pbind the_cache (\<lambda>c.
       pbind (update_entry p (\<lambda>e. e\<lparr>ce_next := sc_head c, ce_prev := None\<rparr>)) (\<lambda>_.
       pbind (update_entry (sc_head c) (\<lambda>e. e\<lparr>ce_prev := p\<rparr>)) (\<lambda>_.
       set_cache (c\<lparr>sc_head := p\<rparr>))))))"

definition push_entry :: "string \<Rightarrow> nat \<Rightarrow> ('d, unit) cached" where
  \<comment> \<open>a new entry, in use, at the head\<close>
  "push_entry sql query = pbind the_cache (\<lambda>c s.
     let p = cs_fresh s;
       s = s\<lparr>cs_fresh := Suc p, cs_entries := (cs_entries s)(p \<mapsto>
         \<lparr>ce_sql = sql, ce_query = query, ce_next = sc_head c, ce_prev = None, ce_in_use = True\<rparr>)\<rparr>
     in pbind (if sc_head c \<noteq> None then update_entry (sc_head c) (\<lambda>e. e\<lparr>ce_prev := Some p\<rparr>)
               else set_cache (c\<lparr>sc_tail := Some p\<rparr>)) (\<lambda>_. pbind the_cache (\<lambda>c.
         set_cache (c\<lparr>sc_head := Some p, sc_count := sc_count c + 1\<rparr>))) s)"

definition evict_entry :: "'d driver_vtable \<Rightarrow> nat option \<Rightarrow> ('d, unit) cached" where
  \<comment> \<open>the body of the loop for the entry that goes; on an error the mutex has been unlocked\<close>
  "evict_entry vt p = pbind (unlink_entry p) (\<lambda>_. pbind (entry p) (\<lambda>e.
     pbind (attempt (drive (vt_finalize vt (ce_query e)))) (\<lambda>r.
     pbind (free_entry p) (\<lambda>_. pbind the_cache (\<lambda>c. pbind (set_cache (c\<lparr>sc_count := sc_count c - 1\<rparr>)) (\<lambda>_.
     case r of Inl rc \<Rightarrow> pbind C_ORM_MUTEX_UNLOCK (\<lambda>_. perr rc) | Inr _ \<Rightarrow> preturn ()))))))"

fun evict_from :: "'d driver_vtable \<Rightarrow> nat \<Rightarrow> nat option \<Rightarrow> ('d, unit) cached" where
  \<comment> \<open>the loop along \<open>prev\<close>: the first entry that is not in use goes\<close>
  "evict_from vt n None = preturn ()"
| "evict_from vt 0 (Some p) = stuck"
| "evict_from vt (Suc n) (Some p) = pbind (entry (Some p)) (\<lambda>e.
     if ce_in_use e then evict_from vt n (ce_prev e) else evict_entry vt (Some p))"

definition evict :: "'d driver_vtable \<Rightarrow> ('d, unit) cached" where
  "evict vt = pbind the_cache (\<lambda>c s. if sc_count c > sc_capacity c then evict_from vt (cs_fresh s) (sc_tail c) s else (Ret (), s))"

definition cache_new :: "'d driver_vtable \<Rightarrow> string \<Rightarrow> ('d, nat) cached" where
  \<comment> \<open>the statement is not there or in use: prepare it, and keep it when there is memory for that\<close>
  "cache_new vt sql = pbind (attempt (drive (vt_prepare vt sql))) (\<lambda>r. case r of
       Inl err \<Rightarrow> pbind C_ORM_MUTEX_UNLOCK (\<lambda>_. perr err)
     | Inr query \<Rightarrow> pbind cache_alloc (\<lambda>ok. if \<not> ok then pbind C_ORM_MUTEX_UNLOCK (\<lambda>_. preturn query)
         else pbind cache_alloc (\<lambda>ok2. if \<not> ok2 then pbind cache_free (\<lambda>_. pbind C_ORM_MUTEX_UNLOCK (\<lambda>_. preturn query))
         else pbind (push_entry sql query) (\<lambda>_. pbind (evict vt) (\<lambda>_. pbind C_ORM_MUTEX_UNLOCK (\<lambda>_. preturn query))))))"

definition c_orm_prepare_cached :: "'d driver_vtable \<Rightarrow> bool \<Rightarrow> cptr \<Rightarrow> bool \<Rightarrow> ('d, nat) cached" where
  "c_orm_prepare_cached vt db sql_arg out_query s =
     (case sql_arg of None \<Rightarrow> (Err C_ORM_ERROR_MEMORY, s) | Some sql \<Rightarrow>
        if \<not> db \<or> \<not> out_query then (Err C_ORM_ERROR_MEMORY, s)
        else if cs_cache s = None then drive (vt_prepare vt sql) s
        else pbind C_ORM_MUTEX_LOCK (\<lambda>_. pbind the_cache (\<lambda>c.
          pbind (find_entry (\<lambda>e. \<not> ce_in_use e \<and> ce_sql e = sql) (cs_fresh s) (sc_head c)) (\<lambda>p. case p of
              None \<Rightarrow> cache_new vt sql
            | Some _ \<Rightarrow> pbind (update_entry p (\<lambda>e. e\<lparr>ce_in_use := True\<rparr>)) (\<lambda>_. pbind (move_to_head p) (\<lambda>_.
                pbind (entry p) (\<lambda>e. pbind C_ORM_MUTEX_UNLOCK (\<lambda>_. pbind (drive (vt_reset vt (ce_query e))) (\<lambda>_. preturn (ce_query e))))))))) s)"

section \<open>Giving back\<close>

definition c_orm_finalize_cached :: "'d driver_vtable \<Rightarrow> bool \<Rightarrow> nat option \<Rightarrow> ('d, unit) cached" where
  "c_orm_finalize_cached vt db query_arg s =
     (case query_arg of None \<Rightarrow> (Err C_ORM_ERROR_MEMORY, s) | Some query \<Rightarrow>
        if \<not> db then (Err C_ORM_ERROR_MEMORY, s)
        else if cs_cache s = None then drive (vt_finalize vt query) s
        else pbind C_ORM_MUTEX_LOCK (\<lambda>_. pbind the_cache (\<lambda>c.
          pbind (find_entry (\<lambda>e. ce_query e = query) (cs_fresh s) (sc_head c)) (\<lambda>p. case p of
              None \<Rightarrow> pbind C_ORM_MUTEX_UNLOCK (\<lambda>_. drive (vt_finalize vt query))
            | Some _ \<Rightarrow> pbind (update_entry p (\<lambda>e. e\<lparr>ce_in_use := False\<rparr>)) (\<lambda>_. C_ORM_MUTEX_UNLOCK)))) s)"

section \<open>Runs\<close>

datatype cache_op = Enable nat | Disable | Prepare_cached string | Finalize_cached nat

datatype cache_result = Ok | Query nat

fun cache_exec :: "'d driver_vtable \<Rightarrow> cache_op \<Rightarrow> ('d, cache_result) cached" where
  "cache_exec vt (Enable n) = returning (\<lambda>_. Ok) (c_orm_enable_statement_caching True n)"
| "cache_exec vt Disable = returning (\<lambda>_. Ok) (c_orm_disable_statement_caching vt True)"
| "cache_exec vt (Prepare_cached sql) = returning Query (c_orm_prepare_cached vt True (Some sql) True)"
| "cache_exec vt (Finalize_cached q) = returning (\<lambda>_. Ok) (c_orm_finalize_cached vt True (Some q))"

end
