(* ===== verification/CacheSpec.thy ===== *)
theory CacheSpec
  imports StmtCache
begin

text \<open>
  What the statement cache promises, as an abstract machine: a list of statements, the most recently used one
  first. \<open>represents\<close> relates it to the linked entries, and the refinement is proved function by function.
\<close>

section \<open>The abstract machine\<close>

record lru_entry =
  le_sql :: string
  le_query :: nat
  le_used :: bool

datatype lru = Off | Dangling | On nat "lru_entry list"
  \<comment> \<open>\<open>Dangling\<close>: switching off failed after entries had been freed\<close>

record 'd lru_state =
  lr_driver :: 'd
  lr_cache :: lru
  lr_heap :: heap

type_synonym ('d, 'a) lru_act = "('d lru_state, 'a) act"

definition l_drive :: "('d, 'a) act \<Rightarrow> ('d, 'a) lru_act" where
  "l_drive m a = (case m (lr_driver a) of (r, d) \<Rightarrow> (r, a\<lparr>lr_driver := d\<rparr>))"

definition l_alloc :: "('d, bool) lru_act" where
  "l_alloc a = (case C_ORM_MALLOC (lr_heap a) of (ok, h) \<Rightarrow> (Ret ok, a\<lparr>lr_heap := h\<rparr>))"

definition l_free :: "('d, unit) lru_act" where
  "l_free a = (Ret (), a\<lparr>lr_heap := C_ORM_FREE (lr_heap a)\<rparr>)"

definition l_set :: "lru \<Rightarrow> ('d, unit) lru_act" where
  "l_set l a = (Ret (), a\<lparr>lr_cache := l\<rparr>)"

definition l_enable :: "nat \<Rightarrow> ('d, unit) lru_act" where
  "l_enable n a = (if lr_cache a \<noteq> Off then (Ret (), a)
     else pbind l_alloc (\<lambda>ok. if \<not> ok then perr C_ORM_ERROR_MEMORY
       else pbind l_alloc (\<lambda>ok2. if \<not> ok2 then pbind l_free (\<lambda>_. perr C_ORM_ERROR_MEMORY)
         else l_set (On (if n = 0 then 128 else n) []))) a)"

fun l_free_all :: "'d driver_vtable \<Rightarrow> lru_entry list \<Rightarrow> ('d, unit) lru_act" where
  "l_free_all vt [] = pbind l_free (\<lambda>_. pbind l_free (\<lambda>_. l_set Off))"
| "l_free_all vt (e # es) = pbind (l_drive (vt_finalize vt (le_query e))) (\<lambda>_.
     pbind l_free (\<lambda>_. pbind l_free (\<lambda>_. pbind (l_set Dangling) (\<lambda>_. l_free_all vt es))))"

definition l_disable :: "'d driver_vtable \<Rightarrow> ('d, unit) lru_act" where
  "l_disable vt a = (case lr_cache a of Off \<Rightarrow> (Ret (), a) | Dangling \<Rightarrow> (Stuck, a) | On cap es \<Rightarrow> l_free_all vt es a)"

definition l_evict :: "'d driver_vtable \<Rightarrow> nat \<Rightarrow> lru_entry list \<Rightarrow> ('d, unit) lru_act" where
  \<comment> \<open>the least recently used statement that nobody uses\<close>
  "l_evict vt cap es = (if length es \<le> cap then preturn () else
     case List.extract (\<lambda>e. \<not> le_used e) (rev es) of None \<Rightarrow> preturn ()
     | Some (fs, e, gs) \<Rightarrow> pbind (l_set (On cap (rev gs @ rev fs))) (\<lambda>_.
         pbind (attempt (l_drive (vt_finalize vt (le_query e)))) (\<lambda>r. pbind l_free (\<lambda>_. pbind l_free (\<lambda>_.
         case r of Inl rc \<Rightarrow> perr rc | Inr _ \<Rightarrow> preturn ())))))"

definition l_new :: "'d driver_vtable \<Rightarrow> string \<Rightarrow> nat \<Rightarrow> lru_entry list \<Rightarrow> ('d, nat) lru_act" where
  "l_new vt sql cap es = pbind (l_drive (vt_prepare vt sql)) (\<lambda>q.
     pbind l_alloc (\<lambda>ok. if \<not> ok then preturn q
     else pbind l_alloc (\<lambda>ok2. if \<not> ok2 then pbind l_free (\<lambda>_. preturn q)
     else (let es' = \<lparr>le_sql = sql, le_query = q, le_used = True\<rparr> # es
       in pbind (l_set (On cap es')) (\<lambda>_. pbind (l_evict vt cap es') (\<lambda>_. preturn q))))))"

definition l_prepare :: "'d driver_vtable \<Rightarrow> string \<Rightarrow> ('d, nat) lru_act" where
  "l_prepare vt sql a = (case lr_cache a of Off \<Rightarrow> l_drive (vt_prepare vt sql) a | Dangling \<Rightarrow> (Stuck, a)
     | On cap es \<Rightarrow> (case List.extract (\<lambda>e. \<not> le_used e \<and> le_sql e = sql) es of
         None \<Rightarrow> l_new vt sql cap es a
       | Some (es1, e, es2) \<Rightarrow> pbind (l_set (On cap (e\<lparr>le_used := True\<rparr> # es1 @ es2))) (\<lambda>_.
           pbind (l_drive (vt_reset vt (le_query e))) (\<lambda>_. preturn (le_query e))) a))"

definition l_finalize :: "'d driver_vtable \<Rightarrow> nat \<Rightarrow> ('d, unit) lru_act" where
  "l_finalize vt q a = (case lr_cache a of Off \<Rightarrow> l_drive (vt_finalize vt q) a | Dangling \<Rightarrow> (Stuck, a)
     | On cap es \<Rightarrow> (case List.extract (\<lambda>e. le_query e = q) es of
         None \<Rightarrow> l_drive (vt_finalize vt q) a
       | Some (es1, e, es2) \<Rightarrow> l_set (On cap (es1 @ e\<lparr>le_used := False\<rparr> # es2)) a))"

fun lru_exec :: "'d driver_vtable \<Rightarrow> cache_op \<Rightarrow> ('d, cache_result) lru_act" where
  "lru_exec vt (Enable n) = returning (\<lambda>_. Ok) (l_enable n)"
| "lru_exec vt Disable = returning (\<lambda>_. Ok) (l_disable vt)"
| "lru_exec vt (Prepare_cached sql) = returning Query (l_prepare vt sql)"
| "lru_exec vt (Finalize_cached q) = returning (\<lambda>_. Ok) (l_finalize vt q)"

section \<open>Linked lists\<close>

definition content :: "c_orm_stmt_entry_t \<Rightarrow> lru_entry" where
  "content c = \<lparr>le_sql = ce_sql c, le_query = ce_query c, le_used = ce_in_use c\<rparr>"

definition first :: "nat list \<Rightarrow> nat option \<Rightarrow> nat option" where
  "first ps nx = (case ps of [] \<Rightarrow> nx | p # _ \<Rightarrow> Some p)"

definition final :: "nat option \<Rightarrow> nat list \<Rightarrow> nat option" where
  "final pr ps = (if ps = [] then pr else Some (last ps))"

fun dll :: "(nat \<Rightarrow> c_orm_stmt_entry_t option) \<Rightarrow> nat option \<Rightarrow> nat list \<Rightarrow> lru_entry list \<Rightarrow> nat option \<Rightarrow> bool" where
  \<comment> \<open>the entries at \<open>ps\<close> hold \<open>es\<close> and are linked, between \<open>pr\<close> and \<open>nx\<close>\<close>
  "dll M pr [] [] nx \<longleftrightarrow> True"
| "dll M pr (p # ps) (e # es) nx \<longleftrightarrow>
     (\<exists>c. M p = Some c \<and> content c = e \<and> ce_prev c = pr \<and> ce_next c = first ps nx \<and> dll M (Some p) ps es nx)"
| "dll M pr _ _ nx \<longleftrightarrow> False"

lemma first_simps [simp]: "first [] nx = nx" "first (p # ps) nx = Some p" "first (ps @ qs) nx = first ps (first qs nx)"
  by (simp_all add: first_def split: list.splits)

lemma final_simps [simp]: "final pr [] = pr" "final pr (p # ps) = final (Some p) ps" "final pr (ps @ qs) = final (final pr ps) qs"
  by (auto simp: final_def)

lemma dll_length: "dll M pr ps es nx \<Longrightarrow> length ps = length es"
  by (induction M pr ps es nx rule: dll.induct) auto

lemma dll_append [simp]:
  "length ps = length es \<Longrightarrow> dll M pr (ps @ qs) (es @ fs) nx \<longleftrightarrow> dll M pr ps es (first qs nx) \<and> dll M (final pr ps) qs fs nx"
  by (induction ps es arbitrary: pr rule: list_induct2) auto

lemma dll_other [simp]: "p \<notin> set ps \<Longrightarrow> dll (M(p := x)) pr ps es nx = dll M pr ps es nx"
  by (induction M pr ps es nx rule: dll.induct) auto

lemma dll_nth: "dll M pr ps es nx \<Longrightarrow> p \<in> set ps \<Longrightarrow> \<exists>c. M p = Some c"
  by (induction M pr ps es nx rule: dll.induct) auto

lemma dll_split:
  assumes "dll M pr ps (es1 @ e # es2) nx"
  obtains ps1 p ps2 where "ps = ps1 @ p # ps2" and "length ps1 = length es1" and "length ps2 = length es2"
proof -
  have "length ps = length es1 + Suc (length es2)" using dll_length[OF assms] by simp
  then have "ps = take (length es1) ps @ ps ! length es1 # drop (Suc (length es1)) ps" "length (take (length es1) ps) = length es1"
    "length (drop (Suc (length es1)) ps) = length es2"
    by (simp_all add: id_take_nth_drop)
  then show ?thesis by (rule that)
qed

lemma dll_links:
  assumes "dll M pr (ps1 @ p # ps2) (es1 @ e # es2) nx" and "length ps1 = length es1"
  obtains c where "M p = Some c" and "content c = e" and "ce_prev c = final pr ps1" and "ce_next c = first ps2 nx"
    and "dll M pr ps1 es1 (Some p)" and "dll M (Some p) ps2 es2 nx"
  using assms by auto

lemma dll_relink_next:
  \<comment> \<open>another successor for the last entry\<close>
  assumes "dll M pr (ps @ [r]) (es @ [f]) nx" and "length ps = length es" and "r \<notin> set ps" and "M r = Some c"
  shows "dll (M(r \<mapsto> c\<lparr>ce_next := nx'\<rparr>)) pr (ps @ [r]) (es @ [f]) nx'"
  using assms by (simp add: content_def)

lemma dll_relink_prev:
  \<comment> \<open>another predecessor for the first entry\<close>
  assumes "dll M pr (q # ps) es nx" and "q \<notin> set ps" and "M q = Some c"
  shows "dll (M(q \<mapsto> c\<lparr>ce_prev := pr'\<rparr>)) pr' (q # ps) es nx"
  using assms by (cases es) (simp_all add: content_def)

definition holds :: "'d cache_state \<Rightarrow> bool \<Rightarrow> nat \<Rightarrow> nat \<Rightarrow> nat list \<Rightarrow> lru_entry list \<Rightarrow> bool" where
  \<comment> \<open>the cache is on, its mutex is locked or not, its list has the addresses \<open>ps\<close> and the contents \<open>es\<close>\<close>
  "holds s l cap k ps es \<longleftrightarrow>
     cs_cache s = Some \<lparr>sc_capacity = cap, sc_count = k, sc_head = first ps None, sc_tail = final None ps, sc_locked = l\<rparr>
     \<and> dll (cs_entries s) None ps es None \<and> distinct ps \<and> (\<forall>p \<in> set ps. p < cs_fresh s)"

lemma entry_at [simp]: "cs_entries s a = Some e \<Longrightarrow> entry (Some a) s = (Ret e, s)"
  by (simp add: entry_def)

lemma update_entry_at [simp]:
  "cs_entries s a = Some e \<Longrightarrow> update_entry (Some a) f s = (Ret (), s\<lparr>cs_entries := (cs_entries s)(a \<mapsto> f e)\<rparr>)"
  by (simp add: update_entry_def pbind_Ret)

lemma the_cache_at [simp]: "cs_cache s = Some c \<Longrightarrow> the_cache s = (Ret c, s)"
  by (simp add: the_cache_def)

section \<open>Locking and searching\<close>

lemma lock_run:
  "holds s False cap k ps es \<Longrightarrow> \<exists>c. C_ORM_MUTEX_LOCK s = (Ret (), s\<lparr>cs_cache := Some c\<rparr>) \<and> holds (s\<lparr>cs_cache := Some c\<rparr>) True cap k ps es"
  by (simp add: holds_def C_ORM_MUTEX_LOCK_def pbind_Ret set_cache_def)

lemma unlock_run:
  "holds s True cap k ps es \<Longrightarrow> \<exists>c. C_ORM_MUTEX_UNLOCK s = (Ret (), s\<lparr>cs_cache := Some c\<rparr>) \<and> holds (s\<lparr>cs_cache := Some c\<rparr>) False cap k ps es"
  by (simp add: holds_def C_ORM_MUTEX_UNLOCK_def pbind_Ret set_cache_def)

lemma find_run:
  assumes "dll (cs_entries s) pr ps es None" and "length ps \<le> n" and "\<And>c. P c \<longleftrightarrow> Q (content c)"
  shows "find_entry P n (first ps None) s =
    (case List.extract Q es of None \<Rightarrow> (Ret None, s) | Some (es1, e, es2) \<Rightarrow> (Ret (Some (ps ! length es1)), s))"
  using assms(1,2)
proof (induction ps arbitrary: pr es n)
  case Nil
  then show ?case by (cases es; cases n) (simp_all add: preturn_def extract_Nil_code)
next
  case (Cons p ps)
  then obtain e es' m where es: "es = e # es'" and n: "n = Suc m" by (cases es; cases n) auto
  with Cons.prems obtain c where c: "cs_entries s p = Some c" "content c = e" "ce_next c = first ps None" "dll (cs_entries s) (Some p) ps es' None"
    by auto
  have IH: "find_entry P m (first ps None) s = (case List.extract Q es' of None \<Rightarrow> (Ret None, s) | Some (es1, e, es2) \<Rightarrow> (Ret (Some (ps ! length es1)), s))"
    using Cons.IH[OF c(4), of m] Cons.prems(2) n by simp
  show ?case
    using assms(3)[of c] c IH by (auto simp: es n pbind_Ret preturn_def extract_Cons_code split: option.splits)
qed

lemma distinct_bound: "distinct ps \<Longrightarrow> (\<forall>p \<in> set ps. p < (n::nat)) \<Longrightarrow> length ps \<le> n"
  using card_mono[of "{..<n}" "set ps"] by (auto simp: distinct_card)

section \<open>Relinking\<close>

lemma unlink_run:
  assumes h: "holds s l cap k ((qs @ [r]) @ p # ps2) ((fs @ [f]) @ e # es2)" and len: "length qs = length fs"
  shows "\<exists>M c x. unlink_entry (Some p) s = (Ret (), s\<lparr>cs_entries := M, cs_cache := Some c\<rparr>)
    \<and> holds (s\<lparr>cs_entries := M, cs_cache := Some c\<rparr>) l cap k ((qs @ [r]) @ ps2) ((fs @ [f]) @ es2)
    \<and> M p = Some x \<and> content x = e"
proof -
  let ?M = "cs_entries s"
  have dist: "distinct ((qs @ [r]) @ p # ps2)" and fresh: "\<forall>a \<in> set ((qs @ [r]) @ p # ps2). a < cs_fresh s"
    and cache: "cs_cache s = Some \<lparr>sc_capacity = cap, sc_count = k, sc_head = first ((qs @ [r]) @ p # ps2) None,
      sc_tail = final None ((qs @ [r]) @ p # ps2), sc_locked = l\<rparr>"
    using h by (auto simp: holds_def)
  obtain cp where cp: "?M p = Some cp" "content cp = e" "ce_prev cp = Some r" "ce_next cp = first ps2 None"
    and d1: "dll ?M None (qs @ [r]) (fs @ [f]) (Some p)" and d2: "dll ?M (Some p) ps2 es2 None"
    using h len by (auto simp: holds_def)
  obtain cr where cr: "?M r = Some cr" using d1 len by auto
  define M1 where "M1 = ?M(r \<mapsto> cr\<lparr>ce_next := first ps2 None\<rparr>)"
  have m1: "dll M1 None (qs @ [r]) (fs @ [f]) (first ps2 None)"
    unfolding M1_def by (rule dll_relink_next[OF d1 len _ cr]) (use dist in auto)
  have m1b: "dll M1 (Some p) ps2 es2 None" "M1 p = Some cp" using d2 dist cp by (auto simp: M1_def)
  define s1 where "s1 = s\<lparr>cs_entries := M1\<rparr>"
  obtain M2 where M2: "(if ce_next cp \<noteq> None then update_entry (ce_next cp) (\<lambda>r. r\<lparr>ce_prev := ce_prev cp\<rparr>) else preturn ()) s1
      = (Ret (), s\<lparr>cs_entries := M2\<rparr>)" "dll M2 None (qs @ [r]) (fs @ [f]) (first ps2 None)" "dll M2 (Some r) ps2 es2 None" "M2 p = Some cp"
  proof (cases ps2)
    case Nil
    then show ?thesis using m1 m1b cp(4) that[of M1] by (cases es2) (simp_all add: preturn_def s1_def)
  next
    case (Cons q ps)
    obtain cq where cq: "M1 q = Some cq" using dll_nth[OF m1b(1), of q] Cons by auto
    have "dll (M1(q \<mapsto> cq\<lparr>ce_prev := Some r\<rparr>)) (Some r) ps2 es2 None"
      using dll_relink_prev[OF m1b(1)[unfolded Cons] _ cq, of "Some r"] dist by (simp add: Cons)
    moreover have "q \<noteq> p" "q \<notin> set (qs @ [r])" using dist Cons by auto
    ultimately show ?thesis
      using m1 m1b(2) cp(3,4) cq by (intro that[of "M1(q \<mapsto> cq\<lparr>ce_prev := Some r\<rparr>)"]) (simp_all add: s1_def Cons)
  qed
  define c where "c = \<lparr>sc_capacity = cap, sc_count = k, sc_head = first ((qs @ [r]) @ ps2) None, sc_tail = final None ((qs @ [r]) @ ps2), sc_locked = l\<rparr>"
  have up: "update_entry (ce_prev cp) (\<lambda>r. r\<lparr>ce_next := ce_next cp\<rparr>) s = (Ret (), s1)"
    using cr by (simp add: cp(3,4) s1_def M1_def)
  have e1: "entry (Some p) s1 = (Ret cp, s1)" using m1b(2) by (simp add: s1_def)
  have tail: "sc_tail (the (cs_cache s)) = Some p \<longleftrightarrow> ps2 = []"
    using dist by (auto simp: cache final_def)
  have rest: "unlink_entry (Some p) s = pbind the_cache (\<lambda>c. if sc_tail c = Some p
      then pbind (entry (Some p)) (\<lambda>e. set_cache (c\<lparr>sc_tail := ce_prev e\<rparr>)) else preturn ()) (s\<lparr>cs_entries := M2\<rparr>)"
    unfolding unlink_entry_def pbind_Ret[where m = "entry (Some p)" and s = s, OF entry_at[OF cp(1)]]
      pbind_Ret[where m = "update_entry (ce_prev cp) (\<lambda>r. r\<lparr>ce_next := ce_next cp\<rparr>)" and s = s, OF up]
      pbind_Ret[where m = "entry (Some p)" and s = s1, OF e1]
      pbind_Ret[where m = "if ce_next cp \<noteq> None then update_entry (ce_next cp) (\<lambda>r. r\<lparr>ce_prev := ce_prev cp\<rparr>) else preturn ()" and s = s1, OF M2(1)]
    by (rule refl)
  have run: "unlink_entry (Some p) s = (Ret (), s\<lparr>cs_entries := M2, cs_cache := Some c\<rparr>)"
  proof (cases "ps2 = []")
    case True
    then show ?thesis
      using cache M2(4) unfolding rest by (simp add: pbind_Ret set_cache_def cp(3) c_def)
  next
    case False
    then have "first ps2 nx = first ps2 None" "final (Some p) ps2 = final pr ps2" "final (Some p) ps2 \<noteq> Some p" for nx pr
      using dist by (auto simp: first_def final_def split: list.splits dest: last_in_set)
    with False show ?thesis
      using cache M2(4) unfolding rest by (simp add: pbind_Ret preturn_def c_def)
  qed
  have "holds (s\<lparr>cs_entries := M2, cs_cache := Some c\<rparr>) l cap k ((qs @ [r]) @ ps2) ((fs @ [f]) @ es2)"
    using M2(2,3) dist fresh len by (auto simp: holds_def c_def)
  with run M2(4) cp(2) show ?thesis by blast
qed

lemma move_run:
  assumes h: "holds s l cap k (ps1 @ p # ps2) (es1 @ e # es2)" and len: "length ps1 = length es1"
  shows "\<exists>M c. move_to_head (Some p) s = (Ret (), s\<lparr>cs_entries := M, cs_cache := Some c\<rparr>)
    \<and> holds (s\<lparr>cs_entries := M, cs_cache := Some c\<rparr>) l cap k (p # ps1 @ ps2) (e # es1 @ es2)"
proof (cases ps1 rule: rev_cases)
  case Nil
  with h len show ?thesis
    by (intro exI[of _ "cs_entries s"] exI[of _ "the (cs_cache s)"]) (simp add: holds_def move_to_head_def pbind_Ret preturn_def)
next
  case (snoc qs r)
  then obtain fs f where es1: "es1 = fs @ [f]" using len by (cases es1 rule: rev_cases) auto
  have len': "length qs = length fs" using len snoc es1 by simp
  obtain M1 c1 x where un: "unlink_entry (Some p) s = (Ret (), s\<lparr>cs_entries := M1, cs_cache := Some c1\<rparr>)"
    and h1: "holds (s\<lparr>cs_entries := M1, cs_cache := Some c1\<rparr>) l cap k ((qs @ [r]) @ ps2) ((fs @ [f]) @ es2)"
    and x: "M1 p = Some x" "content x = e"
    using unlink_run[OF h[unfolded snoc es1] len'] by blast
  obtain a rest where ls: "(qs @ [r]) @ ps2 = a # rest" by (cases "(qs @ [r]) @ ps2") auto
  have d: "dll M1 None (a # rest) ((fs @ [f]) @ es2) None" and dist: "distinct (a # rest)"
    and c1: "c1 = \<lparr>sc_capacity = cap, sc_count = k, sc_head = Some a, sc_tail = final (Some a) rest, sc_locked = l\<rparr>"
    using h1 unfolding holds_def ls by simp_all
  have p: "p \<notin> set (a # rest)" "sc_head (the (cs_cache s)) \<noteq> Some p" "p < cs_fresh s" "\<forall>q \<in> set (a # rest). q < cs_fresh s"
    using h ls unfolding holds_def snoc by (cases qs; auto)+
  obtain ca where ca: "M1 a = Some ca" using dll_nth[OF d] by auto
  define M2 where "M2 = M1(p \<mapsto> x\<lparr>ce_next := Some a, ce_prev := None\<rparr>, a \<mapsto> ca\<lparr>ce_prev := Some p\<rparr>)"
  define c where "c = c1\<lparr>sc_head := Some p\<rparr>"
  have run: "move_to_head (Some p) s = (Ret (), s\<lparr>cs_entries := M2, cs_cache := Some c\<rparr>)"
    using h p(1,2) x(1) ca unfolding move_to_head_def holds_def
    by (simp add: pbind_Ret un set_cache_def c_def M2_def) (simp add: c1 pbind_Ret set_cache_def)
  have "dll (M1(a \<mapsto> ca\<lparr>ce_prev := Some p\<rparr>)) (Some p) (a # rest) ((fs @ [f]) @ es2) None"
    using d dist ca by (intro dll_relink_prev[where M = M1 and pr = None]) auto
  moreover have "M2 = (M1(a \<mapsto> ca\<lparr>ce_prev := Some p\<rparr>))(p \<mapsto> x\<lparr>ce_next := Some a, ce_prev := None\<rparr>)"
    using p(1) by (auto simp: M2_def)
  ultimately have "dll M2 None (p # a # rest) (e # (fs @ [f]) @ es2) None"
    using p(1) x(2) by (simp add: content_def)
  then have "holds (s\<lparr>cs_entries := M2, cs_cache := Some c\<rparr>) l cap k (p # a # rest) (e # (fs @ [f]) @ es2)"
    using dist p by (simp add: holds_def c_def c1)
  with run ls show ?thesis unfolding snoc es1 by auto
qed

lemma push_run:
  assumes h: "holds s l cap k ps es"
  shows "\<exists>M c. push_entry sql q s = (Ret (), s\<lparr>cs_entries := M, cs_cache := Some c, cs_fresh := Suc (cs_fresh s)\<rparr>)
    \<and> holds (s\<lparr>cs_entries := M, cs_cache := Some c, cs_fresh := Suc (cs_fresh s)\<rparr>) l cap (k + 1) (cs_fresh s # ps)
        (\<lparr>le_sql = sql, le_query = q, le_used = True\<rparr> # es)"
proof -
  define p where "p = cs_fresh s"
  define x where "x = \<lparr>ce_sql = sql, ce_query = q, ce_next = first ps None, ce_prev = None, ce_in_use = True\<rparr>"
  have c: "cs_cache s = Some \<lparr>sc_capacity = cap, sc_count = k, sc_head = first ps None, sc_tail = final None ps, sc_locked = l\<rparr>"
    and d: "dll (cs_entries s) None ps es None" and ps: "distinct ps" "\<forall>a \<in> set ps. a < p" "p \<notin> set ps"
    using h by (auto simp: holds_def p_def)
  show ?thesis
  proof (cases ps)
    case Nil
    have "push_entry sql q s = (Ret (), s\<lparr>cs_entries := (cs_entries s)(p \<mapsto> x), cs_cache := Some \<lparr>sc_capacity = cap, sc_count = k + 1,
        sc_head = Some p, sc_tail = Some p, sc_locked = l\<rparr>, cs_fresh := Suc (cs_fresh s)\<rparr>)"
      unfolding push_entry_def using c by (simp add: pbind_Ret Nil Let_def set_cache_def p_def x_def)
    then show ?thesis using d by (cases es) (auto simp: holds_def Nil p_def[symmetric] x_def content_def)
  next
    case (Cons a rest)
    obtain ca where ca: "cs_entries s a = Some ca" using dll_nth[OF d] Cons by auto
    define M where "M = (cs_entries s)(p \<mapsto> x, a \<mapsto> ca\<lparr>ce_prev := Some p\<rparr>)"
    have pa: "a \<noteq> p" using ps(3) Cons by auto
    have run: "push_entry sql q s = (Ret (), s\<lparr>cs_entries := M, cs_cache := Some \<lparr>sc_capacity = cap, sc_count = k + 1,
        sc_head = Some p, sc_tail = final None ps, sc_locked = l\<rparr>, cs_fresh := Suc (cs_fresh s)\<rparr>)"
      unfolding push_entry_def using c pa ca by (simp add: pbind_Ret Cons Let_def set_cache_def p_def x_def M_def)
    have "dll ((cs_entries s)(a \<mapsto> ca\<lparr>ce_prev := Some p\<rparr>)) (Some p) (a # rest) es None"
      using d ps(1) Cons ca by (intro dll_relink_prev[where M = "cs_entries s" and pr = None]) auto
    moreover have "M = ((cs_entries s)(a \<mapsto> ca\<lparr>ce_prev := Some p\<rparr>))(p \<mapsto> x)" using pa by (auto simp: M_def)
    ultimately have "dll M None (p # ps) (\<lparr>le_sql = sql, le_query = q, le_used = True\<rparr> # es) None"
      using ps(3) by (simp add: x_def content_def Cons)
    then have "holds (s\<lparr>cs_entries := M, cs_cache := Some \<lparr>sc_capacity = cap, sc_count = k + 1, sc_head = Some p, sc_tail = final None ps, sc_locked = l\<rparr>,
        cs_fresh := Suc (cs_fresh s)\<rparr>) l cap (k + 1) (p # ps) (\<lparr>le_sql = sql, le_query = q, le_used = True\<rparr> # es)"
      using ps unfolding holds_def by (auto simp: p_def[symmetric] Cons)
    with run show ?thesis unfolding p_def by blast
  qed
qed

section \<open>Evicting\<close>

lemma extract_rev_SomeE:
  assumes "List.extract P (rev es) = Some (fs, e, gs)"
  shows "es = rev gs @ e # rev fs" and "P e" and "\<forall>f \<in> set fs. \<not> P f"
proof -
  have r: "rev es = fs @ e # gs" "P e" "\<forall>f \<in> set fs. \<not> P f" using extract_SomeE[OF assms] by auto
  then show "P e" "\<forall>f \<in> set fs. \<not> P f" by auto
  show "es = rev gs @ e # rev fs" using arg_cong[OF r(1), of rev] by simp
qed

lemma evict_from_run:
  \<comment> \<open>the walk from the end of a prefix of the list\<close>
  assumes "dll (cs_entries s) None ps es nx" and "length ps \<le> n"
  shows "evict_from vt n (final None ps) s =
    (case List.extract (\<lambda>e. \<not> le_used e) (rev es) of None \<Rightarrow> (Ret (), s) | Some (fs, e, gs) \<Rightarrow> evict_entry vt (Some (ps ! length gs)) s)"
  using assms
proof (induction ps arbitrary: es n nx rule: rev_induct)
  case Nil
  then show ?case by (cases es; cases n) (simp_all add: preturn_def extract_Nil_code)
next
  case (snoc p ps)
  then obtain es' e m where es: "es = es' @ [e]" and n: "n = Suc m" and len: "length ps = length es'"
    using dll_length[OF snoc.prems(1)] by (cases es rule: rev_cases; cases n) auto
  obtain c where c: "cs_entries s p = Some c" "content c = e" "ce_prev c = final None ps" and d: "dll (cs_entries s) None ps es' (Some p)"
    using snoc.prems(1) len unfolding es by auto
  have used: "ce_in_use c = le_used e" using c(2) by (auto simp: content_def)
  have IH: "evict_from vt m (final None ps) s = (case List.extract (\<lambda>e. \<not> le_used e) (rev es') of None \<Rightarrow> (Ret (), s)
      | Some (fs, e, gs) \<Rightarrow> evict_entry vt (Some (ps ! length gs)) s)"
    using snoc.IH[OF d, of m] snoc.prems(2) n by simp
  show ?case
  proof (cases "le_used e")
    case True
    have "(ps @ [p]) ! length gs = ps ! length gs" if "List.extract (\<lambda>e. \<not> le_used e) (rev es') = Some (fs, f, gs)" for fs f gs
      using extract_rev_SomeE(1)[OF that] len by (simp add: nth_append)
    with True IH show ?thesis
      by (auto simp: n es pbind_Ret c used extract_Cons_code split: option.splits)
  next
    case False
    then show ?thesis by (simp add: n es pbind_Ret c used extract_Cons_code len[symmetric])
  qed
qed

lemma free_entry_run:
  "cs_entries s p = Some x \<Longrightarrow>
     free_entry (Some p) s = (Ret (), s\<lparr>cs_entries := (cs_entries s)(p := None), cs_heap := C_ORM_FREE (C_ORM_FREE (cs_heap s))\<rparr>)"
  by (simp add: free_entry_def pbind_Ret cache_free_def)

lemma evict_entry_run:
  assumes h: "holds s True cap (Suc k) ((qs @ [r]) @ p # ps2) ((fs @ [f]) @ e # es2)" and len: "length qs = length fs"
    and fin: "vt_finalize vt (le_query e) (cs_driver s) = (res, d)"
  shows "case res of
      Ret _ \<Rightarrow> \<exists>t. evict_entry vt (Some p) s = (Ret (), t) \<and> holds t True cap k ((qs @ [r]) @ ps2) ((fs @ [f]) @ es2)
        \<and> cs_driver t = d \<and> cs_heap t = C_ORM_FREE (C_ORM_FREE (cs_heap s))
    | Err rc \<Rightarrow> \<exists>t. evict_entry vt (Some p) s = (Err rc, t) \<and> holds t False cap k ((qs @ [r]) @ ps2) ((fs @ [f]) @ es2)
        \<and> cs_driver t = d \<and> cs_heap t = C_ORM_FREE (C_ORM_FREE (cs_heap s))
    | Stuck \<Rightarrow> \<exists>t. evict_entry vt (Some p) s = (Stuck, t)"
proof -
  obtain M1 c1 x where un: "unlink_entry (Some p) s = (Ret (), s\<lparr>cs_entries := M1, cs_cache := Some c1\<rparr>)"
    and h1: "holds (s\<lparr>cs_entries := M1, cs_cache := Some c1\<rparr>) True cap (Suc k) ((qs @ [r]) @ ps2) ((fs @ [f]) @ es2)"
    and x: "M1 p = Some x" "content x = e"
    using unlink_run[OF h len] by blast
  have q: "ce_query x = le_query e" using x(2) by (auto simp: content_def)
  have c1: "sc_count c1 = Suc k" "sc_locked c1" using h1 by (auto simp: holds_def)
  have p: "p \<notin> set ((qs @ [r]) @ ps2)" using h by (auto simp: holds_def)
  define H where "H = C_ORM_FREE (C_ORM_FREE (cs_heap s))"
  have keep: "holds t l cap k ((qs @ [r]) @ ps2) ((fs @ [f]) @ es2)"
    if "cs_cache t = Some (c1\<lparr>sc_count := k, sc_locked := l\<rparr>)" "cs_entries t = M1(p := None)" "cs_fresh t = cs_fresh s" for t :: "'a cache_state" and l
    using h1 p that unfolding holds_def by auto
  have c1': "c1\<lparr>sc_count := k\<rparr> = c1\<lparr>sc_count := k, sc_locked := True\<rparr>" using c1(2) by (cases c1) simp
  have run: "evict_entry vt (Some p) s = pbind (attempt (drive (vt_finalize vt (le_query e)))) (\<lambda>r.
     pbind (free_entry (Some p)) (\<lambda>_. pbind the_cache (\<lambda>c. pbind (set_cache (c\<lparr>sc_count := sc_count c - 1\<rparr>)) (\<lambda>_.
     case r of Inl rc \<Rightarrow> pbind C_ORM_MUTEX_UNLOCK (\<lambda>_. perr rc) | Inr _ \<Rightarrow> preturn ())))) (s\<lparr>cs_entries := M1, cs_cache := Some c1\<rparr>)"
    using x by (simp add: evict_entry_def pbind_Ret[where s = s] pbind_Ret[where m = "entry (Some p)"] un q)
  show ?thesis
  proof (cases res)
    case (Ret u)
    have "evict_entry vt (Some p) s = (Ret (), s\<lparr>cs_entries := M1(p := None), cs_cache := Some (c1\<lparr>sc_count := k, sc_locked := True\<rparr>), cs_driver := d, cs_heap := H\<rparr>)"
      unfolding run c1'[symmetric] using x(1) fin c1(1)
      by (simp add: pbind_Ret attempt_def drive_def Ret free_entry_run set_cache_def preturn_def H_def)
    with Ret show ?thesis by (simp add: keep[simplified] H_def)
  next
    case (Err rc)
    have "evict_entry vt (Some p) s = (Err rc, s\<lparr>cs_entries := M1(p := None), cs_cache := Some (c1\<lparr>sc_count := k, sc_locked := False\<rparr>), cs_driver := d, cs_heap := H\<rparr>)"
      unfolding run using x(1) fin c1
      by (simp add: pbind_Ret attempt_def drive_def Err free_entry_run set_cache_def perr_def C_ORM_MUTEX_UNLOCK_def H_def)
    with Err show ?thesis by (simp add: keep[simplified] H_def)
  next
    case Stuck
    then show ?thesis unfolding run by (simp add: pbind_def attempt_def drive_def fin)
  qed
qed

end
