(* ===== verification/CacheRefine.thy ===== *)
theory CacheRefine
  imports CacheSpec
begin

text \<open>
  The refinement of the statement cache: every function has the outcome of the abstract machine of \<open>CacheSpec\<close>,
  for every driver and every behaviour of the allocator.
\<close>

definition represents :: "'d cache_state \<Rightarrow> 'd lru_state \<Rightarrow> bool" where
  "represents s a \<longleftrightarrow> cs_driver s = lr_driver a \<and> cs_heap s = lr_heap a \<and> (case lr_cache a of
       Off \<Rightarrow> cs_cache s = None
     | Dangling \<Rightarrow> \<exists>c p. cs_cache s = Some c \<and> \<not> sc_locked c \<and> sc_head c = Some p \<and> cs_entries s p = None
     | On cap es \<Rightarrow> \<exists>ps. holds s False cap (length es) ps es)"

definition follows :: "'a outcome \<times> 'd cache_state \<Rightarrow> 'a outcome \<times> 'd lru_state \<Rightarrow> bool" where
  "follows x y \<longleftrightarrow> fst x = fst y \<and> (fst x \<noteq> Stuck \<longrightarrow> represents (snd x) (snd y))"

lemma follows_returning: "follows (m s) (n a) \<Longrightarrow> follows (returning f m s) (returning f n a)"
  by (cases "fst (n a)") (auto simp: follows_def returning_def pbind_def preturn_def split: prod.splits outcome.splits)

lemma drive_follows:
  "represents s a \<Longrightarrow> lr_cache a = Off \<Longrightarrow> follows (drive m s) (l_drive m a)"
  by (auto simp: follows_def drive_def l_drive_def represents_def split: prod.splits)

lemma holds_cache: "holds s l cap k ps es \<Longrightarrow> cs_cache s \<noteq> None"
  by (auto simp: holds_def)

lemma holds_other:
  "holds s l cap k ps es \<Longrightarrow> cs_cache t = cs_cache s \<Longrightarrow> cs_entries t = cs_entries s \<Longrightarrow> cs_fresh t = cs_fresh s \<Longrightarrow> holds t l cap k ps es"
  by (simp add: holds_def)

lemma holds_fuel: "holds s l cap k ps es \<Longrightarrow> length ps \<le> cs_fresh s"
  by (auto simp: holds_def intro: distinct_bound)

lemma represents_On:
  "holds s False cap (length es) ps es \<Longrightarrow> cs_driver s = lr_driver a \<Longrightarrow> cs_heap s = lr_heap a \<Longrightarrow> lr_cache a = On cap es \<Longrightarrow> represents s a"
  by (auto simp: represents_def)

lemma enable_follows:
  assumes "represents s a"
  shows "follows (c_orm_enable_statement_caching True n s) (l_enable n a)"
proof (cases "lr_cache a")
  case Off
  obtain ok h where 1: "C_ORM_MALLOC (lr_heap a) = (ok, h)" by (cases "C_ORM_MALLOC (lr_heap a)")
  obtain ok2 h2 where 2: "C_ORM_MALLOC h = (ok2, h2)" by (cases "C_ORM_MALLOC h")
  show ?thesis
    using assms Off
    by (cases ok; cases ok2) (auto simp: c_orm_enable_statement_caching_def l_enable_def represents_def follows_def pbind_def cache_alloc_def l_alloc_def
        cache_free_def l_free_def 1 2 perr_def set_cache_def l_set_def holds_def intro!: exI[of _ "[]"])
next
  case Dangling
  with assms show ?thesis by (auto simp: c_orm_enable_statement_caching_def l_enable_def follows_def represents_def)
next
  case (On cap es)
  with assms show ?thesis by (auto simp: c_orm_enable_statement_caching_def l_enable_def follows_def represents_def holds_def)
qed

section \<open>Switching off\<close>

definition freeing :: "'d cache_state \<Rightarrow> 'd lru_state \<Rightarrow> nat list \<Rightarrow> lru_entry list \<Rightarrow> bool" where
  \<comment> \<open>before the first entry is freed, or after it\<close>
  "freeing s a ps es \<longleftrightarrow> cs_driver s = lr_driver a \<and> cs_heap s = lr_heap a \<and>
     ((\<exists>cap. lr_cache a = On cap es \<and> holds s True cap (length es) ps es) \<or>
      (lr_cache a = Dangling \<and> (\<exists>c p. cs_cache s = Some c \<and> sc_locked c \<and> sc_head c = Some p \<and> cs_entries s p = None)))"

lemma free_entries_follows:
  "freeing s a ps es \<Longrightarrow> dll (cs_entries s) pr ps es None \<Longrightarrow> distinct ps \<Longrightarrow> length ps \<le> n \<Longrightarrow>
    follows (pbind (free_entries vt n (first ps None)) (\<lambda>_. pbind C_ORM_MUTEX_UNLOCK (\<lambda>_. pbind cache_free (\<lambda>_. pbind cache_free
      (\<lambda>_ t. (Ret (), t\<lparr>cs_cache := None\<rparr>))))) s) (l_free_all vt es a)"
proof (induction es arbitrary: s a ps pr n)
  case Nil
  then have ps: "ps = []" by (cases ps) auto
  obtain c where c: "cs_cache s = Some c" "sc_locked c" using Nil.prems(1) by (auto simp: freeing_def holds_def)
  show ?case
    using Nil.prems(1) c by (cases n) (simp_all add: ps pbind_Ret C_ORM_MUTEX_UNLOCK_def set_cache_def cache_free_def l_free_def l_set_def
        follows_def represents_def freeing_def preturn_def)
next
  case (Cons e es)
  obtain p ps' m where ps: "ps = p # ps'" and n: "n = Suc m" using Cons.prems(2,4) by (cases ps; cases n) auto
  obtain x where x: "cs_entries s p = Some x" "content x = e" "ce_next x = first ps' None" "dll (cs_entries s) (Some p) ps' es None"
    using Cons.prems(2) by (auto simp: ps)
  have q: "ce_query x = le_query e" using x(2) by (auto simp: content_def)
  have drv: "cs_driver s = lr_driver a" "cs_heap s = lr_heap a" using Cons.prems(1) by (simp_all add: freeing_def)
  obtain c where c: "cs_cache s = Some c" "sc_locked c" using Cons.prems(1) by (auto simp: freeing_def holds_def)
  obtain r d where r: "vt_finalize vt (le_query e) (lr_driver a) = (r, d)" by (cases "vt_finalize vt (le_query e) (lr_driver a)")
  show ?case
  proof (cases r)
    case (Ret u)
    define s' where "s' = s\<lparr>cs_driver := d, cs_entries := (cs_entries s)(p := None), cs_heap := C_ORM_FREE (C_ORM_FREE (cs_heap s))\<rparr>"
    define a' where "a' = a\<lparr>lr_driver := d, lr_heap := C_ORM_FREE (C_ORM_FREE (lr_heap a)), lr_cache := Dangling\<rparr>"
    have "free_entries vt n (first ps None) s = free_entries vt m (first ps' None) s'"
      using x(1) by (simp add: ps n pbind_Ret attempt_def drive_def q r drv Ret free_entry_run x(3) s'_def)
    then have run: "pbind (free_entries vt n (first ps None)) k s = pbind (free_entries vt m (first ps' None)) k s'" for k :: "unit \<Rightarrow> ('a, unit) cached"
      by (simp add: pbind_def)
    have arun: "l_free_all vt (e # es) a = l_free_all vt es a'"
      by (simp add: pbind_Ret l_drive_def r Ret l_free_def l_set_def a'_def)
    have "\<exists>c p. cs_cache s' = Some c \<and> sc_locked c \<and> sc_head c = Some p \<and> cs_entries s' p = None"
      using Cons.prems(1) ps by (auto simp: freeing_def holds_def s'_def)
    then have "freeing s' a' ps' es" using drv by (auto simp: freeing_def s'_def a'_def)
    moreover have "dll (cs_entries s') (Some p) ps' es None"
      unfolding s'_def using x(4) Cons.prems(3) by (simp add: ps del: fun_upd_apply)
    ultimately show ?thesis
      unfolding run arun using Cons.prems(3,4) by (intro Cons.IH[where pr = "Some p"]) (simp_all add: ps n)
  next
    case (Err rc)
    have "holds (s\<lparr>cs_driver := d, cs_cache := Some (c\<lparr>sc_locked := False\<rparr>)\<rparr>) False cap k ps es" if "holds s True cap k ps es" for cap k es
      using that c(1) unfolding holds_def by auto
    then show ?thesis
      using Cons.prems(1) c x(1)
      by (auto simp: ps n pbind_def attempt_def drive_def q r drv Err C_ORM_MUTEX_UNLOCK_def set_cache_def perr_def l_drive_def follows_def
          represents_def freeing_def) blast
  next
    case Stuck
    then show ?thesis
      using x(1) by (simp add: ps n pbind_def attempt_def drive_def q r drv l_drive_def follows_def)
  qed
qed

lemma disable_follows:
  assumes "represents s a"
  shows "follows (c_orm_disable_statement_caching vt True s) (l_disable vt a)"
proof (cases "lr_cache a")
  case Off
  with assms show ?thesis by (auto simp: c_orm_disable_statement_caching_def l_disable_def follows_def represents_def)
next
  case Dangling
  then obtain c p where c: "cs_cache s = Some c" "\<not> sc_locked c" "sc_head c = Some p" "cs_entries s p = None"
    using assms by (auto simp: represents_def)
  have "fst (free_entries vt n (Some p) t) = Stuck" if "cs_entries t p = None" for n t
    using that by (cases n) (simp_all add: stuck_def pbind_def entry_def)
  then have "fst (pbind (free_entries vt n (Some p)) k t) = Stuck" if "cs_entries t p = None"
    for n t and k :: "unit \<Rightarrow> ('a, unit) cached"
    using that by (auto simp: pbind_def split: prod.splits outcome.splits) (metis fst_conv outcome.distinct)+
  with c Dangling show ?thesis
    by (simp add: c_orm_disable_statement_caching_def l_disable_def follows_def C_ORM_MUTEX_LOCK_def pbind_Ret set_cache_def)
next
  case (On cap es)
  then obtain ps where h: "holds s False cap (length es) ps es" and drv: "cs_driver s = lr_driver a" "cs_heap s = lr_heap a"
    using assms by (auto simp: represents_def)
  obtain c where lock: "C_ORM_MUTEX_LOCK s = (Ret (), s\<lparr>cs_cache := Some c\<rparr>)" and h1: "holds (s\<lparr>cs_cache := Some c\<rparr>) True cap (length es) ps es"
    using lock_run[OF h] by blast
  have c: "sc_head c = first ps None" using h1 by (auto simp: holds_def)
  have "c_orm_disable_statement_caching vt True s = pbind (free_entries vt (cs_fresh s) (first ps None)) (\<lambda>_. pbind C_ORM_MUTEX_UNLOCK
      (\<lambda>_. pbind cache_free (\<lambda>_. pbind cache_free (\<lambda>_ t. (Ret (), t\<lparr>cs_cache := None\<rparr>))))) (s\<lparr>cs_cache := Some c\<rparr>)"
    using holds_cache[OF h] by (auto simp: c_orm_disable_statement_caching_def pbind_Ret lock c)
  moreover have "freeing (s\<lparr>cs_cache := Some c\<rparr>) a ps es" using h1 drv On by (simp add: freeing_def)
  ultimately show ?thesis
    using free_entries_follows[of "s\<lparr>cs_cache := Some c\<rparr>" a ps es None "cs_fresh s" vt] h1 holds_fuel[OF h]
    by (simp add: l_disable_def On holds_def)
qed

section \<open>Preparing\<close>

lemma attempt_drive:
  "vt d = (r, d') \<Longrightarrow> cs_driver s = d \<Longrightarrow> attempt (drive vt) s = (case r of Ret x \<Rightarrow> Ret (Inr x) | Err e \<Rightarrow> Ret (Inl e) | Stuck \<Rightarrow> Stuck, s\<lparr>cs_driver := d'\<rparr>)"
  by (simp add: attempt_def drive_def split: outcome.splits)

lemma evict_follows:
  assumes h: "holds s True cap (length es) ps es" and es: "es = e0 # es0" "le_used e0"
    and drv: "cs_driver s = lr_driver a" "cs_heap s = lr_heap a" "lr_cache a = On cap es"
  shows "follows (pbind (evict vt) (\<lambda>_. pbind C_ORM_MUTEX_UNLOCK (\<lambda>_. preturn q)) s) (pbind (l_evict vt cap es) (\<lambda>_. preturn q) a)"
proof (cases "length es \<le> cap \<or> List.extract (\<lambda>e. \<not> le_used e) (rev es) = None")
  case True
  have "evict vt s = (Ret (), s)"
  proof (cases "length es \<le> cap")
    case False
    with True have "List.extract (\<lambda>e. \<not> le_used e) (rev es) = None" by simp
    then have "evict_from vt (cs_fresh s) (final None ps) s = (Ret (), s)"
      using evict_from_run[of s ps es None "cs_fresh s" vt] h holds_fuel[OF h] by (simp add: holds_def)
    with h show ?thesis by (auto simp: evict_def holds_def pbind_Ret)
  qed (use h in \<open>auto simp: evict_def holds_def pbind_Ret\<close>)
  moreover have "l_evict vt cap es a = (Ret (), a)" using True by (auto simp: l_evict_def preturn_def)
  moreover obtain c where "C_ORM_MUTEX_UNLOCK s = (Ret (), s\<lparr>cs_cache := Some c\<rparr>)" "holds (s\<lparr>cs_cache := Some c\<rparr>) False cap (length es) ps es"
    using unlock_run[OF h] by blast
  ultimately show ?thesis using drv by (auto simp: pbind_Ret preturn_def follows_def represents_def)
next
  case False
  then obtain fs e gs where ext: "List.extract (\<lambda>e. \<not> le_used e) (rev es) = Some (fs, e, gs)" by (cases "List.extract (\<lambda>e. \<not> le_used e) (rev es)") auto
  note sp = extract_rev_SomeE[OF ext]
  have "gs \<noteq> []" using sp(1,2) es by auto
  then obtain g gs' where gs: "rev gs = gs' @ [g]" by (cases gs) auto
  have d: "dll (cs_entries s) None ps (rev gs @ e # rev fs) None" using h sp(1) by (simp add: holds_def)
  obtain ps1 p ps2 where ps: "ps = ps1 @ p # ps2" "length ps1 = length (rev gs)" "length ps2 = length (rev fs)"
    using dll_split[OF d] by metis
  then obtain qs r where qs: "ps1 = qs @ [r]" "length qs = length gs'" using gs by (cases ps1 rule: rev_cases) auto
  obtain k where k: "length es = Suc k" using es by auto
  have klen: "k = length (rev gs @ rev fs)" using k sp(1) by simp
  have h2: "holds s True cap (Suc k) ((qs @ [r]) @ p # ps2) ((gs' @ [g]) @ e # rev fs)"
    using h unfolding k[symmetric] ps(1) qs(1) gs[symmetric] sp(1)[symmetric] .
  obtain res d' where fin: "vt_finalize vt (le_query e) (lr_driver a) = (res, d')" by (cases "vt_finalize vt (le_query e) (lr_driver a)")
  note ev = evict_entry_run[OF h2 qs(2), of vt res d', unfolded drv(1), OF fin]
  have "evict_from vt (cs_fresh s) (final None ps) s = evict_entry vt (Some (ps ! length gs)) s"
    using evict_from_run[of s ps es None "cs_fresh s" vt] h holds_fuel[OF h] by (simp add: holds_def ext)
  moreover have "ps ! length gs = p" using ps by (simp add: nth_append)
  ultimately have run: "evict vt s = evict_entry vt (Some p) s"
    using h False by (auto simp: evict_def holds_def pbind_Ret)
  have arun: "l_evict vt cap es a = pbind (attempt (l_drive (vt_finalize vt (le_query e)))) (\<lambda>r. pbind l_free (\<lambda>_. pbind l_free (\<lambda>_.
         case r of Inl rc \<Rightarrow> perr rc | Inr _ \<Rightarrow> preturn ()))) (a\<lparr>lr_cache := On cap (rev gs @ rev fs)\<rparr>)"
    using False by (simp add: l_evict_def ext pbind_Ret l_set_def)
  show ?thesis
  proof (cases res)
    case (Ret u)
    then obtain t where t: "evict_entry vt (Some p) s = (Ret (), t)" "holds t True cap k ((qs @ [r]) @ ps2) ((gs' @ [g]) @ rev fs)"
      "cs_driver t = d'" "cs_heap t = C_ORM_FREE (C_ORM_FREE (cs_heap s))"
      using ev by auto
    obtain c where c: "C_ORM_MUTEX_UNLOCK t = (Ret (), t\<lparr>cs_cache := Some c\<rparr>)" "holds (t\<lparr>cs_cache := Some c\<rparr>) False cap k ((qs @ [r]) @ ps2) ((gs' @ [g]) @ rev fs)"
      using unlock_run[OF t(2)] by blast
    have "pbind (l_evict vt cap es) (\<lambda>_. preturn q) a = (Ret q, a\<lparr>lr_cache := On cap (rev gs @ rev fs), lr_driver := d', lr_heap := C_ORM_FREE (C_ORM_FREE (lr_heap a))\<rparr>)"
      using fin by (simp add: pbind_Ret arun attempt_def l_drive_def Ret l_free_def preturn_def)
    then show ?thesis
      using c(2) t(3,4) drv unfolding gs[symmetric] klen
      by (auto simp: pbind_Ret run t(1) c(1) preturn_def follows_def represents_def)
  next
    case (Err rc)
    then obtain t where t: "evict_entry vt (Some p) s = (Err rc, t)" "holds t False cap k ((qs @ [r]) @ ps2) ((gs' @ [g]) @ rev fs)"
      "cs_driver t = d'" "cs_heap t = C_ORM_FREE (C_ORM_FREE (cs_heap s))"
      using ev by auto
    have "pbind (l_evict vt cap es) (\<lambda>_. preturn q) a = (Err rc, a\<lparr>lr_cache := On cap (rev gs @ rev fs), lr_driver := d', lr_heap := C_ORM_FREE (C_ORM_FREE (lr_heap a))\<rparr>)"
      using fin by (simp add: pbind_def arun attempt_def l_drive_def Err l_free_def perr_def)
    then show ?thesis
      using t(2,3,4) drv unfolding gs[symmetric] klen
      by (auto simp: pbind_def run t(1) follows_def represents_def)
  next
    case Stuck
    then obtain t where "evict_entry vt (Some p) s = (Stuck, t)" using ev by auto
    moreover have "fst (pbind (l_evict vt cap es) (\<lambda>_. preturn q) a) = Stuck"
      using fin by (simp add: pbind_def arun attempt_def l_drive_def Stuck)
    ultimately show ?thesis by (simp add: pbind_def run follows_def)
  qed
qed

lemma unlock_follows:
  assumes h: "holds s True cap (length es) ps es" and drv: "cs_driver s = lr_driver a" "cs_heap s = lr_heap a" "lr_cache a = On cap es"
    and k: "\<And>t. cs_driver t = lr_driver a \<Longrightarrow> cs_heap t = lr_heap a \<Longrightarrow> holds t False cap (length es) ps es \<Longrightarrow> follows (k t) (n a)"
  shows "follows (pbind C_ORM_MUTEX_UNLOCK (\<lambda>_. k) s) (n a)"
proof -
  obtain c where "C_ORM_MUTEX_UNLOCK s = (Ret (), s\<lparr>cs_cache := Some c\<rparr>)" "holds (s\<lparr>cs_cache := Some c\<rparr>) False cap (length es) ps es"
    using unlock_run[OF h] by blast
  then show ?thesis using k[of "s\<lparr>cs_cache := Some c\<rparr>"] drv by (simp add: pbind_Ret)
qed

lemma new_follows:
  assumes h: "holds s True cap (length es) ps es" and drv: "cs_driver s = lr_driver a" "cs_heap s = lr_heap a" "lr_cache a = On cap es"
  shows "follows (cache_new vt sql s) (l_new vt sql cap es a)"
proof -
  obtain r d where r: "vt_prepare vt sql (lr_driver a) = (r, d)" by (cases "vt_prepare vt sql (lr_driver a)")
  define s1 where "s1 = s\<lparr>cs_driver := d\<rparr>"
  define a1 where "a1 = a\<lparr>lr_driver := d\<rparr>"
  have h1: "holds s1 True cap (length es) ps es" using h by (simp add: s1_def holds_def)
  have drv1: "cs_driver s1 = lr_driver a1" "cs_heap s1 = lr_heap a1" "lr_cache a1 = On cap es" using drv by (simp_all add: s1_def a1_def)
  have att: "attempt (drive (vt_prepare vt sql)) s = (case r of Ret x \<Rightarrow> Ret (Inr x) | Err e \<Rightarrow> Ret (Inl e) | Stuck \<Rightarrow> Stuck, s1)"
    using attempt_drive[where vt = "vt_prepare vt sql", OF r drv(1)] by (simp add: s1_def)
  have lpr: "l_drive (vt_prepare vt sql) a = (r, a1)" by (simp add: l_drive_def r a1_def)
  show ?thesis
  proof (cases r)
    case (Err e)
    have "follows (pbind C_ORM_MUTEX_UNLOCK (\<lambda>_. perr e) s1) (perr e a1)"
      by (rule unlock_follows[OF h1 drv1]) (auto simp: perr_def follows_def represents_def drv1)
    then show ?thesis using Err by (simp add: cache_new_def l_new_def pbind_Ret att pbind_def[of "l_drive _"] lpr perr_def)
  next
    case Stuck
    then show ?thesis by (simp add: cache_new_def l_new_def pbind_def att lpr follows_def)
  next
    case (Ret q)
    have give: "follows (pbind C_ORM_MUTEX_UNLOCK (\<lambda>_. preturn q) (s1\<lparr>cs_heap := h\<rparr>)) (preturn q (a1\<lparr>lr_heap := h\<rparr>))" for h
      by (rule unlock_follows[of _ cap es ps]) (use h1 drv1 in \<open>auto simp: preturn_def follows_def represents_def holds_def\<close>)
    obtain ok1 k1 where 1: "C_ORM_MALLOC (lr_heap a) = (ok1, k1)" by (cases "C_ORM_MALLOC (lr_heap a)")
    obtain ok2 k2 where 2: "C_ORM_MALLOC k1 = (ok2, k2)" by (cases "C_ORM_MALLOC k1")
    have al1: "cache_alloc s1 = (Ret ok1, s1\<lparr>cs_heap := k1\<rparr>)" "l_alloc a1 = (Ret ok1, a1\<lparr>lr_heap := k1\<rparr>)"
      using 1 drv by (simp_all add: cache_alloc_def l_alloc_def s1_def a1_def)
    have al2: "cache_alloc (s1\<lparr>cs_heap := k1\<rparr>) = (Ret ok2, s1\<lparr>cs_heap := k2\<rparr>)" "l_alloc (a1\<lparr>lr_heap := k1\<rparr>) = (Ret ok2, a1\<lparr>lr_heap := k2\<rparr>)"
      using 2 by (simp_all add: cache_alloc_def l_alloc_def)
    consider "\<not> ok1" | "ok1" "\<not> ok2" | "ok1" "ok2" by blast
    then show ?thesis
    proof cases
      case 1
      then show ?thesis using give[of k1] by (simp add: cache_new_def l_new_def pbind_Ret att Ret lpr al1)
    next
      case 2
      then show ?thesis using give[of "C_ORM_FREE k2"]
        by (simp add: cache_new_def l_new_def pbind_Ret att Ret lpr al1 al2 cache_free_def l_free_def)
    next
      case 3
      define es' where "es' = \<lparr>le_sql = sql, le_query = q, le_used = True\<rparr> # es"
      define s2 where "s2 = s1\<lparr>cs_heap := k2\<rparr>"
      define a3 where "a3 = a1\<lparr>lr_heap := k2, lr_cache := On cap es'\<rparr>"
      have "holds s2 True cap (length es) ps es" using h1 by (simp add: holds_def s2_def)
      then obtain M c where push: "push_entry sql q s2 = (Ret (), s2\<lparr>cs_entries := M, cs_cache := Some c, cs_fresh := Suc (cs_fresh s2)\<rparr>)"
        "holds (s2\<lparr>cs_entries := M, cs_cache := Some c, cs_fresh := Suc (cs_fresh s2)\<rparr>) True cap (length es') (cs_fresh s2 # ps) es'"
        using push_run[of s2 True cap "length es" ps es sql q] unfolding es'_def by auto
      have run: "cache_new vt sql s = pbind (evict vt) (\<lambda>_. pbind C_ORM_MUTEX_UNLOCK (\<lambda>_. preturn q))
          (s2\<lparr>cs_entries := M, cs_cache := Some c, cs_fresh := Suc (cs_fresh s2)\<rparr>)"
        using 3 push(1) by (simp add: cache_new_def pbind_Ret att Ret al1 al2 s2_def)
      have arun: "l_new vt sql cap es a = pbind (l_evict vt cap es') (\<lambda>_. preturn q) a3"
        using 3 by (simp add: l_new_def pbind_Ret lpr Ret al1 al2 l_set_def Let_def es'_def a3_def)
      show ?thesis
        unfolding run arun
        by (rule evict_follows[OF push(2) es'_def]) (simp_all add: s2_def a3_def drv1)
    qed
  qed
qed

lemma find_dangling:
  assumes "cs_entries t p = None"
  shows "fst (pbind (find_entry P n (Some p)) k t) = Stuck"
proof -
  have "find_entry P n (Some p) t = (Stuck, t)"
    using assms by (cases n) (simp_all add: stuck_def pbind_def entry_def)
  then show ?thesis by (simp add: pbind_def)
qed

lemma prepare_follows:
  assumes "represents s a"
  shows "follows (c_orm_prepare_cached vt True (Some sql) True s) (l_prepare vt sql a)"
proof (cases "lr_cache a")
  case Off
  with drive_follows[OF assms Off] assms show ?thesis
    by (auto simp: c_orm_prepare_cached_def l_prepare_def represents_def)
next
  case Dangling
  then obtain c p where c: "cs_cache s = Some c" "\<not> sc_locked c" "sc_head c = Some p" "cs_entries s p = None"
    using assms by (auto simp: represents_def)
  with c Dangling show ?thesis
    by (simp add: c_orm_prepare_cached_def l_prepare_def follows_def C_ORM_MUTEX_LOCK_def pbind_Ret set_cache_def find_dangling)
next
  case (On cap es)
  then obtain ps where h: "holds s False cap (length es) ps es" and drv: "cs_driver s = lr_driver a" "cs_heap s = lr_heap a"
    using assms by (auto simp: represents_def)
  obtain c where lock: "C_ORM_MUTEX_LOCK s = (Ret (), s\<lparr>cs_cache := Some c\<rparr>)" and h1: "holds (s\<lparr>cs_cache := Some c\<rparr>) True cap (length es) ps es"
    using lock_run[OF h] by blast
  define s1 where "s1 = s\<lparr>cs_cache := Some c\<rparr>"
  define P where "P = (\<lambda>e :: c_orm_stmt_entry_t. \<not> ce_in_use e \<and> ce_sql e = sql)"
  define Q where "Q = (\<lambda>e :: lru_entry. \<not> le_used e \<and> le_sql e = sql)"
  have d: "dll (cs_entries s1) None ps es None" and c: "sc_head c = first ps None" "cs_cache s1 = Some c" using h1 by (auto simp: holds_def s1_def)
  have PQ: "P x \<longleftrightarrow> Q (content x)" for x by (simp add: P_def Q_def content_def)
  have find: "find_entry P (cs_fresh s) (first ps None) s1 = (case List.extract Q es of None \<Rightarrow> (Ret None, s1) | Some (es1, e, es2) \<Rightarrow> (Ret (Some (ps ! length es1)), s1))"
    by (rule find_run[where P = P and Q = Q, OF d holds_fuel[OF h] PQ])
  have run: "c_orm_prepare_cached vt True (Some sql) True s = pbind (find_entry P (cs_fresh s) (first ps None)) (\<lambda>p. case p of
              None \<Rightarrow> cache_new vt sql
            | Some _ \<Rightarrow> pbind (update_entry p (\<lambda>e. e\<lparr>ce_in_use := True\<rparr>)) (\<lambda>_. pbind (move_to_head p) (\<lambda>_.
                pbind (entry p) (\<lambda>e. pbind C_ORM_MUTEX_UNLOCK (\<lambda>_. pbind (drive (vt_reset vt (ce_query e))) (\<lambda>_. preturn (ce_query e))))))) s1"
    using holds_cache[OF h] c by (auto simp: c_orm_prepare_cached_def pbind_Ret lock s1_def P_def)
  show ?thesis
  proof (cases "List.extract Q es")
    case None
    have "follows (cache_new vt sql s1) (l_new vt sql cap es a)"
      by (rule new_follows[OF h1[folded s1_def]]) (simp_all add: s1_def drv On)
    then show ?thesis using None by (simp add: run pbind_Ret find l_prepare_def On Q_def)
  next
    case (Some x)
    then obtain es1 e es2 where ext: "List.extract Q es = Some (es1, e, es2)" by (cases x) auto
    then have es: "es = es1 @ e # es2" by (auto dest: extract_SomeE)
    obtain ps1 p ps2 where ps: "ps = ps1 @ p # ps2" "length ps1 = length es1" "length ps2 = length es2"
      using dll_split[OF d[unfolded es]] by metis
    obtain x where x: "cs_entries s1 p = Some x" "content x = e" using d unfolding es ps(1) using ps(2) by auto
    define e' where "e' = e\<lparr>le_used := True\<rparr>"
    define s2 where "s2 = s1\<lparr>cs_entries := (cs_entries s1)(p \<mapsto> x\<lparr>ce_in_use := True\<rparr>)\<rparr>"
    have p: "p \<notin> set ps1" "p \<notin> set ps2" using h1 by (auto simp: holds_def ps(1))
    have "dll (cs_entries s2) None (ps1 @ p # ps2) (es1 @ e' # es2) None"
      using d x p ps(2) unfolding es ps(1) s2_def by (auto simp: content_def e'_def simp del: fun_upd_apply)
        (auto simp: content_def)
    then have h2: "holds s2 True cap (length es) (ps1 @ p # ps2) (es1 @ e' # es2)"
      using h1 by (auto simp: holds_def s2_def s1_def ps(1))
    obtain M c2 where move: "move_to_head (Some p) s2 = (Ret (), s2\<lparr>cs_entries := M, cs_cache := Some c2\<rparr>)"
      and h3: "holds (s2\<lparr>cs_entries := M, cs_cache := Some c2\<rparr>) True cap (length es) (p # ps1 @ ps2) (e' # es1 @ es2)"
      using move_run[OF h2 ps(2)] by blast
    define s3 where "s3 = s2\<lparr>cs_entries := M, cs_cache := Some c2\<rparr>"
    obtain y where y: "cs_entries s3 p = Some y" "content y = e'" using h3 by (auto simp: holds_def s3_def)
    have q: "ce_query y = le_query e" using arg_cong[OF y(2), of le_query] by (simp add: content_def e'_def)
    define a1 where "a1 = a\<lparr>lr_cache := On cap (e' # es1 @ es2)\<rparr>"
    have len: "length (e' # es1 @ es2) = length es" by (simp add: es)
    have "follows (pbind C_ORM_MUTEX_UNLOCK (\<lambda>_. pbind (drive (vt_reset vt (le_query e))) (\<lambda>_. preturn (le_query e))) s3)
       (pbind (l_drive (vt_reset vt (le_query e))) (\<lambda>_. preturn (le_query e)) a1)"
    proof (rule unlock_follows[of s3 cap "e' # es1 @ es2" "p # ps1 @ ps2"], goal_cases)
      case 1
      show ?case unfolding len s3_def by (rule h3)
    next
      case (5 t)
      obtain r d' where r: "vt_reset vt (le_query e) (lr_driver a1) = (r, d')" by (cases "vt_reset vt (le_query e) (lr_driver a1)")
      have "holds (t\<lparr>cs_driver := d'\<rparr>) False cap (length (e' # es1 @ es2)) (p # ps1 @ ps2) (e' # es1 @ es2)"
        by (rule holds_other[OF 5(3)]) simp_all
      with 5(1,2) r show ?case
        by (cases r) (auto simp: drive_def l_drive_def pbind_def preturn_def follows_def represents_def a1_def)
    qed (simp_all add: s3_def s2_def s1_def a1_def drv)
    moreover have "ps ! length es1 = p" using ps by (simp add: nth_append)
    moreover have "l_prepare vt sql a = pbind (l_drive (vt_reset vt (le_query e))) (\<lambda>_. preturn (le_query e)) a1"
      using ext by (simp add: l_prepare_def On Q_def[symmetric] pbind_Ret l_set_def a1_def e'_def)
    ultimately show ?thesis
      using x(1) y(1) by (simp add: run pbind_Ret find ext s2_def[symmetric] move s3_def[symmetric] q)
  qed
qed

section \<open>Giving back\<close>

lemma finalize_follows:
  assumes "represents s a"
  shows "follows (c_orm_finalize_cached vt True (Some q) s) (l_finalize vt q a)"
proof (cases "lr_cache a")
  case Off
  with drive_follows[OF assms Off] assms show ?thesis
    by (auto simp: c_orm_finalize_cached_def l_finalize_def represents_def)
next
  case Dangling
  then obtain c p where c: "cs_cache s = Some c" "\<not> sc_locked c" "sc_head c = Some p" "cs_entries s p = None"
    using assms by (auto simp: represents_def)
  with Dangling show ?thesis
    by (simp add: c_orm_finalize_cached_def l_finalize_def follows_def C_ORM_MUTEX_LOCK_def pbind_Ret set_cache_def find_dangling)
next
  case (On cap es)
  then obtain ps where h: "holds s False cap (length es) ps es" and drv: "cs_driver s = lr_driver a" "cs_heap s = lr_heap a"
    using assms by (auto simp: represents_def)
  obtain c where lock: "C_ORM_MUTEX_LOCK s = (Ret (), s\<lparr>cs_cache := Some c\<rparr>)" and h1: "holds (s\<lparr>cs_cache := Some c\<rparr>) True cap (length es) ps es"
    using lock_run[OF h] by blast
  define s1 where "s1 = s\<lparr>cs_cache := Some c\<rparr>"
  define P where "P = (\<lambda>e :: c_orm_stmt_entry_t. ce_query e = q)"
  define Q where "Q = (\<lambda>e :: lru_entry. le_query e = q)"
  have d: "dll (cs_entries s1) None ps es None" and c: "sc_head c = first ps None" "cs_cache s1 = Some c" using h1 by (auto simp: holds_def s1_def)
  have PQ: "P x \<longleftrightarrow> Q (content x)" for x by (simp add: P_def Q_def content_def)
  have find: "find_entry P (cs_fresh s) (first ps None) s1 = (case List.extract Q es of None \<Rightarrow> (Ret None, s1) | Some (es1, e, es2) \<Rightarrow> (Ret (Some (ps ! length es1)), s1))"
    by (rule find_run[where P = P and Q = Q, OF d holds_fuel[OF h] PQ])
  have run: "c_orm_finalize_cached vt True (Some q) s = pbind (find_entry P (cs_fresh s) (first ps None)) (\<lambda>p. case p of
              None \<Rightarrow> pbind C_ORM_MUTEX_UNLOCK (\<lambda>_. drive (vt_finalize vt q))
            | Some _ \<Rightarrow> pbind (update_entry p (\<lambda>e. e\<lparr>ce_in_use := False\<rparr>)) (\<lambda>_. C_ORM_MUTEX_UNLOCK)) s1"
    using holds_cache[OF h] c by (auto simp: c_orm_finalize_cached_def pbind_Ret lock s1_def P_def)
  show ?thesis
  proof (cases "List.extract Q es")
    case None
    have "follows (pbind C_ORM_MUTEX_UNLOCK (\<lambda>_. drive (vt_finalize vt q)) s1) (l_drive (vt_finalize vt q) a)"
    proof (rule unlock_follows[OF h1[folded s1_def]], goal_cases)
      case (4 t)
      obtain r d' where r: "vt_finalize vt q (lr_driver a) = (r, d')" by (cases "vt_finalize vt q (lr_driver a)")
      have "holds (t\<lparr>cs_driver := d'\<rparr>) False cap (length es) ps es" by (rule holds_other[OF 4(3)]) simp_all
      with 4(1,2) r show ?case by (auto simp: drive_def l_drive_def follows_def represents_def On)
    qed (simp_all add: s1_def drv On)
    then show ?thesis using None by (simp add: run pbind_Ret find l_finalize_def On Q_def)
  next
    case (Some x)
    then obtain es1 e es2 where ext: "List.extract Q es = Some (es1, e, es2)" by (cases x) auto
    then have es: "es = es1 @ e # es2" by (auto dest: extract_SomeE)
    obtain ps1 p ps2 where ps: "ps = ps1 @ p # ps2" "length ps1 = length es1" "length ps2 = length es2"
      using dll_split[OF d[unfolded es]] by metis
    obtain x where x: "cs_entries s1 p = Some x" "content x = e" using d unfolding es ps(1) using ps(2) by auto
    define e' where "e' = e\<lparr>le_used := False\<rparr>"
    define s2 where "s2 = s1\<lparr>cs_entries := (cs_entries s1)(p \<mapsto> x\<lparr>ce_in_use := False\<rparr>)\<rparr>"
    have p: "p \<notin> set ps1" "p \<notin> set ps2" using h1 by (auto simp: holds_def ps(1))
    have "dll (cs_entries s2) None (ps1 @ p # ps2) (es1 @ e' # es2) None"
      using d x p ps(2) unfolding es ps(1) s2_def by (auto simp: content_def e'_def simp del: fun_upd_apply)
        (auto simp: content_def)
    then have h2: "holds s2 True cap (length (es1 @ e' # es2)) ps (es1 @ e' # es2)"
      using h1 by (auto simp: holds_def s2_def s1_def ps(1) es)
    have "follows (pbind C_ORM_MUTEX_UNLOCK (\<lambda>_. preturn ()) s2) (preturn () (a\<lparr>lr_cache := On cap (es1 @ e' # es2)\<rparr>))"
      by (rule unlock_follows[OF h2]) (auto simp: preturn_def follows_def represents_def s2_def s1_def drv)
    moreover have "ps ! length es1 = p" using ps by (simp add: nth_append)
    moreover have "l_finalize vt q a = preturn () (a\<lparr>lr_cache := On cap (es1 @ e' # es2)\<rparr>)"
      using ext by (simp add: l_finalize_def On Q_def[symmetric] l_set_def preturn_def e'_def)
    ultimately show ?thesis
      using x(1) by (simp add: run pbind_Ret find ext s2_def[symmetric])
  qed
qed

lemma exec_follows: "represents s a \<Longrightarrow> follows (cache_exec vt x s) (lru_exec vt x a)"
  by (cases x) (simp_all add: follows_returning enable_follows disable_follows prepare_follows finalize_follows)

lemma run_follows:
  "represents s a \<Longrightarrow> run_ops (cache_exec vt) xs s = (rs, t) \<Longrightarrow>
     \<exists>b. run_ops (lru_exec vt) xs a = (rs, b) \<and> (Stuck \<notin> set rs \<longrightarrow> represents t b)"
proof (induction xs arbitrary: s a rs t)
  case (Cons x xs)
  obtain r u where r: "cache_exec vt x s = (r, u)" by (cases "cache_exec vt x s")
  obtain b where b: "lru_exec vt x a = (r, b)" "r \<noteq> Stuck \<longrightarrow> represents u b"
    using exec_follows[OF Cons.prems(1), of vt x] r by (cases "lru_exec vt x a") (auto simp: follows_def)
  obtain rs' t' where rest: "run_ops (cache_exec vt) xs u = (rs', t')" by (cases "run_ops (cache_exec vt) xs u")
  show ?case
  proof (cases "r = Stuck")
    case True
    with Cons.prems(2) r b show ?thesis by auto
  next
    case False
    with Cons.IH[OF _ rest] b obtain c where "run_ops (lru_exec vt) xs b = (rs', c)" "Stuck \<notin> set rs' \<longrightarrow> represents t' c" by auto
    with False Cons.prems(2) r b rest show ?thesis by (cases r) auto
  qed
qed simp

end
