(* ===== verification/CacheProps.thy ===== *)
theory CacheProps
  imports CacheRefine MemoryLeak
begin

text \<open>
  What the cache needs of a driver, and what it then guarantees: a statement is handed out to one user at a
  time, and no statement is lost. The contract is a locale, interpreted on the memory driver.
\<close>

section \<open>The user's side\<close>

fun held :: "nat set \<Rightarrow> cache_op \<Rightarrow> cache_result outcome \<Rightarrow> nat set" where
  \<comment> \<open>the statements the user has, after a call\<close>
  "held H (Prepare_cached sql) (Ret (Query q)) = insert q H"
| "held H (Finalize_cached q) (Ret Ok) = H - {q}"
| "held H _ _ = H"

fun held_after :: "nat set \<Rightarrow> cache_op list \<Rightarrow> cache_result outcome list \<Rightarrow> nat set" where
  "held_after H (x # xs) (r # rs) = held_after (held H x r) xs rs"
| "held_after H _ _ = H"

fun exclusive :: "nat set \<Rightarrow> cache_op list \<Rightarrow> cache_result outcome list \<Rightarrow> bool" where
  \<comment> \<open>no statement is handed out that the user already has\<close>
  "exclusive H (x # xs) (r # rs) \<longleftrightarrow> (\<forall>sql q. x = Prepare_cached sql \<longrightarrow> r = Ret (Query q) \<longrightarrow> q \<notin> H) \<and> exclusive (held H x r) xs rs"
| "exclusive H _ _ \<longleftrightarrow> True"

section \<open>The contract of a driver\<close>

locale statement_driver =
  fixes vt :: "'d driver_vtable"
    and good :: "'d \<Rightarrow> bool"
    and alive :: "'d \<Rightarrow> nat set"
  assumes prepare_ret: "good d \<Longrightarrow> vt_prepare vt sql d = (Ret q, d') \<Longrightarrow> good d' \<and> q \<notin> alive d \<and> alive d' = insert q (alive d)"
    and prepare_err: "good d \<Longrightarrow> vt_prepare vt sql d = (Err e, d') \<Longrightarrow> good d' \<and> alive d' = alive d"
    and finalize_ret: "good d \<Longrightarrow> vt_finalize vt q d = (Ret u, d') \<Longrightarrow> good d' \<and> alive d' = alive d - {q}"
    and finalize_err: "good d \<Longrightarrow> vt_finalize vt q d = (Err e, d') \<Longrightarrow> good d' \<and> alive d' = alive d"
    and reset_ret: "good d \<Longrightarrow> vt_reset vt q d = (Ret u, d') \<Longrightarrow> good d' \<and> alive d' = alive d"
    and reset_err: "good d \<Longrightarrow> vt_reset vt q d = (Err e, d') \<Longrightarrow> good d' \<and> alive d' = alive d"

locale reliable_driver = statement_driver vt good alive
  for vt :: "'d driver_vtable" and good :: "'d \<Rightarrow> bool" and alive :: "'d \<Rightarrow> nat set" +
  assumes finalize_ok: "good d \<Longrightarrow> q \<in> alive d \<Longrightarrow> \<exists>d'. vt_finalize vt q d = (Ret (), d')"
    and reset_ok: "good d \<Longrightarrow> q \<in> alive d \<Longrightarrow> \<exists>d'. vt_reset vt q d = (Ret (), d')"

definition kept :: "lru \<Rightarrow> lru_entry list" where
  "kept l = (case l of On cap es \<Rightarrow> es | _ \<Rightarrow> [])"

lemma kept_simps [simp]: "kept Off = []" "kept (On cap es) = es"
  by (simp_all add: kept_def)

context statement_driver
begin

definition sound :: "nat set \<Rightarrow> 'd lru_state \<Rightarrow> bool" where
  "sound H a \<longleftrightarrow> good (lr_driver a) \<and> lr_cache a \<noteq> Dangling \<and> H \<subseteq> alive (lr_driver a)
     \<and> distinct (map le_query (kept (lr_cache a))) \<and> le_query ` set (kept (lr_cache a)) \<subseteq> alive (lr_driver a)
     \<and> (\<forall>e \<in> set (kept (lr_cache a)). le_query e \<in> H \<longrightarrow> le_used e)"

lemma sound_heap [simp]: "sound H (a\<lparr>lr_heap := h\<rparr>) = sound H a"
  by (simp add: sound_def)

lemma sound_enable: "sound H a \<Longrightarrow> l_enable n a = (r, b) \<Longrightarrow> sound H b"
  by (auto simp: l_enable_def pbind_def l_alloc_def l_free_def l_set_def perr_def sound_def split: prod.splits if_splits) blast+

lemma sound_sub:
  \<comment> \<open>fewer statements kept and held, all of them alive\<close>
  assumes "sound H a" and "good d" and "H' \<subseteq> H" and "H' \<subseteq> alive d" and "le_query ` set (kept (lr_cache a)) \<subseteq> alive d"
  shows "sound H' (a\<lparr>lr_driver := d\<rparr>)"
  using assms by (auto simp: sound_def)

lemma sound_drive_finalize:
  assumes s: "sound H a" and q: "q \<notin> le_query ` set (kept (lr_cache a))" and r: "l_drive (vt_finalize vt q) a = (r, b)" "r \<noteq> Stuck"
  shows "sound (case r of Ret _ \<Rightarrow> H - {q} | _ \<Rightarrow> H) b"
proof -
  obtain d where d: "vt_finalize vt q (lr_driver a) = (r, d)" "b = a\<lparr>lr_driver := d\<rparr>"
    using r(1) by (auto simp: l_drive_def split: prod.splits)
  have a: "good (lr_driver a)" "H \<subseteq> alive (lr_driver a)" "le_query ` set (kept (lr_cache a)) \<subseteq> alive (lr_driver a)"
    using s by (simp_all add: sound_def)
  show ?thesis
  proof (cases r)
    case (Ret u)
    have "good d" "alive d = alive (lr_driver a) - {q}" using finalize_ret[OF a(1) d(1)[unfolded Ret]] by simp_all
    with a q Ret show ?thesis unfolding d(2) by simp (rule sound_sub[OF s], auto)
  next
    case (Err e)
    have "good d" "alive d = alive (lr_driver a)" using finalize_err[OF a(1) d(1)[unfolded Err]] by simp_all
    with a Err show ?thesis unfolding d(2) by simp (rule sound_sub[OF s], auto)
  qed (use r in simp)
qed

lemma sound_release:
  assumes "sound H (a\<lparr>lr_cache := On cap (es1 @ e # es2)\<rparr>)"
  shows "sound (H - {le_query e}) (a\<lparr>lr_cache := On cap (es1 @ e\<lparr>le_used := False\<rparr> # es2)\<rparr>)"
  using assms by (auto simp: sound_def)

lemma sound_finalize:
  assumes "sound H a" and r: "l_finalize vt q a = (r, b)" and "r \<noteq> Stuck"
  shows "sound (case r of Ret _ \<Rightarrow> H - {q} | _ \<Rightarrow> H) b"
proof (cases "lr_cache a")
  case (On cap es)
  have a: "a\<lparr>lr_cache := On cap es\<rparr> = a" using On by (cases a) simp
  show ?thesis
  proof (cases "List.extract (\<lambda>e. le_query e = q) es")
    case None
    then have "q \<notin> le_query ` set (kept (lr_cache a))" by (auto simp: On extract_None_iff)
    with sound_drive_finalize[OF assms(1)] r None assms(3) show ?thesis by (simp add: l_finalize_def On)
  next
    case (Some x)
    then obtain es1 e es2 where ext: "List.extract (\<lambda>e. le_query e = q) es = Some (es1, e, es2)" by (cases x) auto
    then have es: "es = es1 @ e # es2" "le_query e = q" by (auto dest: extract_SomeE)
    have "sound H (a\<lparr>lr_cache := On cap (es1 @ e # es2)\<rparr>)" using assms(1) a es(1) by simp
    from sound_release[OF this] r ext es(2) show ?thesis
      by (auto simp: l_finalize_def On l_set_def)
  qed
qed (use assms sound_drive_finalize[of H a q r b] in \<open>auto simp: l_finalize_def sound_def\<close>)

lemma sound_evict:
  assumes s: "sound H a" and a: "lr_cache a = On cap es" and r: "l_evict vt cap es a = (r, b)" and "r \<noteq> Stuck"
  shows "sound H b"
proof (cases "length es \<le> cap \<or> List.extract (\<lambda>e. \<not> le_used e) (rev es) = None")
  case True
  then have "l_evict vt cap es a = (Ret (), a)" by (auto simp: l_evict_def preturn_def)
  with s r show ?thesis by simp
next
  case False
  then obtain fs e gs where ext: "List.extract (\<lambda>e. \<not> le_used e) (rev es) = Some (fs, e, gs)" by (cases "List.extract (\<lambda>e. \<not> le_used e) (rev es)") auto
  note sp = extract_rev_SomeE[OF ext]
  obtain res d where fin: "vt_finalize vt (le_query e) (lr_driver a) = (res, d)" by (cases "vt_finalize vt (le_query e) (lr_driver a)")
  have res: "res \<noteq> Stuck"
    using r \<open>r \<noteq> Stuck\<close> False fin by (auto simp: l_evict_def ext pbind_def l_set_def attempt_def l_drive_def)
  have g: "good (lr_driver a)" using s by (simp add: sound_def)
  have d: "good d" "alive (lr_driver a) - {le_query e} \<subseteq> alive d"
    using res finalize_ret[OF g] finalize_err[OF g] fin by (cases res; simp; blast)+
  have rest: "le_query e \<notin> H" "le_query e \<notin> le_query ` set (rev gs @ rev fs)" "distinct (map le_query (rev gs @ rev fs))"
    "H \<subseteq> alive (lr_driver a)" "le_query ` set (rev gs @ rev fs) \<subseteq> alive (lr_driver a)"
    "\<forall>e \<in> set (rev gs @ rev fs). le_query e \<in> H \<longrightarrow> le_used e"
    using s a sp(1,2) by (auto simp: sound_def)
  have "X \<subseteq> A \<Longrightarrow> q \<notin> X \<Longrightarrow> A - {q} \<subseteq> B \<Longrightarrow> X \<subseteq> B" for X A B :: "nat set" and q by blast
  from this[OF rest(4,1) d(2)] this[OF rest(5,2) d(2)] have "H \<subseteq> alive d" "le_query ` set (rev gs @ rev fs) \<subseteq> alive d" .
  with rest d(1) have "sound H (a\<lparr>lr_cache := On cap (rev gs @ rev fs), lr_driver := d\<rparr>)"
    by (simp add: sound_def)
  moreover have "\<exists>h. b = a\<lparr>lr_cache := On cap (rev gs @ rev fs), lr_driver := d, lr_heap := h\<rparr>"
    using r False fin res by (cases res) (auto simp: l_evict_def ext pbind_def l_set_def attempt_def l_drive_def l_free_def perr_def preturn_def)
  ultimately show ?thesis by auto
qed

lemma sound_prepare:
  assumes s: "sound H a" and r: "l_prepare vt sql a = (r, b)" and "r \<noteq> Stuck"
  shows "case r of Ret q \<Rightarrow> q \<notin> H \<and> sound (insert q H) b | _ \<Rightarrow> sound H b"
proof -
  have direct: "case r of Ret q \<Rightarrow> q \<notin> H \<and> sound (insert q H) b \<and> q \<notin> le_query ` set (kept (lr_cache b)) \<and> lr_cache b = lr_cache a | _ \<Rightarrow> sound H b"
    if p: "l_drive (vt_prepare vt sql) a = (r, b)" "r \<noteq> Stuck" for r b
  proof -
    obtain d where d: "vt_prepare vt sql (lr_driver a) = (r, d)" "b = a\<lparr>lr_driver := d\<rparr>"
      using p(1) by (auto simp: l_drive_def split: prod.splits)
    have g: "good (lr_driver a)" using s by (simp add: sound_def)
    show ?thesis
    proof (cases r)
      case (Ret q)
      with prepare_ret[OF g, of sql q d] d s show ?thesis by (auto simp: sound_def)
    next
      case (Err e)
      with prepare_err[OF g, of sql e d] d s show ?thesis by (auto simp: sound_def)
    qed (use p in simp)
  qed
  show ?thesis
  proof (cases "lr_cache a")
    case Off
    with direct[of r b] r assms(3) show ?thesis by (auto simp: l_prepare_def split: outcome.splits)
  next
    case Dangling
    with r assms(3) show ?thesis by (auto simp: l_prepare_def)
  next
    case (On cap es)
    show ?thesis
    proof (cases "List.extract (\<lambda>e. \<not> le_used e \<and> le_sql e = sql) es")
      case (Some x)
      then obtain es1 e es2 where ext: "List.extract (\<lambda>e. \<not> le_used e \<and> le_sql e = sql) es = Some (es1, e, es2)" by (cases x) auto
      then have es: "es = es1 @ e # es2" "\<not> le_used e" by (auto dest: extract_SomeE)
      obtain res d where rs: "vt_reset vt (le_query e) (lr_driver a) = (res, d)" by (cases "vt_reset vt (le_query e) (lr_driver a)")
      have "le_query e \<notin> H" using s es by (auto simp: sound_def On)
      moreover have g: "good (lr_driver a)" using s by (simp add: sound_def)
      have "good d \<and> alive d = alive (lr_driver a)" if "res \<noteq> Stuck"
        using that reset_ret[OF g] reset_err[OF g] rs by (cases res) simp_all
      moreover have "le_query e \<notin> le_query ` (set es1 \<union> set es2)" using s es(1) by (auto simp: sound_def On)
      then have other: "le_query f \<noteq> le_query e" if "f \<in> set es1 \<union> set es2" for f
        using imageI[OF that, of le_query] by metis
      have "distinct (map le_query (e\<lparr>le_used := True\<rparr> # es1 @ es2))" "le_query ` set (e\<lparr>le_used := True\<rparr> # es1 @ es2) \<subseteq> alive (lr_driver a)"
        "\<forall>f \<in> set (e\<lparr>le_used := True\<rparr> # es1 @ es2). le_query f \<in> insert (le_query e) H \<longrightarrow> le_used f" "H \<subseteq> alive (lr_driver a)"
        using s es(1) other by (auto simp: sound_def On)
      ultimately have "res \<noteq> Stuck \<Longrightarrow> sound (insert (le_query e) H) (a\<lparr>lr_cache := On cap (e\<lparr>le_used := True\<rparr> # es1 @ es2), lr_driver := d\<rparr>)"
        "res \<noteq> Stuck \<Longrightarrow> sound H (a\<lparr>lr_cache := On cap (e\<lparr>le_used := True\<rparr> # es1 @ es2), lr_driver := d\<rparr>)"
        by (simp_all add: sound_def)
      then show ?thesis
        using r ext rs assms(3) \<open>le_query e \<notin> H\<close>
        by (cases res) (auto simp: l_prepare_def On l_set_def pbind_def l_drive_def preturn_def)
    next
      case None
      then have new: "l_new vt sql cap es a = (r, b)" using r by (simp add: l_prepare_def On)
      obtain r1 a1 where p: "l_drive (vt_prepare vt sql) a = (r1, a1)" by (cases "l_drive (vt_prepare vt sql) a")
      show ?thesis
      proof (cases r1)
        case (Ret q)
        have q: "q \<notin> H" "sound (insert q H) a1" "q \<notin> le_query ` set es" "lr_cache a1 = On cap es"
          using direct[OF p] Ret by (auto simp: On)
        define es' where "es' = \<lparr>le_sql = sql, le_query = q, le_used = True\<rparr> # es"
        have push: "sound (insert q H) (a1\<lparr>lr_heap := h, lr_cache := On cap es'\<rparr>)" for h
          using q by (auto simp: sound_def es'_def)
        obtain ok1 h1 where 1: "C_ORM_MALLOC (lr_heap a1) = (ok1, h1)" by (cases "C_ORM_MALLOC (lr_heap a1)")
        obtain ok2 h2 where 2: "C_ORM_MALLOC h1 = (ok2, h2)" by (cases "C_ORM_MALLOC h1")
        obtain r3 a3 where e: "l_evict vt cap es' (a1\<lparr>lr_heap := h2, lr_cache := On cap es'\<rparr>) = (r3, a3)"
          by (cases "l_evict vt cap es' (a1\<lparr>lr_heap := h2, lr_cache := On cap es'\<rparr>)")
        have ev: "r3 \<noteq> Stuck \<Longrightarrow> sound (insert q H) a3"
          using sound_evict[OF push _ e] by simp
        have weak: "sound (insert q H) c \<Longrightarrow> sound H c" for c by (auto simp: sound_def)
        show ?thesis
          using new p Ret 1 2 e ev q(1,2) assms(3) weak
          by (cases ok1; cases ok2; cases r3) (auto simp: l_new_def pbind_def l_alloc_def l_free_def l_set_def preturn_def es'_def[symmetric] Let_def)
      next
        case (Err e)
        with new p direct[OF p] show ?thesis by (auto simp: l_new_def pbind_def)
      next
        case Stuck
        with new p assms(3) show ?thesis by (auto simp: l_new_def pbind_def)
      qed
    qed
  qed
qed

lemma sound_exec:
  assumes "sound H a" and "lru_exec vt x a = (r, b)" and "r \<noteq> Stuck" and "x \<noteq> Disable"
  shows "sound (held H x r) b" and "x = Prepare_cached sql \<Longrightarrow> r = Ret (Query q) \<Longrightarrow> q \<notin> H"
proof -
  show "sound (held H x r) b"
  proof (cases x)
    case (Enable n)
    obtain r' where "l_enable n a = (r', b)" using assms(2) Enable by (cases "l_enable n a") (auto simp: returning_def pbind_def preturn_def split: outcome.splits)
    with sound_enable[OF assms(1)] show ?thesis by (simp add: Enable)
  next
    case (Prepare_cached sql)
    obtain r' where p: "l_prepare vt sql a = (r', b)" "r = (case r' of Ret q \<Rightarrow> Ret (Query q) | Err e \<Rightarrow> Err e | Stuck \<Rightarrow> Stuck)"
      using assms(2) Prepare_cached by (cases "l_prepare vt sql a") (auto simp: returning_def pbind_def preturn_def split: outcome.splits)
    have "r' \<noteq> Stuck" using p(2) assms(3) by auto
    with sound_prepare[OF assms(1) p(1)] p(2) show ?thesis by (auto simp: Prepare_cached split: outcome.splits)
  next
    case (Finalize_cached q)
    obtain r' where p: "l_finalize vt q a = (r', b)" "r = (case r' of Ret q \<Rightarrow> Ret Ok | Err e \<Rightarrow> Err e | Stuck \<Rightarrow> Stuck)"
      using assms(2) Finalize_cached by (cases "l_finalize vt q a") (auto simp: returning_def pbind_def preturn_def split: outcome.splits)
    have "r' \<noteq> Stuck" using p(2) assms(3) by auto
    with sound_finalize[OF assms(1) p(1)] p(2) show ?thesis by (auto simp: Finalize_cached split: outcome.splits)
  qed (use assms(4) in simp)
  show "q \<notin> H" if "x = Prepare_cached sql" "r = Ret (Query q)"
  proof -
    have "l_prepare vt sql a = (Ret q, b)"
      using assms(2) that by (cases "l_prepare vt sql a") (auto simp: returning_def pbind_def preturn_def split: outcome.splits)
    with sound_prepare[OF assms(1)] show ?thesis by fastforce
  qed
qed

lemma sound_run:
  "sound H a \<Longrightarrow> run_ops (lru_exec vt) xs a = (rs, b) \<Longrightarrow> Disable \<notin> set xs \<Longrightarrow>
     exclusive H xs rs \<and> (Stuck \<notin> set rs \<longrightarrow> sound (held_after H xs rs) b)"
proof (induction xs arbitrary: H a rs b)
  case (Cons x xs)
  obtain r u where r: "lru_exec vt x a = (r, u)" by (cases "lru_exec vt x a")
  obtain rs' b' where rest: "run_ops (lru_exec vt) xs u = (rs', b')" by (cases "run_ops (lru_exec vt) xs u")
  show ?case
  proof (cases "r = Stuck")
    case True
    with Cons.prems(2) r show ?thesis by (auto simp: )
  next
    case False
    have s: "sound (held H x r) u" and q: "\<And>sql q. x = Prepare_cached sql \<Longrightarrow> r = Ret (Query q) \<Longrightarrow> q \<notin> H"
      using sound_exec[OF Cons.prems(1) r False] Cons.prems(3) by auto
    have "rs = r # rs' \<and> b = b'" using Cons.prems(2) r rest False by (cases r) auto
    with Cons.IH[OF s rest] Cons.prems(3) q False show ?thesis by auto
  qed
qed (auto simp: sound_def)

end

section \<open>The memory of the cache\<close>

definition cache_blocks :: "lru \<Rightarrow> int" where
  "cache_blocks l = (case l of On cap es \<Rightarrow> 2 + 2 * int (length es) | _ \<Rightarrow> 0)"

definition accounted :: "int \<Rightarrow> 'd lru_state \<Rightarrow> bool" where
  "accounted L a \<longleftrightarrow> live (lr_heap a) = L + cache_blocks (lr_cache a)"

lemma accounted_drive: "l_drive m a = (r, b) \<Longrightarrow> accounted L a \<Longrightarrow> accounted L b"
  by (auto simp: l_drive_def accounted_def split: prod.splits)

lemma accounted_evict:
  assumes "lr_cache a = On cap es" and "l_evict vt cap es a = (r, b)" and "r \<noteq> Stuck" and "accounted L a"
  shows "accounted L b"
proof (cases "length es \<le> cap \<or> List.extract (\<lambda>e. \<not> le_used e) (rev es) = None")
  case True
  then have "l_evict vt cap es a = (Ret (), a)" by (auto simp: l_evict_def preturn_def)
  with assms show ?thesis by simp
next
  case False
  then obtain fs e gs where ext: "List.extract (\<lambda>e. \<not> le_used e) (rev es) = Some (fs, e, gs)" by (cases "List.extract (\<lambda>e. \<not> le_used e) (rev es)") auto
  obtain res d where fin: "vt_finalize vt (le_query e) (lr_driver a) = (res, d)" by (cases "vt_finalize vt (le_query e) (lr_driver a)")
  have "length es = length gs + length fs + 1" using extract_rev_SomeE(1)[OF ext] by simp
  then show ?thesis
    using assms False fin by (cases res) (auto simp: l_evict_def ext pbind_def l_set_def attempt_def l_drive_def l_free_def perr_def preturn_def
        accounted_def cache_blocks_def)
qed

lemma accounted_new:
  assumes a: "lr_cache a = On cap es" "accounted L a" and r: "l_new vt sql cap es a = (r, b)" "r \<noteq> Stuck"
  shows "accounted L b"
proof -
  obtain r1 a1 where p: "l_drive (vt_prepare vt sql) a = (r1, a1)" by (cases "l_drive (vt_prepare vt sql) a")
  have a1: "accounted L a1" "lr_cache a1 = On cap es" using accounted_drive[OF p a(2)] p a(1) by (auto simp: l_drive_def split: prod.splits)
  show ?thesis
  proof (cases r1)
    case (Ret q)
    define es' where "es' = \<lparr>le_sql = sql, le_query = q, le_used = True\<rparr> # es"
    obtain ok1 h1 where 1: "C_ORM_MALLOC (lr_heap a1) = (ok1, h1)" by (cases "C_ORM_MALLOC (lr_heap a1)")
    obtain ok2 h2 where 2: "C_ORM_MALLOC h1 = (ok2, h2)" by (cases "C_ORM_MALLOC h1")
    note live = malloc_live[OF 1] malloc_live[OF 2]
    obtain r3 a3 where e: "l_evict vt cap es' (a1\<lparr>lr_heap := h2, lr_cache := On cap es'\<rparr>) = (r3, a3)"
      by (cases "l_evict vt cap es' (a1\<lparr>lr_heap := h2, lr_cache := On cap es'\<rparr>)")
    have "accounted L (a1\<lparr>lr_heap := h2, lr_cache := On cap es'\<rparr>)" if "ok1" "ok2"
      using a1 live that by (simp add: accounted_def cache_blocks_def es'_def)
    then have "r3 \<noteq> Stuck \<Longrightarrow> ok1 \<Longrightarrow> ok2 \<Longrightarrow> accounted L a3" using accounted_evict[OF _ e] by simp
    then show ?thesis
      using r p Ret 1 2 e a1 live
      by (cases ok1; cases ok2; cases r3) (auto simp: l_new_def pbind_def l_alloc_def l_free_def l_set_def preturn_def es'_def[symmetric] Let_def accounted_def)
  qed (use r p a1 in \<open>auto simp: l_new_def pbind_def\<close>)
qed

lemma accounted_exec:
  assumes "accounted L a" and "lru_exec vt x a = (r, b)" and "r \<noteq> Stuck" and "x \<noteq> Disable"
  shows "accounted L b"
proof (cases x)
  case (Enable n)
  then show ?thesis
    using assms by (auto simp: returning_def l_enable_def pbind_def l_alloc_def l_free_def l_set_def perr_def preturn_def accounted_def
        cache_blocks_def split: prod.splits if_splits outcome.splits dest!: malloc_live)
next
  case (Prepare_cached sql)
  obtain r' where p: "l_prepare vt sql a = (r', b)" "r' \<noteq> Stuck"
    using assms(2,3) Prepare_cached by (cases "l_prepare vt sql a") (auto simp: returning_def pbind_def preturn_def split: outcome.splits)
  show ?thesis
  proof (cases "lr_cache a")
    case (On cap es)
    show ?thesis
    proof (cases "List.extract (\<lambda>e. \<not> le_used e \<and> le_sql e = sql) es")
      case (Some y)
      then obtain es1 e es2 where ext: "List.extract (\<lambda>e. \<not> le_used e \<and> le_sql e = sql) es = Some (es1, e, es2)" by (cases y) auto
      then have "length es = length es1 + length es2 + 1" by (auto dest: extract_SomeE)
      with p assms(1) ext show ?thesis
        by (auto simp: l_prepare_def On l_set_def pbind_def l_drive_def preturn_def accounted_def cache_blocks_def split: prod.splits outcome.splits)
    qed (use p assms(1) accounted_new[OF On] in \<open>auto simp: l_prepare_def On\<close>)
  qed (use p assms(1) accounted_drive in \<open>auto simp: l_prepare_def\<close>)
next
  case (Finalize_cached q)
  obtain r' where p: "l_finalize vt q a = (r', b)" "r' \<noteq> Stuck"
    using assms(2,3) Finalize_cached by (cases "l_finalize vt q a") (auto simp: returning_def pbind_def preturn_def split: outcome.splits)
  show ?thesis
  proof (cases "lr_cache a")
    case (On cap es)
    show ?thesis
    proof (cases "List.extract (\<lambda>e. le_query e = q) es")
      case (Some y)
      then obtain es1 e es2 where ext: "List.extract (\<lambda>e. le_query e = q) es = Some (es1, e, es2)" by (cases y) auto
      then have "length es = length es1 + length es2 + 1" by (auto dest: extract_SomeE)
      with p assms(1) ext show ?thesis
        by (auto simp: l_finalize_def On l_set_def accounted_def cache_blocks_def)
    qed (use p assms(1) accounted_drive in \<open>auto simp: l_finalize_def On\<close>)
  qed (use p assms(1) accounted_drive in \<open>auto simp: l_finalize_def\<close>)
qed (use assms(4) in simp)

section \<open>Nothing is lost\<close>

context reliable_driver
begin

definition complete :: "nat set \<Rightarrow> 'd lru_state \<Rightarrow> bool" where
  "complete H a \<longleftrightarrow> sound H a \<and> alive (lr_driver a) \<subseteq> H \<union> le_query ` set (kept (lr_cache a))"

lemma complete_heap [simp]: "complete H (a\<lparr>lr_heap := h\<rparr>) = complete H a"
  by (simp add: complete_def)

lemma alive_finalize:
  assumes "good d" and "q \<in> alive d" and "vt_finalize vt q d = (r, d')"
  shows "r = Ret ()" and "good d'" and "alive d' = alive d - {q}"
  using finalize_ok[OF assms(1,2)] finalize_ret[OF assms(1)] assms(3) by auto

lemma complete_finalize:
  assumes c: "complete H a" and r: "l_finalize vt q a = (r, b)" "r \<noteq> Stuck"
  shows "complete (case r of Ret _ \<Rightarrow> H - {q} | _ \<Rightarrow> H) b"
proof -
  have s: "sound H a" and g: "good (lr_driver a)" using c by (simp_all add: complete_def sound_def)
  note s' = sound_finalize[OF s r]
  have direct: "alive (lr_driver b) \<subseteq> (case r of Ret _ \<Rightarrow> H - {q} | _ \<Rightarrow> H) \<union> le_query ` set (kept (lr_cache b))"
    if "l_drive (vt_finalize vt q) a = (r, b)"
  proof -
    from that obtain d where "vt_finalize vt q (lr_driver a) = (r, d)" "b = a\<lparr>lr_driver := d\<rparr>"
      by (auto simp: l_drive_def split: prod.splits)
    then show ?thesis
      using c r(2) finalize_ret[OF g] finalize_err[OF g] by (cases r) (auto simp: complete_def)
  qed
  show ?thesis
  proof (cases "lr_cache a")
    case (On cap es)
    show ?thesis
    proof (cases "List.extract (\<lambda>e. le_query e = q) es")
      case (Some x)
      then obtain es1 e es2 where ext: "List.extract (\<lambda>e. le_query e = q) es = Some (es1, e, es2)" by (cases x) auto
      then have "es = es1 @ e # es2" "le_query e = q" by (auto dest: extract_SomeE)
      with c r ext s' show ?thesis by (auto simp: l_finalize_def On l_set_def complete_def)
    qed (use direct r s' in \<open>simp add: l_finalize_def On complete_def\<close>)
  qed (use direct r s' in \<open>auto simp: l_finalize_def complete_def\<close>)
qed

lemma complete_evict:
  assumes c: "complete H a" and a: "lr_cache a = On cap es" and r: "l_evict vt cap es a = (r, b)"
  shows "r = Ret ()" and "complete H b"
proof -
  have s: "sound H a" and g: "good (lr_driver a)" using c by (simp_all add: complete_def sound_def)
  have "r = Ret () \<and> complete H b"
  proof (cases "length es \<le> cap \<or> List.extract (\<lambda>e. \<not> le_used e) (rev es) = None")
    case True
    then have "l_evict vt cap es a = (Ret (), a)" by (auto simp: l_evict_def preturn_def)
    with c r show ?thesis by simp
  next
    case False
    then obtain fs e gs where ext: "List.extract (\<lambda>e. \<not> le_used e) (rev es) = Some (fs, e, gs)" by (cases "List.extract (\<lambda>e. \<not> le_used e) (rev es)") auto
    note sp = extract_rev_SomeE[OF ext]
    obtain res d where fin: "vt_finalize vt (le_query e) (lr_driver a) = (res, d)" by (cases "vt_finalize vt (le_query e) (lr_driver a)")
    have "le_query e \<in> alive (lr_driver a)" using s a sp(1) by (auto simp: sound_def)
    note d = alive_finalize[OF g this fin]
    have b: "r = Ret ()" "b = a\<lparr>lr_cache := On cap (rev gs @ rev fs), lr_driver := d, lr_heap := C_ORM_FREE (C_ORM_FREE (lr_heap a))\<rparr>"
      using r False fin d(1) by (auto simp: l_evict_def ext pbind_def l_set_def attempt_def l_drive_def l_free_def perr_def preturn_def)
    have "sound H b" using sound_evict[OF s a r] b(1) by simp
    moreover have "alive (lr_driver a) \<subseteq> H \<union> le_query ` set es" using c a by (simp add: complete_def)
    then have "alive d \<subseteq> H \<union> le_query ` set (rev gs @ rev fs)" using d(3) sp(1) by auto
    ultimately show ?thesis using b by (simp add: complete_def)
  qed
  then show "r = Ret ()" and "complete H b" by simp_all
qed

lemma complete_prepare:
  assumes c: "complete H a" and r: "l_prepare vt sql a = (r, b)" "r \<noteq> Stuck"
  shows "case r of Ret q \<Rightarrow> complete (insert q H) b | _ \<Rightarrow> complete H b"
proof -
  have s: "sound H a" and g: "good (lr_driver a)" using c by (simp_all add: complete_def sound_def)
  note s' = sound_prepare[OF s r]
  have direct: "case r of Ret q \<Rightarrow> alive (lr_driver b) \<subseteq> insert q H \<union> le_query ` set (kept (lr_cache a)) \<and> lr_cache b = lr_cache a
      | Err _ \<Rightarrow> alive (lr_driver b) \<subseteq> H \<union> le_query ` set (kept (lr_cache a)) \<and> lr_cache b = lr_cache a | Stuck \<Rightarrow> True"
    if "l_drive (vt_prepare vt sql) a = (r, b)" for r b
  proof -
    from that obtain d where d: "vt_prepare vt sql (lr_driver a) = (r, d)" "b = a\<lparr>lr_driver := d\<rparr>"
      by (auto simp: l_drive_def split: prod.splits)
    show ?thesis
    proof (cases r)
      case (Ret q)
      with prepare_ret[OF g, of sql q d] d c show ?thesis by (auto simp: complete_def)
    next
      case (Err e)
      with prepare_err[OF g, of sql e d] d c show ?thesis by (auto simp: complete_def)
    qed simp
  qed
  show ?thesis
  proof (cases "lr_cache a")
    case Off
    with direct[of r b] r s' show ?thesis by (cases r) (auto simp: l_prepare_def complete_def)
  next
    case Dangling
    with r show ?thesis by (auto simp: l_prepare_def)
  next
    case (On cap es)
    show ?thesis
    proof (cases "List.extract (\<lambda>e. \<not> le_used e \<and> le_sql e = sql) es")
      case (Some x)
      then obtain es1 e es2 where ext: "List.extract (\<lambda>e. \<not> le_used e \<and> le_sql e = sql) es = Some (es1, e, es2)" by (cases x) auto
      then have es: "es = es1 @ e # es2" by (auto dest: extract_SomeE)
      then have "le_query e \<in> alive (lr_driver a)" using s by (auto simp: sound_def On)
      from reset_ok[OF g this] obtain d where d: "vt_reset vt (le_query e) (lr_driver a) = (Ret (), d)" by blast
      have "alive d = alive (lr_driver a)" using reset_ret[OF g d] by simp
      then show ?thesis
        using r s' d ext c es by (auto simp: l_prepare_def On l_set_def pbind_def l_drive_def preturn_def complete_def)
    next
      case None
      then have new: "l_new vt sql cap es a = (r, b)" using r by (simp add: l_prepare_def On)
      obtain r1 a1 where p: "l_drive (vt_prepare vt sql) a = (r1, a1)" by (cases "l_drive (vt_prepare vt sql) a")
      show ?thesis
      proof (cases r1)
        case (Err e)
        with new p direct[OF p] s' show ?thesis by (auto simp: l_new_def pbind_def complete_def On)
      next
        case Stuck
        with new p r show ?thesis by (auto simp: l_new_def pbind_def)
      next
        case (Ret q)
        obtain d where d: "vt_prepare vt sql (lr_driver a) = (Ret q, d)" "a1 = a\<lparr>lr_driver := d\<rparr>"
          using p Ret by (auto simp: l_drive_def split: prod.splits)
        note pr = prepare_ret[OF g d(1)]
        define es' where "es' = \<lparr>le_sql = sql, le_query = q, le_used = True\<rparr> # es"
        have push: "complete (insert q H) (a1\<lparr>lr_heap := h, lr_cache := On cap es'\<rparr>)"
          "complete (insert q H) (a1\<lparr>lr_heap := h\<rparr>)" for h
          using c pr d(2) by (auto simp: complete_def sound_def es'_def On)
        obtain ok1 h1 where 1: "C_ORM_MALLOC (lr_heap a1) = (ok1, h1)" by (cases "C_ORM_MALLOC (lr_heap a1)")
        obtain ok2 h2 where 2: "C_ORM_MALLOC h1 = (ok2, h2)" by (cases "C_ORM_MALLOC h1")
        obtain r3 a3 where e: "l_evict vt cap es' (a1\<lparr>lr_heap := h2, lr_cache := On cap es'\<rparr>) = (r3, a3)"
          by (cases "l_evict vt cap es' (a1\<lparr>lr_heap := h2, lr_cache := On cap es'\<rparr>)")
        have ev: "r3 = Ret ()" "complete (insert q H) a3"
          using complete_evict[OF push(1) _ e] by simp_all
        show ?thesis
          using new p Ret 1 2 e ev push(2)
          by (cases ok1; cases ok2) (auto simp: l_new_def pbind_def l_alloc_def l_free_def l_set_def preturn_def es'_def[symmetric] Let_def)
      qed
    qed
  qed
qed

lemma complete_exec:
  assumes "complete H a" and "lru_exec vt x a = (r, b)" and "r \<noteq> Stuck" and "x \<noteq> Disable"
  shows "complete (held H x r) b"
proof (cases x)
  case (Enable n)
  have "lr_driver b = lr_driver a" "le_query ` set (kept (lr_cache b)) = le_query ` set (kept (lr_cache a))"
    using assms(2) Enable by (auto simp: returning_def l_enable_def pbind_def l_alloc_def l_free_def l_set_def perr_def preturn_def
        split: prod.splits if_splits outcome.splits)
  moreover have "sound (held H x r) b" using sound_exec(1) assms by (auto simp: complete_def)
  ultimately show ?thesis using assms(1) Enable by (simp add: complete_def)
next
  case (Prepare_cached sql)
  obtain r' where p: "l_prepare vt sql a = (r', b)" "r = (case r' of Ret q \<Rightarrow> Ret (Query q) | Err e \<Rightarrow> Err e | Stuck \<Rightarrow> Stuck)"
    using assms(2) Prepare_cached by (cases "l_prepare vt sql a") (auto simp: returning_def pbind_def preturn_def split: outcome.splits)
  have "r' \<noteq> Stuck" using p(2) assms(3) by auto
  with complete_prepare[OF assms(1) p(1)] p(2) show ?thesis by (auto simp: Prepare_cached split: outcome.splits)
next
  case (Finalize_cached q)
  obtain r' where p: "l_finalize vt q a = (r', b)" "r = (case r' of Ret q \<Rightarrow> Ret Ok | Err e \<Rightarrow> Err e | Stuck \<Rightarrow> Stuck)"
    using assms(2) Finalize_cached by (cases "l_finalize vt q a") (auto simp: returning_def pbind_def preturn_def split: outcome.splits)
  have "r' \<noteq> Stuck" using p(2) assms(3) by auto
  with complete_finalize[OF assms(1) p(1)] p(2) show ?thesis by (auto simp: Finalize_cached split: outcome.splits)
qed (use assms(4) in simp)

lemma complete_run:
  "complete H a \<Longrightarrow> accounted L a \<Longrightarrow> run_ops (lru_exec vt) xs a = (rs, b) \<Longrightarrow> Disable \<notin> set xs \<Longrightarrow> Stuck \<notin> set rs \<Longrightarrow>
     complete (held_after H xs rs) b \<and> accounted L b"
proof (induction xs arbitrary: H a rs b)
  case (Cons x xs)
  obtain r u where r: "lru_exec vt x a = (r, u)" by (cases "lru_exec vt x a")
  obtain rs' b' where rest: "run_ops (lru_exec vt) xs u = (rs', b')" by (cases "run_ops (lru_exec vt) xs u")
  have "r \<noteq> Stuck" using Cons.prems(3,5) r by auto
  moreover from this have "rs = r # rs' \<and> b = b'" using Cons.prems(3) r rest by (cases r) auto
  ultimately show ?case
    using Cons.IH[OF complete_exec[OF Cons.prems(1) r] accounted_exec[OF Cons.prems(2) r] rest] Cons.prems(4,5) by auto
qed simp

lemma free_all_run:
  "good (lr_driver a) \<Longrightarrow> distinct (map le_query es) \<Longrightarrow> le_query ` set es \<subseteq> alive (lr_driver a) \<Longrightarrow>
     \<exists>b. l_free_all vt es a = (Ret (), b) \<and> lr_cache b = Off \<and> good (lr_driver b)
       \<and> alive (lr_driver b) = alive (lr_driver a) - le_query ` set es \<and> live (lr_heap b) = live (lr_heap a) - 2 * int (length es) - 2"
proof (induction es arbitrary: a)
  case Nil
  then show ?case by (simp add: pbind_Ret l_free_def l_set_def)
next
  case (Cons e es)
  obtain r d where r: "vt_finalize vt (le_query e) (lr_driver a) = (r, d)" by (cases "vt_finalize vt (le_query e) (lr_driver a)")
  note d = alive_finalize[OF Cons.prems(1) _ r]
  have d': "r = Ret ()" "good d" "alive d = alive (lr_driver a) - {le_query e}" using d Cons.prems(3) by simp_all
  define u where "u = a\<lparr>lr_driver := d, lr_heap := C_ORM_FREE (C_ORM_FREE (lr_heap a)), lr_cache := Dangling\<rparr>"
  have "le_query ` set es \<subseteq> alive (lr_driver u)" using Cons.prems(2,3) d'(3) by (simp add: u_def subset_Diff_insert)
  then obtain b where "l_free_all vt es u = (Ret (), b)" "lr_cache b = Off" "good (lr_driver b)"
    "alive (lr_driver b) = alive (lr_driver u) - le_query ` set es" "live (lr_heap b) = live (lr_heap u) - 2 * int (length es) - 2"
    using Cons.IH[of u] Cons.prems(2) d'(2) by (auto simp: u_def)
  moreover have "l_free_all vt (e # es) a = l_free_all vt es u"
    using r d'(1) by (simp add: pbind_Ret l_drive_def l_free_def l_set_def u_def)
  ultimately show ?case using d'(3) by (auto simp: u_def)
qed

lemma drained:
  \<comment> \<open>switching the cache off leaves alive only what the user has and the cache does not know\<close>
  assumes c: "complete H a" and acc: "accounted L a"
  shows "\<exists>b. l_disable vt a = (Ret (), b) \<and> lr_cache b = Off \<and> good (lr_driver b) \<and> alive (lr_driver b) \<subseteq> H \<and> live (lr_heap b) = L"
proof (cases "lr_cache a")
  case Off
  with c acc show ?thesis by (auto simp: l_disable_def complete_def sound_def accounted_def cache_blocks_def)
next
  case Dangling
  with c show ?thesis by (simp add: complete_def sound_def)
next
  case (On cap es)
  have s: "good (lr_driver a)" "distinct (map le_query es)" "le_query ` set es \<subseteq> alive (lr_driver a)"
    "alive (lr_driver a) \<subseteq> H \<union> le_query ` set es"
    using c by (auto simp: complete_def sound_def On)
  from free_all_run[OF s(1,2,3)] s(4) acc show ?thesis by (auto simp: l_disable_def On accounted_def cache_blocks_def)
qed

end

section \<open>The memory driver\<close>

definition memory_vtable :: "mem_state driver_vtable" where
  "memory_vtable = \<lparr>vt_prepare = mem_prepare, vt_finalize = (\<lambda>q. mem_finalize (Some q)), vt_reset = (\<lambda>q. mem_reset (Some q))\<rparr>"

definition live_queries :: "mem_state \<Rightarrow> nat set" where
  "live_queries d = fst ` set (md_queries d)"

lemma mem_prepare_queries:
  "mem_prepare sql d = (r, d') \<Longrightarrow>
     (case r of Ret q \<Rightarrow> q = md_fresh d \<and> live_queries d' = insert q (live_queries d) | Err _ \<Rightarrow> live_queries d' = live_queries d | Stuck \<Rightarrow> True)"
  by (auto simp: mem_prepare_def pbind_def mem_alloc_def perr_def new_query_def fresh_address_def lift_outcome_def live_queries_def
      split: prod.splits outcome.splits if_splits option.splits)

lemma live_queries_iff: "q \<in> live_queries d \<longleftrightarrow> (\<exists>x. map_of (md_queries d) q = Some x)"
  using map_of_eq_None_iff[of "md_queries d" q] by (auto simp: live_queries_def)

lemma mem_finalize_queries:
  "fst (mem_finalize (Some q) d) = (if q \<in> live_queries d then Ret () else Stuck)"
  "q \<in> live_queries d \<Longrightarrow> live_queries (snd (mem_finalize (Some q) d)) = live_queries d - {q}"
proof -
  show "fst (mem_finalize (Some q) d) = (if q \<in> live_queries d then Ret () else Stuck)"
    by (auto simp: mem_finalize_def the_query_def pbind_def live_queries_iff split: option.splits)
  assume "q \<in> live_queries d"
  then obtain x where "map_of (md_queries d) q = Some x" by (auto simp: live_queries_iff)
  then show "live_queries (snd (mem_finalize (Some q) d)) = live_queries d - {q}"
    by (auto simp: mem_finalize_def the_query_def pbind_def live_queries_def AList.delete_eq)
qed

lemma mem_reset_queries:
  "fst (mem_reset (Some q) d) = (if q \<in> live_queries d then Ret () else Stuck)"
  "q \<in> live_queries d \<Longrightarrow> live_queries (snd (mem_reset (Some q) d)) = live_queries d"
proof -
  show "fst (mem_reset (Some q) d) = (if q \<in> live_queries d then Ret () else Stuck)"
    by (auto simp: mem_reset_def the_query_def pbind_def set_query_def live_queries_iff split: option.splits)
  assume q: "q \<in> live_queries d"
  then obtain x where "map_of (md_queries d) q = Some x" by (auto simp: live_queries_iff)
  then show "live_queries (snd (mem_reset (Some q) d)) = live_queries d"
    using q by (auto simp: mem_reset_def the_query_def pbind_def set_query_def live_queries_def AList.dom_update)
qed

lemma neat_fresh: "neat L d \<Longrightarrow> md_fresh d \<notin> live_queries d"
  by (auto simp: owes_def wf_def live_queries_def)

interpretation memory: reliable_driver memory_vtable "neat L" live_queries for L
proof (unfold_locales, goal_cases)
  case (1 d sql q d')
  then have p: "mem_prepare sql d = (Ret q, d')" by (simp add: memory_vtable_def)
  show ?case using triple_at[OF t_prepare 1(1) p] mem_prepare_queries[OF p] neat_fresh[OF 1(1)] by simp
next
  case (2 d sql e d')
  then have p: "mem_prepare sql d = (Err e, d')" by (simp add: memory_vtable_def)
  show ?case using triple_at[OF t_prepare 2(1) p] mem_prepare_queries[OF p] by simp
next
  case (3 d q u d')
  then have p: "mem_finalize (Some q) d = (Ret u, d')" by (simp add: memory_vtable_def)
  then have "q \<in> live_queries d" using mem_finalize_queries(1)[of q d] by (auto split: if_splits)
  then show ?case using triple_at[OF t_finalize 3(1) p] mem_finalize_queries(2)[of q d] p by simp
next
  case (4 d q e d')
  then have "mem_finalize (Some q) d = (Err e, d')" by (simp add: memory_vtable_def)
  then show ?case using mem_finalize_queries(1)[of q d] by (simp split: if_splits)
next
  case (5 d q u d')
  then have p: "mem_reset (Some q) d = (Ret u, d')" by (simp add: memory_vtable_def)
  then have "q \<in> live_queries d" using mem_reset_queries(1)[of q d] by (auto split: if_splits)
  then show ?case using triple_at[OF t_reset 5(1) p] mem_reset_queries(2)[of q d] p by simp
next
  case (6 d q e d')
  then have "mem_reset (Some q) d = (Err e, d')" by (simp add: memory_vtable_def)
  then show ?case using mem_reset_queries(1)[of q d] by (simp split: if_splits)
next
  case (7 d q)
  then show ?case using mem_finalize_queries(1)[of q d] by (cases "mem_finalize (Some q) d") (simp add: memory_vtable_def)
next
  case (8 d q)
  then show ?case using mem_reset_queries(1)[of q d] by (cases "mem_reset (Some q) d") (simp add: memory_vtable_def)
qed

section \<open>Properties\<close>

definition uncached :: "'d \<Rightarrow> heap \<Rightarrow> 'd cache_state" where
  "uncached d h = \<lparr>cs_driver = d, cs_cache = None, cs_entries = (\<lambda>_. None), cs_fresh = 0, cs_heap = h\<rparr>"

definition lru_off :: "'d \<Rightarrow> heap \<Rightarrow> 'd lru_state" where
  "lru_off d h = \<lparr>lr_driver = d, lr_cache = Off, lr_heap = h\<rparr>"

lemma represents_off: "represents (uncached d h) (lru_off d h)"
  by (simp add: represents_def uncached_def lru_off_def)

text \<open>C22 (cache_refines).
  The statement cache is an LRU list: for every driver, every sequence of calls and every behaviour of the
  allocator, the linked entries behind the mutex produce the outcomes of the abstract list (a hit moves
  to the front, a miss is prepared and pushed, the last unused entry is evicted), with the same
  calls of the driver; a mutex is never locked twice and no freed entry is used unless switching off failed half way.
\<close>

theorem cache_refines:
  "fst (run_ops (cache_exec vt) xs (uncached d h)) = fst (run_ops (lru_exec vt) xs (lru_off d h))
   \<and> (Stuck \<in> set (fst (run_ops (cache_exec vt) xs (uncached d h)))
      \<or> represents (snd (run_ops (cache_exec vt) xs (uncached d h))) (snd (run_ops (lru_exec vt) xs (lru_off d h))))"
proof -
  obtain rs t where r: "run_ops (cache_exec vt) xs (uncached d h) = (rs, t)" by (cases "run_ops (cache_exec vt) xs (uncached d h)")
  from run_follows[OF represents_off r] r show ?thesis by auto
qed

text \<open>C23 (cache_exclusive).
  A statement that a user of the cache over the memory driver has and has not given back is never handed out a
  second time, whatever allocations fail and whatever is evicted, as long as the cache is not switched off in between.
\<close>

theorem cache_exclusive:
  assumes "mem_connect True h = (Ret d, h')" and "run_ops (cache_exec memory_vtable) xs (uncached d k) = (rs, t)" and "Disable \<notin> set xs"
  shows "exclusive {} xs rs"
proof -
  obtain b where b: "run_ops (lru_exec memory_vtable) xs (lru_off d k) = (rs, b)"
    using run_follows[OF represents_off assms(2)] by blast
  have "memory.sound (live h + 2) {} (lru_off d k)"
    using connect_state(1)[OF assms(1)] by (simp add: memory.sound_def lru_off_def)
  from memory.sound_run[OF this b assms(3)] show ?thesis by simp
qed

definition sample_cached :: "cache_op list" where
  \<comment> \<open>a cache for one statement: the first one is evicted, the second one is found again\<close>
  "sample_cached = [Enable 1, Prepare_cached ''SELECT * FROM t'', Prepare_cached ''SELECT * FROM u'', Finalize_cached 0,
     Prepare_cached ''INSERT INTO t (a) VALUES (?)'', Finalize_cached 1, Prepare_cached ''SELECT * FROM u'', Finalize_cached 2, Finalize_cached 1]"

lemma sample_cached_run:
  "fst (run_ops (cache_exec memory_vtable) sample_cached (uncached (connected []) \<lparr>script = [], live = 0\<rparr>))
     = [Ret Ok, Ret (Query 0), Ret (Query 1), Ret Ok, Ret (Query 2), Ret Ok, Ret (Query 1), Ret Ok, Ret Ok]"
  by code_simp

lemma sample_connect: "mem_connect True \<lparr>script = [], live = 0\<rparr> = (Ret (connected []), \<lparr>script = [], live = 2\<rparr>)"
  by (simp add: mem_connect_def connected_def C_ORM_MALLOC_def)

lemma cache_exclusive_witness:
  "exclusive {} sample_cached [Ret Ok, Ret (Query 0), Ret (Query 1), Ret Ok, Ret (Query 2), Ret Ok, Ret (Query 1), Ret Ok, Ret Ok]"
proof -
  obtain rs t where r: "run_ops (cache_exec memory_vtable) sample_cached (uncached (connected []) \<lparr>script = [], live = 0\<rparr>) = (rs, t)"
    by (metis surj_pair)
  have "Disable \<notin> set sample_cached" by code_simp
  from cache_exclusive[OF sample_connect r this] sample_cached_run r show ?thesis by simp
qed

text \<open>C24 (cached_leak_free).
  Connection, cache and statements together lose no memory: connect the memory driver, prepare and give
  back any statements through the cache, switch the cache off and disconnect; when the user has given everything back,
  all calls succeed and both the cache's and the driver's blocks are those from before.
\<close>

theorem cached_leak_free:
  assumes "mem_connect True h = (Ret d, h')" and "run_ops (cache_exec memory_vtable) xs (uncached d k) = (rs, t)" and "Disable \<notin> set xs"
    and "Stuck \<notin> set rs" and "held_after {} xs rs = {}"
  shows "\<exists>u v. c_orm_disable_statement_caching memory_vtable True t = (Ret (), u) \<and> live (cs_heap u) = live k
    \<and> mem_disconnect (cs_driver u) = (Ret (), v) \<and> live (md_heap v) = live h"
proof -
  obtain b where b: "run_ops (lru_exec memory_vtable) xs (lru_off d k) = (rs, b)" "represents t b"
    using run_follows[OF represents_off assms(2)] assms(4) by blast
  have d: "live_queries d = {}" using assms(1)
    by (auto simp: mem_connect_def live_queries_def split: prod.splits if_splits)
  have "memory.complete (live h + 2) {} (lru_off d k)"
    using connect_state(1)[OF assms(1)] d by (simp add: memory.complete_def memory.sound_def lru_off_def)
  moreover have "accounted (live k) (lru_off d k)" by (simp add: accounted_def cache_blocks_def lru_off_def)
  ultimately have "memory.complete (live h + 2) {} b" "accounted (live k) b"
    using memory.complete_run[OF _ _ b(1) assms(3,4), of "live h + 2" "{}" "live k"] assms(5) by simp_all
  from memory.drained[OF this] obtain c where c: "l_disable memory_vtable b = (Ret (), c)" "lr_cache c = Off"
    "neat (live h + 2) (lr_driver c)" "live_queries (lr_driver c) \<subseteq> {}" "live (lr_heap c) = live k" by blast
  obtain u where u: "c_orm_disable_statement_caching memory_vtable True t = (Ret (), u)" "represents u c"
    using disable_follows[OF b(2), of memory_vtable] c(1)
    by (cases "c_orm_disable_statement_caching memory_vtable True t") (auto simp: follows_def)
  have "md_queries (lr_driver c) = []" using c(4) by (simp add: live_queries_def)
  from disconnect_neat[OF c(3) this] u c(5) show ?thesis by (auto simp: represents_def)
qed

lemma cached_leak_free_witness:
  "\<exists>u v. c_orm_disable_statement_caching memory_vtable True
       (snd (run_ops (cache_exec memory_vtable) sample_cached (uncached (connected []) \<lparr>script = [], live = 0\<rparr>))) = (Ret (), u)
     \<and> live (cs_heap u) = 0 \<and> mem_disconnect (cs_driver u) = (Ret (), v) \<and> live (md_heap v) = 0"
proof -
  obtain rs t where r: "run_ops (cache_exec memory_vtable) sample_cached (uncached (connected []) \<lparr>script = [], live = 0\<rparr>) = (rs, t)"
    by (metis surj_pair)
  have rs: "rs = [Ret Ok, Ret (Query 0), Ret (Query 1), Ret Ok, Ret (Query 2), Ret Ok, Ret (Query 1), Ret Ok, Ret Ok]"
    using sample_cached_run r by simp
  have "Disable \<notin> set sample_cached" "Stuck \<notin> set rs" "held_after {} sample_cached rs = {}"
    unfolding rs by code_simp+
  from cached_leak_free[OF sample_connect r this] r show ?thesis by simp
qed

end
