(* ===== verification/RelationGraph.thy ===== *)
theory RelationGraph
  imports Act Meta
begin

text \<open>
  The check of the declared relations (\<open>c_orm_validate_relations\<close> of \<open>src/c_orm_api.c\<close>): a depth first search
  over the tables, whose relations lead from a table to the table they name, or else to the metadata they point
  to. \<open>visited\<close> is an array parallel to the array of tables: 0 for a table not seen, 1 for one on the stack, 2 for
  one that is done. The array holds pointers; two places of it may hold the same one, and only the first counts.
\<close>

section \<open>The code\<close>

fun index_of :: "nat list \<Rightarrow> nat \<Rightarrow> nat option" where
  "index_of [] t = None"
| "index_of (x # xs) t = (if x = t then Some 0 else map_option Suc (index_of xs t))"

fun find_named :: "meta_store \<Rightarrow> string \<Rightarrow> nat list \<Rightarrow> ('s, nat option) act" where
  \<comment> \<open>\<open>strcmp\<close> of a NULL name is undefined\<close>
  "find_named st name [] = preturn None"
| "find_named st name (t # ts) =
     (case tbl_name (st t) of
        None \<Rightarrow> stuck
      | Some n \<Rightarrow> if n = name then preturn (Some t) else find_named st name ts)"

definition relation_target :: "meta_store \<Rightarrow> nat list \<Rightarrow> c_orm_relation_meta_t \<Rightarrow> ('s, nat option) act" where
  "relation_target st tables r =
     pbind (case target_table r of None \<Rightarrow> preturn None | Some name \<Rightarrow> find_named st name tables)
       (\<lambda>target. preturn (case target of Some t \<Rightarrow> Some t | None \<Rightarrow> target_meta r))"

fun dfs_relations :: "(nat \<Rightarrow> ('s, unit) act) \<Rightarrow> meta_store \<Rightarrow> nat list \<Rightarrow> c_orm_relation_meta_t list \<Rightarrow> ('s, unit) act" where
  "dfs_relations visit st tables [] = preturn ()"
| "dfs_relations visit st tables (r # rs) =
     pbind (relation_target st tables r) (\<lambda>target.
       pbind (case target of Some t \<Rightarrow> visit t | None \<Rightarrow> preturn ()) (\<lambda>_.
         dfs_relations visit st tables rs))"

definition set_visited :: "nat \<Rightarrow> nat \<Rightarrow> (nat list, unit) act" where
  "set_visited i c visited = (Ret (), visited[i := c])"

fun c_orm_dfs_validate_table :: "nat \<Rightarrow> meta_store \<Rightarrow> nat list \<Rightarrow> nat \<Rightarrow> (nat list, unit) act" where
  \<comment> \<open>the first argument is the depth of calls that the stack has room for\<close>
  "c_orm_dfs_validate_table 0 st tables current = stuck"
| "c_orm_dfs_validate_table (Suc depth) st tables current =
     (\<lambda>visited.
       case index_of tables current of
         None \<Rightarrow> (Err C_ORM_ERROR_NOT_FOUND, visited)
       | Some i \<Rightarrow>
           if length visited \<le> i then (Stuck, visited)
           else if visited ! i = 1 then (Err C_ORM_ERROR_RECURSION, visited)
           else if visited ! i = 2 then (Ret (), visited)
           else pbind (set_visited i 1) (\<lambda>_.
                  pbind (dfs_relations (c_orm_dfs_validate_table depth st tables) st tables (relations (st current))) (\<lambda>_.
                    set_visited i 2)) visited)"

fun validate_tables :: "nat \<Rightarrow> meta_store \<Rightarrow> nat list \<Rightarrow> (nat \<times> nat) list \<Rightarrow> (nat list, unit) act" where
  \<comment> \<open>the loop over the places of the array\<close>
  "validate_tables depth st tables [] = preturn ()"
| "validate_tables depth st tables ((i, t) # rest) =
     pbind (\<lambda>visited.
         if length visited \<le> i then (Stuck, visited)
         else if visited ! i = 0 then c_orm_dfs_validate_table depth st tables t visited
         else (Ret (), visited))
       (\<lambda>_. validate_tables depth st tables rest)"

definition c_orm_validate_relations :: "nat \<Rightarrow> meta_store \<Rightarrow> nat list \<Rightarrow> (heap, unit) act" where
  "c_orm_validate_relations depth st tables h =
     (if tables = [] then (Err C_ORM_ERROR_MEMORY, h)
      else case C_ORM_MALLOC h of
        (False, h') \<Rightarrow> (Err C_ORM_ERROR_MEMORY, h')
      | (True, h') \<Rightarrow>
          (fst (validate_tables depth st tables (enumerate 0 tables) (replicate (length tables) 0)), C_ORM_FREE h'))"

section \<open>The graph\<close>

definition target_of :: "meta_store \<Rightarrow> nat list \<Rightarrow> c_orm_relation_meta_t \<Rightarrow> nat option" where
  "target_of st tables r =
     (case Option.bind (target_table r) (\<lambda>name. find (\<lambda>t. tbl_name (st t) = Some name) tables) of
        Some t \<Rightarrow> Some t
      | None \<Rightarrow> target_meta r)"

definition relation_graph :: "meta_store \<Rightarrow> nat list \<Rightarrow> (nat \<times> nat) set" where
  "relation_graph st tables = {(a, b). a \<in> set tables \<and> (\<exists>r \<in> set (relations (st a)). target_of st tables r = Some b)}"

definition all_named :: "meta_store \<Rightarrow> nat list \<Rightarrow> bool" where
  "all_named st tables \<longleftrightarrow> (\<forall>t \<in> set tables. tbl_name (st t) \<noteq> None)"

definition relations_closed :: "meta_store \<Rightarrow> nat list \<Rightarrow> bool" where
  "relations_closed st tables \<longleftrightarrow> relation_graph st tables `` set tables \<subseteq> set tables"

section \<open>The search\<close>

lemma index_of_None: "index_of xs t = None \<longleftrightarrow> t \<notin> set xs"
  by (induction xs) auto

lemma index_of_Some: "index_of xs t = Some i \<Longrightarrow> i < length xs \<and> xs ! i = t"
  by (induction xs arbitrary: i) (auto split: if_splits)

lemma index_of_inj: "index_of xs t = Some i \<Longrightarrow> index_of xs u = Some i \<Longrightarrow> t = u"
  by (auto dest: index_of_Some)

lemma find_named_eq:
  assumes "\<And>t. t \<in> set ts \<Longrightarrow> tbl_name (st t) \<noteq> None"
  shows "find_named st name ts s = (Ret (find (\<lambda>t. tbl_name (st t) = Some name) ts), s)"
  using assms
proof (induction ts)
  case (Cons t ts)
  then obtain n where "tbl_name (st t) = Some n" by auto
  with Cons show ?case by (simp add: preturn_def)
qed (simp add: preturn_def)

lemma relation_target_eq:
  "all_named st tables \<Longrightarrow> relation_target st tables r s = (Ret (target_of st tables r), s)"
  by (cases "target_table r")
    (simp_all add: relation_target_def target_of_def pbind_def preturn_def find_named_eq all_named_def)

definition coloured :: "nat list \<Rightarrow> nat list \<Rightarrow> nat \<Rightarrow> nat set" where
  \<comment> \<open>the tables whose first place carries the mark \<open>c\<close>\<close>
  "coloured tables visited c = {t. \<exists>i. index_of tables t = Some i \<and> visited ! i = c}"

definition marks_ok :: "nat list \<Rightarrow> nat list \<Rightarrow> bool" where
  "marks_ok tables visited \<longleftrightarrow>
     (\<forall>i < length visited. visited ! i \<le> 2 \<and> (visited ! i \<noteq> 0 \<longrightarrow> index_of tables (tables ! i) = Some i))"

definition searched :: "meta_store \<Rightarrow> nat list \<Rightarrow> nat list \<Rightarrow> bool" where
  \<comment> \<open>what is done is closed and without a cycle\<close>
  "searched st tables visited \<longleftrightarrow>
     length visited = length tables \<and> marks_ok tables visited \<and>
     relation_graph st tables `` coloured tables visited 2 \<subseteq> coloured tables visited 2 \<and>
     (\<forall>t \<in> coloured tables visited 2. (t, t) \<notin> (relation_graph st tables)\<^sup>+)"

lemma coloured_subset: "coloured tables visited c \<subseteq> set tables"
proof
  fix t assume "t \<in> coloured tables visited c"
  then have "index_of tables t \<noteq> None" by (auto simp: coloured_def)
  then show "t \<in> set tables" by (simp add: index_of_None)
qed

lemma coloured_update:
  assumes "index_of tables t = Some i" and "length visited = length tables"
  shows "coloured tables (visited[i := c]) d =
    (if c = d then insert t (coloured tables visited d) else coloured tables visited d - {t})"
proof -
  have i: "i < length visited" using assms index_of_Some by fastforce
  have only: "index_of tables u = Some i \<longleftrightarrow> u = t" for u
  proof
    assume "index_of tables u = Some i"
    from index_of_inj [OF this assms(1)] show "u = t" .
  qed (simp add: assms(1))
  show ?thesis
  proof (rule set_eqI)
    fix u
    have "(\<exists>j. index_of tables u = Some j \<and> visited[i := c] ! j = d) \<longleftrightarrow>
        (if u = t then c = d else \<exists>j. index_of tables u = Some j \<and> visited ! j = d)"
      using only [of u] assms(1) i by (cases "u = t"; cases "index_of tables u") (simp_all add: nth_list_update)
    then show "u \<in> coloured tables (visited[i := c]) d \<longleftrightarrow>
        u \<in> (if c = d then insert t (coloured tables visited d) else coloured tables visited d - {t})"
      by (simp add: coloured_def)
  qed
qed

text \<open>A closed set that is entered is never left, so no path from it leads outside.\<close>

lemma closed_trancl:
  assumes "E `` B \<subseteq> B" and "(x, y) \<in> E\<^sup>+" and "x \<in> B"
  shows "y \<in> B"
  using assms(2,3,1) by (induction rule: trancl_induct) auto

lemma cycle_enters:
  assumes closed: "E `` B \<subseteq> B" and succ: "E `` {x} \<subseteq> B" and x: "x \<notin> B"
  shows "(x, x) \<notin> E\<^sup>+"
proof
  assume "(x, x) \<in> E\<^sup>+"
  then obtain z where z: "(x, z) \<in> E" "(z, x) \<in> E\<^sup>*" by (blast dest: tranclD)
  with succ have "z \<in> B" by auto
  with z(2) closed have "x \<in> B" by (induction rule: rtrancl_induct) auto
  with x show False ..
qed


definition search_end :: "meta_store \<Rightarrow> nat list \<Rightarrow> nat set \<Rightarrow> nat list \<Rightarrow> unit outcome \<times> nat list \<Rightarrow> bool" where
  \<comment> \<open>how a search may end: the stack as before and the goals done, or an error with its reason\<close>
  "search_end st tables goals visited res \<longleftrightarrow>
     (case res of
        (Ret _, visited') \<Rightarrow>
          searched st tables visited' \<and> coloured tables visited' 1 = coloured tables visited 1 \<and>
          coloured tables visited 2 \<union> goals \<subseteq> coloured tables visited' 2
      | (Err e, _) \<Rightarrow>
          e = C_ORM_ERROR_RECURSION \<and> \<not> acyclic (relation_graph st tables) \<or>
          e = C_ORM_ERROR_NOT_FOUND \<and> \<not> relations_closed st tables
      | (Stuck, _) \<Rightarrow> False)"

definition search_start :: "meta_store \<Rightarrow> nat list \<Rightarrow> nat \<Rightarrow> nat \<Rightarrow> nat list \<Rightarrow> bool" where
  "search_start st tables depth t visited \<longleftrightarrow>
     searched st tables visited \<and> (t \<in> set tables \<or> \<not> relations_closed st tables) \<and>
     (\<forall>g \<in> coloured tables visited 1. (g, t) \<in> (relation_graph st tables)\<^sup>+) \<and>
     card (coloured tables visited 0) < depth"

lemma searched_colours:
  assumes "searched st tables visited"
  shows "coloured tables visited 0 = set tables - coloured tables visited 1 - coloured tables visited 2"
proof -
  have "visited ! i = 0 \<or> visited ! i = 1 \<or> visited ! i = 2" if "index_of tables t = Some i" for t i
  proof -
    have "visited ! i \<le> 2" using assms index_of_Some [OF that] by (simp add: searched_def marks_ok_def)
    then show ?thesis by linarith
  qed
  moreover have "t \<in> set tables \<longleftrightarrow> (\<exists>i. index_of tables t = Some i)" for t
    using index_of_None [of tables t] by auto
  ultimately show ?thesis by (fastforce simp: coloured_def)
qed

lemma search_end_white:
  assumes "searched st tables visited" and "search_end st tables goals visited (Ret u, visited')"
  shows "coloured tables visited' 0 \<subseteq> coloured tables visited 0"
  using assms searched_colours [OF assms(1)] searched_colours [of st tables visited']
  by (auto simp: search_end_def)

lemma search_end_card:
  assumes "searched st tables visited" and "search_end st tables goals visited (Ret u, visited')"
  shows "card (coloured tables visited' 0) \<le> card (coloured tables visited 0)"
  using search_end_white [OF assms] coloured_subset finite_subset
  by (metis card_mono List.finite_set)

lemma search_end_trans:
  assumes "search_end st tables goals visited (Ret u, visited')" and "search_end st tables goals' visited' res"
  shows "search_end st tables (goals \<union> goals') visited res"
  using assms by (auto simp: search_end_def split: prod.splits outcome.splits)

lemma dfs_relations_search:
  assumes named: "all_named st tables"
    and visit: "\<And>t visited. search_start st tables depth t visited \<Longrightarrow> search_end st tables {t} visited (visit t visited)"
    and start: "\<And>r t. r \<in> set rs \<Longrightarrow> target_of st tables r = Some t \<Longrightarrow> search_start st tables depth t visited"
    and searched: "searched st tables visited"
  shows "search_end st tables {t. \<exists>r \<in> set rs. target_of st tables r = Some t} visited
    (dfs_relations visit st tables rs visited)"
  using start searched
proof (induction rs arbitrary: visited)
  case Nil
  then show ?case by (simp add: search_end_def preturn_def)
next
  case (Cons r rs)
  show ?case
  proof (cases "target_of st tables r")
    case None
    then have "dfs_relations visit st tables (r # rs) visited = dfs_relations visit st tables rs visited"
      by (simp add: pbind_def relation_target_eq [OF named] preturn_def)
    moreover have "search_end st tables {t. \<exists>r \<in> set rs. target_of st tables r = Some t} visited
        (dfs_relations visit st tables rs visited)"
      by (rule Cons.IH) (use Cons.prems in auto)
    ultimately show ?thesis using None by simp
  next
    case (Some t)
    have first: "search_end st tables {t} visited (visit t visited)"
      using Cons.prems(1) [of r t] Some visit by simp
    have run: "dfs_relations visit st tables (r # rs) visited = pbind (visit t) (\<lambda>_. dfs_relations visit st tables rs) visited"
      using Some by (simp add: pbind_def relation_target_eq [OF named])
    have goals: "{t. \<exists>r \<in> set (r # rs). target_of st tables r = Some t}
        = {t} \<union> {t. \<exists>r \<in> set rs. target_of st tables r = Some t}"
      using Some by auto
    obtain o1 v1 where v: "visit t visited = (o1, v1)" by (cases "visit t visited")
    show ?thesis
    proof (cases o1)
      case (Ret u)
      with v first have f: "search_end st tables {t} visited (Ret u, v1)" by simp
      have "search_start st tables depth x v1" if "r' \<in> set rs" "target_of st tables r' = Some x" for r' x
        using Cons.prems(1) [of r' x] that f search_end_card [OF Cons.prems(2) f]
        by (auto simp: search_start_def search_end_def)
      moreover have "searched st tables v1" using f by (simp add: search_end_def)
      ultimately have "search_end st tables {t. \<exists>r \<in> set rs. target_of st tables r = Some t} v1
          (dfs_relations visit st tables rs v1)"
        using Cons.IH by blast
      from search_end_trans [OF f this] show ?thesis by (simp only: run goals) (simp add: pbind_def v Ret)
    next
      case (Err e)
      with first v show ?thesis unfolding run by (simp add: search_end_def pbind_def)
    next
      case Stuck
      with first v show ?thesis by (simp add: search_end_def)
    qed
  qed
qed

lemma marks_update:
  assumes "marks_ok tables visited" and "c \<le> 2" and "index_of tables t = Some i"
  shows "marks_ok tables (visited[i := c])"
proof -
  have "visited[i := c] ! j \<le> 2 \<and> (visited[i := c] ! j \<noteq> 0 \<longrightarrow> index_of tables (tables ! j) = Some j)"
    if "j < length visited" for j
    using assms that index_of_Some [OF assms(3)] by (cases "i = j") (simp_all add: marks_ok_def)
  then show ?thesis by (simp add: marks_ok_def)
qed

lemma searched_done:
  assumes "searched st tables visited" and "index_of tables t = Some i"
    and "t \<notin> coloured tables visited 2"
    and "\<And>u. (t, u) \<in> relation_graph st tables \<Longrightarrow> u \<in> coloured tables visited 2"
  shows "searched st tables (visited[i := 2])"
proof -
  let ?E = "relation_graph st tables" and ?B = "coloured tables visited 2"
  have len: "length visited = length tables" and marks: "marks_ok tables visited"
    and closed: "?E `` ?B \<subseteq> ?B" and nocyc: "\<forall>t \<in> ?B. (t, t) \<notin> ?E\<^sup>+"
    using assms(1) by (simp_all add: searched_def)
  have B: "coloured tables (visited[i := 2]) 2 = insert t ?B"
    using coloured_update [OF assms(2) len] by simp
  have "(t, t) \<notin> ?E\<^sup>+" by (rule cycle_enters [OF closed _ assms(3)]) (use assms(4) in auto)
  with nocyc have "\<forall>u \<in> insert t ?B. (u, u) \<notin> ?E\<^sup>+" by simp
  moreover have "?E `` insert t ?B \<subseteq> insert t ?B" using closed assms(4) by auto
  moreover have "marks_ok tables (visited[i := 2])" by (rule marks_update [OF marks _ assms(2)]) simp
  ultimately show ?thesis unfolding searched_def B using len by simp
qed

lemma searched_enter:
  assumes "searched st tables visited" and "index_of tables t = Some i" and "visited ! i = 0"
  shows "searched st tables (visited[i := 1])"
    and "coloured tables (visited[i := 1]) 1 = insert t (coloured tables visited 1)"
    and "coloured tables (visited[i := 1]) 2 = coloured tables visited 2"
    and "coloured tables (visited[i := 1]) 0 = coloured tables visited 0 - {t}"
proof -
  have len: "length visited = length tables" using assms(1) by (simp add: searched_def)
  have two: "t \<notin> coloured tables visited 2" using assms by (simp add: coloured_def)
  show b: "coloured tables (visited[i := 1]) 2 = coloured tables visited 2"
    using two coloured_update [OF assms(2) len, of 1 2] by simp
  show "coloured tables (visited[i := 1]) 1 = insert t (coloured tables visited 1)"
    "coloured tables (visited[i := 1]) 0 = coloured tables visited 0 - {t}"
    using coloured_update [OF assms(2) len] by simp_all
  show "searched st tables (visited[i := 1])"
    using assms(1) b marks_update [of tables visited 1 t i] assms(2) unfolding searched_def by simp
qed


lemma dfs_search:
  assumes named: "all_named st tables"
  shows "search_start st tables depth t visited \<Longrightarrow>
    search_end st tables {t} visited (c_orm_dfs_validate_table depth st tables t visited)"
proof (induction depth arbitrary: t visited)
  case 0
  then show ?case by (simp add: search_start_def)
next
  case (Suc depth)
  let ?E = "relation_graph st tables"
  have sv: "searched st tables visited" using Suc.prems by (simp add: search_start_def)
  show ?case
  proof (cases "index_of tables t")
    case None
    then have "c_orm_dfs_validate_table (Suc depth) st tables t visited = (Err C_ORM_ERROR_NOT_FOUND, visited)"
      and "t \<notin> set tables" by (simp_all add: index_of_None [symmetric])
    with Suc.prems show ?thesis by (simp add: search_end_def search_start_def)
  next
    case (Some i)
    then have i: "i < length visited" and t: "t \<in> set tables"
      using sv index_of_Some [OF Some] index_of_None [of tables t] by (auto simp: searched_def)
    consider "visited ! i = 1" | "visited ! i = 2" | "visited ! i = 0"
      proof -
      have "visited ! i \<le> 2" using sv i by (simp add: searched_def marks_ok_def)
      then have "visited ! i = 0 \<or> visited ! i = 1 \<or> visited ! i = 2" by linarith
      then show thesis using that by blast
    qed
    then show ?thesis
    proof cases
      case 1
      then have "t \<in> coloured tables visited 1" using Some by (simp add: coloured_def)
      then have "(t, t) \<in> ?E\<^sup>+" using Suc.prems by (simp add: search_start_def)
      then have "\<not> acyclic ?E" by (auto simp: acyclic_def)
      with 1 Some i show ?thesis by (simp add: search_end_def)
    next
      case 2
      then have "t \<in> coloured tables visited 2" using Some by (simp add: coloured_def)
      with 2 Some i sv show ?thesis by (simp add: search_end_def)
    next
      case 3
      let ?v = "visited[i := 1]"
      note enter = searched_enter [OF sv Some 3]
      have white: "t \<in> coloured tables visited 0" using Some 3 by (simp add: coloured_def)
      have fin: "finite (coloured tables visited 0)" by (rule finite_subset [OF coloured_subset]) simp
      have card: "card (coloured tables ?v 0) < depth"
        using Suc.prems card_Diff1_less [OF fin white] unfolding enter(4) search_start_def by simp
      have start: "search_start st tables depth u ?v" if "(t, u) \<in> ?E" for u
        unfolding search_start_def
      proof (intro conjI ballI)
        show "searched st tables ?v" by (rule enter(1))
        show "u \<in> set tables \<or> \<not> relations_closed st tables" using that t by (auto simp: relations_closed_def)
        fix g assume "g \<in> coloured tables ?v 1"
        then show "(g, u) \<in> ?E\<^sup>+"
          using Suc.prems that unfolding enter(2) search_start_def by (auto intro: trancl_into_trancl)
      qed (rule card)
      let ?run = "dfs_relations (c_orm_dfs_validate_table depth st tables) st tables (relations (st t)) ?v"
      have edge: "(t, u) \<in> ?E \<longleftrightarrow> (\<exists>r \<in> set (relations (st t)). target_of st tables r = Some u)" for u
        using t by (simp add: relation_graph_def)
      have loop: "search_end st tables {u. (t, u) \<in> ?E} ?v ?run"
        unfolding edge
      proof (rule dfs_relations_search [OF named Suc.IH _ enter(1)])
        fix r u assume "r \<in> set (relations (st t))" and "target_of st tables r = Some u"
        then have "(t, u) \<in> ?E" using edge by blast
        then show "search_start st tables depth u ?v" by (rule start)
      qed assumption
      have run: "c_orm_dfs_validate_table (Suc depth) st tables t visited =
          pbind (dfs_relations (c_orm_dfs_validate_table depth st tables) st tables (relations (st t)))
            (\<lambda>_. set_visited i 2) ?v"
        using Some i 3 by (simp add: pbind_def set_visited_def)
      obtain o1 v1 where v1: "?run = (o1, v1)" by (cases ?run)
      show ?thesis
      proof (cases o1)
        case (Ret u)
        with loop v1 have s1: "searched st tables v1" and grey: "coloured tables v1 1 = coloured tables ?v 1"
          and dne: "coloured tables ?v 2 \<union> {u. (t, u) \<in> ?E} \<subseteq> coloured tables v1 2"
          by (simp_all add: search_end_def)
        have len: "length v1 = length tables" using s1 by (simp add: searched_def)
        have "t \<in> coloured tables v1 1" unfolding grey enter(2) by simp
        then have t2: "t \<notin> coloured tables v1 2" by (auto simp: coloured_def)
        have "searched st tables (v1[i := 2])" using dne by (intro searched_done [OF s1 Some t2]) auto
        moreover have "coloured tables (v1[i := 2]) 1 = coloured tables visited 1"
          using coloured_update [OF Some len, of 2 1] 3 Some unfolding grey enter(2)
          by (auto simp: coloured_def)
        moreover have "coloured tables visited 2 \<union> {t} \<subseteq> coloured tables (v1[i := 2]) 2"
          using coloured_update [OF Some len, of 2 2] dne unfolding enter(3) by auto
        moreover have "c_orm_dfs_validate_table (Suc depth) st tables t visited = (Ret (), v1[i := 2])"
          unfolding run pbind_def v1 by (simp add: Ret set_visited_def)
        ultimately show ?thesis unfolding search_end_def by simp
      next
        case (Err e)
        with loop v1 show ?thesis unfolding run by (simp add: search_end_def pbind_def)
      next
        case Stuck
        with loop v1 show ?thesis by (simp add: search_end_def)
      qed
    qed
  qed
qed


section \<open>The whole check\<close>

lemma validate_tables_search:
  assumes named: "all_named st tables" and depth: "length tables < depth"
    and places: "\<And>i t. (i, t) \<in> set ps \<Longrightarrow> i < length tables \<and> tables ! i = t"
    and "searched st tables visited" and "coloured tables visited 1 = {}"
  shows "search_end st tables (snd ` set ps) visited (validate_tables depth st tables ps visited)"
  using places assms(4,5)
proof (induction ps arbitrary: visited)
  case Nil
  then show ?case by (simp add: search_end_def preturn_def)
next
  case (Cons p ps)
  obtain i t where p: "p = (i, t)" by (cases p)
  with Cons.prems have i: "i < length visited" and it: "i < length tables" "tables ! i = t"
    by (auto simp: searched_def)
  define step where "step = (if visited ! i = 0 then c_orm_dfs_validate_table depth st tables t visited else (Ret (), visited))"
  have first: "search_end st tables {t} visited step"
  proof (cases "visited ! i = 0")
    case True
    have "card (coloured tables visited 0) \<le> card (set tables)"
      by (rule card_mono [OF _ coloured_subset]) simp
    then have "search_start st tables depth t visited"
      using Cons.prems(2,3) it depth card_length [of tables] by (simp add: search_start_def) (use it nth_mem in fastforce)
    from dfs_search [OF named this] show ?thesis using True by (simp add: step_def)
  next
    case False
    have "visited ! i \<le> 2 \<and> (visited ! i \<noteq> 0 \<longrightarrow> index_of tables (tables ! i) = Some i)"
      using Cons.prems(2) i unfolding searched_def marks_ok_def by blast
    with False it have "index_of tables t = Some i" "visited ! i \<le> 2" by simp_all
    moreover from this have "visited ! i \<noteq> 1" using Cons.prems(3) by (auto simp: coloured_def)
    ultimately have "t \<in> coloured tables visited 2" using False by (simp add: coloured_def)
    with False Cons.prems(2) show ?thesis by (simp add: step_def search_end_def)
  qed
  have run: "validate_tables depth st tables (p # ps) visited =
      (case step of (Ret _, v) \<Rightarrow> validate_tables depth st tables ps v | (Err e, v) \<Rightarrow> (Err e, v) | (Stuck, v) \<Rightarrow> (Stuck, v))"
    using i by (simp add: p step_def pbind_def)
  obtain o1 v1 where v1: "step = (o1, v1)" by (cases step)
  show ?case
  proof (cases o1)
    case (Ret u)
    with first v1 have f: "search_end st tables {t} visited (Ret u, v1)" by simp
    then have "searched st tables v1" "coloured tables v1 1 = {}" using Cons.prems(3) by (simp_all add: search_end_def)
    then have "search_end st tables (snd ` set ps) v1 (validate_tables depth st tables ps v1)"
      by (intro Cons.IH) (use Cons.prems(1) in auto)
    from search_end_trans [OF f this] show ?thesis unfolding run by (simp add: v1 Ret p)
  next
    case (Err e)
    with first v1 show ?thesis unfolding run by (simp add: search_end_def)
  next
    case Stuck
    with first v1 show ?thesis by (simp add: search_end_def)
  qed
qed

lemma searched_start: "searched st tables (replicate (length tables) 0)"
proof -
  have "coloured tables (replicate (length tables) 0) 2 = {}"
    by (auto simp: coloured_def dest!: index_of_Some)
  then show ?thesis by (simp add: searched_def marks_ok_def)
qed

lemma validate_search:
  assumes "all_named st tables" and "length tables < depth"
  shows "search_end st tables (set tables) (replicate (length tables) 0)
    (validate_tables depth st tables (enumerate 0 tables) (replicate (length tables) 0))"
proof -
  have "coloured tables (replicate (length tables) 0) 1 = {}"
    by (auto simp: coloured_def dest!: index_of_Some)
  moreover have "i < length tables \<and> tables ! i = t" if "(i, t) \<in> set (enumerate 0 tables)" for i t
    using that by (auto simp: in_set_enumerate_eq)
  moreover have "snd ` set (enumerate 0 tables) = set tables"
    by (metis list.set_map map_snd_enumerate)
  ultimately show ?thesis
    using validate_tables_search [OF assms, of "enumerate 0 tables", OF _ searched_start] by simp
qed

text \<open>When everything is done, the graph is closed and has no cycle.\<close>

lemma all_searched:
  assumes "search_end st tables (set tables) v (Ret u, v')"
  shows "acyclic (relation_graph st tables)" and "relations_closed st tables"
proof -
  let ?E = "relation_graph st tables"
  have done2: "coloured tables v' 2 = set tables" and closed: "?E `` coloured tables v' 2 \<subseteq> coloured tables v' 2"
    and nocyc: "\<forall>t \<in> coloured tables v' 2. (t, t) \<notin> ?E\<^sup>+"
    using assms coloured_subset [of tables v' 2] by (auto simp: search_end_def searched_def)
  show "relations_closed st tables" using closed unfolding done2 by (simp add: relations_closed_def)
  show "acyclic ?E"
    unfolding acyclic_def
  proof (intro allI notI)
    fix t assume cyc: "(t, t) \<in> ?E\<^sup>+"
    then have "t \<in> set tables" by (auto simp: relation_graph_def dest: tranclD)
    with cyc nocyc done2 show False by simp
  qed
qed


lemma validate_relations_run:
  assumes "all_named st tables" and "length tables < depth" and "tables \<noteq> []"
  obtains ok h' where "C_ORM_MALLOC h = (ok, h')"
    and "\<not> ok \<Longrightarrow> c_orm_validate_relations depth st tables h = (Err C_ORM_ERROR_MEMORY, h')"
    and "ok \<Longrightarrow> \<exists>res v. search_end st tables (set tables) (replicate (length tables) 0) (res, v) \<and>
      c_orm_validate_relations depth st tables h = (res, C_ORM_FREE h')"
proof -
  obtain ok h' where m: "C_ORM_MALLOC h = (ok, h')" by (cases "C_ORM_MALLOC h")
  moreover obtain res v where r: "validate_tables depth st tables (enumerate 0 tables) (replicate (length tables) 0) = (res, v)"
    by (cases "validate_tables depth st tables (enumerate 0 tables) (replicate (length tables) 0)")
  moreover have "search_end st tables (set tables) (replicate (length tables) 0) (res, v)"
    using validate_search [OF assms(1,2)] r by simp
  ultimately show thesis using that assms(3) by (cases ok) (auto simp: c_orm_validate_relations_def)
qed

text \<open>C25 (relations_acyclic).
  The check accepts exactly the declarations without a circle: for an array of named tables, while memory is
  served, \<open>c_orm_validate_relations\<close> returns \<open>C_ORM_OK\<close> if and only if no chain of relations leads from a table
  back to itself and every relation leads to a table of the array; \<open>C_ORM_ERROR_RECURSION\<close> is only returned when
  there is a circle, and \<open>C_ORM_ERROR_NOT_FOUND\<close> only when a relation leads outside.\<close>
theorem relations_acyclic:
  assumes "all_named st tables" and "length tables < depth" and "tables \<noteq> []" and "no_oom h"
  shows "(fst (c_orm_validate_relations depth st tables h) = Ret () \<longleftrightarrow>
            acyclic (relation_graph st tables) \<and> relations_closed st tables) \<and>
         (fst (c_orm_validate_relations depth st tables h) = Err C_ORM_ERROR_RECURSION \<longrightarrow>
            \<not> acyclic (relation_graph st tables)) \<and>
         (fst (c_orm_validate_relations depth st tables h) = Err C_ORM_ERROR_NOT_FOUND \<longrightarrow>
            \<not> relations_closed st tables)"
proof -
  obtain ok h' where m: "C_ORM_MALLOC h = (ok, h')"
    and run: "ok \<Longrightarrow> \<exists>res v. search_end st tables (set tables) (replicate (length tables) 0) (res, v) \<and>
      c_orm_validate_relations depth st tables h = (res, C_ORM_FREE h')"
    using validate_relations_run [OF assms(1-3)] by metis
  from m assms(4) have ok by simp
  with run obtain res v where e: "search_end st tables (set tables) (replicate (length tables) 0) (res, v)"
    and c: "c_orm_validate_relations depth st tables h = (res, C_ORM_FREE h')" by blast
  from c have res: "fst (c_orm_validate_relations depth st tables h) = res" by simp
  show ?thesis
  proof (cases res)
    case (Ret u)
    from all_searched [OF e [unfolded Ret]] show ?thesis unfolding res by (simp add: Ret)
  next
    case (Err rc)
    with e show ?thesis unfolding res by (auto simp: search_end_def)
  next
    case Stuck
    with e show ?thesis by (simp add: search_end_def)
  qed
qed

text \<open>C26 (relations_depth).
  The search terminates: for any \<open>n\<close> named tables it never calls itself more than \<open>n + 1\<close> deep, it never leaves
  the array \<open>visited\<close>, and that array is released on every path, whichever allocation fails.\<close>
theorem relations_depth:
  assumes "all_named st tables" and "length tables < depth"
  shows "fst (c_orm_validate_relations depth st tables h) \<noteq> Stuck \<and>
    live (snd (c_orm_validate_relations depth st tables h)) = live h"
proof (cases "tables = []")
  case False
  obtain ok h' where m: "C_ORM_MALLOC h = (ok, h')"
    and oom: "\<not> ok \<Longrightarrow> c_orm_validate_relations depth st tables h = (Err C_ORM_ERROR_MEMORY, h')"
    and run: "ok \<Longrightarrow> \<exists>res v. search_end st tables (set tables) (replicate (length tables) 0) (res, v) \<and>
      c_orm_validate_relations depth st tables h = (res, C_ORM_FREE h')"
    using validate_relations_run [OF assms False] by metis
  show ?thesis
  proof (cases ok)
    case True
    from run [OF this] obtain res v where e: "search_end st tables (set tables) (replicate (length tables) 0) (res, v)"
      and c: "c_orm_validate_relations depth st tables h = (res, C_ORM_FREE h')" by blast
    from e have "res \<noteq> Stuck" by (auto simp: search_end_def)
    with c malloc_live [OF m] True show ?thesis by simp
  next
    case False
    from oom [OF this] malloc_live [OF m] False show ?thesis by simp
  qed
qed (simp add: c_orm_validate_relations_def)

section \<open>Examples\<close>

definition rel_to :: "string \<Rightarrow> c_orm_relation_meta_t" where
  "rel_to name = \<lparr>field_name = name, rel_type = C_ORM_RELATION_BELONGS_TO, target_table = Some name, foreign_key = None,
     local_key = None, target_meta = None, join_table = None, join_local_key = None, join_foreign_key = None\<rparr>"

definition demo_graph :: meta_store where
  \<comment> \<open>0 belongs to 1 and 2, 1 belongs to 2; 3 and 4 name each other\<close>
  "demo_graph t =
     (if t = 0 then \<lparr>tbl_name = Some ''a'', columns = [], relations = [rel_to ''b'', rel_to ''c'']\<rparr>
      else if t = 1 then \<lparr>tbl_name = Some ''b'', columns = [], relations = [rel_to ''c'']\<rparr>
      else if t = 2 then \<lparr>tbl_name = Some ''c'', columns = [], relations = []\<rparr>
      else if t = 3 then \<lparr>tbl_name = Some ''d'', columns = [], relations = [rel_to ''e'']\<rparr>
      else \<lparr>tbl_name = Some ''e'', columns = [], relations = [rel_to ''d'']\<rparr>)"

definition idle_heap :: heap where
  "idle_heap = \<lparr>script = [], live = 0\<rparr>"

lemma demo_graph_runs:
  "fst (c_orm_validate_relations 4 demo_graph [0, 1, 2] idle_heap) = Ret ()"
  "fst (c_orm_validate_relations 4 demo_graph [2, 3, 4] idle_heap) = Err C_ORM_ERROR_RECURSION"
  by code_simp+

lemma demo_graph_named: "all_named demo_graph [0, 1, 2]" "all_named demo_graph [2, 3, 4]" "no_oom idle_heap"
  by code_simp+

theorem relations_acyclic_witness:
  "(acyclic (relation_graph demo_graph [0, 1, 2]) \<and> relations_closed demo_graph [0, 1, 2]) \<and>
   \<not> acyclic (relation_graph demo_graph [2, 3, 4])"
  using relations_acyclic [of demo_graph "[0, 1, 2]" 4 idle_heap] relations_acyclic [of demo_graph "[2, 3, 4]" 4 idle_heap]
    demo_graph_runs demo_graph_named by simp

theorem relations_depth_witness:
  "fst (c_orm_validate_relations 4 demo_graph [2, 3, 4] \<lparr>script = [True], live = 5\<rparr>) \<noteq> Stuck \<and>
   live (snd (c_orm_validate_relations 4 demo_graph [2, 3, 4] \<lparr>script = [True], live = 5\<rparr>)) = 5"
  using relations_depth [of demo_graph "[2, 3, 4]" 4 "\<lparr>script = [True], live = 5\<rparr>"] demo_graph_named by simp

end
