(* ===== verification/IdentityMap.thy ===== *)
theory IdentityMap
  imports Act Meta
begin

unbundle bit_operations_syntax

text \<open>
  The identity map (\<open>c_orm_identity_map_*\<close> of \<open>src/c_orm_api.c\<close>): one hash table per table of the database, each
  an array of 64 chains of entries. Entries with an integer key and entries with a string key share the chains.
  Tables and cached objects are addresses; the map owns its entries and no one else points into them, so the
  chains are lists. Maps and results are never NULL pointers; a NULL table, key or object is \<open>None\<close>.
\<close>

section \<open>The code\<close>

record c_orm_identity_entry_t =
  object_ptr :: nat
  pk_int :: "32 word"
  pk_str :: cptr

record c_orm_identity_bucket_t =
  bkt_table :: nat
  entries :: "c_orm_identity_entry_t list list"
  num_buckets :: nat

type_synonym identity_map = "c_orm_identity_bucket_t list"

type_synonym 'a identity_act = "(identity_map \<times> heap, 'a) act"

definition C_ORM_IDENTITY_MAP_DEFAULT_BUCKETS :: nat where
  "C_ORM_IDENTITY_MAP_DEFAULT_BUCKETS = 64"

definition identity_malloc :: "bool identity_act" where
  "identity_malloc s = (case C_ORM_MALLOC (snd s) of (ok, h) \<Rightarrow> (Ret ok, (fst s, h)))"

definition identity_free_block :: "unit identity_act" where
  "identity_free_block s = (Ret (), (fst s, C_ORM_FREE (snd s)))"

definition c_orm_identity_map_init :: "unit identity_act" where
  "c_orm_identity_map_init s = (Ret (), ([], snd s))"

fun free_chain :: "c_orm_identity_entry_t list \<Rightarrow> heap \<Rightarrow> heap" where
  "free_chain [] h = h"
| "free_chain (e # es) h =
     free_chain es (C_ORM_FREE (case pk_str e of Some _ \<Rightarrow> C_ORM_FREE h | None \<Rightarrow> h))"

fun free_chains :: "c_orm_identity_entry_t list list \<Rightarrow> heap \<Rightarrow> heap" where
  "free_chains [] h = h"
| "free_chains (c # cs) h = free_chains cs (free_chain c h)"

fun free_buckets :: "identity_map \<Rightarrow> heap \<Rightarrow> heap" where
  "free_buckets [] h = h"
| "free_buckets (b # bs) h =
     free_buckets bs (C_ORM_FREE (C_ORM_FREE (free_chains (take (num_buckets b) (entries b)) h)))"

definition c_orm_identity_map_free :: "unit identity_act" where
  "c_orm_identity_map_free s = (Ret (), ([], free_buckets (fst s) (snd s)))"

fun find_bucket :: "identity_map \<Rightarrow> nat \<Rightarrow> nat option" where
  \<comment> \<open>a bucket is known by its position in the list\<close>
  "find_bucket [] table = None"
| "find_bucket (b # bs) table = (if bkt_table b = table then Some 0 else map_option Suc (find_bucket bs table))"

definition new_bucket :: "nat \<Rightarrow> c_orm_identity_bucket_t" where
  "new_bucket table = \<lparr>bkt_table = table, entries = replicate C_ORM_IDENTITY_MAP_DEFAULT_BUCKETS [],
     num_buckets = C_ORM_IDENTITY_MAP_DEFAULT_BUCKETS\<rparr>"

definition push_bucket :: "nat \<Rightarrow> nat identity_act" where
  "push_bucket table s = (Ret 0, (new_bucket table # fst s, snd s))"

definition get_or_create_bucket :: "nat \<Rightarrow> nat identity_act" where
  "get_or_create_bucket table s =
     (case find_bucket (fst s) table of
        Some i \<Rightarrow> (Ret i, s)
      | None \<Rightarrow>
          pbind identity_malloc (\<lambda>ok.
            if \<not> ok then perr C_ORM_ERROR_MEMORY
            else pbind identity_malloc (\<lambda>ok.
              if \<not> ok then pbind identity_free_block (\<lambda>_. perr C_ORM_ERROR_MEMORY)
              else push_bucket table)) s)"

definition get_chain :: "nat \<Rightarrow> nat \<Rightarrow> (c_orm_identity_entry_t list) identity_act" where
  "get_chain i slot s =
     (if length (fst s) \<le> i \<or> length (entries (fst s ! i)) \<le> slot then (Stuck, s)
      else (Ret (entries (fst s ! i) ! slot), s))"

definition push_identity :: "nat \<Rightarrow> nat \<Rightarrow> c_orm_identity_entry_t \<Rightarrow> unit identity_act" where
  "push_identity i slot e s =
     (let b = fst s ! i in
      (Ret (), ((fst s)[i := b\<lparr>entries := (entries b)[slot := e # entries b ! slot]\<rparr>], snd s)))"

definition bucket_size :: "nat \<Rightarrow> nat identity_act" where
  "bucket_size i s = (if length (fst s) \<le> i then (Stuck, s) else (Ret (num_buckets (fst s ! i)), s))"

definition int_hash :: "32 word \<Rightarrow> nat \<Rightarrow> nat" where
  \<comment> \<open>\<open>(size_t)pk_int % num_buckets\<close>: the conversion of a negative key wraps\<close>
  "int_hash pk n = unat (scast pk :: 64 word) mod n"

definition djb2 :: "string \<Rightarrow> 64 word" where
  "djb2 s = foldl (\<lambda>h c. (push_bit 5 h + h) + of_nat (of_char c)) 0 s"

definition str_hash :: "string \<Rightarrow> nat \<Rightarrow> nat" where
  "str_hash s n = unat (djb2 s) mod n"

definition c_orm_identity_map_get_or_set_int :: "nat option \<Rightarrow> 32 word \<Rightarrow> nat option \<Rightarrow> nat identity_act" where
  "c_orm_identity_map_get_or_set_int table pk object =
     (case table of
        None \<Rightarrow> perr C_ORM_ERROR_MEMORY
      | Some t \<Rightarrow>
          pbind (get_or_create_bucket t) (\<lambda>i.
          pbind (bucket_size i) (\<lambda>n.
          pbind (get_chain i (int_hash pk n)) (\<lambda>chain.
            case find (\<lambda>e. pk_int e = pk) chain of
              Some e \<Rightarrow> preturn (object_ptr e)
            | None \<Rightarrow>
                (case object of
                   None \<Rightarrow> perr C_ORM_ERROR_NOT_FOUND
                 | Some obj \<Rightarrow>
                     pbind identity_malloc (\<lambda>ok.
                       if \<not> ok then perr C_ORM_ERROR_MEMORY
                       else pbind (push_identity i (int_hash pk n) \<lparr>object_ptr = obj, pk_int = pk, pk_str = None\<rparr>)
                              (\<lambda>_. preturn obj)))))))"

definition c_orm_identity_map_get_or_set_str :: "nat option \<Rightarrow> cptr \<Rightarrow> nat option \<Rightarrow> nat identity_act" where
  "c_orm_identity_map_get_or_set_str table key object =
     (case (table, key) of
        (Some t, Some k) \<Rightarrow>
          pbind (get_or_create_bucket t) (\<lambda>i.
          pbind (bucket_size i) (\<lambda>n.
          pbind (get_chain i (str_hash k n)) (\<lambda>chain.
            case find (\<lambda>e. pk_str e = Some k) chain of
              Some e \<Rightarrow> preturn (object_ptr e)
            | None \<Rightarrow>
                (case object of
                   None \<Rightarrow> perr C_ORM_ERROR_NOT_FOUND
                 | Some obj \<Rightarrow>
                     pbind identity_malloc (\<lambda>ok.
                       if \<not> ok then perr C_ORM_ERROR_MEMORY
                       else pbind identity_malloc (\<lambda>ok.
                         if \<not> ok then pbind identity_free_block (\<lambda>_. perr C_ORM_ERROR_MEMORY)
                         else pbind (push_identity i (str_hash k n) \<lparr>object_ptr = obj, pk_int = 0, pk_str = Some k\<rparr>)
                                (\<lambda>_. preturn obj))))))) 
      | _ \<Rightarrow> perr C_ORM_ERROR_MEMORY)"

end
