(* ===== verification/IdentitySpec.thy ===== *)
theory IdentitySpec
  imports IdentityMap
begin

text \<open>
  What the identity map promises: a partial function from a table and a key to the object first stored under it.
  The two entry points of the code are one function \<open>get_or_set\<close> of the hash, the comparison of keys and the
  construction of a new entry, for which the simulation is proved once.
\<close>

section \<open>The abstract map\<close>

datatype identity_key = IntKey "32 word" | StrKey string

type_synonym identities = "nat \<times> identity_key \<Rightarrow> nat option"

definition spec_get_or_set :: "nat \<times> identity_key \<Rightarrow> nat option \<Rightarrow> (identities, nat) act" where
  "spec_get_or_set k object A =
     (case A k of
        Some obj \<Rightarrow> (Ret obj, A)
      | None \<Rightarrow> (case object of None \<Rightarrow> (Err C_ORM_ERROR_NOT_FOUND, A) | Some obj \<Rightarrow> (Ret obj, A(k \<mapsto> obj))))"

definition entry_key :: "c_orm_identity_entry_t \<Rightarrow> identity_key" where
  "entry_key e = (case pk_str e of Some k \<Rightarrow> StrKey k | None \<Rightarrow> IntKey (pk_int e))"

definition key_slot :: "identity_key \<Rightarrow> nat" where
  "key_slot k = (case k of IntKey pk \<Rightarrow> int_hash pk 64 | StrKey s \<Rightarrow> str_hash s 64)"

fun identities_of :: "identity_map \<Rightarrow> identities" where
  "identities_of [] p = None"
| "identities_of (b # bs) p =
     (if bkt_table b = fst p
      then map_option object_ptr (find (\<lambda>e. entry_key e = snd p) (entries b ! key_slot (snd p)))
      else identities_of bs p)"

section \<open>The invariant and the blocks\<close>

definition entry_ok :: "nat \<Rightarrow> c_orm_identity_entry_t \<Rightarrow> bool" where
  "entry_ok slot e \<longleftrightarrow> key_slot (entry_key e) = slot \<and> (pk_str e \<noteq> None \<longrightarrow> pk_int e = 0)"

definition bucket_ok :: "c_orm_identity_bucket_t \<Rightarrow> bool" where
  "bucket_ok b \<longleftrightarrow> num_buckets b = 64 \<and> length (entries b) = 64 \<and>
     (\<forall>slot < 64. list_all (entry_ok slot) (entries b ! slot) \<and> distinct (map entry_key (entries b ! slot)))"

definition identity_ok :: "identity_map \<Rightarrow> bool" where
  "identity_ok m \<longleftrightarrow> list_all bucket_ok m \<and> distinct (map bkt_table m)"

definition entry_blocks :: "c_orm_identity_entry_t \<Rightarrow> int" where
  "entry_blocks e = (if pk_str e = None then 1 else 2)"

definition chain_blocks :: "c_orm_identity_entry_t list list \<Rightarrow> int" where
  "chain_blocks cs = sum_of (sum_of entry_blocks) cs"

definition identity_blocks :: "identity_map \<Rightarrow> int" where
  "identity_blocks m = sum_of (\<lambda>b. 2 + chain_blocks (entries b)) m"

definition identity_unowned :: "identity_map \<times> heap \<Rightarrow> int" where
  \<comment> \<open>the blocks that are not the map's\<close>
  "identity_unowned s = live (snd s) - identity_blocks (fst s)"

lemma key_slot_less: "key_slot k < 64"
  by (cases k) (simp_all add: key_slot_def int_hash_def str_hash_def)

lemma free_chain_live: "live (free_chain es h) = live h - sum_of entry_blocks es"
  by (induction es arbitrary: h) (simp_all add: entry_blocks_def split: option.splits)

lemma free_chains_live: "live (free_chains cs h) = live h - chain_blocks cs"
  by (induction cs arbitrary: h) (simp_all add: chain_blocks_def free_chain_live)

lemma free_buckets_live: "list_all bucket_ok m \<Longrightarrow> live (free_buckets m h) = live h - identity_blocks m"
  by (induction m arbitrary: h) (simp_all add: identity_blocks_def free_chains_live bucket_ok_def)

lemma sum_of_update: "i < length xs \<Longrightarrow> sum_of f (xs[i := x]) = sum_of f xs - f (xs ! i) + f x"
  by (induction xs arbitrary: i) (auto split: nat.splits)

lemma sum_of_replicate: "sum_of f (replicate n x) = int n * f x"
  by (induction n) (simp_all add: algebra_simps)

lemma new_bucket_ok: "bucket_ok (new_bucket t)"
  by (simp add: bucket_ok_def new_bucket_def C_ORM_IDENTITY_MAP_DEFAULT_BUCKETS_def)

lemma new_bucket_blocks: "chain_blocks (entries (new_bucket t)) = 0"
  by (simp add: chain_blocks_def new_bucket_def sum_of_replicate)

lemma find_bucket_Some:
  "find_bucket m t = Some i \<Longrightarrow> i < length m \<and> bkt_table (m ! i) = t \<and>
     identities_of m (t, k) = map_option object_ptr (find (\<lambda>e. entry_key e = k) (entries (m ! i) ! key_slot k))"
  by (induction m arbitrary: i) (auto split: if_splits)

lemma find_bucket_None: "find_bucket m t = None \<longleftrightarrow> t \<notin> bkt_table ` set m"
  by (induction m) auto

lemma identities_new_bucket:
  "find_bucket m t = None \<Longrightarrow> identities_of (new_bucket t # m) = identities_of m"
proof
  fix p :: "nat \<times> identity_key"
  assume "find_bucket m t = None"
  moreover have "t \<notin> bkt_table ` set m \<Longrightarrow> identities_of m (t, k) = None" for k
    by (induction m) auto
  moreover have "entries (new_bucket t) ! key_slot (snd p) = []"
    using key_slot_less by (simp add: new_bucket_def C_ORM_IDENTITY_MAP_DEFAULT_BUCKETS_def)
  ultimately show "identities_of (new_bucket t # m) p = identities_of m p"
    by (cases p) (auto simp: find_bucket_None new_bucket_def)
qed

lemma identities_update:
  assumes "distinct (map bkt_table m)" and "i < length m" and "bkt_table b = bkt_table (m ! i)"
  shows "identities_of (m[i := b]) p =
    (if fst p = bkt_table b
     then map_option object_ptr (find (\<lambda>e. entry_key e = snd p) (entries b ! key_slot (snd p)))
     else identities_of m p)"
  using assms
proof (induction m arbitrary: i)
  case (Cons c m)
  show ?case
  proof (cases i)
    case 0
    with Cons.prems show ?thesis by auto
  next
    case (Suc j)
    with Cons.prems have "bkt_table c \<noteq> bkt_table b" by (auto simp: image_iff)
    with Suc Cons show ?thesis by auto
  qed
qed simp

section \<open>The two entry points are one\<close>

definition get_or_set ::
  "(nat \<Rightarrow> nat) \<Rightarrow> (c_orm_identity_entry_t \<Rightarrow> bool) \<Rightarrow> (nat \<Rightarrow> c_orm_identity_entry_t identity_act) \<Rightarrow> nat \<Rightarrow> nat option \<Rightarrow> nat identity_act"
where
  "get_or_set hash hit mk t object =
     pbind (get_or_create_bucket t) (\<lambda>i.
     pbind (bucket_size i) (\<lambda>n.
     pbind (get_chain i (hash n)) (\<lambda>chain.
       case find hit chain of
         Some e \<Rightarrow> preturn (object_ptr e)
       | None \<Rightarrow>
           (case object of
              None \<Rightarrow> perr C_ORM_ERROR_NOT_FOUND
            | Some obj \<Rightarrow> pbind (mk obj) (\<lambda>e. pbind (push_identity i (hash n) e) (\<lambda>_. preturn obj))))))"

definition make_int :: "32 word \<Rightarrow> nat \<Rightarrow> c_orm_identity_entry_t identity_act" where
  "make_int pk obj =
     pbind identity_malloc (\<lambda>ok.
       if \<not> ok then perr C_ORM_ERROR_MEMORY else preturn \<lparr>object_ptr = obj, pk_int = pk, pk_str = None\<rparr>)"

definition make_str :: "string \<Rightarrow> nat \<Rightarrow> c_orm_identity_entry_t identity_act" where
  "make_str k obj =
     pbind identity_malloc (\<lambda>ok.
       if \<not> ok then perr C_ORM_ERROR_MEMORY
       else pbind identity_malloc (\<lambda>ok.
         if \<not> ok then pbind identity_free_block (\<lambda>_. perr C_ORM_ERROR_MEMORY)
         else preturn \<lparr>object_ptr = obj, pk_int = 0, pk_str = Some k\<rparr>))"

lemma perr_bind [simp]: "pbind (perr e) k = perr e"
  by (rule ext) (simp add: pbind_def perr_def)

lemma if_bind: "pbind (if b then m else m') k = (if b then pbind m k else pbind m' k)"
  by simp

lemma get_or_set_int_eq:
  "c_orm_identity_map_get_or_set_int (Some t) pk object = get_or_set (int_hash pk) (\<lambda>e. pk_int e = pk) (make_int pk) t object"
  by (simp add: c_orm_identity_map_get_or_set_int_def get_or_set_def make_int_def pbind_assoc if_bind cong: option.case_cong if_cong)

lemma get_or_set_str_eq:
  "c_orm_identity_map_get_or_set_str (Some t) (Some k) object =
     get_or_set (str_hash k) (\<lambda>e. pk_str e = Some k) (make_str k) t object"
  by (simp add: c_orm_identity_map_get_or_set_str_def get_or_set_def make_str_def pbind_assoc if_bind cong: option.case_cong if_cong)

end
