(* ===== verification/IdentityRefine.thy ===== *)
theory IdentityRefine
  imports IdentitySpec
begin

text \<open>
  The identity map implements the abstract map. What the simulation needs of a kind of key is the locale
  \<open>identity_keys\<close>; integer keys and string keys are its two interpretations.
\<close>

section \<open>The simulation, for any kind of key\<close>

definition identity_step :: "(nat \<times> identity_key) \<Rightarrow> nat option \<Rightarrow> identity_map \<times> heap \<Rightarrow> nat outcome \<times> (identity_map \<times> heap) \<Rightarrow> bool" where
  \<comment> \<open>the map stays well formed, the memory is accounted for, and the abstract map makes the same step,
     unless there was no memory, in which case it stays as it was\<close>
  "identity_step k object s res \<longleftrightarrow>
     identity_ok (fst (snd res)) \<and> identity_unowned (snd res) = identity_unowned s \<and>
     (no_oom (snd s) \<longrightarrow> no_oom (snd (snd res)) \<and> fst res \<noteq> Err C_ORM_ERROR_MEMORY) \<and>
     (if fst res = Err C_ORM_ERROR_MEMORY then identities_of (fst (snd res)) = identities_of (fst s)
      else spec_get_or_set k object (identities_of (fst s)) = (fst res, identities_of (fst (snd res))))"

definition identity_hit :: "identity_map \<times> heap \<Rightarrow> nat outcome \<times> (identity_map \<times> heap) \<Rightarrow> bool" where
  \<comment> \<open>some stored object is returned and nothing is stored\<close>
  "identity_hit s res \<longleftrightarrow>
     identity_ok (fst (snd res)) \<and> identity_unowned (snd res) = identity_unowned s \<and>
     identities_of (fst (snd res)) = identities_of (fst s) \<and> (\<exists>obj. fst res = Ret obj)"

locale identity_keys =
  fixes key :: identity_key
    and hash :: "nat \<Rightarrow> nat"
    and hit :: "c_orm_identity_entry_t \<Rightarrow> bool"
    and mk :: "nat \<Rightarrow> c_orm_identity_entry_t identity_act"
    and always :: bool
  assumes hash: "hash 64 = key_slot key"
    and hit_key: "entry_key e = key \<Longrightarrow> hit e"
    and hit_only: "entry_ok slot e \<Longrightarrow> always \<or> pk_str e = None \<Longrightarrow> hit e \<Longrightarrow> entry_key e = key"
    and mk: "mk obj s = (r, s') \<Longrightarrow> fst s' = fst s \<and>
      (case r of
         Ret e \<Rightarrow> entry_key e = key \<and> object_ptr e = obj \<and> (pk_str e \<noteq> None \<longrightarrow> pk_int e = 0) \<and>
           live (snd s') = live (snd s) + entry_blocks e
       | Err rc \<Rightarrow> rc = C_ORM_ERROR_MEMORY \<and> live (snd s') = live (snd s)
       | Stuck \<Rightarrow> False)"
    and mk_served: "no_oom (snd s) \<Longrightarrow> \<exists>e s'. mk obj s = (Ret e, s') \<and> no_oom (snd s')"
begin

lemma find_hit:
  assumes "list_all (entry_ok slot) chain" and "always \<or> list_all (\<lambda>e. pk_str e = None) chain"
  shows "find hit chain = find (\<lambda>e. entry_key e = key) chain"
  using assms
proof (induction chain)
  case (Cons e chain)
  have "hit e \<longleftrightarrow> entry_key e = key" using hit_key [of e] hit_only [of slot e] Cons.prems by auto
  with Cons show ?case by auto
qed simp

end

lemma no_strings_in_chain:
  assumes "bucket_ok b" and "slot < 64"
    and "\<And>k. find (\<lambda>e. entry_key e = StrKey k) (entries b ! key_slot (StrKey k)) = None"
  shows "list_all (\<lambda>e. pk_str e = None) (entries b ! slot)"
  unfolding list_all_iff
proof
  fix e assume e: "e \<in> set (entries b ! slot)"
  show "pk_str e = None"
  proof (rule ccontr)
    assume "pk_str e \<noteq> None"
    then obtain k where k: "entry_key e = StrKey k" by (auto simp: entry_key_def)
    from assms(1,2) e have "entry_ok slot e" by (auto simp: bucket_ok_def list_all_iff)
    with k have "slot = key_slot (StrKey k)" by (simp add: entry_ok_def)
    with e k assms(3) [of k] show False by (simp add: find_None_iff)
  qed
qed

lemma get_or_create_bucket_run:
  assumes "identity_ok (fst s)" and "get_or_create_bucket t s = (r, s')"
  shows "identity_ok (fst s') \<and> identity_unowned s' = identity_unowned s \<and> identities_of (fst s') = identities_of (fst s) \<and>
    (no_oom (snd s) \<longrightarrow> no_oom (snd s')) \<and>
    (case r of
       Ret i \<Rightarrow> find_bucket (fst s') t = Some i
     | Err rc \<Rightarrow> rc = C_ORM_ERROR_MEMORY \<and> \<not> no_oom (snd s)
     | Stuck \<Rightarrow> False)"
proof (cases "find_bucket (fst s) t")
  case (Some i)
  with assms show ?thesis by (auto simp: get_or_create_bucket_def)
next
  case None
  obtain ok1 h1 where h1: "C_ORM_MALLOC (snd s) = (ok1, h1)" by (cases "C_ORM_MALLOC (snd s)")
  obtain ok2 h2 where h2: "C_ORM_MALLOC h1 = (ok2, h2)" by (cases "C_ORM_MALLOC h1")
  note new = identities_new_bucket [OF None] find_bucket_None [of "fst s" t] new_bucket_ok new_bucket_blocks
  show ?thesis
    using assms None h1 h2 malloc_live [OF h1] malloc_live [OF h2] new
    by (auto simp: get_or_create_bucket_def pbind_def identity_malloc_def identity_free_block_def perr_def push_bucket_def
        identity_unowned_def identity_blocks_def identity_ok_def new_bucket_def
        split: if_splits)
qed

lemma push_identity_step:
  assumes ok: "identity_ok m" and i: "find_bucket m t = Some i" and slot: "slot = key_slot (entry_key e)"
    and new: "identities_of m (t, entry_key e) = None" and str: "pk_str e \<noteq> None \<longrightarrow> pk_int e = 0"
    and push: "push_identity i slot e (m, h) = (r, (m', h'))"
  shows "r = Ret ()" and "h' = h" and "identity_ok m'" and "identity_blocks m' = identity_blocks m + entry_blocks e"
    and "identities_of m' = (identities_of m)((t, entry_key e) \<mapsto> object_ptr e)"
proof -
  let ?b = "m ! i"
  let ?b' = "?b\<lparr>entries := (entries ?b)[slot := e # entries ?b ! slot]\<rparr>"
  have i': "i < length m" "bkt_table ?b = t"
    and look: "identities_of m (t, k) = map_option object_ptr (find (\<lambda>e. entry_key e = k) (entries ?b ! key_slot k))" for k
    using find_bucket_Some [OF i] by auto
  have slot64: "slot < 64" by (simp add: slot key_slot_less)
  have b: "bucket_ok ?b" using ok i' by (auto simp: identity_ok_def list_all_iff)
  then have len: "length (entries ?b) = 64" by (simp add: bucket_ok_def)
  from push have m': "m' = m[i := ?b']" by (auto simp: push_identity_def Let_def)
  from push show "r = Ret ()" "h' = h" by (auto simp: push_identity_def Let_def)
  have fresh: "entry_key e \<notin> entry_key ` set (entries ?b ! slot)"
    using new look [of "entry_key e"] by (auto simp: slot find_None_iff)
  have "list_all (entry_ok s') (entries ?b' ! s') \<and> distinct (map entry_key (entries ?b' ! s'))" if "s' < 64" for s'
  proof (cases "s' = slot")
    case True
    with b slot64 len fresh slot str show ?thesis by (simp add: bucket_ok_def entry_ok_def)
  next
    case False
    with b that show ?thesis by (simp add: bucket_ok_def)
  qed
  then have b': "bucket_ok ?b'" using b by (simp add: bucket_ok_def)
  have "map bkt_table m' = map bkt_table m"
    unfolding m' using i'(1) list_update_id [of "map bkt_table m" i] by (simp add: map_update)
  then show "identity_ok m'"
    using ok b' unfolding m' identity_ok_def by (auto simp: list_all_iff dest!: set_update_subset_insert [THEN subsetD])
  show "identity_blocks m' = identity_blocks m + entry_blocks e"
    unfolding m' identity_blocks_def using i' slot64 len
    by (simp add: sum_of_update chain_blocks_def)
  show "identities_of m' = (identities_of m)((t, entry_key e) \<mapsto> object_ptr e)"
  proof
    fix p :: "nat \<times> identity_key"
    obtain t' k where p: "p = (t', k)" by (cases p)
    have "identities_of m' p =
      (if t' = t then map_option object_ptr (find (\<lambda>e. entry_key e = k) (entries ?b' ! key_slot k)) else identities_of m p)"
      unfolding m' p using identities_update [of m i ?b' "(t', k)"] ok i' by (simp add: identity_ok_def)
    then show "identities_of m' p = ((identities_of m)((t, entry_key e) \<mapsto> object_ptr e)) p"
      using look [of k] slot slot64 len by (cases "key_slot k = slot") (auto simp: p)
  qed
qed


context identity_keys begin

lemma get_or_set_cases:
  fixes t :: nat and object :: "nat option"
  assumes ok: "identity_ok (fst s)"
  defines "clear \<equiv> always \<or> (\<forall>k. identities_of (fst s) (t, StrKey k) = None)"
  defines "res \<equiv> get_or_set hash hit mk t object s"
  shows "identity_step (t, key) object s res \<or> \<not> clear \<and> identity_hit s res"
proof -
  obtain r1 s1 where r1: "get_or_create_bucket t s = (r1, s1)" by (cases "get_or_create_bucket t s")
  note b1 = get_or_create_bucket_run [OF ok r1]
  show ?thesis
  proof (cases r1)
    case (Err rc)
    with b1 r1 show ?thesis by (auto simp: res_def identity_step_def get_or_set_def pbind_def)
  next
    case Stuck
    with b1 show ?thesis by simp
  next
    case (Ret i)
    obtain m h where s1: "s1 = (m, h)" by (cases s1)
    have okm: "identity_ok m" and fb: "find_bucket m t = Some i" and same: "identities_of m = identities_of (fst s)"
      and un: "identity_unowned (m, h) = identity_unowned s" and oom: "no_oom (snd s) \<longrightarrow> no_oom h"
      using b1 Ret s1 by simp_all
    have i: "i < length m"
      and look: "identities_of m (t, k) = map_option object_ptr (find (\<lambda>e. entry_key e = k) (entries (m ! i) ! key_slot k))" for k
      using find_bucket_Some [OF fb] by auto
    have b: "bucket_ok (m ! i)" using okm i by (auto simp: identity_ok_def list_all_iff)
    let ?chain = "entries (m ! i) ! key_slot key"
    have strs: "always \<or> list_all (\<lambda>e. pk_str e = None) ?chain" if clear
      using that [unfolded clear_def] no_strings_in_chain [OF b key_slot_less] look same by fastforce
    have chain_ok: "list_all (entry_ok (key_slot key)) ?chain"
      using b key_slot_less by (simp add: bucket_ok_def)
    have found: "find hit ?chain = find (\<lambda>e. entry_key e = key) ?chain" if clear
      by (rule find_hit [OF chain_ok strs [OF that]])
    have run: "res =
        (case find hit ?chain of
           Some e \<Rightarrow> preturn (object_ptr e)
         | None \<Rightarrow>
             (case object of
                None \<Rightarrow> perr C_ORM_ERROR_NOT_FOUND
              | Some obj \<Rightarrow> pbind (mk obj) (\<lambda>e. pbind (push_identity i (hash 64) e) (\<lambda>_. preturn obj)))) (m, h)"
      using b key_slot_less [of key, folded not_le] i
      by (simp add: res_def get_or_set_def pbind_def r1 Ret s1 bucket_size_def get_chain_def hash bucket_ok_def not_le)
    show ?thesis
    proof (cases "find hit ?chain")
      case (Some e)
      then have res: "res = (Ret (object_ptr e), (m, h))" unfolding run by (simp add: preturn_def)
      show ?thesis
      proof (cases clear)
        case True
        from found [OF this] Some have "find (\<lambda>e. entry_key e = key) ?chain = Some e" by simp
        then have "identities_of (fst s) (t, key) = Some (object_ptr e)" using look [of key] same by simp
        with okm un oom same show ?thesis by (simp add: res identity_step_def spec_get_or_set_def)
      next
        case False
        with okm un same show ?thesis by (simp add: res identity_hit_def)
      qed
    next
      case None
      then have none: "identities_of m (t, key) = None" using look [of key] hit_key by (auto simp: find_None_iff)
      show ?thesis
      proof (cases object)
        case None
        with \<open>find hit ?chain = None\<close> okm un oom same none show ?thesis
          unfolding run by (simp add: perr_def identity_step_def spec_get_or_set_def)
      next
        case obj: (Some obj)
        obtain r2 s2 where r2: "mk obj (m, h) = (r2, s2)" by (cases "mk obj (m, h)")
        note b2 = mk [OF r2]
        have served: "no_oom h \<longrightarrow> (\<exists>e. r2 = Ret e) \<and> no_oom (snd s2)" using mk_served [of "(m, h)" obj] r2 by auto
        show ?thesis
        proof (cases r2)
          case (Err rc)
          with b2 served okm un oom same show ?thesis
            unfolding run by (auto simp: None obj pbind_def r2 identity_step_def identity_unowned_def)
        next
          case Stuck
          with b2 show ?thesis by simp
        next
          case (Ret e)
          obtain h2 where s2: "s2 = (m, h2)" using b2 by (cases s2) auto
          have e: "entry_key e = key" "object_ptr e = obj" "pk_str e \<noteq> None \<longrightarrow> pk_int e = 0"
            "live h2 = live h + entry_blocks e"
            using b2 Ret s2 by simp_all
          obtain r3 m3 h3 where r3: "push_identity i (hash 64) e (m, h2) = (r3, (m3, h3))"
            by (metis prod.collapse)
          have p: "r3 = Ret ()" "h3 = h2" "identity_ok m3" "identity_blocks m3 = identity_blocks m + entry_blocks e"
            "identities_of m3 = (identities_of m)((t, key) \<mapsto> obj)"
            using push_identity_step [OF okm fb _ _ e(3) r3] e none hash by simp_all
          have "res = (Ret obj, (m3, h2))"
            unfolding run by (simp add: None obj pbind_def r2 Ret s2 r3 p preturn_def)
          with p e un oom served Ret s2 same none show ?thesis
            by (simp add: obj identity_step_def identity_unowned_def spec_get_or_set_def)
        qed
      qed
    qed
  qed
qed

lemma get_or_set_step:
  assumes "identity_ok (fst s)" and "always \<or> (\<forall>k. identities_of (fst s) (t, StrKey k) = None)"
  shows "identity_step (t, key) object s (get_or_set hash hit mk t object s)"
  using get_or_set_cases [OF assms(1)] assms(2) by blast

lemma get_or_set_ok:
  assumes "identity_ok (fst s)"
  shows "identity_ok (fst (snd (get_or_set hash hit mk t object s))) \<and>
    identity_unowned (snd (get_or_set hash hit mk t object s)) = identity_unowned s \<and>
    fst (get_or_set hash hit mk t object s) \<noteq> Stuck"
  using get_or_set_cases [OF assms, of t object]
  by (auto simp: identity_step_def identity_hit_def spec_get_or_set_def split: if_splits option.splits)

end

interpretation int_keys: identity_keys "IntKey pk" "int_hash pk" "\<lambda>e. pk_int e = pk" "make_int pk" "pk \<noteq> 0" for pk
proof
  fix slot e assume "entry_ok slot e" and "pk \<noteq> 0 \<or> pk_str e = None" and "pk_int e = pk"
  then show "entry_key e = IntKey pk"
    by (cases "pk_str e") (auto simp: entry_ok_def entry_key_def)
next
  fix obj and s s' :: "identity_map \<times> heap" and r assume "make_int pk obj s = (r, s')"
  then show "fst s' = fst s \<and>
      (case r of
         Ret e \<Rightarrow> entry_key e = IntKey pk \<and> object_ptr e = obj \<and> (pk_str e \<noteq> None \<longrightarrow> pk_int e = 0) \<and>
           live (snd s') = live (snd s) + entry_blocks e
       | Err rc \<Rightarrow> rc = C_ORM_ERROR_MEMORY \<and> live (snd s') = live (snd s)
       | Stuck \<Rightarrow> False)"
    by (auto simp: make_int_def pbind_def identity_malloc_def perr_def preturn_def entry_key_def entry_blocks_def
        split: prod.splits if_splits dest!: malloc_live)
qed (auto simp: entry_key_def key_slot_def split: option.splits simp: make_int_def pbind_def identity_malloc_def preturn_def)

interpretation str_keys: identity_keys "StrKey k" "str_hash k" "\<lambda>e. pk_str e = Some k" "make_str k" True for k
proof

  fix obj and s s' :: "identity_map \<times> heap" and r assume "make_str k obj s = (r, s')"
  then show "fst s' = fst s \<and>
      (case r of
         Ret e \<Rightarrow> entry_key e = StrKey k \<and> object_ptr e = obj \<and> (pk_str e \<noteq> None \<longrightarrow> pk_int e = 0) \<and>
           live (snd s') = live (snd s) + entry_blocks e
       | Err rc \<Rightarrow> rc = C_ORM_ERROR_MEMORY \<and> live (snd s') = live (snd s)
       | Stuck \<Rightarrow> False)"
    by (auto simp: make_str_def pbind_def identity_malloc_def identity_free_block_def perr_def preturn_def entry_key_def entry_blocks_def
        split: prod.splits if_splits dest!: malloc_live)
qed (auto simp: entry_key_def key_slot_def split: option.splits simp: make_str_def pbind_def identity_malloc_def preturn_def)


section \<open>Sessions\<close>

text \<open>A session is a list of lookups; a lookup that is given a NULL table or key is refused.\<close>

datatype identity_op =
    GetInt "nat option" "32 word" "nat option"
  | GetStr "nat option" cptr "nat option"

fun identity_exec :: "identity_op \<Rightarrow> nat identity_act" where
  "identity_exec (GetInt t pk object) = c_orm_identity_map_get_or_set_int t pk object"
| "identity_exec (GetStr t k object) = c_orm_identity_map_get_or_set_str t k object"

fun identity_spec :: "identity_op \<Rightarrow> (identities, nat) act" where
  "identity_spec (GetInt (Some t) pk object) = spec_get_or_set (t, IntKey pk) object"
| "identity_spec (GetStr (Some t) (Some k) object) = spec_get_or_set (t, StrKey k) object"
| "identity_spec _ = perr C_ORM_ERROR_MEMORY"

fun outcomes :: "('op \<Rightarrow> ('s, 'a) act) \<Rightarrow> 'op list \<Rightarrow> 's \<Rightarrow> 'a outcome list \<times> 's" where
  "outcomes exec [] s = ([], s)"
| "outcomes exec (x # xs) s =
     (case exec x s of (r, t) \<Rightarrow> case outcomes exec xs t of (rs, u) \<Rightarrow> (r # rs, u))"

definition served :: "('op \<times> 'a outcome) list \<Rightarrow> ('op \<times> 'a outcome) list" where
  "served = filter (\<lambda>(_, r). r \<noteq> Err C_ORM_ERROR_MEMORY)"

definition unambiguous :: "identity_op list \<Rightarrow> bool" where
  \<comment> \<open>no table is asked for the integer key 0 and for string keys\<close>
  "unambiguous ops \<longleftrightarrow>
     (\<forall>t. (\<exists>object. GetInt (Some t) 0 object \<in> set ops) \<longrightarrow> (\<forall>k object. GetStr (Some t) k object \<notin> set ops))"

definition strings_in :: "nat set \<Rightarrow> identities \<Rightarrow> bool" where
  "strings_in S A \<longleftrightarrow> (\<forall>t k. A (t, StrKey k) \<noteq> None \<longrightarrow> t \<in> S)"

lemma spec_get_or_set_strings:
  "strings_in S A \<Longrightarrow> spec_get_or_set p object A = (r, A') \<Longrightarrow> (\<And>k. snd p = StrKey k \<Longrightarrow> fst p \<in> S) \<Longrightarrow> strings_in S A'"
  by (cases p) (fastforce simp: strings_in_def spec_get_or_set_def split: option.splits if_splits)

definition simulated :: "identity_op \<Rightarrow> identity_map \<times> heap \<Rightarrow> nat outcome \<times> (identity_map \<times> heap) \<Rightarrow> bool" where
  "simulated x s res \<longleftrightarrow>
     identity_ok (fst (snd res)) \<and> identity_unowned (snd res) = identity_unowned s \<and>
     (no_oom (snd s) \<longrightarrow> no_oom (snd (snd res)) \<and>
        identity_spec x (identities_of (fst s)) = (fst res, identities_of (fst (snd res)))) \<and>
     (if fst res = Err C_ORM_ERROR_MEMORY then identities_of (fst (snd res)) = identities_of (fst s)
      else identity_spec x (identities_of (fst s)) = (fst res, identities_of (fst (snd res))))"

lemma identity_step_simulated:
  assumes "identity_step k object s res" and "identity_spec x = spec_get_or_set k object"
  shows "simulated x s res"
  using assms by (auto simp: identity_step_def simulated_def split: if_splits)

lemma identity_exec_simulated:
  assumes ok: "identity_ok (fst s)" and S: "strings_in S (identities_of (fst s))"
    and x: "\<And>t object. x = GetInt (Some t) 0 object \<Longrightarrow> t \<notin> S"
  shows "simulated x s (identity_exec x s)"
proof (cases x)
  case (GetInt t pk object)
  show ?thesis
  proof (cases t)
    case None
    with GetInt ok show ?thesis by (simp add: simulated_def c_orm_identity_map_get_or_set_int_def perr_def)
  next
    case (Some t')
    have "pk \<noteq> 0 \<or> (\<forall>k. identities_of (fst s) (t', StrKey k) = None)"
    proof (cases "pk = 0")
      case True
      with GetInt Some have "t' \<notin> S" using x [of t' object] by simp
      with S show ?thesis unfolding strings_in_def by blast
    qed simp
    from int_keys.get_or_set_step [OF ok this] show ?thesis
      by (intro identity_step_simulated) (simp_all add: GetInt Some get_or_set_int_eq)
  qed
next
  case (GetStr t k object)
  show ?thesis
  proof (cases "t = None \<or> k = None")
    case True
    with GetStr ok show ?thesis
      by (cases t; cases k) (simp_all add: simulated_def c_orm_identity_map_get_or_set_str_def perr_def)
  next
    case False
    then obtain t' k' where "t = Some t'" "k = Some k'" by auto
    with str_keys.get_or_set_step [OF ok] show ?thesis
      by (intro identity_step_simulated) (simp_all add: GetStr get_or_set_str_eq)
  qed
qed

lemma identity_spec_strings:
  assumes "strings_in S A" and "identity_spec x A = (r, A')" and "\<And>t k object. x = GetStr (Some t) k object \<Longrightarrow> t \<in> S"
  shows "strings_in S A'"
  using assms by (cases x rule: identity_spec.cases) (auto simp: perr_def intro: spec_get_or_set_strings)

lemma simulated_strings:
  assumes "simulated x s res" and "strings_in S (identities_of (fst s))"
    and "\<And>t k object. x = GetStr (Some t) k object \<Longrightarrow> t \<in> S"
  shows "strings_in S (identities_of (fst (snd res)))"
  using assms identity_spec_strings by (auto simp: simulated_def split: if_splits)

lemma identity_session:
  assumes "identity_ok (fst s)" and "strings_in S (identities_of (fst s))"
    and "\<And>t object. GetInt (Some t) 0 object \<in> set ops \<Longrightarrow> t \<notin> S"
    and "\<And>t k object. GetStr (Some t) k object \<in> set ops \<Longrightarrow> t \<in> S"
    and "outcomes identity_exec ops s = (rs, s')"
  shows "identity_ok (fst s') \<and> identity_unowned s' = identity_unowned s \<and> length rs = length ops \<and>
    outcomes identity_spec (map fst (served (zip ops rs))) (identities_of (fst s)) =
      (map snd (served (zip ops rs)), identities_of (fst s')) \<and>
    (no_oom (snd s) \<longrightarrow> outcomes identity_spec ops (identities_of (fst s)) = (rs, identities_of (fst s')))"
  using assms
proof (induction ops arbitrary: s rs)
  case Nil
  then show ?case by (simp add: served_def)
next
  case (Cons x ops)
  obtain r t where r: "identity_exec x s = (r, t)" by (cases "identity_exec x s")
  obtain rs' where rs: "outcomes identity_exec ops t = (rs', s')" "rs = r # rs'"
    using Cons.prems(5) r by (auto split: prod.splits)
  have "simulated x s (identity_exec x s)"
    by (rule identity_exec_simulated [OF Cons.prems(1,2)]) (use Cons.prems(3) in auto)
  then have sim: "simulated x s (r, t)" unfolding r .
  have S: "strings_in S (identities_of (fst t))"
    using simulated_strings [OF sim Cons.prems(2)] Cons.prems(4) by auto
  have ih: "identity_ok (fst s') \<and> identity_unowned s' = identity_unowned t \<and> length rs' = length ops \<and>
    outcomes identity_spec (map fst (served (zip ops rs'))) (identities_of (fst t)) =
      (map snd (served (zip ops rs')), identities_of (fst s')) \<and>
    (no_oom (snd t) \<longrightarrow> outcomes identity_spec ops (identities_of (fst t)) = (rs', identities_of (fst s')))"
  proof (rule Cons.IH [OF _ S _ _ rs(1)])
    show "identity_ok (fst t)" using sim by (simp add: simulated_def)
    show "u \<notin> S" if "GetInt (Some u) 0 object \<in> set ops" for u object
      using Cons.prems(3) that by (meson list.set_intros(2))
    show "u \<in> S" if "GetStr (Some u) k object \<in> set ops" for u k object
      using Cons.prems(4) that by (meson list.set_intros(2))
  qed
  show ?case
  proof (cases "r = Err C_ORM_ERROR_MEMORY")
    case True
    with sim ih rs(2) show ?thesis by (auto simp: simulated_def served_def)
  next
    case False
    with sim ih rs(2) show ?thesis by (auto simp: simulated_def served_def)
  qed
qed


section \<open>Properties\<close>

lemma new_map: "identity_ok [] \<and> identity_unowned ([], h) = live h \<and> identities_of [] = Map.empty"
  by (auto simp: identity_ok_def identity_unowned_def identity_blocks_def)

lemma unambiguous_session:
  assumes "unambiguous ops" and "outcomes identity_exec ops ([], h) = (rs, s')"
  shows "identity_ok (fst s') \<and> identity_unowned s' = live h \<and> length rs = length ops \<and>
    outcomes identity_spec (map fst (served (zip ops rs))) Map.empty = (map snd (served (zip ops rs)), identities_of (fst s')) \<and>
    (no_oom h \<longrightarrow> outcomes identity_spec ops Map.empty = (rs, identities_of (fst s')))"
proof -
  let ?S = "{t. \<exists>k object. GetStr (Some t) k object \<in> set ops}"
  have "identity_ok (fst s') \<and> identity_unowned s' = identity_unowned ([], h) \<and> length rs = length ops \<and>
    outcomes identity_spec (map fst (served (zip ops rs))) (identities_of (fst ([], h))) =
      (map snd (served (zip ops rs)), identities_of (fst s')) \<and>
    (no_oom (snd ([] :: identity_map, h)) \<longrightarrow> outcomes identity_spec ops (identities_of (fst ([], h))) = (rs, identities_of (fst s')))"
  proof (rule identity_session [OF _ _ _ _ assms(2), of ?S])
    show "t \<notin> ?S" if "GetInt (Some t) 0 object \<in> set ops" for t object
      using assms(1) that unfolding unambiguous_def by blast
    show "t \<in> ?S" if "GetStr (Some t) k object \<in> set ops" for t k object
      using that by blast
  qed (simp_all add: new_map strings_in_def)
  then show ?thesis by (simp add: new_map)
qed


definition demo_identity_ops :: "identity_op list" where
  "demo_identity_ops =
     [GetInt (Some 1) 7 (Some 100), GetInt (Some 1) (- 57) (Some 200), GetStr (Some 2) (Some ''k'') (Some 300),
      GetInt (Some 1) 7 (Some 400), GetStr (Some 2) (Some ''x'') None, GetStr (Some 2) (Some ''k'') None]"

lemma demo_identity_unambiguous: "unambiguous demo_identity_ops"
  by (auto simp: unambiguous_def demo_identity_ops_def)

lemma demo_hashes:
  "int_hash 7 64 = 7" "int_hash (- 57) 64 = 7" "str_hash ''k'' 64 = 43" "str_hash ''x'' 64 = 56" "str_hash ''@'' 64 = 0" "int_hash 0 64 = 0"
  by (simp_all add: int_hash_def str_hash_def djb2_def)

lemmas identity_run_simps = c_orm_identity_map_get_or_set_int_def c_orm_identity_map_get_or_set_str_def
  get_or_create_bucket_def identity_malloc_def push_bucket_def new_bucket_def pbind_def C_ORM_MALLOC_def bucket_size_def
  C_ORM_IDENTITY_MAP_DEFAULT_BUCKETS_def get_chain_def push_identity_def preturn_def perr_def Let_def

lemma demo_identity_run:
  "fst (outcomes identity_exec demo_identity_ops ([], \<lparr>script = [], live = 0\<rparr>)) =
     [Ret 100, Ret 200, Ret 300, Ret 100, Err C_ORM_ERROR_NOT_FOUND, Ret 300]"
  by (simp add: demo_identity_ops_def identity_run_simps demo_hashes)


lemma identity_exec_ok:
  assumes "identity_ok (fst s)"
  shows "identity_ok (fst (snd (identity_exec x s))) \<and> identity_unowned (snd (identity_exec x s)) = identity_unowned s \<and>
    fst (identity_exec x s) \<noteq> Stuck"
proof (cases x)
  case (GetInt t pk object)
  with assms int_keys.get_or_set_ok [OF assms] show ?thesis
    by (cases t) (simp_all add: get_or_set_int_eq, simp add: c_orm_identity_map_get_or_set_int_def perr_def)
next
  case (GetStr t k object)
  with assms str_keys.get_or_set_ok [OF assms] show ?thesis
    by (cases t; cases k) (simp_all add: get_or_set_str_eq, simp_all add: c_orm_identity_map_get_or_set_str_def perr_def)
qed

lemma identity_session_ok:
  "identity_ok (fst s) \<Longrightarrow> outcomes identity_exec ops s = (rs, s') \<Longrightarrow>
    identity_ok (fst s') \<and> identity_unowned s' = identity_unowned s \<and> Stuck \<notin> set rs"
proof (induction ops arbitrary: s rs)
  case (Cons x ops)
  obtain r t where r: "identity_exec x s = (r, t)" by (cases "identity_exec x s")
  obtain rs' where rs: "outcomes identity_exec ops t = (rs', s')" "rs = r # rs'"
    using Cons.prems(2) r by (auto split: prod.splits)
  from identity_exec_ok [OF Cons.prems(1), of x] r
  have t: "identity_ok (fst t)" "identity_unowned t = identity_unowned s" "r \<noteq> Stuck" by simp_all
  from Cons.IH [OF t(1) rs(1)] t rs(2) show ?case by auto
qed simp

text \<open>C28 (identity_invariant).
  Whatever lookups are made with whatever keys, and whichever allocations fail, the map stays well formed (one
  bucket per table with its 64 chains, every entry in the chain of its hash, no key twice), no lookup leaves its
  arrays, and freeing the map returns every block it took.\<close>
theorem identity_invariant:
  assumes "outcomes identity_exec ops ([], h) = (rs, s')"
  shows "identity_ok (fst s') \<and> Stuck \<notin> set rs \<and> live (snd (snd (c_orm_identity_map_free s'))) = live h"
  using identity_session_ok [OF _ assms] free_buckets_live [of "fst s'" "snd s'"] new_map [of h]
  by (auto simp: c_orm_identity_map_free_def identity_unowned_def identity_ok_def)

theorem identity_invariant_witness:
  "live (snd (snd (c_orm_identity_map_free (snd (outcomes identity_exec demo_identity_ops ([], \<lparr>script = [], live = 5\<rparr>)))))) = 5"
  using identity_invariant [OF prod.collapse [symmetric], of demo_identity_ops "\<lparr>script = [], live = 5\<rparr>"] by simp

text \<open>C29 (identity_zero_confused).
  The integer key 0 finds objects stored under a string: entries with a string key carry the integer key 0 and share
  the chains, so once an object has been stored under a string that hashes to the first chain, asking for the
  integer key 0 of that table returns this object instead of storing or missing its own.\<close>
theorem identity_zero_confused:
  assumes "str_hash k 64 = 0" and "c_orm_identity_map_get_or_set_str (Some t) (Some k) (Some obj) ([], h) = (Ret obj, s)"
  shows "c_orm_identity_map_get_or_set_int (Some t) 0 object s = (Ret obj, s)"
proof -
  obtain h' where "s = ([new_bucket t\<lparr>entries := (replicate 64 [])[0 := [\<lparr>object_ptr = obj, pk_int = 0, pk_str = Some k\<rparr>]]\<rparr>], h')"
    using assms by (auto simp: identity_run_simps identity_free_block_def split: prod.splits if_splits)
  then show ?thesis
    by (simp add: identity_run_simps demo_hashes)
qed

theorem identity_zero_confused_witness:
  "fst (c_orm_identity_map_get_or_set_int (Some 1) 0 None
     (snd (c_orm_identity_map_get_or_set_str (Some 1) (Some ''@'') (Some 42) ([], \<lparr>script = [], live = 0\<rparr>)))) = Ret 42"
proof -
  have "c_orm_identity_map_get_or_set_str (Some 1) (Some ''@'') (Some 42) ([], \<lparr>script = [], live = 0\<rparr>) =
    (Ret 42, snd (c_orm_identity_map_get_or_set_str (Some 1) (Some ''@'') (Some 42) ([], \<lparr>script = [], live = 0\<rparr>)))"
    by (simp add: identity_run_simps demo_hashes)
  from identity_zero_confused [OF demo_hashes(5) this, of None] show ?thesis by simp
qed

end
