(* ===== verification/Field.thy ===== *)
theory Field
  imports Act Meta
begin

unbundle bit_operations_syntax

text \<open>
  The fields of the C structs that records are read into. The generated code describes a struct by the offset and
  type of each column; here an object is the list of its fields, in the order of the columns, and the field of a
  column holds what the code reads and writes at its offset: a primitive, a pointer to a primitive for a nullable
  one, a pointer to a text, a blob with its size, or a point or polygon in place. The float conversions are those
  of the floating point environment and the numbers are kept as their bits.

  A field is only ever written with a value of its own shape; code that would write or read another type at the
  offset is \<open>Stuck\<close>.
\<close>

section \<open>Bytes\<close>

fun bytes_le :: "nat \<Rightarrow> 'a::len word \<Rightarrow> 8 word list" where
  \<comment> \<open>\<open>memcpy\<close> of a number, on a little-endian machine\<close>
  "bytes_le 0 w = []"
| "bytes_le (Suc n) w = ucast w # bytes_le n (drop_bit 8 w)"

fun word_le :: "8 word list \<Rightarrow> 'a::len word" where
  "word_le [] = 0"
| "word_le (b # bs) = ucast b OR push_bit 8 (word_le bs)"

definition bytes_of :: "string \<Rightarrow> 8 word list" where
  "bytes_of s = map of_char s"

definition text_of :: "8 word list \<Rightarrow> string" where
  \<comment> \<open>the C string at these bytes, when a NUL has been put after them\<close>
  "text_of bs = map (\<lambda>b. char_of (unat b)) (takeWhile (\<lambda>b. b \<noteq> 0) bs)"

lemma length_bytes_le [simp]: "length (bytes_le n w) = n"
  by (induction n arbitrary: w) simp_all

lemma word_le_bytes: "word_le (bytes_le n w) = take_bit (8 * n) (w :: 'a::len word)"
proof (induction n arbitrary: w)
  case (Suc n)
  show ?case
    by (rule bit_word_eqI)
      (auto simp: Suc bit_simps bit_take_bit_iff bit_or_iff bit_push_bit_iff bit_drop_bit_eq bit_ucast_iff)
qed simp

lemma word_le_bytes_64 [simp]: "word_le (bytes_le 8 w) = (w :: 64 word)"
  by (simp add: word_le_bytes take_bit_word_eq_self)

lemma word_le_bytes_32 [simp]: "word_le (bytes_le 4 w) = (w :: 32 word)"
  by (simp add: word_le_bytes take_bit_word_eq_self)

section \<open>Fields\<close>

datatype field =
    F_int32 "32 word" | F_int64 "64 word" | F_float "32 word" | F_double "64 word" | F_bool "8 word"
  | F_text cptr
  | F_blob "8 word list option"
  | F_point "64 word" "64 word"
  | F_polygon "(64 word \<times> 64 word) list option" nat
  | F_ref "field option"

fun shape :: "field \<Rightarrow> nat" where
  "shape (F_int32 _) = 0" | "shape (F_int64 _) = 1" | "shape (F_float _) = 2" | "shape (F_double _) = 3"
| "shape (F_bool _) = 4" | "shape (F_text _) = 5" | "shape (F_blob _) = 6" | "shape (F_point _ _) = 7"
| "shape (F_polygon _ _) = 8" | "shape (F_ref _) = 9"

fun pointer_in :: "field \<Rightarrow> bool option" where
  \<comment> \<open>what \<open>*(void **)field_ptr\<close> is: a pointer to a block (\<open>Some True\<close>), NULL (\<open>Some False\<close>), or not a pointer.
     A point begins with the bits of its coordinate, a polygon with the pointer to its points.\<close>
  "pointer_in (F_text p) = Some (p \<noteq> None)"
| "pointer_in (F_blob p) = Some (p \<noteq> None)"
| "pointer_in (F_polygon p _) = Some (p \<noteq> None)"
| "pointer_in (F_ref p) = Some (p \<noteq> None)"
| "pointer_in (F_point x _) = (if x = 0 then Some False else None)"
| "pointer_in _ = None"

fun null_pointer :: "field \<Rightarrow> field" where
  \<comment> \<open>\<open>*(void **)field_ptr = NULL\<close>; the size of a blob goes with its bytes\<close>
  "null_pointer (F_text _) = F_text None"
| "null_pointer (F_blob _) = F_blob None"
| "null_pointer (F_polygon _ n) = F_polygon None n"
| "null_pointer (F_ref _) = F_ref None"
| "null_pointer (F_point _ y) = F_point 0 y"
| "null_pointer f = f"

definition release :: "field \<Rightarrow> (heap, field) act" where
  \<comment> \<open>\<open>if (*p) free(*p); *p = NULL;\<close>\<close>
  "release f h =
     (case pointer_in f of
        None \<Rightarrow> (Stuck, h)
      | Some True \<Rightarrow> (Ret (null_pointer f), C_ORM_FREE h)
      | Some False \<Rightarrow> (Ret (null_pointer f), h))"

definition is_text_type :: "c_orm_type_t \<Rightarrow> bool" where
  "is_text_type ty \<longleftrightarrow> ty \<in> {C_ORM_TYPE_STRING, C_ORM_TYPE_DATE, C_ORM_TYPE_TIMESTAMP, C_ORM_TYPE_ENUM, C_ORM_TYPE_SET, C_ORM_TYPE_JSON}"

definition free_column :: "c_orm_column_meta_t \<Rightarrow> field \<Rightarrow> (heap, field) act" where
  "free_column col f =
     (if is_text_type (col_type col) then release f
      else if col_type col = C_ORM_TYPE_BLOB then release f
      else if col_type col = C_ORM_TYPE_POLYGON then
        (case f of F_polygon (Some _) _ \<Rightarrow> pbind (release f) (\<lambda>_. preturn (F_polygon None 0)) | _ \<Rightarrow> preturn f)
      else if is_nullable col then release f
      else preturn f)"

fun c_orm_free_columns :: "c_orm_column_meta_t list \<Rightarrow> field list \<Rightarrow> (heap, field list) act" where
  "c_orm_free_columns [] fs = preturn fs"
| "c_orm_free_columns (c # cs) [] = stuck"
| "c_orm_free_columns (c # cs) (f # fs) =
     pbind (free_column c f) (\<lambda>f'. pbind (c_orm_free_columns cs fs) (\<lambda>fs'. preturn (f' # fs')))"

text \<open>The value a struct is given by \<open>memset(..., 0, ...)\<close>.\<close>

definition primitive :: "c_orm_type_t \<Rightarrow> field" where
  "primitive ty = (case ty of
     C_ORM_TYPE_INT32 \<Rightarrow> F_int32 0 | C_ORM_TYPE_INT64 \<Rightarrow> F_int64 0 | C_ORM_TYPE_FLOAT \<Rightarrow> F_float 0
   | C_ORM_TYPE_DOUBLE \<Rightarrow> F_double 0 | C_ORM_TYPE_BOOL \<Rightarrow> F_bool 0 | _ \<Rightarrow> F_ref None)"

definition zero_field :: "c_orm_column_meta_t \<Rightarrow> field" where
  "zero_field col =
     (if is_text_type (col_type col) then F_text None
      else case col_type col of
        C_ORM_TYPE_BLOB \<Rightarrow> F_blob None
      | C_ORM_TYPE_POINT \<Rightarrow> F_point 0 0
      | C_ORM_TYPE_POLYGON \<Rightarrow> F_polygon None 0
      | ty \<Rightarrow> if is_nullable col then F_ref None else primitive ty)"

section \<open>Reading and writing by column name\<close>

definition column_at :: "c_orm_table_meta_t \<Rightarrow> string \<Rightarrow> nat option" where
  \<comment> \<open>the loop over the columns with \<open>strcmp\<close>\<close>
  "column_at m name = map_option fst (find (\<lambda>(i, c). col_name c = Some name) (enumerate 0 (columns m)))"

definition set_null_field :: "c_orm_table_meta_t \<Rightarrow> field list \<Rightarrow> string \<Rightarrow> (heap, field list) act" where
  "set_null_field m obj name =
     (case column_at m name of
        None \<Rightarrow> perr C_ORM_ERROR_NOT_FOUND
      | Some i \<Rightarrow>
          if length obj \<le> i then stuck
          else if is_nullable (columns m ! i) then pbind (release (obj ! i)) (\<lambda>f. preturn (obj[i := f]))
          else (case (col_type (columns m ! i), obj ! i) of
                  (C_ORM_TYPE_INT32, F_int32 _) \<Rightarrow> preturn (obj[i := F_int32 0])
                | (C_ORM_TYPE_INT64, F_int64 _) \<Rightarrow> preturn (obj[i := F_int64 0])
                | (C_ORM_TYPE_FLOAT, F_float _) \<Rightarrow> preturn (obj[i := F_float 0])
                | (C_ORM_TYPE_DOUBLE, F_double _) \<Rightarrow> preturn (obj[i := F_double 0])
                | (ty, _) \<Rightarrow> if ty \<in> {C_ORM_TYPE_INT32, C_ORM_TYPE_INT64, C_ORM_TYPE_FLOAT, C_ORM_TYPE_DOUBLE} then stuck
                             else preturn obj))"

definition set_nullable :: "field list \<Rightarrow> nat \<Rightarrow> field \<Rightarrow> (heap, field list) act" where
  \<comment> \<open>a block for the value is taken when there is none yet\<close>
  "set_nullable obj i v h =
     (case obj ! i of
        F_ref (Some f) \<Rightarrow> if shape f = shape v then (Ret (obj[i := F_ref (Some v)]), h) else (Stuck, h)
      | F_ref None \<Rightarrow>
          (case C_ORM_MALLOC h of
             (False, h') \<Rightarrow> (Err C_ORM_ERROR_MEMORY, h')
           | (True, h') \<Rightarrow> (Ret (obj[i := F_ref (Some v)]), h'))
      | _ \<Rightarrow> (Stuck, h))"

definition set_int_field :: "c_orm_table_meta_t \<Rightarrow> field list \<Rightarrow> string \<Rightarrow> 64 word \<Rightarrow> (heap, field list) act" where
  "set_int_field m obj name val =
     (case column_at m name of
        None \<Rightarrow> perr C_ORM_ERROR_NOT_FOUND
      | Some i \<Rightarrow>
          if length obj \<le> i then stuck
          else if col_type (columns m ! i) \<in> {C_ORM_TYPE_INT32, C_ORM_TYPE_INT64} then
            (let v = (if col_type (columns m ! i) = C_ORM_TYPE_INT32 then F_int32 (ucast val) else F_int64 val) in
             if is_nullable (columns m ! i) then set_nullable obj i v
             else if shape (obj ! i) = shape v then preturn (obj[i := v]) else stuck)
          else preturn obj)"

definition get_int_field :: "c_orm_table_meta_t \<Rightarrow> field list \<Rightarrow> string \<Rightarrow> 64 word outcome" where
  "get_int_field m obj name =
     (case column_at m name of
        None \<Rightarrow> Err C_ORM_ERROR_NOT_FOUND
      | Some i \<Rightarrow>
          if length obj \<le> i then Stuck
          else if col_type (columns m ! i) \<notin> {C_ORM_TYPE_INT32, C_ORM_TYPE_INT64} then Err C_ORM_ERROR_TYPE_MISMATCH
          else (case (is_nullable (columns m ! i), col_type (columns m ! i), obj ! i) of
                  (True, _, F_ref None) \<Rightarrow> Err C_ORM_ERROR_NOT_FOUND
                | (True, C_ORM_TYPE_INT32, F_ref (Some (F_int32 v))) \<Rightarrow> Ret (scast v)
                | (True, C_ORM_TYPE_INT64, F_ref (Some (F_int64 v))) \<Rightarrow> Ret v
                | (False, C_ORM_TYPE_INT32, F_int32 v) \<Rightarrow> Ret (scast v)
                | (False, C_ORM_TYPE_INT64, F_int64 v) \<Rightarrow> Ret v
                | _ \<Rightarrow> Stuck))"

end
