(* ===== verification/Row.thy ===== *)
theory Row
  imports Field StmtCache
begin

text \<open>
  Objects to parameters and rows to objects: \<open>bind_row\<close>, \<open>c_orm_hydrate_row_from\<close> and \<open>c_orm_hydrate_row\<close> of
  \<open>src/c_orm_api.c\<close>, over the table of functions of any driver. The state is the object that is read or filled
  in, and the connection with its driver, its statement cache and the allocator.

  What a connection is configured with is an argument: the hooks for encryption, the time zone with what
  \<open>sscanf\<close>, \<open>mktime\<close> and \<open>sprintf\<close> make of a shifted timestamp on this host, the conversions between \<open>float\<close> and
  \<open>double\<close> (which depend on the rounding mode), the clock, and the text that \<open>c_orm_uuid_v4\<close> makes up. The call of
  the expiry callback is left out.
\<close>

record 'd row_vtable =
  rv_statements :: "'d driver_vtable"
  rv_bind_int32 :: "nat \<Rightarrow> int \<Rightarrow> 32 word \<Rightarrow> ('d, unit) act"
  rv_bind_int64 :: "nat \<Rightarrow> int \<Rightarrow> 64 word \<Rightarrow> ('d, unit) act"
  rv_bind_double :: "nat \<Rightarrow> int \<Rightarrow> 64 word \<Rightarrow> ('d, unit) act"
  rv_bind_string :: "nat \<Rightarrow> int \<Rightarrow> cptr \<Rightarrow> ('d, unit) act"
  rv_bind_blob :: "nat \<Rightarrow> int \<Rightarrow> 8 word list \<Rightarrow> ('d, unit) act"
  rv_bind_null :: "nat \<Rightarrow> int \<Rightarrow> ('d, unit) act"
  rv_step :: "nat \<Rightarrow> ('d, bool) act"
  rv_get_int32 :: "nat \<Rightarrow> int \<Rightarrow> ('d, 32 word) act"
  rv_get_int64 :: "nat \<Rightarrow> int \<Rightarrow> ('d, 64 word) act"
  rv_get_double :: "nat \<Rightarrow> int \<Rightarrow> ('d, 64 word) act"
  rv_get_string :: "nat \<Rightarrow> int \<Rightarrow> ('d, cptr) act"
  rv_get_blob :: "nat \<Rightarrow> int \<Rightarrow> ('d, 8 word list option) act"
  rv_is_null :: "nat \<Rightarrow> int \<Rightarrow> ('d, bool) act"
  rv_get_column_count :: "(nat \<Rightarrow> ('d, int) act) option"
  rv_get_column_name :: "(nat \<Rightarrow> int \<Rightarrow> ('d, cptr) act) option"

record api_config =
  timezone_offset :: int
  shift_timestamp :: "int \<Rightarrow> string \<Rightarrow> string option"
  encrypt_hook :: "(8 word list \<Rightarrow> c_orm_error_t + 8 word list) option"
  decrypt_hook :: "(8 word list \<Rightarrow> c_orm_error_t + 8 word list) option"
  float_to_double :: "32 word \<Rightarrow> 64 word"
  double_to_float :: "64 word \<Rightarrow> 32 word"
  current_time :: int
  new_uuid :: string

record api_table = c_orm_table_meta_t +
  query_select_all :: cptr
  query_select_by_pk :: cptr
  query_insert :: cptr
  query_update :: cptr
  query_delete_by_pk :: cptr
  query_select_by_pk_for_update :: cptr
  is_view :: bool
  ttl_columns :: "(nat \<times> nat) option"

text \<open>\<open>ttl_columns\<close>: the columns at \<open>created_at_offset\<close> and \<open>expires_in_offset\<close>, when \<open>has_ttl\<close>.\<close>

type_synonym ('d, 'a) row_act = "(field list \<times> 'd cache_state, 'a) act"

section \<open>The state\<close>

definition on_db :: "('d cache_state, 'a) act \<Rightarrow> ('d, 'a) row_act" where
  "on_db m s = (case m (snd s) of (r, d) \<Rightarrow> (r, (fst s, d)))"

definition on_heap :: "(heap, 'a) act \<Rightarrow> ('d cache_state, 'a) act" where
  "on_heap m s = (case m (cs_heap s) of (r, h) \<Rightarrow> (r, s\<lparr>cs_heap := h\<rparr>))"

definition malloc :: "(heap, bool) act" where
  "malloc h = (case C_ORM_MALLOC h of (ok, h') \<Rightarrow> (Ret ok, h'))"

definition free_block :: "(heap, unit) act" where
  "free_block h = (Ret (), C_ORM_FREE h)"

definition hook_block :: "(heap, unit) act" where
  \<comment> \<open>a block that a hook has taken from the same allocator\<close>
  "hook_block h = (Ret (), h\<lparr>live := live h + 1\<rparr>)"

definition get_field :: "nat \<Rightarrow> ('d, field) row_act" where
  "get_field i s = (if i < length (fst s) then (Ret (fst s ! i), s) else (Stuck, s))"

definition set_field :: "nat \<Rightarrow> field \<Rightarrow> ('d, unit) row_act" where
  "set_field i f s =
     (if i < length (fst s) \<and> shape (fst s ! i) = shape f then (Ret (), ((fst s)[i := f], snd s)) else (Stuck, s))"

definition fail_after :: "('d, 'a) row_act \<Rightarrow> ('d, unit) row_act \<Rightarrow> ('d, 'a) row_act" where
  \<comment> \<open>\<open>goto error_out\<close>\<close>
  "fail_after m clean s = (case m s of (Err e, t) \<Rightarrow> pbind clean (\<lambda>_. perr e) t | r \<Rightarrow> r)"

section \<open>Binding\<close>

definition tz_shifted :: "api_config \<Rightarrow> c_orm_column_meta_t \<Rightarrow> int \<Rightarrow> string \<Rightarrow> string option" where
  \<comment> \<open>the text of a timestamp moved by so many minutes, when there is a time zone and the text is a timestamp\<close>
  "tz_shifted cfg col minutes s =
     (if col_type col = C_ORM_TYPE_TIMESTAMP \<and> timezone_offset cfg \<noteq> 0 then shift_timestamp cfg minutes s else None)"

definition bind_encrypted :: "'d row_vtable \<Rightarrow> nat \<Rightarrow> (8 word list \<Rightarrow> c_orm_error_t + 8 word list) \<Rightarrow> 8 word list \<Rightarrow> int \<Rightarrow> ('d, unit) row_act" where
  "bind_encrypted vt q hook bs idx =
     (case hook bs of
        Inl e \<Rightarrow> perr e
      | Inr enc \<Rightarrow>
          pbind (on_db (on_heap hook_block)) (\<lambda>_.
          pbind (on_db (attempt (drive (rv_bind_blob vt q idx enc)))) (\<lambda>r.
          pbind (on_db (on_heap free_block)) (\<lambda>_.
            case r of Inl e \<Rightarrow> perr e | Inr _ \<Rightarrow> preturn ()))))"

definition bind_text :: "api_config \<Rightarrow> 'd row_vtable \<Rightarrow> nat \<Rightarrow> c_orm_column_meta_t \<Rightarrow> int \<Rightarrow> string \<Rightarrow> ('d, unit) row_act" where
  "bind_text cfg vt q col idx s =
     (let s' = (case tz_shifted cfg col (- timezone_offset cfg) s of Some t \<Rightarrow> t | None \<Rightarrow> s) in
      case (is_secure col, encrypt_hook cfg) of
        (True, Some hook) \<Rightarrow> bind_encrypted vt q hook (bytes_of s') idx
      | _ \<Rightarrow> on_db (drive (rv_bind_string vt q idx (Some s'))))"

definition fresh_key :: "api_config \<Rightarrow> c_orm_column_meta_t \<Rightarrow> nat \<Rightarrow> cptr \<Rightarrow> ('d, cptr) row_act" where
  \<comment> \<open>an empty text as primary key is replaced by a UUID, in the object too\<close>
  "fresh_key cfg col i p =
     (if is_pk col \<and> col_type col = C_ORM_TYPE_STRING \<and> (p = None \<or> p = Some []) then
        pbind (on_db (on_heap malloc)) (\<lambda>ok.
          if ok then pbind (set_field i (F_text (Some (new_uuid cfg)))) (\<lambda>_. preturn (Some (new_uuid cfg))) else preturn p)
      else preturn p)"

definition wkb_point :: "64 word \<Rightarrow> 64 word \<Rightarrow> 8 word list" where
  "wkb_point x y = [1, 1, 0, 0, 0] @ bytes_le 8 x @ bytes_le 8 y"

definition wkb_polygon :: "(64 word \<times> 64 word) list \<Rightarrow> 8 word list" where
  "wkb_polygon ps = [1, 3, 0, 0, 0, 1, 0, 0, 0] @ bytes_le 4 (of_nat (length ps) :: 32 word)
     @ concat (map (\<lambda>(x, y). bytes_le 8 x @ bytes_le 8 y) ps)"

definition polygon_points :: "(64 word \<times> 64 word) list option \<Rightarrow> nat \<Rightarrow> (64 word \<times> 64 word) list outcome" where
  \<comment> \<open>the loop over \<open>num_points\<close> points at \<open>points\<close>\<close>
  "polygon_points p n =
     (case p of
        None \<Rightarrow> if n = 0 then Ret [] else Stuck
      | Some ps \<Rightarrow> if n \<le> length ps then Ret (take n ps) else Stuck)"

definition bind_primitive :: "api_config \<Rightarrow> 'd row_vtable \<Rightarrow> nat \<Rightarrow> c_orm_column_meta_t \<Rightarrow> int \<Rightarrow> field \<Rightarrow> ('d, unit) row_act" where
  "bind_primitive cfg vt q col idx f =
     (case (col_type col, f) of
        (C_ORM_TYPE_INT32, F_int32 v) \<Rightarrow> on_db (drive (rv_bind_int32 vt q idx v))
      | (C_ORM_TYPE_BOOL, F_bool b) \<Rightarrow> on_db (drive (rv_bind_int32 vt q idx (if b \<noteq> 0 then 1 else 0)))
      | (C_ORM_TYPE_INT64, F_int64 v) \<Rightarrow> on_db (drive (rv_bind_int64 vt q idx v))
      | (C_ORM_TYPE_FLOAT, F_float v) \<Rightarrow> on_db (drive (rv_bind_double vt q idx (float_to_double cfg v)))
      | (C_ORM_TYPE_DOUBLE, F_double v) \<Rightarrow> on_db (drive (rv_bind_double vt q idx v))
      | (C_ORM_TYPE_POINT, F_point x y) \<Rightarrow> on_db (drive (rv_bind_blob vt q idx (wkb_point x y)))
      | (C_ORM_TYPE_POLYGON, F_polygon p n) \<Rightarrow>
          pbind (on_db (on_heap malloc)) (\<lambda>ok.
            if \<not> ok then perr C_ORM_ERROR_MEMORY
            else (case polygon_points p n of
                    Ret ps \<Rightarrow>
                      pbind (on_db (attempt (drive (rv_bind_blob vt q idx (wkb_polygon ps))))) (\<lambda>r.
                      pbind (on_db (on_heap free_block)) (\<lambda>_.
                        case r of Inl e \<Rightarrow> perr e | Inr _ \<Rightarrow> preturn ()))
                  | _ \<Rightarrow> stuck))
      | (C_ORM_TYPE_ARRAY, _) \<Rightarrow> perr C_ORM_ERROR_TYPE_MISMATCH
      | (C_ORM_TYPE_UNKNOWN, _) \<Rightarrow> perr C_ORM_ERROR_TYPE_MISMATCH
      | _ \<Rightarrow> stuck)"

definition bind_column :: "api_config \<Rightarrow> 'd row_vtable \<Rightarrow> nat \<Rightarrow> c_orm_column_meta_t \<Rightarrow> nat \<Rightarrow> int \<Rightarrow> ('d, unit) row_act" where
  \<comment> \<open>the body of the loop of \<open>bind_row\<close>, which binds exactly one parameter\<close>
  "bind_column cfg vt q col i idx =
     pbind (get_field i) (\<lambda>f.
       if is_text_type (col_type col) then
         (case f of
            F_text p \<Rightarrow>
              pbind (fresh_key cfg col i p) (\<lambda>p.
                case p of
                  None \<Rightarrow> on_db (drive (rv_bind_null vt q idx))
                | Some s \<Rightarrow> bind_text cfg vt q col idx s)
          | _ \<Rightarrow> stuck)
       else if col_type col = C_ORM_TYPE_BLOB then
         (case f of
            F_blob p \<Rightarrow>
              (case p of
                 None \<Rightarrow> on_db (drive (rv_bind_null vt q idx))
               | Some bs \<Rightarrow>
                   if bs = [] then on_db (drive (rv_bind_null vt q idx))
                   else (case (is_secure col, encrypt_hook cfg) of
                           (True, Some hook) \<Rightarrow> bind_encrypted vt q hook bs idx
                         | _ \<Rightarrow> on_db (drive (rv_bind_blob vt q idx bs))))
          | _ \<Rightarrow> stuck)
       else if is_nullable col then
         (case f of
            F_ref (Some v) \<Rightarrow> bind_primitive cfg vt q col idx v
          | _ \<Rightarrow> if pointer_in f = Some False then on_db (drive (rv_bind_null vt q idx)) else stuck)
       else bind_primitive cfg vt q col idx f)"

fun bind_row :: "api_config \<Rightarrow> 'd row_vtable \<Rightarrow> nat \<Rightarrow> c_orm_column_meta_t list \<Rightarrow> nat \<Rightarrow> int \<Rightarrow> ('d, int) row_act" where
  \<comment> \<open>from column \<open>i\<close> on; the result is the next parameter\<close>
  "bind_row cfg vt q [] i idx = preturn idx"
| "bind_row cfg vt q (c # cs) i idx =
     pbind (bind_column cfg vt q c i idx) (\<lambda>_. bind_row cfg vt q cs (Suc i) (idx + 1))"


section \<open>Hydrating\<close>

definition db_malloc :: "('d, bool) row_act" where
  "db_malloc = on_db (on_heap malloc)"

definition release_field :: "nat \<Rightarrow> ('d, unit) row_act" where
  "release_field i = pbind (get_field i) (\<lambda>f. pbind (on_db (on_heap (release f))) (\<lambda>f'. set_field i f'))"

definition put_new :: "nat \<Rightarrow> field \<Rightarrow> ('d, unit) row_act" where
  \<comment> \<open>a block for the value, whose address overwrites the pointer that was there\<close>
  "put_new i f = pbind db_malloc (\<lambda>ok. if \<not> ok then perr C_ORM_ERROR_MEMORY else set_field i f)"

definition put_primitive :: "c_orm_column_meta_t \<Rightarrow> nat \<Rightarrow> field \<Rightarrow> ('d, unit) row_act" where
  "put_primitive col i f = (if is_nullable col then put_new i (F_ref (Some f)) else set_field i f)"

definition put_text :: "nat \<Rightarrow> string \<Rightarrow> ('d, unit) row_act" where
  \<comment> \<open>without memory the pointer is NULL\<close>
  "put_text i s =
     pbind db_malloc (\<lambda>ok.
       if \<not> ok then pbind (set_field i (F_text None)) (\<lambda>_. perr C_ORM_ERROR_MEMORY)
       else set_field i (F_text (Some s)))"

definition put_blob :: "nat \<Rightarrow> 8 word list \<Rightarrow> ('d, unit) row_act" where
  "put_blob i bs =
     pbind db_malloc (\<lambda>ok.
       if \<not> ok then pbind (set_field i (F_blob None)) (\<lambda>_. perr C_ORM_ERROR_MEMORY)
       else set_field i (F_blob (Some bs)))"

definition decrypted :: "(8 word list \<Rightarrow> c_orm_error_t + 8 word list) \<Rightarrow> 8 word list \<Rightarrow> (8 word list \<Rightarrow> ('d, unit) row_act) \<Rightarrow> ('d, unit) row_act" where
  \<comment> \<open>the hook's block is freed after its contents have been copied or could not be\<close>
  "decrypted hook bs put =
     (case hook bs of
        Inl e \<Rightarrow> perr e
      | Inr plain \<Rightarrow> pbind (on_db (on_heap hook_block)) (\<lambda>_ s.
          case put plain s of
            (Stuck, t) \<Rightarrow> (Stuck, t)
          | (r, t) \<Rightarrow> pbind (on_db (on_heap free_block)) (\<lambda>_ u. (r, u)) t))"

definition hydrate_text :: "api_config \<Rightarrow> c_orm_column_meta_t \<Rightarrow> nat \<Rightarrow> string \<Rightarrow> ('d, unit) row_act" where
  "hydrate_text cfg col i s =
     (case tz_shifted cfg col (timezone_offset cfg) s of
        Some t \<Rightarrow> put_text i t
      | None \<Rightarrow>
          (case (is_secure col, decrypt_hook cfg) of
             (True, Some hook) \<Rightarrow> decrypted hook (bytes_of s) (\<lambda>plain. put_text i (text_of plain))
           | _ \<Rightarrow> put_text i s))"

definition hydrate_point :: "nat \<Rightarrow> 8 word list option \<Rightarrow> ('d, unit) row_act" where
  "hydrate_point i val =
     (case val of
        Some wkb \<Rightarrow>
          if length wkb = 21 then set_field i (F_point (word_le (take 8 (drop 5 wkb))) (word_le (take 8 (drop 13 wkb))))
          else preturn ()
      | None \<Rightarrow> preturn ())"

fun read_points :: "8 word list \<Rightarrow> nat \<Rightarrow> nat \<Rightarrow> (64 word \<times> 64 word) list outcome" where
  \<comment> \<open>\<open>n\<close> points from the offset \<open>at\<close> on; reading behind the blob is undefined\<close>
  "read_points wkb at 0 = Ret []"
| "read_points wkb at (Suc n) =
     (if length wkb < at + 16 then Stuck
      else case read_points wkb (at + 16) n of
        Ret ps \<Rightarrow> Ret ((word_le (take 8 (drop at wkb)), word_le (take 8 (drop (at + 8) wkb))) # ps)
      | e \<Rightarrow> e)"

definition hydrate_polygon :: "nat \<Rightarrow> 8 word list option \<Rightarrow> ('d, unit) row_act" where
  \<comment> \<open>\<open>size >= 13 + num_points * 16\<close> is computed in 32 bits\<close>
  "hydrate_polygon i val =
     (case val of
        None \<Rightarrow> preturn ()
      | Some wkb \<Rightarrow>
          if length wkb < 13 then preturn ()
          else (let num = (word_le (take 4 (drop 9 wkb)) :: 32 word) in
            if 0 < num \<and> unat (13 + num * 16) \<le> length wkb then
              pbind db_malloc (\<lambda>ok.
                if ok then (case read_points wkb 13 (unat num) of
                              Ret ps \<Rightarrow> set_field i (F_polygon (Some ps) (unat num))
                            | _ \<Rightarrow> stuck)
                else pbind (set_field i (F_polygon None (unat num))) (\<lambda>_. perr C_ORM_ERROR_MEMORY))
            else set_field i (F_polygon None 0)))"

definition hydrate_blob :: "api_config \<Rightarrow> c_orm_column_meta_t \<Rightarrow> nat \<Rightarrow> 8 word list option \<Rightarrow> ('d, unit) row_act" where
  "hydrate_blob cfg col i val =
     (case val of
        Some (b # bs) \<Rightarrow>
          (case (is_secure col, decrypt_hook cfg) of
             (True, Some hook) \<Rightarrow> decrypted hook (b # bs) (put_blob i)
           | _ \<Rightarrow> put_blob i (b # bs))
      | _ \<Rightarrow> set_field i (F_blob None))"

definition hydrate_value :: "api_config \<Rightarrow> 'd row_vtable \<Rightarrow> nat \<Rightarrow> c_orm_column_meta_t \<Rightarrow> nat \<Rightarrow> int \<Rightarrow> ('d, unit) row_act" where
  \<comment> \<open>a column that is not NULL\<close>
  "hydrate_value cfg vt q col i idx =
     (if is_text_type (col_type col) then
        pbind (on_db (drive (rv_get_string vt q idx))) (\<lambda>val.
          case val of None \<Rightarrow> set_field i (F_text None) | Some s \<Rightarrow> hydrate_text cfg col i s)
      else case col_type col of
        C_ORM_TYPE_INT32 \<Rightarrow> pbind (on_db (drive (rv_get_int32 vt q idx))) (\<lambda>v. put_primitive col i (F_int32 v))
      | C_ORM_TYPE_BOOL \<Rightarrow>
          pbind (on_db (drive (rv_get_int32 vt q idx))) (\<lambda>v. put_primitive col i (F_bool (if v \<noteq> 0 then 1 else 0)))
      | C_ORM_TYPE_INT64 \<Rightarrow> pbind (on_db (drive (rv_get_int64 vt q idx))) (\<lambda>v. put_primitive col i (F_int64 v))
      | C_ORM_TYPE_FLOAT \<Rightarrow>
          pbind (on_db (drive (rv_get_double vt q idx))) (\<lambda>v. put_primitive col i (F_float (double_to_float cfg v)))
      | C_ORM_TYPE_DOUBLE \<Rightarrow> pbind (on_db (drive (rv_get_double vt q idx))) (\<lambda>v. put_primitive col i (F_double v))
      | C_ORM_TYPE_POINT \<Rightarrow> pbind (on_db (drive (rv_get_blob vt q idx))) (hydrate_point i)
      | C_ORM_TYPE_POLYGON \<Rightarrow> pbind (on_db (drive (rv_get_blob vt q idx))) (hydrate_polygon i)
      | C_ORM_TYPE_BLOB \<Rightarrow> pbind (on_db (drive (rv_get_blob vt q idx))) (hydrate_blob cfg col i)
      | _ \<Rightarrow> perr C_ORM_ERROR_TYPE_MISMATCH)"

definition hydrate_column :: "api_config \<Rightarrow> 'd row_vtable \<Rightarrow> nat \<Rightarrow> c_orm_column_meta_t \<Rightarrow> nat \<Rightarrow> int \<Rightarrow> ('d, unit) row_act" where
  "hydrate_column cfg vt q col i idx =
     pbind (on_db (drive (rv_is_null vt q idx))) (\<lambda>null.
       if null then (if is_nullable col then release_field i else perr C_ORM_ERROR_TYPE_MISMATCH)
       else hydrate_value cfg vt q col i idx)"

fun hydrate_columns :: "api_config \<Rightarrow> 'd row_vtable \<Rightarrow> nat \<Rightarrow> c_orm_column_meta_t list \<Rightarrow> nat \<Rightarrow> int \<Rightarrow> ('d, unit) row_act" where
  "hydrate_columns cfg vt q [] i idx = preturn ()"
| "hydrate_columns cfg vt q (c # cs) i idx =
     pbind (hydrate_column cfg vt q c i idx) (\<lambda>_. hydrate_columns cfg vt q cs (Suc i) (idx + 1))"

definition free_object :: "api_table \<Rightarrow> ('d, unit) row_act" where
  "free_object m s =
     (case on_heap (c_orm_free_columns (columns m) (fst s)) (snd s) of
        (Ret fs, d) \<Rightarrow> (Ret (), (fs, d))
      | (Err e, d) \<Rightarrow> (Err e, (fst s, d))
      | (Stuck, d) \<Rightarrow> (Stuck, (fst s, d)))"

definition check_expiry :: "api_config \<Rightarrow> api_table \<Rightarrow> ('d, unit) row_act" where
  \<comment> \<open>the sum of two \<open>int64_t\<close> must not overflow\<close>
  "check_expiry cfg m =
     (case ttl_columns m of
        None \<Rightarrow> preturn ()
      | Some (c, e) \<Rightarrow>
          pbind (get_field c) (\<lambda>created. pbind (get_field e) (\<lambda>expires.
            case (created, expires) of
              (F_int64 a, F_int32 b) \<Rightarrow>
                (let t = sint a + sint b in
                 if t < - (2 ^ 63) \<or> 2 ^ 63 \<le> t then stuck
                 else if t < current_time cfg then perr C_ORM_ERROR_EXPIRED else preturn ())
            | _ \<Rightarrow> stuck)))"

definition c_orm_hydrate_row_from :: "api_config \<Rightarrow> 'd row_vtable \<Rightarrow> nat \<Rightarrow> api_table \<Rightarrow> int \<Rightarrow> ('d, unit) row_act" where
  "c_orm_hydrate_row_from cfg vt q m start_col =
     fail_after (pbind (hydrate_columns cfg vt q (columns m) 0 start_col) (\<lambda>_. check_expiry cfg m)) (free_object m)"

text \<open>
  \<open>c_orm_hydrate_row\<close> then looks at the columns behind those of the table, which belong to related objects. For a
  table without relations it only asks for their names. Without an identity map, \<open>c_orm_hydrate_cache_row\<close> does
  nothing.
\<close>

fun column_names :: "(nat \<Rightarrow> int \<Rightarrow> ('d, cptr) act) \<Rightarrow> nat \<Rightarrow> int \<Rightarrow> nat \<Rightarrow> ('d, unit) row_act" where
  "column_names get_name q i 0 = preturn ()"
| "column_names get_name q i (Suc n) = pbind (on_db (drive (get_name q i))) (\<lambda>_. column_names get_name q (i + 1) n)"

definition c_orm_hydrate_row :: "api_config \<Rightarrow> 'd row_vtable \<Rightarrow> nat \<Rightarrow> api_table \<Rightarrow> ('d, unit) row_act" where
  "c_orm_hydrate_row cfg vt q m =
     pbind (c_orm_hydrate_row_from cfg vt q m 0) (\<lambda>_.
       case (rv_get_column_count vt, rv_get_column_name vt) of
         (Some count, Some get_name) \<Rightarrow>
           pbind (on_db (drive (count q))) (\<lambda>n.
             column_names get_name q (int (length (columns m))) (nat (n - int (length (columns m)))))
       | _ \<Rightarrow> preturn ())"

end
