(* ===== verification/RowProps.thy ===== *)
theory RowProps
  imports Row
begin

text \<open>
  Two properties of \<open>c_orm_hydrate_row_from\<close> over any driver: the object it fills in has the types of the table,
  and its memory is accounted for on every path. Both follow from one invariant of the loop over the columns, by
  the rules for triples.
\<close>

section \<open>Types and blocks\<close>

definition value_type :: "c_orm_type_t \<Rightarrow> bool" where
  "value_type ty \<longleftrightarrow> ty \<in> {C_ORM_TYPE_INT32, C_ORM_TYPE_INT64, C_ORM_TYPE_FLOAT, C_ORM_TYPE_DOUBLE, C_ORM_TYPE_BOOL}"

definition fits :: "c_orm_column_meta_t \<Rightarrow> field \<Rightarrow> bool" where
  \<comment> \<open>the field has the type that the generated struct declares for the column\<close>
  "fits col f \<longleftrightarrow>
     shape f = shape (zero_field col) \<and>
     (\<forall>g. f = F_ref (Some g) \<longrightarrow> value_type (col_type col) \<and> shape g = shape (primitive (col_type col)))"

definition field_blocks :: "field \<Rightarrow> int" where
  "field_blocks f = (if pointer_in f = Some True then 1 else 0)"

definition object_blocks :: "field list \<Rightarrow> int" where
  "object_blocks = sum_of field_blocks"

definition fits_all :: "c_orm_column_meta_t list \<Rightarrow> field list \<Rightarrow> bool" where
  "fits_all cols fs \<longleftrightarrow> length fs = length cols \<and> (\<forall>i < length cols. fits (cols ! i) (fs ! i))"

definition row_account :: "field list \<times> 'd cache_state \<Rightarrow> int" where
  "row_account s = live (cs_heap (snd s)) - object_blocks (fst s)"

definition inline_points :: "c_orm_column_meta_t list \<Rightarrow> bool" where
  \<comment> \<open>no nullable point: the code keeps it in place but treats its first bytes as a pointer\<close>
  "inline_points cols \<longleftrightarrow> (\<forall>c \<in> set cols. col_type c = C_ORM_TYPE_POINT \<longrightarrow> \<not> is_nullable c)"

lemma object_blocks_update:
  "i < length fs \<Longrightarrow> object_blocks (fs[i := f]) = object_blocks fs - field_blocks (fs ! i) + field_blocks f"
proof (unfold object_blocks_def, induction fs arbitrary: i)
  case (Cons g fs)
  then show ?case by (cases i) simp_all
qed simp

lemma shape_zero_text [simp]: "is_text_type (col_type col) \<Longrightarrow> zero_field col = F_text None"
  by (simp add: zero_field_def)

lemma shape_null_pointer [simp]: "shape (null_pointer f) = shape f"
  by (cases f) simp_all

lemma blocks_null_pointer [simp]: "field_blocks (null_pointer f) = 0"
  by (cases f) (simp_all add: field_blocks_def)

lemma release_run:
  "release f h = (r, h') \<Longrightarrow>
     (case r of
        Ret f' \<Rightarrow> f' = null_pointer f \<and> shape f' = shape f \<and> live h' - field_blocks f' = live h - field_blocks f
          \<and> field_blocks f' = 0
      | Err _ \<Rightarrow> False
      | Stuck \<Rightarrow> h' = h \<and> pointer_in f = None)"
  by (cases f) (auto simp: release_def field_blocks_def split: option.splits if_splits bool.splits)

section \<open>The loop\<close>

text \<open>The columns before \<open>k\<close> are filled in; a field that is still to come owns nothing.\<close>

definition filled :: "c_orm_column_meta_t list \<Rightarrow> int \<Rightarrow> nat \<Rightarrow> field list \<times> 'd cache_state \<Rightarrow> bool" where
  "filled cols A k s \<longleftrightarrow>
     fits_all cols (fst s) \<and> row_account s = A \<and> (\<forall>i. k \<le> i \<longrightarrow> i < length cols \<longrightarrow> field_blocks (fst s ! i) = 0)"

definition owned :: "c_orm_column_meta_t list \<Rightarrow> int \<Rightarrow> field list \<times> 'd cache_state \<Rightarrow> bool" where
  "owned cols A s \<longleftrightarrow> fits_all cols (fst s) \<and> row_account s = A"

lemma filled_owned: "filled cols A k s \<Longrightarrow> owned cols A s"
  by (simp add: filled_def owned_def)

lemma fits_all_update: "fits_all cols fs \<Longrightarrow> i < length cols \<Longrightarrow> fits (cols ! i) f \<Longrightarrow> fits_all cols (fs[i := f])"
  by (auto simp: fits_all_def nth_list_update)

lemma fits_all_length: "fits_all cols fs \<Longrightarrow> length fs = length cols"
  by (simp add: fits_all_def)

lemma t_drive:
  fixes m :: "('d, 'a) act"
  shows "triple True (filled cols A k) (on_db (drive m)) (\<lambda>_. filled cols A k) (owned cols A)"
  unfolding triple_def
proof (intro allI impI)
  fix s :: "field list \<times> 'd cache_state" assume s: "filled cols A k s"
  obtain r d where r: "m (cs_driver (snd s)) = (r, d)" by (cases "m (cs_driver (snd s))")
  have "filled cols A k (fst s, snd s\<lparr>cs_driver := d\<rparr>)" using s by (simp add: filled_def row_account_def)
  then show "case on_db (drive m) s of (Ret a, t) \<Rightarrow> filled cols A k t | (Err e, t) \<Rightarrow> owned cols A t | (Stuck, t) \<Rightarrow> True"
    by (cases r) (simp_all add: on_db_def drive_def r filled_owned)
qed

lemma t_set_field:
  \<comment> \<open>overwriting a field that owned nothing; \<open>d\<close> blocks are waiting to be put into it\<close>
  assumes "fits (cols ! k) f" and "k < length cols" and "field_blocks f = d"
  shows "triple True (filled cols (A + d) k) (set_field k f) (\<lambda>_. filled cols A (Suc k)) (owned cols A)"
  using assms by (auto simp: triple_def set_field_def filled_def row_account_def object_blocks_update fits_all_update
      fits_all_length nth_list_update)

lemma if_triple: "triple U P m Q E \<Longrightarrow> triple U P m' Q E \<Longrightarrow> triple U P (if b then m else m') Q E"
  by simp

lemma t_set_null:
  "fits (cols ! k) f \<Longrightarrow> k < length cols \<Longrightarrow> field_blocks f = 0 \<Longrightarrow>
    triple True (filled cols A k) (set_field k f) (\<lambda>_. filled cols A (Suc k)) (owned cols A)"
  using t_set_field [of cols k f 0 A] by simp

lemma t_set_field_owned:
  assumes "fits (cols ! k) f" and "k < length cols" and "field_blocks f = 0"
  shows "triple True (filled cols A k) (set_field k f) (\<lambda>_. owned cols A) (owned cols A)"
  using assms by (auto simp: triple_def set_field_def filled_def owned_def row_account_def object_blocks_update fits_all_update
      fits_all_length nth_list_update)

lemma t_skip:
  "triple True (filled cols A k) (preturn ()) (\<lambda>_. filled cols A (Suc k)) E"
  by (rule triple_return) (simp add: filled_def)

lemma t_malloc:
  "triple True (filled cols A k) db_malloc (\<lambda>ok. filled cols (A + of_bool ok) k) (owned cols A)"
  by (auto simp: triple_def db_malloc_def on_db_def on_heap_def malloc_def filled_def row_account_def
      split: prod.splits dest!: malloc_live)

lemma t_fail: "triple True (filled cols A k) (perr e) Q (owned cols A)"
  by (rule triple_perr) (rule filled_owned)

lemma t_fail_owned: "triple True (owned cols A) (perr e) Q (owned cols A)"
  by (rule triple_perr)

lemma t_stuck: "triple True P stuck Q E"
  by (simp add: triple_def stuck_def)

lemma t_put_new:
  assumes "fits (cols ! k) f" and "k < length cols" and "field_blocks f = 1"
  shows "triple True (filled cols A k) (put_new k f) (\<lambda>_. filled cols A (Suc k)) (owned cols A)"
  unfolding put_new_def
proof (rule triple_bind [OF t_malloc])
  fix ok
  show "triple True (filled cols (A + of_bool ok) k) (if \<not> ok then perr C_ORM_ERROR_MEMORY else set_field k f)
      (\<lambda>_. filled cols A (Suc k)) (owned cols A)"
    using t_set_field [OF assms(1,2), of 1 A] assms(3) t_fail by (cases ok) simp_all
qed

lemma t_put_primitive:
  assumes "is_nullable (cols ! k) \<Longrightarrow> fits (cols ! k) (F_ref (Some f))" and "\<not> is_nullable (cols ! k) \<Longrightarrow> fits (cols ! k) f"
    and "k < length cols" and "pointer_in f = None"
  shows "triple True (filled cols A k) (put_primitive (cols ! k) k f) (\<lambda>_. filled cols A (Suc k)) (owned cols A)"
proof (cases "is_nullable (cols ! k)")
  case True
  have "field_blocks (F_ref (Some f)) = 1" by (simp add: field_blocks_def)
  from t_put_new [OF assms(1) [OF True] assms(3) this] True show ?thesis by (simp add: put_primitive_def)
next
  case False
  have "field_blocks f = 0" using assms(4) by (simp add: field_blocks_def)
  from t_set_field [OF assms(2) [OF False] assms(3) this, of A] False show ?thesis by (simp add: put_primitive_def)
qed

lemma t_put_copy:
  \<comment> \<open>\<open>put_text\<close> and \<open>put_blob\<close>: without memory the pointer is NULL\<close>
  assumes "fits (cols ! k) f" and "fits (cols ! k) g" and "k < length cols" and "field_blocks f = 1" and "field_blocks g = 0"
  shows "triple True (filled cols A k)
    (pbind db_malloc (\<lambda>ok. if \<not> ok then pbind (set_field k g) (\<lambda>_. perr e) else set_field k f))
    (\<lambda>_. filled cols A (Suc k)) (owned cols A)"
proof (rule triple_bind [OF t_malloc])
  fix ok
  have "triple True (filled cols A k) (pbind (set_field k g) (\<lambda>_. perr e)) (\<lambda>_. filled cols A (Suc k)) (owned cols A)"
    by (rule triple_bind [OF t_set_field_owned [OF assms(2,3,5)] t_fail_owned])
  then show "triple True (filled cols (A + of_bool ok) k) (if \<not> ok then pbind (set_field k g) (\<lambda>_. perr e) else set_field k f)
      (\<lambda>_. filled cols A (Suc k)) (owned cols A)"
    using t_set_field [OF assms(1,3), of 1 A] assms(4) by (cases ok) simp_all
qed

lemma t_put_text:
  "fits (cols ! k) (F_text None) \<Longrightarrow> k < length cols \<Longrightarrow>
    triple True (filled cols A k) (put_text k s) (\<lambda>_. filled cols A (Suc k)) (owned cols A)"
  unfolding put_text_def by (rule t_put_copy) (simp_all add: fits_def field_blocks_def)

lemma t_put_blob:
  "fits (cols ! k) (F_blob None) \<Longrightarrow> k < length cols \<Longrightarrow>
    triple True (filled cols A k) (put_blob k bs) (\<lambda>_. filled cols A (Suc k)) (owned cols A)"
  unfolding put_blob_def by (rule t_put_copy) (simp_all add: fits_def field_blocks_def)

lemma on_heap_account:
  "on_db (on_heap hook_block) s = (Ret (), (fst s, snd s\<lparr>cs_heap := (cs_heap (snd s))\<lparr>live := live (cs_heap (snd s)) + 1\<rparr>\<rparr>))"
  "on_db (on_heap free_block) s = (Ret (), (fst s, snd s\<lparr>cs_heap := C_ORM_FREE (cs_heap (snd s))\<rparr>))"
  by (simp_all add: on_db_def on_heap_def hook_block_def free_block_def)

lemma t_decrypted:
  fixes put :: "8 word list \<Rightarrow> ('d, unit) row_act"
  assumes put: "\<And>plain A. triple True (filled cols A k) (put plain) (\<lambda>_. filled cols A (Suc k)) (owned cols A)"
  shows "triple True (filled cols A k) (decrypted hook bs put) (\<lambda>_. filled cols A (Suc k)) (owned cols A)"
proof (cases "hook bs")
  case (Inl e)
  then show ?thesis by (simp add: decrypted_def t_fail)
next
  case (Inr plain)
  show ?thesis
    unfolding triple_def
  proof (intro allI impI)
    fix s :: "field list \<times> 'd cache_state" assume s: "filled cols A k s"
    define u where "u = (fst s, snd s\<lparr>cs_heap := (cs_heap (snd s))\<lparr>live := live (cs_heap (snd s)) + 1\<rparr>\<rparr>)"
    have u: "filled cols (A + 1) k u" using s by (simp add: filled_def row_account_def u_def)
    obtain r t where r: "put plain u = (r, t)" by (cases "put plain u")
    note at = triple_at [OF put u r]
    have run: "decrypted hook bs put s = (case put plain u of (Stuck, t) \<Rightarrow> (Stuck, t) | (r, t) \<Rightarrow>
        pbind (on_db (on_heap free_block)) (\<lambda>_ v. (r, v)) t)"
      by (simp add: decrypted_def Inr pbind_def on_heap_account u_def)
    show "case decrypted hook bs put s of (Ret a, t) \<Rightarrow> filled cols A (Suc k) t | (Err e, t) \<Rightarrow> owned cols A t | (Stuck, t) \<Rightarrow> True"
      using at unfolding run r
      by (cases r) (simp_all add: pbind_def on_heap_account filled_def owned_def row_account_def)
  qed
qed


lemma fits_text: "is_text_type (col_type col) \<Longrightarrow> fits col (F_text p)"
  by (simp add: fits_def)

lemma fits_inline:
  "col_type col = C_ORM_TYPE_BLOB \<Longrightarrow> fits col (F_blob b)"
  "col_type col = C_ORM_TYPE_POINT \<Longrightarrow> fits col (F_point x y)"
  "col_type col = C_ORM_TYPE_POLYGON \<Longrightarrow> fits col (F_polygon ps n)"
  by (simp_all add: fits_def zero_field_def is_text_type_def)

lemma field_blocks_simps [simp]:
  "field_blocks (F_point x y) = 0" "field_blocks (F_polygon None n) = 0" "field_blocks (F_polygon (Some ps) n) = 1"
  "field_blocks (F_text None) = 0" "field_blocks (F_text (Some t)) = 1" "field_blocks (F_blob None) = 0"
  "field_blocks (F_blob (Some b)) = 1" "field_blocks (F_ref None) = 0" "field_blocks (F_ref (Some f)) = 1"
  "field_blocks (F_int32 v) = 0" "field_blocks (F_int64 w) = 0" "field_blocks (F_float v) = 0" "field_blocks (F_double w) = 0"
  "field_blocks (F_bool u) = 0"
  by (simp_all add: field_blocks_def)

lemma t_hydrate_text:
  assumes "is_text_type (col_type (cols ! k))" and "k < length cols"
  shows "triple True (filled cols A k) (hydrate_text cfg (cols ! k) k s) (\<lambda>_. filled cols A (Suc k)) (owned cols A)"
proof -
  note put = t_put_text [OF fits_text [OF assms(1)] assms(2)]
  show ?thesis
    by (cases "tz_shifted cfg (cols ! k) (timezone_offset cfg) s"; cases "is_secure (cols ! k)"; cases "decrypt_hook cfg")
      (simp_all add: hydrate_text_def put t_decrypted)
qed

lemma t_hydrate_point:
  assumes "col_type (cols ! k) = C_ORM_TYPE_POINT" and "k < length cols"
  shows "triple True (filled cols A k) (hydrate_point k val) (\<lambda>_. filled cols A (Suc k)) (owned cols A)"
  by (cases val) (simp_all add: hydrate_point_def t_skip t_set_null fits_inline assms)

lemma t_polygon_points:
  assumes fit: "\<And>ps n. fits (cols ! k) (F_polygon ps n)" and k: "k < length cols"
  shows "triple True (filled cols (A + of_bool ok) k)
    (if ok then (case pts of Ret ps \<Rightarrow> set_field k (F_polygon (Some ps) n) | _ \<Rightarrow> stuck)
     else pbind (set_field k (F_polygon None n)) (\<lambda>_. perr C_ORM_ERROR_MEMORY))
    (\<lambda>_. filled cols A (Suc k)) (owned cols A)"
  by (cases ok; cases pts)
    (simp_all add: t_stuck t_set_field [OF fit k] triple_bind [OF t_set_field_owned [OF fit k] t_fail_owned])

lemma t_hydrate_polygon:
  assumes ty: "col_type (cols ! k) = C_ORM_TYPE_POLYGON" and k: "k < length cols"
  shows "triple True (filled cols A k) (hydrate_polygon k val) (\<lambda>_. filled cols A (Suc k)) (owned cols A)"
proof (cases val)
  case None
  then show ?thesis by (simp add: hydrate_polygon_def t_skip)
next
  case (Some wkb)
  note fit = fits_inline(3) [OF ty]
  show ?thesis
    unfolding hydrate_polygon_def Some option.case Let_def
    by (intro if_triple t_skip t_set_null fit k triple_bind [OF t_malloc] t_polygon_points) simp
qed

lemma t_hydrate_blob:
  assumes "col_type (cols ! k) = C_ORM_TYPE_BLOB" and "k < length cols"
  shows "triple True (filled cols A k) (hydrate_blob cfg (cols ! k) k val) (\<lambda>_. filled cols A (Suc k)) (owned cols A)"
proof -
  note put = t_put_blob [OF fits_inline(1) [OF assms(1)] assms(2)]
  note none = t_set_null [OF fits_inline(1) [OF assms(1)] assms(2), of None]
  show ?thesis
    by (cases val; cases "the val"; cases "is_secure (cols ! k)"; cases "decrypt_hook cfg")
      (simp_all add: hydrate_blob_def put t_decrypted none)
qed

lemma t_put_value:
  assumes "value_type (col_type (cols ! k))" and "shape f = shape (primitive (col_type (cols ! k)))" and "k < length cols"
  shows "triple True (filled cols A k) (put_primitive (cols ! k) k f) (\<lambda>_. filled cols A (Suc k)) (owned cols A)"
proof (rule t_put_primitive)
  have "\<not> is_text_type (col_type (cols ! k))" using assms(1) by (auto simp: value_type_def is_text_type_def)
  then have z: "zero_field (cols ! k) = (if is_nullable (cols ! k) then F_ref None else primitive (col_type (cols ! k)))"
    using assms(1) by (auto simp: zero_field_def value_type_def)
  show "is_nullable (cols ! k) \<Longrightarrow> fits (cols ! k) (F_ref (Some f))" using z assms(1,2) by (simp add: fits_def)
  have prim: "pointer_in f = None \<and> (\<forall>g. f \<noteq> F_ref g)"
    using assms(1,2) by (cases f) (auto simp: value_type_def primitive_def)
  then show "pointer_in f = None" by simp
  show "\<not> is_nullable (cols ! k) \<Longrightarrow> fits (cols ! k) f" using z assms(2) prim by (simp add: fits_def)
qed (rule assms(3))

lemma t_hydrate_value:
  assumes "k < length cols"
  shows "triple True (filled cols A k) (hydrate_value cfg vt q (cols ! k) k idx) (\<lambda>_. filled cols A (Suc k)) (owned cols A)"
proof (cases "is_text_type (col_type (cols ! k))")
  case True
  note none = t_set_null [OF fits_text [OF True] assms, of None]
  show ?thesis
    unfolding hydrate_value_def using True
    by (auto intro!: triple_bind [OF t_drive] simp: none t_hydrate_text [OF True assms] split: option.splits)
next
  case False
  note bind = triple_bind [OF t_drive]
  note put = t_put_value [OF _ _ assms]
  show ?thesis
    using False
    by (cases "col_type (cols ! k)")
      (auto simp: hydrate_value_def is_text_type_def value_type_def primitive_def
        intro!: bind put t_hydrate_point t_hydrate_polygon t_hydrate_blob t_fail assms)
qed

lemma t_release_field:
  assumes "k < length cols"
  shows "triple True (filled cols A k) (release_field k) (\<lambda>_. filled cols A (Suc k)) (owned cols A)"
  unfolding triple_def
proof (intro allI impI)
  fix s :: "field list \<times> 'd cache_state" assume s: "filled cols A k s"
  have k: "k < length (fst s)" using s assms by (auto simp: filled_def dest: fits_all_length)
  obtain r h where r: "release (fst s ! k) (cs_heap (snd s)) = (r, h)" by (cases "release (fst s ! k) (cs_heap (snd s))")
  note rel = release_run [OF r]
  have fit: "fits (cols ! k) (fst s ! k)" using s assms by (simp add: filled_def fits_all_def)
  have fit': "fits (cols ! k) (null_pointer (fst s ! k))"
    using fit by (cases "fst s ! k") (simp_all add: fits_def)
  show "case release_field k s of (Ret a, t) \<Rightarrow> filled cols A (Suc k) t | (Err e, t) \<Rightarrow> owned cols A t | (Stuck, t) \<Rightarrow> True"
  proof (cases r)
    case (Ret f)
    then have "release_field k s = (Ret (), ((fst s)[k := f], snd s\<lparr>cs_heap := h\<rparr>))"
      using k rel r by (simp add: release_field_def pbind_def get_field_def on_db_def on_heap_def set_field_def)
    with s k rel Ret fit' assms show ?thesis
      by (simp add: filled_def fits_all_update row_account_def object_blocks_update nth_list_update)
  next
    case (Err e)
    with rel show ?thesis by simp
  next
    case Stuck
    then have "fst (release_field k s) = Stuck"
      using k r by (simp add: release_field_def pbind_def get_field_def on_db_def on_heap_def)
    then show ?thesis by (cases "release_field k s") simp
  qed
qed

lemma t_hydrate_column:
  assumes "k < length cols"
  shows "triple True (filled cols A k) (hydrate_column cfg vt q (cols ! k) k idx) (\<lambda>_. filled cols A (Suc k)) (owned cols A)"
  unfolding hydrate_column_def
proof (rule triple_bind [OF t_drive])
  fix null
  show "triple True (filled cols A k)
      (if null then if is_nullable (cols ! k) then release_field k else perr C_ORM_ERROR_TYPE_MISMATCH
       else hydrate_value cfg vt q (cols ! k) k idx) (\<lambda>_. filled cols A (Suc k)) (owned cols A)"
    using t_release_field [OF assms] t_hydrate_value [OF assms] t_fail by auto
qed

lemma t_hydrate_columns:
  "drop k cols = cs \<Longrightarrow>
    triple True (filled cols A k) (hydrate_columns cfg vt q cs k idx) (\<lambda>_. filled cols A (length cols)) (owned cols A)"
proof (induction cs arbitrary: k idx)
  case Nil
  then have "length cols \<le> k" by simp
  then show ?case by (auto intro!: triple_return simp: filled_def)
next
  case (Cons c cs)
  then have k: "k < length cols" by (metis drop_all list.distinct(1) not_le)
  with Cons.prems have c: "c = cols ! k" "drop (Suc k) cols = cs"
    by (simp_all add: nth_via_drop [symmetric] Cons_nth_drop_Suc [symmetric])
  show ?case
    using triple_bind [OF t_hydrate_column [OF k] Cons.IH [OF c(2)]] by (simp add: c(1))
qed


section \<open>The clean-up\<close>

lemma pointer_in_shape: "shape f \<in> {5, 6, 8, 9} \<Longrightarrow> pointer_in f \<noteq> None"
  by (cases f) simp_all

lemma shape_zero_blob [simp]: "col_type col = C_ORM_TYPE_BLOB \<Longrightarrow> zero_field col = F_blob None"
  and shape_zero_polygon [simp]: "col_type col = C_ORM_TYPE_POLYGON \<Longrightarrow> zero_field col = F_polygon None 0"
  by (simp_all add: zero_field_def is_text_type_def)

lemma zero_field_nullable:
  "is_nullable col \<Longrightarrow> \<not> is_text_type (col_type col) \<Longrightarrow> col_type col \<notin> {C_ORM_TYPE_BLOB, C_ORM_TYPE_POINT, C_ORM_TYPE_POLYGON} \<Longrightarrow>
    zero_field col = F_ref None"
  by (cases "col_type col") (simp_all add: zero_field_def)

lemma blocks_not_nullable:
  assumes "fits col f" and "\<not> is_nullable col" and "\<not> is_text_type (col_type col)"
    and "col_type col \<noteq> C_ORM_TYPE_BLOB" and "col_type col \<noteq> C_ORM_TYPE_POLYGON"
  shows "field_blocks f = 0"
proof -
  have "shape (zero_field col) \<notin> {5, 6, 8}" and "value_type (col_type col) \<longrightarrow> shape (zero_field col) \<noteq> 9"
    using assms(2-5) by (cases "col_type col"; simp add: zero_field_def primitive_def value_type_def)+
  then show ?thesis
    using assms(1) by (cases f) (auto simp: fits_def field_blocks_def)
qed

lemma free_column_run:
  assumes fit: "fits col f" and pt: "col_type col = C_ORM_TYPE_POINT \<Longrightarrow> \<not> is_nullable col"
    and run: "free_column col f h = (r, h')"
  shows "\<exists>f'. r = Ret f' \<and> fits col f' \<and> field_blocks f' = 0 \<and> live h' = live h - field_blocks f"
proof -
  have sh: "shape f = shape (zero_field col)" using fit by (simp add: fits_def)
  have rel: ?thesis if "release f h = (r, h')" and "pointer_in f \<noteq> None"
  proof -
    have "r = Ret (null_pointer f) \<and> live h' = live h - field_blocks f"
      using release_run [OF that(1)] that(2) by (cases r) auto
    moreover have "fits col (null_pointer f)" using fit by (cases f) (simp_all add: fits_def)
    ultimately show ?thesis by simp
  qed
  show ?thesis
  proof (cases "is_text_type (col_type col) \<or> col_type col = C_ORM_TYPE_BLOB")
    case True
    then have "pointer_in f \<noteq> None" by (intro pointer_in_shape) (auto simp: sh)
    with True run show ?thesis by (intro rel) (auto simp: free_column_def split: if_splits)
  next
    case nottext: False
    show ?thesis
    proof (cases "col_type col = C_ORM_TYPE_POLYGON")
      case True
      then obtain ps n where f: "f = F_polygon ps n"
        using sh by (cases f) simp_all
      show ?thesis
      proof (cases ps)
        case None
        with True nottext run f fit show ?thesis
          by (intro exI [of _ f]) (auto simp: free_column_def preturn_def)
      next
        case (Some p)
        then have "release f h = (Ret (null_pointer f), C_ORM_FREE h)" by (simp add: f release_def)
        with True nottext run f Some fit show ?thesis
          by (intro exI [of _ "F_polygon None 0"]) (auto simp: free_column_def preturn_def pbind_def fits_inline)
      qed
    next
      case False
      show ?thesis
      proof (cases "is_nullable col")
        case True
        then have "pointer_in f \<noteq> None"
          using zero_field_nullable [of col] nottext False pt
          by (intro pointer_in_shape) (cases "col_type col = C_ORM_TYPE_POINT"; simp add: sh)
        with True False nottext run show ?thesis by (intro rel) (auto simp: free_column_def)
      next
        case nn: False
        then have "field_blocks f = 0" using nottext False by (intro blocks_not_nullable [OF fit]) auto
        with nn False nottext run fit show ?thesis by (intro exI [of _ f]) (auto simp: free_column_def preturn_def)
      qed
    qed
  qed
qed


lemma free_columns_run:
  assumes "fits_all cols fs" and "inline_points cols" and "c_orm_free_columns cols fs h = (r, h')"
  shows "\<exists>fs'. r = Ret fs' \<and> fits_all cols fs' \<and> object_blocks fs' = 0 \<and> live h' = live h - object_blocks fs"
  using assms
proof (induction cols fs arbitrary: h r h' rule: c_orm_free_columns.induct)
  case (1 fs)
  then show ?case by (simp add: preturn_def fits_all_def object_blocks_def)
next
  case (2 c cs)
  then show ?case by (simp add: fits_all_def)
next
  case (3 c cs f fs)
  have fit: "fits c f" "fits_all cs fs" using 3(2) by (force simp: fits_all_def)+
  have pt: "col_type c = C_ORM_TYPE_POINT \<Longrightarrow> \<not> is_nullable c" "inline_points cs"
    using 3(3) by (auto simp: inline_points_def)
  obtain r1 h1 where r1: "free_column c f h = (r1, h1)" by (cases "free_column c f h")
  from free_column_run [OF fit(1) pt(1) r1] obtain f' where f':
    "r1 = Ret f'" "fits c f'" "field_blocks f' = 0" "live h1 = live h - field_blocks f" by blast
  obtain r2 h2 where r2: "c_orm_free_columns cs fs h1 = (r2, h2)" by (cases "c_orm_free_columns cs fs h1")
  from 3(1) [OF fit(2) pt(2) r2] obtain fs' where fs':
    "r2 = Ret fs'" "fits_all cs fs'" "object_blocks fs' = 0" "live h2 = live h1 - object_blocks fs" by blast
  have "fits_all (c # cs) (f' # fs')"
    using f' fs' by (auto simp: fits_all_def nth_Cons split: nat.splits)
  moreover have "r = Ret (f' # fs')" "h' = h2"
    using 3(4) by (simp_all add: pbind_def r1 f' r2 fs' preturn_def)
  ultimately show ?case using f' fs' by (simp add: object_blocks_def)
qed

lemma t_check_expiry: "triple True (filled cols A k) (check_expiry cfg m) (\<lambda>_. filled cols A k) (owned cols A)"
  unfolding triple_def
  by (auto simp: check_expiry_def preturn_def pbind_def get_field_def stuck_def perr_def Let_def filled_owned
      split: option.splits prod.splits field.splits)

definition hydrated :: "api_table \<Rightarrow> int \<Rightarrow> unit outcome \<times> (field list \<times> 'd cache_state) \<Rightarrow> bool" where
  "hydrated m A res \<longleftrightarrow>
     (case res of
        (Ret _, (fs, s)) \<Rightarrow> fits_all (columns m) fs \<and> live (cs_heap s) = A + object_blocks fs
      | (Err _, (fs, s)) \<Rightarrow> fits_all (columns m) fs \<and> object_blocks fs = 0 \<and> live (cs_heap s) = A
      | (Stuck, _) \<Rightarrow> True)"

lemma hydrate_row_from_hydrated:
  assumes "fits_all (columns m) fs" and "object_blocks fs = 0" and "\<And>i. i < length (columns m) \<Longrightarrow> field_blocks (fs ! i) = 0"
    and "inline_points (columns m)"
  shows "hydrated m (live (cs_heap s)) (c_orm_hydrate_row_from cfg vt q m start (fs, s))"
proof -
  let ?cols = "columns m" and ?A = "live (cs_heap s)"
  define body where "body = pbind (hydrate_columns cfg vt q ?cols 0 start) (\<lambda>_. check_expiry cfg m)"
  have "triple True (filled ?cols ?A 0) body (\<lambda>_. filled ?cols ?A (length ?cols)) (owned ?cols ?A)"
    unfolding body_def by (rule triple_bind [OF t_hydrate_columns t_check_expiry]) simp
  moreover have start: "filled ?cols ?A 0 (fs, s)" using assms by (simp add: filled_def row_account_def)
  moreover obtain r t where r: "body (fs, s) = (r, t)" by (cases "body (fs, s)")
  ultimately have at: "case r of Ret a \<Rightarrow> filled ?cols ?A (length ?cols) t | Err e \<Rightarrow> owned ?cols ?A t | Stuck \<Rightarrow> True"
    by (rule triple_at)
  have run: "c_orm_hydrate_row_from cfg vt q m start (fs, s) =
      (case (r, t) of (Err e, t) \<Rightarrow> pbind (free_object m) (\<lambda>_. perr e) t | r \<Rightarrow> r)"
    by (simp add: c_orm_hydrate_row_from_def fail_after_def r flip: body_def)
  show ?thesis
  proof (cases r)
    case (Ret u)
    with at run show ?thesis by (auto simp: hydrated_def filled_def row_account_def split: prod.splits)
  next
    case (Err e)
    obtain fs1 s1 where t: "t = (fs1, s1)" by (cases t)
    with at Err have o1: "fits_all ?cols fs1" "live (cs_heap s1) - object_blocks fs1 = ?A"
      by (simp_all add: owned_def row_account_def)
    obtain r2 h2 where r2: "c_orm_free_columns ?cols fs1 (cs_heap s1) = (r2, h2)" by (cases "c_orm_free_columns ?cols fs1 (cs_heap s1)")
    from free_columns_run [OF o1(1) assms(4) r2] obtain fs2 where
      "r2 = Ret fs2" "fits_all ?cols fs2" "object_blocks fs2 = 0" "live h2 = live (cs_heap s1) - object_blocks fs1" by blast
    with o1 r2 show ?thesis
      by (simp add: run Err t hydrated_def pbind_def free_object_def on_heap_def perr_def)
  next
    case Stuck
    with run show ?thesis by (simp add: hydrated_def)
  qed
qed

lemma zero_object:
  "fits_all cols (map zero_field cols)" "object_blocks (map zero_field cols) = 0"
  "i < length cols \<Longrightarrow> field_blocks (map zero_field cols ! i) = 0"
proof -
  have "zero_field c \<noteq> F_ref (Some g)" "field_blocks (zero_field c) = 0" for c g
    by (cases "col_type c"; simp add: zero_field_def primitive_def)+
  then show "fits_all cols (map zero_field cols)" "object_blocks (map zero_field cols) = 0"
    "i < length cols \<Longrightarrow> field_blocks (map zero_field cols ! i) = 0"
    by (simp_all add: fits_all_def fits_def object_blocks_def, induction cols, simp_all)
qed



end
