(* ===== verification/RowStore.thy ===== *)
theory RowStore
  imports RowProps
begin

text \<open>
  What a driver promises about the values of a row: a parameter that is bound is there, a column that holds a value
  is read back as that value. Over any such driver \<open>bind_row\<close> writes an object as a row of values and
  \<open>c_orm_hydrate_row_from\<close> reads the same object back.
\<close>

section \<open>Values\<close>

datatype db_value = V_null | V_int32 "32 word" | V_int64 "64 word" | V_double "64 word" | V_text string | V_blob "8 word list"

fun field_value :: "api_config \<Rightarrow> field \<Rightarrow> db_value" where
  "field_value cfg (F_int32 v) = V_int32 v"
| "field_value cfg (F_int64 v) = V_int64 v"
| "field_value cfg (F_float v) = V_double (float_to_double cfg v)"
| "field_value cfg (F_double v) = V_double v"
| "field_value cfg (F_bool b) = V_int32 (if b \<noteq> 0 then 1 else 0)"
| "field_value cfg (F_text None) = V_null"
| "field_value cfg (F_text (Some s)) = V_text s"
| "field_value cfg (F_blob None) = V_null"
| "field_value cfg (F_blob (Some bs)) = (if bs = [] then V_null else V_blob bs)"
| "field_value cfg (F_point x y) = V_blob (wkb_point x y)"
| "field_value cfg (F_polygon None n) = V_blob (wkb_polygon [])"
| "field_value cfg (F_polygon (Some ps) n) = V_blob (wkb_polygon ps)"
| "field_value cfg (F_ref None) = V_null"
| "field_value cfg (F_ref (Some f)) = field_value cfg f"

text \<open>
  The objects that a table can store: of the right types, NULL only where the column allows it, without the
  combinations that the code does not keep apart (an empty blob is stored as NULL) or changes on the way
  (a missing text key is replaced by a UUID, hooks and time zones), and with a polygon of less than \<open>2 ^ 28 - 1\<close> points.
\<close>

definition plain_value :: "api_config \<Rightarrow> field \<Rightarrow> bool" where
  "plain_value cfg f \<longleftrightarrow>
     (case f of
        F_float v \<Rightarrow> double_to_float cfg (float_to_double cfg v) = v
      | F_bool b \<Rightarrow> b = 0 \<or> b = 1
      | F_blob (Some bs) \<Rightarrow> bs \<noteq> []
      | F_polygon None n \<Rightarrow> n = 0
      | F_polygon (Some ps) n \<Rightarrow> n = length ps \<and> ps \<noteq> [] \<and> n < 2 ^ 28 - 1
      | _ \<Rightarrow> True)"

definition storable :: "api_config \<Rightarrow> c_orm_column_meta_t \<Rightarrow> field \<Rightarrow> bool" where
  "storable cfg col f \<longleftrightarrow>
     fits col f \<and> plain_value cfg f \<and> (\<forall>g. f = F_ref (Some g) \<longrightarrow> plain_value cfg g) \<and>
     col_type col \<notin> {C_ORM_TYPE_ARRAY, C_ORM_TYPE_UNKNOWN} \<and>
     (field_value cfg f = V_null \<longrightarrow> is_nullable col) \<and>
     (col_type col \<in> {C_ORM_TYPE_POINT, C_ORM_TYPE_POLYGON} \<longrightarrow> \<not> is_nullable col) \<and>
     (is_pk col \<and> col_type col = C_ORM_TYPE_STRING \<longrightarrow> f \<noteq> F_text None \<and> f \<noteq> F_text (Some [])) \<and>
     (is_secure col \<longrightarrow> encrypt_hook cfg = None \<and> decrypt_hook cfg = None) \<and>
     (col_type col = C_ORM_TYPE_TIMESTAMP \<longrightarrow> timezone_offset cfg = 0)"

lemma storable_inline:
  "storable cfg col f \<Longrightarrow> col_type col = C_ORM_TYPE_POINT \<Longrightarrow> \<not> is_nullable col"
  by (simp add: storable_def)

section \<open>Well-known binary\<close>

lemma point_roundtrip:
  "length (wkb_point x y) = 21"
  "word_le (take 8 (drop 5 (wkb_point x y))) = x" "word_le (take 8 (drop 13 (wkb_point x y))) = y"
  by (simp_all add: wkb_point_def)

definition point_bytes :: "(64 word \<times> 64 word) list \<Rightarrow> 8 word list" where
  "point_bytes ps = concat (map (\<lambda>(x, y). bytes_le 8 x @ bytes_le 8 y) ps)"

lemma length_point_bytes [simp]: "length (point_bytes ps) = 16 * length ps"
  by (induction ps) (auto simp: point_bytes_def)

lemma read_points_roundtrip: "length pre = at \<Longrightarrow> read_points (pre @ point_bytes ps) at (length ps) = Ret ps"
proof (induction ps arbitrary: pre at)
  case (Cons p ps)
  obtain x y where p: "p = (x, y)" by (cases p)
  have split: "pre @ point_bytes (p # ps) = pre @ bytes_le 8 x @ bytes_le 8 y @ point_bytes ps"
    by (simp add: point_bytes_def p)
  have rest: "read_points (pre @ point_bytes (p # ps)) (at + 16) (length ps) = Ret ps"
    using Cons.IH [of "pre @ bytes_le 8 x @ bytes_le 8 y" "at + 16"] Cons.prems by (simp add: split)
  have "take 8 (drop at (pre @ point_bytes (p # ps))) = bytes_le 8 x"
    "take 8 (drop (at + 8) (pre @ point_bytes (p # ps))) = bytes_le 8 y"
    using Cons.prems by (simp_all add: split)
  with rest Cons.prems show ?case by (simp add: p)
qed simp

lemma polygon_header:
  assumes "length ps < 2 ^ 28 - 1"
  shows "length (wkb_polygon ps) = 13 + 16 * length ps"
    and "word_le (take 4 (drop 9 (wkb_polygon ps))) = (of_nat (length ps) :: 32 word)"
    and "unat (of_nat (length ps) :: 32 word) = length ps"
    and "unat (13 + of_nat (length ps) * 16 :: 32 word) = 13 + 16 * length ps"
    and "read_points (wkb_polygon ps) 13 (length ps) = Ret ps"
proof -
  have w: "wkb_polygon ps = ([1, 3, 0, 0, 0, 1, 0, 0, 0] @ bytes_le 4 (of_nat (length ps) :: 32 word)) @ point_bytes ps"
    by (simp add: wkb_polygon_def point_bytes_def)
  show "length (wkb_polygon ps) = 13 + 16 * length ps" by (simp add: w)
  show "word_le (take 4 (drop 9 (wkb_polygon ps))) = (of_nat (length ps) :: 32 word)" by (simp add: w)
  show "unat (of_nat (length ps) :: 32 word) = length ps"
    using assms by (simp add: unat_of_nat take_bit_nat_eq_self)
  have "(13 + of_nat (length ps) * 16 :: 32 word) = of_nat (13 + 16 * length ps)" by simp
  then show "unat (13 + of_nat (length ps) * 16 :: 32 word) = 13 + 16 * length ps"
    using assms by (simp only: unat_of_nat) simp
  show "read_points (wkb_polygon ps) 13 (length ps) = Ret ps"
    unfolding w by (rule read_points_roundtrip) simp
qed


section \<open>The interface of a driver\<close>

definition bind_law :: "('d \<Rightarrow> bool) \<Rightarrow> ('d \<Rightarrow> nat \<Rightarrow> bool) \<Rightarrow> ('d \<Rightarrow> nat \<Rightarrow> int \<Rightarrow> db_value option) \<Rightarrow>
    nat \<Rightarrow> int \<Rightarrow> db_value \<Rightarrow> ('d, unit) act \<Rightarrow> bool" where
  "bind_law good opened param q i v m \<longleftrightarrow>
     (\<forall>d. good d \<longrightarrow> opened d q \<longrightarrow>
        (\<exists>d'. m d = (Ret (), d') \<and> good d' \<and> opened d' q \<and> param d' q = (param d q)(i := Some v)))"

definition get_law :: "('d \<Rightarrow> bool) \<Rightarrow> ('d \<Rightarrow> nat \<Rightarrow> int \<Rightarrow> db_value option) \<Rightarrow> nat \<Rightarrow> int \<Rightarrow> db_value \<Rightarrow> 'a \<Rightarrow> ('d, 'a) act \<Rightarrow> bool" where
  "get_law good cell q i v a m \<longleftrightarrow>
     (\<forall>d. good d \<longrightarrow> cell d q i = Some v \<longrightarrow> (\<exists>d'. m d = (Ret a, d') \<and> good d' \<and> cell d' q = cell d q))"

locale row_driver =
  fixes vt :: "'d row_vtable"
    and good :: "'d \<Rightarrow> bool"
    and opened :: "'d \<Rightarrow> nat \<Rightarrow> bool"
    and param :: "'d \<Rightarrow> nat \<Rightarrow> int \<Rightarrow> db_value option"
    and cell :: "'d \<Rightarrow> nat \<Rightarrow> int \<Rightarrow> db_value option"
    and limit :: int
  assumes bind_int32: "1 \<le> i \<Longrightarrow> i \<le> limit \<Longrightarrow> bind_law good opened param q i (V_int32 w32) (rv_bind_int32 vt q i w32)"
    and bind_int64: "1 \<le> i \<Longrightarrow> i \<le> limit \<Longrightarrow> bind_law good opened param q i (V_int64 w64) (rv_bind_int64 vt q i w64)"
    and bind_double: "1 \<le> i \<Longrightarrow> i \<le> limit \<Longrightarrow> bind_law good opened param q i (V_double w64) (rv_bind_double vt q i w64)"
    and bind_string: "1 \<le> i \<Longrightarrow> i \<le> limit \<Longrightarrow> bind_law good opened param q i (V_text s) (rv_bind_string vt q i (Some s))"
    and bind_blob: "1 \<le> i \<Longrightarrow> i \<le> limit \<Longrightarrow> bind_law good opened param q i (V_blob bs) (rv_bind_blob vt q i bs)"
    and bind_null: "1 \<le> i \<Longrightarrow> i \<le> limit \<Longrightarrow> bind_law good opened param q i V_null (rv_bind_null vt q i)"
    and get_int32: "get_law good cell q i (V_int32 w32) w32 (rv_get_int32 vt q i)"
    and get_int64: "get_law good cell q i (V_int64 w64) w64 (rv_get_int64 vt q i)"
    and get_double: "get_law good cell q i (V_double w64) w64 (rv_get_double vt q i)"
    and get_string: "get_law good cell q i (V_text s) (Some s) (rv_get_string vt q i)"
    and get_blob: "get_law good cell q i (V_blob bs) (Some bs) (rv_get_blob vt q i)"
    and is_null: "get_law good cell q i v (v = V_null) (rv_is_null vt q i)"
begin

definition wrote :: "nat \<Rightarrow> int \<Rightarrow> db_value \<Rightarrow> field list \<times> 'd cache_state \<Rightarrow> unit outcome \<times> (field list \<times> 'd cache_state) \<Rightarrow> bool" where
  "wrote q i v s res \<longleftrightarrow>
     (\<exists>d'. res = (Ret (), (fst s, snd s\<lparr>cs_driver := d'\<rparr>)) \<and> good d' \<and> opened d' q \<and>
        param d' q = (param (cs_driver (snd s)) q)(i := Some v))"

lemma wrote_drive:
  assumes "bind_law good opened param q i v m" and "good (cs_driver (snd s))" and "opened (cs_driver (snd s)) q"
  shows "wrote q i v s (on_db (drive m) s)"
  using assms unfolding bind_law_def wrote_def on_db_def drive_def by fastforce

lemma wrote_polygon:
  assumes "bind_law good opened param q i v m" and "good (cs_driver (snd s))" and "opened (cs_driver (snd s)) q"
    and "no_oom (cs_heap (snd s))"
  shows "wrote q i v s
    (pbind (on_db (on_heap malloc)) (\<lambda>ok. if \<not> ok then perr e
       else pbind (on_db (attempt (drive m))) (\<lambda>r. pbind (on_db (on_heap free_block)) (\<lambda>_.
              case r of Inl e \<Rightarrow> perr e | Inr _ \<Rightarrow> preturn ()))) s)"
proof -
  obtain d' where d': "m (cs_driver (snd s)) = (Ret (), d')" "good d'" "opened d' q"
    "param d' q = (param (cs_driver (snd s)) q)(i := Some v)"
    using assms(1-3) by (auto simp: bind_law_def)
  have "pbind (on_db (on_heap malloc)) (\<lambda>ok. if \<not> ok then perr e
       else pbind (on_db (attempt (drive m))) (\<lambda>r. pbind (on_db (on_heap free_block)) (\<lambda>_.
              case r of Inl e \<Rightarrow> perr e | Inr _ \<Rightarrow> preturn ()))) s = (Ret (), (fst s, snd s\<lparr>cs_driver := d'\<rparr>))"
    using d' assms(4)
    by (simp add: pbind_def on_db_def on_heap_def malloc_def attempt_def drive_def free_block_def preturn_def C_ORM_FREE_def)
  with d' show ?thesis unfolding wrote_def by blast
qed

lemma bind_primitive_wrote:
  assumes s: "good (cs_driver (snd s))" "opened (cs_driver (snd s)) q" "no_oom (cs_heap (snd s))"
    and i: "1 \<le> i" "i \<le> limit"
    and ty: "shape f = shape (primitive (col_type col)) \<and> value_type (col_type col) \<or>
      shape f = shape (zero_field col) \<and> col_type col \<in> {C_ORM_TYPE_POINT, C_ORM_TYPE_POLYGON}"
    and plain: "plain_value cfg f"
  shows "wrote q i (field_value cfg f) s (bind_primitive cfg vt q col i f s)"
proof (cases "col_type col \<in> {C_ORM_TYPE_POINT, C_ORM_TYPE_POLYGON}")
  case False
  with ty have "shape f = shape (primitive (col_type col))" "value_type (col_type col)" by auto
  then show ?thesis
    using wrote_drive [OF bind_int32 [OF i] s(1,2)] wrote_drive [OF bind_int64 [OF i] s(1,2)] wrote_drive [OF bind_double [OF i] s(1,2)]
    by (cases "col_type col"; cases f) (simp_all add: bind_primitive_def primitive_def value_type_def)
next
  case True
  note poly = wrote_polygon [OF bind_blob [OF i] s]
  show ?thesis
  proof (cases "col_type col = C_ORM_TYPE_POINT")
    case point: True
    with ty obtain x y where "f = F_point x y"
      by (cases f) (auto simp: zero_field_def is_text_type_def value_type_def primitive_def)
    with point show ?thesis using wrote_drive [OF bind_blob [OF i] s(1,2)] by (simp add: bind_primitive_def)
  next
    case False
    with True have pt: "col_type col = C_ORM_TYPE_POLYGON" by simp
    with ty obtain ps n where f: "f = F_polygon ps n" by (cases f) (auto simp: value_type_def)
    show ?thesis
    proof (cases ps)
      case None
      with plain f have "polygon_points ps n = Ret []" by (simp add: polygon_points_def plain_value_def)
      with None f pt show ?thesis using poly by (simp add: bind_primitive_def cong: if_cong)
    next
      case (Some qs)
      with plain f have "polygon_points ps n = Ret qs" by (simp add: polygon_points_def plain_value_def)
      with Some f pt show ?thesis using poly by (simp add: bind_primitive_def cong: if_cong)
    qed
  qed
qed

end


section \<open>Writing\<close>

definition storable_all :: "api_config \<Rightarrow> c_orm_column_meta_t list \<Rightarrow> field list \<Rightarrow> bool" where
  "storable_all cfg cols obj \<longleftrightarrow> length obj = length cols \<and> (\<forall>i < length cols. storable cfg (cols ! i) (obj ! i))"

lemma storable_text:
  assumes "storable cfg col f" and "is_text_type (col_type col)"
  obtains p where "f = F_text p"
  using assms by (cases f) (auto simp: storable_def fits_def)

lemma storable_blob:
  assumes "storable cfg col f" and "col_type col = C_ORM_TYPE_BLOB"
  obtains p where "f = F_blob p"
  using assms by (cases f) (auto simp: storable_def fits_def)

lemma storable_nullable:
  assumes "storable cfg col f" and "is_nullable col" and "\<not> is_text_type (col_type col)" and "col_type col \<noteq> C_ORM_TYPE_BLOB"
  obtains g where "f = F_ref g"
  using assms by (cases f) (auto simp: storable_def fits_def zero_field_nullable)

lemma storable_primitive:
  assumes "storable cfg col f" and "\<not> is_nullable col" and "\<not> is_text_type (col_type col)" and "col_type col \<noteq> C_ORM_TYPE_BLOB"
  shows "shape f = shape (primitive (col_type col)) \<and> value_type (col_type col) \<or>
      shape f = shape (zero_field col) \<and> col_type col \<in> {C_ORM_TYPE_POINT, C_ORM_TYPE_POLYGON}"
  using assms by (cases "col_type col") (simp_all add: storable_def fits_def zero_field_def value_type_def is_text_type_def)

context row_driver begin

lemma bind_column_wrote:
  assumes s: "good (cs_driver s)" "opened (cs_driver s) q" "no_oom (cs_heap s)"
    and i: "1 \<le> i" "i \<le> limit"
    and k: "k < length obj" and st: "storable cfg col (obj ! k)"
  shows "wrote q i (field_value cfg (obj ! k)) (obj, s) (bind_column cfg vt q col k i (obj, s))"
proof -
  let ?f = "obj ! k" and ?s = "(obj, s)"
  have s': "good (cs_driver (snd ?s))" "opened (cs_driver (snd ?s)) q" "no_oom (cs_heap (snd ?s))" using s by simp_all
  note law = wrote_drive [OF _ s'(1,2)]
  have start: "bind_column cfg vt q col k i ?s = (
       if is_text_type (col_type col) then
         (case ?f of F_text p \<Rightarrow> pbind (fresh_key cfg col k p) (\<lambda>p. case p of
                  None \<Rightarrow> on_db (drive (rv_bind_null vt q i)) | Some s \<Rightarrow> bind_text cfg vt q col i s) | _ \<Rightarrow> stuck)
       else if col_type col = C_ORM_TYPE_BLOB then
         (case ?f of F_blob p \<Rightarrow> (case p of None \<Rightarrow> on_db (drive (rv_bind_null vt q i))
               | Some bs \<Rightarrow> if bs = [] then on_db (drive (rv_bind_null vt q i))
                   else (case (is_secure col, encrypt_hook cfg) of (True, Some hook) \<Rightarrow> bind_encrypted vt q hook bs i
                         | _ \<Rightarrow> on_db (drive (rv_bind_blob vt q i bs)))) | _ \<Rightarrow> stuck)
       else if is_nullable col then
         (case ?f of F_ref (Some v) \<Rightarrow> bind_primitive cfg vt q col i v
          | _ \<Rightarrow> if pointer_in ?f = Some False then on_db (drive (rv_bind_null vt q i)) else stuck)
       else bind_primitive cfg vt q col i ?f) ?s"
    using k by (simp add: bind_column_def pbind_def get_field_def)
  have sec: "is_secure col \<Longrightarrow> encrypt_hook cfg = None" using st by (simp add: storable_def)
  show ?thesis
  proof (cases "is_text_type (col_type col)")
    case True
    obtain p where f: "?f = F_text p" using storable_text [OF st True] .
    have key: "fresh_key cfg col k p = (preturn p :: ('d, cptr) row_act)"
      using st unfolding f storable_def fresh_key_def by auto
    show ?thesis
    proof (cases p)
      case None
      then show ?thesis using law [OF bind_null [OF i]] key by (simp add: start True f)
    next
      case (Some t)
      have "tz_shifted cfg col x t = None" for x using st by (auto simp: storable_def tz_shifted_def)
      then have "bind_text cfg vt q col i t = on_db (drive (rv_bind_string vt q i (Some t)))"
        using sec by (cases "is_secure col") (simp_all add: bind_text_def)
      then show ?thesis using law [OF bind_string [OF i]] key by (simp add: start True f Some)
    qed
  next
    case nottext: False
    show ?thesis
    proof (cases "col_type col = C_ORM_TYPE_BLOB")
      case True
      obtain p where f: "?f = F_blob p" using storable_blob [OF st True] .
      show ?thesis
        using law [OF bind_null [OF i]] law [OF bind_blob [OF i]] sec
        by (cases p; cases "is_secure col") (simp_all add: start nottext True f is_text_type_def)
    next
      case notblob: False
      show ?thesis
      proof (cases "is_nullable col")
        case True
        obtain g where f: "?f = F_ref g" using storable_nullable [OF st True nottext notblob] .
        show ?thesis
        proof (cases g)
          case None
          then show ?thesis using law [OF bind_null [OF i]] by (simp add: start nottext notblob True f)
        next
          case (Some v)
          have "shape v = shape (primitive (col_type col)) \<and> value_type (col_type col)" and "plain_value cfg v"
            using st by (simp_all add: f Some storable_def fits_def)
          from bind_primitive_wrote [OF s' i disjI1 [OF this(1)] this(2)] show ?thesis
            by (simp add: start nottext notblob True f Some)
        qed
      next
        case False
        have "plain_value cfg ?f" using st by (simp add: storable_def)
        from bind_primitive_wrote [OF s' i storable_primitive [OF st False nottext notblob] this] show ?thesis
          by (simp add: start nottext notblob False)
      qed
    qed
  qed
qed

lemma bind_row_wrote:
  assumes "good (cs_driver s)" and "opened (cs_driver s) q" and "no_oom (cs_heap s)"
    and "1 \<le> i" and "i + int (length cs) \<le> limit + 1"
    and "drop k cols = cs" and "storable_all cfg cols obj"
  shows "\<exists>d'. bind_row cfg vt q cs k i (obj, s) = (Ret (i + int (length cs)), (obj, s\<lparr>cs_driver := d'\<rparr>)) \<and> good d' \<and> opened d' q \<and>
    (\<forall>j < length cs. param d' q (i + int j) = Some (field_value cfg (obj ! (k + j)))) \<and>
    (\<forall>j. j < i \<or> i + int (length cs) \<le> j \<longrightarrow> param d' q j = param (cs_driver s) q j)"
  using assms
proof (induction cs arbitrary: k i s)
  case Nil
  then show ?case by (intro exI [of _ "cs_driver s"]) (simp add: preturn_def)
next
  case (Cons c cs)
  have k: "k < length cols" using Cons.prems(6) by (metis drop_all list.distinct(1) not_le)
  then have c: "c = cols ! k" "drop (Suc k) cols = cs" and ko: "k < length obj"
    using Cons.prems(6,7) by (simp_all add: Cons_nth_drop_Suc [symmetric] storable_all_def)
  have st: "storable cfg c (obj ! k)" using Cons.prems(7) k c by (simp add: storable_all_def)
  have il: "i \<le> limit" using Cons.prems(5) by simp
  from bind_column_wrote [OF Cons.prems(1-4) il ko st] obtain d1 where
    d1: "bind_column cfg vt q c k i (obj, s) = (Ret (), (obj, s\<lparr>cs_driver := d1\<rparr>))" "good d1" "opened d1 q"
      "param d1 q = (param (cs_driver s) q)(i := Some (field_value cfg (obj ! k)))"
    unfolding wrote_def by auto
  have "\<exists>d'. bind_row cfg vt q cs (Suc k) (i + 1) (obj, s\<lparr>cs_driver := d1\<rparr>)
      = (Ret (i + 1 + int (length cs)), (obj, s\<lparr>cs_driver := d1\<rparr>\<lparr>cs_driver := d'\<rparr>)) \<and> good d' \<and> opened d' q \<and>
    (\<forall>j < length cs. param d' q (i + 1 + int j) = Some (field_value cfg (obj ! (Suc k + j)))) \<and>
    (\<forall>j. j < i + 1 \<or> i + 1 + int (length cs) \<le> j \<longrightarrow> param d' q j = param (cs_driver (s\<lparr>cs_driver := d1\<rparr>)) q j)"
    by (rule Cons.IH) (use Cons.prems d1 c in simp_all)
  then obtain d2 where
    d2: "bind_row cfg vt q cs (Suc k) (i + 1) (obj, s\<lparr>cs_driver := d1\<rparr>) = (Ret (i + 1 + int (length cs)), (obj, s\<lparr>cs_driver := d2\<rparr>))"
      "good d2" "opened d2 q" "\<forall>j < length cs. param d2 q (i + 1 + int j) = Some (field_value cfg (obj ! (Suc k + j)))"
      "\<forall>j. j < i + 1 \<or> i + 1 + int (length cs) \<le> j \<longrightarrow> param d2 q j = param d1 q j" by auto
  have "param d2 q (i + int j) = Some (field_value cfg (obj ! (k + j)))" if j: "j < length (c # cs)" for j
  proof (cases j)
    case 0
    with d1(4) d2(5) show ?thesis by simp
  next
    case (Suc j')
    with j d2(4) have "param d2 q (i + 1 + int j') = Some (field_value cfg (obj ! (Suc k + j')))" by simp
    with Suc show ?thesis by (simp add: algebra_simps)
  qed
  moreover have "\<forall>j. j < i \<or> i + int (length (c # cs)) \<le> j \<longrightarrow> param d2 q j = param (cs_driver s) q j"
    using d1(4) d2(5) by simp
  moreover have "bind_row cfg vt q (c # cs) k i (obj, s) = (Ret (i + int (length (c # cs))), (obj, s\<lparr>cs_driver := d2\<rparr>))"
    using d1(1) d2(1) by (simp add: pbind_def)
  ultimately show ?case using d2(2,3) by blast
qed

end


section \<open>Reading\<close>

context row_driver begin

definition read_into :: "nat \<Rightarrow> nat \<Rightarrow> field \<Rightarrow> field list \<times> 'd cache_state \<Rightarrow> unit outcome \<times> (field list \<times> 'd cache_state) \<Rightarrow> bool" where
  "read_into q k f s res \<longleftrightarrow>
     (\<exists>s'. res = (Ret (), ((fst s)[k := f], s')) \<and> no_oom (cs_heap s') \<and> cs_cache s' = cs_cache (snd s) \<and> good (cs_driver s') \<and>
        cell (cs_driver s') q = cell (cs_driver (snd s)) q)"

lemma read_drive:
  assumes "get_law good cell q i v a m" and "good (cs_driver (snd s))" and "cell (cs_driver (snd s)) q i = Some v"
    and "no_oom (cs_heap (snd s))"
    and "\<And>t. fst t = fst s \<Longrightarrow> no_oom (cs_heap (snd t)) \<Longrightarrow> good (cs_driver (snd t)) \<Longrightarrow> read_into q k f t (put a t)"
  shows "read_into q k f s (pbind (on_db (drive m)) put s)"
proof -
  obtain d' where d': "m (cs_driver (snd s)) = (Ret a, d')" "good d'" "cell d' q = cell (cs_driver (snd s)) q"
    using assms(1-3) by (auto simp: get_law_def)
  let ?t = "(fst s, snd s\<lparr>cs_driver := d'\<rparr>)"
  have "read_into q k f ?t (put a ?t)" by (rule assms(5)) (use d' assms(4) in simp_all)
  moreover have "pbind (on_db (drive m)) put s = put a ?t" using d' by (simp add: pbind_def on_db_def drive_def)
  ultimately show ?thesis using d'(3) unfolding read_into_def by simp
qed

lemma read_set_field:
  assumes "k < length (fst s)" and "shape (fst s ! k) = shape f" and "no_oom (cs_heap (snd s))" and "good (cs_driver (snd s))"
  shows "read_into q k f s (set_field k f s)"
  using assms by (simp add: read_into_def set_field_def)

lemma db_malloc_served:
  "no_oom (cs_heap (snd s)) \<Longrightarrow>
    db_malloc s = (Ret True, (fst s, snd s\<lparr>cs_heap := (cs_heap (snd s))\<lparr>live := live (cs_heap (snd s)) + 1\<rparr>\<rparr>))"
  by (simp add: db_malloc_def on_db_def on_heap_def malloc_def)

lemma read_allocated:
  assumes "k < length (fst s)" and "shape (fst s ! k) = shape f" and "no_oom (cs_heap (snd s))" and "good (cs_driver (snd s))"
    and "put True = set_field k f"
  shows "read_into q k f s (pbind db_malloc put s)"
  using assms by (simp add: read_into_def set_field_def pbind_def db_malloc_served)

lemma value_read:
  fixes s :: "field list \<times> 'd cache_state"
  assumes ty: "value_type (col_type col)" and sh: "shape v = shape (primitive (col_type col))" and plain: "plain_value cfg v"
    and s: "good (cs_driver (snd s))" "no_oom (cs_heap (snd s))" and c: "cell (cs_driver (snd s)) q i = Some (field_value cfg v)"
    and put: "\<And>u. fst u = fst s \<Longrightarrow> no_oom (cs_heap (snd u)) \<Longrightarrow> good (cs_driver (snd u)) \<Longrightarrow> read_into q k f u (put_primitive col k v u)"
  shows "read_into q k f s (hydrate_value cfg vt q col k i s)"
proof -
  have nt: "\<not> is_text_type (col_type col)" using ty by (auto simp: value_type_def is_text_type_def)
  have bool: "(if (if b \<noteq> 0 then 1 else 0 :: 32 word) \<noteq> 0 then 1 else 0) = b" if "b = 0 \<or> b = 1" for b :: "8 word"
    using that by auto
  show ?thesis
  proof (cases v)
    case (F_int32 x)
    with sh ty have "col_type col = C_ORM_TYPE_INT32" by (auto simp: primitive_def value_type_def)
    then show ?thesis using c put F_int32 nt by (auto simp: hydrate_value_def intro!: read_drive [OF get_int32 s(1) _ s(2)])
  next
    case (F_int64 x)
    with sh ty have "col_type col = C_ORM_TYPE_INT64" by (auto simp: primitive_def value_type_def)
    then show ?thesis using c put F_int64 nt by (auto simp: hydrate_value_def intro!: read_drive [OF get_int64 s(1) _ s(2)])
  next
    case (F_float x)
    with sh ty have "col_type col = C_ORM_TYPE_FLOAT" by (auto simp: primitive_def value_type_def)
    then show ?thesis
      using c put F_float nt plain by (auto simp: hydrate_value_def plain_value_def intro!: read_drive [OF get_double s(1) _ s(2)])
  next
    case (F_double x)
    with sh ty have "col_type col = C_ORM_TYPE_DOUBLE" by (auto simp: primitive_def value_type_def)
    then show ?thesis using c put F_double nt by (auto simp: hydrate_value_def intro!: read_drive [OF get_double s(1) _ s(2)])
  next
    case (F_bool b)
    with sh ty have "col_type col = C_ORM_TYPE_BOOL" by (auto simp: primitive_def value_type_def)
    moreover have "read_into q k f s (pbind (on_db (drive (rv_get_int32 vt q i)))
        (\<lambda>w. put_primitive col k (F_bool (if w \<noteq> 0 then 1 else 0))) s)"
    proof (rule read_drive [OF get_int32 s(1) _ s(2)])
      show "cell (cs_driver (snd s)) q i = Some (V_int32 (if b \<noteq> 0 then 1 else 0))" using c by (simp add: F_bool)
      have "b = 0 \<or> b = 1" using plain by (simp add: F_bool plain_value_def)
      then show "read_into q k f u (put_primitive col k (F_bool (if (if b \<noteq> 0 then 1 else 0 :: 32 word) \<noteq> 0 then 1 else 0)) u)"
        if "fst u = fst s" "no_oom (cs_heap (snd u))" "good (cs_driver (snd u))" for u
        using put [OF that] by (simp only: F_bool bool)
    qed
    ultimately show ?thesis using nt by (simp add: hydrate_value_def)
  qed (use sh ty in \<open>auto simp: primitive_def value_type_def\<close>)
qed

lemma hydrate_value_read:
  fixes s :: "field list \<times> 'd cache_state"
  assumes st: "storable cfg col f" and nn: "field_value cfg f \<noteq> V_null"
    and k: "k < length (fst s)" and z: "fst s ! k = zero_field col"
    and s: "good (cs_driver (snd s))" "no_oom (cs_heap (snd s))" and c: "cell (cs_driver (snd s)) q i = Some (field_value cfg f)"
  shows "read_into q k f s (hydrate_value cfg vt q col k i s)"
proof -
  have sh: "shape (fst t ! k) = shape f" "k < length (fst t)" if "fst t = fst s" for t :: "field list \<times> 'd cache_state"
    using that st k z by (simp_all add: storable_def fits_def)
  note set = read_set_field [OF sh(2) sh(1)] and alloc = read_allocated [OF sh(2) sh(1)]
  have sec: "is_secure col \<Longrightarrow> decrypt_hook cfg = None" using st by (simp add: storable_def)
  note drive = read_drive [OF _ s(1) _ s(2)]
  show ?thesis
  proof (cases "is_text_type (col_type col)")
    case True
    obtain p where "f = F_text p" using storable_text [OF st True] .
    with nn obtain t where f: "f = F_text (Some t)" by (cases p) auto
    have "tz_shifted cfg col x t = None" for x using st by (auto simp: storable_def tz_shifted_def)
    then have put: "hydrate_text cfg col k t = (put_text k t :: ('d, unit) row_act)"
      using sec by (cases "is_secure col") (simp_all add: hydrate_text_def)
    have "read_into q k f s (pbind (on_db (drive (rv_get_string vt q i)))
        (\<lambda>val. case val of None \<Rightarrow> set_field k (F_text None) | Some s \<Rightarrow> hydrate_text cfg col k s) s)"
      
    proof (rule drive [OF get_string])
      show "cell (cs_driver (snd s)) q i = Some (V_text t)" using c by (simp add: f)
      show "read_into q k f u ((case Some t of None \<Rightarrow> set_field k (F_text None) | Some s \<Rightarrow> hydrate_text cfg col k s) u)"
        if "fst u = fst s" "no_oom (cs_heap (snd u))" "good (cs_driver (snd u))" for u
        unfolding option.case put put_text_def by (rule alloc [OF that(1) that(1) that(2,3)]) (simp add: f)
    qed
    with True show ?thesis by (simp add: hydrate_value_def)
  next
    case nottext: False
    show ?thesis
    proof (cases "col_type col = C_ORM_TYPE_BLOB")
      case True
      obtain p where "f = F_blob p" using storable_blob [OF st True] .
      with nn obtain b bs where f: "f = F_blob (Some (b # bs))"
        by (cases p) (auto split: if_splits simp: neq_Nil_conv)
      have put: "hydrate_blob cfg col k (Some (b # bs)) = (put_blob k (b # bs) :: ('d, unit) row_act)"
        using sec by (cases "is_secure col") (simp_all add: hydrate_blob_def)
      have "read_into q k f s (pbind (on_db (drive (rv_get_blob vt q i))) (hydrate_blob cfg col k) s)"
      proof (rule drive [OF get_blob])
        show "cell (cs_driver (snd s)) q i = Some (V_blob (b # bs))" using c by (simp add: f)
        show "read_into q k f u (hydrate_blob cfg col k (Some (b # bs)) u)"
          if "fst u = fst s" "no_oom (cs_heap (snd u))" "good (cs_driver (snd u))" for u
          unfolding put put_blob_def by (rule alloc [OF that(1) that(1) that(2,3)]) (simp add: f)
      qed
      with True nottext show ?thesis by (simp add: hydrate_value_def)
    next
      case notblob: False
      show ?thesis
      proof (cases "is_nullable col")
        case True
        obtain g where "f = F_ref g" using storable_nullable [OF st True nottext notblob] .
        with nn obtain v where f: "f = F_ref (Some v)" by (cases g) auto
        have v: "value_type (col_type col)" "shape v = shape (primitive (col_type col))" "plain_value cfg v"
          using st by (simp_all add: f storable_def fits_def)
        have put: "read_into q k f u (put_primitive col k v u)" if "fst u = fst s" "no_oom (cs_heap (snd u))" "good (cs_driver (snd u))" for u
          using True by (simp add: put_primitive_def put_new_def) (rule alloc [OF that(1) that(1) that(2,3)], simp add: f)
        have "cell (cs_driver (snd s)) q i = Some (field_value cfg v)" using c by (simp add: f)
        from value_read [OF v s this put] show ?thesis .
      next
        case nn: False
        show ?thesis
        proof (cases "value_type (col_type col)")
          case True
          have v: "shape f = shape (primitive (col_type col))" "plain_value cfg f"
            using storable_primitive [OF st nn nottext notblob] st True by (auto simp: storable_def value_type_def)
          have put: "read_into q k f u (put_primitive col k f u)" if "fst u = fst s" "no_oom (cs_heap (snd u))" "good (cs_driver (snd u))" for u
            using nn set [OF that(1) that(1) that(2,3)] by (simp add: put_primitive_def)
          from value_read [OF True v s c put] show ?thesis .
        next
          case False
          then have spatial: "shape f = shape (zero_field col)" "col_type col \<in> {C_ORM_TYPE_POINT, C_ORM_TYPE_POLYGON}"
            using storable_primitive [OF st nn nottext notblob] by auto
          show ?thesis
          proof (cases "col_type col = C_ORM_TYPE_POINT")
            case True
            with spatial obtain x y where f: "f = F_point x y" by (cases f) (auto simp: zero_field_def is_text_type_def)
            have "read_into q k f s (pbind (on_db (drive (rv_get_blob vt q i))) (hydrate_point k) s)"
            proof (rule drive [OF get_blob])
              show "cell (cs_driver (snd s)) q i = Some (V_blob (wkb_point x y))" using c by (simp add: f)
              show "read_into q k f u (hydrate_point k (Some (wkb_point x y)) u)"
                if "fst u = fst s" "no_oom (cs_heap (snd u))" "good (cs_driver (snd u))" for u
                unfolding hydrate_point_def option.case point_roundtrip
                using set [OF that(1) that(1) that(2,3)] by (simp add: f)
            qed
            with True nottext show ?thesis by (simp add: hydrate_value_def)
          next
            case False
            with spatial have ty: "col_type col = C_ORM_TYPE_POLYGON" by simp
            with spatial obtain ps n where f: "f = F_polygon ps n" by (cases f) auto
            define qs where "qs = (case ps of None \<Rightarrow> [] | Some ps \<Rightarrow> ps)"
            have qs: "length qs < 2 ^ 28 - 1" "n = length qs" "qs \<noteq> [] \<Longrightarrow> ps = Some qs" "qs = [] \<Longrightarrow> ps = None"
              "field_value cfg f = V_blob (wkb_polygon qs)"
              using st by (auto simp: f qs_def storable_def plain_value_def split: option.splits)
            note header = polygon_header [OF qs(1)]
            have pos: "0 < (of_nat (length qs) :: 32 word) \<longleftrightarrow> qs \<noteq> []"
              using header(3) by (auto simp: word_greater_zero_iff)
            have "read_into q k f s (pbind (on_db (drive (rv_get_blob vt q i))) (hydrate_polygon k) s)"
            proof (rule drive [OF get_blob])
              show "cell (cs_driver (snd s)) q i = Some (V_blob (wkb_polygon qs))" using c qs(5) by simp
              show "read_into q k f u (hydrate_polygon k (Some (wkb_polygon qs)) u)"
                if "fst u = fst s" "no_oom (cs_heap (snd u))" "good (cs_driver (snd u))" for u
              proof (cases "qs = []")
                case True
                have "read_into q k f u (set_field k f u)" by (rule set [OF that(1) that(1) that(2,3)])
                with True show ?thesis using header pos qs by (simp add: hydrate_polygon_def Let_def f)
              next
                case False
                have run: "hydrate_polygon k (Some (wkb_polygon qs)) u = pbind db_malloc (\<lambda>ok. if ok then set_field k f
                    else pbind (set_field k (F_polygon None (length qs))) (\<lambda>_. perr C_ORM_ERROR_MEMORY)) u"
                  using False header pos qs(2,3) by (simp add: hydrate_polygon_def Let_def f cong: if_cong)
                show ?thesis unfolding run by (rule alloc [OF that(1) that(1) that(2,3)]) simp
              qed
            qed
            with ty nottext show ?thesis by (simp add: hydrate_value_def)
          qed
        qed
      qed
    qed
  qed
qed

end


lemma storable_null:
  assumes "storable cfg col f" and "field_value cfg f = V_null"
  shows "is_nullable col" and "f = zero_field col" and "pointer_in f = Some False" and "null_pointer f = f"
proof -
  show n: "is_nullable col" using assms by (simp add: storable_def)
  have "f = zero_field col \<and> pointer_in f = Some False \<and> null_pointer f = f"
  proof (cases "is_text_type (col_type col)")
    case True
    from storable_text [OF assms(1) True] obtain p where f: "f = F_text p" .
    with assms(2) True show ?thesis by (cases p) (simp_all add: zero_field_def)
  next
    case nt: False
    show ?thesis
    proof (cases "col_type col = C_ORM_TYPE_BLOB")
      case True
      from storable_blob [OF assms(1) True] obtain p where f: "f = F_blob p" .
      have "p \<noteq> Some []" using assms(1) by (auto simp: f storable_def plain_value_def)
      with assms(2) have "p = None" by (cases p) (simp_all add: f split: if_splits)
      with True nt show ?thesis by (simp add: f zero_field_def)
    next
      case False
      from storable_nullable [OF assms(1) n nt False] obtain g where f: "f = F_ref g" .
      show ?thesis
      proof (cases g)
        case None
        moreover have "zero_field col = F_ref None"
          using assms(1) n nt False by (simp add: storable_def zero_field_nullable)
        ultimately show ?thesis by (simp add: f)
      next
        case (Some v)
        have "value_type (col_type col)" "shape v = shape (primitive (col_type col))"
          using assms(1) by (simp_all add: f Some storable_def fits_def)
        then have "field_value cfg v \<noteq> V_null" by (cases v) (auto simp: primitive_def value_type_def)
        with assms(2) show ?thesis by (simp add: f Some)
      qed
    qed
  qed
  then show "f = zero_field col" "pointer_in f = Some False" "null_pointer f = f" by blast+
qed

context row_driver begin

lemma hydrate_column_read:
  fixes s :: "field list \<times> 'd cache_state"
  assumes st: "storable cfg col f" and k: "k < length (fst s)" and z: "fst s ! k = zero_field col"
    and s: "good (cs_driver (snd s))" "no_oom (cs_heap (snd s))" and c: "cell (cs_driver (snd s)) q i = Some (field_value cfg f)"
  shows "read_into q k f s (hydrate_column cfg vt q col k i s)"
proof -
  obtain d' where d': "rv_is_null vt q i (cs_driver (snd s)) = (Ret (field_value cfg f = V_null), d')" "good d'"
    "cell d' q = cell (cs_driver (snd s)) q"
    using is_null [of q i "field_value cfg f"] s(1) c unfolding get_law_def by blast
  let ?u = "(fst s, snd s\<lparr>cs_driver := d'\<rparr>)"
  have run: "hydrate_column cfg vt q col k i s =
     (if field_value cfg f = V_null then (if is_nullable col then release_field k else perr C_ORM_ERROR_TYPE_MISMATCH)
      else hydrate_value cfg vt q col k i) ?u"
    using d' by (simp add: hydrate_column_def pbind_def on_db_def drive_def)
  have "read_into q k f ?u (hydrate_column cfg vt q col k i s)"
  proof (cases "field_value cfg f = V_null")
    case True
    note null = storable_null [OF st True]
    have "read_into q k f ?u (set_field k f ?u)"
      by (rule read_set_field) (use d' s k z null(2) in simp_all)
    moreover have "release_field k ?u = set_field k f ?u"
      using k z null(3,4) unfolding null(2) [symmetric]
      by (simp add: release_field_def get_field_def pbind_def on_db_def on_heap_def release_def)
    ultimately show ?thesis using True null(1) by (simp add: run)
  next
    case False
    have "read_into q k f ?u (hydrate_value cfg vt q col k i ?u)"
      by (rule hydrate_value_read [OF st False]) (use k z d' s c in simp_all)
    with False show ?thesis by (simp add: run)
  qed
  then show ?thesis using d'(3) unfolding read_into_def by simp
qed


lemma hydrate_columns_read:
  fixes s :: "field list \<times> 'd cache_state"
  assumes st: "\<forall>j < length cols. storable cfg (cols ! j) (f j)"
    and k: "k + length cols \<le> length (fst s)" and z: "\<forall>j < length cols. fst s ! (k + j) = zero_field (cols ! j)"
    and s: "good (cs_driver (snd s))" "no_oom (cs_heap (snd s))"
    and c: "\<forall>j < length cols. cell (cs_driver (snd s)) q (i + int j) = Some (field_value cfg (f j))"
  shows "\<exists>s'. hydrate_columns cfg vt q cols k i s
      = (Ret (), (take k (fst s) @ map f [0..<length cols] @ drop (k + length cols) (fst s), s'))
    \<and> good (cs_driver s') \<and> no_oom (cs_heap s') \<and> cs_cache s' = cs_cache (snd s) \<and> cell (cs_driver s') q = cell (cs_driver (snd s)) q"
  using assms
proof (induction cols arbitrary: k i f s)
  case (Cons col cols)
  have "read_into q k (f 0) s (hydrate_column cfg vt q col k i s)"
    by (rule hydrate_column_read) (use Cons.prems in force)+
  then obtain s1 where s1: "hydrate_column cfg vt q col k i s = (Ret (), ((fst s)[k := f 0], s1))" "no_oom (cs_heap s1)"
    "cs_cache s1 = cs_cache (snd s)" "good (cs_driver s1)" "cell (cs_driver s1) q = cell (cs_driver (snd s)) q"
    by (auto simp: read_into_def)
  let ?t = "((fst s)[k := f 0], s1)"
  have "\<exists>s'. hydrate_columns cfg vt q cols (Suc k) (i + 1) ?t
      = (Ret (), (take (Suc k) (fst ?t) @ map (\<lambda>j. f (Suc j)) [0..<length cols] @ drop (Suc k + length cols) (fst ?t), s'))
    \<and> good (cs_driver s') \<and> no_oom (cs_heap s') \<and> cs_cache s' = cs_cache (snd ?t) \<and> cell (cs_driver s') q = cell (cs_driver (snd ?t)) q"
  proof (rule Cons.IH)
    show "\<forall>j < length cols. storable cfg (cols ! j) (f (Suc j))" using Cons.prems(1) by auto
    show "\<forall>j < length cols. fst ?t ! (Suc k + j) = zero_field (cols ! j)" using Cons.prems(3) by auto
    show "\<forall>j < length cols. cell (cs_driver (snd ?t)) q (i + 1 + int j) = Some (field_value cfg (f (Suc j)))"
    proof (intro allI impI)
      fix j assume "j < length cols"
      then have "cell (cs_driver (snd s)) q (i + int (Suc j)) = Some (field_value cfg (f (Suc j)))"
        using Cons.prems(6) by (metis Suc_less_eq length_Cons)
      then show "cell (cs_driver (snd ?t)) q (i + 1 + int j) = Some (field_value cfg (f (Suc j)))"
        using s1(5) by (simp add: algebra_simps)
    qed
  qed (use Cons.prems(2) s1 in simp_all)
  then obtain s2 where s2: "hydrate_columns cfg vt q cols (Suc k) (i + 1) ?t
      = (Ret (), (take (Suc k) (fst ?t) @ map (\<lambda>j. f (Suc j)) [0..<length cols] @ drop (Suc k + length cols) (fst ?t), s2))"
    "good (cs_driver s2)" "no_oom (cs_heap s2)" "cs_cache s2 = cs_cache (snd s)" "cell (cs_driver s2) q = cell (cs_driver (snd s)) q"
    using s1(3,5) by auto
  have "take (Suc k) (fst ?t) = take k (fst s) @ [f 0]"
    using Cons.prems(2) by (simp add: take_Suc_conv_app_nth)
  moreover have "map f [0..<length (col # cols)] = f 0 # map (\<lambda>j. f (Suc j)) [0..<length cols]"
    by (simp add: upt_conv_Cons flip: map_Suc_upt del: upt_Suc)
  moreover have "drop (Suc k + length cols) (fst ?t) = drop (k + length (col # cols)) (fst s)" by simp
  ultimately show ?case using s1(1) s2 by (simp add: pbind_def)
qed (auto simp: preturn_def prod_eq_iff)

text \<open>A row that has been written is read back into a struct of zeros.\<close>

lemma hydrate_row_read:
  fixes s :: "'d cache_state"
  assumes st: "storable_all cfg (columns m) obj" and ttl: "ttl_columns m = None"
    and s: "good (cs_driver s)" "no_oom (cs_heap s)"
    and c: "\<forall>j < length (columns m). cell (cs_driver s) q (i + int j) = Some (field_value cfg (obj ! j))"
  shows "\<exists>s'. c_orm_hydrate_row_from cfg vt q m i (map zero_field (columns m), s) = (Ret (), (obj, s'))
    \<and> good (cs_driver s') \<and> no_oom (cs_heap s') \<and> cs_cache s' = cs_cache s \<and> cell (cs_driver s') q = cell (cs_driver s) q"
proof -
  have len: "length obj = length (columns m)" using st by (simp add: storable_all_def)
  then have "map ((!) obj) [0..<length (columns m)] = obj" by (metis map_nth)
  with hydrate_columns_read [of "columns m" cfg "(!) obj" 0 "(map zero_field (columns m), s)" q i] assms
  obtain s' where run: "hydrate_columns cfg vt q (columns m) 0 i (map zero_field (columns m), s) = (Ret (), (obj, s'))"
    "good (cs_driver s')" "no_oom (cs_heap s')" "cs_cache s' = cs_cache s" "cell (cs_driver s') q = cell (cs_driver s) q"
    by (auto simp: storable_all_def)
  then show ?thesis
    by (auto simp: c_orm_hydrate_row_from_def fail_after_def check_expiry_def ttl pbind_def preturn_def)
qed

end

end
