(* ===== verification/RowMemory.thy ===== *)
theory RowMemory
  imports RowStore CacheProps
begin

text \<open>
  The memory driver as a driver of rows: its table of functions, and the interpretation of \<open>row_driver\<close>, from its
  refinement of the abstract machine of \<open>MemorySpec\<close>.
\<close>

definition memory_row_vtable :: "mem_state row_vtable" where
  "memory_row_vtable = \<lparr>
     rv_statements = memory_vtable,
     rv_bind_int32 = (\<lambda>q. mem_bind_int32 (Some q)),
     rv_bind_int64 = (\<lambda>q. mem_bind_int64 (Some q)),
     rv_bind_double = (\<lambda>q. mem_bind_double (Some q)),
     rv_bind_string = (\<lambda>q. mem_bind_string (Some q)),
     rv_bind_blob = (\<lambda>q i bs. mem_bind_blob (Some q) i (Some bs)),
     rv_bind_null = (\<lambda>q. mem_bind_null (Some q)),
     rv_step = (\<lambda>q. mem_step (Some q)),
     rv_get_int32 = (\<lambda>q i. mem_get_int32 (Some q) i True),
     rv_get_int64 = (\<lambda>q i. mem_get_int64 (Some q) i True),
     rv_get_double = (\<lambda>q i. mem_get_double (Some q) i True),
     rv_get_string = (\<lambda>q i. mem_get_string (Some q) i True),
     rv_get_blob = (\<lambda>q i. mem_get_blob (Some q) i True),
     rv_is_null = (\<lambda>q. mem_is_null (Some q)),
     rv_get_column_count = Some (\<lambda>q s. (Err (fst (mem_get_column_count (Some q) s)), s)),
     rv_get_column_name = Some (\<lambda>q i s. (Err (fst (mem_get_column_name (Some q) i s)), s))\<rparr>"

section \<open>Cells as values\<close>

definition cell_value :: "mem_cell_t \<Rightarrow> db_value option" where
  "cell_value c = (case mc_type c of
     MEM_VAL_NULL \<Rightarrow> Some V_null | MEM_VAL_INT32 \<Rightarrow> Some (V_int32 (mc_i32 c)) | MEM_VAL_INT64 \<Rightarrow> Some (V_int64 (mc_i64 c))
   | MEM_VAL_DOUBLE \<Rightarrow> Some (V_double (mc_d c)) | MEM_VAL_STRING \<Rightarrow> map_option V_text (mc_s c)
   | MEM_VAL_BLOB \<Rightarrow> map_option V_blob (mc_blob c))"

lemma cell_value_simps [simp]:
  "cell_value empty_cell = Some V_null"
  "cell_value (empty_cell\<lparr>mc_type := MEM_VAL_INT32, mc_i32 := w, mc_i64 := x\<rparr>) = Some (V_int32 w)"
  "cell_value (empty_cell\<lparr>mc_type := MEM_VAL_INT64, mc_i64 := x, mc_i32 := w\<rparr>) = Some (V_int64 x)"
  "cell_value (empty_cell\<lparr>mc_type := MEM_VAL_DOUBLE, mc_d := x\<rparr>) = Some (V_double x)"
  "cell_value (empty_cell\<lparr>mc_type := MEM_VAL_STRING, mc_s := Some t\<rparr>) = Some (V_text t)"
  "cell_value (empty_cell\<lparr>mc_type := MEM_VAL_BLOB, mc_blob := Some bs\<rparr>) = Some (V_blob bs)"
  by (simp_all add: cell_value_def empty_cell_def)

lemma cell_value_read:
  "cell_value c = Some (V_int32 w) \<Longrightarrow> mc_i32 c = w"
  "cell_value c = Some (V_int64 x) \<Longrightarrow> mc_i64 c = x"
  "cell_value c = Some (V_double x) \<Longrightarrow> mc_d c = x"
  "cell_value c = Some (V_text t) \<Longrightarrow> mc_s c = Some t"
  "cell_value c = Some (V_blob bs) \<Longrightarrow> mc_blob c = Some bs"
  "cell_value c = Some v \<Longrightarrow> mc_type c = MEM_VAL_NULL \<longleftrightarrow> v = V_null"
  by (cases "mc_type c"; auto simp: cell_value_def)+

definition mem_good :: "mem_state \<Rightarrow> bool" where
  "mem_good d \<longleftrightarrow> state_ok d \<and> no_oom (md_heap d)"

definition mem_query :: "mem_state \<Rightarrow> nat \<Rightarrow> aquery option" where
  "mem_query d q = map_of (ad_queries (abs_state d)) q"

definition mem_opened :: "mem_state \<Rightarrow> nat \<Rightarrow> bool" where
  "mem_opened d q \<longleftrightarrow> (\<exists>x. mem_query d q = Some x \<and> length (aq_params x) = 32)"

definition mem_param :: "mem_state \<Rightarrow> nat \<Rightarrow> int \<Rightarrow> db_value option" where
  "mem_param d q i =
     (case mem_query d q of
        None \<Rightarrow> None
      | Some x \<Rightarrow> if 1 \<le> i \<and> i \<le> 32 then Option.bind (aq_params x ! (nat i - 1)) cell_value else None)"

definition mem_value :: "mem_state \<Rightarrow> nat \<Rightarrow> int \<Rightarrow> db_value option" where
  "mem_value d q i = (case mem_query d q of None \<Rightarrow> None | Some x \<Rightarrow> Option.bind (a_cell x i) cell_value)"

lemma mem_bind_law:
  assumes m: "sim m (a_bind (Some q) i c)" and i: "1 \<le> i" "i \<le> 32" and v: "cell_value c = Some v"
  shows "bind_law mem_good mem_opened mem_param q i v m"
  unfolding bind_law_def
proof (intro allI impI)
  fix d assume d: "mem_good d" "mem_opened d q"
  obtain x where x: "map_of (ad_queries (abs_state d)) q = Some x" "length (aq_params x) = 32"
    using d(2) by (auto simp: mem_opened_def mem_query_def)
  obtain r d' where r: "m d = (r, d')" by (cases "m d")
  have sim: "a_bind (Some q) i c (abs_state d) = (r, abs_state d')" "state_ok d'" "no_oom (md_heap d')"
    using simD [OF m _ _ r] d(1) by (simp_all add: mem_good_def)
  define y where "y = x\<lparr>aq_params := (aq_params x)[nat i - 1 := Some c], aq_num := max (aq_num x) (nat i)\<rparr>"
  have "a_bind (Some q) i c (abs_state d) = a_set q y (abs_state d)"
    using i x(1) by (auto simp: a_bind_def a_handle_def pbind_def a_query_def y_def)
  with sim(1) have r': "r = Ret ()" and "abs_state d' = (abs_state d)\<lparr>ad_queries := AList.update q y (ad_queries (abs_state d))\<rparr>"
    by (simp_all add: a_set_def)
  then have q': "mem_query d' q = Some y" unfolding mem_query_def by (simp add: AList.update_conv' del: abs_fields)
  have "mem_param d' q j = ((mem_param d q)(i := Some v)) j" for j
  proof (cases "1 \<le> j \<and> j \<le> 32")
    case True
    then have "nat j - 1 < 32" "nat j - 1 = nat i - 1 \<longleftrightarrow> j = i" using i by auto
    then show ?thesis using True x q' v by (auto simp: mem_param_def mem_query_def y_def nth_list_update)
  next
    case False
    then show ?thesis using i q' x by (auto simp: mem_param_def mem_query_def)
  qed
  moreover have "mem_opened d' q" using q' x(2) by (simp add: mem_opened_def y_def)
  ultimately show "\<exists>d'. m d = (Ret (), d') \<and> mem_good d' \<and> mem_opened d' q \<and> mem_param d' q = (mem_param d q)(i := Some v)"
    using r r' sim(2,3) by (auto simp: mem_good_def)
qed

lemma mem_get_law:
  assumes f: "\<And>c. cell_value c = Some v \<Longrightarrow> f c = a"
  shows "get_law mem_good mem_value q i v a (read_cell f (Some q) i True)"
  unfolding get_law_def
proof (intro allI impI)
  fix d assume d: "mem_good d" "mem_value d q i = Some v"
  then obtain x c where x: "map_of (md_queries d) q = Some x" "a_cell (abs_query (md_rows d) x) i = Some c" "cell_value c = Some v"
    by (auto simp: mem_value_def mem_query_def split: option.splits Option.bind_splits)
  have "read_cell f (Some q) i True d = (Ret a, d)"
    using x d f by (simp add: read_cell_def pbind_def mem_good_def cell_abs preturn_def)
  with d(1) show "\<exists>d'. read_cell f (Some q) i True d = (Ret a, d') \<and> mem_good d' \<and> mem_value d' q = mem_value d q" by auto
qed

lemma mem_null_law: "get_law mem_good mem_value q i v (v = V_null) (mem_is_null (Some q) i)"
  unfolding get_law_def
proof (intro allI impI)
  fix d assume d: "mem_good d" "mem_value d q i = Some v"
  then obtain x c where x: "map_of (md_queries d) q = Some x" "a_cell (abs_query (md_rows d) x) i = Some c" "cell_value c = Some v"
    by (auto simp: mem_value_def mem_query_def split: option.splits Option.bind_splits)
  have "mem_is_null (Some q) i d = (Ret (v = V_null), d)"
    using x d(1) cell_value_read(6) [OF x(3)] by (simp add: mem_is_null_def mem_good_def cell_abs)
  with d(1) show "\<exists>d'. mem_is_null (Some q) i d = (Ret (v = V_null), d') \<and> mem_good d' \<and> mem_value d' q = mem_value d q" by auto
qed

interpretation memory_rows: row_driver memory_row_vtable mem_good mem_opened mem_param mem_value 32
  by unfold_locales
    (simp_all add: memory_row_vtable_def mem_null_law mem_get_int32_def mem_get_int64_def mem_get_double_def mem_get_string_def
      mem_get_blob_def mem_get_law cell_value_read mem_bind_law [OF sim_binds(1)] mem_bind_law [OF sim_binds(2)]
      mem_bind_law [OF sim_binds(3)] mem_bind_law [OF sim_binds_copied(1)] mem_bind_law [OF sim_binds_copied(2)]
      mem_bind_law [OF sim_binds(4) [unfolded null_cell]])

section \<open>A sample row\<close>

definition sample_config :: api_config where
  "sample_config = \<lparr>timezone_offset = 0, shift_timestamp = (\<lambda>_ _. None), encrypt_hook = None, decrypt_hook = None,
     float_to_double = (\<lambda>_. 0), double_to_float = (\<lambda>_. 0), current_time = 0, new_uuid = ''0''\<rparr>"

definition sample_column :: "string \<Rightarrow> c_orm_type_t \<Rightarrow> bool \<Rightarrow> bool \<Rightarrow> c_orm_column_meta_t" where
  "sample_column name ty pk nullable = \<lparr>col_name = Some name, col_type = ty, is_pk = pk, is_nullable = nullable,
     fk_target = None, on_delete_cascade = False, is_secure = False\<rparr>"

definition sample_api_table :: api_table where
  "sample_api_table = \<lparr>tbl_name = Some ''u'',
     columns = [sample_column ''id'' C_ORM_TYPE_INT32 True False, sample_column ''name'' C_ORM_TYPE_STRING False True,
       sample_column ''age'' C_ORM_TYPE_INT64 False True],
     relations = [], query_select_all = Some ''SELECT * FROM u'', query_select_by_pk = Some ''SELECT * FROM u WHERE id = ?'',
     query_insert = Some ''INSERT INTO u (id, name, age) VALUES (?, ?, ?)'', query_update = None,
     query_delete_by_pk = None, query_select_by_pk_for_update = None, is_view = False, ttl_columns = None\<rparr>"

definition sample_rows :: mem_state where
  \<comment> \<open>one row, and a query that stands on it\<close>
  "sample_rows = snd (run_ops mem_exec
     [Prepare ''INSERT INTO u (id, name, age) VALUES (?, ?, ?)'', Bind_int32 (Some 0) 1 7, Bind_string (Some 0) 2 (Some ''ann''),
      Bind_int64 (Some 0) 3 40, Step (Some 0), Prepare ''SELECT * FROM u'', Step (Some 1)] (connected []))"

lemma sample_hydrate:
  "fst (c_orm_hydrate_row_from sample_config memory_row_vtable 1 sample_api_table 0
     (map zero_field (columns sample_api_table), uncached sample_rows \<lparr>script = [], live = 5\<rparr>)) = Ret ()"
  "fst (snd (c_orm_hydrate_row_from sample_config memory_row_vtable 1 sample_api_table 0
     (map zero_field (columns sample_api_table), uncached sample_rows \<lparr>script = [], live = 5\<rparr>)))
   = [F_int32 7, F_text (Some ''ann''), F_ref (Some (F_int64 40))]"
  by code_simp+



section \<open>The size check of a polygon\<close>

lemma read_points_no_error [simp]: "read_points wkb start n \<noteq> Err e"
  by (induction n arbitrary: start) (auto split: outcome.splits)

lemma read_points_stuck: "read_points wkb start n = Stuck \<longleftrightarrow> 0 < n \<and> length wkb < start + 16 * n"
proof (induction n arbitrary: start)
  case (Suc n)
  have "read_points wkb start (Suc n) = Stuck \<longleftrightarrow> length wkb < start + 16 \<or> read_points wkb (start + 16) n = Stuck"
    by (auto split: outcome.splits)
  then show ?case unfolding Suc.IH by auto
qed simp

text \<open>C32 (polygon_overread).
  The check that a polygon's bytes hold all the points that its header announces is computed in 32 bits. With
  memory available, \<open>c_orm_hydrate_row_from\<close> reads behind the blob exactly when the announced size wraps around to
  at most the size of the blob, which no polygon of less than 2^28 - 1 points does.\<close>
theorem polygon_overread:
  fixes s :: "field list \<times> 'd cache_state"
  assumes "no_oom (cs_heap (snd s))" and "k < length (fst s)" and "shape (fst s ! k) = 8" and "13 \<le> length wkb"
    and "num = (word_le (take 4 (drop 9 wkb)) :: 32 word)"
  shows "(fst (hydrate_polygon k (Some wkb) s) = Stuck \<longleftrightarrow>
      0 < num \<and> unat (13 + num * 16) \<le> length wkb \<and> length wkb < 13 + 16 * unat num)
    \<and> (unat num < 2 ^ 28 - 1 \<longrightarrow> fst (hydrate_polygon k (Some wkb) s) \<noteq> Stuck)"
proof -
  have run: "hydrate_polygon k (Some wkb) s =
     (if 0 < num \<and> unat (13 + num * 16) \<le> length wkb then
        pbind db_malloc (\<lambda>ok.
          if ok then (case read_points wkb 13 (unat num) of Ret ps \<Rightarrow> set_field k (F_polygon (Some ps) (unat num)) | _ \<Rightarrow> stuck)
          else pbind (set_field k (F_polygon None (unat num))) (\<lambda>_. perr C_ORM_ERROR_MEMORY)) s
      else set_field k (F_polygon None 0) s)"
    using assms(4) unfolding hydrate_polygon_def Let_def assms(5) [symmetric] option.case by simp
  have pos: "0 < num \<longleftrightarrow> 0 < unat num" by (simp add: word_greater_zero_iff unat_gt_0)
  have *: "fst (hydrate_polygon k (Some wkb) s) = Stuck \<longleftrightarrow>
      0 < num \<and> unat (13 + num * 16) \<le> length wkb \<and> length wkb < 13 + 16 * unat num"
    using read_points_stuck [of wkb 13 "unat num"] read_points_no_error [of wkb 13 "unat num"] assms(1-3) pos
    by (cases "read_points wkb 13 (unat num)") (auto simp: run pbind_def db_malloc_def on_db_def on_heap_def malloc_def set_field_def stuck_def)
  have "unat (13 + num * 16) = 13 + 16 * unat num" if "unat num < 2 ^ 28 - 1"
  proof -
    have "13 + num * 16 = (of_nat (13 + 16 * unat num) :: 32 word)" by simp
    then show ?thesis using that by (simp only: unat_of_nat) simp
  qed
  then show ?thesis by (simp add: *)
qed

text \<open>A blob of 13 bytes that announces 2^28 points: the announced size is computed as 13 again.\<close>

lemma polygon_overread_witness:
  "fst (hydrate_polygon 0 (Some [1, 3, 0, 0, 0, 1, 0, 0, 0, 0, 0, 0, 16])
     ([F_polygon None 0], uncached () \<lparr>script = [], live = 0\<rparr>)) = Stuck"
proof -
  have "(word_le (take 4 (drop 9 [1, 3, 0, 0, 0, 1, 0, 0, 0, 0, 0, 0, 16])) :: 32 word) = 0x10000000" by code_simp
  moreover have "no_oom \<lparr>script = [], live = 0\<rparr>" by (simp add: no_oom_def)
  ultimately show ?thesis
    using polygon_overread [of "([F_polygon None 0], uncached () \<lparr>script = [], live = 0\<rparr>)" 0
        "[1, 3, 0, 0, 0, 1, 0, 0, 0, 0, 0, 0, 16]" "0x10000000"]
    by (simp add: uncached_def)
qed

end
