(* ===== verification/Records.thy ===== *)
theory Records
  imports Row SelectBuilder
begin

text \<open>
  The operations on single records of \<open>src/c_orm_api.c\<close>: finding, inserting, updating and deleting by key, raw
  statements, transactions and savepoints. Each prepares a statement, binds, steps and gives the statement back
  on every path; \<open>using_query\<close> is that frame.

  Tables have no relations here (the loops over \<open>meta->relations\<close> are empty), and no identity map is mounted.
  Pointers that the functions check for NULL and refuse with C_ORM_ERROR_MEMORY are present, but for the texts of
  statements and keys. The hooks of a table are arguments: actions on the object and the connection.
\<close>

section \<open>Statements in use\<close>

definition using_query :: "('s, nat) act \<Rightarrow> (nat \<Rightarrow> ('s, unit) act) \<Rightarrow> (nat \<Rightarrow> ('s, 'a) act) \<Rightarrow> ('s, 'a) act" where
  \<comment> \<open>an error of giving the statement back takes the place of the result\<close>
  "using_query prep fin body =
     pbind prep (\<lambda>q s.
       case body q s of
         (Ret a, t) \<Rightarrow> pbind (fin q) (\<lambda>_. preturn a) t
       | (Err e, t) \<Rightarrow> pbind (fin q) (\<lambda>_. perr e) t
       | (Stuck, t) \<Rightarrow> (Stuck, t))"

definition using_query_ignoring :: "('s, nat) act \<Rightarrow> (nat \<Rightarrow> ('s, unit) act) \<Rightarrow> (nat \<Rightarrow> ('s, 'a) act) \<Rightarrow> ('s, 'a) act" where
  \<comment> \<open>after an error, the status of giving the statement back is not looked at\<close>
  "using_query_ignoring prep fin body =
     pbind prep (\<lambda>q s.
       case body q s of
         (Ret a, t) \<Rightarrow> pbind (fin q) (\<lambda>_. preturn a) t
       | (Err e, t) \<Rightarrow> pbind (attempt (fin q)) (\<lambda>_. perr e) t
       | (Stuck, t) \<Rightarrow> (Stuck, t))"

definition prepared :: "'d row_vtable \<Rightarrow> cptr \<Rightarrow> ('d, nat) cached" where
  "prepared vt sql = c_orm_prepare_cached (rv_statements vt) True sql True"

definition given_back :: "'d row_vtable \<Rightarrow> nat \<Rightarrow> ('d, unit) cached" where
  "given_back vt q = c_orm_finalize_cached (rv_statements vt) True (Some q)"

definition db_query :: "'d row_vtable \<Rightarrow> cptr \<Rightarrow> (nat \<Rightarrow> ('d, 'a) cached) \<Rightarrow> ('d, 'a) cached" where
  "db_query vt sql body = using_query (prepared vt sql) (given_back vt) body"

definition row_query :: "'d row_vtable \<Rightarrow> cptr \<Rightarrow> (nat \<Rightarrow> ('d, 'a) row_act) \<Rightarrow> ('d, 'a) row_act" where
  "row_query vt sql body = using_query (on_db (prepared vt sql)) (\<lambda>q. on_db (given_back vt q)) body"

definition stepped :: "'d row_vtable \<Rightarrow> nat \<Rightarrow> ('d, bool) cached" where
  "stepped vt q = drive (rv_step vt q)"

section \<open>Raw statements\<close>

definition c_orm_execute_raw :: "'d row_vtable \<Rightarrow> cptr \<Rightarrow> ('d, unit) cached" where
  \<comment> \<open>without a query interceptor\<close>
  "c_orm_execute_raw vt sql =
     (case sql of None \<Rightarrow> perr C_ORM_ERROR_MEMORY
      | Some _ \<Rightarrow> db_query vt sql (\<lambda>q. pbind (stepped vt q) (\<lambda>_. preturn ())))"

definition c_orm_transaction_begin :: "'d row_vtable \<Rightarrow> ('d, unit) cached" where
  "c_orm_transaction_begin vt = c_orm_execute_raw vt (Some ''BEGIN'')"

definition c_orm_transaction_commit :: "'d row_vtable \<Rightarrow> ('d, unit) cached" where
  "c_orm_transaction_commit vt = c_orm_execute_raw vt (Some ''COMMIT'')"

definition c_orm_transaction_rollback :: "'d row_vtable \<Rightarrow> ('d, unit) cached" where
  "c_orm_transaction_rollback vt = c_orm_execute_raw vt (Some ''ROLLBACK'')"

definition c_orm_savepoint_create :: "'d row_vtable \<Rightarrow> cptr \<Rightarrow> ('d, unit) cached" where
  "c_orm_savepoint_create vt name =
     (case name of None \<Rightarrow> perr C_ORM_ERROR_MEMORY
      | Some n \<Rightarrow> c_orm_execute_raw vt (Some (C_ORM_SPRINTF 256 (''SAVEPOINT '' @ n))))"

definition c_orm_savepoint_rollback :: "'d row_vtable \<Rightarrow> cptr \<Rightarrow> ('d, unit) cached" where
  "c_orm_savepoint_rollback vt name =
     (case name of None \<Rightarrow> perr C_ORM_ERROR_MEMORY
      | Some n \<Rightarrow> c_orm_execute_raw vt (Some (C_ORM_SPRINTF 256 (''ROLLBACK TO SAVEPOINT '' @ n))))"

definition c_orm_savepoint_release :: "'d row_vtable \<Rightarrow> cptr \<Rightarrow> ('d, unit) cached" where
  "c_orm_savepoint_release vt name =
     (case name of None \<Rightarrow> perr C_ORM_ERROR_MEMORY
      | Some n \<Rightarrow> c_orm_execute_raw vt (Some (C_ORM_SPRINTF 256 (''RELEASE SAVEPOINT '' @ n))))"

definition c_orm_delete_all :: "'d row_vtable \<Rightarrow> api_table \<Rightarrow> ('d, unit) cached" where
  "c_orm_delete_all vt m =
     (case tbl_name m of None \<Rightarrow> stuck
      | Some n \<Rightarrow> c_orm_execute_raw vt (Some (C_ORM_SPRINTF 256 (''DELETE FROM '' @ n))))"

definition c_orm_config_sqlite_pragma :: "'d row_vtable \<Rightarrow> cptr \<Rightarrow> ('d, unit) cached" where
  "c_orm_config_sqlite_pragma vt s = (if s = None then perr C_ORM_ERROR_MEMORY else c_orm_execute_raw vt s)"

definition c_orm_config_postgres_set :: "'d row_vtable \<Rightarrow> cptr \<Rightarrow> ('d, unit) cached" where
  "c_orm_config_postgres_set vt s = (if s = None then perr C_ORM_ERROR_MEMORY else c_orm_execute_raw vt s)"

definition c_orm_config_mysql_session :: "'d row_vtable \<Rightarrow> cptr \<Rightarrow> ('d, unit) cached" where
  "c_orm_config_mysql_session vt s = (if s = None then perr C_ORM_ERROR_MEMORY else c_orm_execute_raw vt s)"

section \<open>Finding\<close>

definition fetch_one :: "api_config \<Rightarrow> 'd row_vtable \<Rightarrow> api_table \<Rightarrow> nat \<Rightarrow> ('d, unit) row_act" where
  \<comment> \<open>the end of the \<open>find\<close> functions: one step, and the row into the struct\<close>
  "fetch_one cfg vt m q =
     pbind (on_db (stepped vt q)) (\<lambda>has_row.
       if \<not> has_row then perr C_ORM_ERROR_NOT_FOUND else c_orm_hydrate_row cfg vt q m)"

definition c_orm_find_by_id_int32 :: "api_config \<Rightarrow> 'd row_vtable \<Rightarrow> api_table \<Rightarrow> 32 word \<Rightarrow> ('d, unit) row_act" where
  "c_orm_find_by_id_int32 cfg vt m id_val =
     (if query_select_by_pk m = None then perr C_ORM_ERROR_UNKNOWN
      else row_query vt (query_select_by_pk m) (\<lambda>q.
        pbind (on_db (drive (rv_bind_int32 vt q 1 id_val))) (\<lambda>_. fetch_one cfg vt m q)))"

definition c_orm_find_by_id_string :: "api_config \<Rightarrow> 'd row_vtable \<Rightarrow> api_table \<Rightarrow> cptr \<Rightarrow> ('d, unit) row_act" where
  "c_orm_find_by_id_string cfg vt m id_val =
     (if id_val = None then perr C_ORM_ERROR_MEMORY
      else if query_select_by_pk m = None then perr C_ORM_ERROR_UNKNOWN
      else row_query vt (query_select_by_pk m) (\<lambda>q.
        pbind (on_db (drive (rv_bind_string vt q 1 id_val))) (\<lambda>_. fetch_one cfg vt m q)))"

definition c_orm_find_for_update_by_id_int32 :: "api_config \<Rightarrow> 'd row_vtable \<Rightarrow> api_table \<Rightarrow> 32 word \<Rightarrow> ('d, unit) row_act" where
  "c_orm_find_for_update_by_id_int32 cfg vt m id_val =
     (if query_select_by_pk_for_update m = None then c_orm_find_by_id_int32 cfg vt m id_val
      else row_query vt (query_select_by_pk_for_update m) (\<lambda>q.
        pbind (on_db (drive (rv_bind_int32 vt q 1 id_val))) (\<lambda>_. fetch_one cfg vt m q)))"

definition c_orm_find_for_update_by_id_string :: "api_config \<Rightarrow> 'd row_vtable \<Rightarrow> api_table \<Rightarrow> cptr \<Rightarrow> ('d, unit) row_act" where
  "c_orm_find_for_update_by_id_string cfg vt m id_val =
     (if id_val = None then perr C_ORM_ERROR_MEMORY
      else if query_select_by_pk_for_update m = None then c_orm_find_by_id_string cfg vt m id_val
      else row_query vt (query_select_by_pk_for_update m) (\<lambda>q.
        pbind (on_db (drive (rv_bind_string vt q 1 id_val))) (\<lambda>_. fetch_one cfg vt m q)))"

datatype cdd_c_variant_t =
    CDD_C_VARIANT_TYPE_NULL | CDD_C_VARIANT_TYPE_INT "64 word" | CDD_C_VARIANT_TYPE_FLOAT "64 word"
  | CDD_C_VARIANT_TYPE_STRING cptr | CDD_C_VARIANT_TYPE_BLOB "8 word list"

definition bind_key :: "'d row_vtable \<Rightarrow> nat \<Rightarrow> int \<Rightarrow> cdd_c_variant_t \<Rightarrow> ('d, unit) cached" where
  \<comment> \<open>an integer or a text\<close>
  "bind_key vt q i v =
     (case v of
        CDD_C_VARIANT_TYPE_INT n \<Rightarrow> drive (rv_bind_int64 vt q i n)
      | CDD_C_VARIANT_TYPE_STRING s \<Rightarrow> drive (rv_bind_string vt q i s)
      | _ \<Rightarrow> perr C_ORM_ERROR_NOT_IMPLEMENTED)"

fun bind_keys :: "'d row_vtable \<Rightarrow> nat \<Rightarrow> int \<Rightarrow> cdd_c_variant_t list \<Rightarrow> ('d, unit) cached" where
  "bind_keys vt q i [] = preturn ()"
| "bind_keys vt q i (v # vs) = pbind (bind_key vt q i v) (\<lambda>_. bind_keys vt q (i + 1) vs)"

definition c_orm_find_by_composite_key :: "api_config \<Rightarrow> 'd row_vtable \<Rightarrow> api_table \<Rightarrow> cdd_c_variant_t list \<Rightarrow> ('d, unit) row_act" where
  "c_orm_find_by_composite_key cfg vt m keys =
     (if query_select_by_pk m = None then perr C_ORM_ERROR_UNKNOWN
      else row_query vt (query_select_by_pk m) (\<lambda>q.
        pbind (on_db (bind_keys vt q 1 keys)) (\<lambda>_. fetch_one cfg vt m q)))"

section \<open>Deleting by key\<close>

definition delete_bound :: "'d row_vtable \<Rightarrow> api_table \<Rightarrow> (nat \<Rightarrow> ('d, unit) cached) \<Rightarrow> ('d, unit) cached" where
  "delete_bound vt m bind =
     db_query vt (query_delete_by_pk m) (\<lambda>q. pbind (bind q) (\<lambda>_. pbind (stepped vt q) (\<lambda>_. preturn ())))"

definition c_orm_delete_by_id_int32 :: "'d row_vtable \<Rightarrow> api_table \<Rightarrow> 32 word \<Rightarrow> ('d, unit) cached" where
  "c_orm_delete_by_id_int32 vt m id_val =
     (if query_delete_by_pk m = None then perr C_ORM_ERROR_UNKNOWN
      else if is_view m then perr C_ORM_ERROR_READ_ONLY
      else delete_bound vt m (\<lambda>q. drive (rv_bind_int32 vt q 1 id_val)))"

definition c_orm_delete_by_id_string :: "'d row_vtable \<Rightarrow> api_table \<Rightarrow> cptr \<Rightarrow> ('d, unit) cached" where
  \<comment> \<open>views are not refused here\<close>
  "c_orm_delete_by_id_string vt m id_val =
     (if id_val = None then perr C_ORM_ERROR_MEMORY
      else if query_delete_by_pk m = None then perr C_ORM_ERROR_UNKNOWN
      else delete_bound vt m (\<lambda>q. drive (rv_bind_string vt q 1 id_val)))"

definition c_orm_delete_by_composite_key :: "'d row_vtable \<Rightarrow> api_table \<Rightarrow> cdd_c_variant_t list \<Rightarrow> ('d, unit) cached" where
  "c_orm_delete_by_composite_key vt m keys =
     (if query_delete_by_pk m = None then perr C_ORM_ERROR_UNKNOWN
      else if is_view m then perr C_ORM_ERROR_READ_ONLY
      else delete_bound vt m (\<lambda>q. bind_keys vt q 1 keys))"

section \<open>Existence\<close>

definition exists_query :: "'d row_vtable \<Rightarrow> string \<Rightarrow> (nat \<Rightarrow> ('d, unit) cached) \<Rightarrow> ('d, bool) cached" where
  "exists_query vt sql bind =
     db_query vt (Some (C_ORM_SPRINTF 256 sql)) (\<lambda>q. pbind (bind q) (\<lambda>_. stepped vt q))"

definition c_orm_exists_int32 :: "'d row_vtable \<Rightarrow> api_table \<Rightarrow> 32 word \<Rightarrow> ('d, bool) cached" where
  \<comment> \<open>the key column is taken to be \<open>id\<close>\<close>
  "c_orm_exists_int32 vt m key =
     (if query_select_by_pk m = None then perr C_ORM_ERROR_UNKNOWN
      else case tbl_name m of None \<Rightarrow> stuck
        | Some n \<Rightarrow> exists_query vt (''SELECT 1 FROM '' @ n @ '' WHERE id = ?'') (\<lambda>q. drive (rv_bind_int32 vt q 1 key)))"

definition c_orm_exists_string :: "'d row_vtable \<Rightarrow> api_table \<Rightarrow> cptr \<Rightarrow> ('d, bool) cached" where
  "c_orm_exists_string vt m key =
     (if key = None then perr C_ORM_ERROR_MEMORY
      else if query_select_by_pk m = None then perr C_ORM_ERROR_UNKNOWN
      else case find is_pk (columns m) of None \<Rightarrow> perr C_ORM_ERROR_UNKNOWN
        | Some col \<Rightarrow>
            (case (tbl_name m, col_name col) of
               (Some n, Some c) \<Rightarrow>
                 exists_query vt (''SELECT 1 FROM '' @ n @ '' WHERE '' @ c @ '' = ?'') (\<lambda>q. drive (rv_bind_string vt q 1 key))
             | _ \<Rightarrow> stuck))"

section \<open>Writing a record\<close>

record 'd api_hooks =
  before_save :: "('d, unit) row_act option"
  after_save :: "('d, unit) row_act option"
  before_insert :: "('d, unit) row_act option"
  after_insert :: "('d, unit) row_act option"
  before_update :: "('d, unit) row_act option"
  after_update :: "('d, unit) row_act option"
  before_delete :: "('d, unit) row_act option"
  after_delete :: "('d, unit) row_act option"

definition hook :: "('d, unit) row_act option \<Rightarrow> ('d, unit) row_act" where
  "hook h = (case h of None \<Rightarrow> preturn () | Some f \<Rightarrow> f)"

definition c_orm_insert :: "api_config \<Rightarrow> 'd row_vtable \<Rightarrow> 'd api_hooks \<Rightarrow> api_table \<Rightarrow> ('d, unit) row_act" where
  "c_orm_insert cfg vt hooks m =
     (if is_view m then perr C_ORM_ERROR_READ_ONLY
      else pbind (hook (before_save hooks)) (\<lambda>_.
        pbind (hook (before_insert hooks)) (\<lambda>_.
        pbind (row_query vt (query_insert m) (\<lambda>q.
          pbind (bind_row cfg vt q (columns m) 0 1) (\<lambda>_.
          pbind (on_db (stepped vt q)) (\<lambda>_. preturn ())))) (\<lambda>_.
        pbind (hook (after_insert hooks)) (\<lambda>_. hook (after_save hooks))))))"

definition bind_pk :: "'d row_vtable \<Rightarrow> nat \<Rightarrow> c_orm_column_meta_t \<Rightarrow> nat \<Rightarrow> int \<Rightarrow> ('d, unit) row_act \<Rightarrow> ('d, unit) row_act" where
  \<comment> \<open>a key column of the struct, by its type; what happens for the other types differs\<close>
  "bind_pk vt q col i idx other =
     pbind (get_field i) (\<lambda>f.
       case (col_type col, f) of
         (C_ORM_TYPE_INT32, F_int32 v) \<Rightarrow> on_db (drive (rv_bind_int32 vt q idx v))
       | (C_ORM_TYPE_INT64, F_int64 v) \<Rightarrow> on_db (drive (rv_bind_int64 vt q idx v))
       | (C_ORM_TYPE_STRING, F_text s) \<Rightarrow> on_db (drive (rv_bind_string vt q idx s))
       | (ty, _) \<Rightarrow> if ty \<in> {C_ORM_TYPE_INT32, C_ORM_TYPE_INT64, C_ORM_TYPE_STRING} then stuck else other)"

fun bind_pks :: "'d row_vtable \<Rightarrow> nat \<Rightarrow> c_orm_column_meta_t list \<Rightarrow> nat \<Rightarrow> int \<Rightarrow> ('d, unit) row_act \<Rightarrow> ('d, int) row_act" where
  \<comment> \<open>all key columns in order; the result is the next parameter\<close>
  "bind_pks vt q [] i idx other = preturn idx"
| "bind_pks vt q (c # cs) i idx other =
     (if is_pk c then pbind (bind_pk vt q c i idx other) (\<lambda>_. bind_pks vt q cs (Suc i) (idx + 1) other)
      else bind_pks vt q cs (Suc i) idx other)"

definition c_orm_update :: "api_config \<Rightarrow> 'd row_vtable \<Rightarrow> api_table \<Rightarrow> ('d, unit) row_act" where
  \<comment> \<open>a key of another type is left unbound; no hook is called\<close>
  "c_orm_update cfg vt m =
     (if is_view m then perr C_ORM_ERROR_READ_ONLY
      else if query_update m = None then perr C_ORM_ERROR_UNKNOWN
      else row_query vt (query_update m) (\<lambda>q.
        pbind (bind_row cfg vt q (columns m) 0 1) (\<lambda>_.
        pbind (bind_pks vt q (columns m) 0 (int (length (columns m)) + 1) (preturn ())) (\<lambda>_.
        pbind (on_db (stepped vt q)) (\<lambda>_. preturn ())))))"

definition pk_is_set :: "api_table \<Rightarrow> field list \<Rightarrow> bool outcome" where
  \<comment> \<open>of the first key column\<close>
  "pk_is_set m obj =
     (case find (\<lambda>(i, c). is_pk c) (enumerate 0 (columns m)) of
        None \<Rightarrow> Ret False
      | Some (i, c) \<Rightarrow>
          if length obj \<le> i then Stuck
          else (case (col_type c, obj ! i) of
                  (C_ORM_TYPE_INT32, F_int32 v) \<Rightarrow> Ret (v \<noteq> 0)
                | (C_ORM_TYPE_STRING, F_text p) \<Rightarrow> Ret (p \<noteq> None \<and> p \<noteq> Some [])
                | (ty, _) \<Rightarrow> if ty \<in> {C_ORM_TYPE_INT32, C_ORM_TYPE_STRING} then Stuck else Ret True))"

definition c_orm_save :: "api_config \<Rightarrow> 'd row_vtable \<Rightarrow> 'd api_hooks \<Rightarrow> api_table \<Rightarrow> ('d, unit) row_act" where
  "c_orm_save cfg vt hooks m =
     (if is_view m then perr C_ORM_ERROR_READ_ONLY
      else (\<lambda>s. case pk_is_set m (fst s) of
          Ret True \<Rightarrow> c_orm_update cfg vt m s
        | Ret False \<Rightarrow> c_orm_insert cfg vt hooks m s
        | _ \<Rightarrow> (Stuck, s)))"

definition c_orm_delete :: "'d row_vtable \<Rightarrow> 'd api_hooks \<Rightarrow> api_table \<Rightarrow> ('d, unit) row_act" where
  "c_orm_delete vt hooks m =
     (if query_delete_by_pk m = None then perr C_ORM_ERROR_UNKNOWN
      else if is_view m then perr C_ORM_ERROR_READ_ONLY
      else pbind (hook (before_delete hooks)) (\<lambda>_.
        pbind (row_query vt (query_delete_by_pk m) (\<lambda>q.
          pbind (bind_pks vt q (columns m) 0 1 (perr C_ORM_ERROR_NOT_IMPLEMENTED)) (\<lambda>idx.
          if idx = 1 then perr C_ORM_ERROR_UNKNOWN
          else pbind (on_db (stepped vt q)) (\<lambda>_. preturn ())))) (\<lambda>_.
        hook (after_delete hooks))))"

section \<open>Updating parts of a record\<close>

definition bind_composite_column :: "api_config \<Rightarrow> 'd row_vtable \<Rightarrow> nat \<Rightarrow> c_orm_column_meta_t \<Rightarrow> nat \<Rightarrow> int \<Rightarrow> ('d, unit) row_act" where
  \<comment> \<open>the column's own binding in \<open>c_orm_update_by_composite_key\<close>: the flags of the column are not looked at, so
     the pointer of a nullable number is read as the number\<close>
  "bind_composite_column cfg vt q col i idx =
     pbind (get_field i) (\<lambda>f.
       case (col_type col, f) of
         (C_ORM_TYPE_INT32, F_int32 v) \<Rightarrow> on_db (drive (rv_bind_int32 vt q idx v))
       | (C_ORM_TYPE_BOOL, F_bool b) \<Rightarrow> on_db (drive (rv_bind_int32 vt q idx (ucast b)))
       | (C_ORM_TYPE_INT64, F_int64 v) \<Rightarrow> on_db (drive (rv_bind_int64 vt q idx v))
       | (C_ORM_TYPE_FLOAT, F_float v) \<Rightarrow> on_db (drive (rv_bind_double vt q idx (float_to_double cfg v)))
       | (C_ORM_TYPE_DOUBLE, F_double v) \<Rightarrow> on_db (drive (rv_bind_double vt q idx v))
       | (C_ORM_TYPE_STRING, F_text None) \<Rightarrow> on_db (drive (rv_bind_null vt q idx))
       | (C_ORM_TYPE_TIMESTAMP, F_text None) \<Rightarrow> on_db (drive (rv_bind_null vt q idx))
       | (C_ORM_TYPE_STRING, F_text s) \<Rightarrow> on_db (drive (rv_bind_string vt q idx s))
       | (C_ORM_TYPE_TIMESTAMP, F_text s) \<Rightarrow> on_db (drive (rv_bind_string vt q idx s))
       | (ty, _) \<Rightarrow>
           if ty \<in> {C_ORM_TYPE_INT32, C_ORM_TYPE_BOOL, C_ORM_TYPE_INT64, C_ORM_TYPE_FLOAT, C_ORM_TYPE_DOUBLE, C_ORM_TYPE_STRING,
              C_ORM_TYPE_TIMESTAMP} then stuck
           else perr C_ORM_ERROR_NOT_IMPLEMENTED)"

fun bind_composite_row :: "api_config \<Rightarrow> 'd row_vtable \<Rightarrow> nat \<Rightarrow> c_orm_column_meta_t list \<Rightarrow> nat \<Rightarrow> int \<Rightarrow> ('d, int) row_act" where
  "bind_composite_row cfg vt q [] i idx = preturn idx"
| "bind_composite_row cfg vt q (c # cs) i idx =
     pbind (bind_composite_column cfg vt q c i idx) (\<lambda>_. bind_composite_row cfg vt q cs (Suc i) (idx + 1))"

definition bind_update_key :: "'d row_vtable \<Rightarrow> nat \<Rightarrow> int \<Rightarrow> cdd_c_variant_t \<Rightarrow> ('d, unit) cached" where
  "bind_update_key vt q i v =
     (case v of
        CDD_C_VARIANT_TYPE_INT n \<Rightarrow> drive (rv_bind_int64 vt q i n)
      | CDD_C_VARIANT_TYPE_FLOAT x \<Rightarrow> drive (rv_bind_double vt q i x)
      | CDD_C_VARIANT_TYPE_STRING s \<Rightarrow> drive (rv_bind_string vt q i s)
      | CDD_C_VARIANT_TYPE_BLOB bs \<Rightarrow> drive (rv_bind_blob vt q i bs)
      | CDD_C_VARIANT_TYPE_NULL \<Rightarrow> perr C_ORM_ERROR_NOT_IMPLEMENTED)"

fun bind_update_keys :: "'d row_vtable \<Rightarrow> nat \<Rightarrow> int \<Rightarrow> cdd_c_variant_t list \<Rightarrow> ('d, unit) cached" where
  "bind_update_keys vt q i [] = preturn ()"
| "bind_update_keys vt q i (v # vs) = pbind (bind_update_key vt q i v) (\<lambda>_. bind_update_keys vt q (i + 1) vs)"

definition c_orm_update_by_composite_key :: "api_config \<Rightarrow> 'd row_vtable \<Rightarrow> api_table \<Rightarrow> cdd_c_variant_t list \<Rightarrow> ('d, unit) row_act" where
  "c_orm_update_by_composite_key cfg vt m keys =
     (if is_view m then perr C_ORM_ERROR_READ_ONLY
      else if query_update m = None then perr C_ORM_ERROR_UNKNOWN
      else using_query_ignoring (on_db (prepared vt (query_update m))) (\<lambda>q. on_db (given_back vt q)) (\<lambda>q.
        pbind (bind_composite_row cfg vt q (columns m) 0 1) (\<lambda>idx.
        pbind (on_db (bind_update_keys vt q idx keys)) (\<lambda>_.
        pbind (on_db (stepped vt q)) (\<lambda>_. preturn ())))))"

end
