(* ===== verification/Dynamic.thy ===== *)
theory Dynamic
  imports Records StringBuilder
begin

text \<open>
  The operations of \<open>src/c_orm_api.c\<close> that put their statements together with a string builder:
  \<open>c_orm_insert_generic\<close>, \<open>c_orm_get_generic\<close>, \<open>c_orm_get_generic_string\<close> and \<open>c_orm_update_partial\<close>.
  The chain of appends, each of which ends the function after freeing the builder, is \<open>build_sql\<close>.
\<close>

section \<open>Building a statement\<close>

definition build_sql :: "cptr list \<Rightarrow> (heap, string_builder option) act" where
  \<comment> \<open>\<open>c_orm_string_builder_init\<close> and the appends\<close>
  "build_sql xs h =
     (case c_orm_string_builder_init True h of (rc, b, h1) \<Rightarrow>
        if rc \<noteq> C_ORM_OK then (Err rc, h1)
        else (case appends c_orm_string_builder_append xs (b, h1) of (rc2, (b2, h2)) \<Rightarrow>
          if rc2 \<noteq> C_ORM_OK then (Err rc2, c_orm_string_builder_free b2 h2) else (Ret b2, h2)))"

definition built_text :: "string_builder option \<Rightarrow> (heap, cptr) act" where
  \<comment> \<open>\<open>c_orm_string_builder_get\<close>\<close>
  "built_text b h =
     (case c_orm_string_builder_get b True of (rc, sql) \<Rightarrow>
        if rc \<noteq> C_ORM_OK then (Err rc, c_orm_string_builder_free b h) else (Ret sql, h))"

definition free_builder :: "string_builder option \<Rightarrow> (heap, unit) act" where
  "free_builder b h = (Ret (), c_orm_string_builder_free b h)"

definition driver_prepare :: "'d row_vtable \<Rightarrow> cptr \<Rightarrow> ('d, nat) cached" where
  "driver_prepare vt sql = (case sql of None \<Rightarrow> stuck | Some s \<Rightarrow> drive (vt_prepare (rv_statements vt) s))"

definition driver_finalize :: "'d row_vtable \<Rightarrow> nat \<Rightarrow> ('d, unit) cached" where
  "driver_finalize vt q = drive (vt_finalize (rv_statements vt) q)"

definition build_and :: "cptr list \<Rightarrow> (cptr \<Rightarrow> ('d, nat) cached) \<Rightarrow> ('d, nat) cached" where
  \<comment> \<open>prepare the text; the builder is freed afterwards on both paths\<close>
  "build_and xs prep =
     pbind (on_heap (build_sql xs)) (\<lambda>b.
     pbind (on_heap (built_text b)) (\<lambda>sql.
     pbind (attempt (prep sql)) (\<lambda>r.
     pbind (on_heap (free_builder b)) (\<lambda>_.
       case r of Inl e \<Rightarrow> perr e | Inr q \<Rightarrow> preturn q))))"

fun separated :: "cptr \<Rightarrow> cptr list list \<Rightarrow> cptr list" where
  \<comment> \<open>\<open>if (i > 0) append(sb, ", ");\<close> before each item\<close>
  "separated sep [] = []"
| "separated sep (x # xs) = x @ concat (map (\<lambda>y. sep # y) xs)"

section \<open>Generic insert\<close>

definition insert_pieces :: "api_table \<Rightarrow> cptr list" where
  "insert_pieces m =
     [Some ''INSERT INTO '', tbl_name m, Some '' (''] @ separated (Some '', '') (map (\<lambda>c. [col_name c]) (columns m))
     @ [Some '') VALUES (''] @ separated (Some '', '') (map (\<lambda>c. [Some ''?'']) (columns m)) @ [Some '')'']"

definition c_orm_insert_generic :: "api_config \<Rightarrow> 'd row_vtable \<Rightarrow> api_table \<Rightarrow> ('d, unit) row_act" where
  \<comment> \<open>a step that finds nothing is a success\<close>
  "c_orm_insert_generic cfg vt m =
     (if is_view m then perr C_ORM_ERROR_READ_ONLY
      else using_query (on_db (build_and (insert_pieces m) (driver_prepare vt))) (\<lambda>q. on_db (driver_finalize vt q)) (\<lambda>q.
        pbind (bind_row cfg vt q (columns m) 0 1) (\<lambda>_.
        pbind (on_db (attempt (stepped vt q))) (\<lambda>r.
          case r of Inr _ \<Rightarrow> preturn () | Inl e \<Rightarrow> if e = C_ORM_ERROR_NOT_FOUND then preturn () else perr e))))"

section \<open>Generic get\<close>

definition select_pieces :: "api_table \<Rightarrow> c_orm_column_meta_t \<Rightarrow> cptr list" where
  "select_pieces m pk = [Some ''SELECT * FROM '', tbl_name m, Some '' WHERE '', col_name pk, Some '' = ?'']"

definition get_bound :: "api_config \<Rightarrow> 'd row_vtable \<Rightarrow> api_table \<Rightarrow> (nat \<Rightarrow> ('d, unit) cached) \<Rightarrow> ('d, unit) row_act" where
  \<comment> \<open>a row that cannot be read is given back through the cache, everything else to the driver\<close>
  "get_bound cfg vt m bind =
     (case find is_pk (columns m) of
        None \<Rightarrow> perr C_ORM_ERROR_VALIDATION
      | Some pk \<Rightarrow>
          pbind (on_db (build_and (select_pieces m pk) (driver_prepare vt))) (\<lambda>q.
          pbind (on_db (attempt (pbind (bind q) (\<lambda>_. stepped vt q)))) (\<lambda>r.
            case r of
              Inl e \<Rightarrow> pbind (on_db (driver_finalize vt q)) (\<lambda>_. perr e)
            | Inr has_row \<Rightarrow>
                if \<not> has_row then pbind (on_db (driver_finalize vt q)) (\<lambda>_. perr C_ORM_ERROR_NOT_FOUND)
                else pbind (attempt (c_orm_hydrate_row cfg vt q m)) (\<lambda>h.
                  case h of
                    Inl e \<Rightarrow> pbind (on_db (given_back vt q)) (\<lambda>_. perr e)
                  | Inr _ \<Rightarrow> on_db (driver_finalize vt q)))))"

definition c_orm_get_generic :: "api_config \<Rightarrow> 'd row_vtable \<Rightarrow> api_table \<Rightarrow> 32 word \<Rightarrow> ('d, unit) row_act" where
  "c_orm_get_generic cfg vt m pk_val = get_bound cfg vt m (\<lambda>q. drive (rv_bind_int32 vt q 1 pk_val))"

definition c_orm_get_generic_string :: "api_config \<Rightarrow> 'd row_vtable \<Rightarrow> api_table \<Rightarrow> cptr \<Rightarrow> ('d, unit) row_act" where
  "c_orm_get_generic_string cfg vt m pk_val =
     (if pk_val = None then perr C_ORM_ERROR_MEMORY else get_bound cfg vt m (\<lambda>q. drive (rv_bind_string vt q 1 pk_val)))"

section \<open>Partial update\<close>

definition partial_pieces :: "api_table \<Rightarrow> string list \<Rightarrow> cptr list" where
  "partial_pieces m names =
     [Some ''UPDATE '', tbl_name m, Some '' SET ''] @ separated (Some '', '') (map (\<lambda>f. [Some f, Some '' = ?'']) names)"

definition key_pieces :: "c_orm_column_meta_t \<Rightarrow> cptr list" where
  "key_pieces pk = [Some '' WHERE '', col_name pk, Some '' = ?'']"

definition bind_partial_column :: "'d row_vtable \<Rightarrow> nat \<Rightarrow> c_orm_column_meta_t \<Rightarrow> nat \<Rightarrow> int \<Rightarrow> c_orm_error_t \<Rightarrow> ('d, unit) row_act" where
  \<comment> \<open>only texts and 32-bit integers; other types are refused with the error given\<close>
  "bind_partial_column vt q col i idx err =
     pbind (get_field i) (\<lambda>f.
       case (col_type col, f) of
         (C_ORM_TYPE_STRING, F_text s) \<Rightarrow> on_db (drive (rv_bind_string vt q idx s))
       | (C_ORM_TYPE_INT32, F_int32 v) \<Rightarrow> on_db (drive (rv_bind_int32 vt q idx v))
       | (ty, _) \<Rightarrow> if ty \<in> {C_ORM_TYPE_STRING, C_ORM_TYPE_INT32} then stuck else perr err)"

fun bind_fields :: "'d row_vtable \<Rightarrow> nat \<Rightarrow> api_table \<Rightarrow> string list \<Rightarrow> int \<Rightarrow> ('d, int) row_act" where
  \<comment> \<open>a field that is no column is in the statement but is passed over here\<close>
  "bind_fields vt q m [] idx = preturn idx"
| "bind_fields vt q m (f # fs) idx =
     (case find (\<lambda>(j, c). col_name c = Some f) (enumerate 0 (columns m)) of
        None \<Rightarrow> bind_fields vt q m fs idx
      | Some (j, c) \<Rightarrow>
          pbind (bind_partial_column vt q c j idx C_ORM_ERROR_NOT_IMPLEMENTED) (\<lambda>_. bind_fields vt q m fs (idx + 1)))"

definition prepare_partial :: "'d row_vtable \<Rightarrow> api_table \<Rightarrow> string list \<Rightarrow> ('d, nat) cached" where
  \<comment> \<open>the key column is looked for when the first part of the text is there\<close>
  "prepare_partial vt m names =
     (case find is_pk (columns m) of
        Some pk \<Rightarrow> build_and (partial_pieces m names @ key_pieces pk) (prepared vt)
      | None \<Rightarrow>
          pbind (on_heap (build_sql (partial_pieces m names))) (\<lambda>b.
          pbind (on_heap (free_builder b)) (\<lambda>_. perr C_ORM_ERROR_UNKNOWN)))"

definition c_orm_update_partial :: "'d row_vtable \<Rightarrow> api_table \<Rightarrow> string list \<Rightarrow> ('d, unit) row_act" where
  "c_orm_update_partial vt m names =
     (if names = [] then perr C_ORM_ERROR_MEMORY
      else using_query (on_db (prepare_partial vt m names)) (\<lambda>q. on_db (given_back vt q)) (\<lambda>q.
        pbind (bind_fields vt q m names 1) (\<lambda>idx.
          case find (\<lambda>(j, c). is_pk c) (enumerate 0 (columns m)) of
            None \<Rightarrow> stuck
          | Some (j, pk) \<Rightarrow>
              pbind (bind_partial_column vt q pk j idx C_ORM_ERROR_UNKNOWN) (\<lambda>_.
              pbind (on_db (stepped vt q)) (\<lambda>_. preturn ())))))"

section \<open>Finding by a column\<close>

definition select_one :: "api_table \<Rightarrow> cptr \<Rightarrow> (heap, cptr) act" where
  \<comment> \<open>the builder is freed on every path; the text remains\<close>
  "select_one m column h =
     (case c_orm_select_builder_init (Some (c_orm_table_meta_t.truncate m)) True h of (rc, b, h1) \<Rightarrow>
        if rc \<noteq> C_ORM_OK then (Err rc, h1)
        else (case c_orm_select_where_eq column (b, h1) of (rc2, (b2, h2)) \<Rightarrow>
          if rc2 \<noteq> C_ORM_OK then (Err rc2, c_orm_select_builder_free b2 h2)
          else (case c_orm_select_limit 1 (b2, h2) of (rc3, (b3, h3)) \<Rightarrow>
            if rc3 \<noteq> C_ORM_OK then (Err rc3, c_orm_select_builder_free b3 h3)
            else (case c_orm_select_builder_compile b3 True h3 of (rc4, sql, h4) \<Rightarrow>
              if rc4 \<noteq> C_ORM_OK then (Err rc4, c_orm_select_builder_free b3 h4)
              else (Ret sql, c_orm_select_builder_free b3 h4)))))"

definition prepare_select_one :: "'d row_vtable \<Rightarrow> api_table \<Rightarrow> cptr \<Rightarrow> ('d, nat) cached" where
  "prepare_select_one vt m column =
     pbind (on_heap (select_one m column)) (\<lambda>sql.
     pbind (attempt (prepared vt sql)) (\<lambda>r.
     pbind (on_heap free_block) (\<lambda>_. case r of Inl e \<Rightarrow> perr e | Inr q \<Rightarrow> preturn q)))"

definition c_orm_find_one_by_string :: "api_config \<Rightarrow> 'd row_vtable \<Rightarrow> api_table \<Rightarrow> cptr \<Rightarrow> cptr \<Rightarrow> ('d, unit) row_act" where
  "c_orm_find_one_by_string cfg vt m column value =
     (if column = None \<or> value = None then perr C_ORM_ERROR_MEMORY
      else using_query (on_db (prepare_select_one vt m column)) (\<lambda>q. on_db (given_back vt q)) (\<lambda>q.
        pbind (on_db (drive (rv_bind_string vt q 1 value))) (\<lambda>_. fetch_one cfg vt m q)))"

end
