(* ===== verification/Batch.thy ===== *)
theory Batch
  imports Dynamic
begin

text \<open>
  The bulk operations of \<open>src/c_orm_api.c\<close>: \<open>c_orm_insert_batch_ext\<close>, \<open>c_orm_insert_batch\<close>,
  \<open>c_orm_update_batch\<close> and \<open>c_orm_delete_batch\<close>. An array of structs is worked off in chunks, one statement for
  each, inside a transaction. The state is the array and the connection; \<open>num_items\<close> is the length of the array.
  The progress callback is left out.
\<close>

type_synonym ('d, 'a) arr_act = "(field list list \<times> 'd cache_state, 'a) act"

definition on_arr :: "('d cache_state, 'a) act \<Rightarrow> ('d, 'a) arr_act" where
  "on_arr m s = (case m (snd s) of (r, d) \<Rightarrow> (r, (fst s, d)))"

definition at_item :: "nat \<Rightarrow> ('d, 'a) row_act \<Rightarrow> ('d, 'a) arr_act" where
  \<comment> \<open>an action on one struct of the array\<close>
  "at_item i m s =
     (if i < length (fst s) then (case m (fst s ! i, snd s) of (r, (obj, d)) \<Rightarrow> (r, ((fst s)[i := obj], d))) else (Stuck, s))"

section \<open>The transaction\<close>

definition or_rollback :: "'d row_vtable \<Rightarrow> ('d, 'a) arr_act \<Rightarrow> ('d, 'a) arr_act" where
  \<comment> \<open>the status of the rollback is not looked at\<close>
  "or_rollback vt m s =
     (case m s of
        (Err e, t) \<Rightarrow> pbind (on_arr (attempt (c_orm_transaction_rollback vt))) (\<lambda>_. perr e) t
      | r \<Rightarrow> r)"

definition or_finalize :: "'d row_vtable \<Rightarrow> nat \<Rightarrow> ('d, 'a) arr_act \<Rightarrow> ('d, 'a) arr_act" where
  \<comment> \<open>\<open>fin_rc != C_ORM_OK ? fin_rc : rc\<close>\<close>
  "or_finalize vt q m s =
     (case m s of (Err e, t) \<Rightarrow> pbind (on_arr (driver_finalize vt q)) (\<lambda>_. perr e) t | r \<Rightarrow> r)"

definition prepare_or_free :: "'d row_vtable \<Rightarrow> string_builder option \<Rightarrow> cptr \<Rightarrow> ('d, nat) cached" where
  \<comment> \<open>the builder is freed when the statement cannot be prepared, and only then\<close>
  "prepare_or_free vt b sql =
     pbind (attempt (driver_prepare vt sql)) (\<lambda>r.
       case r of Inl e \<Rightarrow> pbind (on_heap (free_builder b)) (\<lambda>_. perr e) | Inr q \<Rightarrow> preturn q)"

definition step_finalize :: "'d row_vtable \<Rightarrow> nat \<Rightarrow> ('d, unit) cached" where
  "step_finalize vt q =
     pbind (attempt (stepped vt q)) (\<lambda>r.
     pbind (driver_finalize vt q) (\<lambda>_. case r of Inl e \<Rightarrow> perr e | Inr _ \<Rightarrow> preturn ()))"

definition run_chunk :: "'d row_vtable \<Rightarrow> cptr list \<Rightarrow> (nat \<Rightarrow> ('d, unit) arr_act) \<Rightarrow> ('d, unit) arr_act \<Rightarrow> ('d, unit) arr_act" where
  \<comment> \<open>one round: build, prepare, bind, step, finalize, and the hooks afterwards\<close>
  "run_chunk vt pieces bind_all after =
     pbind (or_rollback vt (on_arr (on_heap (build_sql pieces)))) (\<lambda>b.
     pbind (on_arr (on_heap (built_text b))) (\<lambda>sql.
     or_rollback vt
       (pbind (on_arr (prepare_or_free vt b sql)) (\<lambda>q.
        pbind (or_finalize vt q (bind_all q)) (\<lambda>_.
        pbind (on_arr (step_finalize vt q)) (\<lambda>_. after))))))"

function batch_rounds :: "(nat \<Rightarrow> nat \<Rightarrow> ('s, unit) act) \<Rightarrow> nat \<Rightarrow> nat \<Rightarrow> nat \<Rightarrow> ('s, unit) act" where
  \<comment> \<open>\<open>for (i = 0; i < num_items; i += actual_chunk)\<close>; with chunks of length 0 it would never end\<close>
  "batch_rounds body chunk i n =
     (if n \<le> i then preturn ()
      else let k = (if i + chunk > n then n - i else chunk) in
        if k = 0 then stuck else pbind (body i k) (\<lambda>_. batch_rounds body chunk (i + k) n))"
  by pat_completeness auto
termination by (relation "measure (\<lambda>(_, _, i, n). n - i)") auto

declare batch_rounds.simps [simp del]

fun for_items :: "(nat \<Rightarrow> ('s, unit) act) \<Rightarrow> nat \<Rightarrow> nat \<Rightarrow> ('s, unit) act" where
  \<comment> \<open>\<open>for (j = 0; j < actual_chunk; j++)\<close>, from item \<open>i\<close> on\<close>
  "for_items body i 0 = preturn ()"
| "for_items body i (Suc k) = pbind (body i) (\<lambda>_. for_items body (Suc i) k)"

fun for_items_from :: "(nat \<Rightarrow> int \<Rightarrow> ('s, int) act) \<Rightarrow> nat \<Rightarrow> nat \<Rightarrow> int \<Rightarrow> ('s, int) act" where
  \<comment> \<open>the same, with the next parameter passed along\<close>
  "for_items_from body i 0 idx = preturn idx"
| "for_items_from body i (Suc k) idx = pbind (body i idx) (\<lambda>idx'. for_items_from body (Suc i) k idx')"

definition in_transaction :: "'d row_vtable \<Rightarrow> ('d, unit) arr_act \<Rightarrow> ('d, unit) arr_act" where
  "in_transaction vt rounds =
     pbind (on_arr (c_orm_transaction_begin vt)) (\<lambda>_. pbind rounds (\<lambda>_. on_arr (c_orm_transaction_commit vt)))"

section \<open>Deleting\<close>

definition key_column :: "api_table \<Rightarrow> (nat \<times> c_orm_column_meta_t) option" where
  "key_column m = find (\<lambda>(j, c). is_pk c) (enumerate 0 (columns m))"

definition delete_batch_pieces :: "api_table \<Rightarrow> c_orm_column_meta_t \<Rightarrow> nat \<Rightarrow> cptr list" where
  "delete_batch_pieces m pk k =
     [Some ''DELETE FROM '', tbl_name m, Some '' WHERE '', col_name pk, Some '' IN (''] @ separated (Some '', '') (replicate k [Some ''?''])
     @ [Some '')'']"

definition delete_chunk :: "'d row_vtable \<Rightarrow> 'd api_hooks \<Rightarrow> api_table \<Rightarrow> nat \<Rightarrow> c_orm_column_meta_t \<Rightarrow> nat \<Rightarrow> nat \<Rightarrow> ('d, unit) arr_act" where
  "delete_chunk vt hooks m j pk i k =
     run_chunk vt (delete_batch_pieces m pk k)
       (\<lambda>q. for_items (\<lambda>a. at_item a (pbind (hook (before_delete hooks)) (\<lambda>_.
              bind_pk vt q pk j (int (a - i) + 1) (perr C_ORM_ERROR_NOT_IMPLEMENTED)))) i k)
       (for_items (\<lambda>a. at_item a (hook (after_delete hooks))) i k)"

definition c_orm_delete_batch :: "'d row_vtable \<Rightarrow> 'd api_hooks \<Rightarrow> api_table \<Rightarrow> nat \<Rightarrow> ('d, unit) arr_act" where
  "c_orm_delete_batch vt hooks m chunk_size s =
     (if is_view m then (Err C_ORM_ERROR_READ_ONLY, s)
      else if fst s = [] then (Ret (), s)
      else case key_column m of
        None \<Rightarrow> (Err C_ORM_ERROR_UNKNOWN, s)
      | Some (j, pk) \<Rightarrow>
          in_transaction vt (batch_rounds (delete_chunk vt hooks m j pk) (if chunk_size = 0 then 1000 else chunk_size) 0 (length (fst s))) s)"

section \<open>Inserting\<close>

datatype c_orm_on_conflict_t = C_ORM_ON_CONFLICT_FAIL | C_ORM_ON_CONFLICT_DO_NOTHING | C_ORM_ON_CONFLICT_DO_UPDATE

definition insert_batch_pieces :: "api_table \<Rightarrow> c_orm_on_conflict_t \<Rightarrow> nat \<Rightarrow> cptr list" where
  "insert_batch_pieces m policy k =
     [Some ''INSERT INTO '', tbl_name m, Some '' (''] @ separated (Some '', '') (map (\<lambda>c. [col_name c]) (columns m)) @ [Some '') VALUES '']
     @ separated (Some '', '') (replicate k ([Some ''(''] @ separated (Some '', '') (map (\<lambda>c. [Some ''?'']) (columns m)) @ [Some '')'']))
     @ (if policy = C_ORM_ON_CONFLICT_DO_NOTHING then [Some '' ON CONFLICT DO NOTHING''] else [])"

definition insert_chunk :: "api_config \<Rightarrow> 'd row_vtable \<Rightarrow> 'd api_hooks \<Rightarrow> api_table \<Rightarrow> c_orm_on_conflict_t \<Rightarrow> nat \<Rightarrow> nat \<Rightarrow> ('d, unit) arr_act" where
  "insert_chunk cfg vt hooks m policy i k =
     run_chunk vt (insert_batch_pieces m policy k)
       (\<lambda>q. pbind (for_items_from (\<lambda>a idx. at_item a (pbind (hook (before_save hooks)) (\<lambda>_. pbind (hook (before_insert hooks)) (\<lambda>_.
              bind_row cfg vt q (columns m) 0 idx)))) i k 1) (\<lambda>_. preturn ()))
       (for_items (\<lambda>a. at_item a (pbind (hook (after_insert hooks)) (\<lambda>_. hook (after_save hooks)))) i k)"

definition insert_chunk_size :: "api_table \<Rightarrow> nat \<Rightarrow> nat" where
  "insert_chunk_size m chunk_size =
     (if chunk_size = 0 then min 1000 (30000 div (if 0 < length (columns m) then length (columns m) else 1)) else chunk_size)"

definition c_orm_insert_batch_ext :: "api_config \<Rightarrow> 'd row_vtable \<Rightarrow> 'd api_hooks \<Rightarrow> api_table \<Rightarrow> nat \<Rightarrow> c_orm_on_conflict_t \<Rightarrow> ('d, unit) arr_act" where
  "c_orm_insert_batch_ext cfg vt hooks m chunk_size policy s =
     (if is_view m then (Err C_ORM_ERROR_READ_ONLY, s)
      else if fst s = [] then (Ret (), s)
      else in_transaction vt (batch_rounds (insert_chunk cfg vt hooks m policy) (insert_chunk_size m chunk_size) 0 (length (fst s))) s)"

definition c_orm_insert_batch :: "api_config \<Rightarrow> 'd row_vtable \<Rightarrow> 'd api_hooks \<Rightarrow> api_table \<Rightarrow> nat \<Rightarrow> ('d, unit) arr_act" where
  "c_orm_insert_batch cfg vt hooks m chunk_size = c_orm_insert_batch_ext cfg vt hooks m chunk_size C_ORM_ON_CONFLICT_FAIL"

section \<open>Updating\<close>

definition update_batch_pieces :: "api_table \<Rightarrow> c_orm_column_meta_t \<Rightarrow> nat \<Rightarrow> cptr list" where
  "update_batch_pieces m pk k =
     [Some ''UPDATE '', tbl_name m, Some '' SET '']
     @ separated (Some '', '') (map (\<lambda>c. [col_name c, Some '' = CASE '', col_name pk] @ replicate k (Some '' WHEN ? THEN ?'') @ [Some '' END''])
         (filter (\<lambda>c. \<not> is_pk c) (columns m)))
     @ [Some '' WHERE '', col_name pk, Some '' IN (''] @ separated (Some '', '') (replicate k [Some ''?'']) @ [Some '')'']"

fun bind_cases :: "api_config \<Rightarrow> 'd row_vtable \<Rightarrow> nat \<Rightarrow> nat \<Rightarrow> c_orm_column_meta_t \<Rightarrow> nat \<Rightarrow> nat \<Rightarrow> c_orm_column_meta_t list \<Rightarrow> nat \<Rightarrow> int \<Rightarrow> ('d, int) arr_act" where
  \<comment> \<open>for each column that is no key, and each item of the chunk, its key and its value\<close>
  "bind_cases cfg vt q j pk i k [] n idx = preturn idx"
| "bind_cases cfg vt q j pk i k (c # cs) n idx =
     (if is_pk c then bind_cases cfg vt q j pk i k cs (Suc n) idx
      else pbind (for_items_from (\<lambda>a idx. at_item a (pbind (bind_pk vt q pk j idx (perr C_ORM_ERROR_NOT_IMPLEMENTED)) (\<lambda>_.
               pbind (bind_column cfg vt q c n (idx + 1)) (\<lambda>_. preturn (idx + 2))))) i k idx) (\<lambda>idx'.
             bind_cases cfg vt q j pk i k cs (Suc n) idx'))"

definition update_chunk :: "api_config \<Rightarrow> 'd row_vtable \<Rightarrow> 'd api_hooks \<Rightarrow> api_table \<Rightarrow> nat \<Rightarrow> c_orm_column_meta_t \<Rightarrow> nat \<Rightarrow> nat \<Rightarrow> ('d, unit) arr_act" where
  "update_chunk cfg vt hooks m j pk i k =
     run_chunk vt (update_batch_pieces m pk k)
       (\<lambda>q. pbind (bind_cases cfg vt q j pk i k (columns m) 0 1) (\<lambda>idx.
            pbind (for_items_from (\<lambda>a idx. at_item a (pbind (bind_pk vt q pk j idx (perr C_ORM_ERROR_NOT_IMPLEMENTED)) (\<lambda>_.
               preturn (idx + 1)))) i k idx) (\<lambda>_. preturn ())))
       (for_items (\<lambda>a. at_item a (pbind (hook (after_update hooks)) (\<lambda>_. hook (after_save hooks)))) i k)"

definition update_chunk_size :: "api_table \<Rightarrow> nat \<Rightarrow> nat" where
  "update_chunk_size m chunk_size =
     (if chunk_size = 0 then min 500 (30000 div ((length (columns m) - 1) * 2 + 1)) else chunk_size)"

definition c_orm_update_batch :: "api_config \<Rightarrow> 'd row_vtable \<Rightarrow> 'd api_hooks \<Rightarrow> api_table \<Rightarrow> nat \<Rightarrow> ('d, unit) arr_act" where
  "c_orm_update_batch cfg vt hooks m chunk_size s =
     (if is_view m then (Err C_ORM_ERROR_READ_ONLY, s)
      else if fst s = [] then (Ret (), s)
      else case key_column m of
        None \<Rightarrow> (Err C_ORM_ERROR_UNKNOWN, s)
      | Some (j, pk) \<Rightarrow>
          in_transaction vt (batch_rounds (update_chunk cfg vt hooks m j pk) (update_chunk_size m chunk_size) 0 (length (fst s))) s)"

end
