(* ===== verification/Arrays.thy ===== *)
theory Arrays
  imports Dynamic
begin

text \<open>
  Reading many records: \<open>c_orm_hydrate_all\<close>, \<open>c_orm_find_all\<close>, \<open>c_orm_find_all_paginated\<close>,
  \<open>c_orm_find_all_generic\<close> and the iterator of \<open>src/c_orm_api.c\<close>. An array is the pointer, the length and
  the capacity that the caller keeps; the block behind the pointer is the list of its structs. The loops over the
  rows of a result are bounded by an argument, since a driver may deliver rows for ever; running out of it is
  \<open>Stuck\<close>.
\<close>

record generic_array =
  ga_data :: "field list list option"
  ga_length :: nat
  ga_capacity :: nat

section \<open>The block of structs\<close>

type_synonym ('d, 'a) block_act = "(field list list option \<times> 'd cache_state, 'a) act"

definition on_block :: "('d cache_state, 'a) act \<Rightarrow> ('d, 'a) block_act" where
  "on_block m s = (case m (snd s) of (r, d) \<Rightarrow> (r, (fst s, d)))"

definition at_slot :: "nat \<Rightarrow> ('d, 'a) row_act \<Rightarrow> ('d, 'a) block_act" where
  \<comment> \<open>an action on a struct of the block, which must be there\<close>
  "at_slot i m s =
     (case fst s of
        None \<Rightarrow> (Stuck, s)
      | Some objs \<Rightarrow>
          if i < length objs then (case m (objs ! i, snd s) of (r, (obj, d)) \<Rightarrow> (r, (Some (objs[i := obj]), d)))
          else (Stuck, s))"

definition zero_object :: "api_table \<Rightarrow> field list" where
  \<comment> \<open>\<open>memset(..., 0, struct_size)\<close>\<close>
  "zero_object m = map zero_field (columns m)"

definition grow_block :: "api_table \<Rightarrow> nat \<Rightarrow> ('d, unit) block_act" where
  \<comment> \<open>\<open>C_ORM_REALLOC\<close> to a larger number of structs, the new ones zeroed\<close>
  "grow_block m new_cap s =
     (case fst s of
        None \<Rightarrow>
          (case C_ORM_MALLOC (cs_heap (snd s)) of (ok, h) \<Rightarrow>
             if ok then (Ret (), (Some (replicate new_cap (zero_object m)), (snd s)\<lparr>cs_heap := h\<rparr>))
             else (Err C_ORM_ERROR_MEMORY, (None, (snd s)\<lparr>cs_heap := h\<rparr>)))
      | Some objs \<Rightarrow>
          (case C_ORM_REALLOC (cs_heap (snd s)) of (ok, h) \<Rightarrow>
             if ok then (Ret (), (Some (objs @ replicate (new_cap - length objs) (zero_object m)), (snd s)\<lparr>cs_heap := h\<rparr>))
             else (Err C_ORM_ERROR_MEMORY, (Some objs, (snd s)\<lparr>cs_heap := h\<rparr>))))"

definition drop_block :: "('d, unit) block_act" where
  \<comment> \<open>\<open>C_ORM_FREE(data)\<close>\<close>
  "drop_block s = (Ret (), (None, (snd s)\<lparr>cs_heap := C_ORM_FREE (cs_heap (snd s))\<rparr>))"

fun free_slots :: "api_table \<Rightarrow> nat \<Rightarrow> nat \<Rightarrow> ('d, unit) block_act" where
  "free_slots m i 0 = preturn ()"
| "free_slots m i (Suc n) = pbind (at_slot i (free_object m)) (\<lambda>_. free_slots m (Suc i) n)"

section \<open>Hydrating all rows\<close>

fun hydrate_rows :: "api_config \<Rightarrow> 'd row_vtable \<Rightarrow> nat \<Rightarrow> api_table \<Rightarrow> nat \<Rightarrow> nat \<Rightarrow> nat \<Rightarrow> ('d, nat \<times> nat \<times> c_orm_error_t option) block_act" where
  \<comment> \<open>at most so many rounds; the result is the count, the capacity, and the error that ended the loop\<close>
  "hydrate_rows cfg vt q m 0 count cap = stuck"
| "hydrate_rows cfg vt q m (Suc n) count cap =
     pbind (attempt (on_block (stepped vt q))) (\<lambda>r. case r of
         Inl e \<Rightarrow> preturn (count, cap, Some e)
       | Inr has_row \<Rightarrow>
           if \<not> has_row then preturn (count, cap, None)
           else
             (let new_cap = (if cap \<le> count then (if cap = 0 then 16 else cap * 2) else cap) in
              pbind (attempt (if cap \<le> count then grow_block m new_cap else preturn ())) (\<lambda>g. case g of
                  Inl e \<Rightarrow> preturn (count, cap, Some e)
                | Inr _ \<Rightarrow>
                    pbind (attempt (at_slot count (c_orm_hydrate_row cfg vt q m))) (\<lambda>h. case h of
                        Inr _ \<Rightarrow> hydrate_rows cfg vt q m n (Suc count) new_cap
                      | Inl e \<Rightarrow>
                          if e = C_ORM_ERROR_EXPIRED then hydrate_rows cfg vt q m n count new_cap
                          else preturn (count, new_cap, Some e)))))"

definition c_orm_hydrate_all :: "api_config \<Rightarrow> 'd row_vtable \<Rightarrow> nat \<Rightarrow> nat \<Rightarrow> api_table \<Rightarrow> (generic_array \<times> 'd cache_state, unit) act" where
  \<comment> \<open>an error frees the block and clears the pointer, but keeps the length and the capacity\<close>
  "c_orm_hydrate_all cfg vt fuel q m s =
     (let arr = fst s in
      case hydrate_rows cfg vt q m fuel 0 (ga_capacity arr) (ga_data arr, snd s) of
        (Ret (count, cap, None), (data, d)) \<Rightarrow> (Ret (), (\<lparr>ga_data = data, ga_length = count, ga_capacity = cap\<rparr>, d))
      | (Ret (count, cap, Some e), (data, d)) \<Rightarrow>
          if data = None then (Err e, (arr, d))
          else (case pbind (free_slots m 0 (min (Suc count) cap)) (\<lambda>_. drop_block) (data, d) of
                  (Ret _, (_, d')) \<Rightarrow> (Err e, (arr\<lparr>ga_data := None\<rparr>, d'))
                | (_, (_, d')) \<Rightarrow> (Stuck, (arr, d')))
      | (_, (_, d)) \<Rightarrow> (Stuck, (arr, d)))"

definition on_array :: "('d cache_state, 'a) act \<Rightarrow> (generic_array \<times> 'd cache_state, 'a) act" where
  "on_array m s = (case m (snd s) of (r, d) \<Rightarrow> (r, (fst s, d)))"

definition find_all_with :: "api_config \<Rightarrow> 'd row_vtable \<Rightarrow> nat \<Rightarrow> api_table \<Rightarrow> cptr \<Rightarrow> (generic_array \<times> 'd cache_state, unit) act" where
  \<comment> \<open>when a row cannot be read, the function returns without giving the statement back\<close>
  "find_all_with cfg vt fuel m sql =
     pbind (on_array (prepared vt sql)) (\<lambda>q.
     pbind (c_orm_hydrate_all cfg vt fuel q m) (\<lambda>_. on_array (given_back vt q)))"

definition c_orm_find_all :: "api_config \<Rightarrow> 'd row_vtable \<Rightarrow> nat \<Rightarrow> api_table \<Rightarrow> (generic_array \<times> 'd cache_state, unit) act" where
  "c_orm_find_all cfg vt fuel m = find_all_with cfg vt fuel m (query_select_all m)"

definition c_orm_find_all_paginated :: "api_config \<Rightarrow> 'd row_vtable \<Rightarrow> nat \<Rightarrow> api_table \<Rightarrow> 64 word \<Rightarrow> 64 word \<Rightarrow> (generic_array \<times> 'd cache_state, unit) act" where
  \<comment> \<open>the casts to \<open>unsigned int\<close> keep 32 bits\<close>
  "c_orm_find_all_paginated cfg vt fuel m limit offset =
     (case tbl_name m of None \<Rightarrow> stuck
      | Some n \<Rightarrow> find_all_with cfg vt fuel m (Some (C_ORM_SPRINTF 256 (''SELECT * FROM '' @ n @ '' LIMIT '' @ decimal (unat (ucast limit :: 32 word))
          @ '' OFFSET '' @ decimal (unat (ucast offset :: 32 word))))))"

section \<open>The iterator\<close>

record c_orm_iterator =
  it_query :: nat
  it_chunk_size :: nat

definition c_orm_find_batch_init :: "'d row_vtable \<Rightarrow> api_table \<Rightarrow> cptr \<Rightarrow> nat \<Rightarrow> ('d, c_orm_iterator) cached" where
  "c_orm_find_batch_init vt m sql chunk_size =
     (if chunk_size = 0 then perr C_ORM_ERROR_MEMORY
      else pbind (on_heap malloc) (\<lambda>ok.
        if \<not> ok then perr C_ORM_ERROR_MEMORY
        else pbind (attempt (driver_prepare vt (if sql = None then query_select_all m else sql))) (\<lambda>r.
          case r of
            Inl e \<Rightarrow> pbind (on_heap free_block) (\<lambda>_. perr e)
          | Inr q \<Rightarrow> preturn \<lparr>it_query = q, it_chunk_size = chunk_size\<rparr>)))"

fun iterate :: "api_config \<Rightarrow> 'd row_vtable \<Rightarrow> nat \<Rightarrow> api_table \<Rightarrow> nat \<Rightarrow> nat \<Rightarrow> nat \<Rightarrow> ('d, nat) block_act" where
  \<comment> \<open>the loop; an expired row leaves its slot to the next one\<close>
  "iterate cfg vt q m 0 count chunk = stuck"
| "iterate cfg vt q m (Suc n) count chunk =
     (if chunk \<le> count then preturn count
      else pbind (on_block (stepped vt q)) (\<lambda>has_row.
        if \<not> has_row then preturn count
        else pbind (at_slot count (\<lambda>s. (Ret (), (zero_object m, snd s)))) (\<lambda>_.
          pbind (attempt (at_slot count (c_orm_hydrate_row cfg vt q m))) (\<lambda>h. case h of
              Inr _ \<Rightarrow> iterate cfg vt q m n (Suc count) chunk
            | Inl e \<Rightarrow> if e = C_ORM_ERROR_EXPIRED then iterate cfg vt q m n count chunk else perr e))))"

definition c_orm_iterator_next :: "api_config \<Rightarrow> 'd row_vtable \<Rightarrow> nat \<Rightarrow> c_orm_iterator \<Rightarrow> api_table \<Rightarrow> ('d, nat) block_act" where
  \<comment> \<open>into the caller's array; the result is \<open>*out_num_fetched\<close>\<close>
  "c_orm_iterator_next cfg vt fuel it m = iterate cfg vt (it_query it) m fuel 0 (it_chunk_size it)"

definition c_orm_iterator_close :: "'d row_vtable \<Rightarrow> c_orm_iterator \<Rightarrow> ('d, unit) cached" where
  "c_orm_iterator_close vt it =
     pbind (attempt (driver_finalize vt (it_query it))) (\<lambda>r.
     pbind (on_heap free_block) (\<lambda>_. case r of Inl e \<Rightarrow> perr e | Inr _ \<Rightarrow> preturn ()))"

section \<open>Generic find\<close>

fun generic_rows :: "api_config \<Rightarrow> 'd row_vtable \<Rightarrow> nat \<Rightarrow> api_table \<Rightarrow> nat \<Rightarrow> nat \<Rightarrow> nat \<Rightarrow> ('d, nat \<times> c_orm_error_t option) block_act" where
  "generic_rows cfg vt q m 0 count cap = stuck"
| "generic_rows cfg vt q m (Suc n) count cap =
     pbind (attempt (on_block (stepped vt q))) (\<lambda>r. case r of
         Inl e \<Rightarrow> preturn (count, Some e)
       | Inr has_row \<Rightarrow>
           if \<not> has_row then preturn (count, None)
           else
             (let new_cap = (if cap \<le> count then cap * 2 else cap) in
              pbind (attempt (if cap \<le> count then grow_block m new_cap else preturn ())) (\<lambda>g. case g of
                  Inl e \<Rightarrow> preturn (count, Some e)
                | Inr _ \<Rightarrow>
                    pbind (at_slot count (\<lambda>s. (Ret (), (zero_object m, snd s)))) (\<lambda>_.
                    pbind (attempt (at_slot count (c_orm_hydrate_row cfg vt q m))) (\<lambda>h. case h of
                        Inr _ \<Rightarrow> generic_rows cfg vt q m n (Suc count) new_cap
                      | Inl e \<Rightarrow>
                          if e = C_ORM_ERROR_EXPIRED then generic_rows cfg vt q m n count new_cap
                          else preturn (count, Some e))))))"

definition c_orm_find_all_generic :: "api_config \<Rightarrow> 'd row_vtable \<Rightarrow> nat \<Rightarrow> api_table \<Rightarrow> ('d, field list list option \<times> nat) cached" where
  \<comment> \<open>\<open>*out_array\<close> and \<open>*out_count\<close>; an error frees the block of structs, but not what the structs own\<close>
  "c_orm_find_all_generic cfg vt fuel m =
     pbind (build_and [Some ''SELECT * FROM '', tbl_name m] (driver_prepare vt)) (\<lambda>q d.
       case grow_block m 16 (None, d) of
         (Ret _, b) \<Rightarrow>
           (case generic_rows cfg vt q m fuel 0 16 b of
              (Ret (count, None), (data, d')) \<Rightarrow> pbind (driver_finalize vt q) (\<lambda>_. preturn (data, count)) d'
            | (Ret (count, Some e), b') \<Rightarrow>
                (case drop_block b' of (_, (_, d')) \<Rightarrow> pbind (driver_finalize vt q) (\<lambda>_. perr e) d')
            | (_, (_, d')) \<Rightarrow> (Stuck, d'))
       | (Err e, (_, d')) \<Rightarrow> pbind (driver_finalize vt q) (\<lambda>_. perr e) d'
       | (Stuck, (_, d')) \<Rightarrow> (Stuck, d'))"

end
