(* ===== verification/RowFrame.thy ===== *)
theory RowFrame
  imports Batch Arrays
begin

text \<open>
  What the actions in the course of a statement leave alone: binding, stepping and reading change the driver only as
  its row functions do, and nothing of the statement cache. \<open>framed_rows\<close> is the interface: a relation on the driver
  that every row function respects.
\<close>

lemma using_query_attempt:
  "using_query prep fin body = pbind prep (\<lambda>q. pbind (attempt (body q)) (\<lambda>r.
     case r of Inr a \<Rightarrow> pbind (fin q) (\<lambda>_. preturn a) | Inl e \<Rightarrow> pbind (fin q) (\<lambda>_. perr e)))"
  "using_query_ignoring prep fin body = pbind prep (\<lambda>q. pbind (attempt (body q)) (\<lambda>r.
     case r of Inr a \<Rightarrow> pbind (fin q) (\<lambda>_. preturn a) | Inl e \<Rightarrow> pbind (attempt (fin q)) (\<lambda>_. perr e)))"
  by (rule ext; auto simp: using_query_def using_query_ignoring_def pbind_def attempt_def split: prod.splits outcome.splits)+

named_theorems framing \<open>actions in the course of a statement\<close>

definition frames :: "('d \<Rightarrow> 'd \<Rightarrow> bool) \<Rightarrow> ('d, 'a) act \<Rightarrow> bool" where
  "frames R m \<longleftrightarrow> (\<forall>d r d'. m d = (r, d') \<longrightarrow> r \<noteq> Stuck \<longrightarrow> R d d')"

locale framed_rows =
  fixes vt :: "'d row_vtable" and frame :: "'d \<Rightarrow> 'd \<Rightarrow> bool"
  assumes frame_refl: "frame d d"
    and frame_trans: "frame d e \<Longrightarrow> frame e f \<Longrightarrow> frame d f"
    and frame_bind_int32: "frames frame (rv_bind_int32 vt q i w32)"
    and frame_bind_int64: "frames frame (rv_bind_int64 vt q i w64)"
    and frame_bind_double: "frames frame (rv_bind_double vt q i w64)"
    and frame_bind_string: "frames frame (rv_bind_string vt q i p)"
    and frame_bind_blob: "frames frame (rv_bind_blob vt q i bs)"
    and frame_bind_null: "frames frame (rv_bind_null vt q i)"
    and frame_step: "frames frame (rv_step vt q)"
    and frame_get_int32: "frames frame (rv_get_int32 vt q i)"
    and frame_get_int64: "frames frame (rv_get_int64 vt q i)"
    and frame_get_double: "frames frame (rv_get_double vt q i)"
    and frame_get_string: "frames frame (rv_get_string vt q i)"
    and frame_get_blob: "frames frame (rv_get_blob vt q i)"
    and frame_is_null: "frames frame (rv_is_null vt q i)"
    and frame_column_count: "rv_get_column_count vt = Some count \<Longrightarrow> frames frame (count q)"
    and frame_column_name: "rv_get_column_name vt = Some get_name \<Longrightarrow> frames frame (get_name q i)"
begin

definition moved :: "'d cache_state \<Rightarrow> 'd cache_state \<Rightarrow> bool" where
  "moved s t \<longleftrightarrow> frame (cs_driver s) (cs_driver t) \<and>
     cs_cache t = cs_cache s \<and> cs_entries t = cs_entries s \<and> cs_fresh t = cs_fresh s"

definition framed :: "('s \<Rightarrow> 'd cache_state) \<Rightarrow> ('s, 'a) act \<Rightarrow> bool" where
  \<comment> \<open>\<open>db\<close> finds the connection in the state\<close>
  "framed db m \<longleftrightarrow> (\<forall>s r t. m s = (r, t) \<longrightarrow> r \<noteq> Stuck \<longrightarrow> moved (db s) (db t))"

lemma moved_refl: "moved s s"
  by (simp add: moved_def frame_refl)

lemma moved_trans: "moved s t \<Longrightarrow> moved t u \<Longrightarrow> moved s u"
  by (auto simp: moved_def intro: frame_trans)

lemma moved_heap: "moved s (s\<lparr>cs_heap := h\<rparr>)"
  by (simp add: moved_def frame_refl)

lemma framedD: "framed db m \<Longrightarrow> m s = (r, t) \<Longrightarrow> r \<noteq> Stuck \<Longrightarrow> moved (db s) (db t)"
  by (simp add: framed_def)

lemma framed_pure: "(\<And>s. db (snd (m s)) = db s) \<Longrightarrow> framed db m"
  unfolding framed_def by (metis moved_refl snd_conv)


section \<open>Combinators\<close>

lemma framed_return [framing]: "framed db (preturn a)" "framed db (perr e)" "framed db stuck"
  by (simp_all add: framed_pure preturn_def perr_def stuck_def)

lemma framed_bind [framing]:
  assumes "framed db m" and "\<And>a. framed db (k a)"
  shows "framed db (pbind m k)"
  unfolding framed_def
proof (intro allI impI)
  fix s r u assume u: "pbind m k s = (r, u)" "r \<noteq> Stuck"
  obtain r1 t where t: "m s = (r1, t)" by (cases "m s")
  show "moved (db s) (db u)"
  proof (cases r1)
    case (Ret a)
    with t u have "k a t = (r, u)" by (simp add: pbind_def)
    from moved_trans [OF framedD [OF assms(1) t] framedD [OF assms(2) this u(2)]] show ?thesis by (simp add: Ret)
  qed (use t u framedD [OF assms(1) t] in \<open>auto simp: pbind_def\<close>)
qed

lemma framed_attempt [framing]: "framed db m \<Longrightarrow> framed db (attempt m)"
  unfolding framed_def attempt_def by (fastforce split: prod.splits outcome.splits)

lemma framed_cond [framing]: "framed db m \<Longrightarrow> framed db n \<Longrightarrow> framed db (if b then m else n)"
  by simp

lemma framed_option [framing]: "framed db m \<Longrightarrow> (\<And>x. framed db (f x)) \<Longrightarrow> framed db (case p of None \<Rightarrow> m | Some x \<Rightarrow> f x)"
  by (cases p) simp_all

lemma framed_sum [framing]: "(\<And>x. framed db (f x)) \<Longrightarrow> (\<And>y. framed db (g y)) \<Longrightarrow> framed db (case r of Inl x \<Rightarrow> f x | Inr y \<Rightarrow> g y)"
  by (cases r) simp_all

lemma framed_prod [framing]: "(\<And>x y. framed db (f x y)) \<Longrightarrow> framed db (case p of (x, y) \<Rightarrow> f x y)"
  by (cases p) simp

lemma framed_list [framing]: "framed db m \<Longrightarrow> (\<And>x xs. framed db (f x xs)) \<Longrightarrow> framed db (case p of [] \<Rightarrow> m | x # xs \<Rightarrow> f x xs)"
  by (cases p) simp_all

lemma framed_drive [framing]: "frames frame m \<Longrightarrow> framed (\<lambda>s. s) (drive m)"
  unfolding framed_def frames_def drive_def moved_def by (auto split: prod.splits)

lemma framed_on_heap [framing]: "framed (\<lambda>s. s) (on_heap m)"
  unfolding framed_def on_heap_def by (auto simp: moved_heap split: prod.splits)

lemma framed_on_db [framing]: "framed (\<lambda>s. s) m \<Longrightarrow> framed snd (on_db m)"
  unfolding framed_def on_db_def by (fastforce split: prod.splits)

lemma framed_field [framing]: "framed snd (get_field i)" "framed snd (set_field i f)"
  by (simp_all add: framed_pure get_field_def set_field_def)

lemmas framed_calls [framing] =
  frame_bind_int32 frame_bind_int64 frame_bind_double frame_bind_string frame_bind_blob frame_bind_null frame_step
  frame_get_int32 frame_get_int64 frame_get_double frame_get_string frame_get_blob frame_is_null


subsection \<open>Binding and hydrating\<close>

lemma framed_fail_after [framing]: "framed db m \<Longrightarrow> framed db clean \<Longrightarrow> framed (db :: _ \<Rightarrow> 'd cache_state) (fail_after m clean)"
proof -
  assume m: "framed db m" "framed db clean"
  have "fail_after m clean = pbind (attempt m) (\<lambda>r. case r of Inl e \<Rightarrow> pbind clean (\<lambda>_. perr e) | Inr a \<Rightarrow> preturn a)"
    by (rule ext) (auto simp: fail_after_def pbind_def attempt_def preturn_def split: prod.splits outcome.splits)
  then show ?thesis by (simp add: framing m)
qed

lemma framed_free_object [framing]: "framed snd (free_object m)"
proof -
  have "framed (\<lambda>s. s) (on_heap (c_orm_free_columns (columns m) fs))" for fs by (rule framing)
  then show ?thesis unfolding framed_def triple_def free_object_def by (fastforce split: prod.splits outcome.splits)
qed

lemma framed_column_type: "(\<And>ty. framed db (f ty)) \<Longrightarrow> framed db (f (col_type col))"
  by simp

lemma framed_bind_primitive [framing]: "framed snd (bind_primitive cfg vt q col i f)"
  by (cases "col_type col"; cases f) (auto simp: bind_primitive_def intro!: framing split: outcome.splits)

lemma framed_bind_encrypted [framing]: "framed snd (bind_encrypted vt q h bs i)"
  by (auto simp: bind_encrypted_def intro!: framing)

lemma framed_bind_text [framing]: "framed snd (bind_text cfg vt q col i t)"
  by (cases "is_secure col"; cases "encrypt_hook cfg") (auto simp: bind_text_def intro!: framing)

lemma framed_fresh_key [framing]: "framed snd (fresh_key cfg col i p)"
  by (auto simp: fresh_key_def intro!: framing)

lemma framed_bind_column [framing]: "framed snd (bind_column cfg vt q col k i)"
  unfolding bind_column_def
proof (rule framed_bind [OF framed_field(1)])
  fix f
  show "framed snd (if is_text_type (col_type col) then
         (case f of F_text p \<Rightarrow> pbind (fresh_key cfg col k p) (\<lambda>p. case p of
                  None \<Rightarrow> on_db (drive (rv_bind_null vt q i)) | Some s \<Rightarrow> bind_text cfg vt q col i s) | _ \<Rightarrow> stuck)
       else if col_type col = C_ORM_TYPE_BLOB then
         (case f of
            F_blob p \<Rightarrow>
              (case p of
                 None \<Rightarrow> on_db (drive (rv_bind_null vt q i))
               | Some bs \<Rightarrow>
                   if bs = [] then on_db (drive (rv_bind_null vt q i))
                   else (case (is_secure col, encrypt_hook cfg) of
                           (True, Some h) \<Rightarrow> bind_encrypted vt q h bs i
                         | _ \<Rightarrow> on_db (drive (rv_bind_blob vt q i bs))))
          | _ \<Rightarrow> stuck)
       else if is_nullable col then
         (case f of
            F_ref (Some v) \<Rightarrow> bind_primitive cfg vt q col i v
          | _ \<Rightarrow> if pointer_in f = Some False then on_db (drive (rv_bind_null vt q i)) else stuck)
       else bind_primitive cfg vt q col i f)"
    by (cases f; cases "is_secure col"; cases "encrypt_hook cfg") (auto intro!: framing split: option.splits)
qed

lemma framed_bind_row [framing]: "framed snd (bind_row cfg vt q cols k i)"
  by (induction cols arbitrary: k i) (auto intro!: framing)

lemma framed_put [framing]:
  "framed snd (put_new k f)" "framed snd (put_primitive col k f)" "framed snd (put_text k t)" "framed snd (put_blob k bs)"
  by (auto simp: put_new_def put_primitive_def put_text_def put_blob_def db_malloc_def intro!: framing)

lemma framed_decrypted [framing]:
  assumes "\<And>plain. framed snd (put plain)"
  shows "framed snd (decrypted h bs put)"
proof (cases "h bs")
  case (Inr plain)
  have "decrypted h bs put = pbind (on_db (on_heap hook_block)) (\<lambda>_. pbind (attempt (put plain)) (\<lambda>r.
     pbind (on_db (on_heap free_block)) (\<lambda>_. case r of Inl e \<Rightarrow> perr e | Inr u \<Rightarrow> preturn u)))"
    by (rule ext) (auto simp: decrypted_def Inr pbind_def attempt_def preturn_def perr_def split: prod.splits outcome.splits)
  then show ?thesis by (auto intro!: framing assms)
qed (auto simp: decrypted_def intro!: framing)

lemma framed_hydrate_text [framing]: "framed snd (hydrate_text cfg col k t)"
  by (cases "is_secure col"; cases "decrypt_hook cfg") (auto simp: hydrate_text_def intro!: framing)

lemma framed_hydrate_blob [framing]: "framed snd (hydrate_blob cfg col k v)"
  by (cases "is_secure col"; cases "decrypt_hook cfg") (auto simp: hydrate_blob_def intro!: framing)

lemma framed_hydrate_spatial [framing]: "framed snd (hydrate_point k v)" "framed snd (hydrate_polygon k v)"
  by (auto simp: hydrate_point_def hydrate_polygon_def Let_def db_malloc_def intro!: framing split: outcome.splits)

lemma framed_hydrate_value [framing]: "framed snd (hydrate_value cfg vt q col k i)"
  by (cases "col_type col") (auto simp: hydrate_value_def intro!: framing)

lemma framed_hydrate_column [framing]: "framed snd (hydrate_column cfg vt q col k i)"
  by (auto simp: hydrate_column_def release_field_def intro!: framing)

lemma framed_hydrate_columns [framing]: "framed snd (hydrate_columns cfg vt q cols k i)"
  by (induction cols arbitrary: k i) (auto intro!: framing)

lemma framed_check_expiry [framing]: "framed snd (check_expiry cfg m)"
proof -
  have "snd (check_expiry cfg m s) = s" for s :: "field list \<times> 'd cache_state"
    by (auto simp: check_expiry_def preturn_def pbind_def get_field_def stuck_def perr_def Let_def
        split: option.splits prod.splits field.splits)
  then show ?thesis by (simp add: framed_pure)
qed

lemma framed_column_names [framing]:
  "rv_get_column_name vt = Some get_name \<Longrightarrow> framed snd (column_names get_name q i n)"
  by (induction n arbitrary: i) (auto intro!: framing frame_column_name)

lemma framed_hydrate_row [framing]: "framed snd (c_orm_hydrate_row cfg vt q m)"
  by (cases "rv_get_column_count vt"; cases "rv_get_column_name vt")
    (auto simp: c_orm_hydrate_row_def c_orm_hydrate_row_from_def intro!: framing frame_column_count)

lemma framed_stepped [framing]: "framed (\<lambda>s. s) (stepped vt q)"
  by (simp add: stepped_def framing)

lemma framed_fetch_one [framing]: "framed snd (fetch_one cfg vt m q)"
  by (auto simp: fetch_one_def intro!: framing)

lemma framed_bind_keys [framing]: "framed (\<lambda>s. s) (bind_keys vt q i keys)"
proof (induction keys arbitrary: i)
  case (Cons v keys)
  then show ?case by (cases v) (auto simp: bind_key_def intro!: framing)
qed (simp add: framing)

lemma framed_bind_pk [framing]: "framed snd other \<Longrightarrow> framed snd (bind_pk vt q col k i other)"
  unfolding bind_pk_def
proof (rule framed_bind [OF framed_field(1)])
  fix f assume "framed snd other"
  then show "framed snd (case (col_type col, f) of
         (C_ORM_TYPE_INT32, F_int32 v) \<Rightarrow> on_db (drive (rv_bind_int32 vt q i v))
       | (C_ORM_TYPE_INT64, F_int64 v) \<Rightarrow> on_db (drive (rv_bind_int64 vt q i v))
       | (C_ORM_TYPE_STRING, F_text s) \<Rightarrow> on_db (drive (rv_bind_string vt q i s))
       | (ty, _) \<Rightarrow> if ty \<in> {C_ORM_TYPE_INT32, C_ORM_TYPE_INT64, C_ORM_TYPE_STRING} then stuck else other)"
    by (cases "col_type col"; cases f) (auto intro!: framing)
qed

lemma framed_bind_pks [framing]: "framed snd other \<Longrightarrow> framed snd (bind_pks vt q cols k i other)"
  by (induction cols arbitrary: k i) (auto intro!: framing)



lemma framed_composite_row [framing]: "framed snd (bind_composite_row cfg vt q cols k i)"
proof (induction cols arbitrary: k i)
  case (Cons col cols)
  have "framed snd (bind_composite_column cfg vt q col k i)"
    unfolding bind_composite_column_def
  proof (rule framed_bind [OF framed_field(1)], goal_cases)
    case (1 f)
    show ?case by (cases "col_type col"; cases f) (auto intro!: framing split: option.splits)
  qed
  with Cons show ?case by (auto intro!: framing)
qed (simp add: framing)

lemma framed_update_keys [framing]: "framed (\<lambda>s. s) (bind_update_keys vt q i keys)"
proof (induction keys arbitrary: i)
  case (Cons v keys)
  then show ?case by (cases v) (auto simp: bind_update_key_def intro!: framing)
qed (simp add: framing)

lemma framed_partial_column [framing]: "framed snd (bind_partial_column vt q col k i e)"
  unfolding bind_partial_column_def
proof (rule framed_bind [OF framed_field(1)], goal_cases)
  case (1 f)
  show ?case by (cases "col_type col"; cases f) (auto intro!: framing)
qed

lemma framed_bind_fields [framing]: "framed snd (bind_fields vt q m fs i)"
  by (induction fs arbitrary: i) (auto intro!: framing)

end

end
