(* ===== verification/RecordKeep.thy ===== *)
theory RecordKeep
  imports RowFrame RowMemory
begin

text \<open>
  Every statement that an operation on records prepares is given back, on every path: the interface \<open>reliable_rows\<close>
  of a driver that keeps account of its statements, what follows for \<open>using_query\<close> and the operations built from
  it, and the interpretation on the memory driver.
\<close>

named_theorems saving \<open>the operations that give back all statements\<close>

section \<open>The interface\<close>

text \<open>A driver that keeps account of its statements, and whose row functions open and close none.\<close>

locale reliable_rows = reliable_driver "rv_statements vt" good alive + framed_rows vt "\<lambda>d d'. good d \<longrightarrow> good d' \<and> alive d' = alive d"
  for vt :: "'d row_vtable" and good :: "'d \<Rightarrow> bool" and alive :: "'d \<Rightarrow> nat set"
begin

definition stable :: "('d lru_state \<Rightarrow> bool) \<Rightarrow> bool" where
  \<comment> \<open>what only depends on the statements\<close>
  "stable P \<longleftrightarrow> (\<forall>a. P a \<longrightarrow> good (lr_driver a)) \<and>
     (\<forall>a d h. P a \<longrightarrow> good d \<longrightarrow> alive d = alive (lr_driver a) \<longrightarrow> P (a\<lparr>lr_driver := d, lr_heap := h\<rparr>))"

definition within :: "('d lru_state \<Rightarrow> bool) \<Rightarrow> 'd cache_state \<Rightarrow> bool" where
  "within P s \<longleftrightarrow> (\<exists>a. represents s a \<and> P a)"

definition safe :: "('s \<Rightarrow> 'd cache_state) \<Rightarrow> ('s, 'a) act \<Rightarrow> bool" where
  \<comment> \<open>the user has the same statements afterwards\<close>
  "safe db m \<longleftrightarrow>
     (\<forall>H. triple True (\<lambda>s. within (complete H) (db s)) m (\<lambda>_ s. within (complete H) (db s)) (\<lambda>s. within (complete H) (db s)))"

lemma stable_complete: "stable (complete H)"
  by (auto simp: stable_def complete_def sound_def)

lemma within_update:
  assumes "stable P" and "within P s" and "good d" and "alive d = alive (cs_driver s)"
  shows "within P (s\<lparr>cs_driver := d, cs_heap := h\<rparr>)"
proof -
  obtain a where a: "represents s a" "P a" using assms(2) by (auto simp: within_def)
  have "cs_driver s = lr_driver a" using a(1) by (simp add: represents_def)
  with a assms have "P (a\<lparr>lr_driver := d, lr_heap := h\<rparr>)" by (auto simp: stable_def)
  moreover have "represents (s\<lparr>cs_driver := d, cs_heap := h\<rparr>) (a\<lparr>lr_driver := d, lr_heap := h\<rparr>)"
    using a(1) by (auto simp: represents_def holds_def split: lru.splits)
  ultimately show ?thesis by (auto simp: within_def)
qed

lemma within_good: "stable P \<Longrightarrow> within P s \<Longrightarrow> good (cs_driver s)"
  by (auto simp: stable_def within_def represents_def)


lemma t_keeps:
  assumes "framed db m" and "stable P"
  shows "triple True (\<lambda>s. within P (db s)) m (\<lambda>_ s. within P (db s)) (\<lambda>s. within P (db s))"
proof -
  have "within P (db t)" if "within P (db s)" "m s = (r, t)" "r \<noteq> Stuck" for s r t
  proof -
    let ?s = "db s" and ?t = "db t"
    have m: "moved ?s ?t" using framedD [OF assms(1) that(2,3)] .
    then have "?s\<lparr>cs_driver := cs_driver ?t, cs_heap := cs_heap ?t\<rparr> = ?t" by (simp add: moved_def)
    moreover have "good (cs_driver ?t)" "alive (cs_driver ?t) = alive (cs_driver ?s)"
      using m within_good [OF assms(2) that(1)] by (auto simp: moved_def)
    ultimately show ?thesis using within_update [OF assms(2) that(1), of "cs_driver ?t" "cs_heap ?t"] by simp
  qed
  then show ?thesis by (auto simp: triple_def split: prod.splits outcome.splits)
qed

lemma framed_safe: "framed db m \<Longrightarrow> safe db m"
  by (simp add: safe_def t_keeps [OF _ stable_complete])

subsection \<open>Whole operations\<close>

lemma finalize_held:
  assumes c: "complete (insert q H) a" and r: "l_finalize (rv_statements vt) q a = (r, b)" "r \<noteq> Stuck"
  shows "r = Ret ()"
proof -
  have "good (lr_driver a)" "q \<in> alive (lr_driver a)" using c by (auto simp: complete_def sound_def)
  then obtain d where "vt_finalize (rv_statements vt) q (lr_driver a) = (Ret (), d)" using finalize_ok by blast
  then show ?thesis
    using r by (auto simp: l_finalize_def l_drive_def l_set_def split: lru.splits option.splits prod.splits)
qed

lemma t_prepared:
  "triple True (within (complete H)) (prepared vt sql) (\<lambda>q s. q \<notin> H \<and> within (complete (insert q H)) s) (within (complete H))"
proof (cases sql)
  case None
  then show ?thesis by (simp add: prepared_def c_orm_prepare_cached_def triple_def)
next
  case (Some t)
  show ?thesis unfolding triple_def
  proof (intro allI impI)
    fix s assume "within (complete H) s"
    then obtain a where a: "represents s a" "complete H a" by (auto simp: within_def)
    obtain r u where r: "prepared vt sql s = (r, u)" by (cases "prepared vt sql s")
    obtain r' b where l: "l_prepare (rv_statements vt) t a = (r', b)" by (cases "l_prepare (rv_statements vt) t a")
    have f: "r = r'" "r \<noteq> Stuck \<Longrightarrow> represents u b"
      using prepare_follows [OF a(1), of "rv_statements vt" t] r l by (simp_all add: follows_def prepared_def Some)
    have "case r of Ret q \<Rightarrow> q \<notin> H \<and> complete (insert q H) b | _ \<Rightarrow> complete H b" if "r \<noteq> Stuck"
      using complete_prepare [OF a(2) l] sound_prepare [OF _ l, of H] a(2) that f(1) by (cases r) (auto simp: complete_def)
    with f(2) r show "case prepared vt sql s of (Ret q, u) \<Rightarrow> q \<notin> H \<and> within (complete (insert q H)) u
        | (Err e, u) \<Rightarrow> within (complete H) u | (Stuck, u) \<Rightarrow> True"
      by (cases r) (auto simp: within_def)
  qed
qed

lemma t_given_back:
  assumes "q \<notin> H"
  shows "triple True (within (complete (insert q H))) (given_back vt q) (\<lambda>_. within (complete H)) (within (complete H))"
  unfolding triple_def
proof (intro allI impI)
  fix s assume "within (complete (insert q H)) s"
  then obtain a where a: "represents s a" "complete (insert q H) a" by (auto simp: within_def)
  obtain r u where r: "given_back vt q s = (r, u)" by (cases "given_back vt q s")
  obtain r' b where l: "l_finalize (rv_statements vt) q a = (r', b)" by (cases "l_finalize (rv_statements vt) q a")
  have f: "r = r'" "r \<noteq> Stuck \<Longrightarrow> represents u b"
    using finalize_follows [OF a(1), of "rv_statements vt" q] r l by (simp_all add: follows_def given_back_def)
  have "r = Ret () \<and> complete H b" if "r \<noteq> Stuck"
  proof -
    have r': "r' \<noteq> Stuck" using that f(1) by simp
    note ret = finalize_held [OF a(2) l r']
    from complete_finalize [OF a(2) l r'] have "complete (insert q H - {q}) b" by (simp only: ret outcome.case)
    moreover have "insert q H - {q} = H" using assms by blast
    ultimately show ?thesis using ret f(1) by simp
  qed
  then have "r = Stuck \<or> r = Ret () \<and> within (complete H) u" using f(2) unfolding within_def by blast
  then show "case given_back vt q s of (Ret x, u) \<Rightarrow> within (complete H) u | (Err e, u) \<Rightarrow> within (complete H) u | (Stuck, u) \<Rightarrow> True"
    unfolding r by (elim disjE conjE) simp_all
qed

lemma t_attempt: "triple U P m (\<lambda>_. Q) Q \<Longrightarrow> triple U P (attempt m) (\<lambda>_. Q) E"
  unfolding triple_def attempt_def by (fastforce split: prod.splits outcome.splits)

lemma t_using_query:
  \<comment> \<open>the frame, for any conditions on the state\<close>
  assumes prep: "triple True P prep Q P" and body: "\<And>q. triple True (Q q) (body q) (\<lambda>_. Q q) (Q q)"
    and fin: "\<And>q. triple True (Q q) (fin q) (\<lambda>_. P) P"
  shows "triple True P (using_query prep fin body) (\<lambda>_. P) P" "triple True P (using_query_ignoring prep fin body) (\<lambda>_. P) P"
proof -
  have ret: "triple True P (preturn a) (\<lambda>_. P) P" "triple True P (perr e) (\<lambda>_. P) P" for a :: 'c and e
    by (simp_all add: triple_return triple_perr)
  have k: "triple True (Q q) (case r of Inr a \<Rightarrow> pbind (fin q) (\<lambda>_. preturn a) | Inl e \<Rightarrow> pbind (fin q) (\<lambda>_. perr e)) (\<lambda>_. P) P"
    "triple True (Q q) (case r of Inr a \<Rightarrow> pbind (fin q) (\<lambda>_. preturn a) | Inl e \<Rightarrow> pbind (attempt (fin q)) (\<lambda>_. perr e)) (\<lambda>_. P) P"
    for q and r :: "c_orm_error_t + 'c"
    by (cases r; simp; rule triple_bind [OF fin ret(1)] triple_bind [OF fin ret(2)] triple_bind [OF t_attempt [OF fin] ret(2)])+
  show "triple True P (using_query prep fin body) (\<lambda>_. P) P"
    unfolding using_query_attempt by (rule triple_bind [OF prep triple_bind [OF t_attempt [OF body] k(1)]])
  show "triple True P (using_query_ignoring prep fin body) (\<lambda>_. P) P"
    unfolding using_query_attempt by (rule triple_bind [OF prep triple_bind [OF t_attempt [OF body] k(2)]])
qed


lemma safe_return [saving]: "safe db (preturn a)" "safe db (perr e)" "safe db stuck"
  by (simp_all add: framed_safe framing)

lemma safe_bind [saving]: "safe db m \<Longrightarrow> (\<And>a. safe db (k a)) \<Longrightarrow> safe db (pbind m k)"
  unfolding safe_def by (blast intro: triple_bind)

lemma safe_if [saving]: "safe db m \<Longrightarrow> safe db n \<Longrightarrow> safe db (if b then m else n)"
  by simp

lemma safe_option [saving]: "safe db m \<Longrightarrow> (\<And>x. safe db (f x)) \<Longrightarrow> safe db (case p of None \<Rightarrow> m | Some x \<Rightarrow> f x)"
  by (cases p) simp_all

lemma safe_attempt [saving]: "safe db m \<Longrightarrow> safe db (attempt m)"
  unfolding safe_def by (blast intro: t_attempt)

lemma safe_on_db [saving]: "safe (\<lambda>s. s) m \<Longrightarrow> safe snd (on_db m)"
  unfolding safe_def triple_def on_db_def by (fastforce split: prod.splits outcome.splits)

lemma t_snd:
  fixes m :: "('d, 'a) cached"
  assumes "triple True P m Q E"
  shows "triple True (\<lambda>s. P (snd s)) (on_db m) (\<lambda>a s. Q a (snd s)) (\<lambda>s. E (snd s))"
  unfolding triple_def
proof (intro allI impI)
  fix s :: "field list \<times> 'd cache_state" assume "P (snd s)"
  moreover obtain r t where r: "m (snd s) = (r, t)" by (cases "m (snd s)")
  ultimately have "case r of Ret a \<Rightarrow> Q a t | Err e \<Rightarrow> E t | Stuck \<Rightarrow> True" using triple_at [OF assms] by blast
  with r show "case on_db m s of (Ret a, t) \<Rightarrow> Q a (snd t) | (Err e, t) \<Rightarrow> E (snd t) | (Stuck, t) \<Rightarrow> True"
    by (cases r) (simp_all add: on_db_def)
qed

text \<open>A statement from the cache.\<close>

lemma safe_db_query [saving]:
  assumes "\<And>q. framed (\<lambda>s. s) (body q)"
  shows "safe (\<lambda>s. s) (db_query vt sql body)"
  unfolding safe_def db_query_def
proof
  fix H
  let ?Q = "\<lambda>q s. q \<notin> H \<and> within (complete (insert q H)) s"
  show "triple True (within (complete H)) (using_query (prepared vt sql) (given_back vt) body) (\<lambda>_. within (complete H)) (within (complete H))"
  proof (rule t_using_query(1) [OF t_prepared])
    fix q
    have "triple True (within (complete (insert q H))) (body q) (\<lambda>_. within (complete (insert q H))) (within (complete (insert q H)))"
      by (rule t_keeps [OF assms stable_complete])
    then show "triple True (?Q q) (body q) (\<lambda>_. ?Q q) (?Q q)" unfolding triple_def by (fastforce split: prod.splits outcome.splits)
    show "triple True (?Q q) (given_back vt q) (\<lambda>_. within (complete H)) (within (complete H))"
      using t_given_back [of q H] by (auto simp: triple_def)
  qed
qed

lemma safe_prepared:
  \<comment> \<open>any way to come by a statement of the cache\<close>
  assumes prep: "\<And>H. triple True (within (complete H)) prep (\<lambda>q s. q \<notin> H \<and> within (complete (insert q H)) s) (within (complete H))"
    and body: "\<And>q. framed snd (body q)"
  shows "safe snd (using_query (on_db prep) (\<lambda>q. on_db (given_back vt q)) body)"
    and "safe snd (using_query_ignoring (on_db prep) (\<lambda>q. on_db (given_back vt q)) body)"
proof -
  have frame: "triple True (\<lambda>s. within (complete H) (snd s)) (using_query (on_db prep) (\<lambda>q. on_db (given_back vt q)) body)
      (\<lambda>_ s. within (complete H) (snd s)) (\<lambda>s. within (complete H) (snd s)) \<and>
    triple True (\<lambda>s. within (complete H) (snd s)) (using_query_ignoring (on_db prep) (\<lambda>q. on_db (given_back vt q)) body)
      (\<lambda>_ s. within (complete H) (snd s)) (\<lambda>s. within (complete H) (snd s))" for H
  proof -
    let ?Q = "\<lambda>q s. q \<notin> H \<and> within (complete (insert q H)) (snd s)"
    have b: "triple True (?Q q) (body q) (\<lambda>_. ?Q q) (?Q q)" for q
    proof -
      have "triple True (\<lambda>s. within (complete (insert q H)) (snd s)) (body q) (\<lambda>_ s. within (complete (insert q H)) (snd s))
          (\<lambda>s. within (complete (insert q H)) (snd s))"
        by (rule t_keeps [OF body stable_complete])
      then show ?thesis unfolding triple_def by (fastforce split: prod.splits outcome.splits)
    qed
    have f: "triple True (?Q q) (on_db (given_back vt q)) (\<lambda>_ s. within (complete H) (snd s)) (\<lambda>s. within (complete H) (snd s))" for q
      using t_snd [OF t_given_back [of q H]] by (auto simp: triple_def)
    show ?thesis using t_using_query [OF t_snd [OF prep] b f] by blast
  qed
  then show "safe snd (using_query (on_db prep) (\<lambda>q. on_db (given_back vt q)) body)"
    "safe snd (using_query_ignoring (on_db prep) (\<lambda>q. on_db (given_back vt q)) body)" by (simp_all add: safe_def)
qed

lemma safe_row_query [saving]: "(\<And>q. framed snd (body q)) \<Longrightarrow> safe snd (row_query vt sql body)"
  unfolding row_query_def by (rule safe_prepared(1) [OF t_prepared])


subsection \<open>The operations\<close>

lemma safe_execute_raw [saving]: "safe (\<lambda>s. s) (c_orm_execute_raw vt sql)"
  by (auto simp: c_orm_execute_raw_def intro!: saving framing)

lemma safe_raw [saving]:
  "safe (\<lambda>s. s) (c_orm_transaction_begin vt)" "safe (\<lambda>s. s) (c_orm_transaction_commit vt)"
  "safe (\<lambda>s. s) (c_orm_transaction_rollback vt)" "safe (\<lambda>s. s) (c_orm_savepoint_create vt p)"
  "safe (\<lambda>s. s) (c_orm_savepoint_rollback vt p)" "safe (\<lambda>s. s) (c_orm_savepoint_release vt p)"
  "safe (\<lambda>s. s) (c_orm_delete_all vt m)"
  by (auto simp: c_orm_transaction_begin_def c_orm_transaction_commit_def c_orm_transaction_rollback_def
      c_orm_savepoint_create_def c_orm_savepoint_rollback_def c_orm_savepoint_release_def c_orm_delete_all_def intro!: saving)

lemma safe_find [saving]:
  "safe snd (c_orm_find_by_id_int32 cfg vt m w)" "safe snd (c_orm_find_by_id_string cfg vt m p)"
  "safe snd (c_orm_find_for_update_by_id_int32 cfg vt m w)" "safe snd (c_orm_find_for_update_by_id_string cfg vt m p)"
  "safe snd (c_orm_find_by_composite_key cfg vt m keys)"
  by (auto simp: c_orm_find_by_id_int32_def c_orm_find_by_id_string_def c_orm_find_for_update_by_id_int32_def
      c_orm_find_for_update_by_id_string_def c_orm_find_by_composite_key_def intro!: saving framing)

lemma safe_delete_by [saving]:
  "safe (\<lambda>s. s) (c_orm_delete_by_id_int32 vt m w)" "safe (\<lambda>s. s) (c_orm_delete_by_id_string vt m p)"
  "safe (\<lambda>s. s) (c_orm_delete_by_composite_key vt m keys)"
  by (auto simp: c_orm_delete_by_id_int32_def c_orm_delete_by_id_string_def c_orm_delete_by_composite_key_def delete_bound_def
      intro!: saving framing)

lemma safe_exists [saving]: "safe (\<lambda>s. s) (c_orm_exists_int32 vt m w)" "safe (\<lambda>s. s) (c_orm_exists_string vt m p)"
  by (auto simp: c_orm_exists_int32_def c_orm_exists_string_def exists_query_def intro!: saving framing split: option.splits)

definition safe_hooks :: "'d api_hooks \<Rightarrow> bool" where
  "safe_hooks hooks \<longleftrightarrow>
     (\<forall>h \<in> {before_save hooks, after_save hooks, before_insert hooks, after_insert hooks, before_update hooks, after_update hooks,
        before_delete hooks, after_delete hooks}. safe snd (hook h))"

lemma safe_insert [saving]: "safe_hooks hooks \<Longrightarrow> safe snd (c_orm_insert cfg vt hooks m)"
  unfolding c_orm_insert_def by (auto simp: safe_hooks_def intro!: saving framing)

lemma safe_update [saving]: "safe snd (c_orm_update cfg vt m)"
  unfolding c_orm_update_def by (auto intro!: saving framing)

lemma safe_cases:
  assumes "\<And>s. \<exists>n. m s = n s \<and> safe db n"
  shows "safe db m"
  unfolding safe_def triple_def
proof (intro allI impI)
  fix H s assume s: "within (complete H) (db s)"
  obtain n where n: "m s = n s" "safe db n" using assms by blast
  then have "triple True (\<lambda>s. within (complete H) (db s)) n (\<lambda>_ s. within (complete H) (db s)) (\<lambda>s. within (complete H) (db s))"
    unfolding safe_def by blast
  with s show "case m s of (Ret a, t) \<Rightarrow> within (complete H) (db t) | (Err e, t) \<Rightarrow> within (complete H) (db t) | (Stuck, t) \<Rightarrow> True"
    unfolding n(1) by (simp add: triple_def)
qed

lemma safe_save [saving]:
  assumes "safe_hooks hooks"
  shows "safe snd (c_orm_save cfg vt hooks m)"
proof (rule safe_cases)
  fix s
  have "c_orm_save cfg vt hooks m s =
     (if is_view m then perr C_ORM_ERROR_READ_ONLY s
      else case pk_is_set m (fst s) of Ret b \<Rightarrow> if b then c_orm_update cfg vt m s else c_orm_insert cfg vt hooks m s
        | _ \<Rightarrow> stuck s)"
    by (auto simp: c_orm_save_def stuck_def split: outcome.splits bool.splits)
  then consider "c_orm_save cfg vt hooks m s = perr C_ORM_ERROR_READ_ONLY s" | "c_orm_save cfg vt hooks m s = c_orm_update cfg vt m s"
    | "c_orm_save cfg vt hooks m s = c_orm_insert cfg vt hooks m s" | "c_orm_save cfg vt hooks m s = stuck s"
    by (cases "is_view m"; cases "pk_is_set m (fst s)") (simp_all split: if_splits)
  then show "\<exists>n. c_orm_save cfg vt hooks m s = n s \<and> safe snd n"
    using safe_insert [OF assms] safe_update safe_return by cases blast+
qed

lemma safe_delete [saving]: "safe_hooks hooks \<Longrightarrow> safe snd (c_orm_delete vt hooks m)"
  unfolding c_orm_delete_def by (auto simp: safe_hooks_def intro!: saving framing)

lemma safe_update_by_composite_key [saving]: "safe snd (c_orm_update_by_composite_key cfg vt m keys)"
  unfolding c_orm_update_by_composite_key_def by (auto intro!: saving framing safe_prepared(2) [OF t_prepared])


subsection \<open>Statements from a built text\<close>

lemma t_heap_ret:
  assumes "\<And>h. fst (clean h) = Ret ()" and "stable P"
  shows "triple True (within P) (on_heap clean) (\<lambda>_. within P) E"
  unfolding triple_def
proof (intro allI impI)
  fix s assume P: "within P s"
  obtain h where h: "clean (cs_heap s) = (Ret (), h)" using assms(1) by (metis prod.collapse)
  have "within P (s\<lparr>cs_heap := h\<rparr>)" using within_update [OF assms(2) P within_good [OF assms(2) P], of h] by simp
  with h show "case on_heap clean s of (Ret a, t) \<Rightarrow> within P t | (Err e, t) \<Rightarrow> E t | (Stuck, t) \<Rightarrow> True"
    by (simp add: on_heap_def)
qed

lemma t_and_free:
  \<comment> \<open>what is freed after a preparation, for any condition on the statement\<close>
  assumes prep: "triple True (within (complete H)) prep (\<lambda>q. within (Q q)) (within (complete H))"
    and Q: "\<And>q. stable (Q q)" and clean: "\<And>h. fst (clean h) = Ret ()"
  shows "triple True (within (complete H)) (pbind (attempt prep) (\<lambda>r. pbind (on_heap clean) (\<lambda>_. case r of Inl e \<Rightarrow> perr e | Inr q \<Rightarrow> preturn q)))
    (\<lambda>q. within (Q q)) (within (complete H))"
proof (rule triple_bind)
  let ?R = "\<lambda>r. within (case r of Inl e \<Rightarrow> complete H | Inr q \<Rightarrow> Q q)"
  show "triple True (within (complete H)) (attempt prep) ?R (within (complete H))"
    using prep unfolding triple_def attempt_def by (fastforce split: prod.splits outcome.splits)
  show "triple True (?R r) (pbind (on_heap clean) (\<lambda>_. case r of Inl e \<Rightarrow> perr e | Inr q \<Rightarrow> preturn q)) (\<lambda>q. within (Q q)) (within (complete H))" for r
  proof (cases r)
    case (Inl e)
    show ?thesis unfolding Inl sum.case
      by (rule triple_bind [OF t_heap_ret [OF clean stable_complete]]) (simp add: triple_perr)
  next
    case (Inr q)
    show ?thesis unfolding Inr sum.case
      by (rule triple_bind [OF t_heap_ret [OF clean Q]]) (simp add: triple_return)
  qed
qed

definition fresh_held :: "nat set \<Rightarrow> nat \<Rightarrow> 'd lru_state \<Rightarrow> bool" where
  "fresh_held H q a \<longleftrightarrow> q \<notin> H \<and> complete (insert q H) a"

definition apart :: "nat set \<Rightarrow> nat \<Rightarrow> 'd lru_state \<Rightarrow> bool" where
  \<comment> \<open>a statement that the cache does not know\<close>
  "apart H q a \<longleftrightarrow> fresh_held H q a \<and> q \<notin> le_query ` set (kept (lr_cache a))"

lemma stable_fresh: "stable (fresh_held H q)" "stable (apart H q)"
  using stable_complete [of "insert q H"] by (auto simp: stable_def fresh_held_def apart_def)

lemma within_fresh: "within (fresh_held H q) = (\<lambda>s. q \<notin> H \<and> within (complete (insert q H)) s)"
  by (auto simp: within_def fresh_held_def fun_eq_iff)

lemma t_build_and:
  assumes prep: "\<And>sql. triple True (within (complete H)) (prep sql) (\<lambda>q. within (Q q)) (within (complete H))"
    and Q: "\<And>q. stable (Q q)"
  shows "triple True (within (complete H)) (build_and xs prep) (\<lambda>q. within (Q q)) (within (complete H))"
  unfolding build_and_def
  by (rule triple_bind [OF t_keeps [OF framed_on_heap stable_complete]], rule triple_bind [OF t_keeps [OF framed_on_heap stable_complete]],
      rule t_and_free [OF prep Q]) (simp add: free_builder_def)

lemma t_built_cached:
  "triple True (within (complete H)) (build_and xs (prepared vt)) (\<lambda>q s. q \<notin> H \<and> within (complete (insert q H)) s) (within (complete H))"
  using t_build_and [of H "prepared vt" "fresh_held H" xs] t_prepared [of H] stable_fresh by (simp add: within_fresh)

lemma safe_update_partial [saving]: "safe snd (c_orm_update_partial vt m fs)"
proof -
  have "triple True (within (complete H)) (prepare_partial vt m fs) (\<lambda>q s. q \<notin> H \<and> within (complete (insert q H)) s) (within (complete H))" for H
  proof (cases "find is_pk (columns m)")
    case None
    have "triple True (within (complete H)) (pbind (on_heap (build_sql (partial_pieces m fs))) (\<lambda>b.
        pbind (on_heap (free_builder b)) (\<lambda>_. perr C_ORM_ERROR_UNKNOWN))) Q (within (complete H))" for Q :: "nat \<Rightarrow> 'd cache_state \<Rightarrow> bool"
      by (rule triple_bind [OF t_keeps [OF framed_on_heap stable_complete]], rule triple_bind [OF t_keeps [OF framed_on_heap stable_complete]])
        (simp add: triple_perr)
    with None show ?thesis by (simp add: prepare_partial_def)
  next
    case (Some pk)
    then show ?thesis by (simp add: prepare_partial_def t_built_cached)
  qed
  then show ?thesis
    unfolding c_orm_update_partial_def by (auto intro!: saving framing safe_prepared(1) split: option.splits)
qed

lemma safe_find_one_by_string [saving]: "safe snd (c_orm_find_one_by_string cfg vt m col value)"
proof -
  have "triple True (within (complete H)) (prepare_select_one vt m col) (\<lambda>q s. q \<notin> H \<and> within (complete (insert q H)) s) (within (complete H))" for H
    unfolding prepare_select_one_def
  proof (rule triple_bind [OF t_keeps [OF framed_on_heap stable_complete]])
    fix sql
    have "triple True (within (complete H)) (prepared vt sql) (\<lambda>q. within (fresh_held H q)) (within (complete H))"
      using t_prepared by (simp add: within_fresh)
    from t_and_free [OF this stable_fresh(1), of free_block]
    show "triple True (within (complete H)) (pbind (attempt (prepared vt sql)) (\<lambda>r. pbind (on_heap free_block) (\<lambda>_.
        case r of Inl e \<Rightarrow> perr e | Inr q \<Rightarrow> preturn q))) (\<lambda>q s. q \<notin> H \<and> within (complete (insert q H)) s) (within (complete H))"
      by (simp add: within_fresh free_block_def)
  qed
  then show ?thesis
    unfolding c_orm_find_one_by_string_def by (auto intro!: saving framing safe_prepared(1))
qed


subsection \<open>Statements past the cache\<close>

lemma represents_driver: "represents s a \<Longrightarrow> represents (s\<lparr>cs_driver := d\<rparr>) (a\<lparr>lr_driver := d\<rparr>)"
  by (auto simp: represents_def holds_def split: lru.splits)

lemma t_driver_prepare:
  "triple True (within (complete H)) (driver_prepare vt sql) (\<lambda>q. within (apart H q)) (within (complete H))"
  unfolding triple_def
proof (intro allI impI)
  fix s assume "within (complete H) s"
  then obtain a where a: "represents s a" "complete H a" by (auto simp: within_def)
  have dr: "cs_driver s = lr_driver a" using a(1) by (simp add: represents_def)
  have g: "good (lr_driver a)" using a(2) by (simp add: complete_def sound_def)
  show "case driver_prepare vt sql s of (Ret q, t) \<Rightarrow> within (apart H q) t | (Err e, t) \<Rightarrow> within (complete H) t | (Stuck, t) \<Rightarrow> True"
  proof (cases sql)
    case (Some t)
    obtain r d where r: "vt_prepare (rv_statements vt) t (lr_driver a) = (r, d)" by (cases "vt_prepare (rv_statements vt) t (lr_driver a)")
    note rep = represents_driver [OF a(1), of d]
    show ?thesis
    proof (cases r)
      case (Ret q)
      with prepare_ret [OF g, of t q d] r a(2) have "apart H q (a\<lparr>lr_driver := d\<rparr>)"
        by (auto simp: apart_def fresh_held_def complete_def sound_def)
      with rep Ret r show ?thesis by (auto simp: driver_prepare_def Some drive_def dr within_def)
    next
      case (Err e)
      with prepare_err [OF g, of t e d] r a(2) have "complete H (a\<lparr>lr_driver := d\<rparr>)" by (simp add: complete_def sound_def)
      with rep Err r show ?thesis by (auto simp: driver_prepare_def Some drive_def dr within_def)
    qed (simp add: driver_prepare_def Some drive_def dr r)
  qed (simp add: driver_prepare_def stuck_def)
qed

lemma t_driver_finalize:
  "triple True (within (apart H q)) (driver_finalize vt q) (\<lambda>_. within (complete H)) (within (complete H))"
  unfolding triple_def
proof (intro allI impI)
  fix s assume "within (apart H q) s"
  then obtain a where a: "represents s a" "apart H q a" by (auto simp: within_def)
  have dr: "cs_driver s = lr_driver a" using a(1) by (simp add: represents_def)
  have g: "good (lr_driver a)" "q \<in> alive (lr_driver a)" using a(2) by (auto simp: apart_def fresh_held_def complete_def sound_def)
  then obtain d where d: "vt_finalize (rv_statements vt) q (lr_driver a) = (Ret (), d)" using finalize_ok by blast
  with finalize_ret [OF g(1) d] a(2) have "complete H (a\<lparr>lr_driver := d\<rparr>)"
    by (auto simp: apart_def fresh_held_def complete_def sound_def)
  with represents_driver [OF a(1), of d] d show "case driver_finalize vt q s of (Ret u, t) \<Rightarrow> within (complete H) t
      | (Err e, t) \<Rightarrow> within (complete H) t | (Stuck, t) \<Rightarrow> True"
    by (auto simp: driver_finalize_def drive_def dr within_def)
qed

lemma t_apart_given_back:
  "triple True (within (apart H q)) (given_back vt q) (\<lambda>_. within (complete H)) (within (complete H))"
proof (cases "q \<in> H")
  case True
  then have "\<not> within (apart H q) s" for s by (simp add: within_def apart_def fresh_held_def)
  then show ?thesis by (simp add: triple_def)
next
  case False
  show ?thesis
    by (rule triple_weaken [OF t_given_back [OF False]]) (auto simp: within_def apart_def fresh_held_def)
qed

lemma safe_insert_generic [saving]: "safe snd (c_orm_insert_generic cfg vt m)"
proof -
  have prep: "triple True (within (complete H)) (build_and (insert_pieces m) (driver_prepare vt)) (\<lambda>q. within (apart H q)) (within (complete H))" for H
    by (rule t_build_and [OF t_driver_prepare stable_fresh(2)])
  have body: "framed snd (pbind (bind_row cfg vt q (columns m) 0 1) (\<lambda>_. pbind (on_db (attempt (stepped vt q))) (\<lambda>r.
      case r of Inr _ \<Rightarrow> preturn () | Inl e \<Rightarrow> if e = C_ORM_ERROR_NOT_FOUND then preturn () else perr e)))" for q
    by (auto intro!: framing)
  have "triple True (\<lambda>s. within (complete H) (snd s)) (using_query (on_db (build_and (insert_pieces m) (driver_prepare vt)))
      (\<lambda>q. on_db (driver_finalize vt q)) (\<lambda>q. pbind (bind_row cfg vt q (columns m) 0 1) (\<lambda>_. pbind (on_db (attempt (stepped vt q))) (\<lambda>r.
      case r of Inr _ \<Rightarrow> preturn () | Inl e \<Rightarrow> if e = C_ORM_ERROR_NOT_FOUND then preturn () else perr e))))
      (\<lambda>_ s. within (complete H) (snd s)) (\<lambda>s. within (complete H) (snd s))" for H
    by (rule t_using_query(1) [OF t_snd [OF prep] t_keeps [OF body stable_fresh(2)] t_snd [OF t_driver_finalize]])
  then have "safe snd (using_query (on_db (build_and (insert_pieces m) (driver_prepare vt)))
      (\<lambda>q. on_db (driver_finalize vt q)) (\<lambda>q. pbind (bind_row cfg vt q (columns m) 0 1) (\<lambda>_. pbind (on_db (attempt (stepped vt q))) (\<lambda>r.
      case r of Inr _ \<Rightarrow> preturn () | Inl e \<Rightarrow> if e = C_ORM_ERROR_NOT_FOUND then preturn () else perr e))))"
    by (simp add: safe_def)
  then show ?thesis by (auto simp: c_orm_insert_generic_def intro!: saving)
qed

lemma safe_get_bound [saving]:
  assumes "\<And>q. framed (\<lambda>s. s) (bind q)"
  shows "safe snd (get_bound cfg vt m bind)"
proof (cases "find is_pk (columns m)")
  case None
  then show ?thesis by (simp add: get_bound_def saving)
next
  case (Some pk)
  have prep: "triple True (within (complete H)) (build_and (select_pieces m pk) (driver_prepare vt)) (\<lambda>q. within (apart H q)) (within (complete H))" for H
    by (rule t_build_and [OF t_driver_prepare stable_fresh(2)])
  have fin: "triple True (\<lambda>s. within (apart H q) (snd s)) (on_db (driver_finalize vt q)) (\<lambda>_ s. within (complete H) (snd s)) (\<lambda>s. within (complete H) (snd s))"
    for H q by (rule t_snd [OF t_driver_finalize])
  have err: "triple True (\<lambda>s. within (complete H) (snd s)) (perr e :: (field list \<times> 'd cache_state, unit) act)
      (\<lambda>_ s. within (complete H) (snd s)) (\<lambda>s. within (complete H) (snd s))" for H e
    by (simp add: triple_perr)
  have rest: "triple True (\<lambda>s. within (apart H q) (snd s)) (case r of
              Inl e \<Rightarrow> pbind (on_db (driver_finalize vt q)) (\<lambda>_. perr e)
            | Inr has_row \<Rightarrow>
                if \<not> has_row then pbind (on_db (driver_finalize vt q)) (\<lambda>_. perr C_ORM_ERROR_NOT_FOUND)
                else pbind (attempt (c_orm_hydrate_row cfg vt q m)) (\<lambda>h. case h of
                    Inl e \<Rightarrow> pbind (on_db (given_back vt q)) (\<lambda>_. perr e)
                  | Inr _ \<Rightarrow> on_db (driver_finalize vt q)))
      (\<lambda>_ s. within (complete H) (snd s)) (\<lambda>s. within (complete H) (snd s))" for H q r
  proof -
    have row: "triple True (\<lambda>s. within (apart H q) (snd s)) (case h of
         Inl e \<Rightarrow> pbind (on_db (given_back vt q)) (\<lambda>_. perr e) | Inr _ \<Rightarrow> on_db (driver_finalize vt q))
      (\<lambda>_ s. within (complete H) (snd s)) (\<lambda>s. within (complete H) (snd s))" for h :: "c_orm_error_t + unit"
      using triple_bind [OF t_snd [OF t_apart_given_back] err] fin by (cases h) simp_all
    note hyd = triple_bind [OF t_attempt [OF t_keeps [OF framed_hydrate_row stable_fresh(2)]] row]
    show ?thesis
    proof (cases r)
      case (Inl e)
      show ?thesis unfolding Inl sum.case by (rule triple_bind [OF fin err])
    next
      case (Inr b)
      show ?thesis
      proof (cases b)
        case True
        with hyd show ?thesis by (simp add: Inr)
      next
        case False
        have "triple True (\<lambda>s. within (apart H q) (snd s)) (pbind (on_db (driver_finalize vt q)) (\<lambda>_. perr C_ORM_ERROR_NOT_FOUND))
          (\<lambda>_ s. within (complete H) (snd s)) (\<lambda>s. within (complete H) (snd s))"
          by (rule triple_bind [OF fin]) (simp add: triple_perr)
        with False show ?thesis by (simp add: Inr)
      qed
    qed
  qed
  have att: "triple True (\<lambda>s. within (apart H q) (snd s)) (on_db (attempt (pbind (bind q) (\<lambda>_. stepped vt q))))
      (\<lambda>_ s. within (apart H q) (snd s)) (\<lambda>s. within (complete H) (snd s))" for H q
    using t_snd [OF t_attempt [OF t_keeps [OF framed_bind [OF assms framed_stepped] stable_fresh(2)]]] .
  have "triple True (\<lambda>s. within (complete H) (snd s)) (get_bound cfg vt m bind) (\<lambda>_ s. within (complete H) (snd s)) (\<lambda>s. within (complete H) (snd s))" for H
    unfolding get_bound_def Some option.case
    by (rule triple_bind [OF t_snd [OF prep] triple_bind [OF att rest]])
  then show ?thesis by (simp add: safe_def)
qed

lemma safe_get_generic [saving]: "safe snd (c_orm_get_generic cfg vt m w)" "safe snd (c_orm_get_generic_string cfg vt m p)"
  by (auto simp: c_orm_get_generic_def c_orm_get_generic_string_def intro!: saving framing)

lemma safe_enable [saving]: "safe (\<lambda>s. s) (c_orm_enable_statement_caching True n)"
  unfolding safe_def triple_def
proof (intro allI impI)
  fix H s assume "within (complete H) s"
  then obtain a where a: "represents s a" "complete H a" by (auto simp: within_def)
  obtain r u where r: "c_orm_enable_statement_caching True n s = (r, u)" by (cases "c_orm_enable_statement_caching True n s")
  obtain r' b where l: "l_enable n a = (r', b)" by (cases "l_enable n a")
  have f: "r = r'" "r \<noteq> Stuck \<Longrightarrow> represents u b" using enable_follows [OF a(1), of n] r l by (simp_all add: follows_def)
  have "complete H b" if "r \<noteq> Stuck"
  proof (cases r')
    case (Ret x)
    with l have "lru_exec (rv_statements vt) (Enable n) a = (Ret Ok, b)" by (simp add: returning_def pbind_def preturn_def)
    from complete_exec [OF a(2) this] show ?thesis by simp
  next
    case (Err e)
    with l have "lru_exec (rv_statements vt) (Enable n) a = (Err e, b)" by (simp add: returning_def pbind_def)
    from complete_exec [OF a(2) this] show ?thesis by simp
  qed (use that f in simp)
  with f(2) r show "case c_orm_enable_statement_caching True n s of (Ret q, u) \<Rightarrow> within (complete H) u
      | (Err e, u) \<Rightarrow> within (complete H) u | (Stuck, u) \<Rightarrow> True"
    by (cases r) (auto simp: within_def)
qed

end

end
