(* ===== verification/MemoryKeep.thy ===== *)
theory MemoryKeep
  imports RecordKeep
begin

text \<open>
  The memory driver as a provider of \<open>reliable_rows\<close>, and what the operations on records give back on it.
\<close>

section \<open>Calls that open and close no query\<close>

definition same :: "nat set \<Rightarrow> 'a mem \<Rightarrow> bool" where
  "same S m \<longleftrightarrow> triple True (\<lambda>s. live_queries s = S) m (\<lambda>_ s. live_queries s = S) (\<lambda>s. live_queries s = S)"

named_theorems sames \<open>calls of the memory driver that open and close no query\<close>

lemma same_bind [sames]: "same S m \<Longrightarrow> (\<And>a. same S (k a)) \<Longrightarrow> same S (pbind m k)"
  unfolding same_def by (rule triple_bind)

lemma same_query [sames]: "(\<And>x. q \<in> S \<Longrightarrow> same S (k x)) \<Longrightarrow> same S (pbind (the_query q) k)"
  unfolding same_def
proof (rule triple_bind [where R = "\<lambda>_ s. live_queries s = S \<and> q \<in> S"])
  show "triple True (\<lambda>s. live_queries s = S) (the_query q) (\<lambda>_ s. live_queries s = S \<and> q \<in> S) (\<lambda>s. live_queries s = S)"
    by (auto simp: triple_def the_query_def live_queries_iff split: option.splits)
  fix x assume "\<And>x. q \<in> S \<Longrightarrow> triple True (\<lambda>s. live_queries s = S) (k x) (\<lambda>_ s. live_queries s = S) (\<lambda>s. live_queries s = S)"
  then show "triple True (\<lambda>s. live_queries s = S \<and> q \<in> S) (k x) (\<lambda>_ s. live_queries s = S) (\<lambda>s. live_queries s = S)"
    by (cases "q \<in> S") (auto simp: triple_def)
qed

lemma same_set [sames]: "q \<in> S \<Longrightarrow> same S (set_query q x)"
  by (auto simp: same_def triple_def set_query_def live_queries_def AList.dom_update)

lemma same_simple [sames]:
  "same S (preturn a)" "same S (perr e)" "same S stuck" "same S mem_alloc" "same S mem_free"
  "same S (free_mem_cell c)" "same S (ensure_table name)" "same S (add_row name cells)" "same S (next_row x)"
  by (auto simp: same_def triple_def preturn_def perr_def stuck_def mem_alloc_def live_queries_def ensure_table_def create_table_def
      add_row_def fresh_row_def pbind_def next_row_def credit_def split: prod.splits option.splits)

lemma same_bound [sames]: "same S (set_bound q i c)"
  by (auto simp: set_bound_def intro!: same_query same_set)

lemma same_cell [sames]: "same S (get_or_alloc_bound_cell query i)"
proof (cases query)
  case (Some q)
  then show ?thesis by (auto simp: get_or_alloc_bound_cell_def Let_def intro!: same_query same_set same_bound sames)
qed (simp add: get_or_alloc_bound_cell_def same_simple)

lemma same_binds [sames]:
  "same S (mem_bind_int32 q i v32)" "same S (mem_bind_int64 q i v64)" "same S (mem_bind_double q i v64)"
  "same S (mem_bind_null q i)" "same S (mem_bind_string q i p)" "same S (mem_bind_blob q i bs)"
  by (auto simp: mem_bind_int32_def mem_bind_int64_def mem_bind_double_def mem_bind_null_def mem_bind_string_def mem_bind_blob_def
      bind_cell_def intro!: sames)

lemma same_insert [sames]: "same S (insert_row q)"
  unfolding insert_row_def by (auto intro!: same_query same_set sames)

lemma same_step [sames]: "same S (mem_step query)"
proof (cases query)
  case (Some q)
  then show ?thesis by (auto simp: mem_step_def intro!: same_query same_set sames)
qed (simp add: mem_step_def same_simple)

definition steady :: "int \<Rightarrow> mem_state \<Rightarrow> mem_state \<Rightarrow> bool" where
  \<comment> \<open>the driver accounts for its blocks and has the same queries\<close>
  "steady L d d' \<longleftrightarrow> (neat L d \<longrightarrow> neat L d' \<and> live_queries d' = live_queries d)"

lemma steady_same:
  assumes "triple True (neat L) m (\<lambda>_. neat L) (neat L)" and "\<And>S. same S m"
  shows "frames (steady L) m"
  unfolding frames_def steady_def
proof (intro allI impI)
  fix d r d' assume d: "m d = (r, d')" "r \<noteq> Stuck" "neat L d"
  have "case r of Ret a \<Rightarrow> live_queries d' = live_queries d | Err e \<Rightarrow> live_queries d' = live_queries d | Stuck \<Rightarrow> True"
    by (rule triple_at [OF assms(2) [of "live_queries d", unfolded same_def] refl d(1)])
  then show "neat L d' \<and> live_queries d' = live_queries d" using triple_at [OF assms(1) d(3,1)] d(2) by (cases r) simp_all
qed

lemma steady_pure: "(\<And>s. snd (m s) = s) \<Longrightarrow> frames (steady L) m"
  unfolding frames_def steady_def by (metis snd_conv)

lemma steady_reads: "frames (steady L) (read_cell f (Some q) i True)" "frames (steady L) (mem_is_null (Some q) i)"
  by (auto simp: get_pure null_pure intro!: steady_pure)

lemma steady_status: "frames (steady L) (\<lambda>s. (Err (e s), s))"
  by (rule steady_pure) simp

lemmas memory_calls =
  steady_same [OF t_binds(1) same_binds(1)] steady_same [OF t_binds(2) same_binds(2)] steady_same [OF t_binds(3) same_binds(3)]
  steady_same [OF t_binds(4) same_binds(4)] steady_same [OF t_binds_copied(1) same_binds(5)]
  steady_same [OF t_binds_copied(2) same_binds(6)] steady_same [OF t_step same_step]

interpretation memory_frame: framed_rows memory_row_vtable "steady L" for L
  by unfold_locales
    (auto simp: memory_row_vtable_def mem_get_int32_def mem_get_int64_def mem_get_double_def mem_get_string_def mem_get_blob_def
      memory_calls steady_reads steady_status, auto simp: steady_def)

interpretation memory_records: reliable_rows memory_row_vtable "neat L" live_queries for L
proof -
  have st: "rv_statements memory_row_vtable = memory_vtable" by (simp add: memory_row_vtable_def)
  show "reliable_rows memory_row_vtable (neat L) live_queries"
    unfolding reliable_rows_def st using memory.reliable_driver_axioms memory_frame.framed_rows_axioms by (simp add: steady_def [abs_def])
qed

section \<open>Operations on records\<close>

datatype record_op =
    Assign "field list"
  | Enable_caching nat
  | Find_by_id_int32 api_table "32 word"
  | Find_by_id_string api_table cptr
  | Find_for_update_by_id_int32 api_table "32 word"
  | Find_for_update_by_id_string api_table cptr
  | Find_by_composite_key api_table "cdd_c_variant_t list"
  | Find_one_by_string api_table cptr cptr
  | Get_generic api_table "32 word"
  | Get_generic_string api_table cptr
  | Insert api_table
  | Insert_generic api_table
  | Update api_table
  | Update_partial api_table "string list"
  | Update_by_composite_key api_table "cdd_c_variant_t list"
  | Save api_table
  | Delete api_table
  | Delete_by_id_int32 api_table "32 word"
  | Delete_by_id_string api_table cptr
  | Delete_by_composite_key api_table "cdd_c_variant_t list"
  | Delete_all api_table
  | Exists_int32 api_table "32 word"
  | Exists_string api_table cptr
  | Execute_raw cptr
  | Transaction_begin
  | Transaction_commit
  | Transaction_rollback
  | Savepoint_create cptr
  | Savepoint_rollback cptr
  | Savepoint_release cptr

definition no_hooks :: "'d api_hooks" where
  "no_hooks = \<lparr>before_save = None, after_save = None, before_insert = None, after_insert = None, before_update = None,
     after_update = None, before_delete = None, after_delete = None\<rparr>"

fun record_exec :: "api_config \<Rightarrow> 'd row_vtable \<Rightarrow> record_op \<Rightarrow> ('d, bool) row_act" where
  \<comment> \<open>a call on the connection and the structure that the program holds\<close>
  "record_exec cfg vt (Assign fs) = (\<lambda>s. (Ret True, (fs, snd s)))"
| "record_exec cfg vt (Enable_caching n) = returning (\<lambda>_. True) (on_db (c_orm_enable_statement_caching True n))"
| "record_exec cfg vt (Find_by_id_int32 m w) = returning (\<lambda>_. True) (c_orm_find_by_id_int32 cfg vt m w)"
| "record_exec cfg vt (Find_by_id_string m p) = returning (\<lambda>_. True) (c_orm_find_by_id_string cfg vt m p)"
| "record_exec cfg vt (Find_for_update_by_id_int32 m w) = returning (\<lambda>_. True) (c_orm_find_for_update_by_id_int32 cfg vt m w)"
| "record_exec cfg vt (Find_for_update_by_id_string m p) = returning (\<lambda>_. True) (c_orm_find_for_update_by_id_string cfg vt m p)"
| "record_exec cfg vt (Find_by_composite_key m keys) = returning (\<lambda>_. True) (c_orm_find_by_composite_key cfg vt m keys)"
| "record_exec cfg vt (Find_one_by_string m col p) = returning (\<lambda>_. True) (c_orm_find_one_by_string cfg vt m col p)"
| "record_exec cfg vt (Get_generic m w) = returning (\<lambda>_. True) (c_orm_get_generic cfg vt m w)"
| "record_exec cfg vt (Get_generic_string m p) = returning (\<lambda>_. True) (c_orm_get_generic_string cfg vt m p)"
| "record_exec cfg vt (Insert m) = returning (\<lambda>_. True) (c_orm_insert cfg vt no_hooks m)"
| "record_exec cfg vt (Insert_generic m) = returning (\<lambda>_. True) (c_orm_insert_generic cfg vt m)"
| "record_exec cfg vt (Update m) = returning (\<lambda>_. True) (c_orm_update cfg vt m)"
| "record_exec cfg vt (Update_partial m fs) = returning (\<lambda>_. True) (c_orm_update_partial vt m fs)"
| "record_exec cfg vt (Update_by_composite_key m keys) = returning (\<lambda>_. True) (c_orm_update_by_composite_key cfg vt m keys)"
| "record_exec cfg vt (Save m) = returning (\<lambda>_. True) (c_orm_save cfg vt no_hooks m)"
| "record_exec cfg vt (Delete m) = returning (\<lambda>_. True) (c_orm_delete vt no_hooks m)"
| "record_exec cfg vt (Delete_by_id_int32 m w) = returning (\<lambda>_. True) (on_db (c_orm_delete_by_id_int32 vt m w))"
| "record_exec cfg vt (Delete_by_id_string m p) = returning (\<lambda>_. True) (on_db (c_orm_delete_by_id_string vt m p))"
| "record_exec cfg vt (Delete_by_composite_key m keys) = returning (\<lambda>_. True) (on_db (c_orm_delete_by_composite_key vt m keys))"
| "record_exec cfg vt (Delete_all m) = returning (\<lambda>_. True) (on_db (c_orm_delete_all vt m))"
| "record_exec cfg vt (Exists_int32 m w) = on_db (c_orm_exists_int32 vt m w)"
| "record_exec cfg vt (Exists_string m p) = on_db (c_orm_exists_string vt m p)"
| "record_exec cfg vt (Execute_raw p) = returning (\<lambda>_. True) (on_db (c_orm_execute_raw vt p))"
| "record_exec cfg vt Transaction_begin = returning (\<lambda>_. True) (on_db (c_orm_transaction_begin vt))"
| "record_exec cfg vt Transaction_commit = returning (\<lambda>_. True) (on_db (c_orm_transaction_commit vt))"
| "record_exec cfg vt Transaction_rollback = returning (\<lambda>_. True) (on_db (c_orm_transaction_rollback vt))"
| "record_exec cfg vt (Savepoint_create p) = returning (\<lambda>_. True) (on_db (c_orm_savepoint_create vt p))"
| "record_exec cfg vt (Savepoint_rollback p) = returning (\<lambda>_. True) (on_db (c_orm_savepoint_rollback vt p))"
| "record_exec cfg vt (Savepoint_release p) = returning (\<lambda>_. True) (on_db (c_orm_savepoint_release vt p))"

context reliable_rows begin

lemma safe_returning: "safe db m \<Longrightarrow> safe db (returning f m)"
  by (auto simp: returning_def intro!: saving)

lemma safe_no_hooks: "safe_hooks no_hooks"
  by (simp add: safe_hooks_def no_hooks_def hook_def saving)

lemma safe_record: "safe snd (record_exec cfg vt x)"
proof (cases x)
  case (Assign fs)
  then show ?thesis by (simp add: safe_def triple_def)
qed (auto intro!: safe_returning saving safe_no_hooks)

lemma safe_run:
  assumes exec: "\<And>x. safe snd (exec x)"
    and "within (complete H) (snd s)" and "run_ops exec xs s = (rs, t)" and "Stuck \<notin> set rs"
  shows "within (complete H) (snd t)"
  using assms(2-4)
proof (induction xs arbitrary: s rs)
  case (Cons x xs)
  obtain r u where r: "exec x s = (r, u)" by (cases "exec x s")
  obtain rs' t' where rest: "run_ops exec xs u = (rs', t')" by (cases "run_ops exec xs u")
  have "triple True (\<lambda>s. within (complete H) (snd s)) (exec x) (\<lambda>_ s. within (complete H) (snd s)) (\<lambda>s. within (complete H) (snd s))"
    using exec by (simp add: safe_def)
  from triple_at [OF this Cons.prems(1) r] show ?case
    using Cons.IH [of u rs'] Cons.prems r rest by (cases r) auto
qed simp

lemmas records_run = safe_run [OF safe_record]

end

end
