(* ===== verification/RecordProps.thy ===== *)
theory RecordProps
  imports MemoryKeep
begin

text \<open>
  Properties of the operations on records over the memory driver.
\<close>

section \<open>What the operations give back\<close>

lemma memory_opens:
  assumes "mem_connect True h = (Ret d, h')"
  shows "memory_records.within (memory.complete (live h + 2) {}) (uncached d k)"
proof -
  have "live_queries d = {}" using assms by (auto simp: mem_connect_def live_queries_def split: prod.splits if_splits)
  then have "memory.complete (live h + 2) {} (lru_off d k)"
    using connect_state(1) [OF assms] by (simp add: memory.complete_def memory.sound_def lru_off_def)
  then show ?thesis using represents_off [of d k] by (auto simp: memory_records.within_def)
qed

lemma memory_closes:
  assumes "memory_records.within (memory.complete (L + 2) {}) s"
  shows "\<exists>u v. c_orm_disable_statement_caching memory_vtable True s = (Ret (), u)
    \<and> mem_disconnect (cs_driver u) = (Ret (), v) \<and> live (md_heap v) = L"
proof -
  obtain b where b: "represents s b" "memory.complete (L + 2) {} b"
    using assms by (auto simp: memory_records.within_def)
  have "accounted (live (lr_heap b) - cache_blocks (lr_cache b)) b" by (simp add: accounted_def)
  from memory.drained [OF b(2) this] obtain c where c: "l_disable memory_vtable b = (Ret (), c)" "lr_cache c = Off"
    "neat (L + 2) (lr_driver c)" "live_queries (lr_driver c) \<subseteq> {}" by blast
  obtain u where u: "c_orm_disable_statement_caching memory_vtable True s = (Ret (), u)" "represents u c"
    using disable_follows [OF b(1), of memory_vtable] c(1)
    by (cases "c_orm_disable_statement_caching memory_vtable True s") (auto simp: follows_def)
  have "md_queries (lr_driver c) = []" using c(4) by (simp add: live_queries_def)
  from disconnect_neat [OF c(3) this] u show ?thesis by (auto simp: represents_def)
qed

lemma memory_statements: "rv_statements memory_row_vtable = memory_vtable"
  by (simp add: memory_row_vtable_def)


text \<open>Inserting twice and looking up twice, with room for one statement in the cache.\<close>

definition sample_records :: "record_op list" where
  "sample_records = [Enable_caching 1, Assign [F_int32 7, F_text (Some ''ann''), F_ref (Some (F_int64 40))], Insert sample_api_table,
     Insert_generic sample_api_table, Find_by_id_int32 sample_api_table 7, Find_by_id_string sample_api_table None,
     Delete_all sample_api_table]"

lemma sample_records_run:
  "fst (run_ops (record_exec sample_config memory_row_vtable) sample_records
     ([], uncached (connected []) \<lparr>script = [True, True, True, True, True, False], live = 0\<rparr>))
   = [Ret True, Ret True, Ret True, Err C_ORM_ERROR_MEMORY, Err C_ORM_ERROR_NOT_IMPLEMENTED, Err C_ORM_ERROR_MEMORY, Ret True]"
  by code_simp


section \<open>Looking a record up\<close>

definition fails :: "('s, 'a) act \<Rightarrow> bool" where
  "fails m \<longleftrightarrow> (\<forall>s a t. m s \<noteq> (Ret a, t))"

lemma fails_perr: "fails (perr e)"
  by (simp add: fails_def perr_def)

lemma fails_stuck: "fails stuck"
  by (simp add: fails_def stuck_def)

lemma fails_bind: "(\<And>a. fails (k a)) \<Longrightarrow> fails (pbind m k)"
  by (auto simp: fails_def pbind_def split: prod.splits outcome.splits)

lemma fails_first: "fails m \<Longrightarrow> fails (pbind m k)"
  by (auto simp: fails_def pbind_def split: prod.splits outcome.splits)

lemma fails_if: "fails m \<Longrightarrow> fails n \<Longrightarrow> fails (if b then m else n)"
  by simp

lemma fails_on_db: "fails m \<Longrightarrow> fails (on_db m)"
  by (auto simp: fails_def on_db_def split: prod.splits)

lemma fails_attempt: "fails m \<Longrightarrow> (\<And>e. fails (k (Inl e))) \<Longrightarrow> fails (pbind (attempt m) k)"
  by (force simp: fails_def pbind_def attempt_def split: prod.splits outcome.splits)

lemma fails_using: "(\<And>q. fails (body q)) \<Longrightarrow> fails (using_query prep fin body)"
  unfolding using_query_attempt by (intro fails_bind [where m = prep] fails_attempt) (simp_all add: fails_bind fails_perr)

lemma fails_row_query: "(\<And>q. fails (body q)) \<Longrightarrow> fails (row_query vt sql body)"
  unfolding row_query_def by (rule fails_using)

lemma fails_hydrate_row: "fails (c_orm_hydrate_row cfg memory_row_vtable q m)"
proof -
  have "fails (on_db (drive (\<lambda>s. (Err (e s), s))))" for e :: "mem_state \<Rightarrow> c_orm_error_t"
    by (auto simp: fails_def on_db_def drive_def)
  note count = fails_first [OF this]
  have "rv_get_column_count memory_row_vtable = Some (\<lambda>q s. (Err (fst (mem_get_column_count (Some q) s)), s))"
    "rv_get_column_name memory_row_vtable = Some (\<lambda>q i s. (Err (fst (mem_get_column_name (Some q) i s)), s))"
    by (simp_all add: memory_row_vtable_def)
  then show ?thesis unfolding c_orm_hydrate_row_def by (auto intro!: fails_bind count)
qed

lemma fails_fetch_one: "fails (fetch_one cfg memory_row_vtable m q)"
  by (auto simp: fetch_one_def intro!: fails_bind fails_perr fails_hydrate_row)

lemma fails_get_bound: "fails (get_bound cfg memory_row_vtable m bind)"
proof (cases "find is_pk (columns m)")
  case (Some pk)
  have row: "fails (case r of
              Inl e \<Rightarrow> pbind (on_db (driver_finalize memory_row_vtable q)) (\<lambda>_. perr e)
            | Inr has_row \<Rightarrow>
                if \<not> has_row then pbind (on_db (driver_finalize memory_row_vtable q)) (\<lambda>_. perr C_ORM_ERROR_NOT_FOUND)
                else pbind (attempt (c_orm_hydrate_row cfg memory_row_vtable q m)) (\<lambda>h.
                  case h of
                    Inl e \<Rightarrow> pbind (on_db (given_back memory_row_vtable q)) (\<lambda>_. perr e)
                  | Inr _ \<Rightarrow> on_db (driver_finalize memory_row_vtable q)))" for r q
  proof (cases r)
    case (Inr b)
    have "fails (pbind (attempt (c_orm_hydrate_row cfg memory_row_vtable q m)) (\<lambda>h. case h of
        Inl e \<Rightarrow> pbind (on_db (given_back memory_row_vtable q)) (\<lambda>_. perr e) | Inr _ \<Rightarrow> on_db (driver_finalize memory_row_vtable q)))"
      by (rule fails_attempt) (simp_all add: fails_hydrate_row fails_bind fails_perr)
    then show ?thesis by (simp add: Inr fails_bind fails_perr)
  qed (simp add: fails_bind fails_perr)
  show ?thesis unfolding get_bound_def Some option.case by (intro fails_bind row)
qed (simp add: get_bound_def fails_perr)

lemmas find_fails =
  fails_perr fails_using fails_row_query fails_fetch_one fails_get_bound fails_bind [where m = "on_db m" for m]

text \<open>Over the memory driver no lookup ever reports a record: the driver does not implement the number of columns, which
  hydration asks for once it has filled the columns in, so that every way to find one row by a key fails, whatever the
  table holds.\<close>
theorem memory_find_fails:
  "fst (c_orm_find_by_id_int32 cfg memory_row_vtable m w s) \<noteq> Ret ()
   \<and> fst (c_orm_find_by_id_string cfg memory_row_vtable m p s) \<noteq> Ret ()
   \<and> fst (c_orm_find_for_update_by_id_int32 cfg memory_row_vtable m w s) \<noteq> Ret ()
   \<and> fst (c_orm_find_for_update_by_id_string cfg memory_row_vtable m p s) \<noteq> Ret ()
   \<and> fst (c_orm_find_by_composite_key cfg memory_row_vtable m keys s) \<noteq> Ret ()
   \<and> fst (c_orm_find_one_by_string cfg memory_row_vtable m col p s) \<noteq> Ret ()
   \<and> fst (c_orm_get_generic cfg memory_row_vtable m w s) \<noteq> Ret ()
   \<and> fst (c_orm_get_generic_string cfg memory_row_vtable m p s) \<noteq> Ret ()"
proof -
  have *: "fst (n s) \<noteq> Ret ()" if "fails n" for n :: "(mem_state, unit) row_act"
    using that by (metis fails_def prod.collapse)
  have id: "fails (c_orm_find_by_id_int32 cfg memory_row_vtable m w)" "fails (c_orm_find_by_id_string cfg memory_row_vtable m p)"
    by (auto simp: c_orm_find_by_id_int32_def c_orm_find_by_id_string_def intro!: find_fails)
  have "fails (c_orm_find_for_update_by_id_int32 cfg memory_row_vtable m w)"
    "fails (c_orm_find_for_update_by_id_string cfg memory_row_vtable m p)"
    "fails (c_orm_find_by_composite_key cfg memory_row_vtable m keys)" "fails (c_orm_find_one_by_string cfg memory_row_vtable m col p)"
    "fails (c_orm_get_generic cfg memory_row_vtable m w)" "fails (c_orm_get_generic_string cfg memory_row_vtable m p)"
    by (auto simp: c_orm_find_for_update_by_id_int32_def c_orm_find_for_update_by_id_string_def c_orm_find_by_composite_key_def
        c_orm_find_one_by_string_def c_orm_get_generic_def c_orm_get_generic_string_def intro!: find_fails id)
  with id show ?thesis by (intro conjI *)
qed

end
