(* ===== verification/RowTrip.thy ===== *)
theory RowTrip
  imports RecordProps
begin

text \<open>
  Inserting an object and reading it back over the memory driver: the parameters of an INSERT become the newest row of
  its table, and a SELECT of that table stands on it first.
\<close>

section \<open>Queries of the memory driver\<close>

lemma mem_prepares:
  assumes d: "mem_good d" and c: "classify sql = (ty, Some p)" "parse_table_name sql p = Ret name"
  shows "\<exists>q d'. mem_prepare sql d = (Ret q, d') \<and> mem_good d' \<and> ad_tables (abs_state d') = ad_tables (abs_state d) \<and>
    mem_query d' q = Some \<lparr>aq_type = ty, aq_table = name, aq_params = replicate 32 None, aq_num = 0, aq_cursor = None\<rparr>"
proof -
  obtain r d' where r: "mem_prepare sql d = (r, d')" by (cases "mem_prepare sql d")
  note s = simD [OF sim_prepare _ _ r]
  have "a_prepare sql (abs_state d) = (r, abs_state d')" "state_ok d'" "no_oom (md_heap d')"
    using s d by (simp_all add: mem_good_def)
  then have "r = Ret (ad_fresh (abs_state d))" "mem_good d'" and "abs_state d' =
      (abs_state d)\<lparr>ad_fresh := Suc (ad_fresh (abs_state d)), ad_queries := (ad_fresh (abs_state d),
        \<lparr>aq_type = ty, aq_table = name, aq_params = replicate 32 None, aq_num = 0, aq_cursor = None\<rparr>) # ad_queries (abs_state d)\<rparr>"
    using c by (simp_all add: a_prepare_def mem_good_def del: abs_fields)
  with r show ?thesis by (simp add: mem_query_def del: abs_fields)
qed

definition mem_inserting :: "string \<Rightarrow> (string \<Rightarrow> row list) \<Rightarrow> mem_state \<Rightarrow> nat \<Rightarrow> bool" where
  \<comment> \<open>an INSERT into the table whose parameters are bound without a gap at the end\<close>
  "mem_inserting name T d q \<longleftrightarrow>
     (\<exists>x. mem_query d q = Some x \<and> length (aq_params x) = 32 \<and> aq_type x = MEM_QUERY_INSERT \<and> aq_table x = name \<and>
        (aq_num x > 0 \<longrightarrow> mem_param d q (int (aq_num x)) \<noteq> None) \<and> (\<forall>j. mem_param d q j \<noteq> None \<longrightarrow> j \<le> int (aq_num x))) \<and>
     ad_tables (abs_state d) = T"

lemma inserting_opened: "mem_inserting name T d q \<Longrightarrow> mem_opened d q"
  by (auto simp: mem_inserting_def mem_opened_def)

lemma mem_insert_law:
  assumes m: "sim m (a_bind (Some q) i c)" and i: "1 \<le> i" "i \<le> 32" and v: "cell_value c = Some v"
  shows "bind_law mem_good (mem_inserting name T) mem_param q i v m"
  unfolding bind_law_def
proof (intro allI impI)
  fix d assume d: "mem_good d" "mem_inserting name T d q"
  obtain d' where d': "m d = (Ret (), d')" "mem_good d'" "mem_opened d' q" "mem_param d' q = (mem_param d q)(i := Some v)"
    using mem_bind_law [OF m i v] d(1) inserting_opened [OF d(2)] unfolding bind_law_def by blast
  obtain x where x: "mem_query d q = Some x" "aq_type x = MEM_QUERY_INSERT" "aq_table x = name" "length (aq_params x) = 32"
    "aq_num x > 0 \<longrightarrow> mem_param d q (int (aq_num x)) \<noteq> None" "\<forall>j. mem_param d q j \<noteq> None \<longrightarrow> j \<le> int (aq_num x)"
    "ad_tables (abs_state d) = T" using d(2) by (auto simp: mem_inserting_def)
  define y where "y = x\<lparr>aq_params := (aq_params x)[nat i - 1 := Some c], aq_num := max (aq_num x) (nat i)\<rparr>"
  have "a_bind (Some q) i c (abs_state d) = (Ret (), abs_state d')"
    using simD(1) [OF m _ _ d'(1)] d(1) by (simp add: mem_good_def)
  moreover have "a_bind (Some q) i c (abs_state d) = a_set q y (abs_state d)"
    using i x(1) by (auto simp: a_bind_def a_handle_def pbind_def a_query_def mem_query_def y_def simp del: abs_fields)
  ultimately have "abs_state d' = (abs_state d)\<lparr>ad_queries := AList.update q y (ad_queries (abs_state d))\<rparr>"
    by (simp add: a_set_def)
  then have "mem_query d' q = Some y" "ad_tables (abs_state d') = T"
    using x(7) unfolding mem_query_def by (simp_all add: AList.update_conv' del: abs_fields)
  moreover have "length (aq_params y) = 32" "aq_type y = MEM_QUERY_INSERT" "aq_table y = name" "int (aq_num y) = max (int (aq_num x)) i"
    using x i by (simp_all add: y_def)
  ultimately have "mem_inserting name T d' q"
    unfolding mem_inserting_def d'(4) using x(5,6) by (auto simp: max_def)
  with d' show "\<exists>d'. m d = (Ret (), d') \<and> mem_good d' \<and> mem_inserting name T d' q \<and> mem_param d' q = (mem_param d q)(i := Some v)"
    by blast
qed

interpretation inserting: row_driver memory_row_vtable mem_good "mem_inserting name T" mem_param mem_value 32 for name T
  by unfold_locales
    (simp_all add: memory_row_vtable_def mem_null_law mem_get_int32_def mem_get_int64_def mem_get_double_def mem_get_string_def
      mem_get_blob_def mem_get_law cell_value_read mem_insert_law [OF sim_binds(1)] mem_insert_law [OF sim_binds(2)]
      mem_insert_law [OF sim_binds(3)] mem_insert_law [OF sim_binds_copied(1)] mem_insert_law [OF sim_binds_copied(2)]
      mem_insert_law [OF sim_binds(4) [unfolded null_cell]])

lemma mem_step_insert:
  assumes d: "mem_good d" "mem_inserting name T d q" and p: "\<forall>j. (mem_param d q j \<noteq> None) = (1 \<le> j \<and> j \<le> int n)"
  shows "\<exists>d' row. mem_step (Some q) d = (Ret False, d') \<and> mem_good d' \<and> mem_query d' q \<noteq> None \<and>
    ad_tables (abs_state d') = T(name := row # T name) \<and> length row = n \<and>
    (\<forall>j < n. Option.bind (row ! j) cell_value = mem_param d q (1 + int j))"
proof -
  obtain x where x: "mem_query d q = Some x" "aq_type x = MEM_QUERY_INSERT" "aq_table x = name" "length (aq_params x) = 32"
    "aq_num x > 0 \<longrightarrow> mem_param d q (int (aq_num x)) \<noteq> None" "\<forall>j. mem_param d q j \<noteq> None \<longrightarrow> j \<le> int (aq_num x)"
    "ad_tables (abs_state d) = T" using d(2) by (auto simp: mem_inserting_def)
  have n: "aq_num x = n"
  proof (cases "n = 0")
    case True
    show ?thesis
    proof (rule ccontr)
      assume "aq_num x \<noteq> n"
      with x(5) p True show False by auto
    qed
  next
    case False
    with p have "mem_param d q (int n) \<noteq> None" by simp
    then have "n \<le> aq_num x" using x(6) by fastforce
    moreover have "aq_num x \<le> n" using x(5) p False by (cases "aq_num x = 0") auto
    ultimately show ?thesis by simp
  qed
  have n32: "n \<le> 32" using p by (cases "n = 0") (auto simp: mem_param_def split: option.splits if_splits dest!: spec [of _ "int n"])
  define y where "y = x\<lparr>aq_params := replicate n None @ drop n (aq_params x), aq_num := 0\<rparr>"
  define row where "row = take n (aq_params x)"
  obtain r d' where r: "mem_step (Some q) d = (r, d')" by (cases "mem_step (Some q) d")
  have s: "a_step (Some q) (abs_state d) = (r, abs_state d')" "state_ok d'" "no_oom (md_heap d')"
    using simD [OF sim_step _ _ r] d(1) by (simp_all add: mem_good_def)
  have "a_step (Some q) (abs_state d) = (Ret False, (abs_state d)\<lparr>ad_tables := T(name := row # T name),
      ad_queries := AList.update q y (ad_queries (abs_state d))\<rparr>)"
    using x n by (simp add: a_step_def pbind_def a_query_def mem_query_def row_def y_def del: abs_fields)
  with s(1) have e: "r = Ret False" "abs_state d' = (abs_state d)\<lparr>ad_tables := T(name := row # T name),
      ad_queries := AList.update q y (ad_queries (abs_state d))\<rparr>" by simp_all
  have a: "r = Ret False" "ad_tables (abs_state d') = T(name := row # T name)"
    "ad_queries (abs_state d') = AList.update q y (ad_queries (abs_state d))" by (simp_all add: e del: abs_fields)
  have "mem_query d' q \<noteq> None" unfolding mem_query_def a(3) by (simp add: AList.update_conv')
  moreover have "length row = n" using n32 x(4) by (simp add: row_def)
  moreover have "\<forall>j < n. Option.bind (row ! j) cell_value = mem_param d q (1 + int j)"
    using n32 x(1) by (auto simp: mem_param_def row_def nat_add_distrib)
  ultimately show ?thesis using r a s by (auto simp: mem_good_def)
qed

lemma mem_finalizes:
  assumes d: "mem_good d" "mem_query d q \<noteq> None"
  shows "\<exists>d'. mem_finalize (Some q) d = (Ret (), d') \<and> mem_good d' \<and> ad_tables (abs_state d') = ad_tables (abs_state d)"
proof -
  obtain r d' where r: "mem_finalize (Some q) d = (r, d')" by (cases "mem_finalize (Some q) d")
  have s: "a_finalize (Some q) (abs_state d) = (r, abs_state d')" "state_ok d'" "no_oom (md_heap d')"
    using simD [OF sim_finalize _ _ r] d(1) by (simp_all add: mem_good_def)
  then have e: "r = Ret ()" "abs_state d' = (abs_state d)\<lparr>ad_queries := AList.delete q (ad_queries (abs_state d))\<rparr>"
    using d(2) by (auto simp: a_finalize_def pbind_def a_query_def mem_query_def simp del: abs_fields split: option.splits)
  have "ad_tables (abs_state d') = ad_tables (abs_state d)" by (simp add: e del: abs_fields)
  with r s e(1) show ?thesis by (simp add: mem_good_def)
qed

lemma mem_step_select:
  assumes d: "mem_good d" and x: "mem_query d q = Some x" "aq_type x = MEM_QUERY_SELECT_ALL" "aq_cursor x = None"
    and row: "ad_tables (abs_state d) (aq_table x) = row # rows"
  shows "\<exists>d'. mem_step (Some q) d = (Ret True, d') \<and> mem_good d' \<and>
    (\<forall>j < length row. mem_value d' q (int j) = Option.bind (row ! j) cell_value)"
proof -
  obtain r d' where r: "mem_step (Some q) d = (r, d')" by (cases "mem_step (Some q) d")
  have s: "a_step (Some q) (abs_state d) = (r, abs_state d')" "state_ok d'" "no_oom (md_heap d')"
    using simD [OF sim_step _ _ r] d(1) by (simp_all add: mem_good_def)
  define y where "y = x\<lparr>aq_cursor := Some (row # rows)\<rparr>"
  have "a_step (Some q) (abs_state d) = (Ret True, (abs_state d)\<lparr>ad_queries := AList.update q y (ad_queries (abs_state d))\<rparr>)"
    using x row by (simp add: a_step_def pbind_def a_query_def mem_query_def y_def del: abs_fields)
  with s(1) have e: "r = Ret True" "abs_state d' = (abs_state d)\<lparr>ad_queries := AList.update q y (ad_queries (abs_state d))\<rparr>" by simp_all
  have a: "r = Ret True" "ad_queries (abs_state d') = AList.update q y (ad_queries (abs_state d))" by (simp_all add: e del: abs_fields)
  have "mem_query d' q = Some y" unfolding mem_query_def a(2) by (simp add: AList.update_conv')
  then have "\<forall>j < length row. mem_value d' q (int j) = Option.bind (row ! j) cell_value"
    by (simp add: mem_value_def a_cell_def y_def)
  with r a s show ?thesis by (simp add: mem_good_def)
qed

section \<open>The round trip\<close>

definition insert_then_read :: "api_config \<Rightarrow> 'd row_vtable \<Rightarrow> api_table \<Rightarrow> ('d, unit) row_act" where
  \<comment> \<open>a program that inserts its object, clears it, and reads the first row of the table into it\<close>
  "insert_then_read cfg vt m =
     pbind (c_orm_insert cfg vt no_hooks m) (\<lambda>_.
     pbind (\<lambda>s. (Ret (), (map zero_field (columns m), snd s))) (\<lambda>_.
     pbind (on_db (prepared vt (query_select_all m))) (\<lambda>q.
     pbind (on_db (stepped vt q)) (\<lambda>_. c_orm_hydrate_row_from cfg vt q m 0))))"

lemma prepared_uncached:
  "cs_cache s = None \<Longrightarrow> prepared memory_row_vtable (Some sql) s = drive (mem_prepare sql) s"
  "cs_cache s = None \<Longrightarrow> given_back memory_row_vtable q s = drive (mem_finalize (Some q)) s"
  "stepped memory_row_vtable q s = drive (mem_step (Some q)) s"
  by (simp_all add: prepared_def given_back_def stepped_def c_orm_prepare_cached_def c_orm_finalize_cached_def memory_row_vtable_def memory_vtable_def)

lemma driven: "m (cs_driver s) = (Ret a, d) \<Longrightarrow> drive m s = (Ret a, s\<lparr>cs_driver := d\<rparr>)"
  by (simp add: drive_def)

lemma insert_stores:
  assumes s: "mem_good (cs_driver s)" "no_oom (cs_heap s)" "cs_cache s = None"
    and obj: "storable_all cfg (columns m) obj" "length (columns m) \<le> 32" and m: "\<not> is_view m" "query_insert m = Some sql"
    and sql: "classify sql = (MEM_QUERY_INSERT, Some p)" "parse_table_name sql p = Ret name"
  shows "\<exists>d row rows. c_orm_insert cfg memory_row_vtable no_hooks m (obj, s) = (Ret (), (obj, s\<lparr>cs_driver := d\<rparr>)) \<and> mem_good d \<and>
    ad_tables (abs_state d) name = row # rows \<and> length row = length (columns m) \<and>
    (\<forall>j < length row. Option.bind (row ! j) cell_value = Some (field_value cfg (obj ! j)))"
proof -
  let ?n = "length (columns m)"
  obtain q d1 where d1: "mem_prepare sql (cs_driver s) = (Ret q, d1)" "mem_good d1"
    "mem_query d1 q = Some \<lparr>aq_type = MEM_QUERY_INSERT, aq_table = name, aq_params = replicate 32 None, aq_num = 0, aq_cursor = None\<rparr>"
    using mem_prepares [OF s(1) sql] by blast
  have none: "mem_param d1 q j = None" for j
  proof -
    have "j \<le> 32 \<Longrightarrow> replicate 32 (None :: mem_cell_t option) ! (nat j - 1) = None" by (rule nth_replicate) simp
    then show ?thesis by (auto simp: mem_param_def d1(3))
  qed
  have "mem_inserting name (ad_tables (abs_state d1)) d1 q" by (simp add: mem_inserting_def d1(3) none)
  with inserting.bind_row_wrote [of "s\<lparr>cs_driver := d1\<rparr>" name "ad_tables (abs_state d1)" q 1 "columns m" 0 "columns m" cfg obj] d1 s obj
  obtain d2 where d2: "bind_row cfg memory_row_vtable q (columns m) 0 1 (obj, s\<lparr>cs_driver := d1\<rparr>)
      = (Ret (1 + int ?n), (obj, s\<lparr>cs_driver := d2\<rparr>))" "mem_good d2" "mem_inserting name (ad_tables (abs_state d1)) d2 q"
    and par: "\<forall>j < ?n. mem_param d2 q (1 + int j) = Some (field_value cfg (obj ! j))"
      "\<forall>j. j < 1 \<or> 1 + int ?n \<le> j \<longrightarrow> mem_param d2 q j = None"
    by (auto simp: none)
  have "(mem_param d2 q j \<noteq> None) = (1 \<le> j \<and> j \<le> int ?n)" for j
  proof (cases "1 \<le> j \<and> j \<le> int ?n")
    case True
    then have "nat j - 1 < ?n" "1 + int (nat j - 1) = j" by auto
    with par(1) True show ?thesis by (metis option.distinct(1))
  qed (use par(2) in auto)
  with mem_step_insert [OF d2(2,3), of ?n] obtain d3 row where d3: "mem_step (Some q) d2 = (Ret False, d3)" "mem_good d3"
    "mem_query d3 q \<noteq> None" "ad_tables (abs_state d3) name = row # ad_tables (abs_state d1) name" "length row = ?n"
    "\<forall>j < ?n. Option.bind (row ! j) cell_value = mem_param d2 q (1 + int j)" by fastforce
  obtain d4 where d4: "mem_finalize (Some q) d3 = (Ret (), d4)" "mem_good d4" "ad_tables (abs_state d4) = ad_tables (abs_state d3)"
    using mem_finalizes [OF d3(2,3)] by blast
  have "c_orm_insert cfg memory_row_vtable no_hooks m (obj, s) = (Ret (), (obj, s\<lparr>cs_driver := d4\<rparr>))"
    using m s(3) d1(1) d2(1) d3(1) d4(1)
    by (simp add: c_orm_insert_def hook_def no_hooks_def row_query_def using_query_def pbind_def preturn_def on_db_def prepared_uncached
        drive_def)
  with d3 d4 par show ?thesis by auto
qed

text \<open>C34 (record_roundtrip).
  What \<open>c_orm_insert\<close> stores, hydration reads: over the memory driver, with memory available and the cache off,
  inserting an object that its table can store and reading the first row of the table into a cleared struct succeeds
  and gives the object back, field by field: integers, floating point numbers, booleans, dates, texts, blobs, points,
  polygons, and NULL where the column allows it.\<close>
theorem record_roundtrip:
  assumes "mem_good (cs_driver s)" and "no_oom (cs_heap s)" and "cs_cache s = None"
    and "storable_all cfg (columns m) obj" and "length (columns m) \<le> 32" and "\<not> is_view m" and "ttl_columns m = None"
    and "query_insert m = Some ins" and "query_select_all m = Some sel"
    and "classify ins = (MEM_QUERY_INSERT, Some p)" and "parse_table_name ins p = Ret name"
    and "classify sel = (MEM_QUERY_SELECT_ALL, Some p')" and "parse_table_name sel p' = Ret name"
  shows "\<exists>t. insert_then_read cfg memory_row_vtable m (obj, s) = (Ret (), (obj, t))"
proof -
  obtain d row rows where d: "c_orm_insert cfg memory_row_vtable no_hooks m (obj, s) = (Ret (), (obj, s\<lparr>cs_driver := d\<rparr>))" "mem_good d"
    "ad_tables (abs_state d) name = row # rows" "length row = length (columns m)"
    "\<forall>j < length row. Option.bind (row ! j) cell_value = Some (field_value cfg (obj ! j))"
    using insert_stores [OF assms(1-6,8,10,11)] by blast
  obtain q e where e: "mem_prepare sel d = (Ret q, e)" "mem_good e" "ad_tables (abs_state e) = ad_tables (abs_state d)"
    "mem_query e q = Some \<lparr>aq_type = MEM_QUERY_SELECT_ALL, aq_table = name, aq_params = replicate 32 None, aq_num = 0, aq_cursor = None\<rparr>"
    using mem_prepares [OF d(2) assms(12,13)] by blast
  obtain f where f: "mem_step (Some q) e = (Ret True, f)" "mem_good f"
    "\<forall>j < length row. mem_value f q (int j) = Option.bind (row ! j) cell_value"
    using mem_step_select [OF e(2,4), of row rows] e(3) d(3) by auto
  have "\<exists>s'. c_orm_hydrate_row_from cfg memory_row_vtable q m 0 (map zero_field (columns m), s\<lparr>cs_driver := f\<rparr>) = (Ret (), (obj, s'))"
    using memory_rows.hydrate_row_read [of cfg m obj "s\<lparr>cs_driver := f\<rparr>" q 0] assms(2,4,7) f d by auto
  then obtain s' where "c_orm_hydrate_row_from cfg memory_row_vtable q m 0 (map zero_field (columns m), s\<lparr>cs_driver := f\<rparr>) = (Ret (), (obj, s'))" ..
  then show ?thesis
    using assms(3,9) d(1) e(1) f(1)
    by (simp add: insert_then_read_def pbind_def on_db_def prepared_uncached drive_def)
qed

lemma record_roundtrip_witness:
  "\<exists>t. insert_then_read sample_config memory_row_vtable sample_api_table
     ([F_int32 7, F_text (Some ''ann''), F_ref (Some (F_int64 40))], uncached sample_rows \<lparr>script = [], live = 5\<rparr>)
   = (Ret (), ([F_int32 7, F_text (Some ''ann''), F_ref (Some (F_int64 40))], t))"
proof -
  let ?obj = "[F_int32 7, F_text (Some ''ann''), F_ref (Some (F_int64 40))]"
  let ?s = "uncached sample_rows \<lparr>script = [], live = 5\<rparr>"
  have "state_ok (connected [])" "no_oom (md_heap (connected []))"
    by (simp_all add: connected_def state_ok_def no_oom_def)
  from sim_run [OF this prod.collapse [symmetric]] have "mem_good sample_rows"
    unfolding sample_rows_def mem_good_def by blast
  then have "mem_good (cs_driver ?s)" by (simp add: uncached_def)
  moreover have "no_oom (cs_heap ?s)" "cs_cache ?s = None" by (simp_all add: uncached_def no_oom_def)
  moreover have "storable_all sample_config (columns sample_api_table) ?obj"
    by (auto simp: storable_all_def storable_def sample_api_table_def sample_column_def fits_def plain_value_def less_Suc_eq numeral_3_eq_3
        zero_field_def primitive_def is_text_type_def value_type_def sample_config_def)
  moreover have "length (columns sample_api_table) \<le> 32" "\<not> is_view sample_api_table" "ttl_columns sample_api_table = None"
    "query_insert sample_api_table = Some ''INSERT INTO u (id, name, age) VALUES (?, ?, ?)''"
    "query_select_all sample_api_table = Some ''SELECT * FROM u''" by (simp_all add: sample_api_table_def)
  moreover have "classify ''INSERT INTO u (id, name, age) VALUES (?, ?, ?)'' = (MEM_QUERY_INSERT, Some ''INTO '')"
    "parse_table_name ''INSERT INTO u (id, name, age) VALUES (?, ?, ?)'' ''INTO '' = Ret ''u''"
    "classify ''SELECT * FROM u'' = (MEM_QUERY_SELECT_ALL, Some ''FROM '')"
    "parse_table_name ''SELECT * FROM u'' ''FROM '' = Ret ''u''" by code_simp+
  ultimately show ?thesis by (rule record_roundtrip)
qed

end
