(* ===== verification/BatchProps.thy ===== *)
theory BatchProps
  imports MemoryKeep
begin

text \<open>
  The statements that the batch operations send to the driver, seen by an observer between the two: \<open>logged vt\<close> is
  the driver \<open>vt\<close> with a list of the texts it has been asked to prepare.
\<close>

section \<open>An observer of the driver\<close>

definition silent :: "('d, 'a) act \<Rightarrow> ('d \<times> string list, 'a) act" where
  "silent m s = (case m (fst s) of (r, d) \<Rightarrow> (r, (d, snd s)))"

definition logged :: "'d row_vtable \<Rightarrow> ('d \<times> string list) row_vtable" where
  "logged vt = \<lparr>
     rv_statements = \<lparr>
       vt_prepare = (\<lambda>sql s. case vt_prepare (rv_statements vt) sql (fst s) of (r, d) \<Rightarrow> (r, (d, snd s @ [sql]))),
       vt_finalize = (\<lambda>q. silent (vt_finalize (rv_statements vt) q)),
       vt_reset = (\<lambda>q. silent (vt_reset (rv_statements vt) q))\<rparr>,
     rv_bind_int32 = (\<lambda>q i w. silent (rv_bind_int32 vt q i w)),
     rv_bind_int64 = (\<lambda>q i w. silent (rv_bind_int64 vt q i w)),
     rv_bind_double = (\<lambda>q i w. silent (rv_bind_double vt q i w)),
     rv_bind_string = (\<lambda>q i p. silent (rv_bind_string vt q i p)),
     rv_bind_blob = (\<lambda>q i bs. silent (rv_bind_blob vt q i bs)),
     rv_bind_null = (\<lambda>q i. silent (rv_bind_null vt q i)),
     rv_step = (\<lambda>q. silent (rv_step vt q)),
     rv_get_int32 = (\<lambda>q i. silent (rv_get_int32 vt q i)),
     rv_get_int64 = (\<lambda>q i. silent (rv_get_int64 vt q i)),
     rv_get_double = (\<lambda>q i. silent (rv_get_double vt q i)),
     rv_get_string = (\<lambda>q i. silent (rv_get_string vt q i)),
     rv_get_blob = (\<lambda>q i. silent (rv_get_blob vt q i)),
     rv_is_null = (\<lambda>q i. silent (rv_is_null vt q i)),
     rv_get_column_count = map_option (\<lambda>f q. silent (f q)) (rv_get_column_count vt),
     rv_get_column_name = map_option (\<lambda>f q i. silent (f q i)) (rv_get_column_name vt)\<rparr>"

definition same_log :: "'d \<times> string list \<Rightarrow> 'd \<times> string list \<Rightarrow> bool" where
  "same_log d d' \<longleftrightarrow> snd d' = snd d"

lemma frames_silent: "frames same_log (silent m)"
  by (auto simp: frames_def same_log_def silent_def split: prod.splits)

interpretation logged: framed_rows "logged vt" same_log for vt
  by unfold_locales (auto simp: logged_def frames_silent, auto simp: same_log_def)

context framed_rows begin

lemma framed_on_arr [framing]: "framed (\<lambda>s. s) m \<Longrightarrow> framed snd (on_arr m)"
  unfolding framed_def on_arr_def by (fastforce split: prod.splits)

lemma framed_at_item [framing]: "framed snd m \<Longrightarrow> framed snd (at_item i m)"
  unfolding framed_def at_item_def by (fastforce split: prod.splits if_splits)

lemma framed_for_items [framing]: "(\<And>i. framed snd (body i)) \<Longrightarrow> framed snd (for_items body i k)"
  by (induction k arbitrary: i) (auto intro!: framing)

lemma framed_for_items_from [framing]: "(\<And>i idx. framed snd (body i idx)) \<Longrightarrow> framed snd (for_items_from body i k idx)"
  by (induction k arbitrary: i idx) (auto intro!: framing)

lemma framed_bind_cases [framing]: "framed snd (bind_cases cfg vt q j pk i k cs n idx)"
  by (induction cs arbitrary: n idx) (auto intro!: framing)

end

section \<open>What an action logs\<close>

definition logs :: "('s \<Rightarrow> ('d \<times> string list) cache_state) \<Rightarrow> ('s, 'a) act \<Rightarrow> ('a outcome \<Rightarrow> string list \<Rightarrow> bool) \<Rightarrow> bool" where
  \<comment> \<open>on a connection without a cache\<close>
  "logs db m P \<longleftrightarrow> (\<forall>s r t. m s = (r, t) \<longrightarrow> r \<noteq> Stuck \<longrightarrow> cs_cache (db s) = None \<longrightarrow>
     cs_cache (db t) = None \<and> (\<exists>L. snd (cs_driver (db t)) = snd (cs_driver (db s)) @ L \<and> P r L))"

lemma logsD:
  "logs db m P \<Longrightarrow> m s = (r, t) \<Longrightarrow> r \<noteq> Stuck \<Longrightarrow> cs_cache (db s) = None \<Longrightarrow>
     \<exists>L. snd (cs_driver (db t)) = snd (cs_driver (db s)) @ L \<and> P r L"
  unfolding logs_def by blast

lemma logs_conseq: "logs db m P \<Longrightarrow> (\<And>r L. P r L \<Longrightarrow> Q r L) \<Longrightarrow> logs db m Q"
  unfolding logs_def by blast

lemma logs_framed:
  fixes m :: "('s, 'a) act"
  assumes "logged.framed db m"
  shows "logs db m (\<lambda>r L. L = [])"
  unfolding logs_def using logged.framedD [OF assms] by (auto simp: logged.moved_def same_log_def)

lemma logs_bind:
  assumes m: "logs db m P" and k: "\<And>a. logs db (k a) (Q a)"
    and ret: "\<And>a r L1 L2. P (Ret a) L1 \<Longrightarrow> Q a r L2 \<Longrightarrow> R r (L1 @ L2)" and err: "\<And>e L. P (Err e) L \<Longrightarrow> R (Err e) L"
  shows "logs db (pbind m k) R"
  unfolding logs_def
proof (intro allI impI)
  fix s r u assume u: "pbind m k s = (r, u)" "r \<noteq> Stuck" "cs_cache (db s) = None"
  obtain r1 t where t: "m s = (r1, t)" by (cases "m s")
  show "cs_cache (db u) = None \<and> (\<exists>L. snd (cs_driver (db u)) = snd (cs_driver (db s)) @ L \<and> R r L)"
  proof (cases r1)
    case (Ret a)
    then obtain L1 where L1: "cs_cache (db t) = None" "snd (cs_driver (db t)) = snd (cs_driver (db s)) @ L1" "P (Ret a) L1"
      using m t u(3) unfolding logs_def by blast
    have "k a t = (r, u)" using t u(1) Ret by (simp add: pbind_def)
    then obtain L2 where "cs_cache (db u) = None" "snd (cs_driver (db u)) = snd (cs_driver (db t)) @ L2" "Q a r L2"
      using k [of a] u(2) L1(1) unfolding logs_def by blast
    with L1 ret show ?thesis by (intro conjI exI [of _ "L1 @ L2"]) simp_all
  next
    case (Err e)
    then have "r = Err e" "u = t" using t u(1) by (simp_all add: pbind_def)
    moreover obtain L where "cs_cache (db t) = None" "snd (cs_driver (db t)) = snd (cs_driver (db s)) @ L" "P (Err e) L"
      using m t u(3) Err unfolding logs_def by blast
    ultimately show ?thesis using err by blast
  qed (use t u in \<open>simp add: pbind_def\<close>)
qed

lemma logs_on_arr: "logs (\<lambda>s. s) m P \<Longrightarrow> logs snd (on_arr m) P"
  unfolding logs_def on_arr_def by (fastforce split: prod.splits)

lemma logs_attempt: "logs db m P \<Longrightarrow> logs db (attempt m) (\<lambda>r L. \<exists>r'. P r' L)"
  unfolding logs_def attempt_def by (fastforce split: prod.splits outcome.splits)

lemma logs_prepare: "logs (\<lambda>s. s) (drive (vt_prepare (rv_statements (logged vt)) sql)) (\<lambda>r L. L = [sql])"
  by (auto simp: logs_def drive_def logged_def split: prod.splits)

lemma logs_finalize: "logs (\<lambda>s. s) (drive (vt_finalize (rv_statements (logged vt)) q)) (\<lambda>r L. L = [])"
  by (auto simp: logs_def drive_def logged_def silent_def split: prod.splits)

section \<open>Statements from a builder\<close>

lemma append_valid:
  "c_orm_string_builder_append x s = (C_ORM_OK, t) \<Longrightarrow> \<exists>b. fst t = Some b \<and> valid b"
  by (auto simp: c_orm_string_builder_append_def Let_def split: prod.splits option.splits if_splits)

lemma appends_valid:
  "appends c_orm_string_builder_append xs s = (C_ORM_OK, t) \<Longrightarrow> \<exists>b. fst s = Some b \<and> valid b \<Longrightarrow> \<exists>b. fst t = Some b \<and> valid b"
proof (induction xs arbitrary: s)
  case (Cons x xs)
  then obtain u where "c_orm_string_builder_append x s = (C_ORM_OK, u)" "appends c_orm_string_builder_append xs u = (C_ORM_OK, t)"
    by (auto simp: appends_Cons then_ok_OK)
  with Cons.IH append_valid show ?case by blast
qed simp

lemma build_sql_text:
  assumes "build_sql xs h = (Ret b, h')"
  shows "\<exists>sb. b = Some sb \<and> valid sb \<and> buffer sb = texts xs" and "fst (built_text b k) = Ret (Some (texts xs))"
proof -
  obtain rc b1 h1 where i: "c_orm_string_builder_init True h = (rc, b1, h1)" by (metis prod_cases3)
  obtain rc2 b2 h2 where a: "appends c_orm_string_builder_append xs (b1, h1) = (rc2, (b2, h2))" by (metis prod_cases3)
  have ok: "rc = C_ORM_OK" "rc2 = C_ORM_OK" "b2 = b" using assms i a by (auto simp: build_sql_def split: if_splits)
  obtain b0 where b0: "b1 = Some b0" using i ok(1) init_fail by (cases b1) blast+
  note init = init_inv [OF i [unfolded b0]]
  have "sb_good (b1, h1)" using init by (simp add: sb_good_def b0)
  from sb.appends_ok [OF this a [unfolded ok(2)]] have "sb_text (b2, h2) = texts xs" using init by (simp add: sb_text_def b0)
  moreover obtain sb where "b2 = Some sb" "valid sb" using appends_valid [OF a [unfolded ok(2)]] init b0 by auto
  ultimately show *: "\<exists>sb. b = Some sb \<and> valid sb \<and> buffer sb = texts xs" by (simp add: sb_text_def ok(3))
  then show "fst (built_text b k) = Ret (Some (texts xs))" by (auto simp: built_text_def c_orm_string_builder_get_def)
qed

section \<open>Transactions\<close>

lemma logs_on_db: "logs (\<lambda>s. s) m P \<Longrightarrow> logs snd (on_db m) P"
  unfolding logs_def on_db_def by (fastforce split: prod.splits)

lemma logs_using_query:
  \<comment> \<open>the frame around a statement\<close>
  fixes body :: "nat \<Rightarrow> ('s, 'a) act"
  assumes prep: "logs db prep (\<lambda>r L. L = [sql])" and fin: "\<And>q. logs db (fin q) (\<lambda>r L. L = [])"
    and body: "\<And>q. logs db (body q) (\<lambda>r L. L = [])"
  shows "logs db (using_query prep fin body) (\<lambda>r L. L = [sql])"
proof -
  have att: "logs db (attempt (body q)) (\<lambda>r L. L = [])" for q
    using logs_attempt [OF body] by (rule logs_conseq) blast
  have ret: "logs db (preturn a) (\<lambda>r L. L = [])" "logs db (perr e) (\<lambda>r L. L = [])" for a :: 'a and e
    by (auto intro!: logs_framed framing)
  have rest: "logs db (case r of Inr a \<Rightarrow> pbind (fin q) (\<lambda>_. preturn a) | Inl e \<Rightarrow> pbind (fin q) (\<lambda>_. perr e))
      (\<lambda>r L. L = [])" for q and r :: "c_orm_error_t + 'a"
    by (cases r) (auto intro!: logs_bind [OF fin ret(1)] logs_bind [OF fin ret(2)])
  show ?thesis unfolding using_query_attempt
    by (rule logs_bind [OF prep logs_bind [OF att rest]]) auto
qed

lemma logs_prepared: "logs (\<lambda>s. s) (prepared (logged vt) (Some sql)) (\<lambda>r L. L = [sql])"
  using logs_prepare [of vt sql] by (auto simp: logs_def prepared_def c_orm_prepare_cached_def)

lemma logs_given_back: "logs (\<lambda>s. s) (given_back (logged vt) q) (\<lambda>r L. L = [])"
  using logs_finalize [of vt q] by (auto simp: logs_def given_back_def c_orm_finalize_cached_def)

lemma logs_db_query: "(\<And>q. logged.framed (\<lambda>s. s) (body q)) \<Longrightarrow> logs (\<lambda>s. s) (db_query (logged vt) (Some sql) body) (\<lambda>r L. L = [sql])"
  unfolding db_query_def by (rule logs_using_query [OF logs_prepared logs_given_back logs_framed])

lemma logs_row_query: "(\<And>q. logged.framed snd (body q)) \<Longrightarrow> logs snd (row_query (logged vt) (Some sql) body) (\<lambda>r L. L = [sql])"
  unfolding row_query_def by (rule logs_using_query [OF logs_on_db [OF logs_prepared] logs_on_db [OF logs_given_back] logs_framed])

lemma logs_raw: "logs (\<lambda>s. s) (c_orm_execute_raw (logged vt) (Some sql)) (\<lambda>r L. L = [sql])"
  unfolding c_orm_execute_raw_def option.case by (rule logs_db_query) (auto intro!: framing)

lemma logs_or_rollback:
  assumes "logs snd m P"
  shows "logs snd (or_rollback (logged vt) m) (\<lambda>r L. case r of Err e \<Rightarrow> \<exists>L'. P (Err e) L' \<and> L = L' @ [''ROLLBACK''] | r \<Rightarrow> P r L)"
proof -
  have eq: "or_rollback (logged vt) m = pbind (attempt m) (\<lambda>r. case r of Inr a \<Rightarrow> preturn a
      | Inl e \<Rightarrow> pbind (on_arr (attempt (c_orm_transaction_rollback (logged vt)))) (\<lambda>_. perr e))"
    by (rule ext) (auto simp: or_rollback_def pbind_def attempt_def preturn_def split: prod.splits outcome.splits)
  have att: "logs snd (attempt m) (\<lambda>r L. case r of Ret (Inl e) \<Rightarrow> P (Err e) L | Ret (Inr a) \<Rightarrow> P (Ret a) L | _ \<Rightarrow> False)"
    using assms unfolding logs_def attempt_def by (fastforce split: prod.splits outcome.splits)
  have ret: "logs snd (preturn a) (\<lambda>r L. L = [] \<and> r = Ret a)" "logs snd (perr e) (\<lambda>r L. L = [] \<and> r = Err e)" for a e
    by (simp_all add: logs_def preturn_def perr_def)
  have undo: "logs snd (on_arr (attempt (c_orm_transaction_rollback (logged vt)))) (\<lambda>r L. L = [''ROLLBACK''] \<and> (\<exists>x. r = Ret x))"
  proof (rule logs_on_arr)
    have "logs (\<lambda>s. s) (attempt (c_orm_transaction_rollback (logged vt))) (\<lambda>r L. L = [''ROLLBACK''])"
      using logs_attempt [OF logs_raw [of vt "''ROLLBACK''"]] by (simp add: c_orm_transaction_rollback_def)
    then show "logs (\<lambda>s. s) (attempt (c_orm_transaction_rollback (logged vt))) (\<lambda>r L. L = [''ROLLBACK''] \<and> (\<exists>x. r = Ret x))"
      unfolding logs_def attempt_def by (fastforce split: prod.splits outcome.splits)
  qed
  have rest: "logs snd (case r of Inr a \<Rightarrow> preturn a
      | Inl e \<Rightarrow> pbind (on_arr (attempt (c_orm_transaction_rollback (logged vt)))) (\<lambda>_. perr e))
    (\<lambda>r' L. case r of Inr a \<Rightarrow> r' = Ret a \<and> L = [] | Inl e \<Rightarrow> r' = Err e \<and> L = [''ROLLBACK''])" for r :: "c_orm_error_t + 'b"
  proof (cases r)
    case (Inl e)
    show ?thesis unfolding Inl sum.case by (rule logs_bind [OF undo ret(2)]) auto
  qed (simp add: ret(1) [THEN logs_conseq])
  show ?thesis unfolding eq
    by (rule logs_bind [OF att rest]) (auto split: sum.splits outcome.splits)
qed

lemma logs_or_finalize:
  assumes "logs snd m P"
  shows "logs snd (or_finalize (logged vt) q m) (\<lambda>r L. case r of Err e \<Rightarrow> \<exists>e'. P (Err e') L | r \<Rightarrow> P r L)"
proof -
  have eq: "or_finalize (logged vt) q m = pbind (attempt m) (\<lambda>r. case r of Inr a \<Rightarrow> preturn a
      | Inl e \<Rightarrow> pbind (on_arr (driver_finalize (logged vt) q)) (\<lambda>_. perr e))"
    by (rule ext) (auto simp: or_finalize_def pbind_def attempt_def preturn_def split: prod.splits outcome.splits)
  have att: "logs snd (attempt m) (\<lambda>r L. case r of Ret (Inl e) \<Rightarrow> P (Err e) L | Ret (Inr a) \<Rightarrow> P (Ret a) L | _ \<Rightarrow> False)"
    using assms unfolding logs_def attempt_def by (fastforce split: prod.splits outcome.splits)
  have ret: "logs snd (preturn a) (\<lambda>r L. L = [] \<and> r = Ret a)" "logs snd (perr e) (\<lambda>r L. L = [] \<and> r = Err e)" for a e
    by (simp_all add: logs_def preturn_def perr_def)
  have fin: "logs snd (on_arr (driver_finalize (logged vt) q)) (\<lambda>r L. L = [])"
    using logs_on_arr [OF logs_finalize] by (simp add: driver_finalize_def)
  have rest: "logs snd (case r of Inr a \<Rightarrow> preturn a | Inl e \<Rightarrow> pbind (on_arr (driver_finalize (logged vt) q)) (\<lambda>_. perr e))
    (\<lambda>r' L. L = [] \<and> (case r of Inr a \<Rightarrow> r' = Ret a | Inl e \<Rightarrow> \<exists>e. r' = Err e))" for r :: "c_orm_error_t + 'b"
  proof (cases r)
    case (Inl e)
    show ?thesis unfolding Inl sum.case by (rule logs_bind [OF fin ret(2)]) auto
  qed (simp add: ret(1) [THEN logs_conseq])
  show ?thesis unfolding eq
    by (rule logs_bind [OF att rest]) (auto split: sum.splits outcome.splits)
qed

lemma logs_built:
  \<comment> \<open>the text of a builder, and what is done with it\<close>
  fixes k :: "string_builder option \<Rightarrow> cptr \<Rightarrow> ('d \<times> string list, 'a) arr_act"
  assumes k: "\<And>b. logs snd (k b (Some (texts xs))) Q"
  shows "logs snd (pbind (or_rollback (logged vt) (on_arr (on_heap (build_sql xs)))) (\<lambda>b. pbind (on_arr (on_heap (built_text b))) (k b)))
    (\<lambda>r L. Q r L \<or> (\<exists>e. r = Err e \<and> L = [''ROLLBACK'']))"
  unfolding logs_def
proof (intro allI impI)
  fix s r u
  assume u: "pbind (or_rollback (logged vt) (on_arr (on_heap (build_sql xs)))) (\<lambda>b. pbind (on_arr (on_heap (built_text b))) (k b)) s = (r, u)"
    "r \<noteq> Stuck" "cs_cache (snd s) = None"
  obtain rb h where h: "build_sql xs (cs_heap (snd s)) = (rb, h)" by (cases "build_sql xs (cs_heap (snd s))")
  have run: "on_arr (on_heap (build_sql xs)) s = (rb, (fst s, snd s\<lparr>cs_heap := h\<rparr>))" by (simp add: on_arr_def on_heap_def h)
  show "cs_cache (snd u) = None \<and> (\<exists>L. snd (cs_driver (snd u)) = snd (cs_driver (snd s)) @ L \<and> (Q r L \<or> (\<exists>e. r = Err e \<and> L = [''ROLLBACK''])))"
  proof (cases rb)
    case (Ret b)
    obtain h2 where "built_text b h = (Ret (Some (texts xs)), h2)"
      using build_sql_text(2) [OF h [unfolded Ret], of h] by (metis prod.collapse)
    then have "on_arr (on_heap (built_text b)) (fst s, snd s\<lparr>cs_heap := h\<rparr>) = (Ret (Some (texts xs)), (fst s, snd s\<lparr>cs_heap := h2\<rparr>))"
      by (simp add: on_arr_def on_heap_def)
    moreover have "or_rollback (logged vt) (on_arr (on_heap (build_sql xs))) s = (Ret b, (fst s, snd s\<lparr>cs_heap := h\<rparr>))"
      by (simp add: or_rollback_def run Ret)
    ultimately have "k b (Some (texts xs)) (fst s, snd s\<lparr>cs_heap := h2\<rparr>) = (r, u)" using u(1) by (simp add: pbind_def)
    with k [of b] u(2,3) show ?thesis unfolding logs_def by fastforce
  next
    case (Err e)
    have "logged.framed snd (on_arr (on_heap (build_sql xs)))" by (intro framing)
    note log = logs_or_rollback [OF logs_framed [OF this], of vt]
    obtain r1 t where t: "or_rollback (logged vt) (on_arr (on_heap (build_sql xs))) s = (r1, t)"
      by (cases "or_rollback (logged vt) (on_arr (on_heap (build_sql xs))) s")
    have "\<nexists>b. r1 = Ret b" using t by (auto simp: or_rollback_def run Err pbind_def perr_def split: prod.splits outcome.splits)
    then obtain e1 where e1: "r1 = Err e1" "r = Err e1" "t = u" using u(1,2) t by (cases r1) (auto simp: pbind_def)
    have "cs_cache (snd t) = None \<and> (\<exists>L. snd (cs_driver (snd t)) = snd (cs_driver (snd s)) @ L \<and> L = [''ROLLBACK''])"
      using log t u(3) e1(1) unfolding logs_def by fastforce
    with e1 show ?thesis by auto
  qed (use u run in \<open>simp add: pbind_def or_rollback_def\<close>)
qed

text \<open>One round sends its statement, and a rollback when something in it fails.\<close>

definition round_log :: "string \<Rightarrow> unit outcome \<Rightarrow> string list \<Rightarrow> bool" where
  "round_log sql r L \<longleftrightarrow> (case r of Err e \<Rightarrow> L = [''ROLLBACK''] \<or> L = [sql, ''ROLLBACK''] | _ \<Rightarrow> L = [sql])"

lemma logs_run_chunk:
  assumes "\<And>q. logged.framed snd (bind_all q)" and "logged.framed snd after"
  shows "logs snd (run_chunk (logged vt) xs bind_all after) (round_log (texts xs))"
proof -
  have prep: "logs snd (on_arr (prepare_or_free (logged vt) b (Some sql))) (\<lambda>r L. L = [sql])" for b sql
  proof (rule logs_on_arr)
    have p: "logs (\<lambda>s. s) (attempt (driver_prepare (logged vt) (Some sql))) (\<lambda>r L. L = [sql])"
      using logs_attempt [OF logs_prepare [of vt sql]] by (simp add: driver_prepare_def)
    have "logged.framed (\<lambda>s. s) (case r of Inl e \<Rightarrow> pbind (on_heap (free_builder b)) (\<lambda>_. perr e) | Inr q \<Rightarrow> preturn q)" for r
      by (auto intro!: framing)
    then show "logs (\<lambda>s. s) (prepare_or_free (logged vt) b (Some sql)) (\<lambda>r L. L = [sql])"
      unfolding prepare_or_free_def by (rule logs_bind [OF p logs_framed]) auto
  qed
  have step: "logs snd (on_arr (step_finalize (logged vt) q)) (\<lambda>r L. L = [])" for q
  proof (rule logs_on_arr)
    have "logs (\<lambda>s. s) (driver_finalize (logged vt) q) (\<lambda>r L. L = [])" by (simp add: driver_finalize_def logs_finalize)
    moreover have "logs (\<lambda>s. s) (case r of Inl e \<Rightarrow> perr e | Inr x \<Rightarrow> preturn ()) (\<lambda>r L. L = [])" for r :: "c_orm_error_t + bool"
      by (auto intro!: logs_framed framing)
    moreover have "logs (\<lambda>s. s) (attempt (stepped (logged vt) q)) (\<lambda>r L. L = [])"
      by (auto intro!: logs_framed framing)
    ultimately show "logs (\<lambda>s. s) (step_finalize (logged vt) q) (\<lambda>r L. L = [])"
      unfolding step_finalize_def by (intro logs_bind [where P = "\<lambda>r L. L = []" and Q = "\<lambda>a r L. L = []"]) simp_all
  qed
  have body: "logs snd (pbind (or_finalize (logged vt) q (bind_all q)) (\<lambda>_. pbind (on_arr (step_finalize (logged vt) q)) (\<lambda>_. after)))
      (\<lambda>r L. L = [])" for q
  proof -
    have b: "logs snd (or_finalize (logged vt) q (bind_all q)) (\<lambda>r L. L = [])"
      using logs_or_finalize [OF logs_framed [OF assms(1)]] by (rule logs_conseq) (auto split: outcome.splits)
    show ?thesis by (rule logs_bind [OF b logs_bind [OF step logs_framed [OF assms(2)]]]) auto
  qed
  have rest: "logs snd (or_rollback (logged vt) (pbind (on_arr (prepare_or_free (logged vt) b (Some (texts xs)))) (\<lambda>q.
      pbind (or_finalize (logged vt) q (bind_all q)) (\<lambda>_. pbind (on_arr (step_finalize (logged vt) q)) (\<lambda>_. after)))))
    (\<lambda>r L. case r of Err e \<Rightarrow> L = [texts xs, ''ROLLBACK''] | _ \<Rightarrow> L = [texts xs])" for b
  proof -
    have "logs snd (pbind (on_arr (prepare_or_free (logged vt) b (Some (texts xs)))) (\<lambda>q.
      pbind (or_finalize (logged vt) q (bind_all q)) (\<lambda>_. pbind (on_arr (step_finalize (logged vt) q)) (\<lambda>_. after)))) (\<lambda>r L. L = [texts xs])"
      by (rule logs_bind [OF prep body]) auto
    from logs_or_rollback [OF this] show ?thesis by (rule logs_conseq) (auto split: outcome.splits)
  qed
  show ?thesis
    unfolding run_chunk_def
    by (rule logs_conseq, rule logs_built, rule rest) (auto simp: round_log_def split: outcome.splits)
qed

function chunk_sizes :: "nat \<Rightarrow> nat \<Rightarrow> nat list" where
  \<comment> \<open>the lengths of the chunks of \<open>n\<close> items\<close>
  "chunk_sizes chunk n = (if n = 0 \<or> chunk = 0 then [] else min chunk n # chunk_sizes chunk (n - chunk))"
  by pat_completeness auto
termination by (relation "measure snd") auto

declare chunk_sizes.simps [simp del]

lemma chunk_sizes_bounds:
  "0 < chunk \<Longrightarrow> sum_list (chunk_sizes chunk n) = n" "k \<in> set (chunk_sizes chunk n) \<Longrightarrow> 0 < k \<and> k \<le> chunk"
proof (induction chunk n rule: chunk_sizes.induct)
  case (1 chunk n)
  { case 1
    then show ?case using "1.IH"(1) by (subst chunk_sizes.simps) auto
  next
    case 2
    then show ?case using "1.IH"(2) by (subst (asm) chunk_sizes.simps) (auto split: if_splits)
  }
qed

definition rounds_log :: "string list \<Rightarrow> unit outcome \<Rightarrow> string list \<Rightarrow> bool" where
  "rounds_log sqls r L \<longleftrightarrow> (case r of Err e \<Rightarrow> \<exists>k \<le> length sqls. L = take k sqls @ [''ROLLBACK''] | _ \<Rightarrow> L = sqls)"

lemma logs_rounds:
  assumes "\<And>i k. logs snd (body i k) (round_log (sql k))"
  shows "logs snd (batch_rounds body chunk i n) (rounds_log (map sql (chunk_sizes chunk (n - i))))"
  using assms
proof (induction body chunk i n rule: batch_rounds.induct)
  case (1 body chunk i n)
  show ?case
  proof (cases "n \<le> i")
    case True
    then show ?thesis by (simp add: batch_rounds.simps [of body chunk i n] chunk_sizes.simps [of chunk 0] logs_def preturn_def rounds_log_def)
  next
    case False
    define k where "k = (if i + chunk > n then n - i else chunk)"
    show ?thesis
    proof (cases "k = 0")
      case True
      with False have "batch_rounds body chunk i n = stuck" by (simp add: batch_rounds.simps [of body chunk i n] k_def Let_def)
      then show ?thesis by (simp add: logs_def stuck_def)
    next
      case nz: False
      then have "0 < chunk" using False by (auto simp: k_def split: if_splits)
      then have k: "k = min chunk (n - i)" "n - (i + k) = n - i - chunk" "batch_rounds body chunk i n = pbind (body i k) (\<lambda>_. batch_rounds body chunk (i + k) n)"
        using False nz by (auto simp: k_def Let_def batch_rounds.simps [of body chunk i n])
      have sizes: "chunk_sizes chunk (n - i) = k # chunk_sizes chunk (n - i - chunk)"
        using False \<open>0 < chunk\<close> by (simp add: chunk_sizes.simps [of chunk "n - i"] k(1))
      have IH: "logs snd (batch_rounds body chunk (i + k) n) (rounds_log (map sql (chunk_sizes chunk (n - i - chunk))))"
        using "1.IH" [OF False k_def nz "1.prems"] by (simp only: k(2))
      show ?thesis unfolding k(3) sizes
      proof (rule logs_bind [OF "1.prems" IH], goal_cases)
        case (1 a r L1 L2)
        then show ?case by (cases r) (force simp: round_log_def rounds_log_def)+
      next
        case (2 e L)
        then show ?case by (auto simp: round_log_def rounds_log_def intro: exI [of _ 0] exI [of _ 1])
      qed
    qed
  qed
qed

definition transaction_log :: "string list \<Rightarrow> unit outcome \<Rightarrow> string list \<Rightarrow> bool" where
  \<comment> \<open>a transaction of these statements, or one that failed and was rolled back\<close>
  "transaction_log sqls r L \<longleftrightarrow>
     (case r of
        Err e \<Rightarrow> L = [''BEGIN''] \<or> L = ''BEGIN'' # sqls @ [''COMMIT''] \<or> (\<exists>k \<le> length sqls. L = ''BEGIN'' # take k sqls @ [''ROLLBACK''])
      | _ \<Rightarrow> L = ''BEGIN'' # sqls @ [''COMMIT''])"

lemma logs_transaction:
  assumes "logs snd rounds (rounds_log sqls)"
  shows "logs snd (in_transaction (logged vt) rounds) (transaction_log sqls)"
proof -
  have opens: "logs snd (on_arr (c_orm_transaction_begin (logged vt))) (\<lambda>r L. L = [''BEGIN''])"
    by (rule logs_on_arr) (simp add: c_orm_transaction_begin_def logs_raw)
  have commit: "logs snd (on_arr (c_orm_transaction_commit (logged vt))) (\<lambda>r L. L = [''COMMIT''])"
    by (rule logs_on_arr) (simp add: c_orm_transaction_commit_def logs_raw)
  have rest: "logs snd (pbind rounds (\<lambda>_. on_arr (c_orm_transaction_commit (logged vt))))
    (\<lambda>r L. L = sqls @ [''COMMIT''] \<or> (\<exists>e. r = Err e \<and> (\<exists>k \<le> length sqls. L = take k sqls @ [''ROLLBACK''])))"
    by (rule logs_bind [OF assms commit]) (auto simp: rounds_log_def)
  show ?thesis unfolding in_transaction_def
    by (rule logs_bind [OF opens rest]) (auto simp: transaction_log_def split: outcome.splits)
qed

section \<open>The batch operations\<close>

datatype batch_op = Insert_batch c_orm_on_conflict_t | Update_batch | Delete_batch

fun batch_exec :: "api_config \<Rightarrow> 'd row_vtable \<Rightarrow> 'd api_hooks \<Rightarrow> api_table \<Rightarrow> nat \<Rightarrow> batch_op \<Rightarrow> ('d, unit) arr_act" where
  "batch_exec cfg vt hooks m asked (Insert_batch policy) = c_orm_insert_batch_ext cfg vt hooks m asked policy"
| "batch_exec cfg vt hooks m asked Update_batch = c_orm_update_batch cfg vt hooks m asked"
| "batch_exec cfg vt hooks m asked Delete_batch = c_orm_delete_batch vt hooks m asked"

fun batch_sql :: "api_table \<Rightarrow> batch_op \<Rightarrow> nat \<Rightarrow> string" where
  \<comment> \<open>the statement for a chunk of \<open>k\<close> items\<close>
  "batch_sql m (Insert_batch policy) k = texts (insert_batch_pieces m policy k)"
| "batch_sql m Update_batch k = (case key_column m of None \<Rightarrow> [] | Some (j, pk) \<Rightarrow> texts (update_batch_pieces m pk k))"
| "batch_sql m Delete_batch k = (case key_column m of None \<Rightarrow> [] | Some (j, pk) \<Rightarrow> texts (delete_batch_pieces m pk k))"

fun batch_chunk :: "api_table \<Rightarrow> nat \<Rightarrow> batch_op \<Rightarrow> nat" where
  "batch_chunk m asked (Insert_batch policy) = insert_chunk_size m asked"
| "batch_chunk m asked Update_batch = update_chunk_size m asked"
| "batch_chunk m asked Delete_batch = (if asked = 0 then 1000 else asked)"

definition quiet_hooks :: "('d \<times> string list) api_hooks \<Rightarrow> bool" where
  \<comment> \<open>the hooks may look at the record and change it, but send nothing and leave the statement cache alone\<close>
  "quiet_hooks hooks \<longleftrightarrow>
     (\<forall>h \<in> {before_save hooks, after_save hooks, before_insert hooks, after_insert hooks, before_update hooks, after_update hooks,
        before_delete hooks, after_delete hooks}. \<forall>s r t. hook h s = (r, t) \<longrightarrow> r \<noteq> Stuck \<longrightarrow>
          snd (cs_driver (snd t)) = snd (cs_driver (snd s)) \<and> cs_cache (snd t) = cs_cache (snd s) \<and>
          cs_entries (snd t) = cs_entries (snd s) \<and> cs_fresh (snd t) = cs_fresh (snd s))"

lemma quiet_framed:
  assumes "quiet_hooks hooks"
    and "h \<in> {before_save hooks, after_save hooks, before_insert hooks, after_insert hooks, before_update hooks, after_update hooks,
      before_delete hooks, after_delete hooks}"
  shows "logged.framed snd (hook h)"
  using assms(1)[unfolded quiet_hooks_def, rule_format, OF assms(2)] by (auto simp: logged.framed_def logged.moved_def same_log_def)

lemma quiet_no_hooks: "quiet_hooks no_hooks"
  by (simp add: quiet_hooks_def no_hooks_def hook_def preturn_def)

lemma logs_chunks:
  assumes "quiet_hooks hooks"
  shows "logs snd (insert_chunk cfg (logged vt) hooks m policy i k) (round_log (texts (insert_batch_pieces m policy k)))"
    and "logs snd (update_chunk cfg (logged vt) hooks m j pk i k) (round_log (texts (update_batch_pieces m pk k)))"
    and "logs snd (delete_chunk (logged vt) hooks m j pk i k) (round_log (texts (delete_batch_pieces m pk k)))"
  unfolding insert_chunk_def update_chunk_def delete_chunk_def
  by (rule logs_run_chunk; auto intro!: framing quiet_framed [OF assms])+

lemma batch_stuck: "0 < n \<Longrightarrow> fst (in_transaction vt (batch_rounds body 0 0 n) s) \<noteq> Ret ()"
  by (auto simp: in_transaction_def batch_rounds.simps [of body 0 0 n] pbind_def stuck_def split: prod.splits outcome.splits)

lemma batch_cases:
  assumes "quiet_hooks hooks"
  obtains e where "batch_exec cfg (logged vt) hooks m asked x s = (Err e, s)"
  | "fst s = []" "batch_exec cfg (logged vt) hooks m asked x s = (Ret (), s)"
  | body where "\<And>i k. logs snd (body i k) (round_log (batch_sql m x k))" "fst s \<noteq> []"
      "batch_exec cfg (logged vt) hooks m asked x s = in_transaction (logged vt) (batch_rounds body (batch_chunk m asked x) 0 (length (fst s))) s"
proof -
  consider "is_view m" | "\<not> is_view m" "fst s = []" | "\<not> is_view m" "fst s \<noteq> []" by blast
  then show thesis
  proof cases
    case 1
    then have "batch_exec cfg (logged vt) hooks m asked x s = (Err C_ORM_ERROR_READ_ONLY, s)"
      by (cases x) (simp_all add: c_orm_insert_batch_ext_def c_orm_update_batch_def c_orm_delete_batch_def)
    then show thesis by (rule that(1))
  next
    case 2
    then have "batch_exec cfg (logged vt) hooks m asked x s = (Ret (), s)"
      by (cases x) (simp_all add: c_orm_insert_batch_ext_def c_orm_update_batch_def c_orm_delete_batch_def)
    with 2 show thesis by (intro that(2))
  next
    case some: 3
    note L = logs_chunks [OF assms]
    show thesis
    proof (cases x)
      case (Insert_batch policy)
      show thesis
        by (rule that(3) [of "insert_chunk cfg (logged vt) hooks m policy"]) (use L(1) some Insert_batch in \<open>simp_all add: c_orm_insert_batch_ext_def\<close>)
    next
      case Update_batch
      show thesis
      proof (cases "key_column m")
        case None
        then show thesis using some Update_batch by (intro that(1)) (simp add: c_orm_update_batch_def)
      next
        case (Some jpk)
        show thesis
          by (rule that(3) [of "update_chunk cfg (logged vt) hooks m (fst jpk) (snd jpk)"])
            (use L(2) some Update_batch Some in \<open>simp_all add: c_orm_update_batch_def split_beta\<close>)
      qed
    next
      case Delete_batch
      show thesis
      proof (cases "key_column m")
        case None
        then show thesis using some Delete_batch by (intro that(1)) (simp add: c_orm_delete_batch_def)
      next
        case (Some jpk)
        show thesis
          by (rule that(3) [of "delete_chunk (logged vt) hooks m (fst jpk) (snd jpk)"])
            (use L(3) some Delete_batch Some in \<open>simp_all add: c_orm_delete_batch_def split_beta\<close>)
      qed
    qed
  qed
qed


definition sample_batch :: "field list list \<times> (mem_state \<times> string list) cache_state" where
  "sample_batch = (replicate 3 [F_int32 7, F_text (Some ''ann''), F_ref (Some (F_int64 40))], uncached (connected [], []) \<lparr>script = [], live = 0\<rparr>)"

lemma sample_batch_run:
  "fst (batch_exec sample_config (logged memory_row_vtable) no_hooks sample_api_table 2 Delete_batch sample_batch) = Ret ()"
  "snd (cs_driver (snd (snd (batch_exec sample_config (logged memory_row_vtable) no_hooks sample_api_table 2 Delete_batch sample_batch)))) =
     [''BEGIN'', ''DELETE FROM u WHERE id IN (?, ?)'', ''DELETE FROM u WHERE id IN (?)'', ''COMMIT'']"
  "cs_cache (snd sample_batch) = None" "snd (cs_driver (snd sample_batch)) = []" "length (fst sample_batch) = 3"
  by code_simp+


end
