(* ===== verification/OauthToken.thy ===== *)
theory OauthToken
  imports Row
begin

text \<open>
  The parts of \<open>src/c_orm_oauth2.c\<close> that do not ask the database: how long a token is valid, the encoding of tokens
  on disk (the branch of the code for other compilers than Microsoft's), and the check of scopes. A text that is
  returned is what a reader of the C string sees; the block it lives in is the caller's.
\<close>

section \<open>Expiry\<close>

definition add_int64 :: "int \<Rightarrow> int \<Rightarrow> int outcome" where
  \<comment> \<open>a sum of two \<open>int64_t\<close>, undefined when it overflows\<close>
  "add_int64 a b = (if a + b < - (2 ^ 63) \<or> 2 ^ 63 \<le> a + b then Stuck else Ret (a + b))"

definition c_orm_oauth2_is_token_valid :: "64 word \<Rightarrow> 32 word \<Rightarrow> 64 word \<Rightarrow> bool outcome" where
  \<comment> \<open>of a token's \<open>created_at\<close> and \<open>expires_in\<close>\<close>
  "c_orm_oauth2_is_token_valid created_at expires_in time_now =
     (case add_int64 (sint created_at) (sint expires_in) of
        Ret t \<Rightarrow> Ret (t > sint time_now) | Err e \<Rightarrow> Err e | Stuck \<Rightarrow> Stuck)"

definition c_orm_oauth2_calculate_expiration :: "64 word \<Rightarrow> 32 word \<Rightarrow> bool \<Rightarrow> 64 word outcome" where
  "c_orm_oauth2_calculate_expiration current_timestamp expires_in out_expiration =
     (if \<not> out_expiration then Err C_ORM_ERROR_VALIDATION
      else case add_int64 (sint current_timestamp) (sint expires_in) of
        Ret t \<Rightarrow> Ret (word_of_int t) | Err e \<Rightarrow> Err e | Stuck \<Rightarrow> Stuck)"

section \<open>Tokens on disk\<close>

definition hex_digit :: "8 word \<Rightarrow> char" where
  \<comment> \<open>a digit of \<open>%02x\<close>\<close>
  "hex_digit n = (if n < 10 then char_of (48 + unat n) else char_of (87 + unat n))"

definition hex_byte :: "8 word \<Rightarrow> string" where
  "hex_byte b = [hex_digit (drop_bit 4 b), hex_digit (b AND 15)]"

definition c_orm_oauth2_encrypt_token :: "cptr \<Rightarrow> (heap, string) act" where
  "c_orm_oauth2_encrypt_token plain_token =
     (case plain_token of
        None \<Rightarrow> perr C_ORM_ERROR_VALIDATION
      | Some plain \<Rightarrow> pbind malloc (\<lambda>ok.
          if \<not> ok then perr C_ORM_ERROR_VALIDATION
          else preturn (concat (map (\<lambda>b. hex_byte (b XOR 0x42)) (bytes_of plain)))))"

definition hex_to_byte :: "char \<Rightarrow> 8 word" where
  \<comment> \<open>any other character counts as 0\<close>
  "hex_to_byte c =
     (let n = of_char c :: 8 word in
      if 48 \<le> n \<and> n \<le> 57 then n - 48
      else if 97 \<le> n \<and> n \<le> 102 then n - 97 + 10
      else if 65 \<le> n \<and> n \<le> 70 then n - 65 + 10
      else 0)"

fun decoded :: "string \<Rightarrow> 8 word list" where
  \<comment> \<open>\<open>bin_len = hex_len / 2\<close> bytes; an odd digit at the end is dropped\<close>
  "decoded (a # b # s) = ((push_bit 4 (hex_to_byte a) OR hex_to_byte b) XOR 0x42) # decoded s"
| "decoded _ = []"

definition c_orm_oauth2_decrypt_token :: "cptr \<Rightarrow> (heap, string) act" where
  "c_orm_oauth2_decrypt_token encrypted_token =
     (case encrypted_token of
        None \<Rightarrow> perr C_ORM_ERROR_VALIDATION
      | Some s \<Rightarrow> pbind malloc (\<lambda>ok.
          if \<not> ok then perr C_ORM_ERROR_VALIDATION else preturn (text_of (decoded s))))"

definition c_orm_store_token_secure :: "bool \<Rightarrow> cptr \<Rightarrow> cptr \<Rightarrow> (heap, string) act" where
  \<comment> \<open>of the access and the refresh token; \<open>opened\<close> says whether the file could be opened. The result is the text
     that is written to it\<close>
  "c_orm_store_token_secure opened access_token refresh_token =
     pbind (c_orm_oauth2_encrypt_token (Some (case access_token of None \<Rightarrow> [] | Some s \<Rightarrow> s))) (\<lambda>a.
     pbind (attempt (c_orm_oauth2_encrypt_token (Some (case refresh_token of None \<Rightarrow> [] | Some s \<Rightarrow> s)))) (\<lambda>r.
       case r of
         Inl e \<Rightarrow> pbind free_block (\<lambda>_. perr e)
       | Inr b \<Rightarrow> pbind free_block (\<lambda>_. pbind free_block (\<lambda>_.
           if opened then preturn (a @ [CHR 0x0A] @ b @ [CHR 0x0A]) else perr C_ORM_ERROR_UNKNOWN))))"

section \<open>Scopes\<close>

function scope_loop :: "string \<Rightarrow> string \<Rightarrow> (heap, bool) act" where
  \<comment> \<open>each word of what is requested is looked for in the text of what is granted\<close>
  "scope_loop granted s =
     (let p = dropWhile (\<lambda>c. c = CHR '' '') s in
      if p = [] then preturn True
      else pbind malloc (\<lambda>ok.
        if \<not> ok then perr C_ORM_ERROR_VALIDATION
        else pbind free_block (\<lambda>_.
          if strstr granted (takeWhile (\<lambda>c. c \<noteq> CHR '' '') p) = None then preturn False
          else scope_loop granted (dropWhile (\<lambda>c. c \<noteq> CHR '' '') p))))"
  by pat_completeness auto
termination
proof (relation "measure (length \<circ> snd)")
  fix s p :: string
  assume p: "p = dropWhile (\<lambda>c. c = CHR '' '') s" "p \<noteq> []"
  then have "hd p \<noteq> CHR '' ''" using hd_dropWhile [of "\<lambda>c. c = CHR '' ''" s] by metis
  then have "length (dropWhile (\<lambda>c. c \<noteq> CHR '' '') p) < length p"
    using p(2) by (cases p) (auto simp: length_dropWhile_le less_Suc_eq_le)
  also have "\<dots> \<le> length s" unfolding p(1) by (rule length_dropWhile_le)
  finally show "((granted, dropWhile (\<lambda>c. c \<noteq> CHR '' '') p), granted, s) \<in> measure (length \<circ> snd)" for granted :: string
    by simp
qed simp

declare scope_loop.simps [simp del]

definition c_orm_oauth2_validate_scope :: "cptr \<Rightarrow> cptr \<Rightarrow> (heap, bool) act" where
  "c_orm_oauth2_validate_scope granted_scopes requested_scopes =
     (case granted_scopes of
        None \<Rightarrow> preturn False
      | Some granted \<Rightarrow>
          (case requested_scopes of None \<Rightarrow> preturn True | Some requested \<Rightarrow>
             if requested = [] then preturn True else scope_loop granted requested))"

end
