(* ===== verification/OauthTokenProps.thy ===== *)
theory OauthTokenProps
  imports OauthToken "HOL-Library.Sublist"
begin

text \<open>
  What the encoding of tokens keeps, and what the check of scopes decides: it compares texts, not words, so every
  scope that is granted is accepted, and so is any part of one.
\<close>

section \<open>Tokens on disk\<close>

lemma hex_digit_value:
  assumes "n < 16"
  shows "hex_to_byte (hex_digit n) = n" and "hex_digit n \<noteq> CHR 0x0A"
proof -
  have all: "\<forall>n \<in> set (map word_of_nat [0..<16]). hex_to_byte (hex_digit n) = n \<and> hex_digit n \<noteq> CHR 0x0A"
    by code_simp
  have "unat n \<in> set [0..<16]" using assms by (simp add: word_less_nat_alt)
  then have "n \<in> set (map word_of_nat [0..<16])" unfolding set_map by (intro image_eqI [of _ _ "unat n"]) simp_all
  with all show "hex_to_byte (hex_digit n) = n" "hex_digit n \<noteq> CHR 0x0A" by blast+
qed

lemma nibbles:
  fixes b :: "8 word"
  shows "drop_bit 4 b < 16" and "b AND 15 < 16" and "push_bit 4 (drop_bit 4 b) OR (b AND 15) = b"
proof -
  show "drop_bit 4 b < 16" unfolding word_less_nat_alt
    using unsigned_less [of b, where ?'a = nat] by (simp add: unat_drop_bit_eq drop_bit_eq_div unat_div)
  have "(15 :: 8 word) = mask 4" by (simp add: mask_eq_exp_minus_1)
  then show "b AND 15 < 16" using and_mask_less' [of 4 b] by simp
  show "push_bit 4 (drop_bit 4 b) OR (b AND 15) = b" unfolding \<open>15 = mask 4\<close>
    by (rule bit_word_eqI) (auto simp: bit_simps)
qed

lemma decoded_byte: "decoded (hex_byte (b XOR 0x42) @ s) = b # decoded s"
proof -
  have "push_bit 4 (hex_to_byte (hex_digit (drop_bit 4 c))) OR hex_to_byte (hex_digit (c AND 15)) = c" for c
    by (simp add: hex_digit_value nibbles)
  from this [of "b XOR 0x42"] show ?thesis
    by (simp only: hex_byte_def append.simps decoded.simps) (simp add: xor.assoc)
qed

lemma decoded_encoded: "decoded (concat (map (\<lambda>b. hex_byte (b XOR 0x42)) bs)) = bs"
  by (induction bs) (simp_all add: decoded_byte)

lemma encoded_line: "CHR 0x0A \<notin> set (concat (map (\<lambda>b. hex_byte (b XOR 0x42)) bs))"
proof -
  have "CHR 0x0A \<notin> set (hex_byte b)" for b using hex_digit_value(2) [OF nibbles(1) [of b]] hex_digit_value(2) [OF nibbles(2) [of b]]
    by (auto simp: hex_byte_def)
  then show ?thesis by auto
qed

lemma char_of_byte: "char_of (unat (of_char c :: 8 word)) = c"
proof -
  have "(of_char c :: 8 word) = word_of_nat (of_char c)" by (simp add: of_nat_of_char)
  moreover have "of_char c < (256 :: nat)" by (metis of_char_mod_256 mod_less_divisor zero_less_numeral)
  ultimately have "unat (of_char c :: 8 word) = of_char c" by (simp add: unsigned_of_nat take_bit_nat_eq_self)
  then show ?thesis by simp
qed

lemma text_of_bytes:
  assumes "CHR 0x00 \<notin> set s"
  shows "text_of (bytes_of s) = s"
proof -
  have "of_char c \<noteq> (0 :: 8 word)" if "c \<in> set s" for c
  proof
    assume "of_char c = (0 :: 8 word)"
    then have "c = char_of (0 :: nat)" using char_of_byte [of c] by simp
    with assms that show False by (simp add: char_of_def)
  qed
  then have "takeWhile (\<lambda>b. b \<noteq> 0) (bytes_of s) = bytes_of s" by (auto simp: bytes_of_def)
  then show ?thesis unfolding text_of_def by (simp only:) (simp add: bytes_of_def char_of_byte o_def)
qed

lemma decrypt_encrypted:
  assumes "CHR 0x00 \<notin> set s"
  shows "text_of (decoded (concat (map (\<lambda>b. hex_byte (b XOR 0x42)) (bytes_of s)))) = s"
  by (simp add: decoded_encoded text_of_bytes assms)

lemma encrypt_cases:
  assumes "c_orm_oauth2_encrypt_token (Some s) h = (r, h')"
  obtains "r = Ret (concat (map (\<lambda>b. hex_byte (b XOR 0x42)) (bytes_of s)))" "live h' = live h + 1"
  | "r = Err C_ORM_ERROR_VALIDATION" "live h' = live h"
  using assms by (auto simp: c_orm_oauth2_encrypt_token_def pbind_def malloc_def preturn_def perr_def dest: malloc_live
      split: prod.splits if_splits)

text \<open>C40 (stored_token_roundtrip).
  What \<open>c_orm_store_token_secure\<close> writes to disk gives back the tokens: the file is two lines, and decrypting
  each returns the access and the refresh token, whatever characters they have. All blocks are given back on every
  path, and nothing is undefined.\<close>
theorem stored_token_roundtrip:
  assumes "c_orm_store_token_secure opened (Some access) (Some refresh) h = (r, h')"
    and "CHR 0x00 \<notin> set access" and "CHR 0x00 \<notin> set refresh"
  shows "live h' = live h \<and> r \<noteq> Stuck \<and>
    (\<forall>file. r = Ret file \<longrightarrow> (\<exists>x y. strchr_split (CHR 0x0A) file = Some (x, y @ [CHR 0x0A]) \<and> CHR 0x0A \<notin> set y \<and>
      (\<forall>h. no_oom h \<longrightarrow> fst (c_orm_oauth2_decrypt_token (Some x) h) = Ret access \<and> fst (c_orm_oauth2_decrypt_token (Some y) h) = Ret refresh)))"
proof -
  let ?enc = "\<lambda>s. concat (map (\<lambda>b. hex_byte (b XOR 0x42)) (bytes_of s))"
  obtain r1 h1 where e1: "c_orm_oauth2_encrypt_token (Some access) h = (r1, h1)" by (metis surj_pair)
  obtain r2 h2 where e2: "c_orm_oauth2_encrypt_token (Some refresh) h1 = (r2, h2)" by (metis surj_pair)
  have fin: "live h' = live h \<and> r \<noteq> Stuck \<and> (\<forall>file. r = Ret file \<longrightarrow> file = ?enc access @ [CHR 0x0A] @ ?enc refresh @ [CHR 0x0A])"
    using e1
  proof (cases rule: encrypt_cases)
    case first: 1
    from e2 show ?thesis
      by (cases rule: encrypt_cases; cases opened)
        (use assms(1) e1 e2 first in \<open>auto simp: c_orm_store_token_secure_def pbind_def attempt_def free_block_def preturn_def perr_def\<close>)
  next
    case 2
    then show ?thesis using assms(1) e1 by (auto simp: c_orm_store_token_secure_def pbind_def)
  qed
  moreover have "strchr_split (CHR 0x0A) (?enc access @ CHR 0x0A # ?enc refresh @ [CHR 0x0A]) = Some (?enc access, ?enc refresh @ [CHR 0x0A])"
    by (rule strchr_split_append [OF encoded_line])
  moreover have "fst (c_orm_oauth2_decrypt_token (Some (?enc s)) h) = Ret s" if "no_oom h" "CHR 0x00 \<notin> set s" for h s
    using that decrypt_encrypted [OF that(2)] by (simp add: c_orm_oauth2_decrypt_token_def pbind_def malloc_def preturn_def)
  ultimately show ?thesis using encoded_line assms(2,3) by auto
qed

lemma stored_token_roundtrip_witness:
  "\<exists>x y. strchr_split (CHR 0x0A) (''23'' @ [CHR 0x0A] @ ''202100'' @ [CHR 0x0A]) = Some (x, y @ [CHR 0x0A]) \<and> CHR 0x0A \<notin> set y \<and>
     (\<forall>h. no_oom h \<longrightarrow> fst (c_orm_oauth2_decrypt_token (Some x) h) = Ret ''a'' \<and> fst (c_orm_oauth2_decrypt_token (Some y) h) = Ret ''bcB'')"
proof -
  have run: "c_orm_store_token_secure True (Some ''a'') (Some ''bcB'') \<lparr>script = [], live = 0\<rparr>
     = (Ret (''23'' @ [CHR 0x0A] @ ''202100'' @ [CHR 0x0A]), \<lparr>script = [], live = 0\<rparr>)" by code_simp
  from stored_token_roundtrip [OF run] show ?thesis by simp
qed

section \<open>Scopes\<close>

fun spaced :: "string \<Rightarrow> string list" where
  \<comment> \<open>the text cut at each space\<close>
  "spaced [] = [[]]"
| "spaced (c # s) = (if c = CHR '' '' then [] # spaced s else (c # hd (spaced s)) # tl (spaced s))"

definition words :: "string \<Rightarrow> string list" where
  "words s = filter (\<lambda>w. w \<noteq> []) (spaced s)"

lemma spaced_nonempty: "spaced s \<noteq> []"
  by (cases s) auto

lemma words_spaces: "words (dropWhile (\<lambda>c. c = CHR '' '') s) = words s"
  by (induction s) (auto simp: words_def)

lemma spaced_word: "CHR '' '' \<notin> set w \<Longrightarrow> spaced (w @ s) = (w @ hd (spaced s)) # tl (spaced s)"
  by (induction w) (auto simp: spaced_nonempty)

lemma words_word:
  assumes "p \<noteq> []" and "hd p \<noteq> CHR '' ''"
  shows "words p = takeWhile (\<lambda>c. c \<noteq> CHR '' '') p # words (dropWhile (\<lambda>c. c \<noteq> CHR '' '') p)"
proof -
  let ?w = "takeWhile (\<lambda>c. c \<noteq> CHR '' '') p" and ?s = "dropWhile (\<lambda>c. c \<noteq> CHR '' '') p"
  have hd: "hd (spaced ?s) = []"
  proof (cases ?s)
    case (Cons c t)
    then have "c = CHR '' ''" using hd_dropWhile [of "\<lambda>c. c \<noteq> CHR '' ''" p] by simp
    then show ?thesis by (simp only: Cons spaced.simps) simp
  next
    case Nil
    then show ?thesis by (simp only: Nil spaced.simps list.sel)
  qed
  have "spaced (?w @ ?s) = ?w # tl (spaced ?s)"
    using spaced_word [of ?w ?s] hd by (auto dest: set_takeWhileD)
  moreover have "?w \<noteq> []" using assms by (cases p) auto
  moreover have "spaced ?s = [] # tl (spaced ?s)" using hd spaced_nonempty [of ?s] by (cases "spaced ?s") simp_all
  ultimately have "words (?w @ ?s) = ?w # filter (\<lambda>w. w \<noteq> []) (tl (spaced ?s))" by (simp only: words_def filter.simps) simp
  moreover have "words ?s = filter (\<lambda>w. w \<noteq> []) (tl (spaced ?s))"
    unfolding words_def by (subst \<open>spaced ?s = [] # tl (spaced ?s)\<close>) simp
  ultimately show ?thesis by simp
qed

lemma strstr_sublist: "strstr hay needle \<noteq> None \<longleftrightarrow> sublist needle hay"
proof (induction hay)
  case Nil
  then show ?case by (subst strstr.simps) auto
next
  case (Cons c hay)
  have "prefix needle (c # hay) \<longleftrightarrow> take (length needle) (c # hay) = needle"
    by (metis append_eq_conv_conj prefix_def append_take_drop_id)
  with Cons show ?case by (subst strstr.simps) (auto simp: sublist_Cons_right)
qed

lemma scope_loop_words:
  assumes "scope_loop granted s h = (r, h')"
  shows "live h' = live h \<and>
    (r = Ret (\<forall>w \<in> set (words s). sublist w granted) \<or> r = Err C_ORM_ERROR_VALIDATION \<and> \<not> no_oom h)"
  using assms
proof (induction granted s arbitrary: h rule: scope_loop.induct)
  case (1 granted s)
  define p where "p = dropWhile (\<lambda>c. c = CHR '' '') s"
  have p: "words s = words p" unfolding p_def by (rule words_spaces [symmetric])
  show ?case
  proof (cases "p = []")
    case True
    then have "words s = []" unfolding p by (simp add: words_def)
    then show ?thesis using "1.prems" True by (simp add: scope_loop.simps [of granted s] p_def preturn_def)
  next
    case False
    let ?w = "takeWhile (\<lambda>c. c \<noteq> CHR '' '') p" and ?s = "dropWhile (\<lambda>c. c \<noteq> CHR '' '') p"
    have "hd p \<noteq> CHR '' ''" using False hd_dropWhile [of "\<lambda>c. c = CHR '' ''" s] by (auto simp: p_def)
    then have words: "words s = ?w # words ?s" unfolding p by (rule words_word [OF False])
    obtain ok h1 where m: "C_ORM_MALLOC h = (ok, h1)" by (cases "C_ORM_MALLOC h")
    have run: "scope_loop granted s h =
      (if \<not> ok then (Err C_ORM_ERROR_VALIDATION, h1) else if strstr granted ?w = None then (Ret False, C_ORM_FREE h1)
       else scope_loop granted ?s (C_ORM_FREE h1))"
      using False m by (subst scope_loop.simps) (simp add: p_def [symmetric] pbind_def malloc_def free_block_def perr_def preturn_def)
    show ?thesis
    proof (cases "ok \<and> strstr granted ?w \<noteq> None")
      case True
      then have "scope_loop granted ?s (C_ORM_FREE h1) = (r, h')" using run "1.prems" by (metis option.distinct(1))
      moreover have "no_oom h \<Longrightarrow> no_oom (C_ORM_FREE h1)" using m by auto
      moreover have "sublist ?w granted" using True strstr_sublist [of granted ?w] by simp
      moreover have "live h' = live g \<and> (r = Ret (\<forall>w \<in> set (words ?s). sublist w granted) \<or> r = Err C_ORM_ERROR_VALIDATION \<and> \<not> no_oom g)"
        if "scope_loop granted ?s g = (r, h')" for g
        using "1.IH" [OF p_def False] True that by blast
      ultimately show ?thesis using True malloc_live [OF m] words by fastforce
    next
      case no: False
      then show ?thesis using run "1.prems" m malloc_live [OF m] strstr_sublist [of granted ?w] words by (auto split: if_splits)
    qed
  qed
qed

lemma spaced_sublist: "w \<in> set (spaced s) \<Longrightarrow> sublist w s"
proof (induction s arbitrary: w)
  case (Cons c s)
  have hd: "prefix (hd (spaced s)) s" for s
    by (induction s) (auto simp: spaced_nonempty)
  have "sublist (c # hd (spaced s)) (c # s)" using hd [of s] by (intro prefix_imp_sublist) simp
  moreover have "sublist w (c # s)" if "w \<in> set (tl (spaced s))" for w
    using Cons.IH [of w] that list.set_sel(2) [OF spaced_nonempty] by (simp add: sublist_Cons_right)
  moreover have "sublist w (c # s)" if "w \<in> set (spaced s)" for w
    using Cons.IH [OF that] by (simp add: sublist_Cons_right)
  ultimately show ?case using Cons.prems by (auto split: if_splits)
qed simp

lemma words_sublist: "w \<in> set (words s) \<Longrightarrow> sublist w s"
  by (simp add: words_def spaced_sublist)

text \<open>C39 (scope_words).
  Checking scopes gives back its memory, and its answer is whether every word of what is requested occurs somewhere in
  the text of what is granted; it is an error only when memory runs out. So words that have been granted are never
  refused, but a part of a granted word is accepted too (\<open>scope_part_accepted\<close>).\<close>
theorem scope_words:
  assumes "c_orm_oauth2_validate_scope (Some granted) (Some requested) h = (r, h')"
  shows "live h' = live h \<and>
    (r = Ret (\<forall>w \<in> set (words requested). sublist w granted) \<or> r = Err C_ORM_ERROR_VALIDATION \<and> \<not> no_oom h) \<and>
    (set (words requested) \<subseteq> set (words granted) \<longrightarrow> r \<noteq> Ret False)"
proof -
  have "live h' = live h \<and>
    (r = Ret (\<forall>w \<in> set (words requested). sublist w granted) \<or> r = Err C_ORM_ERROR_VALIDATION \<and> \<not> no_oom h)"
  proof (cases "requested = []")
    case True
    then show ?thesis using assms by (simp add: c_orm_oauth2_validate_scope_def preturn_def words_def)
  next
    case False
    then have "scope_loop granted requested h = (r, h')" using assms by (simp add: c_orm_oauth2_validate_scope_def)
    then show ?thesis by (rule scope_loop_words)
  qed
  then show ?thesis using words_sublist [of _ granted] by blast
qed

lemma scope_words_witness:
  "set (words ''read  write'') \<subseteq> set (words ''write read'') \<and>
   fst (c_orm_oauth2_validate_scope (Some ''write read'') (Some ''read  write'') \<lparr>script = [], live = 0\<rparr>) = Ret True"
proof -
  obtain r h' where run: "c_orm_oauth2_validate_scope (Some ''write read'') (Some ''read  write'') \<lparr>script = [], live = 0\<rparr> = (r, h')"
    by (metis surj_pair)
  have "set (words ''read  write'') \<subseteq> set (words ''write read'')" by code_simp
  with scope_words [OF run] show ?thesis by (auto simp: run no_oom_def)
qed

text \<open>A part of a granted scope is accepted: \<open>admin\<close> where only \<open>no-admin\<close> has been granted.\<close>

lemma scope_part_accepted:
  "fst (c_orm_oauth2_validate_scope (Some ''no-admin'') (Some ''admin'') \<lparr>script = [], live = 0\<rparr>) = Ret True"
  "''admin'' \<notin> set (words ''no-admin'')"
  by code_simp+

end
