(* ===== verification/Oauth2.thy ===== *)
theory Oauth2
  imports Dynamic Arrays OauthToken
begin

text \<open>
  The OAuth 2.0 server of \<open>src/c_orm_oauth2.c\<close>: its four tables with their metadata, users and clients and how they
  identify themselves, tokens and authorization codes and how they are stored, looked up, revoked and consumed.
  Everything goes through the operations on records of \<open>Records\<close> and \<open>Dynamic\<close>, over the functions of any driver.

  A \<open>c_orm_oauth2_token_t\<close> or \<open>c_orm_oauth2_auth_code_t\<close> is an object with the fields of its columns, in the
  order of \<open>token_cols\<close> and \<open>auth_code_cols\<close>. A connection without a driver (\<open>db\<close> or \<open>db->vtable\<close> NULL, refused with
  C_ORM_ERROR_VALIDATION) does not occur; texts may be NULL.
\<close>

section \<open>Tables\<close>

definition oauth_column :: "string \<Rightarrow> c_orm_type_t \<Rightarrow> bool \<Rightarrow> bool \<Rightarrow> cptr \<Rightarrow> bool \<Rightarrow> c_orm_column_meta_t" where
  "oauth_column name ty pk nullable fk secure = \<lparr>col_name = Some name, col_type = ty, is_pk = pk, is_nullable = nullable,
     fk_target = fk, on_delete_cascade = False, is_secure = secure\<rparr>"

definition user_cols :: "c_orm_column_meta_t list" where
  "user_cols =
     [oauth_column ''id'' C_ORM_TYPE_STRING True False None False,
      oauth_column ''username'' C_ORM_TYPE_STRING False False None False,
      oauth_column ''password_hash'' C_ORM_TYPE_STRING False True None True,
      oauth_column ''salt'' C_ORM_TYPE_STRING False True None False]"

definition c_orm_user_meta :: api_table where
  "c_orm_user_meta = \<lparr>tbl_name = Some ''users'', columns = user_cols, relations = [],
     query_select_all = Some ''SELECT * FROM users'',
     query_select_by_pk = Some ''SELECT * FROM users WHERE id = ?'',
     query_insert = Some ''INSERT INTO users (id, username, password_hash, salt) VALUES (?, ?, ?, ?)'',
     query_update = Some ''UPDATE users SET username = ?, password_hash = ?, salt = ? WHERE id = ?'',
     query_delete_by_pk = Some ''DELETE FROM users WHERE id = ?'',
     query_select_by_pk_for_update = Some ''SELECT * FROM users WHERE id = ? FOR UPDATE'',
     is_view = False, ttl_columns = None\<rparr>"

definition token_cols :: "c_orm_column_meta_t list" where
  "token_cols =
     [oauth_column ''access_token'' C_ORM_TYPE_STRING True False None True,
      oauth_column ''refresh_token'' C_ORM_TYPE_STRING False True None True,
      oauth_column ''token_type'' C_ORM_TYPE_STRING False True None False,
      oauth_column ''expires_in'' C_ORM_TYPE_INT32 False False None False,
      oauth_column ''created_at'' C_ORM_TYPE_INT64 False False None False,
      oauth_column ''user_id'' C_ORM_TYPE_STRING False True (Some ''users'') False,
      oauth_column ''scopes'' C_ORM_TYPE_STRING False True None False]"

definition c_orm_token_meta :: api_table where
  \<comment> \<open>rows expire: \<open>created_at\<close> is column 4, \<open>expires_in\<close> column 3\<close>
  "c_orm_token_meta = \<lparr>tbl_name = Some ''tokens'', columns = token_cols, relations = [],
     query_select_all = Some ''SELECT * FROM tokens'',
     query_select_by_pk = Some ''SELECT * FROM tokens WHERE access_token = ?'',
     query_insert = Some (''INSERT INTO tokens (access_token, refresh_token, token_type, expires_in, ''
       @ ''created_at, user_id, scopes) VALUES (?, ?, ?, ?, ?, ?, ?)''),
     query_update = Some (''UPDATE tokens SET refresh_token = ?, token_type = ?, expires_in = ?, ''
       @ ''created_at = ?, user_id = ?, scopes = ? WHERE access_token = ?''),
     query_delete_by_pk = Some ''DELETE FROM tokens WHERE access_token = ?'',
     query_select_by_pk_for_update = Some ''SELECT * FROM tokens WHERE access_token = ? FOR UPDATE'',
     is_view = False, ttl_columns = Some (4, 3)\<rparr>"

definition client_cols :: "c_orm_column_meta_t list" where
  "client_cols =
     [oauth_column ''id'' C_ORM_TYPE_STRING True False None False,
      oauth_column ''client_secret'' C_ORM_TYPE_STRING False True None True,
      oauth_column ''redirect_uris'' C_ORM_TYPE_STRING False True None False,
      oauth_column ''grant_types'' C_ORM_TYPE_STRING False True None False,
      oauth_column ''scopes'' C_ORM_TYPE_STRING False True None False]"

definition c_orm_oauth2_client_meta :: api_table where
  "c_orm_oauth2_client_meta = \<lparr>tbl_name = Some ''clients'', columns = client_cols, relations = [],
     query_select_all = Some ''SELECT * FROM clients'',
     query_select_by_pk = Some ''SELECT * FROM clients WHERE id = ?'',
     query_insert = Some (''INSERT INTO clients (id, client_secret, redirect_uris, grant_types, ''
       @ ''scopes) VALUES (?, ?, ?, ?, ?)''),
     query_update = Some (''UPDATE clients SET client_secret = ?, redirect_uris = ?, grant_types = ?, ''
       @ ''scopes = ? WHERE id = ?''),
     query_delete_by_pk = Some ''DELETE FROM clients WHERE id = ?'',
     query_select_by_pk_for_update = Some ''SELECT * FROM clients WHERE id = ? FOR UPDATE'',
     is_view = False, ttl_columns = None\<rparr>"

definition auth_code_cols :: "c_orm_column_meta_t list" where
  "auth_code_cols =
     [oauth_column ''code'' C_ORM_TYPE_STRING True False None True,
      oauth_column ''client_id'' C_ORM_TYPE_STRING False True None False,
      oauth_column ''redirect_uri'' C_ORM_TYPE_STRING False True None False,
      oauth_column ''user_id'' C_ORM_TYPE_STRING False True None False,
      oauth_column ''expires_at'' C_ORM_TYPE_INT64 False False None False,
      oauth_column ''scopes'' C_ORM_TYPE_STRING False True None False]"

definition c_orm_auth_code_meta :: api_table where
  "c_orm_auth_code_meta = \<lparr>tbl_name = Some ''auth_codes'', columns = auth_code_cols, relations = [],
     query_select_all = Some ''SELECT * FROM auth_codes'',
     query_select_by_pk = Some ''SELECT * FROM auth_codes WHERE code = ?'',
     query_insert = Some (''INSERT INTO auth_codes (code, client_id, redirect_uri, user_id, ''
       @ ''expires_at, scopes) VALUES (?, ?, ?, ?, ?, ?)''),
     query_update = Some (''UPDATE auth_codes SET client_id = ?, redirect_uri = ?, user_id = ?, ''
       @ ''expires_at = ?, scopes = ? WHERE code = ?''),
     query_delete_by_pk = Some ''DELETE FROM auth_codes WHERE code = ?'',
     query_select_by_pk_for_update = Some ''SELECT * FROM auth_codes WHERE code = ? FOR UPDATE'',
     is_view = False, ttl_columns = None\<rparr>"

definition oauth2_ddl :: "bool \<Rightarrow> string list" where
  \<comment> \<open>for SQLite, and for the other drivers\<close>
  "oauth2_ddl sqlite =
     (if sqlite then
       [''CREATE TABLE IF NOT EXISTS users ('' @ ''id TEXT PRIMARY KEY, '' @ ''username TEXT UNIQUE, '' @ ''password_hash TEXT, ''
          @ ''salt TEXT);'',
        ''CREATE TABLE IF NOT EXISTS tokens ('' @ ''access_token TEXT PRIMARY KEY, '' @ ''refresh_token TEXT, '' @ ''token_type TEXT, ''
          @ ''expires_in INTEGER, '' @ ''created_at INTEGER, '' @ ''user_id TEXT, '' @ ''scopes TEXT, ''
          @ ''FOREIGN KEY(user_id) REFERENCES users(id));'',
        ''CREATE TABLE IF NOT EXISTS clients ('' @ ''id TEXT PRIMARY KEY, '' @ ''client_secret TEXT, '' @ ''redirect_uris TEXT, ''
          @ ''scopes TEXT, '' @ ''grant_types TEXT);'',
        ''CREATE TABLE IF NOT EXISTS auth_codes ('' @ ''code TEXT PRIMARY KEY, '' @ ''client_id TEXT, '' @ ''redirect_uri TEXT, ''
          @ ''user_id TEXT, '' @ ''expires_at INTEGER, '' @ ''scopes TEXT);'']
      else
       [''CREATE TABLE IF NOT EXISTS users ('' @ ''id VARCHAR(255) PRIMARY KEY, '' @ ''username VARCHAR(255) UNIQUE, ''
          @ ''password_hash VARCHAR(255), '' @ ''salt VARCHAR(255));'',
        ''CREATE TABLE IF NOT EXISTS tokens ('' @ ''access_token VARCHAR(255) PRIMARY KEY, '' @ ''refresh_token VARCHAR(255), ''
          @ ''token_type VARCHAR(255), '' @ ''expires_in INT, '' @ ''created_at BIGINT, '' @ ''user_id VARCHAR(255), ''
          @ ''scopes VARCHAR(255), '' @ ''FOREIGN KEY(user_id) REFERENCES users(id));'',
        ''CREATE TABLE IF NOT EXISTS clients ('' @ ''id VARCHAR(255) PRIMARY KEY, '' @ ''client_secret VARCHAR(255), ''
          @ ''redirect_uris VARCHAR(255), '' @ ''scopes VARCHAR(255), '' @ ''grant_types VARCHAR(255));'',
        ''CREATE TABLE IF NOT EXISTS auth_codes ('' @ ''code VARCHAR(255) PRIMARY KEY, '' @ ''client_id VARCHAR(255), ''
          @ ''redirect_uri VARCHAR(255), '' @ ''user_id VARCHAR(255), '' @ ''expires_at BIGINT, '' @ ''scopes VARCHAR(255));''])"

fun execute_all :: "'d row_vtable \<Rightarrow> string list \<Rightarrow> ('d, unit) cached" where
  \<comment> \<open>up to the first that fails\<close>
  "execute_all vt [] = preturn ()"
| "execute_all vt (sql # sqls) = pbind (c_orm_execute_raw vt (Some sql)) (\<lambda>_. execute_all vt sqls)"

definition c_orm_oauth2_create_tables :: "'d row_vtable \<Rightarrow> bool \<Rightarrow> ('d, unit) cached" where
  \<comment> \<open>\<open>sqlite\<close>: whether \<open>db->vtable == sqlite_vt\<close>\<close>
  "c_orm_oauth2_create_tables vt sqlite = execute_all vt (oauth2_ddl sqlite)"

section \<open>Who is there\<close>

definition with_local :: "api_table \<Rightarrow> ('d, 'a) row_act \<Rightarrow> ('d, 'a) cached" where
  \<comment> \<open>on a struct on the stack, \<open>memset\<close> to 0\<close>
  "with_local m act d = (case act (zero_object m, d) of (r, (_, d')) \<Rightarrow> (r, d'))"

definition text_field :: "nat \<Rightarrow> ('d, cptr) row_act" where
  "text_field i = pbind (get_field i) (\<lambda>f. case f of F_text p \<Rightarrow> preturn p | _ \<Rightarrow> stuck)"

fun free_texts :: "nat list \<Rightarrow> ('d, unit) row_act" where
  \<comment> \<open>\<open>C_ORM_FREE\<close> of each, which does nothing for NULL\<close>
  "free_texts [] = preturn ()"
| "free_texts (i # is) = pbind (text_field i) (\<lambda>p.
     pbind (case p of None \<Rightarrow> preturn () | Some _ \<Rightarrow> on_db (on_heap free_block)) (\<lambda>_. free_texts is))"

definition unless_absent :: "('d, unit) row_act \<Rightarrow> ('d, bool) row_act \<Rightarrow> ('d, bool) row_act" where
  \<comment> \<open>that no row has been found is a result: not valid\<close>
  "unless_absent lookup rest =
     pbind (attempt lookup) (\<lambda>r. case r of
         Inl e \<Rightarrow> if e = C_ORM_ERROR_NOT_FOUND then preturn False else perr e
       | Inr _ \<Rightarrow> rest)"

definition c_orm_user_verify_credentials :: "api_config \<Rightarrow> 'd row_vtable \<Rightarrow> cptr \<Rightarrow> cptr \<Rightarrow> ('d, bool) cached" where
  "c_orm_user_verify_credentials cfg vt username password =
     (if username = None \<or> password = None then perr C_ORM_ERROR_VALIDATION
      else with_local c_orm_user_meta
        (unless_absent (c_orm_find_one_by_string cfg vt c_orm_user_meta (Some ''username'') username)
          (pbind (text_field 2) (\<lambda>password_hash.
           pbind (free_texts [0, 1, 2, 3]) (\<lambda>_. preturn (password_hash \<noteq> None \<and> password_hash = password))))))"

definition c_orm_oauth2_verify_client :: "api_config \<Rightarrow> 'd row_vtable \<Rightarrow> cptr \<Rightarrow> cptr \<Rightarrow> ('d, bool) cached" where
  \<comment> \<open>a client without a secret is public\<close>
  "c_orm_oauth2_verify_client cfg vt client_id client_secret =
     (if client_id = None then perr C_ORM_ERROR_VALIDATION
      else with_local c_orm_oauth2_client_meta
        (unless_absent (c_orm_find_by_id_string cfg vt c_orm_oauth2_client_meta client_id)
          (pbind (text_field 1) (\<lambda>secret.
           pbind (free_texts [0, 1, 2, 3, 4]) (\<lambda>_. preturn (
             case secret of None \<Rightarrow> True | Some s \<Rightarrow> if 0 < length s then client_secret = Some s else True))))))"

section \<open>Tokens and codes\<close>

definition bind_or_null :: "'d row_vtable \<Rightarrow> nat \<Rightarrow> int \<Rightarrow> cptr \<Rightarrow> ('d, unit) row_act" where
  "bind_or_null vt q idx p =
     on_db (drive (case p of Some _ \<Rightarrow> rv_bind_string vt q idx p | None \<Rightarrow> rv_bind_null vt q idx))"

definition run_bound :: "'d row_vtable \<Rightarrow> cptr \<Rightarrow> (nat \<Rightarrow> ('d, unit) row_act) \<Rightarrow> ('d, unit) row_act" where
  \<comment> \<open>prepare, bind, one step: what the step says comes before what giving back says, and NOT_FOUND is no error\<close>
  "run_bound vt sql binds =
     pbind (on_db (prepared vt sql)) (\<lambda>q.
     pbind (attempt (binds q)) (\<lambda>r. case r of
         Inl e \<Rightarrow> pbind (attempt (on_db (given_back vt q))) (\<lambda>_. perr e)
       | Inr _ \<Rightarrow> pbind (attempt (on_db (stepped vt q))) (\<lambda>rc.
           pbind (attempt (on_db (given_back vt q))) (\<lambda>fin_rc.
             case (rc, fin_rc) of
               (Inl e, Inl f) \<Rightarrow> if e \<noteq> C_ORM_ERROR_NOT_FOUND then perr e else perr f
             | (Inl e, Inr _) \<Rightarrow> if e \<noteq> C_ORM_ERROR_NOT_FOUND then perr e else preturn ()
             | (Inr _, Inl f) \<Rightarrow> perr f
             | (Inr _, Inr _) \<Rightarrow> preturn ()))))"

definition bind_int32_field :: "'d row_vtable \<Rightarrow> nat \<Rightarrow> int \<Rightarrow> nat \<Rightarrow> ('d, unit) row_act" where
  "bind_int32_field vt q idx i =
     pbind (get_field i) (\<lambda>f. case f of F_int32 w \<Rightarrow> on_db (drive (rv_bind_int32 vt q idx w)) | _ \<Rightarrow> stuck)"

definition bind_int64_field :: "'d row_vtable \<Rightarrow> nat \<Rightarrow> int \<Rightarrow> nat \<Rightarrow> ('d, unit) row_act" where
  "bind_int64_field vt q idx i =
     pbind (get_field i) (\<lambda>f. case f of F_int64 w \<Rightarrow> on_db (drive (rv_bind_int64 vt q idx w)) | _ \<Rightarrow> stuck)"

definition bind_text_field :: "'d row_vtable \<Rightarrow> nat \<Rightarrow> int \<Rightarrow> nat \<Rightarrow> ('d, unit) row_act" where
  "bind_text_field vt q idx i = pbind (text_field i) (bind_or_null vt q idx)"

definition c_orm_oauth2_save_token :: "'d row_vtable \<Rightarrow> ('d, unit) row_act" where
  "c_orm_oauth2_save_token vt =
     pbind (text_field 0) (\<lambda>access_token.
       if access_token = None then perr C_ORM_ERROR_VALIDATION
       else run_bound vt (query_insert c_orm_token_meta) (\<lambda>q.
         pbind (on_db (drive (rv_bind_string vt q 1 access_token))) (\<lambda>_.
         pbind (bind_text_field vt q 2 1) (\<lambda>_.
         pbind (bind_text_field vt q 3 2) (\<lambda>_.
         pbind (bind_int32_field vt q 4 3) (\<lambda>_.
         pbind (bind_int64_field vt q 5 4) (\<lambda>_.
         pbind (bind_text_field vt q 6 5) (\<lambda>_.
         bind_text_field vt q 7 6))))))))"

definition cleared :: "api_table \<Rightarrow> ('d, unit) row_act" where
  \<comment> \<open>\<open>memset(out, 0, sizeof(*out))\<close>: what the caller had in it is not freed\<close>
  "cleared m s = (Ret (), (zero_object m, snd s))"

definition c_orm_oauth2_get_token :: "api_config \<Rightarrow> 'd row_vtable \<Rightarrow> cptr \<Rightarrow> ('d, unit) row_act" where
  "c_orm_oauth2_get_token cfg vt access_token =
     (if access_token = None then perr C_ORM_ERROR_VALIDATION
      else pbind (cleared c_orm_token_meta) (\<lambda>_. c_orm_find_by_id_string cfg vt c_orm_token_meta access_token))"

definition c_orm_oauth2_revoke_token :: "'d row_vtable \<Rightarrow> cptr \<Rightarrow> ('d, unit) cached" where
  "c_orm_oauth2_revoke_token vt token_str =
     (if token_str = None then perr C_ORM_ERROR_VALIDATION else c_orm_delete_by_id_string vt c_orm_token_meta token_str)"

definition c_orm_oauth2_save_auth_code :: "'d row_vtable \<Rightarrow> ('d, unit) row_act" where
  "c_orm_oauth2_save_auth_code vt =
     pbind (text_field 0) (\<lambda>code.
       if code = None then perr C_ORM_ERROR_VALIDATION
       else run_bound vt (query_insert c_orm_auth_code_meta) (\<lambda>q.
         pbind (on_db (drive (rv_bind_string vt q 1 code))) (\<lambda>_.
         pbind (bind_text_field vt q 2 1) (\<lambda>_.
         pbind (bind_text_field vt q 3 2) (\<lambda>_.
         pbind (bind_text_field vt q 4 3) (\<lambda>_.
         pbind (bind_int64_field vt q 5 4) (\<lambda>_.
         bind_text_field vt q 6 5)))))))"

definition undoing :: "'d row_vtable \<Rightarrow> ('d, unit) row_act \<Rightarrow> ('d, unit) row_act" where
  \<comment> \<open>roll back when it fails; an error of that takes the place of the first\<close>
  "undoing vt m =
     pbind (attempt m) (\<lambda>r. case r of
         Inl e \<Rightarrow> pbind (on_db (c_orm_transaction_rollback vt)) (\<lambda>_. perr e)
       | Inr _ \<Rightarrow> preturn ())"

definition c_orm_oauth2_consume_auth_code :: "api_config \<Rightarrow> 'd row_vtable \<Rightarrow> cptr \<Rightarrow> ('d, unit) row_act" where
  "c_orm_oauth2_consume_auth_code cfg vt code =
     (if code = None then perr C_ORM_ERROR_VALIDATION
      else pbind (on_db (c_orm_transaction_begin vt)) (\<lambda>_.
        pbind (cleared c_orm_auth_code_meta) (\<lambda>_.
        pbind (undoing vt (c_orm_find_by_id_string cfg vt c_orm_auth_code_meta code)) (\<lambda>_.
        pbind (undoing vt (on_db (c_orm_delete_by_id_string vt c_orm_auth_code_meta code))) (\<lambda>_.
        undoing vt (on_db (c_orm_transaction_commit vt)))))))"

definition c_orm_oauth2_cleanup_expired_tokens :: "'d row_vtable \<Rightarrow> 64 word \<Rightarrow> ('d, unit) row_act" where
  "c_orm_oauth2_cleanup_expired_tokens vt time_now =
     run_bound vt (Some ''DELETE FROM tokens WHERE created_at + expires_in < ?'')
       (\<lambda>q. on_db (drive (rv_bind_int64 vt q 1 time_now)))"

end
