(* ===== verification/Oauth2Props.thy ===== *)
theory Oauth2Props
  imports Oauth2 BatchProps RecordProps
begin

text \<open>
  What the OAuth 2.0 server does with the database: a code is consumed in one transaction, saving a token is inserting
  a record (but for the encryption of secure columns), and every statement is given back. The order of the columns of
  the table of clients is not that of its metadata.
\<close>

section \<open>Consuming a code\<close>

definition undo_log :: "string list \<Rightarrow> unit outcome \<Rightarrow> string list \<Rightarrow> bool" where
  \<comment> \<open>all the statements, or the first of them and a rollback\<close>
  "undo_log sqls r L \<longleftrightarrow>
     (case r of Err e \<Rightarrow> \<exists>k. 1 \<le> k \<and> k \<le> length sqls \<and> L = take k sqls @ [''ROLLBACK''] | _ \<Rightarrow> L = sqls)"

lemma logs_undoing:
  assumes "logs snd m (\<lambda>r L. L = [sql])"
  shows "logs snd (undoing (logged vt) m) (undo_log [sql])"
proof -
  have att: "logs snd (attempt m) (\<lambda>r L. L = [sql] \<and> (\<exists>x. r = Ret x))"
    using assms unfolding logs_def attempt_def by (fastforce split: prod.splits outcome.splits)
  have undo: "logs snd (on_db (c_orm_transaction_rollback (logged vt))) (\<lambda>r L. L = [''ROLLBACK''])"
    unfolding c_orm_transaction_rollback_def by (rule logs_on_db [OF logs_raw])
  have err: "logs snd (perr e :: ('b \<times> ('a \<times> string list) cache_state, unit) act) (\<lambda>r L. L = [] \<and> r = Err e)" for e
    by (simp add: logs_def perr_def)
  have rest: "logs snd (case r of Inl e \<Rightarrow> pbind (on_db (c_orm_transaction_rollback (logged vt))) (\<lambda>_. perr e) | Inr _ \<Rightarrow> preturn ())
    (\<lambda>r' L. case r' of Err e \<Rightarrow> L = [''ROLLBACK''] | _ \<Rightarrow> L = [])" for r :: "c_orm_error_t + unit"
  proof (cases r)
    case (Inl e)
    show ?thesis unfolding Inl sum.case by (rule logs_bind [OF undo err]) auto
  qed (simp add: logs_def preturn_def)
  show ?thesis unfolding undoing_def
    by (rule logs_bind [OF att rest]) (auto simp: undo_log_def split: outcome.splits intro: exI [of _ 1])
qed

lemma logs_undoing_then:
  assumes "logs snd m (\<lambda>r L. L = [sql])" and "logs snd k (undo_log sqls)"
  shows "logs snd (pbind (undoing (logged vt) m) (\<lambda>_. k)) (undo_log (sql # sqls))"
proof (rule logs_bind [OF logs_undoing [OF assms(1)] assms(2)], goal_cases)
  case (1 a r L1 L2)
  then show ?case by (cases r) (auto simp: undo_log_def intro: exI [of _ "Suc _"])
next
  case (2 e L)
  then show ?case by (auto simp: undo_log_def intro!: exI [of _ 1])
qed

lemma logs_cleared: "logs snd (cleared m) (\<lambda>r L. L = [] \<and> r = Ret ())"
  by (simp add: logs_def cleared_def)

definition consume_sql :: "string list" where
  "consume_sql = [''SELECT * FROM auth_codes WHERE code = ?'', ''DELETE FROM auth_codes WHERE code = ?'', ''COMMIT'']"

lemma logs_consume:
  "logs snd (c_orm_oauth2_consume_auth_code cfg (logged vt) (Some code))
     (\<lambda>r L. L = [''BEGIN''] \<and> (\<exists>e. r = Err e) \<or> (\<exists>L'. L = ''BEGIN'' # L' \<and> undo_log consume_sql r L'))"
proof -
  let ?vt = "logged vt"
  have opens: "logs snd (on_db (c_orm_transaction_begin ?vt)) (\<lambda>r L. L = [''BEGIN''])"
    unfolding c_orm_transaction_begin_def by (rule logs_on_db [OF logs_raw])
  have commit: "logs snd (on_db (c_orm_transaction_commit ?vt)) (\<lambda>r L. L = [''COMMIT''])"
    unfolding c_orm_transaction_commit_def by (rule logs_on_db [OF logs_raw])
  have look: "logs snd (c_orm_find_by_id_string cfg ?vt c_orm_auth_code_meta (Some code)) (\<lambda>r L. L = [''SELECT * FROM auth_codes WHERE code = ?''])"
    by (auto simp: c_orm_find_by_id_string_def c_orm_auth_code_meta_def fetch_one_def intro!: logs_row_query framing)
  have del: "logs snd (on_db (c_orm_delete_by_id_string ?vt c_orm_auth_code_meta (Some code))) (\<lambda>r L. L = [''DELETE FROM auth_codes WHERE code = ?''])"
    by (auto simp: c_orm_delete_by_id_string_def c_orm_auth_code_meta_def delete_bound_def intro!: logs_on_db logs_db_query framing)
  have rest: "logs snd (pbind (cleared c_orm_auth_code_meta) (\<lambda>_.
      pbind (undoing ?vt (c_orm_find_by_id_string cfg ?vt c_orm_auth_code_meta (Some code))) (\<lambda>_.
      pbind (undoing ?vt (on_db (c_orm_delete_by_id_string ?vt c_orm_auth_code_meta (Some code)))) (\<lambda>_.
      undoing ?vt (on_db (c_orm_transaction_commit ?vt)))))) (undo_log consume_sql)"
    unfolding consume_sql_def
    by (rule logs_bind [OF logs_cleared logs_undoing_then [OF look logs_undoing_then [OF del logs_undoing [OF commit]]]]) auto
  have "c_orm_oauth2_consume_auth_code cfg ?vt (Some code) = pbind (on_db (c_orm_transaction_begin ?vt)) (\<lambda>_.
      pbind (cleared c_orm_auth_code_meta) (\<lambda>_.
      pbind (undoing ?vt (c_orm_find_by_id_string cfg ?vt c_orm_auth_code_meta (Some code))) (\<lambda>_.
      pbind (undoing ?vt (on_db (c_orm_delete_by_id_string ?vt c_orm_auth_code_meta (Some code)))) (\<lambda>_.
      undoing ?vt (on_db (c_orm_transaction_commit ?vt))))))"
    by (simp add: c_orm_oauth2_consume_auth_code_def)
  then show ?thesis
    by (simp only:) (rule logs_bind [OF opens rest], auto)
qed


definition sample_code :: "field list \<times> (mem_state \<times> string list) cache_state" where
  \<comment> \<open>a connection to a database with one code in it\<close>
  "sample_code = snd (c_orm_oauth2_save_auth_code (logged memory_row_vtable)
     ([F_text (Some ''c1''), F_text (Some ''app''), F_text None, F_text (Some ''ann''), F_int64 9, F_text (Some ''read'')],
      uncached (connected [], []) \<lparr>script = [], live = 0\<rparr>))"

abbreviation uncounted_vtable :: "mem_state row_vtable" where
  \<comment> \<open>the memory driver without its count of columns, which always fails\<close>
  "uncounted_vtable \<equiv> memory_row_vtable\<lparr>rv_get_column_count := None\<rparr>"

lemma sample_consume:
  "fst (c_orm_oauth2_consume_auth_code sample_config (logged uncounted_vtable) (Some ''c1'') sample_code) = Ret ()"
  "cs_cache (snd sample_code) = None"
  by code_simp+


section \<open>Saving is inserting\<close>

definition agree :: "field list \<Rightarrow> ('d, 'a) row_act \<Rightarrow> ('d, 'a) row_act \<Rightarrow> bool" where
  \<comment> \<open>on this object, which both leave alone\<close>
  "agree obj m m' \<longleftrightarrow> (\<forall>d. m (obj, d) = m' (obj, d) \<and> fst (snd (m' (obj, d))) = obj)"

lemma agreeD: "agree obj m m' \<Longrightarrow> m (obj, d) = (r, t) \<Longrightarrow> m' (obj, d) = (r, t) \<and> fst t = obj"
  by (auto simp: agree_def) (metis snd_conv fst_conv)

lemma agree_bind:
  assumes m: "agree obj m m'" and k: "\<And>a. agree obj (k a) (k' a)"
  shows "agree obj (pbind m k) (pbind m' k')"
  unfolding agree_def
proof
  fix d
  obtain r t where r: "m (obj, d) = (r, t)" by (cases "m (obj, d)")
  from agreeD [OF m r] obtain e where e: "m' (obj, d) = (r, (obj, e))" "t = (obj, e)" by (cases t) auto
  show "pbind m k (obj, d) = pbind m' k' (obj, d) \<and> fst (snd (pbind m' k' (obj, d))) = obj"
    using r e k by (cases r) (auto simp: pbind_def agree_def)
qed

lemma agree_db: "agree obj (on_db m) (on_db m)"
  by (simp add: agree_def on_db_def split: prod.splits)

lemma agree_return: "agree obj (preturn a) (preturn a)"
  by (simp add: agree_def preturn_def)

lemma agree_text:
  assumes "idx' = idx" and "i' = i" and "encrypt_hook cfg = None" and "col_type col = C_ORM_TYPE_STRING" and "i < length obj" and "obj ! i = F_text p"
    and "is_pk col \<Longrightarrow> p \<noteq> None \<and> p \<noteq> Some []"
  shows "agree obj (bind_column cfg vt q col i idx) (bind_text_field vt q idx' i')"
  using agree_db [of obj] assms
  by (cases p) (auto simp: agree_def bind_column_def bind_text_field_def text_field_def bind_or_null_def get_field_def pbind_def
      preturn_def is_text_type_def fresh_key_def bind_text_def tz_shifted_def split: bool.splits)

lemma agree_int32:
  assumes "idx' = idx" and "i' = i" and "col_type col = C_ORM_TYPE_INT32" and "\<not> is_nullable col" and "i < length obj" and "obj ! i = F_int32 w"
  shows "agree obj (bind_column cfg vt q col i idx) (bind_int32_field vt q idx' i')"
  using agree_db [of obj] assms
  by (auto simp: agree_def bind_column_def bind_int32_field_def get_field_def pbind_def is_text_type_def bind_primitive_def)

lemma agree_int64:
  assumes "idx' = idx" and "i' = i" and "col_type col = C_ORM_TYPE_INT64" and "\<not> is_nullable col" and "i < length obj" and "obj ! i = F_int64 w"
  shows "agree obj (bind_column cfg vt q col i idx) (bind_int64_field vt q idx' i')"
  using agree_db [of obj] assms
  by (auto simp: agree_def bind_column_def bind_int64_field_def get_field_def pbind_def is_text_type_def bind_primitive_def)

lemma using_and_running:
  \<comment> \<open>the frame of the operations on records and that of the server differ only in the status they report\<close>
  assumes binds: "\<And>q. agree obj (bind1 q) (bind2 q)"
    and run: "row_query vt sql (\<lambda>q. pbind (bind1 q) (\<lambda>_. pbind (on_db (stepped vt q)) (\<lambda>_. preturn ()))) (obj, d) = (r, t)"
  shows "\<exists>r'. run_bound vt sql bind2 (obj, d) = (r', t) \<and> (r = Ret () \<longrightarrow> r' = Ret ()) \<and>
    (r' = Ret () \<longrightarrow> r = Ret () \<or> r = Err C_ORM_ERROR_NOT_FOUND) \<and> (r = Stuck \<longleftrightarrow> r' = Stuck)"
proof -
  obtain r1 e where p: "prepared vt sql d = (r1, e)" by (cases "prepared vt sql d")
  show ?thesis
  proof (cases r1)
    case (Ret q)
    obtain r2 u where b: "bind1 q (obj, e) = (r2, u)" by (cases "bind1 q (obj, e)")
    from agreeD [OF binds b] obtain f where f: "bind2 q (obj, e) = (r2, (obj, f))" "u = (obj, f)" by (cases u) auto
    obtain r3 g where st: "stepped vt q f = (r3, g)" by (cases "stepped vt q f")
    obtain r4 x where x: "given_back vt q f = (r4, x)" by (cases "given_back vt q f")
    obtain r5 y where y: "given_back vt q g = (r5, y)" by (cases "given_back vt q g")
    note defs = row_query_def using_query_def run_bound_def pbind_def attempt_def on_db_def preturn_def perr_def p Ret b f st x y
    show ?thesis
    proof (cases r2)
      case bound: (Ret _)
      from run show ?thesis by (cases r3; cases r5) (auto simp: defs bound)
    next
      case bound: (Err e)
      from run show ?thesis by (cases r4) (auto simp: defs bound)
    next
      case bound: Stuck
      from run show ?thesis by (auto simp: defs bound)
    qed
  qed (use run p in \<open>auto simp: row_query_def using_query_def run_bound_def pbind_def on_db_def\<close>)
qed

lemma agree_key:
  assumes "idx' = idx" and "encrypt_hook cfg = None" and "col_type col = C_ORM_TYPE_STRING" and "0 < length obj" and "obj ! 0 = F_text (Some key)" and "key \<noteq> []"
  shows "agree obj (bind_column cfg vt q col 0 idx) (on_db (drive (rv_bind_string vt q idx' (Some key))))"
  using agree_db [of obj] assms
  by (auto simp: agree_def bind_column_def get_field_def pbind_def preturn_def is_text_type_def fresh_key_def bind_text_def tz_shifted_def
      split: bool.splits)

lemma bind_unit [simp]: "pbind m (\<lambda>_. preturn ()) = m"
proof -
  have "(\<lambda>_. preturn ()) = preturn" by (rule ext) simp
  then show ?thesis by simp
qed

lemma insert_unhooked:
  assumes "\<not> is_view m"
  shows "c_orm_insert cfg vt no_hooks m = row_query vt (query_insert m) (\<lambda>q.
    pbind (pbind (bind_row cfg vt q (columns m) 0 1) (\<lambda>_. preturn ())) (\<lambda>_. pbind (on_db (stepped vt q)) (\<lambda>_. preturn ())))"
  using assms by (simp add: c_orm_insert_def no_hooks_def hook_def pbind_assoc)

lemma token_binds:
  assumes "encrypt_hook cfg = None" and "key \<noteq> []"
    and "obj = [F_text (Some key), F_text refresh, F_text ty, F_int32 expires, F_int64 created, F_text user, F_text scopes]"
  shows "agree obj (pbind (bind_row cfg vt q (columns c_orm_token_meta) 0 1) (\<lambda>_. preturn ()))
    (pbind (on_db (drive (rv_bind_string vt q 1 (Some key)))) (\<lambda>_.
         pbind (bind_text_field vt q 2 1) (\<lambda>_.
         pbind (bind_text_field vt q 3 2) (\<lambda>_.
         pbind (bind_int32_field vt q 4 3) (\<lambda>_.
         pbind (bind_int64_field vt q 5 4) (\<lambda>_.
         pbind (bind_text_field vt q 6 5) (\<lambda>_.
         bind_text_field vt q 7 6)))))))"
proof -
  have unit: "bind_text_field vt q 7 6 = pbind (bind_text_field vt q 7 6) (\<lambda>_. preturn ())" by simp
  have cols: "columns c_orm_token_meta = token_cols" by (simp add: c_orm_token_meta_def)
  show ?thesis
    unfolding cols token_cols_def bind_row.simps pbind_assoc preturn_bind
    by (subst unit; intro agree_bind agree_key agree_text agree_int32 agree_int64 agree_return)
      (simp_all add: assms oauth_column_def)
qed

text \<open>C37 (save_token_inserts).
  Without encryption hooks, saving a token with a key does what inserting the record does, over any driver and with
  or without a statement cache: the same state after it, success where inserting succeeds, and success where inserting
  does not only when that reports NOT_FOUND.\<close>
theorem save_token_inserts:
  assumes "encrypt_hook cfg = None" and "key \<noteq> []"
    and "obj = [F_text (Some key), F_text refresh, F_text ty, F_int32 expires, F_int64 created, F_text user, F_text scopes]"
    and "c_orm_insert cfg vt no_hooks c_orm_token_meta (obj, d) = (r, t)"
  shows "\<exists>r'. c_orm_oauth2_save_token vt (obj, d) = (r', t) \<and> (r = Ret () \<longrightarrow> r' = Ret ()) \<and>
    (r' = Ret () \<longrightarrow> r = Ret () \<or> r = Err C_ORM_ERROR_NOT_FOUND) \<and> (r = Stuck \<longleftrightarrow> r' = Stuck)"
proof -
  have "\<not> is_view c_orm_token_meta" by (simp add: c_orm_token_meta_def)
  note run = assms(4) [unfolded insert_unhooked [OF this]]
  note main = using_and_running [OF token_binds [OF assms(1-3)] run]
  moreover have "c_orm_oauth2_save_token vt (obj, d) = run_bound vt (query_insert c_orm_token_meta) (\<lambda>q.
         pbind (on_db (drive (rv_bind_string vt q 1 (Some key)))) (\<lambda>_.
         pbind (bind_text_field vt q 2 1) (\<lambda>_.
         pbind (bind_text_field vt q 3 2) (\<lambda>_.
         pbind (bind_int32_field vt q 4 3) (\<lambda>_.
         pbind (bind_int64_field vt q 5 4) (\<lambda>_.
         pbind (bind_text_field vt q 6 5) (\<lambda>_.
         bind_text_field vt q 7 6))))))) (obj, d)"
    by (simp add: c_orm_oauth2_save_token_def text_field_def get_field_def pbind_def preturn_def assms(3))
  ultimately show ?thesis by simp
qed

definition sample_token :: "field list" where
  "sample_token = [F_text (Some ''a1''), F_text None, F_text (Some ''Bearer''), F_int32 3600, F_int64 0, F_text (Some ''ann''), F_text (Some ''read'')]"

lemma sample_insert:
  "fst (c_orm_insert sample_config memory_row_vtable no_hooks c_orm_token_meta (sample_token, uncached (connected []) \<lparr>script = [], live = 0\<rparr>)) = Ret ()"
  by code_simp

lemma save_token_inserts_witness:
  "c_orm_oauth2_save_token memory_row_vtable (sample_token, uncached (connected []) \<lparr>script = [], live = 0\<rparr>) =
     c_orm_insert sample_config memory_row_vtable no_hooks c_orm_token_meta (sample_token, uncached (connected []) \<lparr>script = [], live = 0\<rparr>)"
proof -
  obtain r t where run: "c_orm_insert sample_config memory_row_vtable no_hooks c_orm_token_meta
    (sample_token, uncached (connected []) \<lparr>script = [], live = 0\<rparr>) = (r, t)" by (metis surj_pair)
  have "encrypt_hook sample_config = None" by (simp add: sample_config_def)
  moreover have "r = Ret ()" using sample_insert by (simp add: run)
  ultimately show ?thesis
    using save_token_inserts [of sample_config "''a1''" sample_token None "Some ''Bearer''" 3600 0 "Some ''ann''" "Some ''read''", OF _ _ _ run]
    by (simp add: sample_token_def [symmetric] run)
qed

section \<open>Statements\<close>

datatype oauth_op =
    Create_tables bool
  | Verify_credentials cptr cptr
  | Verify_client cptr cptr
  | Hold "field list"
  | Save_token
  | Get_token cptr
  | Revoke_token cptr
  | Save_auth_code
  | Consume_auth_code cptr
  | Cleanup_expired_tokens "64 word"

fun oauth_exec :: "api_config \<Rightarrow> 'd row_vtable \<Rightarrow> oauth_op \<Rightarrow> ('d, bool) row_act" where
  \<comment> \<open>a call on the connection and the token or code that the program holds\<close>
  "oauth_exec cfg vt (Create_tables sqlite) = returning (\<lambda>_. True) (on_db (c_orm_oauth2_create_tables vt sqlite))"
| "oauth_exec cfg vt (Verify_credentials username password) = on_db (c_orm_user_verify_credentials cfg vt username password)"
| "oauth_exec cfg vt (Verify_client client_id client_secret) = on_db (c_orm_oauth2_verify_client cfg vt client_id client_secret)"
| "oauth_exec cfg vt (Hold fs) = (\<lambda>s. (Ret True, (fs, snd s)))"
| "oauth_exec cfg vt Save_token = returning (\<lambda>_. True) (c_orm_oauth2_save_token vt)"
| "oauth_exec cfg vt (Get_token p) = returning (\<lambda>_. True) (c_orm_oauth2_get_token cfg vt p)"
| "oauth_exec cfg vt (Revoke_token p) = returning (\<lambda>_. True) (on_db (c_orm_oauth2_revoke_token vt p))"
| "oauth_exec cfg vt Save_auth_code = returning (\<lambda>_. True) (c_orm_oauth2_save_auth_code vt)"
| "oauth_exec cfg vt (Consume_auth_code p) = returning (\<lambda>_. True) (c_orm_oauth2_consume_auth_code cfg vt p)"
| "oauth_exec cfg vt (Cleanup_expired_tokens w) = returning (\<lambda>_. True) (c_orm_oauth2_cleanup_expired_tokens vt w)"

context framed_rows begin

lemma framed_text_field [framing]: "framed snd (text_field i)"
  by (auto simp: text_field_def intro!: framing split: field.splits)

lemma framed_oauth_binds [framing]:
  "framed snd (bind_or_null vt q idx p)" "framed snd (bind_text_field vt q idx i)"
  "framed snd (bind_int32_field vt q idx i)" "framed snd (bind_int64_field vt q idx i)"
  by (auto simp: bind_or_null_def bind_text_field_def bind_int32_field_def bind_int64_field_def intro!: framing split: option.splits field.splits)

lemma framed_free_texts [framing]: "framed snd (free_texts is)"
  by (induction "is") (auto intro!: framing split: option.splits)

lemma framed_cleared [framing]: "framed snd (cleared m)"
  by (auto simp: framed_def cleared_def moved_refl)

end

context reliable_rows begin

lemma safe_run_bound [saving]:
  assumes "\<And>q. framed snd (binds q)"
  shows "safe snd (run_bound vt sql binds)"
proof -
  have "triple True (\<lambda>s. within (complete H) (snd s)) (run_bound vt sql binds) (\<lambda>_ s. within (complete H) (snd s)) (\<lambda>s. within (complete H) (snd s))" for H
  proof -
    let ?P = "\<lambda>s :: field list \<times> 'd cache_state. within (complete H) (snd s)"
    let ?Q = "\<lambda>q (s :: field list \<times> 'd cache_state). q \<notin> H \<and> within (complete (insert q H)) (snd s)"
    have prep: "triple True ?P (on_db (prepared vt sql)) ?Q ?P" by (rule t_snd [OF t_prepared])
    have keep: "triple True (?Q q) (attempt m) (\<lambda>_. ?Q q) ?P" if "framed snd m" for q and m :: "('d, 'b) row_act"
    proof -
      have "triple True (\<lambda>s. within (complete (insert q H)) (snd s)) m (\<lambda>_ s. within (complete (insert q H)) (snd s))
          (\<lambda>s. within (complete (insert q H)) (snd s))" by (rule t_keeps [OF that stable_complete])
      then have "triple True (?Q q) m (\<lambda>_. ?Q q) (?Q q)" unfolding triple_def by (fastforce split: prod.splits outcome.splits)
      then show ?thesis by (rule t_attempt)
    qed
    have fin: "triple True (?Q q) (attempt (on_db (given_back vt q))) (\<lambda>_. ?P) ?P" for q
    proof (rule t_attempt)
      show "triple True (?Q q) (on_db (given_back vt q)) (\<lambda>_. ?P) ?P"
        using t_snd [OF t_given_back [of q H]] by (auto simp: triple_def)
    qed
    have ends: "triple True ?P (case (rc, fin_rc) of
               (Inl e, Inl f) \<Rightarrow> if e \<noteq> C_ORM_ERROR_NOT_FOUND then perr e else perr f
             | (Inl e, Inr _) \<Rightarrow> if e \<noteq> C_ORM_ERROR_NOT_FOUND then perr e else preturn ()
             | (Inr _, Inl f) \<Rightarrow> perr f
             | (Inr _, Inr _) \<Rightarrow> preturn ()) (\<lambda>_. ?P) ?P"
      for rc :: "c_orm_error_t + bool" and fin_rc :: "c_orm_error_t + unit"
      by (cases rc; cases fin_rc) (auto intro!: triple_perr triple_return)
    have step: "framed snd (on_db (stepped vt q))" for q by (intro framing)
    have rest: "triple True (?Q q) (case r of
         Inl e \<Rightarrow> pbind (attempt (on_db (given_back vt q))) (\<lambda>_. perr e)
       | Inr _ \<Rightarrow> pbind (attempt (on_db (stepped vt q))) (\<lambda>rc.
           pbind (attempt (on_db (given_back vt q))) (\<lambda>fin_rc.
             case (rc, fin_rc) of
               (Inl e, Inl f) \<Rightarrow> if e \<noteq> C_ORM_ERROR_NOT_FOUND then perr e else perr f
             | (Inl e, Inr _) \<Rightarrow> if e \<noteq> C_ORM_ERROR_NOT_FOUND then perr e else preturn ()
             | (Inr _, Inl f) \<Rightarrow> perr f
             | (Inr _, Inr _) \<Rightarrow> preturn ()))) (\<lambda>_. ?P) ?P" for q and r :: "c_orm_error_t + unit"
    proof (cases r)
      case (Inl e)
      show ?thesis unfolding Inl sum.case by (rule triple_bind [OF fin triple_perr])
    next
      case (Inr x)
      show ?thesis unfolding Inr sum.case by (rule triple_bind [OF keep [OF step] triple_bind [OF fin ends]])
    qed
    show ?thesis unfolding run_bound_def by (rule triple_bind [OF prep triple_bind [OF keep [OF assms] rest]])
  qed
  then show ?thesis by (simp add: safe_def)
qed

lemma safe_with_local [saving]: "safe snd m \<Longrightarrow> safe (\<lambda>s. s) (with_local t m)"
  unfolding safe_def triple_def with_local_def by (fastforce split: prod.splits outcome.splits)

lemma safe_unless_absent [saving]: "safe snd m \<Longrightarrow> safe snd k \<Longrightarrow> safe snd (unless_absent m k)"
  unfolding unless_absent_def by (auto intro!: saving split: sum.split)

lemma safe_undoing [saving]: "safe snd m \<Longrightarrow> safe snd (undoing vt m)"
  unfolding undoing_def by (auto intro!: saving split: sum.split)

lemma safe_execute_all [saving]: "safe (\<lambda>s. s) (execute_all vt sqls)"
  by (induction sqls) (auto intro!: saving)

lemma safe_cleared [saving]: "safe snd (cleared m)"
  by (rule framed_safe) (rule framing)

lemma safe_frees [saving]: "safe snd (text_field i)" "safe snd (free_texts is)"
  by (auto intro!: framed_safe framing)

lemma safe_oauth: "safe snd (oauth_exec cfg vt x)"
proof (cases x)
  case (Hold fs)
  then show ?thesis by (simp add: safe_def triple_def)
qed (auto simp: c_orm_oauth2_create_tables_def c_orm_user_verify_credentials_def c_orm_oauth2_verify_client_def c_orm_oauth2_save_token_def
    c_orm_oauth2_get_token_def c_orm_oauth2_revoke_token_def c_orm_oauth2_save_auth_code_def c_orm_oauth2_consume_auth_code_def
    c_orm_oauth2_cleanup_expired_tokens_def simp del: free_texts.simps intro!: safe_returning saving framing)

end

text \<open>C38 (oauth_gives_back).
  Whatever a program does with users, clients, tokens and codes over the memory driver, successful or not and with
  memory running out at any point, no statement stays open: switching the statement cache off and disconnecting succeed
  and give back every block of the driver.\<close>
theorem oauth_gives_back:
  assumes "mem_connect True h = (Ret d, h')" and "run_ops (oauth_exec cfg memory_row_vtable) xs (obj, uncached d k) = (rs, t)"
    and "Stuck \<notin> set rs"
  shows "\<exists>u v. c_orm_disable_statement_caching memory_vtable True (snd t) = (Ret (), u)
    \<and> mem_disconnect (cs_driver u) = (Ret (), v) \<and> live (md_heap v) = live h"
proof -
  have "memory_records.within (memory.complete (live h + 2) {}) (snd (obj, uncached d k))" using memory_opens [OF assms(1)] by simp
  from memory_records.safe_run [unfolded memory_statements, OF memory_records.safe_oauth this assms(2,3)] show ?thesis
    by (rule memory_closes)
qed

definition sample_oauth :: "oauth_op list" where
  "sample_oauth = [Create_tables True, Hold sample_token, Save_token, Get_token (Some ''a1''), Verify_client (Some ''app'') None, Hold sample_token,
     Save_token, Revoke_token None, Cleanup_expired_tokens 5]"

lemma sample_oauth_run:
  "fst (run_ops (oauth_exec sample_config memory_row_vtable) sample_oauth
     ([], uncached (connected []) \<lparr>script = [], live = 0\<rparr>))
   = [Ret True, Ret True, Ret True, Err C_ORM_ERROR_NOT_IMPLEMENTED, Ret False, Ret True, Ret True, Err C_ORM_ERROR_VALIDATION, Ret True]"
  by code_simp

lemma oauth_gives_back_witness:
  "\<exists>u v. c_orm_disable_statement_caching memory_vtable True
       (snd (snd (run_ops (oauth_exec sample_config memory_row_vtable) sample_oauth
          ([], uncached (connected []) \<lparr>script = [], live = 0\<rparr>)))) = (Ret (), u)
     \<and> mem_disconnect (cs_driver u) = (Ret (), v) \<and> live (md_heap v) = 0"
proof -
  obtain rs t where r: "run_ops (oauth_exec sample_config memory_row_vtable) sample_oauth
     ([], uncached (connected []) \<lparr>script = [], live = 0\<rparr>) = (rs, t)" by (metis surj_pair)
  have "Stuck \<notin> set rs" using sample_oauth_run unfolding r by simp
  from oauth_gives_back [OF sample_connect r this] show ?thesis unfolding r by simp
qed

section \<open>The order of the columns\<close>

text \<open>
  Rows are read by position, and \<open>SELECT *\<close> gives the columns in the order of the table. For the table of clients that
  is another order than the one of \<open>client_cols\<close>.
\<close>

lemma client_columns:
  "oauth2_ddl True ! 2 = ''CREATE TABLE IF NOT EXISTS clients ('' @
     join '', '' [''id'' @ '' TEXT PRIMARY KEY'', ''client_secret'' @ '' TEXT'', ''redirect_uris'' @ '' TEXT'', ''scopes'' @ '' TEXT'',
       ''grant_types'' @ '' TEXT''] @ '');''"
  "map col_name (columns c_orm_oauth2_client_meta) =
     map Some [''id'', ''client_secret'', ''redirect_uris'', ''grant_types'', ''scopes'']"
  by (simp_all add: oauth2_ddl_def c_orm_oauth2_client_meta_def client_cols_def oauth_column_def)

end
