(* ===== verification/KeyedArray.thy ===== *)
theory KeyedArray
  imports Act
begin

text \<open>
  Arrays of entries that are looked up by scanning for a key, where a new value takes the place of the old one or is
  appended: the abstract structs and the hydration router both keep their data in one. As a map they are the map of the
  first entry of each key.

  The interface \<open>keyed_store\<close> is what such a component promises of its insertion; its lemmas are about any sequence
  of insertions.
\<close>

section \<open>Scanning\<close>

fun first_index :: "('e \<Rightarrow> bool) \<Rightarrow> 'e list \<Rightarrow> nat option" where
  \<comment> \<open>\<open>for (i = 0; i < count; ++i) if (...)\<close>\<close>
  "first_index P [] = None"
| "first_index P (e # es) = (if P e then Some 0 else map_option Suc (first_index P es))"

lemma first_index_Some: "first_index P es = Some i \<Longrightarrow> i < length es \<and> P (es ! i)"
  by (induction es arbitrary: i) (auto split: if_splits)

lemma first_index_None: "first_index P es = None \<longleftrightarrow> (\<forall>e \<in> set es. \<not> P e)"
  by (induction es) auto

lemma first_index_cong: "(\<And>e. e \<in> set es \<Longrightarrow> P e = Q e) \<Longrightarrow> first_index P es = first_index Q es"
  by (induction es) auto

section \<open>As a map\<close>

definition array_map :: "('e \<Rightarrow> 'k) \<Rightarrow> ('e \<Rightarrow> 'v) \<Rightarrow> 'e list \<Rightarrow> 'k \<Rightarrow> 'v option" where
  "array_map key val es = map_of (map (\<lambda>e. (key e, val e)) es)"

lemma array_map_simps [simp]:
  "array_map key val [] = Map.empty"
  "array_map key val (e # es) = (array_map key val es)(key e \<mapsto> val e)"
  by (simp_all add: array_map_def)

lemma array_map_update:
  "first_index (\<lambda>e. key e = k) es = Some i \<Longrightarrow> key e' = k \<Longrightarrow> array_map key val (es[i := e']) = (array_map key val es)(k \<mapsto> val e')"
  by (induction es arbitrary: i) (auto split: if_splits nat.splits simp: fun_eq_iff)

lemma array_map_append:
  "first_index (\<lambda>e. key e = k) es = None \<Longrightarrow> key e' = k \<Longrightarrow> array_map key val (es @ [e']) = (array_map key val es)(k \<mapsto> val e')"
  by (induction es) (auto split: if_splits simp: fun_eq_iff)

lemma array_map_lookup:
  "array_map key val es k = map_option (\<lambda>i. val (es ! i)) (first_index (\<lambda>e. key e = k) es)"
  by (induction es) (auto simp: option.map_comp o_def)

lemma array_map_dom: "dom (array_map key val es) = key ` set es"
  by (simp add: array_map_def dom_map_of_conv_image_fst image_image)

lemma keys_update: "first_index (\<lambda>e. key e = k) es = Some i \<Longrightarrow> key e' = k \<Longrightarrow> map key (es[i := e']) = map key es"
  by (induction es arbitrary: i) (auto split: if_splits)

section \<open>The interface\<close>

locale keyed_store =
  fixes put :: "'k \<Rightarrow> 'v \<Rightarrow> ('s, unit) act" and keys :: "'s \<Rightarrow> 'k list" and view :: "'s \<Rightarrow> 'k \<Rightarrow> 'v option" and ok :: "'s \<Rightarrow> bool"
  assumes put_ok: "ok s \<Longrightarrow> put k v s = (Ret (), t) \<Longrightarrow> ok t"
    and put_view: "ok s \<Longrightarrow> put k v s = (Ret (), t) \<Longrightarrow> view t = (view s)(k \<mapsto> v)"
    and put_keys: "ok s \<Longrightarrow> put k v s = (Ret (), t) \<Longrightarrow> keys t = (if k \<in> set (keys s) then keys s else keys s @ [k])"
begin

fun puts :: "('k \<times> 'v) list \<Rightarrow> ('s, unit) act" where
  "puts [] = preturn ()"
| "puts ((k, v) # kvs) = pbind (put k v) (\<lambda>_. puts kvs)"

lemma puts_step:
  assumes "puts ((k, v) # kvs) s = (Ret (), t)"
  obtains u where "put k v s = (Ret (), u)" and "puts kvs u = (Ret (), t)"
  using assms by (auto simp: pbind_def split: prod.splits outcome.splits)

lemma puts_view: "ok s \<Longrightarrow> puts kvs s = (Ret (), t) \<Longrightarrow> ok t \<and> view t = view s ++ map_of (rev kvs)"
proof (induction kvs arbitrary: s rule: list.induct)
  case (Cons kv kvs)
  obtain k v where kv: "kv = (k, v)" by (cases kv)
  obtain u where u: "put k v s = (Ret (), u)" "puts kvs u = (Ret (), t)" using Cons.prems(2) unfolding kv by (rule puts_step)
  have "ok t \<and> view t = view u ++ map_of (rev kvs)" using Cons.IH [OF put_ok [OF Cons.prems(1) u(1)] u(2)] .
  then show ?case by (auto simp: kv put_view [OF Cons.prems(1) u(1)] map_add_def fun_eq_iff split: option.splits)
qed (simp add: preturn_def)

lemma puts_distinct:
  "ok s \<Longrightarrow> puts kvs s = (Ret (), t) \<Longrightarrow> distinct (keys s @ map fst kvs) \<Longrightarrow> keys t = keys s @ map fst kvs"
proof (induction kvs arbitrary: s rule: list.induct)
  case (Cons kv kvs)
  obtain k v where kv: "kv = (k, v)" by (cases kv)
  obtain u where u: "put k v s = (Ret (), u)" "puts kvs u = (Ret (), t)" using Cons.prems(2) unfolding kv by (rule puts_step)
  have "keys u = keys s @ [k]" using put_keys [OF Cons.prems(1) u(1)] Cons.prems(3) by (simp add: kv)
  then show ?case using Cons.IH [OF put_ok [OF Cons.prems(1) u(1)] u(2)] Cons.prems(3) by (simp add: kv)
qed (simp add: preturn_def)

text \<open>Filling an empty store with the entries of another of the same kind copies it, order and all.\<close>

lemma puts_copy:
  assumes "ok s" and "keys s = []" and "view s = Map.empty" and "puts kvs s = (Ret (), t)" and "distinct (map fst kvs)"
  shows "keys t = map fst kvs \<and> view t = map_of kvs"
proof -
  have "map_of (rev kvs) = map_of kvs" using assms(5) by (subst map_of_inject_set) (simp_all flip: rev_map)
  then show ?thesis using puts_view [OF assms(1,4)] puts_distinct [OF assms(1,4)] assms(2,3,5) by simp
qed

end

text \<open>A store that is left as it was when an insertion fails: a client may then go on, and what is stored is what was accepted.\<close>

locale steady_store = keyed_store put keys view ok
  for put :: "'k \<Rightarrow> 'v \<Rightarrow> ('s, unit) act" and keys :: "'s \<Rightarrow> 'k list" and view :: "'s \<Rightarrow> 'k \<Rightarrow> 'v option" and ok :: "'s \<Rightarrow> bool" +
  assumes put_fails: "ok s \<Longrightarrow> put k v s = (r, t) \<Longrightarrow> r \<noteq> Ret () \<Longrightarrow> ok t \<and> view t = view s \<and> keys t = keys s"
begin

fun tries :: "('k \<times> 'v) list \<Rightarrow> 's \<Rightarrow> ('k \<times> 'v) list \<times> 's" where
  "tries [] s = ([], s)"
| "tries ((k, v) # kvs) s =
     (case put k v s of
        (Ret _, t) \<Rightarrow> (case tries kvs t of (acc, u) \<Rightarrow> ((k, v) # acc, u))
      | (_, t) \<Rightarrow> tries kvs t)"

lemma tries_step:
  assumes "tries ((k, v) # kvs) s = (acc, t)" and "put k v s = (r, u)"
  obtains acc' where "tries kvs u = (acc', t)" and "acc = (if r = Ret () then (k, v) # acc' else acc')"
  using assms by (cases r) (auto split: prod.splits)

lemma tries_view: "ok s \<Longrightarrow> tries kvs s = (acc, t) \<Longrightarrow> ok t \<and> view t = view s ++ map_of (rev acc)"
proof (induction kvs arbitrary: s acc rule: list.induct)
  case (Cons kv kvs)
  obtain k v where kv: "kv = (k, v)" by (cases kv)
  obtain r u where r: "put k v s = (r, u)" by (cases "put k v s")
  obtain acc' where acc': "tries kvs u = (acc', t)" "acc = (if r = Ret () then (k, v) # acc' else acc')"
    using tries_step [OF Cons.prems(2) [unfolded kv] r] .
  show ?case
  proof (cases "r = Ret ()")
    case True
    then show ?thesis using Cons.IH [OF _ acc'(1)] put_ok [OF Cons.prems(1)] put_view [OF Cons.prems(1)] r acc'(2)
      by (auto simp: map_add_def fun_eq_iff split: option.splits)
  next
    case False
    then show ?thesis using Cons.IH [OF _ acc'(1)] put_fails [OF Cons.prems(1) r] acc'(2) by auto
  qed
qed simp

end

end
