(* ===== verification/AbstractStruct.thy ===== *)
theory AbstractStruct
  imports Records KeyedArray
begin

text \<open>
  The abstract structs of \<open>src/abstract_struct.c\<close>: dynamically typed rows, kept as an array of keys with their hash
  and their value. The state of an operation is the struct and the memory: the allocator with the two counters of the file.

  A struct owns its array, its keys, and the texts and blobs of its values. A blob is the list of its bytes; it is
  \<open>[]\<close> when the data pointer is NULL, and then its size is never looked at. \<open>char\<close> is signed and \<open>unsigned long\<close> has
  64 bits. The part that goes through the JSON library and the clients of SQLite, PostgreSQL and MySQL is not here.
\<close>

section \<open>Memory with counters\<close>

record cdd_memory =
  mem_heap :: heap
  memory_allocated :: "64 word"
  memory_freed :: "64 word"

definition cdd_c_malloc :: "nat \<Rightarrow> (cdd_memory, unit) act" where
  "cdd_c_malloc sz m =
     (if sz > 2147483647 then (Err C_ORM_ERROR_MEMORY, m)
      else case C_ORM_MALLOC (mem_heap m) of (ok, h) \<Rightarrow>
        if ok then (Ret (), m\<lparr>mem_heap := h, memory_allocated := memory_allocated m + of_nat sz\<rparr>)
        else (Err C_ORM_ERROR_MEMORY, m\<lparr>mem_heap := h\<rparr>))"

definition cdd_c_realloc :: "bool \<Rightarrow> nat \<Rightarrow> (cdd_memory, unit) act" where
  \<comment> \<open>\<open>ptr\<close>: whether there is a block already, otherwise \<open>realloc\<close> allocates one\<close>
  "cdd_c_realloc ptr sz m =
     (case (if ptr then C_ORM_REALLOC (mem_heap m) else C_ORM_MALLOC (mem_heap m)) of (ok, h) \<Rightarrow>
        if ok then (Ret (), m\<lparr>mem_heap := h, memory_allocated := (if ptr then memory_allocated m else memory_allocated m + of_nat sz)\<rparr>)
        else (Err C_ORM_ERROR_MEMORY, m\<lparr>mem_heap := h\<rparr>))"

definition cdd_c_free :: "bool \<Rightarrow> cdd_memory \<Rightarrow> cdd_memory" where
  "cdd_c_free ptr m = (if ptr then m\<lparr>memory_freed := memory_freed m + 1, mem_heap := C_ORM_FREE (mem_heap m)\<rparr> else m)"

definition cdd_c_get_allocated_bytes :: "bool \<Rightarrow> (cdd_memory, 64 word) act" where
  "cdd_c_get_allocated_bytes out_bytes m = (if out_bytes then (Ret (memory_allocated m), m) else (Err C_ORM_ERROR_VALIDATION, m))"

definition cdd_c_get_freed_calls :: "bool \<Rightarrow> (cdd_memory, 64 word) act" where
  "cdd_c_get_freed_calls out_calls m = (if out_calls then (Ret (memory_freed m), m) else (Err C_ORM_ERROR_VALIDATION, m))"

definition invalid :: "('s, 'a) act \<Rightarrow> ('s, 'a) act" where
  \<comment> \<open>\<open>if (... != C_ORM_OK) return C_ORM_ERROR_VALIDATION\<close>\<close>
  "invalid m s = (case m s of (Err _, t) \<Rightarrow> (Err C_ORM_ERROR_VALIDATION, t) | r \<Rightarrow> r)"

section \<open>Values\<close>

definition duplicate_string :: "cptr \<Rightarrow> (cdd_memory, unit) act" where
  "duplicate_string src =
     (case src of None \<Rightarrow> preturn () | Some s \<Rightarrow> invalid (cdd_c_malloc (length s + 1)))"

definition duplicate_blob :: "8 word list \<Rightarrow> (cdd_memory, unit) act" where
  "duplicate_blob src = (if src = [] then preturn () else invalid (cdd_c_malloc (length src)))"

definition cdd_c_variant_free :: "cdd_c_variant_t \<Rightarrow> cdd_memory \<Rightarrow> cdd_memory" where
  \<comment> \<open>the variant is CDD_C_VARIANT_TYPE_NULL afterwards\<close>
  "cdd_c_variant_free v m =
     (case v of
        CDD_C_VARIANT_TYPE_STRING p \<Rightarrow> cdd_c_free (p \<noteq> None) m
      | CDD_C_VARIANT_TYPE_BLOB bs \<Rightarrow> cdd_c_free (bs \<noteq> []) m
      | _ \<Rightarrow> m)"

definition copy_variant :: "cdd_c_variant_t \<Rightarrow> cdd_memory \<Rightarrow> c_orm_error_t \<times> cdd_c_variant_t \<times> cdd_memory" where
  \<comment> \<open>the status and what \<open>dest\<close> is then: after a failure it has the type of the source and a NULL pointer\<close>
  "copy_variant src m =
     (case src of
        CDD_C_VARIANT_TYPE_STRING p \<Rightarrow>
          (case duplicate_string p m of
             (Ret _, m') \<Rightarrow> (C_ORM_OK, CDD_C_VARIANT_TYPE_STRING p, m')
           | (_, m') \<Rightarrow> (C_ORM_ERROR_VALIDATION, CDD_C_VARIANT_TYPE_STRING None, m'))
      | CDD_C_VARIANT_TYPE_BLOB bs \<Rightarrow>
          (case duplicate_blob bs m of
             (Ret _, m') \<Rightarrow> (C_ORM_OK, CDD_C_VARIANT_TYPE_BLOB bs, m')
           | (_, m') \<Rightarrow> (C_ORM_ERROR_VALIDATION, CDD_C_VARIANT_TYPE_BLOB [], m'))
      | _ \<Rightarrow> (C_ORM_OK, src, m))"

definition hash_string :: "string \<Rightarrow> 64 word" where
  "hash_string s = foldl (\<lambda>hash c. (push_bit 5 hash + hash) + scast (of_char c :: 8 word)) 5381 s"

section \<open>Structs\<close>

record cdd_c_abstract_struct_kv_t =
  kv_key :: string
  key_hash :: "64 word"
  kv_value :: cdd_c_variant_t

record cdd_c_abstract_struct_t =
  kvs :: "cdd_c_abstract_struct_kv_t list option"
  kvs_capacity :: nat

text \<open>\<open>kvs\<close>: the pointer to the array, NULL or with the entries that are in use; their number is \<open>count\<close>.\<close>

definition kv_list :: "cdd_c_abstract_struct_t \<Rightarrow> cdd_c_abstract_struct_kv_t list" where
  "kv_list a = (case kvs a of None \<Rightarrow> [] | Some es \<Rightarrow> es)"

type_synonym 'a astruct_act = "(cdd_c_abstract_struct_t \<times> cdd_memory, 'a) act"

definition in_memory :: "(cdd_memory, 'a) act \<Rightarrow> ('s \<times> cdd_memory, 'a) act" where
  "in_memory f s = (case f (snd s) of (r, m) \<Rightarrow> (r, (fst s, m)))"

definition cdd_c_abstract_struct_init_with_capacity :: "bool \<Rightarrow> nat \<Rightarrow> unit astruct_act" where
  \<comment> \<open>an entry has 40 bytes. When there is no memory the array is NULL, and the capacity stays\<close>
  "cdd_c_abstract_struct_init_with_capacity astruct cap s =
     (if \<not> astruct \<or> cap > (2 ^ 64 - 1) div 40 then (Err C_ORM_ERROR_VALIDATION, s)
      else let s1 = (\<lparr>kvs = None, kvs_capacity = cap\<rparr>, snd s) in
        if 0 < cap then
          pbind (invalid (in_memory (cdd_c_malloc (cap * 40)))) (\<lambda>_ (a, m). (Ret (), (a\<lparr>kvs := Some []\<rparr>, m))) s1
        else (Ret (), s1))"

definition cdd_c_abstract_struct_init :: "bool \<Rightarrow> unit astruct_act" where
  "cdd_c_abstract_struct_init astruct = cdd_c_abstract_struct_init_with_capacity astruct 0"

datatype variant_arg = No_variant | Given cdd_c_variant_t | Own nat

text \<open>
  The value that is passed to \<open>cdd_c_abstract_set\<close>: NULL, a value outside of the struct, or the address of the value
  of its entry \<open>i\<close>, as \<open>cdd_c_abstract_get\<close> returns it.
\<close>

definition is_own :: "variant_arg \<Rightarrow> bool" where
  "is_own arg = (case arg of Own _ \<Rightarrow> True | _ \<Rightarrow> False)"

lemma is_own_simps [simp]: "is_own arg \<longleftrightarrow> (\<exists>i. arg = Own i)"
  by (simp add: is_own_def split: variant_arg.splits)

lemma is_own_code [code]: "is_own No_variant = False" "is_own (Given v) = False" "is_own (Own i) = True"
  by (simp_all add: is_own_def)

definition arg_value :: "variant_arg \<Rightarrow> cdd_c_abstract_struct_t \<Rightarrow> cdd_c_variant_t outcome" where
  "arg_value arg a =
     (case arg of
        Given v \<Rightarrow> Ret v
      | Own i \<Rightarrow> if i < length (kv_list a) then Ret (kv_value (kv_list a ! i)) else Stuck
      | No_variant \<Rightarrow> Stuck)"

definition put_value :: "nat \<Rightarrow> cdd_c_variant_t \<Rightarrow> cdd_c_abstract_struct_t \<Rightarrow> cdd_c_abstract_struct_t" where
  "put_value i v a = a\<lparr>kvs := Some ((kv_list a)[i := (kv_list a ! i)\<lparr>kv_value := v\<rparr>])\<rparr>"

definition set_existing :: "nat \<Rightarrow> variant_arg \<Rightarrow> unit astruct_act" where
  \<comment> \<open>the old value is freed before the new one is read\<close>
  "set_existing i arg s =
     (let m1 = cdd_c_variant_free (kv_value (kv_list (fst s) ! i)) (snd s);
          a1 = put_value i CDD_C_VARIANT_TYPE_NULL (fst s) in
      case arg_value arg a1 of
        Ret v \<Rightarrow>
          (case copy_variant v m1 of (rc, d, m2) \<Rightarrow> (if rc = C_ORM_OK then Ret () else Err rc, (put_value i d a1, m2)))
      | _ \<Rightarrow> (Stuck, (a1, m1)))"

definition reserve_entry :: "bool astruct_act" where
  \<comment> \<open>whether the array has been reallocated\<close>
  "reserve_entry s =
     (if kvs_capacity (fst s) \<le> length (kv_list (fst s)) then
        let new_cap = (if kvs_capacity (fst s) = 0 then 4 else kvs_capacity (fst s) * 2) in
        pbind (invalid (in_memory (cdd_c_realloc (kvs (fst s) \<noteq> None) (new_cap * 40))))
          (\<lambda>_ (a, m). (Ret True, (a\<lparr>kvs := Some (kv_list a), kvs_capacity := new_cap\<rparr>, m))) s
      else (Ret False, s))"

definition append_entry :: "bool \<Rightarrow> string \<Rightarrow> 64 word \<Rightarrow> variant_arg \<Rightarrow> unit astruct_act" where
  \<comment> \<open>after the array has moved, an address in it is an address of freed memory; and the array may be NULL\<close>
  "append_entry moved key khash arg s =
     (if kvs (fst s) = None then (Stuck, s)
      else pbind (in_memory (duplicate_string (Some key))) (\<lambda>_ (a, m).
        case arg_value arg a of
          Ret v \<Rightarrow>
            if moved \<and> is_own arg then (Stuck, (a, m))
            else (case copy_variant v m of (rc, d, m2) \<Rightarrow>
              if rc \<noteq> C_ORM_OK then (Err C_ORM_ERROR_VALIDATION, (a, cdd_c_free True m2))
              else (Ret (), (a\<lparr>kvs := Some (kv_list a @ [\<lparr>kv_key = key, key_hash = khash, kv_value = d\<rparr>])\<rparr>, m2)))
        | _ \<Rightarrow> (Stuck, (a, m))) s)"

definition find_key :: "string \<Rightarrow> cdd_c_abstract_struct_t \<Rightarrow> nat option" where
  "find_key key a = first_index (\<lambda>e. key_hash e = hash_string key \<and> kv_key e = key) (kv_list a)"

definition cdd_c_abstract_set :: "bool \<Rightarrow> cptr \<Rightarrow> variant_arg \<Rightarrow> unit astruct_act" where
  "cdd_c_abstract_set astruct key arg s =
     (case key of
        None \<Rightarrow> (Err C_ORM_ERROR_VALIDATION, s)
      | Some k \<Rightarrow>
          if \<not> astruct \<or> arg = No_variant then (Err C_ORM_ERROR_VALIDATION, s)
          else (case find_key k (fst s) of
              Some i \<Rightarrow> set_existing i arg s
            | None \<Rightarrow> pbind reserve_entry (\<lambda>moved. append_entry moved k (hash_string k) arg) s))"

definition cdd_c_abstract_get :: "bool \<Rightarrow> cptr \<Rightarrow> bool \<Rightarrow> nat astruct_act" where
  \<comment> \<open>the entry whose value's address is returned\<close>
  "cdd_c_abstract_get astruct key out_value s =
     (case key of
        None \<Rightarrow> (Err C_ORM_ERROR_VALIDATION, s)
      | Some k \<Rightarrow>
          if \<not> astruct \<or> \<not> out_value then (Err C_ORM_ERROR_VALIDATION, s)
          else (case find_key k (fst s) of Some i \<Rightarrow> (Ret i, s) | None \<Rightarrow> (Err C_ORM_ERROR_VALIDATION, s)))"

fun free_kvs :: "cdd_c_abstract_struct_kv_t list \<Rightarrow> cdd_memory \<Rightarrow> cdd_memory" where
  "free_kvs [] m = m"
| "free_kvs (e # es) m = free_kvs es (cdd_c_variant_free (kv_value e) (cdd_c_free True m))"

definition cdd_c_abstract_struct_free :: "bool \<Rightarrow> unit astruct_act" where
  "cdd_c_abstract_struct_free astruct s =
     (if \<not> astruct then (Err C_ORM_ERROR_VALIDATION, s)
      else (Ret (), (\<lparr>kvs = None, kvs_capacity = 0\<rparr>,
        cdd_c_free (kvs (fst s) \<noteq> None) (free_kvs (kv_list (fst s)) (snd s)))))"

definition or_free :: "unit astruct_act \<Rightarrow> unit astruct_act" where
  "or_free f s =
     (case f s of (Err _, t) \<Rightarrow> pbind (cdd_c_abstract_struct_free True) (\<lambda>_. perr C_ORM_ERROR_VALIDATION) t | r \<Rightarrow> r)"

fun set_all :: "(cptr \<times> cdd_c_variant_t) list \<Rightarrow> unit astruct_act" where
  \<comment> \<open>the loops over \<open>cdd_c_abstract_set\<close>\<close>
  "set_all [] = preturn ()"
| "set_all ((k, v) # rest) = pbind (cdd_c_abstract_set True k (Given v)) (\<lambda>_. set_all rest)"

definition cdd_c_abstract_struct_deep_copy :: "bool \<Rightarrow> cdd_c_abstract_struct_t option \<Rightarrow> unit astruct_act" where
  \<comment> \<open>into a struct other than the source\<close>
  "cdd_c_abstract_struct_deep_copy dest src =
     (case src of
        None \<Rightarrow> perr C_ORM_ERROR_VALIDATION
      | Some a \<Rightarrow>
          if \<not> dest then perr C_ORM_ERROR_VALIDATION
          else pbind (cdd_c_abstract_struct_init True) (\<lambda>_.
            or_free (set_all (map (\<lambda>e. (Some (kv_key e), kv_value e)) (kv_list a)))))"

section \<open>Rows of a driver\<close>

record cdd_c_column_meta_t =
  column_name :: cptr
  inferred_type :: int

datatype raw_value = Raw_int "64 word" | Raw_double "64 word" | Raw_text string | Raw_bytes

definition raw_variant :: "int \<Rightarrow> raw_value option \<Rightarrow> cdd_c_variant_t outcome" where
  \<comment> \<open>a value is read as what its column says; reading something else there is undefined\<close>
  "raw_variant ctype raw =
     (case raw of
        None \<Rightarrow> Ret CDD_C_VARIANT_TYPE_NULL
      | Some v \<Rightarrow>
          if ctype \<in> {4, 3, 14} then (case v of Raw_int w \<Rightarrow> Ret (CDD_C_VARIANT_TYPE_INT w) | _ \<Rightarrow> Stuck)
          else if ctype \<in> {8, 9, 10} then (case v of Raw_double w \<Rightarrow> Ret (CDD_C_VARIANT_TYPE_FLOAT w) | _ \<Rightarrow> Stuck)
          else if ctype \<in> {5, 6, 7, 11, 12} then (case v of Raw_text s \<Rightarrow> Ret (CDD_C_VARIANT_TYPE_STRING (Some s)) | _ \<Rightarrow> Stuck)
          else Ret (CDD_C_VARIANT_TYPE_BLOB []))"

fun hydrate_cols :: "cdd_c_column_meta_t list \<Rightarrow> raw_value option list \<Rightarrow> unit astruct_act" where
  "hydrate_cols [] raws = preturn ()"
| "hydrate_cols (c # cs) raws =
     (case raws of
        [] \<Rightarrow> stuck
      | raw # raws' \<Rightarrow>
          (case raw_variant (inferred_type c) raw of
             Ret v \<Rightarrow> pbind (cdd_c_abstract_set True (column_name c) (Given v)) (\<lambda>_. hydrate_cols cs raws')
           | _ \<Rightarrow> stuck))"

definition cdd_c_abstract_hydrate :: "bool \<Rightarrow> raw_value option list option \<Rightarrow> cdd_c_column_meta_t list option \<Rightarrow> unit astruct_act" where
  "cdd_c_abstract_hydrate out_astruct row_data cols =
     (case (row_data, cols) of
        (Some raws, Some cs) \<Rightarrow>
          if \<not> out_astruct then perr C_ORM_ERROR_VALIDATION
          else pbind (invalid (cdd_c_abstract_struct_init_with_capacity True (length cs))) (\<lambda>_. or_free (hydrate_cols cs raws))
      | _ \<Rightarrow> perr C_ORM_ERROR_VALIDATION)"

section \<open>Arrays of structs\<close>

record cdd_c_abstract_struct_array_t =
  items :: "cdd_c_abstract_struct_t list option"
  items_capacity :: nat

definition item_list :: "cdd_c_abstract_struct_array_t \<Rightarrow> cdd_c_abstract_struct_t list" where
  "item_list arr = (case items arr of None \<Rightarrow> [] | Some xs \<Rightarrow> xs)"

definition cdd_c_abstract_struct_array_init :: "bool \<Rightarrow> nat \<Rightarrow> (cdd_c_abstract_struct_array_t \<times> cdd_memory, unit) act" where
  \<comment> \<open>a struct has 24 bytes\<close>
  "cdd_c_abstract_struct_array_init arr cap s =
     (if \<not> arr \<or> cap > (2 ^ 64 - 1) div 24 then (Err C_ORM_ERROR_VALIDATION, s)
      else let s1 = (\<lparr>items = None, items_capacity = cap\<rparr>, snd s) in
        if 0 < cap then
          pbind (invalid (in_memory (cdd_c_malloc (cap * 24)))) (\<lambda>_ (a, m). (Ret (), (a\<lparr>items := Some []\<rparr>, m))) s1
        else (Ret (), s1))"

definition grow_items :: "(cdd_c_abstract_struct_array_t \<times> cdd_memory, unit) act" where
  "grow_items s =
     (if items_capacity (fst s) \<le> length (item_list (fst s)) then
        if items_capacity (fst s) > (2 ^ 64 - 1) div 2 then (Err C_ORM_ERROR_VALIDATION, s)
        else let new_cap = (if items_capacity (fst s) = 0 then 4 else items_capacity (fst s) * 2) in
          if new_cap > (2 ^ 64 - 1) div 24 then (Err C_ORM_ERROR_VALIDATION, s)
          else pbind (invalid (in_memory (cdd_c_realloc (items (fst s) \<noteq> None) (new_cap * 24))))
            (\<lambda>_ (a, m). (Ret (), (a\<lparr>items := Some (item_list a), items_capacity := new_cap\<rparr>, m))) s
      else (Ret (), s))"

definition cdd_c_abstract_struct_array_append ::
    "bool \<Rightarrow> cdd_c_abstract_struct_t option \<Rightarrow> (cdd_c_abstract_struct_array_t \<times> cdd_memory, cdd_c_abstract_struct_t) act" where
  \<comment> \<open>the result is the struct that is left to the caller: empty, its array now belongs to the other\<close>
  "cdd_c_abstract_struct_array_append arr astruct s =
     (case astruct of
        None \<Rightarrow> (Err C_ORM_ERROR_VALIDATION, s)
      | Some x \<Rightarrow>
          if \<not> arr then (Err C_ORM_ERROR_VALIDATION, s)
          else pbind grow_items (\<lambda>_ (a, m). case items a of
              None \<Rightarrow> (Stuck, (a, m))
            | Some xs \<Rightarrow> (Ret \<lparr>kvs = None, kvs_capacity = 0\<rparr>, (a\<lparr>items := Some (xs @ [x])\<rparr>, m))) s)"

fun free_structs :: "cdd_c_abstract_struct_t list \<Rightarrow> cdd_memory \<Rightarrow> cdd_memory" where
  "free_structs [] m = m"
| "free_structs (x # xs) m = free_structs xs (snd (snd (cdd_c_abstract_struct_free True (x, m))))"

definition cdd_c_abstract_struct_array_free :: "bool \<Rightarrow> (cdd_c_abstract_struct_array_t \<times> cdd_memory, unit) act" where
  "cdd_c_abstract_struct_array_free arr s =
     (if \<not> arr then (Err C_ORM_ERROR_VALIDATION, s)
      else (Ret (), (\<lparr>items = None, items_capacity = 0\<rparr>,
        cdd_c_free (items (fst s) \<noteq> None) (free_structs (item_list (fst s)) (snd s)))))"

end
