(* ===== verification/AbstractProps.thy ===== *)
theory AbstractProps
  imports AbstractStruct
begin

text \<open>
  Properties of the abstract structs: as a map, what is set is got; a deep copy is equal; every block is given back; and
  what happens when a struct is given one of its own values.
\<close>

section \<open>Blocks\<close>

fun variant_blocks :: "cdd_c_variant_t \<Rightarrow> int" where
  "variant_blocks (CDD_C_VARIANT_TYPE_STRING p) = (if p = None then 0 else 1)"
| "variant_blocks (CDD_C_VARIANT_TYPE_BLOB bs) = (if bs = [] then 0 else 1)"
| "variant_blocks _ = 0"

definition kv_blocks :: "cdd_c_abstract_struct_kv_t list \<Rightarrow> int" where
  "kv_blocks es = (\<Sum>e\<leftarrow>es. 1 + variant_blocks (kv_value e))"

definition struct_blocks :: "cdd_c_abstract_struct_t \<Rightarrow> int" where
  "struct_blocks a = (if kvs a = None then 0 else 1) + kv_blocks (kv_list a)"

abbreviation blocks_in :: "cdd_memory \<Rightarrow> int" where
  "blocks_in m \<equiv> live (mem_heap m)"

lemma kv_blocks_simps [simp]:
  "kv_blocks [] = 0" "kv_blocks (e # es) = 1 + variant_blocks (kv_value e) + kv_blocks es" "kv_blocks (xs @ ys) = kv_blocks xs + kv_blocks ys"
  by (simp_all add: kv_blocks_def)

lemma kv_blocks_update:
  "i < length es \<Longrightarrow> kv_blocks (es[i := (es ! i)\<lparr>kv_value := v\<rparr>]) = kv_blocks es - variant_blocks (kv_value (es ! i)) + variant_blocks v"
  by (induction es arbitrary: i) (auto split: nat.splits)

lemma malloc_blocks: "cdd_c_malloc sz m = (r, m') \<Longrightarrow> blocks_in m' = blocks_in m + (if r = Ret () then 1 else 0) \<and> r \<noteq> Stuck"
  by (auto simp: cdd_c_malloc_def dest: malloc_live split: prod.splits if_splits)

lemma realloc_blocks:
  "cdd_c_realloc ptr sz m = (r, m') \<Longrightarrow> blocks_in m' = blocks_in m + (if r = Ret () \<and> \<not> ptr then 1 else 0) \<and> r \<noteq> Stuck"
  by (auto simp: cdd_c_realloc_def dest: malloc_live realloc_live split: prod.splits if_splits)

lemma free_blocks [simp]: "blocks_in (cdd_c_free ptr m) = blocks_in m - (if ptr then 1 else 0)"
  by (simp add: cdd_c_free_def)

lemma variant_free_blocks [simp]: "blocks_in (cdd_c_variant_free v m) = blocks_in m - variant_blocks v"
  by (cases v) (simp_all add: cdd_c_variant_free_def)

lemma duplicate_blocks:
  "duplicate_string p m = (r, m') \<Longrightarrow> r \<noteq> Stuck \<and> blocks_in m' = blocks_in m + (if r = Ret () \<and> p \<noteq> None then 1 else 0)"
  "duplicate_blob bs m = (r, m') \<Longrightarrow> r \<noteq> Stuck \<and> blocks_in m' = blocks_in m + (if r = Ret () \<and> bs \<noteq> [] then 1 else 0)"
  by (auto simp: duplicate_string_def duplicate_blob_def invalid_def preturn_def dest: malloc_blocks
      split: option.splits if_splits prod.splits outcome.splits)

text \<open>What a failed copy leaves.\<close>

definition emptied :: "cdd_c_variant_t \<Rightarrow> cdd_c_variant_t" where
  "emptied v = (case v of CDD_C_VARIANT_TYPE_STRING p \<Rightarrow> CDD_C_VARIANT_TYPE_STRING None
     | CDD_C_VARIANT_TYPE_BLOB bs \<Rightarrow> CDD_C_VARIANT_TYPE_BLOB [] | _ \<Rightarrow> v)"

lemma emptied_blocks [simp]: "variant_blocks (emptied v) = 0"
  by (cases v) (simp_all add: emptied_def)

lemma copy_variant_run:
  assumes "copy_variant v m = (rc, d, m')"
  shows "blocks_in m' = blocks_in m + variant_blocks d"
    and "rc = C_ORM_OK \<and> d = v \<or> rc = C_ORM_ERROR_VALIDATION \<and> d = emptied v"
  using assms duplicate_blocks
  by (auto simp: copy_variant_def emptied_def split: cdd_c_variant_t.splits prod.splits outcome.splits)

lemma free_kvs_blocks: "blocks_in (free_kvs es m) = blocks_in m - kv_blocks es"
  by (induction es arbitrary: m) auto

lemma struct_free_run:
  "cdd_c_abstract_struct_free True (a, m) = (Ret (), (\<lparr>kvs = None, kvs_capacity = 0\<rparr>, snd (snd (cdd_c_abstract_struct_free True (a, m)))))"
  "blocks_in (snd (snd (cdd_c_abstract_struct_free True (a, m)))) = blocks_in m - struct_blocks a"
  by (simp_all add: cdd_c_abstract_struct_free_def struct_blocks_def free_kvs_blocks)

section \<open>Setting a value\<close>

definition struct_ok :: "cdd_c_abstract_struct_t \<Rightarrow> bool" where
  "struct_ok a \<longleftrightarrow> (kvs a = None \<longrightarrow> kvs_capacity a = 0) \<and> (\<forall>e \<in> set (kv_list a). key_hash e = hash_string (kv_key e)) \<and>
     distinct (map kv_key (kv_list a))"

definition struct_keys :: "cdd_c_abstract_struct_t \<Rightarrow> string list" where
  "struct_keys a = map kv_key (kv_list a)"

definition struct_map :: "cdd_c_abstract_struct_t \<Rightarrow> string \<Rightarrow> cdd_c_variant_t option" where
  "struct_map a = array_map kv_key kv_value (kv_list a)"

lemma kv_list_simps [simp]: "kv_list (a\<lparr>kvs := Some es\<rparr>) = es" "kv_list (a\<lparr>kvs_capacity := n\<rparr>) = kv_list a"
  "kv_list \<lparr>kvs = None, kvs_capacity = n\<rparr> = []" "kv_list \<lparr>kvs = Some es, kvs_capacity = n\<rparr> = es"
  by (simp_all add: kv_list_def)

text \<open>With the invariant, the hash makes no difference.\<close>

lemma find_key_ok:
  assumes "struct_ok a"
  shows "find_key k a = first_index (\<lambda>e. kv_key e = k) (kv_list a)"
  unfolding find_key_def by (rule first_index_cong) (use assms in \<open>auto simp: struct_ok_def\<close>)

lemma find_key_index: "find_key k a = Some i \<Longrightarrow> i < length (kv_list a) \<and> kv_key (kv_list a ! i) = k"
  unfolding find_key_def using first_index_Some by fastforce

lemma put_value_simps [simp]:
  "kv_list (put_value i v a) = (kv_list a)[i := (kv_list a ! i)\<lparr>kv_value := v\<rparr>]"
  "kvs (put_value i v a) \<noteq> None" "kvs_capacity (put_value i v a) = kvs_capacity a"
  by (simp_all add: put_value_def)

lemma put_value_blocks:
  assumes "i < length (kv_list a)"
  shows "struct_blocks (put_value i v a) = struct_blocks a - variant_blocks (kv_value (kv_list a ! i)) + variant_blocks v"
proof -
  have "kvs a \<noteq> None" using assms by (cases "kvs a") (simp_all add: kv_list_def)
  then show ?thesis using assms by (simp add: struct_blocks_def kv_blocks_update)
qed

lemma put_value_keys: "struct_keys (put_value i v a) = struct_keys a"
proof (cases "i < length (kv_list a)")
  case True
  then show ?thesis by (simp add: struct_keys_def map_update list_update_id) (metis list_update_id nth_map)
qed (simp add: struct_keys_def list_update_beyond)

lemma put_value_twice: "i < length (kv_list a) \<Longrightarrow> put_value i v (put_value i w a) = put_value i v a"
  by (simp add: put_value_def)

lemma put_value_ok:
  assumes "struct_ok a"
  shows "struct_ok (put_value i v a)"
proof (cases "i < length (kv_list a)")
  case True
  have "key_hash e = hash_string (kv_key e)" if "e \<in> set ((kv_list a)[i := (kv_list a ! i)\<lparr>kv_value := v\<rparr>])" for e
    using assms nth_mem [OF True] subsetD [OF set_update_subset_insert that] by (auto simp: struct_ok_def)
  moreover have "distinct (map kv_key (kv_list (put_value i v a)))"
    using assms put_value_keys [of i v a] by (simp add: struct_ok_def struct_keys_def)
  ultimately show ?thesis by (simp add: struct_ok_def)
qed (use assms in \<open>simp add: struct_ok_def list_update_beyond\<close>)

lemma put_value_map:
  assumes "struct_ok a" and "find_key k a = Some i"
  shows "struct_map (put_value i v a) = (struct_map a)(k \<mapsto> v)"
proof -
  have "first_index (\<lambda>e. kv_key e = k) (kv_list a) = Some i" using assms(2) find_key_ok [OF assms(1)] by simp
  from array_map_update [OF this, where e' = "(kv_list a ! i)\<lparr>kv_value := v\<rparr>" and val = kv_value] show ?thesis
    using find_key_index [OF assms(2)] by (simp add: struct_map_def)
qed

lemma set_existing_run:
  assumes "find_key k (fst s) = Some i" and "set_existing i arg s = (r, t)" and "r \<noteq> Stuck"
  shows "blocks_in (snd t) - struct_blocks (fst t) = blocks_in (snd s) - struct_blocks (fst s)"
    and "struct_ok (fst s) \<Longrightarrow> struct_ok (fst t) \<and> struct_keys (fst t) = struct_keys (fst s)"
    and "struct_ok (fst s) \<Longrightarrow> arg = Given v \<Longrightarrow>
      (r = Ret () \<and> struct_map (fst t) = (struct_map (fst s))(k \<mapsto> v) \<or>
       r = Err C_ORM_ERROR_VALIDATION \<and> struct_map (fst t) = (struct_map (fst s))(k \<mapsto> emptied v))"
proof -
  obtain a m where s: "s = (a, m)" by (cases s)
  note i = find_key_index [OF assms(1), unfolded s fst_conv]
  define a1 where "a1 = put_value i CDD_C_VARIANT_TYPE_NULL a"
  define m1 where "m1 = cdd_c_variant_free (kv_value (kv_list a ! i)) m"
  obtain v' where v': "arg_value arg a1 = Ret v'"
    using assms(2,3) by (cases "arg_value arg a1") (auto simp: set_existing_def s a1_def Let_def split: prod.splits)
  obtain rc d m2 where c: "copy_variant v' m1 = (rc, d, m2)" by (metis prod_cases3)
  have t: "t = (put_value i d a1, m2)" "r = (if rc = C_ORM_OK then Ret () else Err rc)"
    using assms(2) v' c by (auto simp: set_existing_def s a1_def m1_def Let_def)
  have i1: "i < length (kv_list a1)" "kv_value (kv_list a1 ! i) = CDD_C_VARIANT_TYPE_NULL" using i by (simp_all add: a1_def)
  show "blocks_in (snd t) - struct_blocks (fst t) = blocks_in (snd s) - struct_blocks (fst s)"
    using i i1 copy_variant_run(1) [OF c] put_value_blocks [of i a CDD_C_VARIANT_TYPE_NULL] put_value_blocks [OF i1(1), of d]
    by (simp add: s t m1_def a1_def [symmetric])
  assume ok: "struct_ok (fst s)"
  then show "struct_ok (fst t) \<and> struct_keys (fst t) = struct_keys (fst s)"
    by (simp add: t s a1_def put_value_keys put_value_ok)
  assume "arg = Given v"
  then have "v' = v" using v' by (simp add: arg_value_def)
  then show "r = Ret () \<and> struct_map (fst t) = (struct_map (fst s))(k \<mapsto> v) \<or>
       r = Err C_ORM_ERROR_VALIDATION \<and> struct_map (fst t) = (struct_map (fst s))(k \<mapsto> emptied v)"
    using copy_variant_run(2) [OF c] put_value_twice [of i a d CDD_C_VARIANT_TYPE_NULL] i put_value_map [of a k i d] ok assms(1)
    by (auto simp: t a1_def s)
qed

lemma reserve_run:
  assumes "reserve_entry (a, m) = (r, (a', m'))"
  shows "kv_list a' = kv_list a" and "blocks_in m' - struct_blocks a' = blocks_in m - struct_blocks a"
    and "r = Ret True \<and> kvs a' \<noteq> None \<or> r = Ret False \<and> a' = a \<and> length (kv_list a) < kvs_capacity a \<or> r = Err C_ORM_ERROR_VALIDATION \<and> a' = a"
proof -
  define n where "n = (if kvs_capacity a = 0 then 4 else kvs_capacity a * 2)"
  define p where "p \<longleftrightarrow> kvs a \<noteq> None"
  obtain q m1 where q: "cdd_c_realloc p (n * 40) m = (q, m1)" by (metis surj_pair)
  note defs = reserve_entry_def fst_conv snd_conv Let_def n_def [symmetric] p_def [symmetric]
  have run: "(r, (a', m')) = (if kvs_capacity a \<le> length (kv_list a)
      then (case q of Ret _ \<Rightarrow> (Ret True, (a\<lparr>kvs := Some (kv_list a), kvs_capacity := n\<rparr>, m1)) | _ \<Rightarrow> (Err C_ORM_ERROR_VALIDATION, (a, m1)))
      else (Ret False, (a, m)))"
    using assms [unfolded defs] realloc_blocks [OF q]
    by (auto simp: pbind_def invalid_def in_memory_def q split: outcome.splits)
  then show "kv_list a' = kv_list a" by (auto split: if_splits outcome.splits)
  show "blocks_in m' - struct_blocks a' = blocks_in m - struct_blocks a"
    using run realloc_blocks [OF q] by (auto simp: struct_blocks_def p_def split: if_splits outcome.splits)
  show "r = Ret True \<and> kvs a' \<noteq> None \<or> r = Ret False \<and> a' = a \<and> length (kv_list a) < kvs_capacity a \<or> r = Err C_ORM_ERROR_VALIDATION \<and> a' = a"
    using run by (auto split: if_splits outcome.splits)
qed

lemma append_run:
  assumes "append_entry moved k h arg (a, m) = (r, (a', m'))"
  shows "r \<noteq> Stuck \<Longrightarrow> blocks_in m' - struct_blocks a' = blocks_in m - struct_blocks a"
    and "r \<noteq> Stuck \<Longrightarrow> r = Err C_ORM_ERROR_VALIDATION \<and> a' = a \<or>
      r = Ret () \<and> kvs a' \<noteq> None \<and> (\<exists>v. kv_list a' = kv_list a @ [\<lparr>kv_key = k, key_hash = h, kv_value = v\<rparr>] \<and> arg_value arg a = Ret v)"
    and "kvs a \<noteq> None \<Longrightarrow> arg = Given v \<Longrightarrow> r \<noteq> Stuck"
proof -
  obtain q m1 where q: "duplicate_string (Some k) m = (q, m1)" by (metis surj_pair)
  note dup = duplicate_blocks(1) [OF q]
  have fail: "q = Err e \<Longrightarrow> e = C_ORM_ERROR_VALIDATION" for e
    using q by (auto simp: duplicate_string_def invalid_def split: prod.splits outcome.splits)
  consider (null) "kvs a = None" | (oom) "kvs a \<noteq> None" "q = Err C_ORM_ERROR_VALIDATION"
    | (stale) "kvs a \<noteq> None" "q = Ret ()" "moved \<and> (\<exists>i. arg = Own i) \<or> (\<nexists>v. arg_value arg a = Ret v)"
    | (copy) v where "kvs a \<noteq> None" "q = Ret ()" "\<not> (moved \<and> (\<exists>i. arg = Own i))" "arg_value arg a = Ret v"
    using dup fail by (cases q) auto
  then have "(r \<noteq> Stuck \<longrightarrow> blocks_in m' - struct_blocks a' = blocks_in m - struct_blocks a \<and> (r = Err C_ORM_ERROR_VALIDATION \<and> a' = a \<or>
      r = Ret () \<and> kvs a' \<noteq> None \<and> (\<exists>v. kv_list a' = kv_list a @ [\<lparr>kv_key = k, key_hash = h, kv_value = v\<rparr>] \<and> arg_value arg a = Ret v))) \<and>
    (kvs a \<noteq> None \<longrightarrow> arg = Given v \<longrightarrow> r \<noteq> Stuck)"
  proof cases
    case null
    then show ?thesis using assms by (simp add: append_entry_def)
  next
    case oom
    then show ?thesis using assms dup by (auto simp: append_entry_def pbind_def in_memory_def q)
  next
    case stale
    then show ?thesis using assms
      by (auto simp: append_entry_def pbind_def in_memory_def q arg_value_def split: outcome.splits variant_arg.splits if_splits)
  next
    case (copy w)
    obtain rc d m2 where c: "copy_variant w m1 = (rc, d, m2)" by (metis prod_cases3)
    show ?thesis
      using assms copy dup copy_variant_run [OF c]
      by (auto simp: append_entry_def pbind_def in_memory_def q c struct_blocks_def split: if_splits)
  qed
  then show "r \<noteq> Stuck \<Longrightarrow> blocks_in m' - struct_blocks a' = blocks_in m - struct_blocks a"
    "r \<noteq> Stuck \<Longrightarrow> r = Err C_ORM_ERROR_VALIDATION \<and> a' = a \<or>
      r = Ret () \<and> kvs a' \<noteq> None \<and> (\<exists>v. kv_list a' = kv_list a @ [\<lparr>kv_key = k, key_hash = h, kv_value = v\<rparr>] \<and> arg_value arg a = Ret v)"
    "kvs a \<noteq> None \<Longrightarrow> arg = Given v \<Longrightarrow> r \<noteq> Stuck" by blast+
qed

text \<open>All of it: what a call of \<open>cdd_c_abstract_set\<close> does to the blocks, the invariant and the map.\<close>

lemma set_cases:
  assumes "cdd_c_abstract_set astruct key arg s = (r, t)"
  obtains "r = Err C_ORM_ERROR_VALIDATION" "t = s" "\<not> astruct \<or> key = None \<or> arg = No_variant"
  | k i where "key = Some k" "find_key k (fst s) = Some i" "set_existing i arg s = (r, t)" "arg \<noteq> No_variant" "astruct"
  | k where "key = Some k" "find_key k (fst s) = None" "reserve_entry s = (Err C_ORM_ERROR_VALIDATION, t)" "r = Err C_ORM_ERROR_VALIDATION" "astruct"
  | k u moved where "key = Some k" "find_key k (fst s) = None" "reserve_entry s = (Ret moved, u)"
      "append_entry moved k (hash_string k) arg u = (r, t)" "astruct"
proof (cases "\<not> astruct \<or> key = None \<or> arg = No_variant")
  case True
  then show thesis using assms that(1) by (auto simp: cdd_c_abstract_set_def split: option.splits)
next
  case False
  then obtain k where k: "key = Some k" "astruct" by auto
  show thesis
  proof (cases "find_key k (fst s)")
    case (Some i)
    then show thesis using assms False k that(2) by (simp add: cdd_c_abstract_set_def)
  next
    case None
    obtain q u where q: "reserve_entry s = (q, u)" by (cases "reserve_entry s")
    have "\<exists>moved. q = Ret moved \<or> q = Err C_ORM_ERROR_VALIDATION"
      using reserve_run(3) [of "fst s" "snd s" q "fst u" "snd u"] q by auto
    then show thesis using assms None False k q that(3,4) by (auto simp: cdd_c_abstract_set_def pbind_def)
  qed
qed

lemma set_blocks:
  assumes "cdd_c_abstract_set astruct key arg s = (r, t)" and "r \<noteq> Stuck"
  shows "blocks_in (snd t) - struct_blocks (fst t) = blocks_in (snd s) - struct_blocks (fst s)"
  using assms(1)
proof (cases rule: set_cases)
  case (2 k i)
  then show ?thesis using set_existing_run(1) assms(2) by blast
next
  case (3 k)
  then show ?thesis using reserve_run(2) [of "fst s" "snd s" _ "fst t" "snd t"] by simp
next
  case (4 k u moved)
  then show ?thesis using reserve_run(2) [of "fst s" "snd s" _ "fst u" "snd u"] append_run(1) [of moved k _ arg "fst u" "snd u" r "fst t" "snd t"] assms(2)
    by simp
qed simp

lemma struct_ok_same: "struct_ok a \<Longrightarrow> kv_list a' = kv_list a \<Longrightarrow> kvs a' \<noteq> None \<or> a' = a \<Longrightarrow> struct_ok a'"
  by (auto simp: struct_ok_def)

lemma set_ok:
  assumes "cdd_c_abstract_set astruct key arg s = (r, t)" and "r \<noteq> Stuck" and "struct_ok (fst s)"
  shows "struct_ok (fst t)"
  using assms(1)
proof (cases rule: set_cases)
  case (2 k i)
  then show ?thesis using set_existing_run(2) assms(2,3) by blast
next
  case (3 k)
  then show ?thesis using reserve_run(3) [of "fst s" "snd s" _ "fst t" "snd t"] assms(3) by auto
next
  case (4 k u moved)
  have u: "kv_list (fst u) = kv_list (fst s)" "struct_ok (fst u)"
    using reserve_run(1,3) [of "fst s" "snd s" "Ret moved" "fst u" "snd u"] 4(3) assms(3) struct_ok_same by auto
  have new: "k \<notin> set (map kv_key (kv_list (fst u)))"
    using 4(2) u unfolding find_key_ok [OF u(2), symmetric] by (auto simp: find_key_def first_index_None struct_ok_def)
  have "append_entry moved k (hash_string k) arg (fst u, snd u) = (r, (fst t, snd t))" using 4(4) by simp
  from append_run(2) [OF this assms(2)]
  consider "fst t = fst u" | v where "kvs (fst t) \<noteq> None" "kv_list (fst t) = kv_list (fst u) @ [\<lparr>kv_key = k, key_hash = hash_string k, kv_value = v\<rparr>]"
    by blast
  then show ?thesis by cases (use u(2) new in \<open>auto simp: struct_ok_def\<close>)
qed (use assms in simp)

lemma set_given:
  assumes "cdd_c_abstract_set True (Some k) (Given v) s = (r, t)" and "struct_ok (fst s)"
  shows "r = Ret () \<and> struct_map (fst t) = (struct_map (fst s))(k \<mapsto> v) \<and>
      struct_keys (fst t) = (if k \<in> set (struct_keys (fst s)) then struct_keys (fst s) else struct_keys (fst s) @ [k]) \<or>
    r = Err C_ORM_ERROR_VALIDATION \<and> struct_keys (fst t) = struct_keys (fst s) \<and>
      (struct_map (fst t) = struct_map (fst s) \<or> k \<in> set (struct_keys (fst s)) \<and> struct_map (fst t) = (struct_map (fst s))(k \<mapsto> emptied v))"
  using assms(1)
proof (cases rule: set_cases)
  case (2 k' i)
  then have i: "find_key k (fst s) = Some i" "k \<in> set (struct_keys (fst s))"
    using find_key_index [of k "fst s" i] nth_mem by (fastforce simp: struct_keys_def)+
  have "r \<noteq> Stuck" using 2(3) by (auto simp: set_existing_def Let_def arg_value_def split: prod.splits if_splits)
  with set_existing_run(2,3) [OF i(1) 2(3)] assms(2) i(2) show ?thesis by auto
next
  case (3 k')
  then show ?thesis using reserve_run(1,3) [of "fst s" "snd s" _ "fst t" "snd t"] by (auto simp: struct_keys_def struct_map_def)
next
  case (4 k' u moved)
  have u: "kv_list (fst u) = kv_list (fst s)" "struct_ok (fst u)" "kvs (fst u) \<noteq> None"
    using reserve_run(1,3) [of "fst s" "snd s" "Ret moved" "fst u" "snd u"] 4(3) assms(2) struct_ok_same by (auto simp: struct_ok_def)
  have "find_key k (fst u) = None" using 4(1,2) u(1) by (simp add: find_key_def)
  then have none: "first_index (\<lambda>e. kv_key e = k) (kv_list (fst u)) = None" using find_key_ok [OF u(2)] by simp
  have run: "append_entry moved k (hash_string k) (Given v) (fst u, snd u) = (r, (fst t, snd t))" using 4(1,4) by simp
  from append_run(2) [OF run append_run(3) [OF run u(3) refl]]
  consider "r = Err C_ORM_ERROR_VALIDATION" "fst t = fst u"
    | "r = Ret ()" "kv_list (fst t) = kv_list (fst u) @ [\<lparr>kv_key = k, key_hash = hash_string k, kv_value = v\<rparr>]"
    by (auto simp: arg_value_def)
  then show ?thesis
  proof cases
    case 1
    then show ?thesis by (simp add: struct_keys_def struct_map_def u)
  next
    case 2
    have "k \<notin> set (struct_keys (fst s))" using none by (auto simp: struct_keys_def first_index_None u)
    then show ?thesis using 2 array_map_append [OF none, where val = kv_value] by (simp add: struct_keys_def struct_map_def u)
  qed
qed simp_all

end
