(* ===== verification/AbstractSpec.thy ===== *)
theory AbstractSpec
  imports AbstractProps
begin

text \<open>
  What the abstract structs promise, over whole sequences of calls: an array of keys and values is a map; a deep copy is
  equal to its source; every block that is allocated is given back. And what happens to a struct that is given one of its
  own values.
\<close>

section \<open>A keyed store\<close>

lemma set_given_done:
  assumes "struct_ok (fst s)" and "cdd_c_abstract_set True (Some k) (Given v) s = (Ret (), t)"
  shows "struct_ok (fst t) \<and> struct_map (fst t) = (struct_map (fst s))(k \<mapsto> v) \<and>
    struct_keys (fst t) = (if k \<in> set (struct_keys (fst s)) then struct_keys (fst s) else struct_keys (fst s) @ [k])"
  using set_given [OF assms(2,1)] set_ok [OF assms(2) _ assms(1)] by auto

interpretation astruct: keyed_store "\<lambda>k v. cdd_c_abstract_set True (Some k) (Given v)" "\<lambda>s. struct_keys (fst s)"
    "\<lambda>s. struct_map (fst s)" "\<lambda>s. struct_ok (fst s)"
  by unfold_locales (simp_all add: set_given_done)

lemma set_all_puts: "set_all (map (\<lambda>e. (Some (kv_key e), kv_value e)) es) = astruct.puts (map (\<lambda>e. (kv_key e, kv_value e)) es)"
  by (induction es) simp_all

lemma struct_eqI:
  assumes "struct_ok a" and "struct_ok b" and "struct_keys a = struct_keys b" and "struct_map a = struct_map b"
  shows "kv_list a = kv_list b"
proof (rule nth_equalityI)
  show len: "length (kv_list a) = length (kv_list b)" using assms(3) by (metis length_map struct_keys_def)
  fix i assume i: "i < length (kv_list a)"
  have k: "kv_key (kv_list a ! i) = kv_key (kv_list b ! i)" using assms(3) i len by (metis nth_map struct_keys_def)
  have val: "struct_map c (kv_key (kv_list c ! i)) = Some (kv_value (kv_list c ! i))" if "struct_ok c" "i < length (kv_list c)" for c
    using that by (force simp: struct_map_def array_map_def struct_ok_def distinct_map o_def intro!: map_of_is_SomeI)
  have "kv_value (kv_list a ! i) = kv_value (kv_list b ! i)"
    using val [OF assms(1) i] val [OF assms(2)] i len k assms(4) by simp
  moreover have "key_hash (kv_list a ! i) = key_hash (kv_list b ! i)" using assms(1,2) i len k by (simp add: struct_ok_def)
  ultimately show "kv_list a ! i = kv_list b ! i" using k by simp
qed

section \<open>Loops of insertions\<close>

lemma set_never_stuck:
  assumes "cdd_c_abstract_set astruct key (Given v) s = (r, t)" and "struct_ok (fst s)"
  shows "r \<noteq> Stuck"
  using assms set_given [of _ v s r t] by (cases key; cases astruct) (auto simp: cdd_c_abstract_set_def)

lemma set_fails: "cdd_c_abstract_set astruct key (Given v) s = (Err e, t) \<Longrightarrow> struct_ok (fst s) \<Longrightarrow> e = C_ORM_ERROR_VALIDATION"
  using set_given [of _ v s "Err e" t] by (cases key; cases astruct) (auto simp: cdd_c_abstract_set_def)

lemma set_all_run:
  assumes "set_all es s = (r, t)"
  shows "(r \<noteq> Stuck \<longrightarrow> blocks_in (snd t) - struct_blocks (fst t) = blocks_in (snd s) - struct_blocks (fst s)) \<and>
    (struct_ok (fst s) \<longrightarrow> r \<noteq> Stuck \<and> struct_ok (fst t))"
  using assms
proof (induction es arbitrary: s rule: set_all.induct)
  case (2 k v rest s)
  obtain q u where q: "cdd_c_abstract_set True k (Given v) s = (q, u)" by (cases "cdd_c_abstract_set True k (Given v) s")
  have run: "case q of Ret _ \<Rightarrow> set_all rest u = (r, t) | _ \<Rightarrow> t = u \<and> (r = Stuck \<longleftrightarrow> q = Stuck)"
    using "2.prems" by (auto simp: pbind_def q split: outcome.splits)
  then show ?case
    using "2.IH"[of u] set_blocks [OF q] set_ok [OF q] set_never_stuck [OF q] by (auto split: outcome.splits)
qed (auto simp: preturn_def)

lemma or_free_run:
  assumes "or_free f s = (r, t)" and "\<And>q u. f s = (q, u) \<Longrightarrow> q \<noteq> Stuck \<Longrightarrow>
    blocks_in (snd u) - struct_blocks (fst u) = blocks_in (snd s) - struct_blocks (fst s)" and "r \<noteq> Stuck"
  shows "blocks_in (snd t) - struct_blocks (fst t) = blocks_in (snd s) - struct_blocks (fst s)"
proof -
  obtain q u where q: "f s = (q, u)" by (cases "f s")
  show ?thesis
    using assms q struct_free_run [of "fst u" "snd u"]
    by (cases q) (auto simp: or_free_def pbind_def perr_def cdd_c_abstract_struct_free_def struct_blocks_def)
qed

section \<open>Deep copies\<close>

lemma init_zero: "cdd_c_abstract_struct_init True (d, m) = (Ret (), (\<lparr>kvs = None, kvs_capacity = 0\<rparr>, m))"
  by (simp add: cdd_c_abstract_struct_init_def cdd_c_abstract_struct_init_with_capacity_def)

lemma empty_struct [simp]:
  "struct_ok \<lparr>kvs = None, kvs_capacity = 0\<rparr>" "struct_keys \<lparr>kvs = None, kvs_capacity = n\<rparr> = []"
  "struct_map \<lparr>kvs = None, kvs_capacity = n\<rparr> = Map.empty" "struct_blocks \<lparr>kvs = None, kvs_capacity = n\<rparr> = 0"
  by (simp_all add: struct_ok_def struct_keys_def struct_map_def struct_blocks_def)

lemma deep_copy_run:
  assumes "cdd_c_abstract_struct_deep_copy True (Some src) (d0, m) = (r, (d, m'))"
  shows "or_free (set_all (map (\<lambda>e. (Some (kv_key e), kv_value e)) (kv_list src))) (\<lparr>kvs = None, kvs_capacity = 0\<rparr>, m) = (r, (d, m'))"
  using assms by (simp add: cdd_c_abstract_struct_deep_copy_def pbind_def init_zero)

text \<open>@C:deep_copy_equal
  \<open>cdd_c_abstract_struct_deep_copy\<close>, whatever the outcomes of the allocations: it returns, and either the copy has the
  entries of the source, in their order, with their hashes and values, and the blocks that are new are the blocks of the
  copy; or the status is C_ORM_ERROR_VALIDATION, the copy is empty, and no block is left behind.
\<close>

theorem deep_copy_equal:
  assumes "struct_ok src" and "cdd_c_abstract_struct_deep_copy True (Some src) (d0, m) = (r, (d, m'))"
  shows "r = Ret () \<and> kv_list d = kv_list src \<and> blocks_in m' = blocks_in m + struct_blocks d \<or>
    r = Err C_ORM_ERROR_VALIDATION \<and> d = \<lparr>kvs = None, kvs_capacity = 0\<rparr> \<and> blocks_in m' = blocks_in m"
proof -
  define es where "es = map (\<lambda>e. (kv_key e, kv_value e)) (kv_list src)"
  define empty where "empty = \<lparr>kvs = None, kvs_capacity = 0\<rparr>"
  obtain q u where q: "astruct.puts es (empty, m) = (q, u)" by (cases "astruct.puts es (empty, m)")
  have run: "or_free (astruct.puts es) (empty, m) = (r, (d, m'))"
    using deep_copy_run [OF assms(2)] by (simp add: set_all_puts es_def empty_def)
  have all: "(q \<noteq> Stuck \<longrightarrow> blocks_in (snd u) - struct_blocks (fst u) = blocks_in m) \<and> q \<noteq> Stuck \<and> struct_ok (fst u)"
    using set_all_run [OF q [unfolded es_def set_all_puts [symmetric]]] by (simp add: empty_def)
  show ?thesis
  proof (cases q)
    case (Ret x)
    have fst_es: "map fst es = struct_keys src" and map_es: "map_of es = struct_map src"
      by (simp_all add: es_def struct_keys_def struct_map_def array_map_def o_def)
    have "struct_keys (fst u) = struct_keys src \<and> struct_map (fst u) = struct_map src"
      using astruct.puts_copy [of "(empty, m)" es u] q Ret assms(1) unfolding fst_es map_es
      by (simp add: empty_def struct_ok_def struct_keys_def)
    then have "kv_list (fst u) = kv_list src" using all assms(1) by (intro struct_eqI) auto
    then show ?thesis using run q Ret all by (auto simp: or_free_def)
  next
    case (Err e)
    then show ?thesis using run q all struct_free_run [of "fst u" "snd u"] by (auto simp: or_free_def pbind_def perr_def empty_def cdd_c_abstract_struct_free_def)
  qed (use all in simp)
qed

section \<open>Against a map\<close>

datatype astruct_op = Put string cdd_c_variant_t | Look string | Clear

datatype astruct_result = Done | Failed | Found cdd_c_variant_t

fun astruct_run :: "astruct_op list \<Rightarrow> cdd_c_abstract_struct_t \<times> cdd_memory \<Rightarrow> astruct_result list option" where
  \<comment> \<open>the results of the calls, None when one of them has undefined behaviour\<close>
  "astruct_run [] s = Some []"
| "astruct_run (Put k v # ops) s =
     (case cdd_c_abstract_set True (Some k) (Given v) s of
        (Ret _, t) \<Rightarrow> map_option ((#) Done) (astruct_run ops t)
      | (Err _, t) \<Rightarrow> map_option ((#) Failed) (astruct_run ops t)
      | (Stuck, _) \<Rightarrow> None)"
| "astruct_run (Look k # ops) s =
     (case cdd_c_abstract_get True (Some k) True s of
        (Ret i, t) \<Rightarrow> map_option ((#) (Found (kv_value (kv_list (fst t) ! i)))) (astruct_run ops t)
      | (Err _, t) \<Rightarrow> map_option ((#) Failed) (astruct_run ops t)
      | (Stuck, _) \<Rightarrow> None)"
| "astruct_run (Clear # ops) s =
     (case cdd_c_abstract_struct_free True s of
        (Ret _, t) \<Rightarrow> map_option ((#) Done) (astruct_run ops t)
      | (Err _, t) \<Rightarrow> map_option ((#) Failed) (astruct_run ops t)
      | (Stuck, _) \<Rightarrow> None)"

fun map_run :: "astruct_op list \<Rightarrow> astruct_result list \<Rightarrow> (string \<Rightarrow> cdd_c_variant_t option) \<Rightarrow> bool" where
  \<comment> \<open>a map may answer so. A value that cannot be stored may leave an empty one at a key that was there\<close>
  "map_run [] rs \<phi> \<longleftrightarrow> rs = []"
| "map_run (Put k v # ops) rs \<phi> \<longleftrightarrow>
     (\<exists>rs'. rs = Done # rs' \<and> map_run ops rs' (\<phi>(k \<mapsto> v)) \<or>
       rs = Failed # rs' \<and> (map_run ops rs' \<phi> \<or> \<phi> k \<noteq> None \<and> map_run ops rs' (\<phi>(k \<mapsto> emptied v))))"
| "map_run (Look k # ops) rs \<phi> \<longleftrightarrow>
     (\<exists>rs'. rs = (case \<phi> k of None \<Rightarrow> Failed | Some v \<Rightarrow> Found v) # rs' \<and> map_run ops rs' \<phi>)"
| "map_run (Clear # ops) rs \<phi> \<longleftrightarrow> (\<exists>rs'. rs = Done # rs' \<and> map_run ops rs' Map.empty)"

lemma struct_map_keys: "k \<in> set (struct_keys a) \<longleftrightarrow> struct_map a k \<noteq> None"
  using array_map_dom [of kv_key kv_value "kv_list a"] by (auto simp: struct_map_def struct_keys_def)

lemma get_run:
  assumes "struct_ok a"
  shows "cdd_c_abstract_get True (Some k) True (a, m) =
    (case find_key k a of Some i \<Rightarrow> Ret i | None \<Rightarrow> Err C_ORM_ERROR_VALIDATION, (a, m))"
    and "struct_map a k = map_option (\<lambda>i. kv_value (kv_list a ! i)) (find_key k a)"
  by (simp_all add: cdd_c_abstract_get_def struct_map_def array_map_lookup find_key_ok [OF assms] split: option.splits)

text \<open>@C:astruct_refines
  Refinement: an abstract struct is a finite map. In any sequence of calls that put a value at a key, look a key up and
  clear the struct, with any of the allocations failing, no call has undefined behaviour and the results are those of a
  map. A put that fails leaves the map as it was, or, where the key had a value already, an empty value in its place.
\<close>

theorem astruct_refines:
  assumes "struct_ok (fst s)"
  shows "\<exists>rs. astruct_run ops s = Some rs \<and> map_run ops rs (struct_map (fst s))"
  using assms
proof (induction ops arbitrary: s rule: list.induct)
  case (Cons c ops)
  obtain a m where s: "s = (a, m)" by (cases s)
  show ?case
  proof (cases c)
    case (Put k v)
    obtain r t where t: "cdd_c_abstract_set True (Some k) (Given v) s = (r, t)" by (cases "cdd_c_abstract_set True (Some k) (Given v) s")
    obtain rs where rs: "astruct_run ops t = Some rs" "map_run ops rs (struct_map (fst t))"
      using Cons.IH [of t] set_ok [OF t set_never_stuck [OF t]] Cons.prems by auto
    show ?thesis using set_given [OF t Cons.prems] rs unfolding Put by (auto simp: t struct_map_keys)
  next
    case (Look k)
    then show ?thesis using Cons.IH [of s] Cons.prems get_run(1) [of a k m] get_run(2) [of a k] by (auto simp: s split: option.splits)
  next
    case Clear
    then show ?thesis using Cons.IH [of "snd (cdd_c_abstract_struct_free True s)"] struct_free_run(1) [of a m]
      by (auto simp: s cdd_c_abstract_struct_free_def)
  qed
qed simp

lemma astruct_refines_witness:
  "\<exists>rs. astruct_run [Put ''a'' (CDD_C_VARIANT_TYPE_INT 1), Put ''a'' (CDD_C_VARIANT_TYPE_STRING (Some ''x'')), Look ''a'', Clear, Look ''a'']
      (\<lparr>kvs = None, kvs_capacity = 0\<rparr>, \<lparr>mem_heap = \<lparr>script = [True, True, False], live = 0\<rparr>, memory_allocated = 0, memory_freed = 0\<rparr>) = Some rs \<and>
     map_run [Put ''a'' (CDD_C_VARIANT_TYPE_INT 1), Put ''a'' (CDD_C_VARIANT_TYPE_STRING (Some ''x'')), Look ''a'', Clear, Look ''a''] rs Map.empty"
  using astruct_refines [of "(\<lparr>kvs = None, kvs_capacity = 0\<rparr>, \<lparr>mem_heap = \<lparr>script = [True, True, False], live = 0\<rparr>, memory_allocated = 0, memory_freed = 0\<rparr>)"
    "[Put ''a'' (CDD_C_VARIANT_TYPE_INT 1), Put ''a'' (CDD_C_VARIANT_TYPE_STRING (Some ''x'')), Look ''a'', Clear, Look ''a'']"] by simp

lemma deep_copy_equal_witness:
  "\<exists>r d m'. cdd_c_abstract_struct_deep_copy True (Some \<lparr>kvs = Some [\<lparr>kv_key = ''a'', key_hash = 177670, kv_value = CDD_C_VARIANT_TYPE_STRING (Some ''x'')\<rparr>], kvs_capacity = 4\<rparr>)
       (\<lparr>kvs = None, kvs_capacity = 0\<rparr>, \<lparr>mem_heap = \<lparr>script = [], live = 3\<rparr>, memory_allocated = 0, memory_freed = 0\<rparr>) = (r, (d, m')) \<and>
     (r = Ret () \<and> kv_list d = [\<lparr>kv_key = ''a'', key_hash = 177670, kv_value = CDD_C_VARIANT_TYPE_STRING (Some ''x'')\<rparr>] \<and> blocks_in m' = 3 + struct_blocks d \<or>
      r = Err C_ORM_ERROR_VALIDATION \<and> d = \<lparr>kvs = None, kvs_capacity = 0\<rparr> \<and> blocks_in m' = 3)"
proof -
  define src where "src = \<lparr>kvs = Some [\<lparr>kv_key = ''a'', key_hash = 177670, kv_value = CDD_C_VARIANT_TYPE_STRING (Some ''x'')\<rparr>], kvs_capacity = 4\<rparr>"
  define m where "m = \<lparr>mem_heap = \<lparr>script = [], live = 3\<rparr>, memory_allocated = 0, memory_freed = 0\<rparr>"
  have "hash_string ''a'' = 177670" by (simp add: hash_string_def)
  then have ok: "struct_ok src" by (simp add: src_def struct_ok_def)
  obtain r d m' where run: "cdd_c_abstract_struct_deep_copy True (Some src) (\<lparr>kvs = None, kvs_capacity = 0\<rparr>, m) = (r, (d, m'))" by (metis prod_cases3)
  show ?thesis unfolding src_def [symmetric] m_def [symmetric] using deep_copy_equal [OF ok run] run by (intro exI [of _ r] exI [of _ d] exI [of _ m']) (simp add: m_def src_def)
qed

section \<open>Every block is given back\<close>

definition array_blocks :: "cdd_c_abstract_struct_array_t \<Rightarrow> int" where
  "array_blocks arr = (if items arr = None then 0 else 1) + (\<Sum>x\<leftarrow>item_list arr. struct_blocks x)"

record astruct_world =
  first_struct :: cdd_c_abstract_struct_t
  second_struct :: cdd_c_abstract_struct_t
  struct_array :: cdd_c_abstract_struct_array_t
  world_memory :: cdd_memory

datatype astruct_cmd =
    Set_value cptr cdd_c_variant_t | Set_own cptr nat | Reset nat | Copy | Swap | Push
  | Hydrate "raw_value option list option" "cdd_c_column_meta_t list option"

text \<open>
  What a client can do with two structs and an array of structs: set a value of the first, to a value of its own or
  another; free it and start again with a capacity; free the second and make it a deep copy of the first; swap the two;
  append the first to the array; free the first and fill it with a row of a driver.
\<close>

definition on_first :: "unit astruct_act \<Rightarrow> (astruct_world, unit) act" where
  "on_first f w = (case f (first_struct w, world_memory w) of (r, (a, m)) \<Rightarrow> (r, w\<lparr>first_struct := a, world_memory := m\<rparr>))"

definition on_second :: "unit astruct_act \<Rightarrow> (astruct_world, unit) act" where
  "on_second f w = (case f (second_struct w, world_memory w) of (r, (a, m)) \<Rightarrow> (r, w\<lparr>second_struct := a, world_memory := m\<rparr>))"

definition push_first :: "(astruct_world, unit) act" where
  "push_first w =
     (case cdd_c_abstract_struct_array_append True (Some (first_struct w)) (struct_array w, world_memory w) of
        (Ret a, (arr, m)) \<Rightarrow> (Ret (), w\<lparr>first_struct := a, struct_array := arr, world_memory := m\<rparr>)
      | (Err e, (arr, m)) \<Rightarrow> (Err e, w\<lparr>struct_array := arr, world_memory := m\<rparr>)
      | (Stuck, (arr, m)) \<Rightarrow> (Stuck, w))"

fun astruct_cmd_run :: "astruct_cmd \<Rightarrow> (astruct_world, unit) act" where
  "astruct_cmd_run (Set_value k v) = on_first (cdd_c_abstract_set True k (Given v))"
| "astruct_cmd_run (Set_own k i) = on_first (cdd_c_abstract_set True k (Own i))"
| "astruct_cmd_run (Reset n) = on_first (pbind (cdd_c_abstract_struct_free True) (\<lambda>_. cdd_c_abstract_struct_init_with_capacity True n))"
| "astruct_cmd_run Copy =
     (\<lambda>w. on_second (pbind (cdd_c_abstract_struct_free True) (\<lambda>_. cdd_c_abstract_struct_deep_copy True (Some (first_struct w)))) w)"
| "astruct_cmd_run Swap = (\<lambda>w. (Ret (), w\<lparr>first_struct := second_struct w, second_struct := first_struct w\<rparr>))"
| "astruct_cmd_run Push = push_first"
| "astruct_cmd_run (Hydrate raws cols) = on_first (pbind (cdd_c_abstract_struct_free True) (\<lambda>_. cdd_c_abstract_hydrate True raws cols))"

fun astruct_prog :: "astruct_cmd list \<Rightarrow> astruct_world \<Rightarrow> astruct_world option" where
  \<comment> \<open>the calls that fail are passed over; None when one has undefined behaviour\<close>
  "astruct_prog [] w = Some w"
| "astruct_prog (c # cs) w = (case astruct_cmd_run c w of (Stuck, _) \<Rightarrow> None | (_, w') \<Rightarrow> astruct_prog cs w')"

definition free_world :: "astruct_world \<Rightarrow> cdd_memory" where
  "free_world w =
     snd (snd (cdd_c_abstract_struct_array_free True (struct_array w,
       snd (snd (cdd_c_abstract_struct_free True (second_struct w,
         snd (snd (cdd_c_abstract_struct_free True (first_struct w, world_memory w)))))))))"

definition held :: "astruct_world \<Rightarrow> int" where
  \<comment> \<open>the blocks that are nobody's\<close>
  "held w = blocks_in (world_memory w) - struct_blocks (first_struct w) - struct_blocks (second_struct w) - array_blocks (struct_array w)"

definition conserves :: "unit astruct_act \<Rightarrow> bool" where
  "conserves f \<longleftrightarrow> (\<forall>s r t. f s = (r, t) \<longrightarrow> r \<noteq> Stuck \<longrightarrow>
     blocks_in (snd t) - struct_blocks (fst t) = blocks_in (snd s) - struct_blocks (fst s))"

lemma conserves_bind:
  assumes "conserves f" and "conserves g"
  shows "conserves (pbind f (\<lambda>_. g))"
  unfolding conserves_def
proof (intro allI impI)
  fix s r t assume run: "pbind f (\<lambda>_. g) s = (r, t)" "r \<noteq> Stuck"
  obtain q u where q: "f s = (q, u)" by (cases "f s")
  show "blocks_in (snd t) - struct_blocks (fst t) = blocks_in (snd s) - struct_blocks (fst s)"
    using run q assms [unfolded conserves_def, rule_format, of s q u] assms(2) [unfolded conserves_def, rule_format, of u r t]
    by (cases q) (auto simp: pbind_def)
qed

lemma conserves_set: "conserves (cdd_c_abstract_set astruct k arg)"
  by (auto simp: conserves_def dest: set_blocks)

lemma conserves_free: "conserves (cdd_c_abstract_struct_free True)"
  by (auto simp: conserves_def cdd_c_abstract_struct_free_def free_kvs_blocks struct_blocks_def)

lemma conserves_return: "conserves (perr e)" "conserves (preturn ())" "conserves stuck"
  by (auto simp: conserves_def perr_def preturn_def stuck_def)

lemma conserves_or_free: "conserves f \<Longrightarrow> conserves (or_free f)"
  using or_free_run by (fastforce simp: conserves_def)

text \<open>An initialisation does not free what it overwrites; it conserves the blocks of an empty struct.\<close>

definition conserves_empty :: "unit astruct_act \<Rightarrow> bool" where
  "conserves_empty f \<longleftrightarrow> (\<forall>s r t. f s = (r, t) \<longrightarrow> r \<noteq> Stuck \<longrightarrow> struct_blocks (fst s) = 0 \<longrightarrow>
     blocks_in (snd t) - struct_blocks (fst t) = blocks_in (snd s))"

lemma conserves_emptyI: "conserves f \<Longrightarrow> conserves_empty f"
  by (auto simp: conserves_def conserves_empty_def)

lemma conserves_after_free: "conserves_empty f \<Longrightarrow> conserves (pbind (cdd_c_abstract_struct_free True) (\<lambda>_. f))"
  by (force simp: conserves_def conserves_empty_def pbind_def cdd_c_abstract_struct_free_def free_kvs_blocks struct_blocks_def)

lemma conserves_empty_bind:
  assumes "conserves_empty f" and "conserves g"
  shows "conserves_empty (pbind f (\<lambda>_. g))"
  unfolding conserves_empty_def
proof (intro allI impI)
  fix s r t assume run: "pbind f (\<lambda>_. g) s = (r, t)" "r \<noteq> Stuck" "struct_blocks (fst s) = 0"
  obtain q u where q: "f s = (q, u)" by (cases "f s")
  show "blocks_in (snd t) - struct_blocks (fst t) = blocks_in (snd s)"
    using run q assms(1) [unfolded conserves_empty_def, rule_format, of s q u] assms(2) [unfolded conserves_def, rule_format, of u r t]
    by (cases q) (auto simp: pbind_def)
qed

lemma conserves_empty_invalid: "conserves_empty f \<Longrightarrow> conserves_empty (invalid f)"
  by (force simp: conserves_empty_def invalid_def split: prod.splits outcome.splits)

lemma conserves_empty_init: "conserves_empty (cdd_c_abstract_struct_init_with_capacity astruct n)"
  by (auto simp: conserves_empty_def cdd_c_abstract_struct_init_with_capacity_def pbind_def invalid_def in_memory_def struct_blocks_def Let_def
      dest: malloc_blocks split: if_splits prod.splits outcome.splits)

lemma conserves_hydrate_cols: "conserves (hydrate_cols cs raws)"
  by (induction cs arbitrary: raws) (auto intro!: conserves_return conserves_bind conserves_set split: list.splits outcome.splits)

lemma conserves_empty_hydrate: "conserves_empty (cdd_c_abstract_hydrate out raws cols)"
  by (auto simp: cdd_c_abstract_hydrate_def intro!: conserves_emptyI [OF conserves_return(1)] conserves_empty_bind conserves_empty_invalid
      conserves_empty_init conserves_or_free conserves_hydrate_cols split: option.splits)

lemma conserves_empty_copy: "conserves_empty (cdd_c_abstract_struct_deep_copy dest src)"
proof -
  have "conserves (set_all es)" for es using set_all_run by (auto simp: conserves_def)
  then show ?thesis
    by (auto simp: cdd_c_abstract_struct_deep_copy_def cdd_c_abstract_struct_init_def intro!: conserves_emptyI [OF conserves_return(1)]
        conserves_empty_bind conserves_empty_init conserves_or_free split: option.splits)
qed

lemma grow_items_run:
  assumes "grow_items (arr, m) = (r, (arr', m'))"
  shows "blocks_in m' - array_blocks arr' = blocks_in m - array_blocks arr"
proof -
  define n where "n = (if items_capacity arr = 0 then 4 else items_capacity arr * 2)"
  define p where "p \<longleftrightarrow> items arr \<noteq> None"
  obtain q m1 where q: "cdd_c_realloc p (n * 24) m = (q, m1)" by (metis surj_pair)
  note defs = grow_items_def fst_conv snd_conv Let_def n_def [symmetric] p_def [symmetric]
  have "arr' = arr \<and> m' = m \<or> q \<noteq> Ret () \<and> arr' = arr \<and> m' = m1 \<or> q = Ret () \<and> arr' = arr\<lparr>items := Some (item_list arr), items_capacity := n\<rparr> \<and> m' = m1"
    using assms [unfolded defs] by (auto simp: pbind_def invalid_def in_memory_def q split: outcome.splits if_splits)
  then show ?thesis using realloc_blocks [OF q] by (auto simp: array_blocks_def item_list_def p_def)
qed

lemma append_struct_run:
  assumes "cdd_c_abstract_struct_array_append True (Some x) (arr, m) = (r, (arr', m'))" and "r \<noteq> Stuck"
  shows "blocks_in m' - array_blocks arr' = blocks_in m - array_blocks arr - (case r of Ret _ \<Rightarrow> struct_blocks x | _ \<Rightarrow> 0)"
    and "r = Ret a \<Longrightarrow> a = \<lparr>kvs = None, kvs_capacity = 0\<rparr>"
proof -
  obtain q arr1 m1 where q: "grow_items (arr, m) = (q, (arr1, m1))" by (metis prod_cases3)
  note run = assms [unfolded cdd_c_abstract_struct_array_append_def, simplified, unfolded pbind_def q] grow_items_run [OF q]
  show "blocks_in m' - array_blocks arr' = blocks_in m - array_blocks arr - (case r of Ret _ \<Rightarrow> struct_blocks x | _ \<Rightarrow> 0)"
    using run by (auto simp: array_blocks_def item_list_def split: outcome.splits option.splits)
  show "r = Ret a \<Longrightarrow> a = \<lparr>kvs = None, kvs_capacity = 0\<rparr>"
    using run by (auto split: outcome.splits option.splits)
qed

lemma held_on:
  "conserves f \<Longrightarrow> on_first f w = (r, w') \<Longrightarrow> r \<noteq> Stuck \<Longrightarrow> held w' = held w"
  "conserves f \<Longrightarrow> on_second f w = (r, w') \<Longrightarrow> r \<noteq> Stuck \<Longrightarrow> held w' = held w"
  by (force simp: conserves_def on_first_def on_second_def held_def split: prod.splits)+

lemma held_cmd:
  assumes "astruct_cmd_run c w = (r, w')" and "r \<noteq> Stuck"
  shows "held w' = held w"
proof (cases c)
  case Push
  obtain q arr m where q: "cdd_c_abstract_struct_array_append True (Some (first_struct w)) (struct_array w, world_memory w) = (q, (arr, m))"
    by (metis prod_cases3)
  have "q \<noteq> Stuck" using assms q by (auto simp: Push push_first_def)
  with append_struct_run [OF q] show ?thesis using assms q by (cases q) (auto simp: Push push_first_def held_def)
next
  case Swap
  then show ?thesis using assms by (auto simp: held_def)
next
  case Copy
  then show ?thesis using held_on(2) [OF conserves_after_free [OF conserves_empty_copy]] assms by simp
next
  case (Reset n)
  then show ?thesis using held_on(1) [OF conserves_after_free [OF conserves_empty_init]] assms by simp
next
  case (Hydrate raws cols)
  then show ?thesis using held_on(1) [OF conserves_after_free [OF conserves_empty_hydrate]] assms by simp
qed (use assms held_on(1) [OF conserves_set] in simp_all)

lemma held_prog: "astruct_prog cs w = Some w' \<Longrightarrow> held w' = held w"
  by (induction cs w rule: astruct_prog.induct) (auto dest: held_cmd split: prod.splits outcome.splits)

lemma free_structs_blocks: "blocks_in (free_structs xs m) = blocks_in m - (\<Sum>x\<leftarrow>xs. struct_blocks x)"
  by (induction xs arbitrary: m) (auto simp: struct_free_run(2))

lemma free_world_blocks: "blocks_in (free_world w) = held w"
  by (simp add: free_world_def held_def cdd_c_abstract_struct_array_free_def free_structs_blocks struct_free_run(2) array_blocks_def)

text \<open>@C:astruct_leak_free
  Safety: whatever a client does with two abstract structs and an array of them (setting values, deep copies, moving
  structs into the array, reading rows), with any of the allocations failing, once the structs and the array are freed
  every block has been given back, and none twice, as long as no call had undefined behaviour.
\<close>

theorem astruct_leak_free:
  assumes "astruct_prog cs \<lparr>first_struct = \<lparr>kvs = None, kvs_capacity = 0\<rparr>, second_struct = \<lparr>kvs = None, kvs_capacity = 0\<rparr>,
      struct_array = \<lparr>items = None, items_capacity = 0\<rparr>, world_memory = m\<rparr> = Some w"
  shows "blocks_in (free_world w) = blocks_in m"
  unfolding free_world_blocks held_prog [OF assms] by (simp add: held_def array_blocks_def item_list_def)

section \<open>A value of its own\<close>

lemma own_existing:
  assumes "find_key k a = Some i"
  shows "set_existing i (Own i) (a, m) = (Ret (), (put_value i CDD_C_VARIANT_TYPE_NULL a, cdd_c_variant_free (kv_value (kv_list a ! i)) m))"
  using find_key_index [OF assms] by (simp add: set_existing_def arg_value_def copy_variant_def Let_def put_value_twice)

text \<open>@C:own_value_stale
  \<open>cdd_c_abstract_set\<close> with a value of the struct itself, as \<open>cdd_c_abstract_get\<close> has returned it. At the key it has
  already, the value is lost: the status is C_ORM_OK and the value at the key NULL. At a new key of a struct that is full,
  unless memory runs out, the value is read after the array that held it has been reallocated.
\<close>

theorem own_value_stale:
  assumes "find_key k a = Some i" and "struct_ok a"
  shows "(\<exists>a' m'. cdd_c_abstract_set True (Some k) (Own i) (a, m) = (Ret (), (a', m')) \<and>
      struct_map a' = (struct_map a)(k \<mapsto> CDD_C_VARIANT_TYPE_NULL)) \<and>
    (find_key k' a = None \<longrightarrow> length (kv_list a) = kvs_capacity a \<longrightarrow> no_oom (mem_heap m) \<longrightarrow> length k' < 2147483647 \<longrightarrow>
      fst (cdd_c_abstract_set True (Some k') (Own i) (a, m)) = Stuck)"
proof -
  have "kvs a \<noteq> None" using find_key_index [OF assms(1)] by (cases "kvs a") (auto simp: kv_list_def)
  then have "fst (cdd_c_abstract_set True (Some k') (Own i) (a, m)) = Stuck"
    if "find_key k' a = None" "length (kv_list a) = kvs_capacity a" "no_oom (mem_heap m)" "length k' < 2147483647"
    using that find_key_index [OF assms(1)]
    by (simp add: cdd_c_abstract_set_def pbind_def reserve_entry_def invalid_def in_memory_def cdd_c_realloc_def append_entry_def
        duplicate_string_def cdd_c_malloc_def arg_value_def Let_def)
  then show ?thesis
    using own_existing [OF assms(1)] put_value_map [OF assms(2,1)] assms(1) by (simp add: cdd_c_abstract_set_def)
qed

lemma own_value_stale_witness:
  "\<exists>es a' m'. es = [\<lparr>kv_key = ''a'', key_hash = hash_string ''a'', kv_value = CDD_C_VARIANT_TYPE_INT 7\<rparr>] \<and>
     cdd_c_abstract_set True (Some ''a'') (Own 0) (\<lparr>kvs = Some es, kvs_capacity = 1\<rparr>, \<lparr>mem_heap = \<lparr>script = [], live = 2\<rparr>, memory_allocated = 0, memory_freed = 0\<rparr>)
       = (Ret (), (a', m')) \<and> struct_map a' = [''a'' \<mapsto> CDD_C_VARIANT_TYPE_NULL] \<and>
     fst (cdd_c_abstract_set True (Some ''b'') (Own 0) (\<lparr>kvs = Some es, kvs_capacity = 1\<rparr>, \<lparr>mem_heap = \<lparr>script = [], live = 2\<rparr>, memory_allocated = 0, memory_freed = 0\<rparr>)) = Stuck"
proof -
  define es where "es = [\<lparr>kv_key = ''a'', key_hash = hash_string ''a'', kv_value = CDD_C_VARIANT_TYPE_INT 7\<rparr>]"
  define m where "m = \<lparr>mem_heap = \<lparr>script = [], live = 2\<rparr>, memory_allocated = 0, memory_freed = 0\<rparr>"
  have a: "find_key ''a'' \<lparr>kvs = Some es, kvs_capacity = 1\<rparr> = Some 0" "struct_ok \<lparr>kvs = Some es, kvs_capacity = 1\<rparr>"
    "find_key ''b'' \<lparr>kvs = Some es, kvs_capacity = 1\<rparr> = None" "struct_map \<lparr>kvs = Some es, kvs_capacity = 1\<rparr> = [''a'' \<mapsto> CDD_C_VARIANT_TYPE_INT 7]"
    by (simp_all add: find_key_def struct_ok_def struct_map_def es_def)
  have "no_oom (mem_heap m)" "length (kv_list \<lparr>kvs = Some es, kvs_capacity = 1\<rparr>) = 1" by (simp_all add: m_def no_oom_def es_def)
  then show ?thesis using own_value_stale [OF a(1,2), of m "''b''"] a(3,4)
    by (intro exI [of _ es]) (auto simp: es_def [symmetric] m_def [symmetric])
qed

lemma astruct_leak_free_witness:
  "\<exists>w. astruct_prog [Set_value (Some ''a'') (CDD_C_VARIANT_TYPE_STRING (Some ''x'')), Copy, Push, Swap]
      \<lparr>first_struct = \<lparr>kvs = None, kvs_capacity = 0\<rparr>, second_struct = \<lparr>kvs = None, kvs_capacity = 0\<rparr>,
       struct_array = \<lparr>items = None, items_capacity = 0\<rparr>, world_memory = \<lparr>mem_heap = \<lparr>script = [], live = 2\<rparr>, memory_allocated = 0, memory_freed = 0\<rparr>\<rparr> = Some w
    \<and> blocks_in (world_memory w) = 9 \<and> blocks_in (free_world w) = 2"
proof -
  define m where "m = \<lparr>mem_heap = \<lparr>script = [], live = 2\<rparr>, memory_allocated = 0, memory_freed = 0\<rparr>"
  define cs where "cs = [Set_value (Some ''a'') (CDD_C_VARIANT_TYPE_STRING (Some ''x'')), Copy, Push, Swap]"
  define w0 where "w0 = \<lparr>first_struct = \<lparr>kvs = None, kvs_capacity = 0\<rparr>, second_struct = \<lparr>kvs = None, kvs_capacity = 0\<rparr>,
       struct_array = \<lparr>items = None, items_capacity = 0\<rparr>, world_memory = m\<rparr>"
  have "map_option (\<lambda>w. blocks_in (world_memory w)) (astruct_prog cs w0) = Some 9"
    
    by (simp add: cs_def w0_def m_def on_first_def on_second_def push_first_def cdd_c_abstract_set_def find_key_def kv_list_def reserve_entry_def
        append_entry_def pbind_def invalid_def in_memory_def cdd_c_realloc_def cdd_c_malloc_def C_ORM_MALLOC_def duplicate_string_def arg_value_def
        copy_variant_def cdd_c_abstract_struct_free_def cdd_c_free_def cdd_c_abstract_struct_deep_copy_def cdd_c_abstract_struct_init_def
        cdd_c_abstract_struct_init_with_capacity_def or_free_def preturn_def cdd_c_abstract_struct_array_append_def grow_items_def item_list_def)
  then obtain w where w: "astruct_prog cs w0 = Some w" "blocks_in (world_memory w) = 9" by blast
  show ?thesis unfolding cs_def [symmetric] m_def [symmetric] w0_def [symmetric]
    using w astruct_leak_free [OF w(1) [unfolded w0_def]] by (intro exI [of _ w]) (simp add: m_def)
qed

end
