(* ===== verification/Router.thy ===== *)
theory Router
  imports AbstractSpec
begin

text \<open>
  The hydration router of \<open>src/hydrate_router.c\<close>: an array of routes from the hash of a query to the function that
  fills the struct of its rows, and the text of the last error of the thread. A registered function is a parameter: it
  reads a row, writes the struct of its caller, and may itself use the router, so it sees the text of the last error too.
  The state of registration is the router and the allocator; a route has 24 bytes, and the byte size of the array does
  not overflow. The failures injected under C_ORM_TEST_ALLOCATOR are not here.
\<close>

section \<open>The last error\<close>

definition cdd_c_hydrate_router_set_last_error :: "cptr \<Rightarrow> string \<Rightarrow> c_orm_error_t \<times> string" where
  \<comment> \<open>the text in the buffer of 512 bytes\<close>
  "cdd_c_hydrate_router_set_last_error msg buf =
     (case msg of None \<Rightarrow> (C_ORM_OK, '''') | Some m \<Rightarrow> (C_ORM_OK, take 511 m))"

definition cdd_c_hydrate_router_get_last_error :: "bool \<Rightarrow> string \<Rightarrow> c_orm_error_t \<times> cptr option" where
  \<comment> \<open>the status, and the pointer that is stored, if one is\<close>
  "cdd_c_hydrate_router_get_last_error out_msg buf =
     (if \<not> out_msg then (C_ORM_ERROR_UNKNOWN, None)
      else (C_ORM_OK, Some (if buf = '''' then None else Some buf)))"

section \<open>Routes\<close>

type_synonym 'o hydrator = "cdd_c_abstract_struct_t \<Rightarrow> string \<times> 'o \<Rightarrow> c_orm_error_t \<times> string \<times> 'o"

record ('m, 'o) cdd_c_hydrate_route_t =
  query_id_hash :: "64 word"
  struct_meta :: "'m option"
  hydrate_fn :: "'o hydrator"

record ('m, 'o) cdd_c_hydrate_router_t =
  routes :: "('m, 'o) cdd_c_hydrate_route_t list option"
  routes_capacity :: nat

text \<open>\<open>routes\<close>: the pointer to the array, NULL or with the routes in use; their number is \<open>count\<close>.\<close>

definition route_list :: "('m, 'o) cdd_c_hydrate_router_t \<Rightarrow> ('m, 'o) cdd_c_hydrate_route_t list" where
  "route_list rt = (case routes rt of None \<Rightarrow> [] | Some rs \<Rightarrow> rs)"

type_synonym ('m, 'o, 'a) router_act = "(('m, 'o) cdd_c_hydrate_router_t \<times> heap, 'a) act"

definition cdd_c_hydrate_router_init :: "bool \<Rightarrow> ('m, 'o, unit) router_act" where
  "cdd_c_hydrate_router_init router s =
     (if \<not> router then (Err C_ORM_ERROR_UNKNOWN, s) else (Ret (), (\<lparr>routes = None, routes_capacity = 0\<rparr>, snd s)))"

definition find_route :: "64 word \<Rightarrow> ('m, 'o) cdd_c_hydrate_router_t \<Rightarrow> nat option" where
  "find_route h rt = first_index (\<lambda>r. query_id_hash r = h) (route_list rt)"

definition reserve_route :: "('m, 'o, unit) router_act" where
  "reserve_route s =
     (case s of (rt, m) \<Rightarrow>
        if routes_capacity rt \<le> length (route_list rt) then
          let new_cap = (if routes_capacity rt = 0 then 8 else routes_capacity rt * 2) in
          case (if routes rt = None then C_ORM_MALLOC m else C_ORM_REALLOC m) of (ok, m1) \<Rightarrow>
            if ok then (Ret (), (rt\<lparr>routes := Some (route_list rt), routes_capacity := new_cap\<rparr>, m1))
            else (Err C_ORM_ERROR_UNKNOWN, (rt, m1))
        else (Ret (), s))"

definition append_route :: "('m, 'o) cdd_c_hydrate_route_t \<Rightarrow> ('m, 'o, unit) router_act" where
  \<comment> \<open>writes through the pointer to the array\<close>
  "append_route r s =
     (case routes (fst s) of
        None \<Rightarrow> (Stuck, s)
      | Some rs \<Rightarrow> (Ret (), ((fst s)\<lparr>routes := Some (rs @ [r])\<rparr>, snd s)))"

definition cdd_c_hydrate_router_register :: "bool \<Rightarrow> 64 word \<Rightarrow> 'm option \<Rightarrow> 'o hydrator option \<Rightarrow> ('m, 'o, unit) router_act" where
  "cdd_c_hydrate_router_register router h mt fn s =
     (case fn of
        None \<Rightarrow> (Err C_ORM_ERROR_UNKNOWN, s)
      | Some f \<Rightarrow>
          if \<not> router then (Err C_ORM_ERROR_UNKNOWN, s)
          else (case find_route h (fst s) of
              Some i \<Rightarrow> (Ret (), ((fst s)\<lparr>routes := Some ((route_list (fst s))[i := (route_list (fst s) ! i)\<lparr>struct_meta := mt, hydrate_fn := f\<rparr>])\<rparr>, snd s))
            | None \<Rightarrow> pbind reserve_route (\<lambda>_. append_route \<lparr>query_id_hash = h, struct_meta = mt, hydrate_fn = f\<rparr>) s))"

definition cdd_c_hydrate_router_dispatch ::
    "('m, 'o) cdd_c_hydrate_router_t option \<Rightarrow> 64 word \<Rightarrow> cdd_c_abstract_struct_t option \<Rightarrow> bool \<Rightarrow> string \<times> 'o \<Rightarrow> c_orm_error_t \<times> string \<times> 'o" where
  \<comment> \<open>on the text of the last error and the struct that is written\<close>
  "cdd_c_hydrate_router_dispatch router h row out_struct s =
     (case (router, row) of
        (Some rt, Some a) \<Rightarrow>
          if \<not> out_struct then (C_ORM_ERROR_UNKNOWN, (snd (cdd_c_hydrate_router_set_last_error (Some ''Invalid arguments to router_dispatch'') (fst s)), snd s))
          else let s1 = (snd (cdd_c_hydrate_router_set_last_error None (fst s)), snd s) in
            (case find_route h rt of
               Some i \<Rightarrow>
                 (case hydrate_fn (route_list rt ! i) a s1 of (rc, (msg, out)) \<Rightarrow>
                    if rc \<noteq> C_ORM_OK then (rc, (snd (cdd_c_hydrate_router_set_last_error (Some ''Hydration function returned error'') msg), out))
                    else (rc, (msg, out)))
             | None \<Rightarrow> (C_ORM_ERROR_UNKNOWN, (snd (cdd_c_hydrate_router_set_last_error (Some ''Route not found for query ID'') (fst s1)), snd s1)))
      | _ \<Rightarrow> (C_ORM_ERROR_UNKNOWN, (snd (cdd_c_hydrate_router_set_last_error (Some ''Invalid arguments to router_dispatch'') (fst s)), snd s)))"

definition cdd_c_hydrate_router_free :: "bool \<Rightarrow> ('m, 'o, unit) router_act" where
  "cdd_c_hydrate_router_free router s =
     (if \<not> router then (Err C_ORM_ERROR_UNKNOWN, s)
      else (Ret (), (\<lparr>routes = None, routes_capacity = 0\<rparr>, (if routes (fst s) \<noteq> None then C_ORM_FREE (snd s) else snd s))))"

section \<open>As a keyed store\<close>

definition router_ok :: "('m, 'o) cdd_c_hydrate_router_t \<Rightarrow> bool" where
  "router_ok rt \<longleftrightarrow> (routes rt = None \<longrightarrow> routes_capacity rt = 0)"

definition router_keys :: "('m, 'o) cdd_c_hydrate_router_t \<Rightarrow> 64 word list" where
  "router_keys rt = map query_id_hash (route_list rt)"

definition router_map :: "('m, 'o) cdd_c_hydrate_router_t \<Rightarrow> 64 word \<Rightarrow> ('m option \<times> 'o hydrator) option" where
  "router_map rt = array_map query_id_hash (\<lambda>r. (struct_meta r, hydrate_fn r)) (route_list rt)"

definition router_blocks :: "('m, 'o) cdd_c_hydrate_router_t \<Rightarrow> int" where
  "router_blocks rt = (if routes rt = None then 0 else 1)"

lemma register_run:
  assumes "router_ok rt" and "cdd_c_hydrate_router_register True h mt (Some f) (rt, m) = (r, (rt', m'))"
  shows "router_ok rt' \<and> live m' - router_blocks rt' = live m - router_blocks rt \<and>
    (r = Ret () \<and> router_map rt' = (router_map rt)(h \<mapsto> (mt, f)) \<and>
       router_keys rt' = (if h \<in> set (router_keys rt) then router_keys rt else router_keys rt @ [h]) \<or>
     r = Err C_ORM_ERROR_UNKNOWN \<and> rt' = rt \<and> h \<notin> set (router_keys rt) \<and> \<not> no_oom m)"
proof (cases "find_route h rt")
  case (Some i)
  then have i: "first_index (\<lambda>r. query_id_hash r = h) (route_list rt) = Some i" by (simp add: find_route_def)
  note at = first_index_Some [OF i]
  have "routes rt \<noteq> None" using at by (cases "routes rt") (auto simp: route_list_def)
  moreover have "h \<in> set (router_keys rt)" using at by (auto simp: router_keys_def intro!: image_eqI [of _ _ "route_list rt ! i"])
  ultimately show ?thesis
    using assms Some at array_map_update [OF i, of "(route_list rt ! i)\<lparr>struct_meta := mt, hydrate_fn := f\<rparr>" "\<lambda>r. (struct_meta r, hydrate_fn r)"]
      keys_update [OF i, of "(route_list rt ! i)\<lparr>struct_meta := mt, hydrate_fn := f\<rparr>"]
    by (auto simp: cdd_c_hydrate_router_register_def router_ok_def router_blocks_def router_map_def router_keys_def route_list_def)
next
  case None
  then have i: "first_index (\<lambda>r. query_id_hash r = h) (route_list rt) = None" by (simp add: find_route_def)
  have new: "h \<notin> set (router_keys rt)" using i by (auto simp: router_keys_def first_index_None)
  define rt1 where "rt1 = rt\<lparr>routes := Some (route_list rt), routes_capacity := (if routes_capacity rt = 0 then 8 else routes_capacity rt * 2)\<rparr>"
  obtain q u m1 where q: "reserve_route (rt, m) = (q, (u, m1))" by (metis prod_cases3)
  have u: "q = Ret () \<and> route_list u = route_list rt \<and> routes u \<noteq> None \<and> live m1 - router_blocks u = live m - router_blocks rt \<or>
      q = Err C_ORM_ERROR_UNKNOWN \<and> u = rt \<and> live m1 = live m \<and> \<not> no_oom m"
  proof -
    obtain okm mm okr mr where m: "C_ORM_MALLOC m = (okm, mm)" "C_ORM_REALLOC m = (okr, mr)" by fastforce
    note live = malloc_live [OF m(1)] realloc_live [OF m(2)]
    have ok: "okm" "okr" if "no_oom m" using malloc_no_oom [OF that] realloc_no_oom [OF that] m by simp_all
    have "q = Ret () \<and> u = rt1 \<and> m1 = (if routes rt = None then mm else mr) \<and> (if routes rt = None then okm else okr) \<and> routes_capacity rt \<le> length (route_list rt) \<or>
        q = Ret () \<and> u = rt \<and> m1 = m \<and> length (route_list rt) < routes_capacity rt \<or>
        q = Err C_ORM_ERROR_UNKNOWN \<and> u = rt \<and> m1 = (if routes rt = None then mm else mr) \<and> \<not> (if routes rt = None then okm else okr)"
      using q unfolding reserve_route_def by (auto simp: m Let_def rt1_def split: if_splits)
    then show ?thesis using live ok assms(1)
      by (elim disjE) (auto simp: router_ok_def router_blocks_def rt1_def route_list_def split: if_splits)
  qed
  note run = assms(2) [unfolded cdd_c_hydrate_router_register_def, simplified, unfolded None, simplified, unfolded pbind_def q]
  from u show ?thesis
  proof (elim disjE)
    assume u: "q = Ret () \<and> route_list u = route_list rt \<and> routes u \<noteq> None \<and> live m1 - router_blocks u = live m - router_blocks rt"
    then have "r = Ret () \<and> route_list rt' = route_list rt @ [\<lparr>query_id_hash = h, struct_meta = mt, hydrate_fn = f\<rparr>] \<and> routes rt' \<noteq> None \<and> m' = m1"
      using run by (cases "routes u") (auto simp: append_route_def route_list_def)
    then show ?thesis
      using u new array_map_append [OF i, of "\<lparr>query_id_hash = h, struct_meta = mt, hydrate_fn = f\<rparr>" "\<lambda>r. (struct_meta r, hydrate_fn r)"]
      by (auto simp: router_ok_def router_blocks_def router_map_def router_keys_def split: if_splits)
  qed (use run assms(1) new in simp)
qed

lemma register_oom:
  "cdd_c_hydrate_router_register True h mt (Some f) (rt, m) = (r, (rt', m')) \<Longrightarrow> no_oom m \<Longrightarrow> no_oom m'"
  by (auto simp: cdd_c_hydrate_router_register_def pbind_def reserve_route_def append_route_def Let_def split: option.splits if_splits prod.splits)

lemma register_done:
  assumes "router_ok (fst s)" and "cdd_c_hydrate_router_register True h (fst v) (Some (snd v)) s = (Ret (), t)"
  shows "router_ok (fst t) \<and> router_map (fst t) = (router_map (fst s))(h \<mapsto> v) \<and>
    router_keys (fst t) = (if h \<in> set (router_keys (fst s)) then router_keys (fst s) else router_keys (fst s) @ [h])"
  using register_run [OF assms(1), of h "fst v" "snd v" "snd s" "Ret ()" "fst t" "snd t"] assms(2) by auto

lemma register_failed:
  assumes "router_ok (fst s)" and "cdd_c_hydrate_router_register True h (fst v) (Some (snd v)) s = (r, t)" and "r \<noteq> Ret ()"
  shows "router_ok (fst t) \<and> router_map (fst t) = router_map (fst s) \<and> router_keys (fst t) = router_keys (fst s)"
  using register_run [OF assms(1), of h "fst v" "snd v" "snd s" r "fst t" "snd t"] assms(2,3) by auto

interpretation router: steady_store "\<lambda>h v. cdd_c_hydrate_router_register True h (fst v) (Some (snd v))" "\<lambda>s. router_keys (fst s)"
    "\<lambda>s. router_map (fst s)" "\<lambda>s. router_ok (fst s)"
  by unfold_locales (use register_done register_failed in blast)+

lemma dispatch_map:
  "cdd_c_hydrate_router_dispatch (Some rt) h (Some row) True (msg, out) =
     (case router_map rt h of
        None \<Rightarrow> (C_ORM_ERROR_UNKNOWN, (''Route not found for query ID'', out))
      | Some (mt, f) \<Rightarrow> (case f row ('''', out) of (rc, (msg', out')) \<Rightarrow>
          (rc, (if rc = C_ORM_OK then msg' else ''Hydration function returned error'', out'))))"
  by (auto simp: cdd_c_hydrate_router_dispatch_def router_map_def array_map_lookup find_route_def cdd_c_hydrate_router_set_last_error_def
      split: option.splits prod.splits)

section \<open>The contract\<close>

fun register_all ::
    "(64 word \<times> 'm option \<times> 'o hydrator) list \<Rightarrow> ('m, 'o) cdd_c_hydrate_router_t \<times> heap \<Rightarrow>
     (64 word \<times> 'm option \<times> 'o hydrator) list \<times> ('m, 'o) cdd_c_hydrate_router_t \<times> heap" where
  \<comment> \<open>a client that registers routes, and the registrations that succeeded\<close>
  "register_all [] s = ([], s)"
| "register_all ((h, v) # rs) s =
     (case cdd_c_hydrate_router_register True h (fst v) (Some (snd v)) s of
        (Ret _, t) \<Rightarrow> (case register_all rs t of (acc, u) \<Rightarrow> ((h, v) # acc, u))
      | (_, t) \<Rightarrow> register_all rs t)"

lemma register_all_tries: "register_all rs s = router.tries rs s"
  by (induction rs arbitrary: s) (auto split: prod.splits outcome.splits)

lemma register_all_memory:
  assumes "router.tries rs s = (acc, t)" and "router_ok (fst s)"
  shows "live (snd t) - router_blocks (fst t) = live (snd s) - router_blocks (fst s) \<and> (no_oom (snd s) \<longrightarrow> acc = rs)"
  using assms
proof (induction rs arbitrary: s acc rule: list.induct)
  case (Cons e rs)
  obtain h v where e: "e = (h, v)" by (cases e)
  obtain r u where r: "cdd_c_hydrate_router_register True h (fst v) (Some (snd v)) s = (r, u)"
    by (cases "cdd_c_hydrate_router_register True h (fst v) (Some (snd v)) s")
  have step: "cdd_c_hydrate_router_register True h (fst v) (Some (snd v)) (fst s, snd s) = (r, (fst u, snd u))" using r by simp
  obtain acc' where "router.tries rs u = (acc', t)" "acc = (if r = Ret () then (h, v) # acc' else acc')"
    using router.tries_step [OF Cons.prems(1) [unfolded e] r] .
  then show ?case using Cons.IH [of u acc'] register_run [OF Cons.prems(2) step] register_oom [OF step] by (auto simp: e)
qed simp

text \<open>@C:router_dispatch
  The hydration router keeps its contract. Whatever routes a client registers, a query whose hash has been registered is
  handed, with the text of the last error cleared, to the function of the last registration of the hash that succeeded,
  and the status is the one of that function; any other is refused with "Route not found for query ID". While memory
  lasts every registration succeeds, and freeing the router gives back what it took.
\<close>

theorem router_dispatch:
  assumes "register_all rs (\<lparr>routes = None, routes_capacity = 0\<rparr>, m) = (acc, (rt, m'))"
  shows "cdd_c_hydrate_router_dispatch (Some rt) h (Some row) True (msg, obj) =
     (case map_of (rev acc) h of
        None \<Rightarrow> (C_ORM_ERROR_UNKNOWN, (''Route not found for query ID'', obj))
      | Some (mt, f) \<Rightarrow> (case f row ('''', obj) of (rc, (msg', obj')) \<Rightarrow>
          (rc, (if rc = C_ORM_OK then msg' else ''Hydration function returned error'', obj')))) \<and>
    (no_oom m \<longrightarrow> acc = rs) \<and> live (snd (snd (cdd_c_hydrate_router_free True (rt, m')))) = live m"
proof -
  have "router_map rt = map_of (rev acc)" "no_oom m \<longrightarrow> acc = rs" "live m' - router_blocks rt = live m"
    using router.tries_view [OF _ assms [unfolded register_all_tries]] register_all_memory [OF assms [unfolded register_all_tries]]
    by (simp_all add: router_ok_def router_map_def route_list_def router_blocks_def)
  then show ?thesis by (auto simp: dispatch_map cdd_c_hydrate_router_free_def router_blocks_def)
qed

lemma router_dispatch_witness:
  "\<exists>rt m'. register_all [(5, Some ''A'', \<lambda>a s. (C_ORM_OK, (fst s, 1))), (5, Some ''B'', \<lambda>a s. (C_ORM_ERROR_MEMORY, (fst s, 2)))]
      (\<lparr>routes = None, routes_capacity = 0\<rparr>, \<lparr>script = [], live = 0\<rparr>) =
      ([(5, Some ''A'', \<lambda>a s. (C_ORM_OK, (fst s, 1))), (5, Some ''B'', \<lambda>a s. (C_ORM_ERROR_MEMORY, (fst s, 2)))], (rt, m')) \<and>
    cdd_c_hydrate_router_dispatch (Some rt) 5 (Some \<lparr>kvs = None, kvs_capacity = 0\<rparr>) True (''old'', 0 :: nat) =
      (C_ORM_ERROR_MEMORY, (''Hydration function returned error'', 2))"
proof -
  define rs :: "(64 word \<times> string option \<times> nat hydrator) list" where
    "rs = [(5, Some ''A'', \<lambda>a s. (C_ORM_OK, (fst s, 1))), (5, Some ''B'', \<lambda>a s. (C_ORM_ERROR_MEMORY, (fst s, 2)))]"
  obtain acc rt m' where run: "register_all rs (\<lparr>routes = None, routes_capacity = 0\<rparr>, \<lparr>script = [], live = 0\<rparr>) = (acc, (rt, m'))"
    by (metis prod_cases3)
  note call = router_dispatch [OF run, of 5 "\<lparr>kvs = None, kvs_capacity = 0\<rparr>" "''old''" 0]
  then have acc: "acc = rs" by (simp add: no_oom_def)
  have "cdd_c_hydrate_router_dispatch (Some rt) 5 (Some \<lparr>kvs = None, kvs_capacity = 0\<rparr>) True (''old'', 0) =
      (C_ORM_ERROR_MEMORY, (''Hydration function returned error'', 2))"
    using call by (simp add: acc) (simp add: rs_def)
  with run acc show ?thesis unfolding rs_def [symmetric] by blast
qed

end
