(* ===== verification/Links.thy ===== *)
theory Links
  imports Batch
begin

text \<open>
  Links between objects: \<open>c_orm_attach\<close>, \<open>c_orm_detach\<close> and \<open>c_orm_sync\<close> of \<open>src/c_orm_api.c\<close>. A relation of one
  to many is a key of the parent in the children; one of many to many is a row of a table between them.

  The state is an array of structs and the connection: the first struct is the parent, the others are the children, one
  for attach and detach. The parent is not one of its own children, and the pointers are not NULL. The callbacks
  \<open>on_attach\<close> and \<open>on_detach\<close> of the relation are arguments, and so are the metadata and the hooks of the tables that
  relations point to.
\<close>

section \<open>Keys of the structs\<close>

abbreviation plain :: "api_table \<Rightarrow> c_orm_table_meta_t" where
  "plain m \<equiv> c_orm_table_meta_t.truncate m"

definition key_in :: "api_table \<Rightarrow> cptr \<Rightarrow> nat \<Rightarrow> ('d, 64 word) arr_act" where
  \<comment> \<open>\<open>get_int_field\<close> of the struct \<open>i\<close>; a name is compared with those of the columns\<close>
  "key_in m name i s =
     (if i < length (fst s) then
        (case name of
           None \<Rightarrow> if columns m = [] then (Err C_ORM_ERROR_NOT_FOUND, s) else (Stuck, s)
         | Some n \<Rightarrow> (get_int_field (plain m) (fst s ! i) n, s))
      else (Stuck, s))"

definition edit_item :: "nat \<Rightarrow> (field list \<Rightarrow> (heap, field list) act) \<Rightarrow> ('d, unit) arr_act" where
  "edit_item i f s =
     (if i < length (fst s) then
        (case f (fst s ! i) (cs_heap (snd s)) of
           (Ret obj, h) \<Rightarrow> (Ret (), ((fst s)[i := obj], (snd s)\<lparr>cs_heap := h\<rparr>))
         | (Err e, h) \<Rightarrow> (Err e, (fst s, (snd s)\<lparr>cs_heap := h\<rparr>))
         | (Stuck, h) \<Rightarrow> (Stuck, s))
      else (Stuck, s))"

definition put_key :: "api_table \<Rightarrow> cptr \<Rightarrow> 64 word \<Rightarrow> nat \<Rightarrow> ('d, unit) arr_act" where
  "put_key m name val i =
     edit_item i (\<lambda>obj. case name of
        None \<Rightarrow> if columns m = [] then perr C_ORM_ERROR_NOT_FOUND else stuck
      | Some n \<Rightarrow> set_int_field (plain m) obj n val)"

definition clear_key :: "api_table \<Rightarrow> cptr \<Rightarrow> nat \<Rightarrow> ('d, unit) arr_act" where
  "clear_key m name i =
     edit_item i (\<lambda>obj. case name of
        None \<Rightarrow> if columns m = [] then perr C_ORM_ERROR_NOT_FOUND else stuck
      | Some n \<Rightarrow> set_null_field (plain m) obj n)"

section \<open>Statements\<close>

definition named :: "cptr \<Rightarrow> (string \<Rightarrow> ('s, 'a) act) \<Rightarrow> ('s, 'a) act" where
  \<comment> \<open>\<open>%s\<close> of a NULL pointer is undefined\<close>
  "named p k = (case p of None \<Rightarrow> stuck | Some n \<Rightarrow> k n)"

definition link_query :: "'d row_vtable \<Rightarrow> string \<Rightarrow> (nat \<Rightarrow> ('d, unit) arr_act) \<Rightarrow> ('d, unit) arr_act" where
  \<comment> \<open>the text goes through a buffer of 512 bytes\<close>
  "link_query vt sql body =
     using_query (on_arr (prepared vt (Some (C_ORM_SPRINTF 512 sql)))) (\<lambda>q. on_arr (given_back vt q)) body"

definition bind_link :: "'d row_vtable \<Rightarrow> nat \<Rightarrow> int \<Rightarrow> 64 word \<Rightarrow> ('d, unit) arr_act" where
  \<comment> \<open>the status is not looked at\<close>
  "bind_link vt q i w = pbind (attempt (on_arr (drive (rv_bind_int64 vt q i w)))) (\<lambda>_. preturn ())"

definition step_link :: "'d row_vtable \<Rightarrow> nat \<Rightarrow> ('d, unit) arr_act" where
  "step_link vt q = pbind (on_arr (stepped vt q)) (\<lambda>_. preturn ())"

definition joined :: "c_orm_relation_meta_t \<Rightarrow> (string \<Rightarrow> string \<Rightarrow> string \<Rightarrow> ('s, 'a) act) \<Rightarrow> ('s, 'a) act" where
  "joined rel k =
     (case (join_table rel, join_local_key rel, join_foreign_key rel) of
        (Some jt, Some jl, Some jf) \<Rightarrow> k jt jl jf
      | _ \<Rightarrow> perr C_ORM_ERROR_UNKNOWN)"

definition insert_link :: "string \<Rightarrow> string \<Rightarrow> string \<Rightarrow> string" where
  "insert_link jt jl jf = ''INSERT INTO '' @ jt @ '' ('' @ jl @ '', '' @ jf @ '') VALUES (?, ?)''"

definition delete_link :: "string \<Rightarrow> string \<Rightarrow> string \<Rightarrow> string" where
  "delete_link jt jl jf = ''DELETE FROM '' @ jt @ '' WHERE '' @ jl @ '' = ? AND '' @ jf @ '' = ?''"

definition delete_links :: "string \<Rightarrow> string \<Rightarrow> string" where
  "delete_links jt jl = ''DELETE FROM '' @ jt @ '' WHERE '' @ jl @ '' = ?''"

definition clear_children :: "string \<Rightarrow> string \<Rightarrow> string" where
  "clear_children tn fk = ''UPDATE '' @ tn @ '' SET '' @ fk @ '' = NULL WHERE '' @ fk @ '' = ?''"

section \<open>One child\<close>

definition related :: "api_table \<Rightarrow> string \<Rightarrow> (c_orm_relation_meta_t \<Rightarrow> nat \<Rightarrow> ('s, 'a) act) \<Rightarrow> ('s, 'a) act" where
  \<comment> \<open>the relation of that name, and the table it points to\<close>
  "related pm name k =
     (case find_relation (plain pm) name of
        None \<Rightarrow> perr C_ORM_ERROR_NOT_FOUND
      | Some rel \<Rightarrow> (case target_meta rel of None \<Rightarrow> perr C_ORM_ERROR_NOT_FOUND | Some t \<Rightarrow> k rel t))"

definition callback :: "('d, unit) arr_act option \<Rightarrow> ('d, unit) arr_act" where
  "callback f = (case f of None \<Rightarrow> preturn () | Some g \<Rightarrow> g)"

definition link_pair :: "'d row_vtable \<Rightarrow> api_table \<Rightarrow> api_table \<Rightarrow> c_orm_relation_meta_t \<Rightarrow> (string \<Rightarrow> string \<Rightarrow> string \<Rightarrow> string) \<Rightarrow> ('d, unit) arr_act" where
  \<comment> \<open>a statement on the table between the two, with both keys\<close>
  "link_pair vt pm tm rel sql =
     joined rel (\<lambda>jt jl jf.
     pbind (key_in pm (local_key rel) 0) (\<lambda>parent_pk.
     pbind (key_in tm (foreign_key rel) 1) (\<lambda>child_pk.
     link_query vt (sql jt jl jf) (\<lambda>q.
       pbind (bind_link vt q 1 parent_pk) (\<lambda>_. pbind (bind_link vt q 2 child_pk) (\<lambda>_. step_link vt q))))))"

definition c_orm_attach ::
    "api_config \<Rightarrow> 'd row_vtable \<Rightarrow> (nat \<Rightarrow> api_table) \<Rightarrow> (nat \<Rightarrow> 'd api_hooks) \<Rightarrow> api_table \<Rightarrow> string \<Rightarrow> ('d, unit) arr_act option \<Rightarrow>
     ('d, unit) arr_act" where
  "c_orm_attach cfg vt st hk pm name on_attach =
     related pm name (\<lambda>rel t.
     pbind (callback on_attach) (\<lambda>_.
     case rel_type rel of
       C_ORM_RELATION_ONE_TO_MANY \<Rightarrow>
         pbind (key_in pm (local_key rel) 0) (\<lambda>parent_pk.
         pbind (put_key (st t) (foreign_key rel) parent_pk 1) (\<lambda>_.
         at_item 1 (c_orm_save cfg vt (hk t) (st t))))
     | C_ORM_RELATION_MANY_TO_MANY \<Rightarrow> link_pair vt pm (st t) rel insert_link
     | _ \<Rightarrow> perr C_ORM_ERROR_UNKNOWN))"

definition c_orm_detach ::
    "api_config \<Rightarrow> 'd row_vtable \<Rightarrow> (nat \<Rightarrow> api_table) \<Rightarrow> (nat \<Rightarrow> 'd api_hooks) \<Rightarrow> api_table \<Rightarrow> string \<Rightarrow> ('d, unit) arr_act option \<Rightarrow>
     ('d, unit) arr_act" where
  "c_orm_detach cfg vt st hk pm name on_detach =
     related pm name (\<lambda>rel t.
     pbind (callback on_detach) (\<lambda>_.
     case rel_type rel of
       C_ORM_RELATION_ONE_TO_MANY \<Rightarrow>
         pbind (clear_key (st t) (foreign_key rel) 1) (\<lambda>_. at_item 1 (c_orm_save cfg vt (hk t) (st t)))
     | C_ORM_RELATION_MANY_TO_MANY \<Rightarrow> link_pair vt pm (st t) rel delete_link
     | _ \<Rightarrow> perr C_ORM_ERROR_UNKNOWN))"

section \<open>All children\<close>

definition adopt :: "api_config \<Rightarrow> 'd row_vtable \<Rightarrow> 'd api_hooks \<Rightarrow> api_table \<Rightarrow> cptr \<Rightarrow> 64 word \<Rightarrow> nat \<Rightarrow> ('d, unit) arr_act" where
  \<comment> \<open>the struct \<open>i\<close> is given the key of the parent\<close>
  "adopt cfg vt hooks tm fk parent_pk i =
     pbind (put_key tm fk parent_pk i) (\<lambda>_. at_item i (c_orm_save cfg vt hooks tm))"

definition join_child :: "'d row_vtable \<Rightarrow> api_table \<Rightarrow> cptr \<Rightarrow> 64 word \<Rightarrow> nat \<Rightarrow> nat \<Rightarrow> ('d, unit) arr_act" where
  "join_child vt tm fk parent_pk q i =
     pbind (key_in tm fk i) (\<lambda>child_pk.
     pbind (bind_link vt q 1 parent_pk) (\<lambda>_.
     pbind (bind_link vt q 2 child_pk) (\<lambda>_.
     pbind (step_link vt q) (\<lambda>_.
     on_arr (drive (vt_reset (rv_statements vt) q))))))"

definition c_orm_sync ::
    "api_config \<Rightarrow> 'd row_vtable \<Rightarrow> (nat \<Rightarrow> api_table) \<Rightarrow> (nat \<Rightarrow> 'd api_hooks) \<Rightarrow> api_table \<Rightarrow> string \<Rightarrow> nat \<Rightarrow> ('d, unit) arr_act" where
  "c_orm_sync cfg vt st hk pm name num_children =
     related pm name (\<lambda>rel t.
     case rel_type rel of
       C_ORM_RELATION_ONE_TO_MANY \<Rightarrow>
         pbind (key_in pm (local_key rel) 0) (\<lambda>parent_pk.
         named (tbl_name (st t)) (\<lambda>tn. named (foreign_key rel) (\<lambda>fk.
         pbind (link_query vt (clear_children tn fk) (\<lambda>q. pbind (bind_link vt q 1 parent_pk) (\<lambda>_. step_link vt q))) (\<lambda>_.
         for_items (adopt cfg vt (hk t) (st t) (Some fk) parent_pk) 1 num_children))))
     | C_ORM_RELATION_MANY_TO_MANY \<Rightarrow>
         joined rel (\<lambda>jt jl jf.
         pbind (key_in pm (local_key rel) 0) (\<lambda>parent_pk.
         pbind (link_query vt (delete_links jt jl) (\<lambda>q. pbind (bind_link vt q 1 parent_pk) (\<lambda>_. step_link vt q))) (\<lambda>_.
         link_query vt (insert_link jt jl jf) (\<lambda>q. for_items (join_child vt (st t) (foreign_key rel) parent_pk q) 1 num_children))))
     | _ \<Rightarrow> perr C_ORM_ERROR_UNKNOWN)"

end
