(* ===== verification/LinkProps.thy ===== *)
theory LinkProps
  imports Links BatchProps
begin

text \<open>
  Properties of the links between objects: the statements that attaching, detaching and replacing children send to the
  driver, seen by the observer \<open>logged\<close>; and no statement stays open.
\<close>

section \<open>Actions that send nothing\<close>

context framed_rows begin

lemma framed_edit_item [framing]: "framed snd (edit_item i f)"
  by (auto simp: framed_def edit_item_def moved_heap split: outcome.splits prod.splits if_splits)

lemma framed_key_in [framing]: "framed snd (key_in m name i)"
  by (rule framed_pure) (simp add: key_in_def split: option.splits)

lemma framed_keys [framing]: "framed snd (put_key m name w i)" "framed snd (clear_key m name i)"
  by (simp_all add: put_key_def clear_key_def framing)

lemma framed_links [framing]: "framed snd (bind_link vt q i w)" "framed snd (step_link vt q)"
  by (auto simp: bind_link_def step_link_def intro!: framing frame_bind_int64)

end

section \<open>What is sent\<close>

lemma logs_at_item: "logs snd m P \<Longrightarrow> logs snd (at_item i m) P"
  unfolding logs_def at_item_def by (fastforce split: prod.splits if_splits)

lemma logs_link_query:
  assumes "\<And>q. logs snd (body q) (\<lambda>r L. L = [])"
  shows "logs snd (link_query (logged vt) sql body) (\<lambda>r L. L = [C_ORM_SPRINTF 512 sql])"
  unfolding link_query_def
  by (rule logs_using_query [OF logs_on_arr [OF logs_prepared] logs_on_arr [OF logs_given_back] assms])

lemma logs_row_query_opt:
  assumes "\<And>q. logged.framed snd (body q)"
  shows "logs snd (row_query (logged vt) sql body) (\<lambda>r L. case sql of None \<Rightarrow> L = [] \<and> (\<nexists>a. r = Ret a) | Some x \<Rightarrow> L = [x])"
proof (cases sql)
  case None
  then show ?thesis
    by (auto simp: logs_def row_query_def using_query_def pbind_def on_db_def prepared_def c_orm_prepare_cached_def)
next
  case (Some x)
  then show ?thesis using logs_row_query [OF assms, of vt x] by simp
qed

definition saved :: "api_table \<Rightarrow> unit outcome \<Rightarrow> string list \<Rightarrow> bool" where
  "saved m r L \<longleftrightarrow> L = [] \<and> r \<noteq> Ret () \<or> (\<exists>x. L = [x] \<and> Some x \<in> {query_insert m, query_update m})"

lemma logs_silent:
  assumes "logged.framed snd m"
  shows "logs snd m (\<lambda>r L. L = [])"
  using assms by (rule logs_framed)

lemma logs_insert:
  assumes "quiet_hooks hooks"
  shows "logs snd (c_orm_insert cfg (logged vt) hooks m) (saved m)"
proof -
  let ?body = "\<lambda>q. pbind (bind_row cfg (logged vt) q (columns m) 0 1) (\<lambda>_. pbind (on_db (stepped (logged vt) q)) (\<lambda>_. preturn ()))"
  have row: "logs snd (row_query (logged vt) (query_insert m) ?body) (saved m)"
    by (rule logs_conseq [OF logs_row_query_opt]) (auto simp: saved_def intro!: framing split: option.splits)
  have h: "logs snd (hook h) (\<lambda>r L. L = [])"
    if "h \<in> {before_save hooks, after_save hooks, before_insert hooks, after_insert hooks, before_update hooks, after_update hooks,
      before_delete hooks, after_delete hooks}" for h
    using that by (intro logs_framed quiet_framed [OF assms])
  have after: "logs snd (pbind (hook (after_insert hooks)) (\<lambda>_. hook (after_save hooks))) (\<lambda>r L. L = [])"
    by (rule logs_bind [OF h h]) auto
  have ins: "logs snd (pbind (row_query (logged vt) (query_insert m) ?body) (\<lambda>_. pbind (hook (after_insert hooks)) (\<lambda>_. hook (after_save hooks)))) (saved m)"
    by (rule logs_bind [OF row after]) (auto simp: saved_def)
  show ?thesis
  proof (cases "is_view m")
    case False
    show ?thesis unfolding c_orm_insert_def using False
      by simp (rule logs_bind [OF h logs_bind [OF h ins]], auto simp: saved_def)
  qed (simp add: c_orm_insert_def logs_def perr_def saved_def)
qed

lemma logs_update: "logs snd (c_orm_update cfg (logged vt) m) (saved m)"
proof (cases "is_view m \<or> query_update m = None")
  case False
  show ?thesis unfolding c_orm_update_def using False
    by clarsimp (rule logs_conseq [OF logs_row_query_opt], auto simp: saved_def intro!: framing)
qed (auto simp: c_orm_update_def logs_def perr_def saved_def)

lemma logs_save:
  assumes "quiet_hooks hooks"
  shows "logs snd (c_orm_save cfg (logged vt) hooks m) (saved m)"
  using logs_insert [OF assms, of cfg vt m] logs_update [of cfg vt m]
  unfolding logs_def c_orm_save_def by (auto simp: perr_def saved_def split: outcome.splits bool.splits if_splits)

section \<open>The statements of a sync\<close>

definition saves_of :: "api_table \<Rightarrow> nat \<Rightarrow> unit outcome \<Rightarrow> string list \<Rightarrow> bool" where
  \<comment> \<open>at most \<open>n\<close> statements that save a child, and \<open>n\<close> when all went well\<close>
  "saves_of tm n r L \<longleftrightarrow> length L \<le> n \<and> (r = Ret () \<longrightarrow> length L = n) \<and> (\<forall>x \<in> set L. Some x \<in> {query_insert tm, query_update tm})"

lemma logs_adopt_all:
  assumes "quiet_hooks hooks"
  shows "logs snd (for_items (adopt cfg (logged vt) hooks tm fk w) i n) (saves_of tm n)"
proof (induction n arbitrary: i)
  case 0
  show ?case by (simp add: logs_def preturn_def saves_of_def)
next
  case (Suc n)
  have put: "logs snd (put_key tm fk w i) (\<lambda>r L. L = [])" by (intro logs_framed framing)
  have one: "logs snd (adopt cfg (logged vt) hooks tm fk w i) (saved tm)"
    unfolding adopt_def by (rule logs_bind [OF put logs_at_item [OF logs_save [OF assms]]]) (auto simp: saved_def)
  show ?case unfolding for_items.simps by (rule logs_bind [OF one Suc]) (auto simp: saved_def saves_of_def)
qed

lemma logs_join_all: "logs snd (for_items (join_child (logged vt) tm fk w q) i n) (\<lambda>r L. L = [])"
proof (induction n arbitrary: i)
  case 0
  show ?case by (simp add: logs_def preturn_def)
next
  case (Suc n)
  have reset: "logs snd (on_arr (drive (vt_reset (rv_statements (logged vt)) q))) (\<lambda>r L. L = [])"
    by (rule logs_on_arr) (auto simp: logs_def drive_def logged_def silent_def split: prod.splits)
  have quiet: "logs snd (key_in tm fk i) (\<lambda>r L. L = [])" "logs snd (bind_link (logged vt) q k v) (\<lambda>r L. L = [])"
    "logs snd (step_link (logged vt) q) (\<lambda>r L. L = [])" for k v
    by (intro logs_framed framing)+
  have one: "logs snd (join_child (logged vt) tm fk w q i) (\<lambda>r L. L = [])"
    unfolding join_child_def
    by (rule logs_bind [OF quiet(1) logs_bind [OF quiet(2) logs_bind [OF quiet(2) logs_bind [OF quiet(3) reset]]]]) simp_all
  show ?case unfolding for_items.simps by (rule logs_bind [OF one Suc]) auto
qed

definition sync_log :: "c_orm_relation_meta_t \<Rightarrow> api_table \<Rightarrow> nat \<Rightarrow> unit outcome \<Rightarrow> string list \<Rightarrow> bool" where
  "sync_log rel tm n r L \<longleftrightarrow>
     L = [] \<and> r \<noteq> Ret () \<or>
     (case (rel_type rel, tbl_name tm, foreign_key rel, join_table rel, join_local_key rel, join_foreign_key rel) of
        (C_ORM_RELATION_ONE_TO_MANY, Some tn, Some fk, _) \<Rightarrow>
          (\<exists>saves. L = C_ORM_SPRINTF 512 (clear_children tn fk) # saves \<and>
             (saves_of tm n r saves \<or> saves = [] \<and> r \<noteq> Ret ()))
      | (C_ORM_RELATION_MANY_TO_MANY, _, _, Some jt, Some jl, Some jf) \<Rightarrow>
          L = [C_ORM_SPRINTF 512 (delete_links jt jl), C_ORM_SPRINTF 512 (insert_link jt jl jf)] \<or>
          L = [C_ORM_SPRINTF 512 (delete_links jt jl)] \<and> r \<noteq> Ret ()
      | _ \<Rightarrow> False)"

lemma logs_sync:
  assumes hooks: "quiet_hooks (hk t)" and rel: "find_relation (plain pm) name = Some rel" "target_meta rel = Some t"
  shows "logs snd (c_orm_sync cfg (logged vt) st hk pm name n) (sync_log rel (st t) n)"
proof -
  have failed: "logs snd (perr e) (sync_log rel (st t) n)" "logs snd stuck (sync_log rel (st t) n)" for e
    by (simp_all add: logs_def perr_def stuck_def sync_log_def)
  have key: "logs snd (key_in pm (local_key rel) 0) (\<lambda>r L. L = [])" by (intro logs_framed framing)
  have one: "logs snd (pbind (bind_link (logged vt) q 1 w) (\<lambda>_. step_link (logged vt) q)) (\<lambda>r L. L = [])" for q w
    by (intro logs_framed framing)
  show ?thesis
  proof (cases "rel_type rel")
    case C_ORM_RELATION_ONE_TO_MANY
    have all: "logs snd (pbind (link_query (logged vt) (clear_children tn fk) (\<lambda>q. pbind (bind_link (logged vt) q 1 w) (\<lambda>_. step_link (logged vt) q)))
        (\<lambda>_. for_items (adopt cfg (logged vt) (hk t) (st t) (Some fk) w) 1 n)) (sync_log rel (st t) n)"
      if "tbl_name (st t) = Some tn" "foreign_key rel = Some fk" for tn fk w
      by (rule logs_bind [OF logs_link_query [OF one] logs_adopt_all [OF hooks]])
        (auto simp: sync_log_def that C_ORM_RELATION_ONE_TO_MANY)
    have rest: "logs snd (named (tbl_name (st t)) (\<lambda>tn. named (foreign_key rel) (\<lambda>fk.
        pbind (link_query (logged vt) (clear_children tn fk) (\<lambda>q. pbind (bind_link (logged vt) q 1 w) (\<lambda>_. step_link (logged vt) q)))
        (\<lambda>_. for_items (adopt cfg (logged vt) (hk t) (st t) (Some fk) w) 1 n)))) (sync_log rel (st t) n)" for w
      using all failed(2) by (auto simp: named_def split: option.splits)
    show ?thesis unfolding c_orm_sync_def related_def rel option.case C_ORM_RELATION_ONE_TO_MANY c_orm_relation_type_t.case
      by (rule logs_bind [OF key rest]) (auto simp: sync_log_def)
  next
    case C_ORM_RELATION_MANY_TO_MANY
    have all: "logs snd (pbind (link_query (logged vt) (delete_links jt jl) (\<lambda>q. pbind (bind_link (logged vt) q 1 w) (\<lambda>_. step_link (logged vt) q)))
        (\<lambda>_. link_query (logged vt) (insert_link jt jl jf) (\<lambda>q. for_items (join_child (logged vt) (st t) (foreign_key rel) w q) 1 n)))
        (sync_log rel (st t) n)"
      if "join_table rel = Some jt" "join_local_key rel = Some jl" "join_foreign_key rel = Some jf" for jt jl jf w
      by (rule logs_bind [OF logs_link_query [OF one] logs_link_query [OF logs_join_all]])
        (auto simp: sync_log_def that C_ORM_RELATION_MANY_TO_MANY)
    have rest: "logs snd (pbind (key_in pm (local_key rel) 0) (\<lambda>w.
        pbind (link_query (logged vt) (delete_links jt jl) (\<lambda>q. pbind (bind_link (logged vt) q 1 w) (\<lambda>_. step_link (logged vt) q)))
        (\<lambda>_. link_query (logged vt) (insert_link jt jl jf) (\<lambda>q. for_items (join_child (logged vt) (st t) (foreign_key rel) w q) 1 n))))
        (sync_log rel (st t) n)"
      if "join_table rel = Some jt" "join_local_key rel = Some jl" "join_foreign_key rel = Some jf" for jt jl jf
      by (rule logs_bind [OF key all [OF that]]) (auto simp: sync_log_def)
    show ?thesis unfolding c_orm_sync_def related_def rel option.case C_ORM_RELATION_MANY_TO_MANY c_orm_relation_type_t.case joined_def
      using rest failed(1) by (auto split: option.splits)
  qed (use failed(1) in \<open>simp_all add: c_orm_sync_def related_def rel\<close>)
qed

text \<open>@C:sync_statements
  The statements of \<open>c_orm_sync\<close>, for any driver behind a connection without a cache: for one to many, an UPDATE that
  clears the key in all present children and then one statement for each new child that saves it; for many to many, a
  DELETE of all links and one INSERT that is stepped for each child. When the call fails, a first part of these has been
  sent, and nothing undoes it: there is no transaction around them.
\<close>

theorem sync_statements:
  assumes "quiet_hooks (hk t)" and "find_relation (plain pm) name = Some rel" and "target_meta rel = Some t"
    and "cs_cache (snd s) = None" and "c_orm_sync cfg (logged vt) st hk pm name n s = (r, u)" and "r \<noteq> Stuck"
  shows "\<exists>L. snd (cs_driver (snd u)) = snd (cs_driver (snd s)) @ L \<and> sync_log rel (st t) n r L"
  using logsD [OF logs_sync [where hk = hk, OF assms(1-3)] assms(5,6,4)] .

definition sample_relation :: c_orm_relation_meta_t where
  "sample_relation = \<lparr>field_name = ''tags'', rel_type = C_ORM_RELATION_MANY_TO_MANY, target_table = Some ''u'', foreign_key = Some ''id'',
     local_key = Some ''id'', target_meta = Some 0, join_table = Some ''ut'', join_local_key = Some ''u_id'', join_foreign_key = Some ''t_id''\<rparr>"

definition sample_parent :: api_table where
  "sample_parent = sample_api_table\<lparr>relations := [sample_relation]\<rparr>"

lemma sample_sync_run:
  "fst (c_orm_sync sample_config (logged memory_row_vtable) (\<lambda>_. sample_api_table) (\<lambda>_. no_hooks) sample_parent ''tags'' 2 sample_batch) = Ret ()"
  "snd (cs_driver (snd (snd (c_orm_sync sample_config (logged memory_row_vtable) (\<lambda>_. sample_api_table) (\<lambda>_. no_hooks) sample_parent ''tags'' 2 sample_batch)))) =
     [''DELETE FROM ut WHERE u_id = ?'', ''INSERT INTO ut (u_id, t_id) VALUES (?, ?)'']"
  "find_relation (plain sample_parent) ''tags'' = Some sample_relation" "target_meta sample_relation = Some 0"
  by code_simp+

lemma sync_statements_witness:
  "sync_log sample_relation sample_api_table 2 (Ret ()) [''DELETE FROM ut WHERE u_id = ?'', ''INSERT INTO ut (u_id, t_id) VALUES (?, ?)'']"
proof -
  obtain r u where run: "c_orm_sync sample_config (logged memory_row_vtable) (\<lambda>_. sample_api_table) (\<lambda>_. no_hooks) sample_parent ''tags'' 2 sample_batch = (r, u)"
    by (metis surj_pair)
  note ran = sample_sync_run [unfolded run fst_conv snd_conv]
  have "r \<noteq> Stuck" using ran(1) by simp
  from sync_statements [where hk = "\<lambda>_. no_hooks", OF quiet_no_hooks ran(3,4) sample_batch_run(3) run this] show ?thesis
    by (simp add: ran sample_batch_run)
qed

end
