(* ===== verification/LinkKeep.thy ===== *)
theory LinkKeep
  imports LinkProps
begin

text \<open>
  Attaching, detaching and replacing children give back every statement they prepare, on every path, over any driver that
  keeps account of its statements.
\<close>

context reliable_rows begin

lemma safe_using:
  \<comment> \<open>the frame around a statement, wherever the connection is in the state\<close>
  assumes prep: "\<And>H. triple True (\<lambda>s. within (complete H) (db s)) prep (\<lambda>q s. q \<notin> H \<and> within (complete (insert q H)) (db s))
      (\<lambda>s. within (complete H) (db s))"
    and fin: "\<And>q H. q \<notin> H \<Longrightarrow> triple True (\<lambda>s. within (complete (insert q H)) (db s)) (fin q) (\<lambda>_ s. within (complete H) (db s))
      (\<lambda>s. within (complete H) (db s))"
    and body: "\<And>q. framed db (body q)"
  shows "safe db (using_query prep fin body)"
  unfolding safe_def
proof
  fix H
  let ?Q = "\<lambda>q s. q \<notin> H \<and> within (complete (insert q H)) (db s)"
  show "triple True (\<lambda>s. within (complete H) (db s)) (using_query prep fin body) (\<lambda>_ s. within (complete H) (db s)) (\<lambda>s. within (complete H) (db s))"
  proof (rule t_using_query(1) [OF prep])
    fix q
    have "triple True (\<lambda>s. within (complete (insert q H)) (db s)) (body q) (\<lambda>_ s. within (complete (insert q H)) (db s))
        (\<lambda>s. within (complete (insert q H)) (db s))"
      by (rule t_keeps [OF body stable_complete])
    then show "triple True (?Q q) (body q) (\<lambda>_. ?Q q) (?Q q)" unfolding triple_def by (fastforce split: prod.splits outcome.splits)
    show "triple True (?Q q) (fin q) (\<lambda>_ s. within (complete H) (db s)) (\<lambda>s. within (complete H) (db s))"
      using fin [of q H] by (auto simp: triple_def)
  qed
qed

lemma t_on_arr:
  fixes m :: "('d, 'a) cached"
  assumes "triple True P m Q E"
  shows "triple True (\<lambda>s. P (snd s)) (on_arr m) (\<lambda>a s. Q a (snd s)) (\<lambda>s. E (snd s))"
  unfolding triple_def
proof (intro allI impI)
  fix s :: "field list list \<times> 'd cache_state" assume "P (snd s)"
  moreover obtain r t where r: "m (snd s) = (r, t)" by (cases "m (snd s)")
  ultimately have "case r of Ret a \<Rightarrow> Q a t | Err e \<Rightarrow> E t | Stuck \<Rightarrow> True" using triple_at [OF assms] by blast
  with r show "case on_arr m s of (Ret a, t) \<Rightarrow> Q a (snd t) | (Err e, t) \<Rightarrow> E (snd t) | (Stuck, t) \<Rightarrow> True"
    by (cases r) (simp_all add: on_arr_def)
qed

lemma framed_reset [framing]: "framed (\<lambda>s. s) (drive (vt_reset (rv_statements vt) q))"
proof (rule framed_drive)
  show "frames (\<lambda>d d'. good d \<longrightarrow> good d' \<and> alive d' = alive d) (vt_reset (rv_statements vt) q)"
    unfolding frames_def
  proof (intro allI impI)
    fix d r d' assume "vt_reset (rv_statements vt) q d = (r, d')" "r \<noteq> Stuck" "good d"
    then show "good d' \<and> alive d' = alive d" using reset_ret reset_err by (cases r) blast+
  qed
qed

lemma safe_link_query [saving]: "(\<And>q. framed snd (body q)) \<Longrightarrow> safe snd (link_query vt sql body)"
  unfolding link_query_def by (rule safe_using [OF t_on_arr [OF t_prepared] t_on_arr [OF t_given_back]])

lemma safe_at_item [saving]:
  fixes m :: "('d, 'a) row_act"
  assumes "safe snd m"
  shows "safe snd (at_item i m)"
proof -
  have "case at_item i m s of (Ret a, t) \<Rightarrow> within (complete H) (snd t) | (Err e, t) \<Rightarrow> within (complete H) (snd t) | (Stuck, t) \<Rightarrow> True"
    if s: "within (complete H) (snd s)" for H s
  proof (cases "i < length (fst s)")
    case True
    obtain r obj d where r: "m (fst s ! i, snd s) = (r, (obj, d))" by (metis prod_cases3)
    have "case r of Ret a \<Rightarrow> within (complete H) d | Err e \<Rightarrow> within (complete H) d | Stuck \<Rightarrow> True"
      using triple_at [OF assms [unfolded safe_def, rule_format, of H] _ r] s by (cases r) simp_all
    then show ?thesis using True r by (cases r) (simp_all add: at_item_def)
  qed (simp add: at_item_def)
  then show ?thesis by (simp add: safe_def triple_def)
qed

lemma safe_for_items [saving]: "(\<And>i. safe snd (body i)) \<Longrightarrow> safe snd (for_items body i n)"
  by (induction n arbitrary: i) (auto intro!: saving)

lemma safe_related: "(\<And>rel t. safe db (k rel t)) \<Longrightarrow> safe db (related pm name k)"
  by (auto simp: related_def intro!: saving)

lemma safe_named: "(\<And>n. safe db (k n)) \<Longrightarrow> safe db (named p k)"
  by (auto simp: named_def intro!: saving)

lemma safe_joined: "(\<And>jt jl jf. safe db (k jt jl jf)) \<Longrightarrow> safe db (joined rel k)"
  by (auto simp: joined_def intro!: saving)

lemma safe_keys [saving]: "safe snd (key_in m name i)" "safe snd (put_key m name w i)" "safe snd (clear_key m name i)"
  by (intro framed_safe framing)+

lemma safe_link_pair [saving]: "safe snd (link_pair vt pm tm rel sql)"
  unfolding link_pair_def by (intro safe_joined saving framing)

lemma framed_join_child [framing]: "framed snd (join_child vt tm fk w q i)"
  unfolding join_child_def by (intro framing)

lemma safe_links:
  assumes "\<And>t. safe_hooks (hk t)" and "safe snd (callback f)"
  shows "safe snd (c_orm_attach cfg vt st hk pm name f)" and "safe snd (c_orm_detach cfg vt st hk pm name f)"
    and "safe snd (c_orm_sync cfg vt st hk pm name n)"
  unfolding c_orm_attach_def c_orm_detach_def c_orm_sync_def adopt_def
  by (auto intro!: safe_related safe_named safe_joined saving framing assms split: c_orm_relation_type_t.splits)

end

end
