(* ===== verification/Spec2Isabelle.thy ===== *)
theory Spec2Isabelle
  imports Prelude Act StringBuilder Meta SelectBuilder SelectSpec UpdateSpec SelectExtra Arena
    QuerySql QuerySpec QueryProps QueryFluent FluentSpec FluentProps
    SqlLex SqlParse SqlParseSpec SqlSafe SqlRoundtrip SqlDdl SqlText
    MemoryDriver MemorySpec MemoryRefine MemoryLeak StmtCache CacheSpec CacheRefine CacheProps RelationGraph
    IdentityMap
    IdentitySpec
    IdentityRefine
    Field
    Row
    RowProps
    RowStore
    RowMemory
    Records
    Dynamic
    Batch
    Arrays
    RecordKeep
    MemoryKeep
    RecordProps
    RowTrip
    RowFrame
    BatchProps
    OauthToken
    OauthTokenProps
    Oauth2
    Oauth2Props
    KeyedArray
    AbstractStruct
    AbstractProps
    AbstractSpec
    Router
    Links
    LinkProps
    LinkKeep
begin

text \<open>
  Verification development for c-orm, an object-relational mapper in C.
\<close>

end
